(* ===== verification/Prelude.thy ===== *)
theory Prelude
  imports Main "HOL-Library.Word"
begin

text \<open>
  Shared vocabulary of the development: the machine integers of the C sources, the RT-Thread
  status codes, bounds of the CANopen network, and the generic lemmas on words, lists and
  function updates that the component theories use.
\<close>

unbundle bit_operations_syntax

section \<open>Types\<close>

type_synonym u8 = "8 word"
type_synonym u16 = "16 word"
type_synonym u32 = "32 word"
type_synonym u64 = "64 word"
type_synonym bytes = "8 word list"
type_synonym size_t = "32 word" \<comment> \<open>32-bit targets\<close>

text \<open>
  \<open>rt_err_t\<close>: zero for success and negated error numbers. The numeric values belong to RT-Thread,
  so the codes the port names are constructors and every other value a driver or kernel call may
  return is \<open>RT_EOTHER\<close> with its number.
\<close>

datatype rt_err =
    RT_EOK | RT_ERROR | RT_ETIMEOUT | RT_EBUSY | RT_EINVAL | RT_ENOMEM | RT_ENOSYS
  | RT_EOTHER nat

text \<open>SDO abort codes (\<open>lely/co/sdo.h\<close>).\<close>

definition CO_SDO_AC_NO_SDO :: u32 where "CO_SDO_AC_NO_SDO = 0x060A0023"
definition CO_SDO_AC_ERROR :: u32 where "CO_SDO_AC_ERROR = 0x08000000"
definition CO_SDO_AC_TIMEOUT :: u32 where "CO_SDO_AC_TIMEOUT = 0x05040000"
definition CO_SDO_AC_TYPE_LEN_LO :: u32 where "CO_SDO_AC_TYPE_LEN_LO = 0x06070013"

text \<open>NMT states (\<open>lely/co/nmt.h\<close>).\<close>

definition CO_NMT_ST_BOOTUP :: u8 where "CO_NMT_ST_BOOTUP = 0x00"
definition CO_NMT_ST_TOGGLE :: u8 where "CO_NMT_ST_TOGGLE = 0x80"

section \<open>Fact collections\<close>

named_theorems word_range \<open>bounds of machine words as natural numbers\<close>
named_theorems step_inv \<open>preservation of component invariants by one operation\<close>
named_theorems frame \<open>what an operation leaves unchanged\<close>

section \<open>Words\<close>

lemma unat_u8_lt [word_range, simp]: "unat (x :: u8) < 256"
  using unsigned_less [of x] by simp

lemma unat_u16_lt [word_range, simp]: "unat (x :: u16) < 65536"
  using unsigned_less [of x] by simp

lemma unat_u32_lt [word_range, simp]: "unat (x :: u32) < 4294967296"
  using unsigned_less [of x] by simp

lemma unat_u64_lt [word_range, simp]: "unat (x :: u64) < 18446744073709551616"
  using unsigned_less [of x] by simp

lemma and_exp_neq_0_iff: "x AND 2 ^ n \<noteq> 0 \<longleftrightarrow> bit x n" for x :: "'a::len word"
  by (simp add: and_exp_eq_0_iff_not_bit)

lemma unat_ucast_mod: "unat (ucast x :: 'b::len word) = unat x mod 2 ^ LENGTH('b)"
  for x :: "'a::len word"
  by (simp add: unsigned_ucast_eq take_bit_eq_mod)

lemma unat_ucast_up [simp]:
  "unat (ucast (x :: u32) :: u64) = unat x"
  "unat (ucast (y :: u8) :: u32) = unat y"
  "unat (ucast (y :: u8) :: u64) = unat y"
  "unat (ucast (y :: u8) :: u16) = unat y"
  "unat (ucast (z :: u16) :: u32) = unat z"
proof -
  show "unat (ucast (x :: u32) :: u64) = unat x"
    unfolding unat_ucast_mod by (rule mod_less, rule order_less_trans [OF unat_u32_lt]) simp
  show "unat (ucast (z :: u16) :: u32) = unat z"
    unfolding unat_ucast_mod by (rule mod_less, rule order_less_trans [OF unat_u16_lt]) simp
  show "unat (ucast (y :: u8) :: u32) = unat y" "unat (ucast (y :: u8) :: u64) = unat y"
    "unat (ucast (y :: u8) :: u16) = unat y"
    unfolding unat_ucast_mod by (rule mod_less, rule order_less_trans [OF unat_u8_lt], simp)+
qed

lemma bit_beyond [simp]:
  "\<not> bit (x :: u8) (8 + n)" "\<not> bit (x :: u8) (16 + n)" "\<not> bit (x :: u8) (24 + n)" "\<not> bit (y :: u16) (16 + n)"
  using bit_imp_le_length by force+

lemma unat_u32: "k < 2 ^ 32 \<Longrightarrow> unat (of_nat k :: u32) = k"
  by (simp add: unat_of_nat)

end
