(* ===== verification/Crc.thy ===== *)
theory Crc
  imports Prelude
begin

text \<open>
  The CRC-16 of the SDO block transfer (\<open>upstream/src/co/crc.c\<close>): the table-driven loop \<open>co_crc\<close>
  with its 256-entry table, the bit-serial algorithm the source's comment gives for the table, and
  the facts the block transfer relies on: the loop computes the bit-serial checksum, it can be run
  over consecutive chunks, a message followed by its own checksum has remainder zero, and every
  error confined to two consecutive bytes changes the checksum.
\<close>

section \<open>Model\<close>

text \<open>The loop body of the comment that documents the table (polynomial 0x1021, MSB first).\<close>

definition crc_step :: "u16 \<Rightarrow> u16" where
  "crc_step crc = (if crc AND 0x8000 \<noteq> 0 then push_bit 1 crc XOR 0x1021 else push_bit 1 crc)"

fun crc_steps :: "nat \<Rightarrow> u16 \<Rightarrow> u16" where
  "crc_steps 0 crc = crc"
| "crc_steps (Suc k) crc = crc_steps k (crc_step crc)"

definition crc_tab_entry :: "nat \<Rightarrow> u16" where
  "crc_tab_entry n = crc_steps 8 (push_bit 8 (word_of_nat n))"

definition tab :: "u16 list" where
  "tab = [
    0x0000, 0x1021, 0x2042, 0x3063, 0x4084, 0x50a5, 0x60c6, 0x70e7,
    0x8108, 0x9129, 0xa14a, 0xb16b, 0xc18c, 0xd1ad, 0xe1ce, 0xf1ef,
    0x1231, 0x0210, 0x3273, 0x2252, 0x52b5, 0x4294, 0x72f7, 0x62d6,
    0x9339, 0x8318, 0xb37b, 0xa35a, 0xd3bd, 0xc39c, 0xf3ff, 0xe3de,
    0x2462, 0x3443, 0x0420, 0x1401, 0x64e6, 0x74c7, 0x44a4, 0x5485,
    0xa56a, 0xb54b, 0x8528, 0x9509, 0xe5ee, 0xf5cf, 0xc5ac, 0xd58d,
    0x3653, 0x2672, 0x1611, 0x0630, 0x76d7, 0x66f6, 0x5695, 0x46b4,
    0xb75b, 0xa77a, 0x9719, 0x8738, 0xf7df, 0xe7fe, 0xd79d, 0xc7bc,
    0x48c4, 0x58e5, 0x6886, 0x78a7, 0x0840, 0x1861, 0x2802, 0x3823,
    0xc9cc, 0xd9ed, 0xe98e, 0xf9af, 0x8948, 0x9969, 0xa90a, 0xb92b,
    0x5af5, 0x4ad4, 0x7ab7, 0x6a96, 0x1a71, 0x0a50, 0x3a33, 0x2a12,
    0xdbfd, 0xcbdc, 0xfbbf, 0xeb9e, 0x9b79, 0x8b58, 0xbb3b, 0xab1a,
    0x6ca6, 0x7c87, 0x4ce4, 0x5cc5, 0x2c22, 0x3c03, 0x0c60, 0x1c41,
    0xedae, 0xfd8f, 0xcdec, 0xddcd, 0xad2a, 0xbd0b, 0x8d68, 0x9d49,
    0x7e97, 0x6eb6, 0x5ed5, 0x4ef4, 0x3e13, 0x2e32, 0x1e51, 0x0e70,
    0xff9f, 0xefbe, 0xdfdd, 0xcffc, 0xbf1b, 0xaf3a, 0x9f59, 0x8f78,
    0x9188, 0x81a9, 0xb1ca, 0xa1eb, 0xd10c, 0xc12d, 0xf14e, 0xe16f,
    0x1080, 0x00a1, 0x30c2, 0x20e3, 0x5004, 0x4025, 0x7046, 0x6067,
    0x83b9, 0x9398, 0xa3fb, 0xb3da, 0xc33d, 0xd31c, 0xe37f, 0xf35e,
    0x02b1, 0x1290, 0x22f3, 0x32d2, 0x4235, 0x5214, 0x6277, 0x7256,
    0xb5ea, 0xa5cb, 0x95a8, 0x8589, 0xf56e, 0xe54f, 0xd52c, 0xc50d,
    0x34e2, 0x24c3, 0x14a0, 0x0481, 0x7466, 0x6447, 0x5424, 0x4405,
    0xa7db, 0xb7fa, 0x8799, 0x97b8, 0xe75f, 0xf77e, 0xc71d, 0xd73c,
    0x26d3, 0x36f2, 0x0691, 0x16b0, 0x6657, 0x7676, 0x4615, 0x5634,
    0xd94c, 0xc96d, 0xf90e, 0xe92f, 0x99c8, 0x89e9, 0xb98a, 0xa9ab,
    0x5844, 0x4865, 0x7806, 0x6827, 0x18c0, 0x08e1, 0x3882, 0x28a3,
    0xcb7d, 0xdb5c, 0xeb3f, 0xfb1e, 0x8bf9, 0x9bd8, 0xabbb, 0xbb9a,
    0x4a75, 0x5a54, 0x6a37, 0x7a16, 0x0af1, 0x1ad0, 0x2ab3, 0x3a92,
    0xfd2e, 0xed0f, 0xdd6c, 0xcd4d, 0xbdaa, 0xad8b, 0x9de8, 0x8dc9,
    0x7c26, 0x6c07, 0x5c64, 0x4c45, 0x3ca2, 0x2c83, 0x1ce0, 0x0cc1,
    0xef1f, 0xff3e, 0xcf5d, 0xdf7c, 0xaf9b, 0xbfba, 0x8fd9, 0x9ff8,
    0x6e17, 0x7e36, 0x4e55, 0x5e74, 0x2e93, 0x3eb2, 0x0ed1, 0x1ef0]"

text \<open>
  \<open>while (n--) crc = tab[*bp++ ^ (crc >> 8)] ^ (crc << 8)\<close>. Reading past the end of the buffer or
  of the table is undefined behaviour in C; here it is \<open>None\<close>.
\<close>

fun co_crc_loop :: "u16 \<Rightarrow> bytes \<Rightarrow> nat \<Rightarrow> u16 option" where
  "co_crc_loop crc bp 0 = Some crc"
| "co_crc_loop crc [] (Suc n) = None"
| "co_crc_loop crc (b # bp) (Suc n) =
     (let i = unat ((ucast b :: u16) XOR drop_bit 8 crc)
      in if i < length tab then co_crc_loop (tab ! i XOR push_bit 8 crc) bp n else None)"

text \<open>A null \<open>bp\<close> is \<open>None\<close>; \<open>if (bp && n)\<close> guards the loop.\<close>

definition co_crc :: "u16 \<Rightarrow> bytes option \<Rightarrow> nat \<Rightarrow> u16 option" where
  "co_crc crc bp n =
     (case bp of None \<Rightarrow> Some crc
      | Some bs \<Rightarrow> if n \<noteq> 0 then co_crc_loop crc bs n else Some crc)"

section \<open>Reference: the bit-serial checksum\<close>

fun crc_ref :: "u16 \<Rightarrow> bytes \<Rightarrow> u16" where
  "crc_ref crc [] = crc"
| "crc_ref crc (b # bs) = crc_ref (crc_steps 8 (crc XOR push_bit 8 (ucast b))) bs"

section \<open>The step is linear and injective\<close>

lemma crc_step_alt: "crc_step x = push_bit 1 x XOR (if bit x 15 then 0x1021 else 0)"
  using and_exp_neq_0_iff [of x 15] by (simp add: crc_step_def)

lemma crc_step_xor: "crc_step (x XOR y) = crc_step x XOR crc_step y"
proof -
  have "push_bit 1 (x XOR y) = push_bit 1 x XOR push_bit 1 y"
    by (rule bit_word_eqI) (auto simp: bit_simps)
  moreover have "bit (x XOR y) 15 \<longleftrightarrow> bit x 15 \<noteq> bit y 15"
    by (simp add: bit_xor_iff)
  ultimately show ?thesis
    by (auto simp: crc_step_alt ac_simps xor.left_commute)
qed

lemma crc_steps_xor: "crc_steps k (x XOR y) = crc_steps k x XOR crc_steps k y"
  by (induction k arbitrary: x y) (simp_all add: crc_step_xor)

lemma crc_step_0 [simp]: "crc_step 0 = 0"
  by (simp add: crc_step_def)

lemma crc_steps_0 [simp]: "crc_steps k 0 = 0"
  by (induction k) simp_all

lemma crc_steps_add: "crc_steps (j + k) x = crc_steps k (crc_steps j x)"
  by (induction j arbitrary: x) simp_all

lemma bit_push_1: "bit (push_bit 1 x) n \<longleftrightarrow> 1 \<le> n \<and> n < 16 \<and> bit x (n - 1)" for x :: u16
  unfolding bit_push_bit_iff by auto

lemma crc_step_eq_0D:
  assumes "crc_step x = 0"
  shows "x = 0"
proof -
  have "bit (crc_step x) 0 \<longleftrightarrow> bit x 15"
    unfolding crc_step_alt bit_xor_iff bit_push_1 by simp
  with assms have b15: "\<not> bit x 15" by simp
  with assms have z: "push_bit 1 x = 0" by (simp add: crc_step_alt)
  show ?thesis
  proof (rule bit_word_eqI)
    fix n assume "n < LENGTH(16)"
    moreover have "bit (push_bit 1 x) (Suc n) \<longleftrightarrow> n < 15 \<and> bit x n"
      unfolding bit_push_1 by auto
    ultimately show "bit x n = bit 0 n"
      using b15 unfolding z by (cases "n = 15") auto
  qed
qed

lemma crc_steps_eq_0D: "crc_steps k x = 0 \<Longrightarrow> x = 0"
  by (induction k arbitrary: x) (auto dest: crc_step_eq_0D)

lemma xor_eq_0_iff: "x XOR y = 0 \<longleftrightarrow> x = y" for x y :: "'a::len word"
  by (metis xor.right_neutral xor.assoc xor_self_eq)

lemma crc_steps_inj: "crc_steps k x = crc_steps k y \<longleftrightarrow> x = y"
proof
  assume "crc_steps k x = crc_steps k y"
  then have "crc_steps k (x XOR y) = 0" by (simp add: crc_steps_xor)
  then show "x = y" by (auto dest: crc_steps_eq_0D simp: xor_eq_0_iff)
qed simp

lemma crc_steps_shift:
  "k \<le> 16 \<Longrightarrow> \<forall>j \<ge> 16 - k. \<not> bit x j \<Longrightarrow> crc_steps k x = push_bit k x"
proof (induction k arbitrary: x)
  case (Suc k)
  then have step: "crc_step x = push_bit 1 x" by (simp add: crc_step_alt)
  have "\<not> bit (push_bit 1 x) j" if "16 - k \<le> j" for j
    using Suc.prems that unfolding bit_push_1 by auto
  with Suc have "crc_steps k (push_bit 1 x) = push_bit k (push_bit 1 x)" by simp
  with step show ?case by (simp add: push_bit_push_bit)
qed simp

section \<open>The table\<close>

lemma crc_step_numeral:
  "crc_step (numeral n) = (if (numeral n :: u16) AND 0x8000 \<noteq> 0
     then push_bit 1 (numeral n) XOR 0x1021 else push_bit 1 (numeral n))"
  "crc_step 1 = 2"
  by (simp_all add: crc_step_def)

lemma crc_steps_8: "crc_steps 8 c = crc_step (crc_step (crc_step (crc_step
    (crc_step (crc_step (crc_step (crc_step c)))))))"
  by (simp add: numeral_eq_Suc)

lemma tab_eq: "tab = map crc_tab_entry [0..<256]"
  by (simp add: tab_def crc_tab_entry_def crc_step_numeral crc_steps_8 upt_rec)

lemma length_tab [simp]: "length tab = 256"
  by (simp add: tab_eq)

lemma tab_nth: "n < 256 \<Longrightarrow> tab ! n = crc_tab_entry n"
  by (simp add: tab_eq)

section \<open>One byte of the loop\<close>

lemma crc_split: "x = push_bit 8 (drop_bit 8 x) XOR take_bit 8 x" for x :: u16
  by (rule bit_word_eqI) (auto simp: bit_simps)

lemma crc_index_lt: "unat ((ucast b :: u16) XOR drop_bit 8 crc) < 256" for b :: u8
proof -
  have "take_bit 8 ((ucast b :: u16) XOR drop_bit 8 crc) = ucast b XOR drop_bit 8 crc"
    by (rule bit_word_eqI) (auto simp: bit_simps dest: bit_imp_le_length)
  then have "unat ((ucast b :: u16) XOR drop_bit 8 crc)
      = take_bit 8 (unat ((ucast b :: u16) XOR drop_bit 8 crc))"
    by (metis unsigned_take_bit_eq)
  moreover have "take_bit 8 (unat ((ucast b :: u16) XOR drop_bit 8 crc)) < 256"
    using take_bit_nat_less_exp [of 8 "unat ((ucast b :: u16) XOR drop_bit 8 crc)"] by simp
  ultimately show ?thesis by linarith
qed

lemma crc_byte:
  "tab ! unat ((ucast b :: u16) XOR drop_bit 8 crc) XOR push_bit 8 crc
     = crc_steps 8 (crc XOR push_bit 8 (ucast b))" for b :: u8
proof -
  let ?i = "(ucast b :: u16) XOR drop_bit 8 crc"
  have low: "crc_steps 8 (take_bit 8 crc) = push_bit 8 crc"
    by (subst crc_steps_shift) (auto intro!: bit_word_eqI simp: bit_simps)
  have "crc XOR push_bit 8 (ucast b) = push_bit 8 ?i XOR take_bit 8 crc"
    by (rule bit_word_eqI) (auto simp: bit_simps)
  then have "crc_steps 8 (crc XOR push_bit 8 (ucast b)) = crc_steps 8 (push_bit 8 ?i) XOR push_bit 8 crc"
    by (simp add: crc_steps_xor low)
  moreover have "tab ! unat ?i = crc_steps 8 (push_bit 8 ?i)"
    using crc_index_lt [of b crc] by (simp add: tab_nth crc_tab_entry_def)
  ultimately show ?thesis by simp
qed

lemma co_crc_loop_ref: "n \<le> length bs \<Longrightarrow> co_crc_loop crc bs n = Some (crc_ref crc (take n bs))"
proof (induction crc bs n rule: co_crc_loop.induct)
  case (3 crc b bp n)
  then show ?case
    using crc_index_lt [of b crc] by (simp add: crc_byte Let_def)
qed simp_all

lemma crc_ref_append: "crc_ref crc (xs @ ys) = crc_ref (crc_ref crc xs) ys"
  by (induction xs arbitrary: crc) simp_all

lemma crc_ref_inj: "crc_ref c bs = crc_ref d bs \<longleftrightarrow> c = d"
proof (induction bs arbitrary: c d)
  case (Cons b bs)
  have "c XOR x = d XOR x \<longleftrightarrow> c = d" for x
    by (metis xor.right_neutral xor.assoc xor_self_eq)
  with Cons show ?case by (simp add: crc_steps_inj)
qed simp

lemma crc_ref_two_bytes:
  "crc_ref c [a, b] = crc_steps 16 (c XOR (push_bit 8 (ucast a) OR ucast b))"
proof -
  have "crc_steps 8 (ucast b :: u16) = push_bit 8 (ucast b)"
    by (subst crc_steps_shift) (auto simp: bit_simps dest: bit_imp_le_length)
  moreover have "crc_steps 16 x = crc_steps 8 (crc_steps 8 x)" for x
    using crc_steps_add [of 8 8 x] by simp
  moreover have "push_bit 8 (ucast a) OR ucast b = push_bit 8 (ucast a) XOR (ucast b :: u16)"
    by (rule bit_word_eqI) (auto simp: bit_simps dest: bit_imp_le_length)
  ultimately show ?thesis
    by (simp add: crc_steps_xor ac_simps)
qed

lemma co_crc_run: "n \<le> length bs \<Longrightarrow> co_crc crc (Some bs) n = Some (crc_ref crc (take n bs))"
  by (cases "n = 0") (simp_all add: co_crc_def co_crc_loop_ref)

lemma crc_bytes_of_word: "push_bit 8 (ucast (ucast (drop_bit 8 c) :: u8)) OR ucast (ucast c :: u8) = c"
  for c :: u16
  by (rule bit_word_eqI) (auto simp: bit_simps)

lemma crc_word_of_bytes_inj:
  "push_bit 8 (ucast a) OR ucast b = push_bit 8 (ucast a') OR (ucast b' :: u16) \<longleftrightarrow> a = a' \<and> b = b'"
  for a b a' b' :: u8
proof
  assume eq: "push_bit 8 (ucast a) OR ucast b = push_bit 8 (ucast a') OR (ucast b' :: u16)"
  have high: "\<not> bit (y :: u8) (8 + n)" for y n
    by (auto dest: bit_imp_le_length)
  have "ucast (drop_bit 8 (push_bit 8 (ucast x) OR (ucast y :: u16))) = x"
    and "ucast (push_bit 8 (ucast x) OR (ucast y :: u16)) = y" for x y :: u8
    by (auto intro!: bit_word_eqI simp: bit_simps high)
  with eq show "a = a' \<and> b = b'" by metis
qed simp

section \<open>Properties\<close>

text \<open>C37. The table-driven loop of \<open>co_crc\<close> computes the bit-serial CRC-16 of the first \<open>n\<close> bytes
  from the given initial value without ever reading outside its 256-entry table; it can be continued
  chunk by chunk; and a message followed by its checksum, high byte first, has remainder 0.\<close>

theorem co_crc_correct:
  assumes "n \<le> length bs"
  shows "co_crc crc (Some bs) n = Some (crc_ref crc (take n bs))
    \<and> co_crc (crc_ref crc (take n bs)) (Some xs) (length xs)
        = co_crc crc (Some (take n bs @ xs)) (n + length xs)
    \<and> co_crc crc (Some (take n bs @ [ucast (drop_bit 8 (crc_ref crc (take n bs))),
        ucast (crc_ref crc (take n bs))])) (n + 2) = Some 0"
  using assms
  by (simp add: co_crc_run crc_ref_append crc_ref_two_bytes crc_bytes_of_word del: crc_ref.simps)

theorem co_crc_correct_witness:
  "co_crc 0 (Some [1, 2, 3]) 2 = Some (crc_ref 0 [1, 2])
    \<and> co_crc (crc_ref 0 [1, 2]) (Some [4]) 1 = co_crc 0 (Some [1, 2, 4]) 3"
  using co_crc_correct [of 2 "[1, 2, 3]" 0 "[4]"] by (simp add: eval_nat_numeral)

text \<open>Two messages of the same length that differ only inside two consecutive bytes (every error
  burst of at most nine bits, and every single-byte error) have different checksums.\<close>

theorem co_crc_detects_burst:
  assumes "(a, b) \<noteq> (a', b')"
  shows "co_crc crc (Some (xs @ [a, b] @ ys)) (length xs + 2 + length ys)
    \<noteq> co_crc crc (Some (xs @ [a', b'] @ ys)) (length xs + 2 + length ys)"
proof -
  have cancel: "c XOR x = c XOR y \<longleftrightarrow> x = y" for c x y :: u16
    by (metis xor.left_neutral xor.assoc xor_self_eq)
  have "crc_ref (crc_ref crc xs) [a, b] \<noteq> crc_ref (crc_ref crc xs) [a', b']"
    using assms by (simp only: crc_ref_two_bytes crc_steps_inj cancel crc_word_of_bytes_inj) simp
  then have "crc_ref crc (xs @ [a, b] @ ys) \<noteq> crc_ref crc (xs @ [a', b'] @ ys)"
    by (simp only: crc_ref_append crc_ref_inj) simp
  then show ?thesis by (simp add: co_crc_run)
qed

theorem co_crc_detects_burst_witness:
  "co_crc 0 (Some [7, 1, 2, 9]) 4 \<noteq> co_crc 0 (Some [7, 1, 3, 9]) 4"
  using co_crc_detects_burst [of 1 2 1 3 0 "[7]" "[9]"] by (simp add: eval_nat_numeral)

end
