(* ===== verification/Fifo.thy ===== *)
theory Fifo
  imports Prelude
begin

text \<open>
  The contract of a bounded first-in first-out buffer and what a client may conclude from it: over
  any sequence of insertions and removals, what was accepted comes out in the order it went in, and
  what has not come out is still there. The operations return \<open>None\<close> for an access outside the
  buffer's memory, which the contract excludes.
\<close>

datatype 'm fifo_op = Put "'m list" | Get nat

text \<open>Accepted elements, delivered elements and the final buffer of a sequence of operations.\<close>

fun fifo_run :: "('q \<Rightarrow> 'm list \<Rightarrow> (nat \<times> 'q) option) \<Rightarrow> ('q \<Rightarrow> nat \<Rightarrow> ('m list \<times> 'q) option) \<Rightarrow>
    'm fifo_op list \<Rightarrow> 'q \<Rightarrow> ('m list \<times> 'm list \<times> 'q) option" where
  "fifo_run put get [] q = Some ([], [], q)"
| "fifo_run put get (Put ms # ops) q =
     (case put q ms of None \<Rightarrow> None
      | Some (k, q') \<Rightarrow>
          map_option (\<lambda>(acc, del, q''). (take k ms @ acc, del, q'')) (fifo_run put get ops q'))"
| "fifo_run put get (Get n # ops) q =
     (case get q n of None \<Rightarrow> None
      | Some (ms, q') \<Rightarrow>
          map_option (\<lambda>(acc, del, q''). (acc, ms @ del, q'')) (fifo_run put get ops q'))"

locale bounded_fifo =
  fixes invar :: "'q \<Rightarrow> bool"
    and contents :: "'q \<Rightarrow> 'm list"
    and room :: "'q \<Rightarrow> nat"
    and put :: "'q \<Rightarrow> 'm list \<Rightarrow> (nat \<times> 'q) option"
    and get :: "'q \<Rightarrow> nat \<Rightarrow> ('m list \<times> 'q) option"
  assumes put_law: "invar q \<Longrightarrow> \<exists>q'. put q ms = Some (min (length ms) (room q), q') \<and> invar q'
      \<and> contents q' = contents q @ take (room q) ms"
    and get_law: "invar q \<Longrightarrow> \<exists>q'. get q n = Some (take n (contents q), q') \<and> invar q'
      \<and> contents q' = drop n (contents q)"
begin

lemma run_in_order:
  "invar q \<Longrightarrow> \<exists>acc del q'. fifo_run put get ops q = Some (acc, del, q') \<and> invar q'
     \<and> contents q @ acc = del @ contents q'"
proof (induction ops arbitrary: q)
  case (Cons oper ops)
  show ?case
  proof (cases oper)
    case (Put ms)
    from put_law [OF Cons.prems, of ms] obtain q1 where
      q1: "put q ms = Some (min (length ms) (room q), q1)" "invar q1"
        "contents q1 = contents q @ take (room q) ms" by blast
    from Cons.IH [OF q1(2)] obtain acc del q' where
      "fifo_run put get ops q1 = Some (acc, del, q')" "invar q'"
      "contents q1 @ acc = del @ contents q'" by blast
    moreover have "take (min (length ms) (room q)) ms = take (room q) ms"
      by (simp add: min_def)
    ultimately show ?thesis using Put q1 by simp
  next
    case (Get n)
    from get_law [OF Cons.prems, of n] obtain q1 where
      q1: "get q n = Some (take n (contents q), q1)" "invar q1"
        "contents q1 = drop n (contents q)" by blast
    from Cons.IH [OF q1(2)] obtain acc del q' where
      run: "fifo_run put get ops q1 = Some (acc, del, q')" "invar q'"
      "contents q1 @ acc = del @ contents q'" by blast
    then have "contents q @ acc = (take n (contents q) @ del) @ contents q'"
      using q1(3) by (metis append.assoc append_take_drop_id)
    with run Get q1 show ?thesis by simp
  qed
qed simp

end

end
