(* ===== verification/Can_Buf.thy ===== *)
theory Can_Buf
  imports Fifo
begin

text \<open>
  The CAN frame ring buffer (\<open>upstream/include/lely/can/buf.h\<close>, \<open>upstream/src/can/buf.c\<close>) used by the
  EMCY and NMT services to queue frames under an inhibit time. Frames are abstract; \<open>size_t\<close> keeps
  its width, so that the offsets, which are never reduced, wrap around.
\<close>

section \<open>Model\<close>

record 'm can_buf =
  cb_ptr :: "'m list" \<comment> \<open>the allocated frames, empty for a null pointer\<close>
  cb_size :: size_t
  cb_begin :: size_t
  cb_end :: size_t

definition can_buf_init :: "'m list \<Rightarrow> size_t \<Rightarrow> 'm can_buf" where
  "can_buf_init ptr n = \<lparr>cb_ptr = ptr, cb_size = (if n \<noteq> 0 then n - 1 else 0),
     cb_begin = 0, cb_end = 0\<rparr>"

definition can_buf_clear :: "'m can_buf \<Rightarrow> 'm can_buf" where
  "can_buf_clear buf = buf\<lparr>cb_end := cb_begin buf\<rparr>"

definition can_buf_size :: "'m can_buf \<Rightarrow> size_t" where
  "can_buf_size buf = (cb_end buf - cb_begin buf) AND cb_size buf"

definition can_buf_capacity :: "'m can_buf \<Rightarrow> size_t" where
  "can_buf_capacity buf = (cb_begin buf - cb_end buf - 1) AND cb_size buf"

text \<open>The loop of \<open>can_buf_peek\<close>: the frames copied out; their number is the function's result.\<close>

fun can_buf_peek_loop :: "'m can_buf \<Rightarrow> size_t \<Rightarrow> nat \<Rightarrow> 'm list option" where
  "can_buf_peek_loop buf begin 0 = Some []"
| "can_buf_peek_loop buf begin (Suc n) =
     (if (cb_end buf - begin) AND cb_size buf = 0 then Some []
      else let k = unat (begin AND cb_size buf)
           in if k < length (cb_ptr buf)
              then map_option (Cons (cb_ptr buf ! k)) (can_buf_peek_loop buf (begin + 1) n)
              else None)"

definition can_buf_peek :: "'m can_buf \<Rightarrow> nat \<Rightarrow> 'm list option" where
  "can_buf_peek buf n = can_buf_peek_loop buf (cb_begin buf) n"

fun can_buf_read :: "'m can_buf \<Rightarrow> nat \<Rightarrow> ('m list \<times> 'm can_buf) option" where
  "can_buf_read buf 0 = Some ([], buf)"
| "can_buf_read buf (Suc n) =
     (if (cb_end buf - cb_begin buf) AND cb_size buf = 0 then Some ([], buf)
      else let k = unat (cb_begin buf AND cb_size buf)
           in if k < length (cb_ptr buf)
              then map_option (\<lambda>(ms, buf'). (cb_ptr buf ! k # ms, buf'))
                     (can_buf_read (buf\<lparr>cb_begin := cb_begin buf + 1\<rparr>) n)
              else None)"

fun can_buf_write :: "'m can_buf \<Rightarrow> 'm list \<Rightarrow> (nat \<times> 'm can_buf) option" where
  "can_buf_write buf [] = Some (0, buf)"
| "can_buf_write buf (m # ms) =
     (if (cb_begin buf - cb_end buf - 1) AND cb_size buf = 0 then Some (0, buf)
      else let k = unat (cb_end buf AND cb_size buf)
           in if k < length (cb_ptr buf)
              then map_option (\<lambda>(i, buf'). (Suc i, buf'))
                     (can_buf_write (buf\<lparr>cb_ptr := (cb_ptr buf)[k := m],
                        cb_end := cb_end buf + 1\<rparr>) ms)
              else None)"

text \<open>\<open>while (size - 1 < can_buf_size(buf) + n) size *= 2\<close>, with fuel; 29 rounds always suffice.\<close>

fun can_buf_grow :: "nat \<Rightarrow> size_t \<Rightarrow> size_t \<Rightarrow> size_t option" where
  "can_buf_grow 0 sz req = None"
| "can_buf_grow (Suc fuel) sz req =
     (if sz - 1 < req then can_buf_grow fuel (sz * 2) req else Some sz)"

definition memmove :: "'m list \<Rightarrow> nat \<Rightarrow> nat \<Rightarrow> nat \<Rightarrow> 'm list" where
  "memmove xs dst src n =
     map (\<lambda>i. if dst \<le> i \<and> i < dst + n then xs ! (src + (i - dst)) else xs ! i) [0..<length xs]"

text \<open>
  \<open>realloc\<close> is the allocator's: \<open>ok\<close> says whether it succeeds and \<open>fresh\<close> is what the cells it adds
  happen to hold.
\<close>

definition can_buf_reserve ::
  "bool \<Rightarrow> (nat \<Rightarrow> 'm) \<Rightarrow> 'm can_buf \<Rightarrow> size_t \<Rightarrow> (size_t \<times> 'm can_buf) option" where
  "can_buf_reserve ok fresh buf n =
     (let capacity = can_buf_capacity buf in
      if n \<le> capacity then Some (capacity, buf)
      else case can_buf_grow 29 16 (can_buf_size buf + n) of None \<Rightarrow> None
        | Some sz1 \<Rightarrow>
          let sz = sz1 - 1 in
          if \<not> ok then Some (0, buf)
          else
            let ptr = map (\<lambda>i. if i < length (cb_ptr buf) then cb_ptr buf ! i else fresh i)
                        [0..<unat (sz + 1)];
                begin = cb_begin buf AND cb_size buf;
                end = cb_end buf AND cb_size buf;
                buf1 = (if begin > end
                  then buf\<lparr>cb_ptr := memmove ptr (unat (begin + (sz - cb_size buf))) (unat begin)
                              (unat (cb_size buf) + 1 - unat begin),
                           cb_begin := begin + (sz - cb_size buf), cb_end := end\<rparr>
                  else buf\<lparr>cb_ptr := ptr\<rparr>);
                buf2 = buf1\<lparr>cb_size := sz\<rparr>
            in Some (can_buf_capacity buf2, buf2))"

section \<open>Contents and invariant\<close>

text \<open>The size is a power of two minus one, and that many frames plus one are allocated.\<close>

definition can_buf_invar :: "'m can_buf \<Rightarrow> bool" where
  "can_buf_invar buf \<longleftrightarrow> (\<exists>k < 32. cb_size buf = mask k)
     \<and> (cb_size buf = 0 \<or> length (cb_ptr buf) = Suc (unat (cb_size buf)))"

definition can_buf_list :: "'m can_buf \<Rightarrow> 'm list" where
  "can_buf_list buf = map (\<lambda>i. cb_ptr buf ! unat ((cb_begin buf + of_nat i) AND cb_size buf))
     [0..<unat (can_buf_size buf)]"

section \<open>Offsets modulo a power of two\<close>

lemma unat_and_mask: "unat (x AND mask k) = unat x mod 2 ^ k" for x :: "'a::len word"
  by (simp flip: take_bit_eq_mask take_bit_eq_mod add: unsigned_take_bit_eq)

lemma unat_mask_32: "k < 32 \<Longrightarrow> unat (mask k :: size_t) = 2 ^ k - 1"
proof -
  assume "k < 32"
  then have "uint (mask k :: size_t) = 2 ^ k - 1"
    using uint_mask_eq [where ?'a = 32, of k] by (simp add: mask_int_def)
  then have "int (unat (mask k :: size_t)) = int (2 ^ k - 1)"
    by (simp add: of_nat_diff)
  then show ?thesis by (simp only: of_nat_eq_iff)
qed

lemma pow_dvd_32: "k < 32 \<Longrightarrow> (2::nat) ^ k dvd 4294967296"
  using le_imp_power_dvd [of k 32 "2::nat"] by simp

lemma unat_add_mod_pow:
  "k < 32 \<Longrightarrow> unat (x + y) mod 2 ^ k = (unat x + unat y) mod 2 ^ k" for x y :: size_t
  by (simp add: unat_word_ariths mod_mod_cancel pow_dvd_32)

lemma unat_of_nat_mod_pow: "k < 32 \<Longrightarrow> unat (of_nat i :: size_t) mod 2 ^ k = i mod 2 ^ k"
  by (simp add: unat_of_nat mod_mod_cancel pow_dvd_32)

lemma unat_add_of_nat_mod_pow:
  "k < 32 \<Longrightarrow> unat (x + of_nat i) mod 2 ^ k = (unat x + i) mod 2 ^ k" for x :: size_t
  using unat_add_mod_pow [of k x "of_nat i"] unat_of_nat_mod_pow [of k i]
  by (metis mod_add_right_eq)

lemma and_mask_id: "k < 32 \<Longrightarrow> x \<le> mask k \<Longrightarrow> x AND mask k = x" for x :: size_t
proof -
  assume "k < 32" "x \<le> mask k"
  then have "unat x \<le> 2 ^ k - 1" by (simp add: word_le_nat_alt unat_mask_32)
  then have "unat x < 2 ^ k" using zero_less_power [of "2::nat" k] by linarith
  then show ?thesis by (simp add: word_unat_eq_iff unat_and_mask)
qed

lemma free_eq_not_used: "b - e - 1 = NOT (e - b)" for b e :: "'a::len word"
  by (simp add: not_eq_complement)

lemma free_plus_used:
  fixes b e :: size_t
  assumes "k < 32"
  shows "unat ((b - e - 1) AND mask k) = 2 ^ k - 1 - unat ((e - b) AND mask k)"
proof -
  have "(b - e - 1) AND mask k = mask k - ((e - b) AND mask k)"
    by (simp only: free_eq_not_used flip: take_bit_eq_mask) (rule take_bit_not_eq_mask_diff)
  moreover have "(e - b) AND mask k \<le> mask k"
    by (rule word_and_le1)
  ultimately show ?thesis
    using assms by (simp add: unat_sub unat_mask_32)
qed

lemma end_offset:
  "k < 32 \<Longrightarrow> unat e mod 2 ^ k = (unat b + unat ((e - b) AND mask k)) mod 2 ^ k" for b e :: size_t
  using unat_add_mod_pow [of k b "e - b"] by (simp add: unat_and_mask mod_simps)

lemma ring_index_neq:
  assumes "i < u" "u < N"
  shows "(b + u) mod N \<noteq> (b + i) mod (N::nat)"
proof
  assume "(b + u) mod N = (b + i) mod N"
  then have "N dvd (b + u) - (b + i)"
    using assms by (metis mod_eq_dvd_iff_nat add_le_cancel_left less_imp_le)
  then have "N dvd u - i" by simp
  with assms show False by (auto dest: dvd_imp_le)
qed

lemma ring_used:
  fixes b e :: size_t
  assumes "k < 32" "u < 2 ^ k" "(unat b + u) mod 2 ^ k = unat e mod 2 ^ k"
  shows "unat ((e - b) AND mask k) = u"
proof -
  have "unat ((e - b) AND mask k) < 2 ^ k" by (simp add: unat_and_mask)
  with assms end_offset [of k e b] show ?thesis
    using ring_index_neq [of "unat ((e - b) AND mask k)" u "2 ^ k" "unat b"]
      ring_index_neq [of u "unat ((e - b) AND mask k)" "2 ^ k" "unat b"]
    by (cases u "unat ((e - b) AND mask k)" rule: linorder_cases) auto
qed

section \<open>One-step behaviour\<close>

text \<open>The buffer as a ring of \<open>N\<close> cells with \<open>u\<close> of them used, from offset \<open>b\<close>.\<close>

definition ring_list :: "'m list \<Rightarrow> nat \<Rightarrow> nat \<Rightarrow> nat \<Rightarrow> 'm list" where
  "ring_list ptr N b u = map (\<lambda>i. ptr ! ((b + i) mod N)) [0..<u]"

lemma ring_list_snoc:
  assumes "u < N" "length ptr = N"
  shows "ring_list (ptr[(b + u) mod N := m]) N b (Suc u) = ring_list ptr N b u @ [m]"
  using assms ring_index_neq [of _ u N b] by (auto simp: ring_list_def)

lemma ring_list_Cons:
  "ring_list ptr N b (Suc u) = ptr ! (b mod N) # ring_list ptr N (Suc b) u"
  by (simp only: ring_list_def upt_conv_Cons [of 0 "Suc u"] map_Suc_upt [symmetric]
      list.map map_map o_def) simp

lemma can_buf_list_ring:
  assumes "cb_size buf = mask k" "k < 32"
  shows "can_buf_list buf = ring_list (cb_ptr buf) (2 ^ k) (unat (cb_begin buf)) (unat (can_buf_size buf))"
  using assms by (simp add: can_buf_list_def ring_list_def unat_and_mask unat_add_of_nat_mod_pow)

lemma can_buf_invarE:
  assumes "can_buf_invar buf"
  obtains k where "k < 32" "cb_size buf = mask k"
    "unat (can_buf_size buf) < 2 ^ k"
    "unat (can_buf_capacity buf) = 2 ^ k - 1 - unat (can_buf_size buf)"
    "k = 0 \<or> length (cb_ptr buf) = 2 ^ k"
proof -
  from assms obtain k where k: "k < 32" "cb_size buf = mask k"
    and len: "cb_size buf = 0 \<or> length (cb_ptr buf) = Suc (unat (cb_size buf))"
    by (auto simp: can_buf_invar_def)
  show thesis
  proof
    show "k < 32" "cb_size buf = mask k" by (fact k)+
    show "unat (can_buf_size buf) < 2 ^ k"
      using k by (simp add: can_buf_size_def unat_and_mask)
    show "unat (can_buf_capacity buf) = 2 ^ k - 1 - unat (can_buf_size buf)"
      using k by (simp add: can_buf_size_def can_buf_capacity_def free_plus_used)
    have "k = 0" if "mask k = (0 :: size_t)"
      using that unat_mask_32 [OF k(1)] by simp
    with len k show "k = 0 \<or> length (cb_ptr buf) = 2 ^ k"
      by (auto simp: unat_mask_32)
  qed
qed

lemma can_buf_write_step:
  fixes m :: 'm and buf :: "'m can_buf"
  assumes inv: "can_buf_invar buf" and room: "can_buf_capacity buf \<noteq> 0"
  defines "k \<equiv> unat (cb_end buf AND cb_size buf)"
  defines "buf' \<equiv> buf\<lparr>cb_ptr := (cb_ptr buf)[k := m], cb_end := cb_end buf + 1\<rparr>"
  shows "k < length (cb_ptr buf)" "can_buf_invar buf'"
    "can_buf_list buf' = can_buf_list buf @ [m]"
    "unat (can_buf_capacity buf') = unat (can_buf_capacity buf) - 1"
proof -
  from inv obtain j where j: "j < 32" "cb_size buf = mask j"
    and used: "unat (can_buf_size buf) < 2 ^ j"
    and free: "unat (can_buf_capacity buf) = 2 ^ j - 1 - unat (can_buf_size buf)"
    and len: "j = 0 \<or> length (cb_ptr buf) = 2 ^ j"
    by (rule can_buf_invarE)
  let ?u = "unat (can_buf_size buf)"
  have pos: "0 < unat (can_buf_capacity buf)"
    using room by (simp add: unat_gt_0)
  with free have u: "Suc ?u < 2 ^ j" by simp
  then have len': "length (cb_ptr buf) = 2 ^ j" using len by (cases "j = 0") auto
  have k: "k = (unat (cb_begin buf) + ?u) mod 2 ^ j"
    using j end_offset [of j "cb_end buf" "cb_begin buf"]
    by (simp add: k_def unat_and_mask can_buf_size_def)
  show "k < length (cb_ptr buf)" by (simp add: k len')
  show inv': "can_buf_invar buf'"
    using inv by (simp add: buf'_def can_buf_invar_def)
  have "unat (can_buf_size buf') = unat ((cb_end buf - cb_begin buf) + of_nat 1) mod 2 ^ j"
    using j by (simp add: buf'_def can_buf_size_def unat_and_mask algebra_simps)
  also have "\<dots> = (unat (cb_end buf - cb_begin buf) + 1) mod 2 ^ j"
    using j by (simp only: unat_add_of_nat_mod_pow)
  also have "\<dots> = Suc ?u"
    using j u by (simp add: can_buf_size_def unat_and_mask mod_Suc)
  finally have u': "unat (can_buf_size buf') = Suc ?u" .
  have "can_buf_list buf' = ring_list ((cb_ptr buf)[k := m]) (2 ^ j) (unat (cb_begin buf)) (Suc ?u)"
    using j by (subst can_buf_list_ring [of _ j]) (auto simp: buf'_def u' [unfolded buf'_def])
  also have "\<dots> = can_buf_list buf @ [m]"
    using used j len' by (simp add: k ring_list_snoc can_buf_list_ring)
  finally show "can_buf_list buf' = can_buf_list buf @ [m]" .
  show "unat (can_buf_capacity buf') = unat (can_buf_capacity buf) - 1"
    using j free u' free_plus_used [OF j(1), of "cb_begin buf'" "cb_end buf'"]
    by (simp add: can_buf_capacity_def can_buf_size_def buf'_def)
qed

lemma can_buf_read_step:
  assumes inv: "can_buf_invar buf" and some: "can_buf_size buf \<noteq> 0"
  defines "k \<equiv> unat (cb_begin buf AND cb_size buf)"
  defines "buf' \<equiv> buf\<lparr>cb_begin := cb_begin buf + 1\<rparr>"
  shows "k < length (cb_ptr buf)" "can_buf_invar buf'"
    "can_buf_list buf = cb_ptr buf ! k # can_buf_list buf'"
proof -
  from inv obtain j where j: "j < 32" "cb_size buf = mask j"
    and used: "unat (can_buf_size buf) < 2 ^ j"
    and len: "j = 0 \<or> length (cb_ptr buf) = 2 ^ j"
    by (rule can_buf_invarE)
  obtain u where u: "unat (can_buf_size buf) = Suc u"
    using some by (metis not0_implies_Suc unat_eq_zero)
  then have len': "length (cb_ptr buf) = 2 ^ j" using len used by (cases "j = 0") auto
  show "k < length (cb_ptr buf)" using j by (simp add: k_def unat_and_mask len')
  show "can_buf_invar buf'" using inv by (simp add: buf'_def can_buf_invar_def)
  have "Suc (unat (can_buf_size buf')) mod 2 ^ j
      = unat ((cb_end buf - cb_begin buf - 1) + of_nat 1) mod 2 ^ j"
    using j unat_add_of_nat_mod_pow [of j "cb_end buf - cb_begin buf - 1" 1]
    by (simp add: buf'_def can_buf_size_def unat_and_mask mod_simps diff_diff_eq [symmetric]
        del: of_nat_1)
  also have "\<dots> = Suc u" using j u by (simp add: can_buf_size_def unat_and_mask)
  finally have "Suc (unat (can_buf_size buf')) mod 2 ^ j = Suc u" .
  moreover have "unat (can_buf_size buf') < 2 ^ j"
    using j by (simp add: buf'_def can_buf_size_def unat_and_mask)
  ultimately have u': "unat (can_buf_size buf') = u"
    by (cases "Suc (unat (can_buf_size buf')) = 2 ^ j") simp_all
  have "(unat (cb_begin buf) + 1 + i) mod 2 ^ j = (unat (cb_begin buf + 1) + i) mod 2 ^ j" for i
    using j mod_add_left_eq [of "unat (cb_begin buf + 1)" "2 ^ j" i]
      mod_add_left_eq [of "unat (cb_begin buf) + 1" "2 ^ j" i]
      unat_add_of_nat_mod_pow [of j "cb_begin buf" 1]
    by simp
  then have "ring_list (cb_ptr buf) (2 ^ j) (Suc (unat (cb_begin buf))) u
      = ring_list (cb_ptr buf) (2 ^ j) (unat (cb_begin buf + 1)) u"
    by (simp add: ring_list_def)
  then show "can_buf_list buf = cb_ptr buf ! k # can_buf_list buf'"
    using j u u' by (simp add: can_buf_list_ring [of _ j] buf'_def ring_list_Cons k_def unat_and_mask)
qed

lemma can_buf_empty_iff: "can_buf_size buf = 0 \<longleftrightarrow> can_buf_list buf = []"
  by (simp add: can_buf_list_def unat_eq_zero)

lemma can_buf_write_law:
  "can_buf_invar buf \<Longrightarrow> \<exists>buf'. can_buf_write buf ms
       = Some (min (length ms) (unat (can_buf_capacity buf)), buf')
     \<and> can_buf_invar buf' \<and> can_buf_list buf' = can_buf_list buf @ take (unat (can_buf_capacity buf)) ms"
proof (induction ms arbitrary: buf)
  case (Cons m ms)
  show ?case
  proof (cases "can_buf_capacity buf = 0")
    case True
    with Cons.prems show ?thesis by (simp add: can_buf_capacity_def)
  next
    case False
    note step1 = can_buf_write_step(1) [OF Cons.prems False]
    note step = can_buf_write_step(2-4) [OF Cons.prems False, where m = m]
    from Cons.IH [OF step(1)] obtain buf' where
      "can_buf_write (buf\<lparr>cb_ptr := (cb_ptr buf)[unat (cb_end buf AND cb_size buf) := m],
          cb_end := cb_end buf + 1\<rparr>) ms
        = Some (min (length ms) (unat (can_buf_capacity buf) - 1), buf')"
      "can_buf_invar buf'"
      "can_buf_list buf' = can_buf_list buf @ m # take (unat (can_buf_capacity buf) - 1) ms"
      by (auto simp: step(2,3))
    moreover from False obtain c where "unat (can_buf_capacity buf) = Suc c"
      by (metis not0_implies_Suc unat_eq_zero)
    ultimately show ?thesis
      using False step1 by (simp add: can_buf_capacity_def [symmetric] Let_def)
  qed
qed simp

lemma can_buf_read_law:
  "can_buf_invar buf \<Longrightarrow> \<exists>buf'. can_buf_read buf n = Some (take n (can_buf_list buf), buf')
     \<and> can_buf_invar buf' \<and> can_buf_list buf' = drop n (can_buf_list buf)"
proof (induction n arbitrary: buf)
  case (Suc n)
  show ?case
  proof (cases "can_buf_size buf = 0")
    case True
    with Suc.prems show ?thesis
      using can_buf_empty_iff [of buf] by (simp add: can_buf_size_def)
  next
    case False
    note step = can_buf_read_step [OF Suc.prems False]
    from Suc.IH [OF step(2)] step(1,3) False show ?thesis
      by (auto simp: can_buf_size_def [symmetric] Let_def)
  qed
qed simp

interpretation cbq: bounded_fifo can_buf_invar can_buf_list "\<lambda>buf. unat (can_buf_capacity buf)"
    can_buf_write can_buf_read
  by unfold_locales (fact can_buf_write_law, fact can_buf_read_law)

lemma can_buf_peek_loop_begin [simp]:
  "can_buf_peek_loop (buf\<lparr>cb_begin := c\<rparr>) b n = can_buf_peek_loop buf b n"
  by (induction n arbitrary: b) (simp_all add: Let_def)

lemma can_buf_peek_loop_read:
  "can_buf_peek_loop buf (cb_begin buf) n = map_option fst (can_buf_read buf n)"
proof (induction n arbitrary: buf)
  case (Suc n)
  from Suc.IH [of "buf\<lparr>cb_begin := cb_begin buf + 1\<rparr>"] show ?case
    by (simp add: Let_def option.map_comp o_def case_prod_unfold)
qed simp

section \<open>Growing the buffer\<close>

lemma can_buf_grow_pow:
  "fuel + k = 33 \<Longrightarrow> k \<le> K \<Longrightarrow> K \<le> 32 \<Longrightarrow> req \<le> 2 ^ K - 1 \<Longrightarrow>
   \<exists>j. k \<le> j \<and> j \<le> K \<and> can_buf_grow fuel (2 ^ k) req = Some (2 ^ j) \<and> req \<le> 2 ^ j - 1"
proof (induction fuel arbitrary: k)
  case (Suc fuel)
  show ?case
  proof (cases "(2 ^ k :: size_t) - 1 < req")
    case True
    with Suc.prems have "k \<noteq> K" by auto
    with Suc.prems Suc.IH [of "Suc k"] obtain j where "Suc k \<le> j" "j \<le> K"
      "can_buf_grow fuel (2 ^ Suc k) req = Some (2 ^ j)" "req \<le> 2 ^ j - 1" by auto
    with True show ?thesis by (intro exI [of _ j]) (auto simp: mult.commute)
  next
    case False
    with Suc.prems show ?thesis by (intro exI [of _ k]) (auto simp: not_less)
  qed
qed simp

lemma can_buf_grow_numeral:
  "can_buf_grow (numeral n) sz req
     = (if sz - 1 < req then can_buf_grow (pred_numeral n) (sz * 2) req else Some sz)"
  by (simp add: numeral_eq_Suc)

lemma can_buf_grow_total: "\<exists>sz. can_buf_grow 29 16 req = Some sz"
proof -
  have "unat req \<le> 4294967295" using unat_u32_lt [of req] by linarith
  then have "req \<le> 4294967295" by (simp add: word_le_nat_alt)
  then show ?thesis using can_buf_grow_pow [of 29 4 32 req] by auto
qed

lemma unat_pow_32: "j < 32 \<Longrightarrow> unat (2 ^ j :: size_t) = 2 ^ j"
proof -
  assume "j < 32"
  then have "(2::nat) ^ j < 2 ^ 32" by (intro power_strict_increasing) auto
  then show ?thesis using unat_of_nat [of "2 ^ j", where ?'a = 32] by simp
qed

lemma pow_minus_1_32: "j < 32 \<Longrightarrow> unat (2 ^ j - 1 :: size_t) = 2 ^ j - 1"
  using unat_mask_32 [of j] by (simp add: mask_eq_exp_minus_1)

lemma can_buf_grow_fits:
  assumes "unat req < 2 ^ 31"
  obtains j where "4 \<le> j" "j < 32" "can_buf_grow 29 16 req = Some (2 ^ j)" "unat req < 2 ^ j"
proof -
  have "req \<le> 2 ^ 31 - 1"
    using assms pow_minus_1_32 [of 31] by (simp add: word_le_nat_alt)
  with can_buf_grow_pow [of 29 4 31 req] obtain j where j: "4 \<le> j" "j \<le> 31"
    "can_buf_grow 29 16 req = Some (2 ^ j)" "req \<le> 2 ^ j - 1" by auto
  from j(2,4) have "unat req \<le> 2 ^ j - 1"
    by (simp add: word_le_nat_alt pow_minus_1_32)
  then have "unat req < 2 ^ j"
    using zero_less_power [of "2::nat" j] by linarith
  with j that show thesis by auto
qed

text \<open>
  The offsets a growing buffer can keep: either the frames wrap around its end, or both offsets
  lie within the old size.
\<close>

definition can_buf_growable :: "'m can_buf \<Rightarrow> bool" where
  "can_buf_growable buf \<longleftrightarrow> cb_end buf AND cb_size buf < cb_begin buf AND cb_size buf
     \<or> cb_begin buf \<le> cb_size buf \<and> cb_end buf \<le> cb_size buf"

lemma length_memmove [simp]: "length (memmove xs dst src n) = length xs"
  by (simp add: memmove_def)

lemma memmove_nth:
  "i < length xs \<Longrightarrow> memmove xs dst src n ! i
     = (if dst \<le> i \<and> i < dst + n then xs ! (src + (i - dst)) else xs ! i)"
  by (simp add: memmove_def)

lemma ring_list_straight:
  assumes "b + u \<le> N" "N \<le> M" "\<And>i. i < N \<Longrightarrow> ptr' ! i = ptr ! i"
  shows "ring_list ptr' M b u = ring_list ptr N b u"
  using assms by (auto simp: ring_list_def)

lemma ring_list_wrapped:
  fixes ptr :: "'m list"
  assumes "e < b" "b < N" "N \<le> M" "length ptr = M"
  shows "ring_list (memmove ptr (b + (M - N)) b (N - b)) M (b + (M - N)) (N - b + e)
    = ring_list ptr N b (N - b + e)"
proof -
  have "memmove ptr (b + (M - N)) b (N - b) ! ((b + (M - N) + i) mod M) = ptr ! ((b + i) mod N)"
    if i: "i < N - b + e" for i
  proof (cases "i < N - b")
    case True
    with assms have "(b + (M - N) + i) mod M = b + (M - N) + i" "(b + i) mod N = b + i" by simp_all
    moreover have "b + (M - N) + i < M" using True assms by linarith
    ultimately show ?thesis using True assms
      by (simp only: memmove_nth) (simp add: add.assoc)
  next
    case False
    with assms i have "b + (M - N) + i = M + (b + i - N)" "b + i = N + (b + i - N)"
      "b + i - N < N" "b + i - N < M" by linarith+
    then have "(b + (M - N) + i) mod M = b + i - N" "(b + i) mod N = b + i - N"
      by (metis mod_add_self1 mod_less)+
    moreover have "\<not> b + (M - N) \<le> b + i - N" using i assms by linarith
    ultimately show ?thesis using assms i False by (simp add: memmove_nth)
  qed
  then show ?thesis by (simp add: ring_list_def)
qed

text \<open>The two ways \<open>can_buf_reserve\<close> lays out the enlarged memory.\<close>

lemma can_buf_grow_straight:
  fixes buf :: "'m can_buf"
  assumes k: "k < 32" "cb_size buf = mask k" and j: "k < j" "j < 32"
    and le: "cb_begin buf \<le> cb_end buf" "cb_end buf \<le> mask k"
    and ptr: "\<And>i. i < 2 ^ k \<Longrightarrow> k \<noteq> 0 \<Longrightarrow> ptr ! i = cb_ptr buf ! i"
  shows "can_buf_list (buf\<lparr>cb_ptr := ptr, cb_size := mask j\<rparr>) = can_buf_list buf"
    "can_buf_size (buf\<lparr>cb_ptr := ptr, cb_size := mask j\<rparr>) = can_buf_size buf"
proof -
  let ?u = "unat (cb_end buf) - unat (cb_begin buf)"
  have e: "unat (cb_begin buf) \<le> unat (cb_end buf)" "unat (cb_end buf) \<le> 2 ^ k - 1"
    using le k by (simp_all add: word_le_nat_alt unat_mask_32)
  then have e': "unat (cb_end buf) < 2 ^ k"
    using zero_less_power [of "2::nat" k] by linarith
  have kj: "(2::nat) ^ k < 2 ^ j" using j by simp
  with e' have "?u < 2 ^ k" "?u < 2 ^ j" by linarith+
  then have u: "unat (can_buf_size buf) = ?u"
    and u': "unat (can_buf_size (buf\<lparr>cb_ptr := ptr, cb_size := mask j\<rparr>)) = ?u"
    using e k j by (auto simp: can_buf_size_def intro!: ring_used)
  from u u' show "can_buf_size (buf\<lparr>cb_ptr := ptr, cb_size := mask j\<rparr>) = can_buf_size buf"
    by (simp add: word_unat_eq_iff)
  have "ring_list ptr (2 ^ j) (unat (cb_begin buf)) ?u
      = ring_list (cb_ptr buf) (2 ^ k) (unat (cb_begin buf)) ?u"
  proof (cases "k = 0")
    case False
    with e e' kj ptr show ?thesis by (intro ring_list_straight) auto
  next
    case True
    with e have "?u = 0" by simp
    then show ?thesis by (simp add: ring_list_def)
  qed
  with u u' k j show "can_buf_list (buf\<lparr>cb_ptr := ptr, cb_size := mask j\<rparr>) = can_buf_list buf"
    by (subst (1 2) can_buf_list_ring) (assumption | simp)+
qed

lemma can_buf_grow_wrapped:
  fixes buf :: "'m can_buf"
  assumes k: "k < 32" "cb_size buf = mask k" and j: "k < j" "j < 32"
    and wrap: "e < b" "b = cb_begin buf AND mask k" "e = cb_end buf AND mask k"
    and ptr: "\<And>i. i < 2 ^ k \<Longrightarrow> ptr ! i = cb_ptr buf ! i" "length ptr = 2 ^ j"
  defines "buf' \<equiv> buf\<lparr>cb_ptr := memmove ptr (unat (b + (mask j - mask k))) (unat b)
      (unat (mask k :: size_t) + 1 - unat b), cb_begin := b + (mask j - mask k), cb_end := e,
      cb_size := mask j\<rparr>"
  shows "can_buf_list buf' = can_buf_list buf" "can_buf_size buf' = can_buf_size buf"
proof -
  let ?N = "2 ^ k :: nat" and ?M = "2 ^ j :: nat"
  have kj: "?N < ?M" using j by simp
  have b: "unat b < ?N" and e: "unat e < unat b" and e': "unat e < ?N"
    using wrap by (simp_all add: unat_and_mask word_less_nat_alt)
  have d: "unat (mask j - mask k :: size_t) = ?M - ?N"
    using k j diff_le_mono [OF less_imp_le [OF kj], of 1]
    by (subst unat_sub) (auto simp: word_le_nat_alt unat_mask_32)
  have M: "?M \<le> 2 ^ 31" using j by (intro power_increasing) auto
  have b': "unat (b + (mask j - mask k)) = unat b + (?M - ?N)"
    using d b kj M by (simp add: unat_word_ariths)
  let ?u = "?N - unat b + unat e"
  have "(unat (cb_begin buf) + ?u) mod ?N = (unat b + ?u) mod ?N"
    using wrap by (simp add: unat_and_mask mod_simps)
  also have "unat b + ?u = ?N + unat e" using b by linarith
  also have "(?N + unat e) mod ?N = unat (cb_end buf) mod ?N"
    using wrap by (simp add: unat_and_mask)
  finally have u: "unat (can_buf_size buf) = ?u"
    using k b e by (auto simp: can_buf_size_def intro!: ring_used)
  have uM: "?u < ?M" using b e kj by linarith
  have "unat b + (?M - ?N) + ?u = ?M + unat e" using b kj by linarith
  then have "(unat (b + (mask j - mask k)) + ?u) mod ?M = unat e mod ?M"
    using b' by (metis mod_add_self1)
  then have u': "unat (can_buf_size buf') = ?u"
    using j uM ring_used [of j ?u "b + (mask j - mask k)" e]
    by (simp add: can_buf_size_def buf'_def)
  from u u' show "can_buf_size buf' = can_buf_size buf" by (simp add: word_unat_eq_iff)
  have N: "unat (mask k :: size_t) + 1 - unat b = ?N - unat b"
    using k b by (simp add: unat_mask_32)
  have "can_buf_list buf' = ring_list ptr ?N (unat b) ?u"
    using b e kj ptr j u' b' ring_list_wrapped [of "unat e" "unat b" ?N ?M ptr]
    by (subst can_buf_list_ring [of _ j]) (simp_all add: buf'_def N [simplified])
  also have "\<dots> = ring_list (cb_ptr buf) ?N (unat (cb_begin buf)) ?u"
    using wrap ptr(1) b kj by (simp add: ring_list_def unat_and_mask mod_simps)
  also have "\<dots> = can_buf_list buf"
    using u k by (simp add: can_buf_list_ring)
  finally show "can_buf_list buf' = can_buf_list buf" .
qed

lemma can_buf_reserve_grows:
  fixes buf :: "'m can_buf"
  assumes inv: "can_buf_invar buf" and safe: "can_buf_growable buf"
    and fits: "unat (can_buf_size buf) + unat n < 2 ^ 31"
  shows "\<exists>buf'. can_buf_reserve True fresh buf n = Some (can_buf_capacity buf', buf')
    \<and> n \<le> can_buf_capacity buf' \<and> can_buf_invar buf' \<and> can_buf_list buf' = can_buf_list buf"
proof (cases "n \<le> can_buf_capacity buf")
  case True
  with inv show ?thesis by (simp add: can_buf_reserve_def)
next
  case False
  from inv obtain k where k: "k < 32" "cb_size buf = mask k"
    and used: "unat (can_buf_size buf) < 2 ^ k"
    and free: "unat (can_buf_capacity buf) = 2 ^ k - 1 - unat (can_buf_size buf)"
    and len: "k = 0 \<or> length (cb_ptr buf) = 2 ^ k"
    by (rule can_buf_invarE)
  let ?N = "2 ^ k :: nat" and ?u = "unat (can_buf_size buf)"
  have req: "unat (can_buf_size buf + n) = ?u + unat n"
    using fits by (simp add: unat_word_ariths)
  with fits obtain j where j: "4 \<le> j" "j < 32" and
    grow: "can_buf_grow 29 16 (can_buf_size buf + n) = Some (2 ^ j)" and
    room: "?u + unat n < 2 ^ j"
    by (metis can_buf_grow_fits)
  have "?N \<le> ?u + unat n" using False free used by (simp add: word_le_nat_alt)
  with room have NM: "?N < (2::nat) ^ j" by linarith
  then have kj: "k < j" by simp
  have masks: "(2 ^ j :: size_t) - 1 = mask j" "mask j + 1 = (2 ^ j :: size_t)"
    by (simp_all add: mask_eq_exp_minus_1)
  let ?ptr = "map (\<lambda>i. if i < length (cb_ptr buf) then cb_ptr buf ! i else fresh i) [0..<2 ^ j]"
  have ptr: "?ptr ! i = cb_ptr buf ! i" if "i < 2 ^ k" "k \<noteq> 0" for i
    using that len order.strict_trans [OF that(1) NM] by (simp only: nth_map_upt) simp
  have done_: ?thesis
    if res: "can_buf_reserve True fresh buf n = Some (can_buf_capacity buf', buf')"
      and buf': "cb_size buf' = mask j" "length (cb_ptr buf') = 2 ^ j"
        "can_buf_list buf' = can_buf_list buf" "can_buf_size buf' = can_buf_size buf" for buf'
  proof -
    have inv': "can_buf_invar buf'" using buf' j by (auto simp: can_buf_invar_def unat_mask_32)
    have "unat (can_buf_capacity buf') = 2 ^ j - 1 - ?u"
      using buf' j free_plus_used [of j "cb_begin buf'" "cb_end buf'"]
      by (simp add: can_buf_size_def can_buf_capacity_def)
    with room have "n \<le> can_buf_capacity buf'" by (simp add: word_le_nat_alt)
    with res inv' buf' show ?thesis by blast
  qed
  show ?thesis
  proof (cases "cb_end buf AND cb_size buf < cb_begin buf AND cb_size buf")
    case True
    then have "k \<noteq> 0" using k by (intro notI) simp
    note wrapped = can_buf_grow_wrapped [where ptr = ?ptr, OF k kj j(2) True [unfolded k(2)] refl refl
        ptr [OF _ this]]
    show ?thesis
      using True False grow k j masks
      by (intro done_ [OF _ _ _ wrapped])
        (simp_all add: can_buf_reserve_def Let_def unat_pow_32)
  next
    case nowrap: False
    with safe k have le: "cb_begin buf \<le> mask k" "cb_end buf \<le> mask k"
      by (auto simp: can_buf_growable_def)
    with k nowrap have "cb_begin buf \<le> cb_end buf"
      by (simp add: and_mask_id not_less)
    note straight = can_buf_grow_straight [where ptr = ?ptr, OF k kj j(2) this le(2) ptr]
    show ?thesis
      using nowrap False grow k j masks
      by (intro done_ [OF _ _ _ straight]) (simp_all add: can_buf_reserve_def Let_def unat_pow_32)
  qed
qed

lemma can_buf_write_frame [frame]:
  "can_buf_write buf ms = Some (n, buf') \<Longrightarrow> cb_size buf' = cb_size buf
     \<and> cb_begin buf' = cb_begin buf \<and> cb_end buf' = cb_end buf + of_nat n
     \<and> length (cb_ptr buf') = length (cb_ptr buf)"
  by (induction buf ms arbitrary: n rule: can_buf_write.induct)
    (fastforce simp: Let_def split: if_splits)+

lemma can_buf_read_frame [frame]:
  "can_buf_read buf n = Some (ms, buf') \<Longrightarrow> buf' = buf\<lparr>cb_begin := cb_begin buf + of_nat (length ms)\<rparr>"
  by (induction buf n arbitrary: ms rule: can_buf_read.induct)
    (fastforce simp: Let_def split: if_splits)+

lemma can_buf_write_all:
  assumes "can_buf_invar buf" "length ms \<le> unat (can_buf_capacity buf)"
  obtains buf' where "can_buf_write buf ms = Some (length ms, buf')" "can_buf_invar buf'"
    "can_buf_list buf' = can_buf_list buf @ ms" "cb_size buf' = cb_size buf"
    "cb_begin buf' = cb_begin buf" "cb_end buf' = cb_end buf + of_nat (length ms)"
proof -
  from can_buf_write_law [OF assms(1), of ms] assms(2) obtain buf' where
    "can_buf_write buf ms = Some (length ms, buf')" "can_buf_invar buf'"
    "can_buf_list buf' = can_buf_list buf @ ms" by (auto simp: min_def)
  with can_buf_write_frame that show thesis by blast
qed

lemma can_buf_read_all:
  assumes "can_buf_invar buf" "length (can_buf_list buf) = n"
  obtains buf' where "can_buf_read buf n = Some (can_buf_list buf, buf')" "can_buf_invar buf'"
    "can_buf_list buf' = []" "cb_size buf' = cb_size buf"
    "cb_begin buf' = cb_begin buf + of_nat n" "cb_end buf' = cb_end buf"
  using can_buf_read_law [OF assms(1), of n] can_buf_read_frame [of buf n] assms(2) that by fastforce

lemma can_buf_pass:
  assumes "can_buf_invar buf" "can_buf_list buf = []" "length ms \<le> unat (can_buf_capacity buf)"
  obtains buf1 buf2 where "can_buf_write buf ms = Some (length ms, buf1)"
    "can_buf_read buf1 (length ms) = Some (ms, buf2)" "can_buf_invar buf2" "can_buf_list buf2 = []"
    "cb_size buf2 = cb_size buf" "cb_begin buf2 = cb_begin buf + of_nat (length ms)"
    "cb_end buf2 = cb_end buf + of_nat (length ms)"
proof -
  from can_buf_write_all [OF assms(1,3)] obtain buf1 where buf1:
    "can_buf_write buf ms = Some (length ms, buf1)" "can_buf_invar buf1" "can_buf_list buf1 = ms"
    "cb_size buf1 = cb_size buf" "cb_begin buf1 = cb_begin buf"
    "cb_end buf1 = cb_end buf + of_nat (length ms)"
    unfolding assms(2) append_Nil by blast
  have "length (can_buf_list buf1) = length ms" using buf1(3) by simp
  from can_buf_read_all [OF buf1(2) this] buf1 that show thesis by metis
qed

lemma can_buf_reserve_past_size:
  assumes q: "cb_size q = 15" "cb_begin q = 16" "cb_end q = 31" "length (cb_ptr q) = 16"
  shows "\<exists>q'. can_buf_reserve True fresh q 1 = Some (16, q') \<and> can_buf_list q' = map fresh [16..<31]"
proof -
  let ?q' = "q\<lparr>cb_ptr := map (\<lambda>i. if i < 16 then cb_ptr q ! i else fresh i) [0..<32], cb_size := 31\<rparr>"
  have "can_buf_reserve True fresh q 1 = Some (16, ?q')"
    using q by (simp add: can_buf_reserve_def can_buf_capacity_def can_buf_size_def
        can_buf_grow_numeral del: upt_Suc)
  moreover have "cb_size ?q' = mask 5" by (simp add: mask_eq_exp_minus_1)
  moreover have "unat (can_buf_size ?q') = 15" using q by (simp add: can_buf_size_def)
  ultimately have "can_buf_list ?q' = ring_list (cb_ptr ?q') 32 16 15"
    using q by (subst can_buf_list_ring [of _ 5]) auto
  also have "\<dots> = map fresh [16..<31]"
    by (rule nth_equalityI) (simp_all add: ring_list_def del: upt_rec_numeral)
  finally show ?thesis using \<open>can_buf_reserve True fresh q 1 = _\<close> by blast
qed

section \<open>Properties\<close>

text \<open>C20. Starting from any well-formed frame buffer, every sequence of \<open>can_buf_write\<close> and
  \<open>can_buf_read\<close> calls stays within the allocated memory, and the frames that were in the buffer
  followed by those that the writes accepted are exactly the frames that the reads delivered
  followed by those still in the buffer: no frame is lost, duplicated or reordered, although the
  offsets wrap around.\<close>

theorem can_buf_fifo:
  assumes "can_buf_invar buf"
  shows "\<exists>accepted delivered buf'.
    fifo_run can_buf_write can_buf_read ops buf = Some (accepted, delivered, buf')
    \<and> can_buf_invar buf' \<and> can_buf_list buf @ accepted = delivered @ can_buf_list buf'"
  using assms by (rule cbq.run_in_order)

definition can_buf_demo :: "nat can_buf" where
  "can_buf_demo = \<lparr>cb_ptr = [0, 0, 0, 7], cb_size = 3, cb_begin = - 1, cb_end = 0\<rparr>"

lemma can_buf_demo_invar: "can_buf_invar can_buf_demo"
  unfolding can_buf_invar_def can_buf_demo_def
  by (auto intro!: exI [of _ 2] simp: mask_eq_exp_minus_1)

theorem can_buf_fifo_witness:
  "can_buf_invar can_buf_demo \<and> (\<exists>accepted delivered buf'.
    fifo_run can_buf_write can_buf_read [Put [1, 2, 3], Get 2] can_buf_demo
      = Some (accepted, delivered, buf')
    \<and> can_buf_invar buf' \<and> can_buf_list can_buf_demo @ accepted = delivered @ can_buf_list buf')"
  using can_buf_fifo [OF can_buf_demo_invar] can_buf_demo_invar by blast

text \<open>\<open>can_buf_reserve\<close> terminates and, when the allocation succeeds and the frames either wrap
  around the end of the buffer or have both offsets within the old size, gives room for \<open>n\<close> more
  frames, keeps the buffer well formed and keeps every queued frame in its place.\<close>

theorem can_buf_reserve_correct:
  assumes "can_buf_invar buf" and "can_buf_growable buf"
    and "unat (can_buf_size buf) + unat n < 2 ^ 31"
  shows "\<exists>buf'. can_buf_reserve True fresh buf n = Some (can_buf_capacity buf', buf')
    \<and> n \<le> can_buf_capacity buf' \<and> can_buf_invar buf' \<and> can_buf_list buf' = can_buf_list buf"
  using assms by (rule can_buf_reserve_grows)

theorem can_buf_reserve_correct_witness:
  "can_buf_growable can_buf_demo \<and> (\<exists>buf'. can_buf_reserve True (\<lambda>_. 0) can_buf_demo 20
      = Some (can_buf_capacity buf', buf')
    \<and> 20 \<le> can_buf_capacity buf' \<and> can_buf_invar buf' \<and> can_buf_list buf' = can_buf_list can_buf_demo)"
proof -
  have "can_buf_growable can_buf_demo" "unat (can_buf_size can_buf_demo) + unat (20 :: size_t) < 2 ^ 31"
    by (simp_all add: can_buf_growable_def can_buf_demo_def can_buf_size_def)
  with can_buf_reserve_correct [OF can_buf_demo_invar] show ?thesis by blast
qed

text \<open>A buffer whose frames do not wrap but whose offsets have run past the old size loses its
  frames when it grows: sixteen frames through a fifteen-frame buffer, fifteen more queued, and
  \<open>can_buf_reserve\<close> for one more leaves fifteen frames of uninitialised memory in the queue.\<close>

theorem can_buf_reserve_loses_frames:
  assumes "length xs = 15" "length ys = 15"
  shows "\<exists>q0 q1 q2 q3 q4 q5 q6.
     can_buf_reserve True fresh (can_buf_init [] 0) 1 = Some (15, q0)
   \<and> can_buf_write q0 xs = Some (15, q1) \<and> can_buf_read q1 15 = Some (xs, q2)
   \<and> can_buf_write q2 [x] = Some (1, q3) \<and> can_buf_read q3 1 = Some ([x], q4)
   \<and> can_buf_write q4 ys = Some (15, q5) \<and> can_buf_list q5 = ys
   \<and> can_buf_reserve True fresh q5 1 = Some (16, q6) \<and> can_buf_list q6 = map fresh [16..<31]"
proof -
  let ?q0 = "\<lparr>cb_ptr = map fresh [0..<16], cb_size = 15, cb_begin = 0, cb_end = 0\<rparr>"
  have q0: "can_buf_reserve True fresh (can_buf_init [] 0) 1 = Some (15, ?q0)"
    by (simp add: can_buf_reserve_def can_buf_init_def can_buf_capacity_def can_buf_size_def
        can_buf_grow_numeral)
  have "(15 :: size_t) = mask 4" by (simp add: mask_eq_exp_minus_1)
  then have "\<exists>k < 32. (15 :: size_t) = mask k" by (intro exI [of _ 4]) simp
  then have inv0: "can_buf_invar ?q0" "can_buf_list ?q0 = []"
    by (simp_all add: can_buf_invar_def can_buf_list_def can_buf_size_def)
  have "length xs \<le> unat (can_buf_capacity ?q0)" using assms by (simp add: can_buf_capacity_def)
  from can_buf_pass [OF inv0 this] obtain q1 q2 where
    q1: "can_buf_write ?q0 xs = Some (length xs, q1)" "can_buf_read q1 (length xs) = Some (xs, q2)"
    and q2: "can_buf_invar q2" "can_buf_list q2 = []" "cb_size q2 = 15" "cb_begin q2 = 15" "cb_end q2 = 15"
    unfolding assms can_buf.simps of_nat_numeral add_0 by blast
  have "length [x] \<le> unat (can_buf_capacity q2)" using q2 by (simp add: can_buf_capacity_def)
  from can_buf_pass [OF q2(1,2) this] obtain q3 q4 where
    q3: "can_buf_write q2 [x] = Some (length [x], q3)" "can_buf_read q3 (length [x]) = Some ([x], q4)"
    and q4: "can_buf_invar q4" "can_buf_list q4 = []" "cb_size q4 = 15"
      "cb_begin q4 = 15 + of_nat (length [x])" "cb_end q4 = 15 + of_nat (length [x])"
    unfolding q2(3-5) by blast
  have "length ys \<le> unat (can_buf_capacity q4)"
    using q4 assms(2) by (simp add: can_buf_capacity_def)
  from can_buf_write_all [OF q4(1) this] obtain q5 where
    q5: "can_buf_write q4 ys = Some (length ys, q5)" "can_buf_list q5 = ys" and q5': "can_buf_invar q5"
      "cb_size q5 = 15" "cb_begin q5 = 15 + of_nat (length [x])"
      "cb_end q5 = 15 + of_nat (length [x]) + of_nat (length ys)"
    unfolding q4(2-5) append_Nil by blast
  then have "cb_begin q5 = 16" "cb_end q5 = 31" "length (cb_ptr q5) = 16"
    using assms by (simp_all add: can_buf_invar_def)
  from can_buf_reserve_past_size [OF q5'(2) this] obtain q6 where
    "can_buf_reserve True fresh q5 1 = Some (16, q6)" "can_buf_list q6 = map fresh [16..<31]" by blast
  with q0 q1 q3 q5 assms show ?thesis by auto
qed

theorem can_buf_reserve_loses_frames_witness:
  "\<exists>q0 q1 q2 q3 q4 q5 q6.
     can_buf_reserve True (\<lambda>_. 99) (can_buf_init [] 0) 1 = Some (15, q0)
   \<and> can_buf_write q0 [0..<15] = Some (15, q1) \<and> can_buf_read q1 15 = Some ([0..<15], q2)
   \<and> can_buf_write q2 [15] = Some (1, q3) \<and> can_buf_read q3 1 = Some ([15], q4)
   \<and> can_buf_write q4 [16..<31] = Some (15, q5) \<and> can_buf_list q5 = [16..<31::nat]
   \<and> can_buf_reserve True (\<lambda>_. 99) q5 1 = Some (16, q6) \<and> can_buf_list q6 = map (\<lambda>_. 99) [16..<31]"
  by (rule can_buf_reserve_loses_frames) simp_all

end
