(* ===== verification/Rtt_Types.thy ===== *)
theory Rtt_Types
  imports Prelude
begin

text \<open>
  The data of the RT-Thread port (\<open>port/rtthread/src/internal.h\<close> and the public
  \<open>lely/rtthread/runtime.h\<close>) with every package option enabled: frames, configuration, the runtime
  structure, and the calls it makes into the RT-Thread kernel, the CAN driver and the Lely stack.

  A call that leaves the port is recorded in the trace \<open>out\<close> of the runtime, and what it returns is
  decided by an environment \<open>env\<close>, a parameter of every operation that calls out: a function of
  the calls made so far, so that nothing is assumed about the kernel, the driver and the stack.
\<close>

section \<open>Frames and times\<close>

record timespec =
  tv_sec :: int
  tv_nsec :: int

definition CAN_MAX_LEN :: nat where "CAN_MAX_LEN = 8"

record can_msg =
  cm_id :: u32
  cm_flags :: u8
  cm_len :: u8
  cm_data :: bytes

definition CAN_FLAG_IDE :: u8 where "CAN_FLAG_IDE = 1"
definition CAN_FLAG_RTR :: u8 where "CAN_FLAG_RTR = 2"
definition CAN_FLAG_FDF :: u8 where "CAN_FLAG_FDF = 4"
definition CAN_FLAG_BRS :: u8 where "CAN_FLAG_BRS = 8"
definition CAN_FLAG_ESI :: u8 where "CAN_FLAG_ESI = 16"
definition CAN_MASK_BID :: u32 where "CAN_MASK_BID = 0x7ff"
definition CAN_MASK_EID :: u32 where "CAN_MASK_EID = 0x1fffffff"

record rt_can_msg =
  rcm_id :: u32
  rcm_ide :: bool
  rcm_rtr :: bool
  rcm_len :: u8
  rcm_fd_frame :: bool
  rcm_brs :: bool
  rcm_nonblocking :: bool
  rcm_data :: bytes

record rt_can_status =
  rcverrcnt :: u32
  snderrcnt :: u32
  biterrcnt :: u32
  bitpaderrcnt :: u32
  crcerrcnt :: u32
  formaterrcnt :: u32
  ackerrcnt :: u32

datatype can_state = CAN_STATE_ACTIVE | CAN_STATE_PASSIVE | CAN_STATE_BUSOFF | CAN_STATE_SLEEPING
  | CAN_STATE_STOPPED

record can_err =
  ce_state :: can_state
  ce_error :: u8

section \<open>Configuration\<close>

datatype canfd_len_mode = LELY_RTT_CANFD_LEN_BYTES | LELY_RTT_CANFD_LEN_DLC | LEN_MODE_OTHER nat

text \<open>Callbacks are present or absent; what they return belongs to the environment.\<close>

record runtime_config =
  can_name :: "string option"
  can_bitrate :: u32
  rx_batch :: size_t
  thread_stack_size :: u32
  thread_priority :: u8
  thread_timeslice :: u32
  start_timeout_ms :: u32
  stop_timeout_ms :: u32
  start_controller :: bool
  use_status_indication :: bool
  can_fd :: bool
  can_brs :: bool
  can_fd_len_mode :: canfd_len_mode
  filter_setup :: bool
  status_mapper :: bool

section \<open>Calls out of the port\<close>

datatype timer_call = TimerInit | TimerStop | TimerSetTime u32 | TimerStart | TimerDetach

datatype device_call = DevFind string | DevHasNonblocking | DevOpen | DevSetBaud u32 | DevSetCanfd
  | DevSetMode | DevFilterSetup | DevSetRxIndicate bool | DevSetStatusInd bool | DevStart bool
  | DevRead | DevWrite rt_can_msg | DevGetStatus | DevStatusMapper | DevClose

datatype lely_call = IoCtxCreate | IoCtxShutdown | IoCtxDestroy | EvLoopCreate | EvLoopPollOne
  | EvLoopDestroy | IoUserTimerCreate | IoUserTimerDestroy | IoClockSettime timespec
  | IoCanNetCreate | IoCanNetStart | IoCanNetLock | IoCanNetSetTime | IoCanNetUnlock | IoCanNetDestroy
  | IoUserCanCreate u32 | IoUserCanDestroy | IoUserCanOnMsg can_msg | IoUserCanOnErr can_err

datatype call = Tick_get | Registry_add | Registry_remove | Event_send u32 | Timer timer_call | Device device_call | Lely lely_call

record env =
  e_err :: "call list \<Rightarrow> call \<Rightarrow> rt_err" \<comment> \<open>calls that return an \<open>rt_err_t\<close>\<close>
  e_ok :: "call list \<Rightarrow> call \<Rightarrow> bool" \<comment> \<open>calls that return a pointer, or \<open>-1\<close> on failure\<close>
  e_tick :: "call list \<Rightarrow> u32" \<comment> \<open>\<open>rt_tick_get\<close>\<close>
  e_read :: "call list \<Rightarrow> rt_can_msg option" \<comment> \<open>\<open>rt_device_read\<close>, \<open>None\<close> when no whole frame is read\<close>
  e_written :: "call list \<Rightarrow> int" \<comment> \<open>\<open>rt_device_write\<close>, in frames\<close>
  e_status :: "call list \<Rightarrow> rt_can_status" \<comment> \<open>\<open>RT_CAN_CMD_GET_STATUS\<close>\<close>
  e_mapper :: "rt_can_status \<Rightarrow> rt_can_status option \<Rightarrow> can_err \<Rightarrow> bool \<times> can_err"

section \<open>The runtime\<close>

record time_state =
  last_tick :: u32
  ticks :: u64
  initialized :: bool

record runtime =
  config :: runtime_config
  owner_thread :: bool
  can_dev :: bool
  ctx :: bool
  loop :: bool
  io_timer :: bool
  can_chan :: bool
  can_net :: bool
  time :: time_state
  last_can_status :: rt_can_status
  callback_refs :: u32
  callback_quiescing :: bool
  init_result :: rt_err
  runtime_error :: rt_err
  event_initialized :: bool
  deadline_timer_initialized :: bool
  can_opened :: bool
  status_registered :: bool
  registry_registered :: bool
  controller_started :: bool
  status_valid :: bool
  running :: bool
  out :: "call list"

definition LELY_RTT_EVENT_RX_READY :: u32 where "LELY_RTT_EVENT_RX_READY = 1"
definition LELY_RTT_EVENT_TIMER_DUE :: u32 where "LELY_RTT_EVENT_TIMER_DUE = 2"
definition LELY_RTT_EVENT_CAN_STATUS :: u32 where "LELY_RTT_EVENT_CAN_STATUS = 4"
definition LELY_RTT_EVENT_STOP :: u32 where "LELY_RTT_EVENT_STOP = 8"
definition LELY_RTT_EVENT_READY :: u32 where "LELY_RTT_EVENT_READY = 16"
definition LELY_RTT_EVENT_EXIT :: u32 where "LELY_RTT_EVENT_EXIT = 32"
definition LELY_RTT_EVENT_COMMAND :: u32 where "LELY_RTT_EVENT_COMMAND = 64"

definition emit :: "call \<Rightarrow> runtime \<Rightarrow> runtime" where
  "emit c r = r\<lparr>out := out r @ [c]\<rparr>"

definition event_send :: "u32 \<Rightarrow> runtime \<Rightarrow> runtime" where
  "event_send ev = emit (Event_send ev)"

definition latch_error :: "rt_err \<Rightarrow> runtime \<Rightarrow> runtime" where
  "latch_error err r = (if err \<noteq> RT_EOK \<and> runtime_error r = RT_EOK then r\<lparr>runtime_error := err\<rparr> else r)"

text \<open>A sequence of statements that stops at the first status other than \<open>RT_EOK\<close>.\<close>

fun steps :: "(runtime \<Rightarrow> rt_err \<times> runtime) list \<Rightarrow> runtime \<Rightarrow> rt_err \<times> runtime" where
  "steps [] r = (RT_EOK, r)"
| "steps (f # fs) r = (case f r of (e, r') \<Rightarrow> if e = RT_EOK then steps fs r' else (e, r'))"

text \<open>The structure as \<open>rt_calloc\<close> and the copy of the configuration leave it.\<close>

definition runtime_zero :: "runtime_config \<Rightarrow> runtime" where
  "runtime_zero cfg = \<lparr>config = cfg, owner_thread = False, can_dev = False, ctx = False, loop = False,
     io_timer = False, can_chan = False, can_net = False,
     time = \<lparr>last_tick = 0, ticks = 0, initialized = False\<rparr>,
     last_can_status = \<lparr>rcverrcnt = 0, snderrcnt = 0, biterrcnt = 0, bitpaderrcnt = 0, crcerrcnt = 0,
       formaterrcnt = 0, ackerrcnt = 0\<rparr>,
     callback_refs = 0, callback_quiescing = False, init_result = RT_EOK, runtime_error = RT_EOK,
     event_initialized = False, deadline_timer_initialized = False, can_opened = False,
     status_registered = False, registry_registered = False, controller_started = False,
     status_valid = False, running = False, out = []\<rparr>"

lemma emit_simps [simp]:
  "out (emit c r) = out r @ [c]" "time (emit c r) = time r" "config (emit c r) = config r"
  "runtime_error (emit c r) = runtime_error r" "can_dev (emit c r) = can_dev r"
  "io_timer (emit c r) = io_timer r" "event_initialized (emit c r) = event_initialized r"
  "deadline_timer_initialized (emit c r) = deadline_timer_initialized r"
  "can_chan (emit c r) = can_chan r" "can_net (emit c r) = can_net r" "can_opened (emit c r) = can_opened r"
  "status_registered (emit c r) = status_registered r" "status_valid (emit c r) = status_valid r"
  "registry_registered (emit c r) = registry_registered r"
  "controller_started (emit c r) = controller_started r" "last_can_status (emit c r) = last_can_status r"
  "ctx (emit c r) = ctx r" "loop (emit c r) = loop r" "running (emit c r) = running r"
  "callback_refs (emit c r) = callback_refs r" "callback_quiescing (emit c r) = callback_quiescing r"
  "owner_thread (emit c r) = owner_thread r" "init_result (emit c r) = init_result r"
  by (simp_all add: emit_def)

text \<open>A configuration and an environment in which every call succeeds, for examples.\<close>

definition demo_config :: runtime_config where
  "demo_config = \<lparr>can_name = Some ''can1'', can_bitrate = 500000, rx_batch = 8, thread_stack_size = 4096,
     thread_priority = 10, thread_timeslice = 10, start_timeout_ms = 1000, stop_timeout_ms = 1000,
     start_controller = True, use_status_indication = True, can_fd = True, can_brs = True,
     can_fd_len_mode = LELY_RTT_CANFD_LEN_DLC, filter_setup = False, status_mapper = False\<rparr>"

definition demo_env :: env where
  "demo_env = \<lparr>e_err = (\<lambda>_ _. RT_EOK), e_ok = (\<lambda>_ _. True), e_tick = (\<lambda>cs. of_nat (length cs)),
     e_read = (\<lambda>_. None), e_written = (\<lambda>_. 1),
     e_status = (\<lambda>_. \<lparr>rcverrcnt = 0, snderrcnt = 0, biterrcnt = 0, bitpaderrcnt = 0, crcerrcnt = 0,
       formaterrcnt = 0, ackerrcnt = 0\<rparr>), e_mapper = (\<lambda>_ _ e. (False, e))\<rparr>"

end
