(* ===== verification/Rtt_Time.thy ===== *)
theory Rtt_Time
  imports Rtt_Types
begin

text \<open>
  Monotonic time and the deadline timer (\<open>port/rtthread/src/time.c\<close>, \<open>timer.c\<close>): extension of the
  wrapping kernel tick to 64 bits, conversion of timeouts and of absolute deadlines to ticks, and
  the bridge from Lely's passive timer to the kernel's one-shot timer. \<open>hz\<close> is
  \<open>RT_TICK_PER_SECOND\<close>; \<open>RT_TICK_MAX\<close> is that of the 32-bit \<open>rt_tick_t\<close>.
\<close>

section \<open>Model\<close>

definition RT_TICK_MAX :: u32 where "RT_TICK_MAX = 0xFFFFFFFF"

definition timer_max :: u64 where "timer_max = ucast (RT_TICK_MAX div 2 - 1)"

definition lely_rtt_timeout_ticks :: "u64 \<Rightarrow> u32 \<Rightarrow> u32" where
  "lely_rtt_timeout_ticks hz timeout_ms =
     (let ticks = (ucast timeout_ms * hz + 999) div 1000;
          ticks = (if ticks = 0 then 1 else ticks);
          max_ticks = (0x7FFFFFFF :: u64);
          max_ticks = (if max_ticks > timer_max then timer_max else max_ticks);
          ticks = (if ticks > max_ticks then max_ticks else ticks)
      in ucast ticks)"

definition time_sample :: "u32 \<Rightarrow> time_state \<Rightarrow> time_state" where
  "time_sample now ts =
     (if \<not> initialized ts then \<lparr>last_tick = now, ticks = 0, initialized = True\<rparr>
      else ts\<lparr>last_tick := now, ticks := ticks ts + ucast (now - last_tick ts)\<rparr>)"

definition time_value :: "u64 \<Rightarrow> time_state \<Rightarrow> timespec" where
  "time_value hz ts = \<lparr>tv_sec = sint (ticks ts div hz),
     tv_nsec = sint (ucast (((ticks ts mod hz) * 1000000000) div hz) :: u32)\<rparr>"

definition lely_rtt_time_now :: "env \<Rightarrow> u64 \<Rightarrow> runtime \<Rightarrow> timespec option \<times> runtime" where
  "lely_rtt_time_now E hz r =
     (if hz = 0 then (None, r)
      else let ts = time_sample (e_tick E (out r)) (time r)
           in (Some (time_value hz ts), (emit Tick_get r)\<lparr>time := ts\<rparr>))"

definition lely_rtt_timespec_cmp :: "timespec \<Rightarrow> timespec \<Rightarrow> int" where
  "lely_rtt_timespec_cmp lhs rhs =
     (if tv_sec lhs < tv_sec rhs then - 1
      else if tv_sec lhs > tv_sec rhs then 1
      else if tv_nsec lhs < tv_nsec rhs then - 1
      else if tv_nsec lhs > tv_nsec rhs then 1
      else 0)"

definition lely_rtt_deadline_ticks :: "u64 \<Rightarrow> timespec \<Rightarrow> timespec \<Rightarrow> u32" where
  "lely_rtt_deadline_ticks hz now nxt =
     (let max_ticks = timer_max;
          sec0 = (word_of_int (tv_sec nxt - tv_sec now) :: u64);
          (sec, nsec) =
            (if tv_nsec nxt \<ge> tv_nsec now
             then (sec0, word_of_int (tv_nsec nxt - tv_nsec now) :: u64)
             else (sec0 - 1, 1000000000 + word_of_int (tv_nsec nxt) - word_of_int (tv_nsec now)))
      in if sec > max_ticks div hz then ucast max_ticks
         else let ticks = sec * hz + (nsec * hz + 999999999) div 1000000000;
                  ticks = (if ticks = 0 then 1 else ticks);
                  ticks = (if ticks > max_ticks then max_ticks else ticks)
              in ucast ticks)"

definition lely_rtt_timer_setnext :: "env \<Rightarrow> u64 \<Rightarrow> timespec \<Rightarrow> runtime \<Rightarrow> runtime" where
  "lely_rtt_timer_setnext E hz nxt r =
     (if \<not> deadline_timer_initialized r then r
      else if tv_sec nxt = 0 \<and> tv_nsec nxt = 0 then emit (Timer TimerStop) r
      else case lely_rtt_time_now E hz r of
        (None, r1) \<Rightarrow> r1
      | (Some now, r1) \<Rightarrow>
          if lely_rtt_timespec_cmp nxt now \<le> 0
          then event_send LELY_RTT_EVENT_TIMER_DUE (emit (Timer TimerStop) r1)
          else
            let r2 = emit (Timer (TimerSetTime (lely_rtt_deadline_ticks hz now nxt)))
                       (emit (Timer TimerStop) r1);
                err = e_err E (out r2) (Timer TimerStart);
                r3 = emit (Timer TimerStart) r2
            in if err \<noteq> RT_EOK
               then event_send LELY_RTT_EVENT_STOP
                      (if runtime_error r3 = RT_EOK then r3\<lparr>runtime_error := RT_ERROR\<rparr> else r3)
               else r3)"

definition lely_rtt_timer_init :: "env \<Rightarrow> u64 \<Rightarrow> runtime \<Rightarrow> rt_err \<times> runtime" where
  "lely_rtt_timer_init E hz r =
     (if \<not> ctx r \<or> \<not> loop r then (RT_EINVAL, r)
      else
        let r1 = (emit (Timer TimerInit) r)\<lparr>deadline_timer_initialized := True\<rparr>;
            ok = e_ok E (out r1) (Lely IoUserTimerCreate);
            r2 = (emit (Lely IoUserTimerCreate) r1)\<lparr>io_timer := ok\<rparr>
        in if \<not> ok then (RT_ERROR, r2)
           else case lely_rtt_time_now E hz r2 of
             (None, r3) \<Rightarrow> (RT_ERROR, r3)
           | (Some now, r3) \<Rightarrow>
               if \<not> e_ok E (out r3) (Lely (IoClockSettime now))
               then (RT_ERROR, emit (Lely (IoClockSettime now)) r3)
               else (RT_EOK, emit (Lely (IoClockSettime now)) r3))"

definition lely_rtt_timer_advance :: "env \<Rightarrow> u64 \<Rightarrow> runtime \<Rightarrow> runtime" where
  "lely_rtt_timer_advance E hz r =
     (if \<not> io_timer r then r
      else case lely_rtt_time_now E hz r of
        (None, r1) \<Rightarrow> r1
      | (Some now, r1) \<Rightarrow> emit (Lely (IoClockSettime now)) r1)"

definition lely_rtt_timer_sync_can_net :: "env \<Rightarrow> runtime \<Rightarrow> runtime" where
  "lely_rtt_timer_sync_can_net E r =
     (if \<not> can_net r then r
      else
        let locked = e_ok E (out r) (Lely IoCanNetLock);
            r1 = emit (Lely IoCanNetLock) r;
            (err, r2) =
              (if \<not> locked then (RT_ERROR, r1)
               else
                 let err1 = (if e_ok E (out r1) (Lely IoCanNetSetTime) then RT_EOK else RT_ERROR);
                     ra = emit (Lely IoCanNetSetTime) r1;
                     unlocked = e_ok E (out ra) (Lely IoCanNetUnlock);
                     rb = emit (Lely IoCanNetUnlock) ra
                 in (if \<not> unlocked \<and> err1 = RT_EOK then RT_ERROR else err1, rb))
        in if err \<noteq> RT_EOK
           then let r3 = (if runtime_error r2 = RT_EOK then r2\<lparr>runtime_error := err\<rparr> else r2)
                in if event_initialized r3 then event_send LELY_RTT_EVENT_STOP r3 else r3
           else r2)"

definition lely_rtt_timer_fini :: "runtime \<Rightarrow> runtime" where
  "lely_rtt_timer_fini r =
     (let r1 = (if deadline_timer_initialized r
                then (emit (Timer TimerDetach) (emit (Timer TimerStop) r))
                       \<lparr>deadline_timer_initialized := False\<rparr>
                else r)
      in if io_timer r1 then (emit (Lely IoUserTimerDestroy) r1)\<lparr>io_timer := False\<rparr> else r1)"

section \<open>Timeouts\<close>

lemma timer_max_eq: "timer_max = 2147483646"
  by (simp add: timer_max_def RT_TICK_MAX_def)

lemma mult_lt_32:
  assumes "a < 4294967296" "b < (4294967296::nat)"
  shows "a * b + 999 < 18446744073709551616"
proof -
  have "a * b \<le> 4294967295 * 4294967295" using assms by (intro mult_le_mono) auto
  then show ?thesis by simp
qed

lemma unat_clamped_ticks:
  fixes t :: u64
  shows "unat (ucast (if (if t = 0 then 1 else t) > timer_max then timer_max
      else if t = 0 then 1 else t) :: u32) = min (max 1 (unat t)) 2147483646"
proof (cases "t = 0")
  case False
  then have "0 < unat t" by (simp add: unat_gt_0)
  with False show ?thesis
    by (auto simp: timer_max_eq word_less_nat_alt unat_ucast_mod min_def max_def)
qed (simp add: timer_max_eq)

lemma unat_timeout_ticks:
  assumes "unat hz < 4294967296"
  shows "unat (lely_rtt_timeout_ticks hz ms)
    = min (max 1 ((unat ms * unat hz + 999) div 1000)) 2147483646"
proof -
  have "unat ((ucast ms * hz + 999) div 1000 :: u64) = (unat ms * unat hz + 999) div 1000"
    using mult_lt_32 [OF unat_u32_lt assms, of ms] by (simp add: unat_div unat_word_ariths)
  moreover have "\<not> (0x7FFFFFFF :: u64) \<le> timer_max" by (simp add: timer_max_eq)
  ultimately show ?thesis
    using unat_clamped_ticks [of "(ucast ms * hz + 999) div 1000"]
    by (simp only: lely_rtt_timeout_ticks_def Let_def not_le if_True)
qed

section \<open>Monotonic time\<close>

text \<open>
  \<open>time_inv t0 t ts\<close>: the runtime first sampled the kernel's tick count when its true value was
  \<open>t0\<close> and last sampled it when it was \<open>t\<close>.
\<close>

definition time_inv :: "nat \<Rightarrow> nat \<Rightarrow> time_state \<Rightarrow> bool" where
  "time_inv t0 t ts \<longleftrightarrow> initialized ts \<and> last_tick ts = of_nat t \<and> t0 \<le> t
     \<and> unat (ticks ts) = t - t0"

lemma time_sample_first:
  "\<not> initialized ts \<Longrightarrow> time_inv t t (time_sample (of_nat t) ts)"
  by (simp add: time_sample_def time_inv_def)

lemma unat_tick_delta:
  assumes "t \<le> t'" "t' - t < 4294967296"
  shows "unat ((of_nat t' :: u32) - of_nat t) = t' - t"
proof -
  have "(of_nat t' :: u32) - of_nat t = of_nat (t' - t)" using assms by (simp add: of_nat_diff)
  then show ?thesis using assms unat_of_nat [of "t' - t", where ?'a = 32] by simp
qed

lemma time_sample_next:
  assumes "time_inv t0 t ts" "t \<le> t'" "t' - t < 4294967296" "t' - t0 < 18446744073709551616"
  shows "time_inv t0 t' (time_sample (of_nat t') ts)"
proof -
  have "unat (ticks ts + ucast ((of_nat t' :: u32) - of_nat t)) = t' - t0"
    using assms by (simp add: time_inv_def unat_word_ariths unat_tick_delta)
  with assms show ?thesis by (simp add: time_sample_def time_inv_def)
qed

lemma sint_small: "unat (x :: 'a::len word) < 2 ^ (LENGTH('a) - 1) \<Longrightarrow> sint x = int (unat x)"
proof -
  assume "unat x < 2 ^ (LENGTH('a) - 1)"
  then have "int (unat x) < int (2 ^ (LENGTH('a) - 1))" by (simp only: of_nat_less_iff)
  then have "uint x < 2 ^ (LENGTH('a) - 1)" by simp
  then show ?thesis by (simp add: sint_uint signed_take_bit_int_eq_self order.trans [of "- _" 0])
qed

lemma time_value_floor:
  assumes "time_inv t0 t ts" "t - t0 < 9223372036854775808" "0 < unat hz" "unat hz < 4294967296"
  shows "tv_sec (time_value hz ts) = int ((t - t0) div unat hz)"
    "tv_nsec (time_value hz ts) = int ((t - t0) mod unat hz * 1000000000 div unat hz)"
    "tv_nsec (time_value hz ts) < 1000000000"
proof -
  let ?d = "t - t0" and ?h = "unat hz"
  have t: "unat (ticks ts) = ?d" using assms by (simp add: time_inv_def)
  have "?d div ?h < 2 ^ 63" using assms(2) by (intro le_less_trans [OF div_le_dividend]) simp
  then show "tv_sec (time_value hz ts) = int (?d div ?h)"
    by (simp add: time_value_def sint_small unat_div t)
  have m: "?d mod ?h < ?h" using assms by simp
  then have "?d mod ?h * 1000000000 < ?h * 1000000000" by simp
  then have q: "?d mod ?h * 1000000000 div ?h < 1000000000"
    using assms(3) by (simp add: div_less_iff_less_mult mult.commute)
  have "?d mod ?h * 1000000000 < 18446744073709551616" using m assms(4) by linarith
  then have "unat ((ticks ts mod hz) * 1000000000 div hz) = ?d mod ?h * 1000000000 div ?h"
    by (simp add: unat_div unat_mod unat_word_ariths t)
  with q show "tv_nsec (time_value hz ts) = int (?d mod ?h * 1000000000 div ?h)"
    "tv_nsec (time_value hz ts) < 1000000000"
    by (simp_all add: time_value_def sint_small unat_ucast_mod)
qed

section \<open>Deadlines\<close>

definition ts_normal :: "timespec \<Rightarrow> bool" where
  "ts_normal t \<longleftrightarrow> 0 \<le> tv_sec t \<and> tv_sec t < 9223372036854775808 \<and> 0 \<le> tv_nsec t \<and> tv_nsec t < 1000000000"

definition ts_ns :: "timespec \<Rightarrow> int" where
  "ts_ns t = tv_sec t * 1000000000 + tv_nsec t"

lemma timespec_cmp_ns:
  assumes "ts_normal a" "ts_normal b"
  shows "lely_rtt_timespec_cmp a b < 0 \<longleftrightarrow> ts_ns a < ts_ns b"
    "lely_rtt_timespec_cmp a b = 0 \<longleftrightarrow> ts_ns a = ts_ns b"
    "lely_rtt_timespec_cmp a b \<le> 0 \<longleftrightarrow> ts_ns a \<le> ts_ns b"
  using assms by (auto simp: lely_rtt_timespec_cmp_def ts_normal_def ts_ns_def)

lemma unat_word_of_int: "0 \<le> z \<Longrightarrow> z < 18446744073709551616 \<Longrightarrow> unat (word_of_int z :: u64) = nat z"
  by (simp add: unsigned_of_int take_bit_eq_mod)

text \<open>The seconds and nanoseconds that the borrow of \<open>lely_rtt_deadline_ticks\<close> computes.\<close>

lemma deadline_split:
  assumes "ts_normal now" "ts_normal nxt" "ts_ns now < ts_ns nxt"
  obtains sec nsec :: u64 where
    "(if tv_nsec nxt \<ge> tv_nsec now
      then (word_of_int (tv_sec nxt - tv_sec now), word_of_int (tv_nsec nxt - tv_nsec now))
      else (word_of_int (tv_sec nxt - tv_sec now) - 1,
            1000000000 + word_of_int (tv_nsec nxt) - word_of_int (tv_nsec now))) = (sec, nsec)"
    "unat nsec < 1000000000" "int (unat sec * 1000000000 + unat nsec) = ts_ns nxt - ts_ns now"
proof (cases "tv_nsec nxt \<ge> tv_nsec now")
  case True
  let ?s = "tv_sec nxt - tv_sec now" and ?n = "tv_nsec nxt - tv_nsec now"
  have "0 \<le> ?s" using True assms by (simp add: ts_normal_def ts_ns_def)
  then have "unat (word_of_int ?s :: u64) = nat ?s" "unat (word_of_int ?n :: u64) = nat ?n"
    using True assms by (intro unat_word_of_int; simp add: ts_normal_def)+
  then show thesis
    using True assms \<open>0 \<le> ?s\<close>
    by (intro that [of "word_of_int ?s" "word_of_int ?n"])
      (simp_all only: if_True, simp_all add: ts_normal_def ts_ns_def nat_less_iff)
next
  case False
  let ?s = "tv_sec nxt - tv_sec now - 1" and ?n = "1000000000 + tv_nsec nxt - tv_nsec now"
  have s: "0 \<le> ?s" using False assms by (simp add: ts_normal_def ts_ns_def)
  have eqs: "(word_of_int (tv_sec nxt - tv_sec now) :: u64) - 1 = word_of_int ?s"
    "(1000000000 :: u64) + word_of_int (tv_nsec nxt) - word_of_int (tv_nsec now) = word_of_int ?n"
    by simp_all
  have "unat (word_of_int ?s :: u64) = nat ?s" "unat (word_of_int ?n :: u64) = nat ?n"
    using False assms s by (intro unat_word_of_int; simp add: ts_normal_def)+
  then show thesis
    using False assms s
    by (intro that [of "word_of_int ?s" "word_of_int ?n"])
      (simp_all only: if_False eqs, simp_all add: ts_normal_def ts_ns_def nat_less_iff)
qed

lemma ceil_split:
  "0 < g \<Longrightarrow> ((s * g + n) * h + a) div g = s * h + (n * h + a) div (g::nat)"
proof -
  assume "0 < g"
  have "(s * g + n) * h + a = n * h + a + (s * h) * g" by (simp add: algebra_simps)
  with \<open>0 < g\<close> show ?thesis by (simp only:) simp
qed

lemma unat_deadline_ticks:
  assumes "ts_normal now" "ts_normal nxt" "ts_ns now < ts_ns nxt"
    and hz: "0 < unat hz" "unat hz < 4294967296"
  shows "unat (lely_rtt_deadline_ticks hz now nxt)
    = min (max 1 ((nat (ts_ns nxt - ts_ns now) * unat hz + 999999999) div 1000000000)) 2147483646"
proof -
  from deadline_split [OF assms(1-3)] obtain sec nsec :: u64 where
    split: "(if tv_nsec nxt \<ge> tv_nsec now
      then (word_of_int (tv_sec nxt - tv_sec now), word_of_int (tv_nsec nxt - tv_nsec now))
      else (word_of_int (tv_sec nxt - tv_sec now) - 1,
            1000000000 + word_of_int (tv_nsec nxt) - word_of_int (tv_nsec now))) = (sec, nsec)"
    and nsec: "unat nsec < 1000000000"
    and D: "int (unat sec * 1000000000 + unat nsec) = ts_ns nxt - ts_ns now" .
  let ?S = "unat sec" and ?N = "unat nsec" and ?h = "unat hz"
  let ?c = "(?N * ?h + 999999999) div 1000000000"
  have C: "(nat (ts_ns nxt - ts_ns now) * ?h + 999999999) div 1000000000 = ?S * ?h + ?c"
    using ceil_split [of 1000000000 ?S ?N ?h 999999999]
    by (simp only: D [symmetric] nat_int)
  show ?thesis
  proof (cases "sec > timer_max div hz")
    case True
    then have "2147483646 div ?h < ?S" by (simp add: timer_max_eq word_less_nat_alt unat_div)
    then have "2147483646 < ?S * ?h" using hz by (simp add: div_less_iff_less_mult)
    moreover have "lely_rtt_deadline_ticks hz now nxt = 2147483646"
      using True by (simp only: lely_rtt_deadline_ticks_def Let_def split prod.case if_True)
        (simp add: timer_max_eq)
    ultimately show ?thesis by (simp add: C)
  next
    case False
    then have "?S \<le> 2147483646 div ?h" by (simp add: timer_max_eq word_less_nat_alt unat_div)
    then have "?S * ?h \<le> 2147483646" using hz by (simp add: less_eq_div_iff_mult_less_eq)
    moreover have "?N * ?h \<le> 1000000000 * 4294967296"
      using nsec hz by (intro mult_le_mono) auto
    moreover from this have "?c \<le> 4294967297" by simp
    ultimately have "unat (sec * hz + (nsec * hz + 999999999) div 1000000000) = ?S * ?h + ?c"
      by (simp add: unat_word_ariths unat_div)
    then show ?thesis
      using False unat_clamped_ticks [of "sec * hz + (nsec * hz + 999999999) div 1000000000"]
      by (simp only: lely_rtt_deadline_ticks_def Let_def split prod.case if_False C)
  qed
qed

section \<open>Properties\<close>

lemma ceil_bounds:
  assumes "0 < (g::nat)" "c = (x + (g - 1)) div g"
  shows "x \<le> c * g" "0 < c \<Longrightarrow> (c - 1) * g < x"
proof -
  have "c * g + (x + (g - 1)) mod g = x + (g - 1)" unfolding assms(2) by simp
  moreover have "(x + (g - 1)) mod g \<le> g - 1"
    using assms(1) mod_less_divisor [of g "x + (g - 1)"] by linarith
  ultimately show "x \<le> c * g" using assms(1) by linarith
  assume "0 < c"
  then have "(c - 1) * g + g = c * g" by (cases c) simp_all
  with \<open>c * g + _ = _\<close> assms(1) show "(c - 1) * g < x" by linarith
qed

text \<open>\<open>lely_rtt_timeout_ticks\<close> turns a millisecond timeout into a tick count that is positive and
  below half the tick range, that is never shorter than the timeout unless it was clamped to that
  limit, and that is less than one tick longer than it (and one tick for a zero timeout).\<close>

theorem timeout_ticks_safe:
  assumes "unat hz < 4294967296"
  shows "let t = unat (lely_rtt_timeout_ticks hz ms)
    in 0 < t \<and> t \<le> 2147483646 \<and> (t = 2147483646 \<or> unat ms * unat hz \<le> t * 1000)
      \<and> (t - 1) * 1000 \<le> unat ms * unat hz"
proof -
  define t where "t = unat (lely_rtt_timeout_ticks hz ms)"
  let ?x = "unat ms * unat hz" and ?c = "(unat ms * unat hz + 999) div 1000"
  have t: "t = min (max 1 ?c) 2147483646" using assms by (simp add: t_def unat_timeout_ticks)
  have "?x \<le> ?c * 1000" "0 < ?c \<Longrightarrow> (?c - 1) * 1000 < ?x"
    by (rule ceil_bounds [of 1000]; simp)+
  with t show ?thesis unfolding t_def [symmetric] Let_def by (cases "?c = 0") (auto simp: min_def max_def split: if_splits)
qed

theorem timeout_ticks_safe_witness:
  "0 < unat (lely_rtt_timeout_ticks 1000 50) \<and> unat (lely_rtt_timeout_ticks 1000 50) \<le> 2147483646"
  using timeout_ticks_safe [of 1000 50] by (simp add: Let_def)

text \<open>\<open>lely_rtt_time_now\<close> extends the wrapping 32-bit kernel tick exactly: if the last sample was
  taken at the true tick count \<open>t\<close> and fewer than \<open>2 ^ 32\<close> ticks have passed since, the new sample at
  \<open>t'\<close> is accounted for without loss, and the result is the time since the first sample, rounded
  down to a nanosecond and normalised.\<close>

theorem time_now_exact:
  assumes "time_inv t0 t (time r)" "t \<le> t'" "t' - t < 4294967296"
    and "t' - t0 < 9223372036854775808" "e_tick E (out r) = of_nat t'"
    and "0 < unat hz" "unat hz < 4294967296"
  shows "\<exists>tp r'. lely_rtt_time_now E hz r = (Some tp, r') \<and> time_inv t0 t' (time r')
    \<and> tv_sec tp = int ((t' - t0) div unat hz)
    \<and> tv_nsec tp = int ((t' - t0) mod unat hz * 1000000000 div unat hz)
    \<and> ts_normal tp"
proof -
  let ?ts = "time_sample (of_nat t') (time r)"
  have inv: "time_inv t0 t' ?ts" using assms by (intro time_sample_next) auto
  note val = time_value_floor [OF inv assms(4,6,7)]
  have "(t' - t0) div unat hz < 9223372036854775808"
    using assms(4) by (intro le_less_trans [OF div_le_dividend])
  then have "ts_normal (time_value hz ?ts)"
    using val by (simp add: ts_normal_def)
  moreover have "hz \<noteq> 0" using assms(6) by auto
  ultimately show ?thesis
    using assms inv val by (simp add: lely_rtt_time_now_def Let_def emit_def)
qed

theorem time_now_exact_witness:
  "\<exists>tp r'. lely_rtt_time_now (demo_env\<lparr>e_tick := \<lambda>_. 4\<rparr>) 1000
      ((runtime_zero demo_config)\<lparr>time := \<lparr>last_tick = 4294967290, ticks = 1000, initialized = True\<rparr>\<rparr>)
      = (Some tp, r') \<and> tv_sec tp = 1 \<and> tv_nsec tp = 10000000"
  using time_now_exact [of 4294966290 4294967290
      "(runtime_zero demo_config)\<lparr>time := \<lparr>last_tick = 4294967290, ticks = 1000, initialized = True\<rparr>\<rparr>"
      4294967300 "demo_env\<lparr>e_tick := \<lambda>_. 4\<rparr>" 1000]
  by (auto simp: time_inv_def)

text \<open>C36. For a deadline that lies in the future, \<open>lely_rtt_deadline_ticks\<close> gives a positive one-shot
  delay in the range the kernel accepts. A delay below the largest one, 2147483646 ticks, does not fire before
  the deadline and fires less than one tick after it. The largest delay may fire before a deadline that is farther away, which
  the code approaches through intermediate wake-ups, but does not fire a tick or more after it.\<close>

theorem deadline_ticks_not_early:
  assumes "ts_normal now" "ts_normal nxt" "ts_ns now < ts_ns nxt"
    and "0 < unat hz" "unat hz < 4294967296"
  shows "let t = unat (lely_rtt_deadline_ticks hz now nxt); d = nat (ts_ns nxt - ts_ns now)
    in 0 < t \<and> t \<le> 2147483646 \<and> (t = 2147483646 \<or> d * unat hz \<le> t * 1000000000)
    \<and> (t - 1) * 1000000000 < d * unat hz"
proof -
  define t where "t = unat (lely_rtt_deadline_ticks hz now nxt)"
  define d where "d = nat (ts_ns nxt - ts_ns now)"
  let ?x = "d * unat hz" and ?c = "(d * unat hz + 999999999) div 1000000000"
  have t: "t = min (max 1 ?c) 2147483646" using assms by (simp add: t_def d_def unat_deadline_ticks)
  have x: "0 < ?x" using assms by (simp add: d_def)
  have "?x \<le> ?c * 1000000000" "0 < ?c \<Longrightarrow> (?c - 1) * 1000000000 < ?x"
    by (rule ceil_bounds [of 1000000000]; simp)+
  with t x show ?thesis unfolding t_def [symmetric] d_def [symmetric] Let_def by (cases "?c = 0") (auto simp: min_def max_def split: if_splits)
qed

theorem deadline_ticks_not_early_witness:
  "ts_ns \<lparr>tv_sec = 4, tv_nsec = 999000000\<rparr> < ts_ns \<lparr>tv_sec = 5, tv_nsec = 1500000\<rparr>
    \<and> 0 < unat (lely_rtt_deadline_ticks 1000 \<lparr>tv_sec = 4, tv_nsec = 999000000\<rparr> \<lparr>tv_sec = 5, tv_nsec = 1500000\<rparr>)"
  using deadline_ticks_not_early [of "\<lparr>tv_sec = 4, tv_nsec = 999000000\<rparr>" "\<lparr>tv_sec = 5, tv_nsec = 1500000\<rparr>" 1000]
  by (simp add: ts_normal_def ts_ns_def Let_def)

text \<open>Whenever Lely sets a deadline, the owner is sure to be woken for it: \<open>lely_rtt_timer_setnext\<close>
  either arms the one-shot timer for a deadline that is still ahead, or finds it expired and posts
  \<open>TIMER_DUE\<close> with the timer stopped, or, when the kernel refuses to start the timer, latches an
  error and posts \<open>STOP\<close>.\<close>

theorem timer_setnext_wakes:
  assumes "deadline_timer_initialized r" "tv_sec nxt \<noteq> 0 \<or> tv_nsec nxt \<noteq> 0" "hz \<noteq> 0"
  shows "let r' = lely_rtt_timer_setnext E hz nxt r; now = time_value hz (time r');
      arm = out r @ [Tick_get, Timer TimerStop, Timer (TimerSetTime (lely_rtt_deadline_ticks hz now nxt))]
    in lely_rtt_timespec_cmp nxt now \<le> 0
         \<and> out r' = out r @ [Tick_get, Timer TimerStop, Event_send LELY_RTT_EVENT_TIMER_DUE]
         \<and> runtime_error r' = runtime_error r
     \<or> lely_rtt_timespec_cmp nxt now > 0 \<and> e_err E arm (Timer TimerStart) = RT_EOK
         \<and> out r' = arm @ [Timer TimerStart] \<and> runtime_error r' = runtime_error r
     \<or> lely_rtt_timespec_cmp nxt now > 0 \<and> e_err E arm (Timer TimerStart) \<noteq> RT_EOK
         \<and> out r' = arm @ [Timer TimerStart, Event_send LELY_RTT_EVENT_STOP] \<and> runtime_error r' \<noteq> RT_EOK"
  using assms by (auto simp: lely_rtt_timer_setnext_def lely_rtt_time_now_def event_send_def Let_def)

theorem timer_setnext_wakes_witness:
  "let r = (runtime_zero demo_config)\<lparr>deadline_timer_initialized := True\<rparr>;
       r' = lely_rtt_timer_setnext demo_env 1000 \<lparr>tv_sec = 0, tv_nsec = 2500000\<rparr> r
   in out r' = [Tick_get, Timer TimerStop, Timer (TimerSetTime 3), Timer TimerStart]"
  using timer_setnext_wakes [of "(runtime_zero demo_config)\<lparr>deadline_timer_initialized := True\<rparr>"
      "\<lparr>tv_sec = 0, tv_nsec = 2500000\<rparr>" 1000 demo_env]
  by (simp add: Let_def runtime_zero_def demo_env_def lely_rtt_timer_setnext_def lely_rtt_time_now_def
      time_sample_def time_value_def lely_rtt_timespec_cmp_def lely_rtt_deadline_ticks_def timer_max_eq
      event_send_def emit_def)

end
