(* ===== verification/Rtt_Can.thy ===== *)
theory Rtt_Can
  imports Rtt_Types
begin

text \<open>
  The CAN bridge (\<open>port/rtthread/src/can.c\<close>): the callback registry, conversion of frames between
  the RT-Thread driver and Lely, bring-up and shutdown of the device, the bounded receive batch and
  the status mapper. The build has CAN FD on both sides.
\<close>

section \<open>Callback registry\<close>

text \<open>The linked list of registered runtimes, each with the device it is bound to.\<close>

type_synonym registry = "(nat \<times> nat) list"

definition lely_rtt_can_registry_add :: "nat \<Rightarrow> nat \<Rightarrow> registry \<Rightarrow> registry" where
  "lely_rtt_can_registry_add rt dev reg = (rt, dev) # reg"

fun lely_rtt_can_registry_acquire :: "(nat \<Rightarrow> bool) \<Rightarrow> nat \<Rightarrow> registry \<Rightarrow> nat option" where
  "lely_rtt_can_registry_acquire acquire dev [] = None"
| "lely_rtt_can_registry_acquire acquire dev ((rt, d) # reg) =
     (if d = dev then (if acquire rt then Some rt else None)
      else lely_rtt_can_registry_acquire acquire dev reg)"

fun lely_rtt_can_registry_remove :: "nat \<Rightarrow> registry \<Rightarrow> registry" where
  "lely_rtt_can_registry_remove rt [] = []"
| "lely_rtt_can_registry_remove rt ((rt', d) # reg) =
     (if rt' = rt then reg else (rt', d) # lely_rtt_can_registry_remove rt reg)"

text \<open>What a driver callback does: the events it posts to the runtime it finds.\<close>

definition lely_rtt_can_rx_indicate ::
  "(nat \<Rightarrow> bool) \<Rightarrow> (nat \<Rightarrow> bool) \<Rightarrow> nat \<Rightarrow> registry \<Rightarrow> (nat \<times> u32) list" where
  "lely_rtt_can_rx_indicate acquire ev_init dev reg =
     (case lely_rtt_can_registry_acquire acquire dev reg of None \<Rightarrow> []
      | Some rt \<Rightarrow> if ev_init rt then [(rt, LELY_RTT_EVENT_RX_READY)] else [])"

definition lely_rtt_can_status_indicate ::
  "(nat \<Rightarrow> bool) \<Rightarrow> (nat \<Rightarrow> bool) \<Rightarrow> nat \<Rightarrow> registry \<Rightarrow> (nat \<times> u32) list" where
  "lely_rtt_can_status_indicate acquire ev_init dev reg =
     (case lely_rtt_can_registry_acquire acquire dev reg of None \<Rightarrow> []
      | Some rt \<Rightarrow> if ev_init rt then [(rt, LELY_RTT_EVENT_CAN_STATUS)] else [])"

section \<open>Frame conversion\<close>


definition CANFD_MAX_LEN :: nat where "CANFD_MAX_LEN = 64"

definition length_by_dlc :: "nat list" where
  "length_by_dlc = [0, 1, 2, 3, 4, 5, 6, 7, 8, 12, 16, 20, 24, 32, 48, 64]"

definition lely_rtt_can_dlc_to_len :: "nat \<Rightarrow> nat" where
  "lely_rtt_can_dlc_to_len dlc = (if dlc < length length_by_dlc then length_by_dlc ! dlc else 0)"

definition lely_rtt_can_len_to_dlc :: "nat \<Rightarrow> nat" where
  "lely_rtt_can_len_to_dlc len =
     (if len \<le> 8 then len else if len \<le> 12 then 9 else if len \<le> 16 then 10 else if len \<le> 20 then 11
      else if len \<le> 24 then 12 else if len \<le> 32 then 13 else if len \<le> 48 then 14
      else if len \<le> 64 then 15 else 16)"

text \<open>\<open>memset\<close> of the data array followed by \<open>memcpy\<close> of the first \<open>n\<close> bytes.\<close>

definition copy_data :: "nat \<Rightarrow> bytes \<Rightarrow> bytes" where
  "copy_data n data = take n data @ replicate (CANFD_MAX_LEN - n) 0"

definition lely_rtt_can_from_rt :: "runtime_config \<Rightarrow> rt_can_msg \<Rightarrow> can_msg option" where
  "lely_rtt_can_from_rt cfg src =
     (let flags1 = (if rcm_ide src then CAN_FLAG_IDE else 0);
          len8 = unat (rcm_len src)
      in if rcm_ide src \<and> rcm_id src > CAN_MASK_EID then None
         else if \<not> rcm_ide src \<and> rcm_id src > CAN_MASK_BID then None
         else
           case (if rcm_fd_frame src
             then (if \<not> can_fd cfg \<or> rcm_rtr src then None
                   else
                     case (if can_fd_len_mode cfg = LELY_RTT_CANFD_LEN_DLC
                       then (let len = lely_rtt_can_dlc_to_len len8
                             in if len8 > 15 \<or> (len = 0 \<and> len8 \<noteq> 0) then None else Some len)
                       else (if len8 > CANFD_MAX_LEN then None else Some len8)) of
                       None \<Rightarrow> None
                     | Some len \<Rightarrow>
                         if rcm_brs src \<and> \<not> can_brs cfg then None
                         else Some (len, flags1 OR CAN_FLAG_FDF
                                OR (if rcm_brs src then CAN_FLAG_BRS else 0)))
             else (if len8 > CAN_MAX_LEN then None
                   else Some (len8, flags1 OR (if rcm_rtr src then CAN_FLAG_RTR else 0)))) of
             None \<Rightarrow> None
           | Some (len, flags) \<Rightarrow>
               Some \<lparr>cm_id = rcm_id src, cm_flags = flags, cm_len = of_nat len,
                 cm_data = (if flags AND CAN_FLAG_RTR = 0 \<and> len \<noteq> 0
                            then copy_data len (rcm_data src) else replicate CANFD_MAX_LEN 0)\<rparr>)"

definition lely_rtt_can_to_rt :: "runtime_config \<Rightarrow> can_msg \<Rightarrow> rt_can_msg option" where
  "lely_rtt_can_to_rt cfg src =
     (let ide = cm_flags src AND CAN_FLAG_IDE \<noteq> 0;
          rtr = cm_flags src AND CAN_FLAG_RTR \<noteq> 0;
          len8 = unat (cm_len src);
          data = (if \<not> rtr \<and> len8 \<noteq> 0 then copy_data len8 (cm_data src) else replicate CANFD_MAX_LEN 0)
      in if ide \<and> cm_id src > CAN_MASK_EID then None
         else if \<not> ide \<and> cm_id src > CAN_MASK_BID then None
         else if cm_flags src AND CAN_FLAG_ESI \<noteq> 0 then None
         else if cm_flags src AND CAN_FLAG_FDF \<noteq> 0
         then (let brs = cm_flags src AND CAN_FLAG_BRS \<noteq> 0;
                   dlc = lely_rtt_can_len_to_dlc len8
               in if \<not> can_fd cfg \<or> rtr \<or> len8 > CANFD_MAX_LEN then None
                  else if brs \<and> \<not> can_brs cfg then None
                  else if dlc > 15 then None
                  else Some \<lparr>rcm_id = cm_id src, rcm_ide = ide, rcm_rtr = rtr,
                    rcm_len = (if can_fd_len_mode cfg = LELY_RTT_CANFD_LEN_DLC then of_nat dlc
                               else cm_len src),
                    rcm_fd_frame = True, rcm_brs = brs, rcm_nonblocking = True, rcm_data = data\<rparr>)
         else if len8 > CAN_MAX_LEN then None
         else Some \<lparr>rcm_id = cm_id src, rcm_ide = ide, rcm_rtr = rtr, rcm_len = cm_len src,
           rcm_fd_frame = False, rcm_brs = False, rcm_nonblocking = True, rcm_data = data\<rparr>)"

section \<open>Transmission\<close>

datatype errnum = ERRNUM_INVAL | ERRNUM_NOBUFS | ERRNUM_IO

text \<open>\<open>Inl\<close> is \<open>-1\<close> with the error number set.\<close>

definition lely_rtt_can_write :: "env \<Rightarrow> can_msg \<Rightarrow> runtime \<Rightarrow> (errnum + unit) \<times> runtime" where
  "lely_rtt_can_write E msg r =
     (case (if can_dev r then lely_rtt_can_to_rt (config r) msg else None) of
        None \<Rightarrow> (Inl ERRNUM_INVAL, r)
      | Some rtmsg \<Rightarrow>
          let written = e_written E (out r); r1 = emit (Device (DevWrite rtmsg)) r
          in if written = 1 then (Inr (), r1)
             else if written = 0 then (Inl ERRNUM_NOBUFS, r1) else (Inl ERRNUM_IO, r1))"

section \<open>Bring-up\<close>

definition IO_CAN_BUS_FLAG_ERR :: u32 where "IO_CAN_BUS_FLAG_ERR = 1"
definition IO_CAN_BUS_FLAG_FDF :: u32 where "IO_CAN_BUS_FLAG_FDF = 2"
definition IO_CAN_BUS_FLAG_BRS :: u32 where "IO_CAN_BUS_FLAG_BRS = 4"

text \<open>A driver call whose status is returned as it is.\<close>

definition dev_try :: "env \<Rightarrow> device_call \<Rightarrow> runtime \<Rightarrow> rt_err \<times> runtime" where
  "dev_try E c r = (e_err E (out r) (Device c), emit (Device c) r)"

definition can_find :: "env \<Rightarrow> runtime \<Rightarrow> rt_err \<times> runtime" where
  "can_find E r = (case can_name (config r) of None \<Rightarrow> (RT_EINVAL, r)
     | Some name \<Rightarrow>
         let found = e_ok E (out r) (Device (DevFind name));
             r1 = (emit (Device (DevFind name)) r)\<lparr>can_dev := found\<rparr>
         in (if found then RT_EOK else RT_ENOSYS, r1))"

definition can_check_tx :: "env \<Rightarrow> runtime \<Rightarrow> rt_err \<times> runtime" where
  "can_check_tx E r = (if e_ok E (out r) (Device DevHasNonblocking) then RT_EOK else RT_ENOSYS, r)"

definition can_open :: "env \<Rightarrow> runtime \<Rightarrow> rt_err \<times> runtime" where
  "can_open E r = (case dev_try E DevOpen r of (err, r1) \<Rightarrow>
     (err, if err = RT_EOK then r1\<lparr>can_opened := True\<rparr> else r1))"

definition can_set_fd :: "env \<Rightarrow> runtime \<Rightarrow> rt_err \<times> runtime" where
  "can_set_fd E r = (if can_fd (config r) then dev_try E DevSetCanfd r else (RT_EOK, r))"

definition can_filter :: "env \<Rightarrow> runtime \<Rightarrow> rt_err \<times> runtime" where
  "can_filter E r = (if filter_setup (config r) then dev_try E DevFilterSetup r else (RT_EOK, r))"

definition can_register :: "runtime \<Rightarrow> rt_err \<times> runtime" where
  "can_register r = (RT_EOK, (emit Registry_add r)\<lparr>registry_registered := True\<rparr>)"

definition can_set_status_ind :: "env \<Rightarrow> runtime \<Rightarrow> rt_err \<times> runtime" where
  "can_set_status_ind E r =
     (if use_status_indication (config r)
      then (case dev_try E (DevSetStatusInd True) r of (err, r1) \<Rightarrow>
        (err, if err = RT_EOK then r1\<lparr>status_registered := True\<rparr> else r1))
      else (RT_EOK, r))"

definition can_start :: "env \<Rightarrow> runtime \<Rightarrow> rt_err \<times> runtime" where
  "can_start E r =
     (if start_controller (config r)
      then (case dev_try E (DevStart True) r of (err, r1) \<Rightarrow>
        (err, if err = RT_EOK then r1\<lparr>controller_started := True\<rparr> else r1))
      else (RT_EOK, r))"

definition can_chan_flags :: "runtime_config \<Rightarrow> u32" where
  "can_chan_flags cfg = (if can_fd cfg
     then IO_CAN_BUS_FLAG_ERR OR IO_CAN_BUS_FLAG_FDF OR (if can_brs cfg then IO_CAN_BUS_FLAG_BRS else 0)
     else IO_CAN_BUS_FLAG_ERR)"

definition can_create_chan :: "env \<Rightarrow> runtime \<Rightarrow> rt_err \<times> runtime" where
  "can_create_chan E r =
     (let c = Lely (IoUserCanCreate (can_chan_flags (config r))); ok = e_ok E (out r) c
      in (if ok then RT_EOK else RT_ERROR, (emit c r)\<lparr>can_chan := ok\<rparr>))"

definition lely_rtt_can_init :: "env \<Rightarrow> runtime \<Rightarrow> rt_err \<times> runtime" where
  "lely_rtt_can_init E r = steps
     [can_find E, can_check_tx E, can_open E,
      \<lambda>r. dev_try E (DevSetBaud (can_bitrate (config r))) r,
      can_set_fd E, dev_try E DevSetMode, can_filter E, can_register,
      dev_try E (DevSetRxIndicate True), can_set_status_ind E, can_start E, can_create_chan E] r"

section \<open>Reception\<close>

text \<open>\<open>n\<close> is what is left of the batch. The result is the number of frames read.\<close>

fun drain_rx_loop :: "env \<Rightarrow> nat \<Rightarrow> runtime \<Rightarrow> nat \<times> runtime" where
  "drain_rx_loop E 0 r = (0, r)"
| "drain_rx_loop E (Suc n) r =
     (if \<not> can_dev r then (0, r)
      else case e_read E (out r) of
        None \<Rightarrow> (0, emit (Device DevRead) r)
      | Some rtmsg \<Rightarrow>
          let r1 = emit (Device DevRead) r;
              r2 = (case lely_rtt_can_from_rt (config r) rtmsg of None \<Rightarrow> r1
                    | Some msg \<Rightarrow> emit (Lely (IoUserCanOnMsg msg)) r1)
          in case drain_rx_loop E n r2 of (count, r3) \<Rightarrow> (Suc count, r3))"

definition lely_rtt_can_drain_rx :: "env \<Rightarrow> runtime \<Rightarrow> runtime" where
  "lely_rtt_can_drain_rx E r =
     (case drain_rx_loop E (unat (rx_batch (config r))) r of (count, r1) \<Rightarrow>
        if count = unat (rx_batch (config r)) then event_send LELY_RTT_EVENT_RX_READY r1 else r1)"

section \<open>Status\<close>

definition status_state :: "rt_can_status \<Rightarrow> can_state" where
  "status_state s = (if snderrcnt s \<ge> 256 then CAN_STATE_BUSOFF
     else if snderrcnt s \<ge> 128 \<or> rcverrcnt s \<ge> 128 then CAN_STATE_PASSIVE else CAN_STATE_ACTIVE)"

definition CAN_ERR_INIT :: can_err where "CAN_ERR_INIT = \<lparr>ce_state = CAN_STATE_ACTIVE, ce_error = 0\<rparr>"

definition lely_rtt_can_default_status_mapper ::
  "rt_can_status \<Rightarrow> rt_can_status option \<Rightarrow> can_err \<Rightarrow> bool \<times> can_err" where
  "lely_rtt_can_default_status_mapper status previous err =
     (let err1 = err\<lparr>ce_state := status_state status\<rparr>
      in case previous of None \<Rightarrow> (ce_state err1 \<noteq> CAN_STATE_ACTIVE, err1)
         | Some p \<Rightarrow>
             let changed = status_state p \<noteq> ce_state err1;
                 bits = (if biterrcnt status \<noteq> biterrcnt p then 1 else 0)
                   OR (if bitpaderrcnt status \<noteq> bitpaderrcnt p then 2 else 0)
                   OR (if crcerrcnt status \<noteq> crcerrcnt p then 4 else 0)
                   OR (if formaterrcnt status \<noteq> formaterrcnt p then 8 else 0)
                   OR (if ackerrcnt status \<noteq> ackerrcnt p then 16 else 0);
                 err2 = err1\<lparr>ce_error := ce_error err1 OR bits\<rparr>
             in (changed \<or> ce_error err2 \<noteq> 0, err2))"

definition map_status :: "env \<Rightarrow> runtime \<Rightarrow> rt_can_status \<Rightarrow> bool \<times> can_err" where
  "map_status E r status =
     (let previous = (if status_valid r then Some (last_can_status r) else None)
      in if status_mapper (config r) then e_mapper E status previous CAN_ERR_INIT
         else lely_rtt_can_default_status_mapper status previous CAN_ERR_INIT)"

definition lely_rtt_can_process_status :: "env \<Rightarrow> runtime \<Rightarrow> runtime" where
  "lely_rtt_can_process_status E r =
     (if \<not> can_dev r \<or> \<not> can_chan r then r
      else
        let c = Device DevGetStatus; r1 = emit c r
        in if e_err E (out r) c \<noteq> RT_EOK then r1
           else
             let status = e_status E (out r);
                 (changed, err) = map_status E r1 status
             in if \<not> changed then r1\<lparr>last_can_status := status, status_valid := True\<rparr>
                else let c = Lely (IoUserCanOnErr err); r2 = emit c r1
                     in if e_ok E (out r1) c then r2\<lparr>last_can_status := status, status_valid := True\<rparr>
                        else r2)"

section \<open>Shutdown\<close>

definition dev_latch :: "env \<Rightarrow> device_call \<Rightarrow> runtime \<Rightarrow> runtime" where
  "dev_latch E c r = latch_error (e_err E (out r) (Device c)) (emit (Device c) r)"

definition lely_rtt_can_quiesce :: "env \<Rightarrow> runtime \<Rightarrow> runtime" where
  "lely_rtt_can_quiesce E r =
     (if \<not> can_dev r then r
      else
        let r1 = dev_latch E (DevSetRxIndicate False) r;
            r2 = (if status_registered r1
                  then (dev_latch E (DevSetStatusInd False) r1)\<lparr>status_registered := False\<rparr> else r1);
            r3 = (if controller_started r2
                  then (dev_latch E (DevStart False) r2)\<lparr>controller_started := False\<rparr> else r2)
        in if registry_registered r3
           then (emit Registry_remove r3)\<lparr>registry_registered := False\<rparr> else r3)"

definition lely_rtt_can_fini :: "env \<Rightarrow> runtime \<Rightarrow> runtime" where
  "lely_rtt_can_fini E r =
     (let r1 = lely_rtt_can_quiesce E r;
          r2 = (if can_chan r1 then (emit (Lely IoUserCanDestroy) r1)\<lparr>can_chan := False\<rparr> else r1);
          r3 = (if can_dev r2 \<and> can_opened r2 then (emit (Device DevClose) r2)\<lparr>can_opened := False\<rparr> else r2)
      in r3\<lparr>can_dev := False, status_valid := False\<rparr>)"

section \<open>Lemmas\<close>

subsection \<open>Lengths\<close>

lemma dlc_to_len_simps:
  "lely_rtt_can_dlc_to_len 9 = 12" "lely_rtt_can_dlc_to_len 10 = 16" "lely_rtt_can_dlc_to_len 11 = 20"
  "lely_rtt_can_dlc_to_len 12 = 24" "lely_rtt_can_dlc_to_len 13 = 32" "lely_rtt_can_dlc_to_len 14 = 48"
  "lely_rtt_can_dlc_to_len 15 = 64"
  by (simp_all add: lely_rtt_can_dlc_to_len_def length_by_dlc_def)

lemma dlc_to_len_small: "d \<le> 8 \<Longrightarrow> lely_rtt_can_dlc_to_len d = d"
proof -
  assume "d \<le> 8"
  then have "d \<in> {0, 1, 2, 3, 4, 5, 6, 7, 8}" by auto
  then show ?thesis by (auto simp: lely_rtt_can_dlc_to_len_def length_by_dlc_def)
qed

lemma dlc_cases:
  assumes "d \<le> 15"
  obtains "d \<le> (8::nat)" | "d = 9" | "d = 10" | "d = 11" | "d = 12" | "d = 13" | "d = 14" | "d = 15"
proof -
  have "d \<le> 8 \<or> d = 9 \<or> d = 10 \<or> d = 11 \<or> d = 12 \<or> d = 13 \<or> d = 14 \<or> d = 15"
    using assms by linarith
  with that show thesis by blast
qed

lemma len_to_dlc_le_15: "lely_rtt_can_len_to_dlc n \<le> 15 \<longleftrightarrow> n \<le> 64"
  by (simp add: lely_rtt_can_len_to_dlc_def)

lemma dlc_len_ge: "n \<le> 64 \<Longrightarrow> n \<le> lely_rtt_can_dlc_to_len (lely_rtt_can_len_to_dlc n)
    \<and> lely_rtt_can_dlc_to_len (lely_rtt_can_len_to_dlc n) \<le> 64"
  by (auto simp: lely_rtt_can_len_to_dlc_def dlc_to_len_small dlc_to_len_simps)

lemma dlc_len_dlc: "d \<le> 15 \<Longrightarrow> lely_rtt_can_len_to_dlc (lely_rtt_can_dlc_to_len d) = d"
  by (erule dlc_cases) (auto simp: lely_rtt_can_len_to_dlc_def dlc_to_len_small dlc_to_len_simps)

lemma dlc_to_len_0: "d \<le> 15 \<Longrightarrow> lely_rtt_can_dlc_to_len d = 0 \<Longrightarrow> d = 0"
  by (erule dlc_cases) (auto simp: dlc_to_len_small dlc_to_len_simps)

subsection \<open>Flags\<close>

lemmas can_flag_defs = CAN_FLAG_IDE_def CAN_FLAG_RTR_def CAN_FLAG_FDF_def CAN_FLAG_BRS_def CAN_FLAG_ESI_def

lemma flag_bits:
  "f AND CAN_FLAG_IDE \<noteq> 0 \<longleftrightarrow> bit f 0" "f AND CAN_FLAG_RTR \<noteq> 0 \<longleftrightarrow> bit f 1"
  "f AND CAN_FLAG_FDF \<noteq> 0 \<longleftrightarrow> bit f 2" "f AND CAN_FLAG_BRS \<noteq> 0 \<longleftrightarrow> bit f 3"
  "f AND CAN_FLAG_ESI \<noteq> 0 \<longleftrightarrow> bit f 4"
  using and_exp_neq_0_iff [of f 0] and_exp_neq_0_iff [of f 1] and_exp_neq_0_iff [of f 2]
    and_exp_neq_0_iff [of f 3] and_exp_neq_0_iff [of f 4]
  by (simp_all add: can_flag_defs)

lemma flag_bits_0: "f AND CAN_FLAG_RTR = 0 \<longleftrightarrow> \<not> bit f 1" "f AND CAN_FLAG_FDF = 0 \<longleftrightarrow> \<not> bit f 2"
  using flag_bits by blast+

lemma bit_flag_consts:
  "bit CAN_FLAG_IDE n \<longleftrightarrow> n = 0" "bit CAN_FLAG_RTR n \<longleftrightarrow> n = 1" "bit CAN_FLAG_FDF n \<longleftrightarrow> n = 2"
  "bit CAN_FLAG_BRS n \<longleftrightarrow> n = 3"
  using bit_exp_iff [where ?'a = "8 word", of 0 n] bit_exp_iff [where ?'a = "8 word", of 1 n]
    bit_exp_iff [where ?'a = "8 word", of 2 n] bit_exp_iff [where ?'a = "8 word", of 3 n]
  by (auto simp: can_flag_defs bit_simps)

lemma classic_flags:
  "(if bit f 0 then CAN_FLAG_IDE else 0) OR (if bit f 1 then CAN_FLAG_RTR else 0)
     = f AND (CAN_FLAG_IDE OR CAN_FLAG_RTR)"
  by (rule bit_word_eqI) (auto simp: bit_or_iff bit_and_iff bit_flag_consts intro: gr0I)

lemma fd_flags:
  "bit f 2 \<Longrightarrow> (if bit f 0 then CAN_FLAG_IDE else 0) OR CAN_FLAG_FDF OR (if bit f 3 then CAN_FLAG_BRS else 0)
     = f AND (CAN_FLAG_IDE OR CAN_FLAG_FDF OR CAN_FLAG_BRS)"
  by (rule bit_word_eqI) (auto simp: bit_or_iff bit_and_iff bit_flag_consts intro: gr0I)

lemmas can_len_defs [simp] = CAN_MAX_LEN_def CANFD_MAX_LEN_def

lemma copy_data_copy: "n \<le> m \<Longrightarrow> m \<le> 64 \<Longrightarrow> n \<le> length d \<Longrightarrow> copy_data m (copy_data n d) = copy_data n d"
proof -
  assume le: "n \<le> m" "m \<le> 64" "n \<le> length d"
  then have "replicate (m - n) 0 @ replicate (64 - m) 0 = (replicate (64 - n) 0 :: bytes)"
    by (simp flip: replicate_add)
  with le show ?thesis by (simp add: copy_data_def)
qed

lemma copy_data_0: "copy_data 0 d = replicate 64 0"
  by (simp add: copy_data_def)

subsection \<open>What a frame looks like after a trip through the driver\<close>

text \<open>
  The flags that the driver's frame can carry, the length rounded up to one that a DLC can express
  when the driver counts in DLCs, and the payload padded with zeros.
\<close>

definition wire_len :: "runtime_config \<Rightarrow> can_msg \<Rightarrow> nat" where
  "wire_len cfg m = (if cm_flags m AND CAN_FLAG_FDF \<noteq> 0 \<and> can_fd_len_mode cfg = LELY_RTT_CANFD_LEN_DLC
     then lely_rtt_can_dlc_to_len (lely_rtt_can_len_to_dlc (unat (cm_len m))) else unat (cm_len m))"

definition wire_msg :: "runtime_config \<Rightarrow> can_msg \<Rightarrow> can_msg" where
  "wire_msg cfg m = \<lparr>cm_id = cm_id m,
     cm_flags = cm_flags m AND (if cm_flags m AND CAN_FLAG_FDF \<noteq> 0
       then CAN_FLAG_IDE OR CAN_FLAG_FDF OR CAN_FLAG_BRS else CAN_FLAG_IDE OR CAN_FLAG_RTR),
     cm_len = of_nat (wire_len cfg m),
     cm_data = (if cm_flags m AND CAN_FLAG_RTR = 0 then copy_data (unat (cm_len m)) (cm_data m)
                else replicate CANFD_MAX_LEN 0)\<rparr>"

lemma from_rt_classic:
  assumes "\<not> rcm_fd_frame f" "\<not> (rcm_ide f \<and> CAN_MASK_EID < rcm_id f)"
    "\<not> (\<not> rcm_ide f \<and> CAN_MASK_BID < rcm_id f)" "unat (rcm_len f) \<le> 8"
  shows "lely_rtt_can_from_rt cfg f = Some \<lparr>cm_id = rcm_id f,
     cm_flags = (if rcm_ide f then CAN_FLAG_IDE else 0) OR (if rcm_rtr f then CAN_FLAG_RTR else 0),
     cm_len = rcm_len f,
     cm_data = (if \<not> rcm_rtr f then copy_data (unat (rcm_len f)) (rcm_data f) else replicate 64 0)\<rparr>"
  using assms
  by (cases "rcm_ide f"; cases "rcm_rtr f"; cases "rcm_len f = 0")
    (simp_all add: lely_rtt_can_from_rt_def can_flag_defs Let_def copy_data_0 unat_eq_zero)

lemma rtr_of_fd:
  "((if a then CAN_FLAG_IDE else 0) OR CAN_FLAG_FDF OR (if b then CAN_FLAG_BRS else 0)) AND CAN_FLAG_RTR = 0"
  by (cases a; cases b) (simp_all add: can_flag_defs)

lemma from_rt_fd:
  assumes "rcm_fd_frame f" "\<not> (rcm_ide f \<and> CAN_MASK_EID < rcm_id f)"
    "\<not> (\<not> rcm_ide f \<and> CAN_MASK_BID < rcm_id f)" "can_fd cfg" "\<not> rcm_rtr f"
    "\<not> (rcm_brs f \<and> \<not> can_brs cfg)"
    and n: "if can_fd_len_mode cfg = LELY_RTT_CANFD_LEN_DLC
      then unat (rcm_len f) \<le> 15 \<and> n = lely_rtt_can_dlc_to_len (unat (rcm_len f))
      else unat (rcm_len f) \<le> 64 \<and> n = unat (rcm_len f)"
  shows "lely_rtt_can_from_rt cfg f = Some \<lparr>cm_id = rcm_id f,
     cm_flags = (if rcm_ide f then CAN_FLAG_IDE else 0) OR CAN_FLAG_FDF OR (if rcm_brs f then CAN_FLAG_BRS else 0),
     cm_len = of_nat n, cm_data = copy_data n (rcm_data f)\<rparr>"
proof -
  have "unat (rcm_len f) = 0" if "can_fd_len_mode cfg = LELY_RTT_CANFD_LEN_DLC" "n = 0"
    using n that dlc_to_len_0 by simp
  with n have "(if can_fd_len_mode cfg = LELY_RTT_CANFD_LEN_DLC
      then if unat (rcm_len f) > 15 \<or> lely_rtt_can_dlc_to_len (unat (rcm_len f)) = 0 \<and> unat (rcm_len f) \<noteq> 0
           then None else Some (lely_rtt_can_dlc_to_len (unat (rcm_len f)))
      else if unat (rcm_len f) > CANFD_MAX_LEN then None else Some (unat (rcm_len f))) = Some n"
    by (auto split: if_splits intro: gr0I)
  then have "lely_rtt_can_from_rt cfg f = Some \<lparr>cm_id = rcm_id f,
     cm_flags = (if rcm_ide f then CAN_FLAG_IDE else 0) OR CAN_FLAG_FDF OR (if rcm_brs f then CAN_FLAG_BRS else 0),
     cm_len = of_nat n, cm_data = (if n \<noteq> 0 then copy_data n (rcm_data f) else replicate CANFD_MAX_LEN 0)\<rparr>"
    using assms(1-6) unfolding lely_rtt_can_from_rt_def Let_def
    by (simp only: if_True if_False option.case prod.case rtr_of_fd simp_thms)
  then show ?thesis by (simp add: copy_data_0)
qed

lemma to_rt_classic:
  assumes "lely_rtt_can_to_rt cfg m = Some f" "\<not> bit (cm_flags m) 2"
  shows "f = \<lparr>rcm_id = cm_id m, rcm_ide = bit (cm_flags m) 0,
      rcm_rtr = bit (cm_flags m) 1, rcm_len = cm_len m, rcm_fd_frame = False, rcm_brs = False,
      rcm_nonblocking = True, rcm_data = (if \<not> bit (cm_flags m) 1
        then copy_data (unat (cm_len m)) (cm_data m) else replicate 64 0)\<rparr>"
    "unat (cm_len m) \<le> 8" "\<not> (bit (cm_flags m) 0 \<and> CAN_MASK_EID < cm_id m)"
      "\<not> (\<not> bit (cm_flags m) 0 \<and> CAN_MASK_BID < cm_id m)"
  using assms by (auto simp: lely_rtt_can_to_rt_def flag_bits Let_def copy_data_0 split: if_splits)

lemma to_rt_fd:
  assumes "lely_rtt_can_to_rt cfg m = Some f" "bit (cm_flags m) 2"
  shows "f = \<lparr>rcm_id = cm_id m, rcm_ide = bit (cm_flags m) 0, rcm_rtr = False,
      rcm_len = (if can_fd_len_mode cfg = LELY_RTT_CANFD_LEN_DLC
        then of_nat (lely_rtt_can_len_to_dlc (unat (cm_len m))) else cm_len m),
      rcm_fd_frame = True, rcm_brs = bit (cm_flags m) 3, rcm_nonblocking = True,
      rcm_data = copy_data (unat (cm_len m)) (cm_data m)\<rparr>"
    "unat (cm_len m) \<le> 64" "\<not> bit (cm_flags m) 1" "can_fd cfg" "\<not> (bit (cm_flags m) 3 \<and> \<not> can_brs cfg)"
    "\<not> (bit (cm_flags m) 0 \<and> CAN_MASK_EID < cm_id m)" "\<not> (\<not> bit (cm_flags m) 0 \<and> CAN_MASK_BID < cm_id m)"
  using assms by (auto simp: lely_rtt_can_to_rt_def flag_bits Let_def copy_data_0 split: if_splits)

lemma to_from_classic:
  assumes to: "lely_rtt_can_to_rt cfg m = Some f" and len: "length (cm_data m) = 64"
    and cls: "\<not> bit (cm_flags m) 2"
  shows "lely_rtt_can_from_rt cfg f = Some (wire_msg cfg m)"
  using to_rt_classic [OF to cls] len cls
  by (subst from_rt_classic) (auto simp: wire_msg_def wire_len_def flag_bits flag_bits_0 classic_flags copy_data_copy
      simp del: One_nat_def)

lemma unat_dlc: "n \<le> 64 \<Longrightarrow> unat (of_nat (lely_rtt_can_len_to_dlc n) :: u8) = lely_rtt_can_len_to_dlc n"
  using len_to_dlc_le_15 [of n] by (simp add: unat_of_nat)

lemma to_from_fd:
  assumes to: "lely_rtt_can_to_rt cfg m = Some f" and len: "length (cm_data m) = 64"
    and fd: "bit (cm_flags m) 2"
  shows "lely_rtt_can_from_rt cfg f = Some (wire_msg cfg m)"
proof -
  note f = to_rt_fd [OF to fd]
  let ?n = "unat (cm_len m)"
  let ?d = "lely_rtt_can_len_to_dlc ?n"
  have d: "?d \<le> 15" "?n \<le> lely_rtt_can_dlc_to_len ?d" "lely_rtt_can_dlc_to_len ?d \<le> 64"
    using f(2) dlc_len_ge by (auto simp: len_to_dlc_le_15)
  have "lely_rtt_can_from_rt cfg f = Some \<lparr>cm_id = rcm_id f,
     cm_flags = (if rcm_ide f then CAN_FLAG_IDE else 0) OR CAN_FLAG_FDF OR (if rcm_brs f then CAN_FLAG_BRS else 0),
     cm_len = of_nat (wire_len cfg m), cm_data = copy_data (wire_len cfg m) (rcm_data f)\<rparr>"
    using f d fd by (intro from_rt_fd) (auto simp: wire_len_def flag_bits unat_dlc)
  moreover have "?n \<le> wire_len cfg m" "wire_len cfg m \<le> 64" using d f(2) by (auto simp: wire_len_def)
  ultimately show ?thesis
    using f fd len by (simp add: wire_msg_def flag_bits flag_bits_0 fd_flags copy_data_copy)
qed

subsection \<open>What the driver and the stack hold\<close>

text \<open>
  The resources acquired and not yet given back after a sequence of calls: an acquisition counts when
  the environment reported success, a release when it was called.
\<close>

datatype resource = Opened | Rx_callback | Status_callback | Started | Registered | Channel

fun holds_step :: "env \<Rightarrow> call list \<Rightarrow> call \<Rightarrow> resource set \<Rightarrow> resource set" where
  "holds_step E pre (Device DevOpen) H = (if e_err E pre (Device DevOpen) = RT_EOK then insert Opened H else H)"
| "holds_step E pre (Device DevClose) H = H - {Opened}"
| "holds_step E pre (Device (DevSetRxIndicate b)) H =
     (if b then (if e_err E pre (Device (DevSetRxIndicate b)) = RT_EOK then insert Rx_callback H else H)
      else H - {Rx_callback})"
| "holds_step E pre (Device (DevSetStatusInd b)) H =
     (if b then (if e_err E pre (Device (DevSetStatusInd b)) = RT_EOK then insert Status_callback H else H)
      else H - {Status_callback})"
| "holds_step E pre (Device (DevStart b)) H =
     (if b then (if e_err E pre (Device (DevStart b)) = RT_EOK then insert Started H else H)
      else H - {Started})"
| "holds_step E pre Registry_add H = insert Registered H"
| "holds_step E pre Registry_remove H = H - {Registered}"
| "holds_step E pre (Lely (IoUserCanCreate fl)) H =
     (if e_ok E pre (Lely (IoUserCanCreate fl)) then insert Channel H else H)"
| "holds_step E pre (Lely IoUserCanDestroy) H = H - {Channel}"
| "holds_step E pre c H = H"

fun holds_rev :: "env \<Rightarrow> call list \<Rightarrow> resource set" where
  "holds_rev E [] = {}"
| "holds_rev E (c # pre) = holds_step E (rev pre) c (holds_rev E pre)"

definition holds :: "env \<Rightarrow> call list \<Rightarrow> resource set" where
  "holds E cs = holds_rev E (rev cs)"

lemma holds_simps [simp]: "holds E [] = {}" "holds E (cs @ [c]) = holds_step E cs c (holds E cs)"
  by (simp_all add: holds_def)

text \<open>The flags of the runtime say what is held.\<close>

definition can_res_inv :: "env \<Rightarrow> runtime \<Rightarrow> bool" where
  "can_res_inv E r \<longleftrightarrow>
     (Opened \<in> holds E (out r) \<longleftrightarrow> can_opened r)
     \<and> (Status_callback \<in> holds E (out r) \<longleftrightarrow> status_registered r)
     \<and> (Started \<in> holds E (out r) \<longleftrightarrow> controller_started r)
     \<and> (Registered \<in> holds E (out r) \<longleftrightarrow> registry_registered r)
     \<and> (Channel \<in> holds E (out r) \<longleftrightarrow> can_chan r)
     \<and> (holds E (out r) \<subseteq> {Channel} \<or> can_dev r)"

lemma steps_keep:
  assumes "\<And>f r. f \<in> set fs \<Longrightarrow> P r \<Longrightarrow> P (snd (f r))" "P r"
  shows "P (snd (steps fs r))"
  using assms
proof (induction fs arbitrary: r)
  case (Cons f fs)
  have "P (snd (f r))" using Cons.prems by simp
  moreover have "P (snd (steps fs (snd (f r))))" using Cons.IH [of "snd (f r)"] Cons.prems by simp
  ultimately show ?case by (cases "f r") simp
qed simp

lemma steps_append:
  "steps (fs @ gs) r = (case steps fs r of (e, r') \<Rightarrow> if e = RT_EOK then steps gs r' else (e, r'))"
  by (induction fs arbitrary: r) (auto split: prod.splits)

definition can_mid_inv :: "env \<Rightarrow> runtime \<Rightarrow> bool" where
  "can_mid_inv E r \<longleftrightarrow> can_res_inv E r \<and> can_dev r \<and> \<not> can_chan r"

lemma dev_try_plain:
  assumes "can_mid_inv E r" "holds_step E (out r) (Device c) (holds E (out r)) = holds E (out r)"
  shows "can_mid_inv E (snd (dev_try E c r))"
  using assms by (simp add: can_mid_inv_def can_res_inv_def dev_try_def)

lemma can_init_mid:
  assumes "can_mid_inv E r"
  shows "can_mid_inv E (snd (can_check_tx E r))" "can_mid_inv E (snd (can_open E r))"
    "can_mid_inv E (snd (dev_try E (DevSetBaud (can_bitrate (config r))) r))"
    "can_mid_inv E (snd (can_set_fd E r))" "can_mid_inv E (snd (dev_try E DevSetMode r))"
    "can_mid_inv E (snd (can_filter E r))" "can_mid_inv E (snd (can_register r))"
    "can_mid_inv E (snd (dev_try E (DevSetRxIndicate True) r))"
    "can_mid_inv E (snd (can_set_status_ind E r))" "can_mid_inv E (snd (can_start E r))"
proof -
  show "can_mid_inv E (snd (can_open E r))" "can_mid_inv E (snd (can_register r))"
    using assms by (simp_all add: can_mid_inv_def can_res_inv_def can_open_def can_register_def dev_try_def)
  show "can_mid_inv E (snd (can_set_status_ind E r))" "can_mid_inv E (snd (can_start E r))"
    "can_mid_inv E (snd (dev_try E (DevSetRxIndicate True) r))"
    using assms
    by (simp_all add: can_mid_inv_def can_res_inv_def can_set_status_ind_def can_start_def dev_try_def)
qed (use assms in \<open>simp_all add: can_check_tx_def can_set_fd_def can_filter_def dev_try_plain\<close>)

lemma can_init_res:
  assumes "holds E (out r) = {}" "can_res_inv E r"
  shows "can_res_inv E (snd (lely_rtt_can_init E r))"
proof -
  define mid where "mid = [can_check_tx E, can_open E, \<lambda>r. dev_try E (DevSetBaud (can_bitrate (config r))) r,
      can_set_fd E, dev_try E DevSetMode, can_filter E, can_register,
      dev_try E (DevSetRxIndicate True), can_set_status_ind E, can_start E]"
  have init: "lely_rtt_can_init E r = steps ([can_find E] @ mid @ [can_create_chan E]) r"
    by (simp add: lely_rtt_can_init_def mid_def)
  obtain e r1 where r1: "can_find E r = (e, r1)" by fastforce
  have find: "can_res_inv E r1" "e = RT_EOK \<Longrightarrow> can_mid_inv E r1"
    using assms r1 by (auto simp: can_find_def can_mid_inv_def can_res_inv_def Let_def split: option.splits if_splits)
  have mid: "can_mid_inv E (snd (steps mid r1))" if "e = RT_EOK"
    by (rule steps_keep [where P = "can_mid_inv E"]) (use find that in \<open>auto simp: mid_def can_init_mid\<close>)
  obtain e2 r2 where r2: "steps mid r1 = (e2, r2)" by fastforce
  have "can_res_inv E (snd (can_create_chan E r2))" if "can_mid_inv E r2"
    using that by (auto simp: can_create_chan_def can_mid_inv_def can_res_inv_def Let_def)
  then show ?thesis
    using find mid r2 r1 by (auto simp: init steps_append can_mid_inv_def split: prod.splits)
qed

lemma latch_error_simps [simp]:
  "out (latch_error e r) = out r" "can_dev (latch_error e r) = can_dev r"
  "can_chan (latch_error e r) = can_chan r" "can_opened (latch_error e r) = can_opened r"
  "status_registered (latch_error e r) = status_registered r"
  "controller_started (latch_error e r) = controller_started r"
  "registry_registered (latch_error e r) = registry_registered r"
  by (simp_all add: latch_error_def)

lemma dev_latch_res:
  "holds E (out (dev_latch E (DevSetRxIndicate False) r)) = holds E (out r) - {Rx_callback}"
  "holds E (out (dev_latch E (DevSetStatusInd False) r)) = holds E (out r) - {Status_callback}"
  "holds E (out (dev_latch E (DevStart False) r)) = holds E (out r) - {Started}"
  by (simp_all add: dev_latch_def)

lemma dev_latch_flags [simp]:
  "can_dev (dev_latch E c r) = can_dev r"
  "can_chan (dev_latch E c r) = can_chan r" "can_opened (dev_latch E c r) = can_opened r"
  "status_registered (dev_latch E c r) = status_registered r"
  "controller_started (dev_latch E c r) = controller_started r"
  "registry_registered (dev_latch E c r) = registry_registered r"
  by (simp_all add: dev_latch_def)

lemma can_quiesce_holds:
  assumes "can_res_inv E r" "can_dev r"
  shows "holds E (out (lely_rtt_can_quiesce E r))
    = (if can_opened r then {Opened} else {}) \<union> (if can_chan r then {Channel} else {})"
proof -
  have "holds E (out (lely_rtt_can_quiesce E r))
      = holds E (out r) - {Rx_callback, Status_callback, Started, Registered}"
    using assms by (auto simp: lely_rtt_can_quiesce_def Let_def dev_latch_res can_res_inv_def)
  moreover have "x \<in> {Opened, Channel} \<union> {Rx_callback, Status_callback, Started, Registered}" for x
    by (cases x) simp_all
  ultimately show ?thesis using assms by (auto simp: can_res_inv_def)
qed

lemma can_quiesce_flags:
  "can_dev (lely_rtt_can_quiesce E r) = can_dev r" "can_chan (lely_rtt_can_quiesce E r) = can_chan r"
  "can_opened (lely_rtt_can_quiesce E r) = can_opened r"
  "can_dev r \<Longrightarrow> \<not> status_registered (lely_rtt_can_quiesce E r)
     \<and> \<not> controller_started (lely_rtt_can_quiesce E r) \<and> \<not> registry_registered (lely_rtt_can_quiesce E r)"
  by (simp_all add: lely_rtt_can_quiesce_def Let_def)

lemma can_fini_res:
  assumes "can_res_inv E r"
  shows "holds E (out (lely_rtt_can_fini E r)) = {}" "can_res_inv E (lely_rtt_can_fini E r)"
proof -
  show empty: "holds E (out (lely_rtt_can_fini E r)) = {}"
  proof (cases "can_dev r")
    case True
    with can_quiesce_holds [OF assms True] show ?thesis
      by (auto simp: lely_rtt_can_fini_def Let_def can_quiesce_flags)
  next
    case False
    with assms show ?thesis
      by (auto simp: lely_rtt_can_fini_def lely_rtt_can_quiesce_def can_res_inv_def Let_def)
  qed
  have "\<not> can_opened r" "\<not> status_registered r" "\<not> controller_started r" "\<not> registry_registered r"
    if "\<not> can_dev r" using assms that by (auto simp: can_res_inv_def)
  then have "\<not> can_opened (lely_rtt_can_fini E r)" "\<not> status_registered (lely_rtt_can_fini E r)"
    "\<not> controller_started (lely_rtt_can_fini E r)" "\<not> registry_registered (lely_rtt_can_fini E r)"
    "\<not> can_chan (lely_rtt_can_fini E r)"
    using can_quiesce_flags [where E = E and r = r]
    by (cases "can_dev r"; simp add: lely_rtt_can_fini_def Let_def lely_rtt_can_quiesce_def)+
  with empty show "can_res_inv E (lely_rtt_can_fini E r)" by (simp add: can_res_inv_def)
qed

subsection \<open>The receive batch\<close>

definition frame_calls :: "runtime_config \<Rightarrow> rt_can_msg \<Rightarrow> call list" where
  "frame_calls cfg f = Device DevRead # (case lely_rtt_can_from_rt cfg f of None \<Rightarrow> []
     | Some m \<Rightarrow> [Lely (IoUserCanOnMsg m)])"

lemma drain_rx_loop_trace:
  "\<exists>frames. drain_rx_loop E n r = (length frames, r\<lparr>out := out r @ concat (map (frame_calls (config r)) frames)
         @ (if can_dev r \<and> length frames < n then [Device DevRead] else [])\<rparr>)
     \<and> length frames \<le> n
     \<and> (can_dev r \<longrightarrow> (\<forall>k < length frames. e_read E (out r @ concat (map (frame_calls (config r)) (take k frames)))
           = Some (frames ! k))
         \<and> (length frames < n \<longrightarrow> e_read E (out r @ concat (map (frame_calls (config r)) frames)) = None))"
proof (induction n arbitrary: r)
  case 0
  then show ?case by (intro exI [of _ "[]"]) simp
next
  case (Suc n)
  show ?case
  proof (cases "can_dev r")
    case False
    then show ?thesis by (intro exI [of _ "[]"]) simp
  next
    case dev: True
    show ?thesis
    proof (cases "e_read E (out r)")
      case None
      with dev show ?thesis by (intro exI [of _ "[]"]) (simp add: emit_def)
    next
      case (Some f)
      let ?r2 = "r\<lparr>out := out r @ frame_calls (config r) f\<rparr>"
      obtain frames where frames: "drain_rx_loop E n ?r2 = (length frames,
          r\<lparr>out := out r @ frame_calls (config r) f @ concat (map (frame_calls (config r)) frames)
             @ (if length frames < n then [Device DevRead] else [])\<rparr>)" "length frames \<le> n"
        "\<forall>k < length frames. e_read E (out r @ frame_calls (config r) f
             @ concat (map (frame_calls (config r)) (take k frames))) = Some (frames ! k)"
        "length frames < n \<longrightarrow> e_read E (out r @ frame_calls (config r) f
             @ concat (map (frame_calls (config r)) frames)) = None"
        using Suc.IH [of ?r2] dev by auto
      have step: "drain_rx_loop E (Suc n) r = (case drain_rx_loop E n ?r2 of (c, r3) \<Rightarrow> (Suc c, r3))"
        using dev Some by (simp add: frame_calls_def emit_def Let_def split: option.splits)
      have "e_read E (out r @ concat (map (frame_calls (config r)) (take k (f # frames)))) = Some ((f # frames) ! k)"
        if "k < length (f # frames)" for k
        using that frames(3) Some by (cases k) auto
      with frames dev step show ?thesis by (intro exI [of _ "f # frames"]) auto
    qed
  qed
qed

section \<open>Properties\<close>

text \<open>C35. A frame that the bridge accepts for transmission comes back from the driver as the same frame:
  same identifier, same flags (less those that a frame of its kind cannot carry), same payload; its
  length grows only when the driver counts in DLCs, to the capacity of its DLC, and the added bytes
  are zero.\<close>

theorem can_frame_roundtrip:
  assumes "lely_rtt_can_to_rt cfg m = Some f" "length (cm_data m) = 64"
  shows "lely_rtt_can_from_rt cfg f = Some (wire_msg cfg m)"
  using assms to_from_classic to_from_fd by blast

definition demo_frame :: can_msg where
  "demo_frame = \<lparr>cm_id = 0x123, cm_flags = 4, cm_len = 10, cm_data = [1, 2, 3, 4, 5, 6, 7, 8, 9, 10] @ replicate 54 0\<rparr>"

theorem can_frame_roundtrip_witness:
  "\<exists>f. lely_rtt_can_to_rt demo_config demo_frame = Some f
     \<and> lely_rtt_can_from_rt demo_config f = Some (wire_msg demo_config demo_frame)
     \<and> cm_len (wire_msg demo_config demo_frame) = 12"
proof -
  obtain f where f: "lely_rtt_can_to_rt demo_config demo_frame = Some f"
    by (auto simp: lely_rtt_can_to_rt_def demo_frame_def demo_config_def can_flag_defs Let_def
        CAN_MASK_BID_def lely_rtt_can_len_to_dlc_def)
  moreover have "length (cm_data demo_frame) = 64" by (simp add: demo_frame_def)
  moreover have "cm_len (wire_msg demo_config demo_frame) = 12"
    by (simp add: wire_msg_def wire_len_def demo_frame_def demo_config_def can_flag_defs
        lely_rtt_can_len_to_dlc_def dlc_to_len_simps)
  ultimately show ?thesis using can_frame_roundtrip [OF f] by blast
qed

text \<open>\<open>lely_rtt_can_len_to_dlc\<close> picks the smallest DLC whose capacity holds the payload, and
  \<open>lely_rtt_can_dlc_to_len\<close> inverts it on every valid DLC.\<close>

theorem can_dlc_least:
  assumes "n \<le> 64"
  shows "lely_rtt_can_len_to_dlc n \<le> 15 \<and> n \<le> lely_rtt_can_dlc_to_len (lely_rtt_can_len_to_dlc n)
    \<and> (d \<le> 15 \<and> n \<le> lely_rtt_can_dlc_to_len d \<longrightarrow> lely_rtt_can_len_to_dlc n \<le> d)
    \<and> (d \<le> 15 \<longrightarrow> lely_rtt_can_len_to_dlc (lely_rtt_can_dlc_to_len d) = d)"
proof -
  have "lely_rtt_can_len_to_dlc n \<le> d" if "d \<le> 15" "n \<le> lely_rtt_can_dlc_to_len d"
  proof -
    have "lely_rtt_can_len_to_dlc n \<le> lely_rtt_can_len_to_dlc (lely_rtt_can_dlc_to_len d)"
      using that(2) by (simp add: lely_rtt_can_len_to_dlc_def)
    then show ?thesis using dlc_len_dlc [OF that(1)] by simp
  qed
  with assms show ?thesis by (simp add: len_to_dlc_le_15 dlc_len_ge dlc_len_dlc)
qed

theorem can_dlc_least_witness:
  "lely_rtt_can_len_to_dlc 9 \<le> 15 \<and> 9 \<le> lely_rtt_can_dlc_to_len (lely_rtt_can_len_to_dlc 9)"
  using can_dlc_least [of 9 0] by simp

text \<open>Whatever call of the bring-up fails, the shutdown that follows gives back everything the
  bring-up acquired: for every environment, after \<open>lely_rtt_can_init\<close> and \<open>lely_rtt_can_fini\<close> the
  device is closed, its callbacks are detached, the controller is stopped, the runtime is out of the
  registry and the channel is destroyed.\<close>

theorem can_init_fini_releases:
  assumes "holds E (out r) = {}" "can_res_inv E r"
  shows "let r' = lely_rtt_can_fini E (snd (lely_rtt_can_init E r))
    in holds E (out r') = {} \<and> can_res_inv E r' \<and> \<not> can_dev r'"
  using can_fini_res [OF can_init_res [OF assms]]
  by (simp add: Let_def) (simp add: lely_rtt_can_fini_def Let_def)

theorem can_init_fini_releases_witness:
  "let E = demo_env\<lparr>e_err := \<lambda>_ c. if c = Device (DevStart True) then RT_ERROR else RT_EOK\<rparr>;
       r' = lely_rtt_can_fini E (snd (lely_rtt_can_init E (runtime_zero demo_config)))
   in holds E (out r') = {}"
  using can_init_fini_releases
    [of "demo_env\<lparr>e_err := \<lambda>_ c. if c = Device (DevStart True) then RT_ERROR else RT_EOK\<rparr>" "runtime_zero demo_config"]
  by (simp add: Let_def runtime_zero_def can_res_inv_def)

text \<open>A receive batch reads at most \<open>rx_batch\<close> frames, in the order the driver gives them, passes
  exactly the convertible ones to Lely, and posts \<open>RX_READY\<close> to itself when the batch was full, that
  is when the driver may have more.\<close>

theorem can_drain_rx_batch:
  assumes "can_dev r"
  shows "\<exists>frames. length frames \<le> unat (rx_batch (config r))
    \<and> (\<forall>k. k < length frames \<longrightarrow>
         e_read E (out r @ concat (map (frame_calls (config r)) (take k frames))) = Some (frames ! k))
    \<and> lely_rtt_can_drain_rx E r = r\<lparr>out := out r @ concat (map (frame_calls (config r)) frames)
         @ (if length frames < unat (rx_batch (config r)) then [Device DevRead]
            else [Event_send LELY_RTT_EVENT_RX_READY])\<rparr>
    \<and> (length frames < unat (rx_batch (config r)) \<longrightarrow>
         e_read E (out r @ concat (map (frame_calls (config r)) frames)) = None)"
proof -
  obtain frames where "drain_rx_loop E (unat (rx_batch (config r))) r
      = (length frames, r\<lparr>out := out r @ concat (map (frame_calls (config r)) frames)
         @ (if can_dev r \<and> length frames < unat (rx_batch (config r)) then [Device DevRead] else [])\<rparr>)"
    "length frames \<le> unat (rx_batch (config r))"
    "\<forall>k < length frames. e_read E (out r @ concat (map (frame_calls (config r)) (take k frames))) = Some (frames ! k)"
    "length frames < unat (rx_batch (config r)) \<longrightarrow>
      e_read E (out r @ concat (map (frame_calls (config r)) frames)) = None"
    using drain_rx_loop_trace [of E "unat (rx_batch (config r))" r] assms by blast
  with assms show ?thesis
    by (intro exI [of _ frames]) (auto simp: lely_rtt_can_drain_rx_def event_send_def emit_def)
qed

theorem can_drain_rx_batch_witness:
  "let r = (runtime_zero demo_config)\<lparr>can_dev := True\<rparr> in
   \<exists>frames. length frames \<le> unat (rx_batch (config r))
    \<and> lely_rtt_can_drain_rx demo_env r = r\<lparr>out := out r @ concat (map (frame_calls (config r)) frames)
         @ (if length frames < unat (rx_batch (config r)) then [Device DevRead]
            else [Event_send LELY_RTT_EVENT_RX_READY])\<rparr>"
proof -
  have "can_dev ((runtime_zero demo_config)\<lparr>can_dev := True\<rparr>)" by simp
  from can_drain_rx_batch [OF this] show ?thesis unfolding Let_def by blast
qed

text \<open>A status transition is never lost: when Lely's queue refuses the error report, the runtime
  keeps the old status, so that sampling the same status again makes the same report.\<close>

theorem can_status_retried:
  assumes "can_dev r" "can_chan r" "e_err E (out r) (Device DevGetStatus) = RT_EOK"
    and "lely_rtt_can_process_status E r = r'" "out r' = out r @ [Device DevGetStatus, Lely (IoUserCanOnErr err)]"
    and "\<not> e_ok E (out r @ [Device DevGetStatus]) (Lely (IoUserCanOnErr err))"
    and "e_err E (out r') (Device DevGetStatus) = RT_EOK" "e_status E (out r') = e_status E (out r)"
  shows "last_can_status r' = last_can_status r \<and> status_valid r' = status_valid r
    \<and> out (lely_rtt_can_process_status E r') = out r' @ [Device DevGetStatus, Lely (IoUserCanOnErr err)]"
proof -
  have m: "map_status E (emit (Device DevGetStatus) r) (e_status E (out r)) = (True, err)"
    and r': "r' = emit (Lely (IoUserCanOnErr err)) (emit (Device DevGetStatus) r)"
    using assms(1-6) by (auto simp: lely_rtt_can_process_status_def Let_def split: prod.splits if_splits)
  have "map_status E (emit (Device DevGetStatus) r') (e_status E (out r')) = (True, err)"
    using m assms(8) by (simp add: r' map_status_def Let_def cong: if_cong)
  moreover have "can_dev r'" "can_chan r'" using assms(1,2) by (simp_all add: r')
  ultimately have "out (lely_rtt_can_process_status E r') = out r' @ [Device DevGetStatus, Lely (IoUserCanOnErr err)]"
    using assms(7) by (simp add: lely_rtt_can_process_status_def Let_def)
  then show ?thesis by (simp add: r')
qed

theorem can_status_retried_witness:
  "let E = demo_env\<lparr>e_ok := \<lambda>_ _. False, e_status := \<lambda>_. (last_can_status (runtime_zero demo_config))\<lparr>snderrcnt := 300\<rparr>\<rparr>;
       r = (runtime_zero demo_config)\<lparr>can_dev := True, can_chan := True\<rparr>;
       r' = lely_rtt_can_process_status E r;
       report = [Device DevGetStatus, Lely (IoUserCanOnErr \<lparr>ce_state = CAN_STATE_BUSOFF, ce_error = 0\<rparr>)]
   in out r' = report \<and> out (lely_rtt_can_process_status E r') = out r' @ report"
  using can_status_retried [of "(runtime_zero demo_config)\<lparr>can_dev := True, can_chan := True\<rparr>"
      "demo_env\<lparr>e_ok := \<lambda>_ _. False, e_status := \<lambda>_. (last_can_status (runtime_zero demo_config))\<lparr>snderrcnt := 300\<rparr>\<rparr>"
      _ "\<lparr>ce_state = CAN_STATE_BUSOFF, ce_error = 0\<rparr>", OF _ _ _ refl]
  by (simp add: Let_def lely_rtt_can_process_status_def map_status_def runtime_zero_def demo_env_def
      demo_config_def lely_rtt_can_default_status_mapper_def status_state_def CAN_ERR_INIT_def)

end
