(* ===== verification/Rtt_Pin.thy ===== *)
theory Rtt_Pin
  imports Rtt_Types
begin

text \<open>
  Lifetime pins. CAN and timer callbacks (\<open>lely_rtt_callback_acquire\<close> and its companions in
  \<open>runtime.c\<close>) and command posters (\<open>lely_rtt_master_command_acquire\<close> and its companions in
  \<open>master_command.c\<close>) run concurrently with the owner's cleanup. Both follow one protocol: test the
  admission flags, add a reference, test the flags again, and give the reference back when one of
  them is set. The owner sets the flags, waits for the count to reach zero and then deletes what the
  clients use.

  The step relation interleaves single atomic operations of any number of clients, of the owner, and
  of other threads that close admission. Callbacks test one flag (\<open>callback_quiescing\<close>), posters two
  (\<open>command_stop_latched\<close>, then \<open>command_quiescing\<close>), so the relation is over the number of flags.
\<close>

section \<open>Model\<close>

text \<open>What a client does next; \<open>Held\<close> is the code it runs under the pin.\<close>

datatype client = Idle | Load1 nat | Add | Load2 nat | Undo | Held

datatype owner = Open | Closing nat | Waiting | Drained

record pins =
  refs :: u32
  flags :: "bool list"
  owner :: owner
  clients :: "client list"

definition client_to :: "nat \<Rightarrow> client \<Rightarrow> pins \<Rightarrow> pins" where
  "client_to i c s = s\<lparr>clients := (clients s)[i := c]\<rparr>"

definition load1_next :: "bool list \<Rightarrow> nat \<Rightarrow> client" where
  "load1_next fs n = (if fs ! n then Idle else if Suc n < length fs then Load1 (Suc n) else Add)"

definition load2_next :: "bool list \<Rightarrow> nat \<Rightarrow> client" where
  "load2_next fs n = (if fs ! n then Undo else if Suc n < length fs then Load2 (Suc n) else Held)"

text \<open>One atomic operation of a client.\<close>

definition client_step :: "nat \<Rightarrow> pins \<Rightarrow> pins" where
  "client_step i s = (case clients s ! i of
       Idle \<Rightarrow> client_to i (Load1 0) s
     | Load1 n \<Rightarrow> client_to i (load1_next (flags s) n) s
     | Add \<Rightarrow> client_to i (Load2 0) (s\<lparr>refs := refs s + 1\<rparr>)
     | Load2 n \<Rightarrow> client_to i (load2_next (flags s) n) s
     | Undo \<Rightarrow> client_to i Idle (s\<lparr>refs := refs s - 1\<rparr>)
     | Held \<Rightarrow> client_to i Idle (s\<lparr>refs := refs s - 1\<rparr>))"

text \<open>
  The owner may open and close admission until it starts its cleanup (\<open>prepare\<close>, \<open>admission_open\<close>,
  \<open>callbacks_init\<close>); then it sets the flags one by one, in the order of the source, and polls the
  count.
\<close>

inductive pin_step :: "pins \<Rightarrow> pins \<Rightarrow> bool" where
  client: "i < length (clients s) \<Longrightarrow> pin_step s (client_step i s)"
| other_close: "pin_step s (s\<lparr>flags := (flags s)[n := True]\<rparr>)"
| owner_flag: "owner s = Open \<Longrightarrow> pin_step s (s\<lparr>flags := (flags s)[n := b]\<rparr>)"
| owner_begin: "owner s = Open \<Longrightarrow> pin_step s (s\<lparr>owner := Closing 0\<rparr>)"
| owner_close: "owner s = Closing n \<Longrightarrow> n < length (flags s) \<Longrightarrow>
    pin_step s (s\<lparr>flags := (flags s)[n := True], owner := Closing (Suc n)\<rparr>)"
| owner_closed: "owner s = Closing (length (flags s)) \<Longrightarrow> pin_step s (s\<lparr>owner := Waiting\<rparr>)"
| owner_idle: "owner s = Waiting \<Longrightarrow> refs s = 0 \<Longrightarrow> pin_step s (s\<lparr>owner := Drained\<rparr>)"

definition pins_init :: "bool list \<Rightarrow> nat \<Rightarrow> pins" where
  "pins_init fs n = \<lparr>refs = 0, flags = fs, owner = Open, clients = replicate n Idle\<rparr>"

definition callback_pins_init :: "nat \<Rightarrow> pins" where
  "callback_pins_init n = pins_init [False] n"

definition command_pins_init :: "nat \<Rightarrow> pins" where
  "command_pins_init n = pins_init [False, True] n"

section \<open>Invariant\<close>

definition counted :: "client \<Rightarrow> bool" where
  "counted c \<longleftrightarrow> (case c of Load2 _ \<Rightarrow> True | Undo \<Rightarrow> True | Held \<Rightarrow> True | _ \<Rightarrow> False)"

lemma counted_simps [simp]:
  "\<not> counted Idle" "\<not> counted (Load1 n)" "\<not> counted Add" "counted (Load2 n)" "counted Undo" "counted Held"
  by (simp_all add: counted_def)

definition pinned :: "client list \<Rightarrow> nat" where
  "pinned cs = length (filter counted cs)"

definition closed_upto :: "owner \<Rightarrow> nat \<Rightarrow> nat" where
  "closed_upto ow k = (case ow of Open \<Rightarrow> 0 | Closing n \<Rightarrow> n | Waiting \<Rightarrow> k | Drained \<Rightarrow> k)"

definition client_ok :: "nat \<Rightarrow> client \<Rightarrow> bool" where
  "client_ok k c \<longleftrightarrow> (case c of Load1 n \<Rightarrow> n < k | Load2 n \<Rightarrow> n < k | _ \<Rightarrow> True)"

definition pins_inv :: "pins \<Rightarrow> bool" where
  "pins_inv s \<longleftrightarrow> refs s = of_nat (pinned (clients s))
     \<and> flags s \<noteq> []
     \<and> closed_upto (owner s) (length (flags s)) \<le> length (flags s)
     \<and> (\<forall>n < closed_upto (owner s) (length (flags s)). flags s ! n)
     \<and> (\<forall>c \<in> set (clients s). client_ok (length (flags s)) c)
     \<and> (owner s = Drained \<longrightarrow> Held \<notin> set (clients s))"

lemma pinned_update:
  "i < length cs \<Longrightarrow> pinned (cs[i := c]) + of_bool (counted (cs ! i)) = pinned cs + of_bool (counted c)"
proof (induction cs arbitrary: i)
  case (Cons a cs)
  show ?case
  proof (cases i)
    case (Suc j)
    with Cons.IH [of j] Cons.prems show ?thesis by (simp add: pinned_def)
  qed (simp add: pinned_def)
qed simp

lemma pinned_0_iff: "pinned cs = 0 \<longleftrightarrow> (\<forall>c \<in> set cs. \<not> counted c)"
  by (simp add: pinned_def filter_empty_conv)

lemma refs_update:
  fixes r :: u32
  assumes "i < length cs" "r = of_nat (pinned cs)"
  shows "counted (cs ! i) = counted c \<Longrightarrow> r = of_nat (pinned (cs[i := c]))"
    "\<not> counted (cs ! i) \<Longrightarrow> counted c \<Longrightarrow> r + 1 = of_nat (pinned (cs[i := c]))"
    "counted (cs ! i) \<Longrightarrow> \<not> counted c \<Longrightarrow> r - 1 = of_nat (pinned (cs[i := c]))"
proof -
  assume "\<not> counted (cs ! i)" "counted c"
  then have "pinned (cs[i := c]) = Suc (pinned cs)" using pinned_update [OF assms(1), of c] by simp
  then show "r + 1 = of_nat (pinned (cs[i := c]))" using assms(2) by (simp add: add.commute)
next
  assume "counted (cs ! i)" "\<not> counted c"
  then have "pinned cs = Suc (pinned (cs[i := c]))" using pinned_update [OF assms(1), of c] by simp
  then show "r - 1 = of_nat (pinned (cs[i := c]))" using assms(2) by simp
qed (use pinned_update [OF assms(1), of c] assms(2) in simp)

lemma set_list_update: "\<forall>c \<in> set cs. P c \<Longrightarrow> P x \<Longrightarrow> \<forall>c \<in> set (cs[i := x]). P c"
  using set_update_subset_insert [of cs i x] by blast

lemma client_step_inv:
  assumes inv: "pins_inv s" and i: "i < length (clients s)"
  shows "pins_inv (client_step i s)"
proof -
  let ?k = "length (flags s)"
  have ok: "client_ok ?k (clients s ! i)" using inv i by (simp add: pins_inv_def)
  have all: "\<forall>c \<in> set (clients s). client_ok ?k c"
    and held: "owner s = Drained \<Longrightarrow> \<forall>c \<in> set (clients s). c \<noteq> Held"
    using inv by (auto simp: pins_inv_def)
  have closed: "owner s = Drained \<Longrightarrow> n < ?k \<Longrightarrow> flags s ! n" for n
    using inv by (simp add: pins_inv_def closed_upto_def)
  have k: "0 < ?k" using inv by (simp add: pins_inv_def)
  have upd: "pins_inv (client_to i c (s\<lparr>refs := r\<rparr>))"
    if "r = of_nat (pinned ((clients s)[i := c]))" "client_ok ?k c" "owner s = Drained \<longrightarrow> c \<noteq> Held"
    for c r
    using inv that set_list_update [OF all that(2), of i] held set_list_update [of "clients s" "\<lambda>c. c \<noteq> Held" c i]
    by (auto simp: pins_inv_def client_to_def)
  have r: "refs s = of_nat (pinned (clients s))" using inv by (simp add: pins_inv_def)
  note ru = refs_update [OF i r]
  show ?thesis
  proof (cases "clients s ! i")
    case (Load2 n)
    with ok closed upd [OF ru(1), of "load2_next (flags s) n"] show ?thesis
      by (auto simp: client_step_def load2_next_def client_ok_def)
  next
    case (Load1 n)
    with ok k upd [OF ru(1), of "load1_next (flags s) n"] show ?thesis
      by (auto simp: client_step_def load1_next_def client_ok_def)
  qed (use k upd [OF ru(1)] upd [OF ru(2)] upd [OF ru(3)] in
      \<open>auto simp: client_step_def client_ok_def\<close>)
qed

lemma client_step_frame [frame]:
  "owner (client_step i s) = owner s" "flags (client_step i s) = flags s"
  "length (clients (client_step i s)) = length (clients s)"
  by (auto simp: client_step_def client_to_def split: client.splits)

lemma pin_step_length [frame]: "pin_step s t \<Longrightarrow> length (clients t) = length (clients s)"
  by (erule pin_step.cases) (simp_all add: frame)

lemma set_flag_keeps: "m < length fs \<Longrightarrow> fs ! m \<Longrightarrow> fs[n := True] ! m"
  by (cases "n = m") auto

lemma pin_step_inv [step_inv]:
  assumes "pin_step s t" "pins_inv s" "length (clients s) < 4294967296"
  shows "pins_inv t"
  using assms(1)
proof (cases rule: pin_step.cases)
  case (client i)
  then show ?thesis using assms(2) by (simp add: client_step_inv)
next
  case (other_close n)
  then show ?thesis using assms(2) by (auto simp: pins_inv_def intro!: set_flag_keeps)
next
  case owner_idle
  then have "of_nat (pinned (clients s)) = (0 :: u32)" using assms(2) by (simp add: pins_inv_def)
  moreover have "pinned (clients s) < 4294967296"
    using assms(3) length_filter_le [of counted "clients s"] unfolding pinned_def by linarith
  ultimately have "pinned (clients s) = 0"
    using unat_of_nat [of "pinned (clients s)", where ?'a = 32] by simp
  then have "Held \<notin> set (clients s)" by (auto simp: pinned_0_iff)
  with owner_idle assms(2) show ?thesis by (simp add: pins_inv_def closed_upto_def)
qed (use assms(2) in \<open>auto simp: pins_inv_def closed_upto_def nth_list_update less_Suc_eq\<close>)

lemma pins_init_inv: "fs \<noteq> [] \<Longrightarrow> pins_inv (pins_init fs n)"
  by (simp add: pins_inv_def pins_init_def pinned_def closed_upto_def client_ok_def)

lemma reachable_inv:
  assumes "pin_step\<^sup>*\<^sup>* (pins_init fs n) s" "fs \<noteq> []" "n < 4294967296"
  shows "pins_inv s \<and> length (clients s) = n"
  using assms(1)
proof (induction rule: rtranclp_induct)
  case base
  then show ?case using assms(2) by (simp add: pins_init_inv) (simp add: pins_init_def)
next
  case (step s t)
  then show ?case using assms(3) by (simp add: pin_step_inv pin_step_length)
qed

section \<open>Progress of the drain\<close>

definition ops_left :: "client \<Rightarrow> nat" where
  "ops_left c = (case c of Idle \<Rightarrow> 0 | Load1 _ \<Rightarrow> 1 | Add \<Rightarrow> 3 | Load2 _ \<Rightarrow> 2 | Undo \<Rightarrow> 1 | Held \<Rightarrow> 1)"

definition drain_work :: "pins \<Rightarrow> nat" where
  "drain_work s = sum_list (map ops_left (clients s))"

lemma sum_list_map_update:
  "i < length xs \<Longrightarrow> sum_list (map f (xs[i := x])) + f (xs ! i) = sum_list (map f xs) + (f x :: nat)"
proof (induction xs arbitrary: i)
  case (Cons a xs)
  then show ?case by (cases i) (auto simp: algebra_simps)
qed simp

lemma client_step_drains:
  assumes inv: "pins_inv s" and closed: "owner s = Waiting" and i: "i < length (clients s)"
    and busy: "clients s ! i \<noteq> Idle"
  shows "drain_work (client_step i s) < drain_work s"
proof -
  have "flags s ! n" if "n < length (flags s)" for n
    using inv closed that by (simp add: pins_inv_def closed_upto_def)
  moreover have "client_ok (length (flags s)) (clients s ! i)" using inv i by (simp add: pins_inv_def)
  ultimately obtain c where "clients (client_step i s) = (clients s)[i := c]"
    "ops_left c < ops_left (clients s ! i)"
    using busy by (cases "clients s ! i")
      (auto simp: client_step_def client_to_def load1_next_def load2_next_def client_ok_def ops_left_def)
  then show ?thesis using sum_list_map_update [OF i, of ops_left c] by (simp add: drain_work_def)
qed

lemma all_idle_refs: "pins_inv s \<Longrightarrow> drain_work s = 0 \<Longrightarrow> refs s = 0"
proof -
  assume "pins_inv s" "drain_work s = 0"
  moreover have "\<not> counted c" if "ops_left c = 0" for c
    using that by (cases c) (simp_all add: ops_left_def)
  ultimately have "pinned (clients s) = 0" by (simp add: drain_work_def pinned_0_iff)
  with \<open>pins_inv s\<close> show ?thesis by (simp add: pins_inv_def)
qed

lemma closing_run:
  assumes "owner s = Open"
  shows "n \<le> length (flags s) \<Longrightarrow>
    pin_step\<^sup>*\<^sup>* s (s\<lparr>flags := replicate n True @ drop n (flags s), owner := Closing n\<rparr>)"
proof (induction n)
  case 0
  then show ?case using pin_step.owner_begin [OF assms] by simp
next
  case (Suc n)
  let ?t = "s\<lparr>flags := replicate n True @ drop n (flags s), owner := Closing n\<rparr>"
  have "(replicate n True @ drop n (flags s))[n := True] = replicate (Suc n) True @ drop (Suc n) (flags s)"
    using Suc.prems by (simp add: list_update_append Cons_nth_drop_Suc [symmetric] replicate_append_same)
  then have "pin_step ?t (s\<lparr>flags := replicate (Suc n) True @ drop (Suc n) (flags s), owner := Closing (Suc n)\<rparr>)"
    using pin_step.owner_close [of ?t n] Suc.prems by simp
  with Suc show ?case by (auto intro: rtranclp.rtrancl_into_rtrancl)
qed

lemma waiting_run:
  "owner s = Open \<Longrightarrow>
    pin_step\<^sup>*\<^sup>* s (s\<lparr>flags := replicate (length (flags s)) True, owner := Waiting\<rparr>)"
  using closing_run [of s "length (flags s)"]
    pin_step.owner_closed [of "s\<lparr>flags := replicate (length (flags s)) True, owner := Closing (length (flags s))\<rparr>"]
  by (auto intro: rtranclp.rtrancl_into_rtrancl)

lemma replicate_2: "replicate 2 x = [x, x]"
  by (simp add: numeral_2_eq_2)

lemma drain_run:
  "owner s = Open \<Longrightarrow> refs s = 0 \<Longrightarrow>
    pin_step\<^sup>*\<^sup>* s (s\<lparr>flags := replicate (length (flags s)) True, owner := Drained\<rparr>)"
  using waiting_run [of s]
    pin_step.owner_idle [of "s\<lparr>flags := replicate (length (flags s)) True, owner := Waiting\<rparr>"]
  by (auto intro: rtranclp.rtrancl_into_rtrancl)

section \<open>Properties\<close>

text \<open>C28. Callback lifetime: in every interleaving of CAN and timer callbacks with the owner's cleanup,
  once the owner has seen the reference count at zero after setting \<open>callback_quiescing\<close>, no callback
  is running under a pin, and none ever will be; the owner may delete what they use.\<close>

theorem callbacks_gone_after_wait_idle:
  assumes "pin_step\<^sup>*\<^sup>* (callback_pins_init n) s" "n < 4294967296" "owner s = Drained"
  shows "\<forall>t. pin_step\<^sup>*\<^sup>* s t \<longrightarrow> owner t = Drained \<and> Held \<notin> set (clients t)"
proof (intro allI impI)
  fix t
  assume t: "pin_step\<^sup>*\<^sup>* s t"
  then have "owner t = Drained"
    using assms(3) by (induction rule: rtranclp_induct) (auto elim!: pin_step.cases simp: frame)
  moreover have "pins_inv t"
    using reachable_inv [of "[False]" n t] rtranclp_trans [OF assms(1) t] assms(2)
    by (simp add: callback_pins_init_def)
  ultimately show "owner t = Drained \<and> Held \<notin> set (clients t)" by (simp add: pins_inv_def)
qed

theorem callbacks_gone_after_wait_idle_witness:
  "let s = (callback_pins_init 3)\<lparr>flags := [True], owner := Drained\<rparr>
   in pin_step\<^sup>*\<^sup>* (callback_pins_init 3) s \<and> Held \<notin> set (clients (client_step 1 s))"
proof -
  let ?s = "(callback_pins_init 3)\<lparr>flags := [True], owner := Drained\<rparr>"
  have run: "pin_step\<^sup>*\<^sup>* (callback_pins_init 3) ?s"
    using drain_run [of "callback_pins_init 3"] by (simp add: callback_pins_init_def pins_init_def)
  have "pin_step\<^sup>*\<^sup>* ?s (client_step 1 ?s)"
    by (rule r_into_rtranclp, rule pin_step.client) (simp add: callback_pins_init_def pins_init_def)
  with callbacks_gone_after_wait_idle [OF run] have "Held \<notin> set (clients (client_step 1 ?s))" by simp
  with run show ?thesis by (simp add: Let_def)
qed

text \<open>Command queue lifetime: the same for command posters, whose two admission flags other threads
  may set and the owner may still clear while it initialises: once the owner's cleanup has seen
  \<open>command_refs\<close> at zero, no poster is using the queue.\<close>

theorem posters_gone_after_wait_idle:
  assumes "pin_step\<^sup>*\<^sup>* (command_pins_init n) s" "n < 4294967296" "owner s = Drained"
  shows "Held \<notin> set (clients s)"
  using reachable_inv [of "[False, True]" n s] assms by (simp add: command_pins_init_def pins_inv_def)

theorem posters_gone_after_wait_idle_witness:
  "Held \<notin> set (clients ((command_pins_init 3)\<lparr>flags := [True, True], owner := Drained\<rparr>))"
  using drain_run [of "command_pins_init 3"]
  by (intro posters_gone_after_wait_idle [where n = 3])
    (simp_all add: command_pins_init_def pins_init_def replicate_2)

text \<open>The wait of the owner's cleanup ends: while it waits, every operation of a callback or poster
  that is under way brings the count closer to zero, a client that starts now never takes a
  reference, and when no client is under way the count is zero.\<close>

theorem wait_idle_progress:
  assumes "pin_step\<^sup>*\<^sup>* (pins_init fs n) s" "fs \<noteq> []" "n < 4294967296" "owner s = Waiting"
  shows "(i < n \<longrightarrow> clients s ! i \<noteq> Idle \<longrightarrow> drain_work (client_step i s) < drain_work s)
    \<and> (i < n \<longrightarrow> clients s ! i = Idle \<longrightarrow> client_step i (client_step i s) = s)
    \<and> (drain_work s = 0 \<longrightarrow> refs s = 0 \<and> pin_step s (s\<lparr>owner := Drained\<rparr>))"
proof -
  have inv: "pins_inv s" and len: "length (clients s) = n" using reachable_inv assms by blast+
  have "flags s ! 0" using inv assms(4) by (simp add: pins_inv_def closed_upto_def)
  moreover have "(clients s)[i := Idle] = clients s" if "clients s ! i = Idle"
    using that by (metis list_update_id)
  ultimately have "client_step i (client_step i s) = s" if "i < n" "clients s ! i = Idle"
    using that len by (simp add: client_step_def client_to_def load1_next_def)
  with inv len assms(4) client_step_drains [of s i] all_idle_refs [of s] show ?thesis
    by (auto intro: pin_step.owner_idle)
qed

theorem wait_idle_progress_witness:
  "let s = (pins_init [False] 2)\<lparr>flags := [True], owner := Waiting\<rparr>
   in client_step 1 (client_step 1 s) = s \<and> refs s = 0"
proof -
  let ?s = "(pins_init [False] 2)\<lparr>flags := [True], owner := Waiting\<rparr>"
  have "pin_step\<^sup>*\<^sup>* (pins_init [False] 2) ?s"
    using waiting_run [of "pins_init [False] 2"] by (simp add: pins_init_def)
  from wait_idle_progress [OF this, of 1] show ?thesis
    by (simp add: Let_def pins_init_def drain_work_def ops_left_def replicate_2)
qed

end
