(* ===== verification/Rtt_Sdo_Request.thy ===== *)
theory Rtt_Sdo_Request
  imports Rtt_Types
begin

text \<open>
  Lifetime of one asynchronous SDO request (\<open>port/rtthread/src/master_sdo_request.c\<close> and the parts of
  \<open>master_sdo.c\<close> that claim and promote a request). The owner thread completes the request while the
  application cancels, waits for and destroys it; they meet in the atomic \<open>state\<close>, the
  \<open>completion_refs\<close> of the embedded event and the \<open>sdo_cancel_refs\<close> of the runtime.

  The step relation interleaves the single atomic operations of the owner with those of the application, which posts, cancels and
  destroys the request. The application owns the request: by the contract in \<open>lely/rtthread/runtime.h\<close> one caller has it from its creation to its
  destruction and makes its calls one after the other. The relation is more liberal, it lets one call of \<open>cancel\<close> overlap the
  others, and records in \<open>overlap\<close> that \<open>destroy\<close> was called while \<open>cancel\<close> was still reading the state.
\<close>

section \<open>Model\<close>

datatype sdo_state = NEW | QUEUED | PENDING | CANCEL_PENDING | TEARDOWN_PENDING
  | PENDING_CANCEL_PINNED | PENDING_CANCEL_DONE | ACTIVE | ACTIVE_CANCEL_PINNED | ACTIVE_CANCEL_DONE
  | DONE

datatype sdo_completion_status = COMPLETION_OK | COMPLETION_ABORT | COMPLETION_CANCELED
  | COMPLETION_LOCAL_ERROR

record sdo_result =
  completion_status :: sdo_completion_status
  local_error :: rt_err
  abort_code :: u32

text \<open>
  Where the owner is in \<open>lely_rtt_master_sdo_complete\<close>: in its loop with the state it last saw, about
  to exchange it for \<open>DONE\<close> or for a staged state, about to undo what it prepared for a failed
  exchange, sending the event, clearing \<open>completion_refs\<close>, or returned.
\<close>

datatype owner_pc = OIdle | OLoop sdo_state | OCas sdo_state | OCasFail sdo_state
  | OStage sdo_state | OStageFail sdo_state | OSend | OClear | OEnd

text \<open>
  Where the caller of \<open>lely_rtt_sdo_request_cancel\<close> is: in its loop, holding the pin, releasing the pin
  after the cancel command was posted or refused, waking the owner again, publishing a staged
  completion, or giving back the reference to the runtime.
\<close>

datatype cancel_pc = CIdle | CLoop sdo_state | CPinned sdo_state | CUnpin sdo_state bool bool
  | CWake | CRefs sdo_state | CCas sdo_state | CSend | CClear | CRelease

datatype user_pc = UNone | UWait | UFreed

record sdo_request =
  state :: sdo_state
  completion_refs :: bool
  sdo_cancel_refs :: nat
  result :: "sdo_result option"
  owner_at :: owner_pc
  cancel_at :: cancel_pc
  user_at :: user_pc
  sends :: nat
  wakes :: nat
  posting :: bool \<comment> \<open>\<open>lely_rtt_runtime_post_sdo\<close> does not know yet whether the command is admitted\<close>
  overlap :: bool

fun terminal :: "sdo_state \<Rightarrow> bool" where
  "terminal s \<longleftrightarrow> s = DONE \<or> s = ACTIVE_CANCEL_DONE \<or> s = PENDING_CANCEL_DONE"

fun pinned_state :: "sdo_state \<Rightarrow> bool" where
  "pinned_state s \<longleftrightarrow> s = ACTIVE_CANCEL_PINNED \<or> s = PENDING_CANCEL_PINNED"

definition staged_of :: "sdo_state \<Rightarrow> sdo_state" where
  "staged_of p = (if p = ACTIVE_CANCEL_PINNED then ACTIVE_CANCEL_DONE else PENDING_CANCEL_DONE)"

definition pin_of :: "sdo_state \<Rightarrow> sdo_state" where
  "pin_of s = (if s = PENDING then PENDING_CANCEL_PINNED else ACTIVE_CANCEL_PINNED)"

definition released_of :: "sdo_state \<Rightarrow> bool \<Rightarrow> sdo_state" where
  "released_of p admitted =
     (let base = (if p = PENDING_CANCEL_PINNED then PENDING else ACTIVE)
      in if admitted \<and> base = PENDING then CANCEL_PENDING else base)"

text \<open>
  One atomic operation of \<open>lely_rtt_master_sdo_complete\<close>. The result fields are written when the
  function is entered, before the loop.
\<close>

definition complete_begin :: "sdo_result \<Rightarrow> sdo_request \<Rightarrow> sdo_request" where
  "complete_begin res q = (if terminal (state q) then q\<lparr>owner_at := OEnd\<rparr>
     else q\<lparr>result := Some res, owner_at := OLoop (state q)\<rparr>)"

definition complete_step :: "sdo_request \<Rightarrow> sdo_request" where
  "complete_step q = (case owner_at q of
       OLoop s \<Rightarrow>
         if terminal s then q\<lparr>owner_at := OEnd\<rparr>
         else if pinned_state s then q\<lparr>sdo_cancel_refs := sdo_cancel_refs q + 1, owner_at := OStage s\<rparr>
         else q\<lparr>completion_refs := True, owner_at := OCas s\<rparr>
     | OStage s \<Rightarrow>
         if state q = s then q\<lparr>state := staged_of s, owner_at := OEnd\<rparr>
         else q\<lparr>owner_at := OStageFail (state q)\<rparr>
     | OStageFail s \<Rightarrow> q\<lparr>sdo_cancel_refs := sdo_cancel_refs q - 1, owner_at := OLoop s\<rparr>
     | OCas s \<Rightarrow>
         if state q = s then q\<lparr>state := DONE, owner_at := OSend\<rparr>
         else q\<lparr>owner_at := OCasFail (state q)\<rparr>
     | OCasFail s \<Rightarrow> q\<lparr>completion_refs := False, owner_at := OLoop s\<rparr>
     | OSend \<Rightarrow> q\<lparr>sends := sends q + 1, owner_at := OClear\<rparr>
     | OClear \<Rightarrow> q\<lparr>completion_refs := False, owner_at := OEnd\<rparr>
     | _ \<Rightarrow> q)"

text \<open>
  One atomic operation of \<open>lely_rtt_sdo_request_cancel\<close> and of the
  \<open>lely_rtt_sdo_request_cancel_unpin\<close> it calls; \<open>acquired\<close> is whether \<open>lely_rtt_callback_acquire\<close> pinned
  the runtime, which a pending request needs, and \<open>admitted\<close> whether the command was posted. A
  pending request whose cancellation was refused is pending again, and the owner is sent
  \<open>LELY_RTT_EVENT_COMMAND\<close>, because it may have passed over the pinned request in the meantime.
\<close>

definition cancel_step :: "bool \<Rightarrow> bool \<Rightarrow> sdo_request \<Rightarrow> sdo_request" where
  "cancel_step acquired admitted q = (case cancel_at q of
       CIdle \<Rightarrow> q\<lparr>cancel_at := CLoop (state q)\<rparr>
     | CLoop s \<Rightarrow>
         if s = PENDING \<or> s = ACTIVE
         then (if state q = s then q\<lparr>state := pin_of s, cancel_at := CPinned (pin_of s)\<rparr>
               else q\<lparr>cancel_at := CLoop (state q)\<rparr>)
         else if s = QUEUED
         then (if state q = QUEUED then q\<lparr>state := CANCEL_PENDING, cancel_at := CIdle\<rparr>
               else q\<lparr>cancel_at := CLoop (state q)\<rparr>)
         else q\<lparr>cancel_at := CIdle\<rparr>
     | CPinned p \<Rightarrow>
         if p = PENDING_CANCEL_PINNED then q\<lparr>cancel_at := CUnpin p (acquired \<and> admitted) acquired\<rparr>
         else q\<lparr>cancel_at := CUnpin p admitted False\<rparr>
     | CUnpin p a runtime_pin \<Rightarrow>
         if state q = p
         then q\<lparr>state := released_of p a,
                cancel_at := if \<not> a \<and> p = PENDING_CANCEL_PINNED \<and> runtime_pin then CWake else CIdle\<rparr>
         else if state q = staged_of p then q\<lparr>cancel_at := CRefs p\<rparr>
         else q\<lparr>cancel_at := CIdle\<rparr>
     | CWake \<Rightarrow> q\<lparr>wakes := wakes q + 1, cancel_at := CIdle\<rparr>
     | CRefs p \<Rightarrow> q\<lparr>completion_refs := True, cancel_at := CCas p\<rparr>
     | CCas p \<Rightarrow>
         if state q = staged_of p then q\<lparr>state := DONE, cancel_at := CSend\<rparr>
         else q\<lparr>cancel_at := CClear\<rparr>
     | CSend \<Rightarrow> q\<lparr>sends := sends q + 1, cancel_at := CClear\<rparr>
     | CClear \<Rightarrow> q\<lparr>completion_refs := False, cancel_at := CRelease\<rparr>
     | CRelease \<Rightarrow> q\<lparr>sdo_cancel_refs := sdo_cancel_refs q - 1, cancel_at := CIdle\<rparr>)"

definition request_new :: sdo_request where
  "request_new = \<lparr>state = NEW, completion_refs = False, sdo_cancel_refs = 0, result = None,
     owner_at = OIdle, cancel_at = CIdle, user_at = UNone, sends = 0, wakes = 0, posting = False, overlap = False\<rparr>"

text \<open>
  A request is posted by making it \<open>QUEUED\<close> and sending the command; when the command is refused, the state is \<open>NEW\<close> again. The
  owner claims a queued request (\<open>lely_rtt_master_sdo_claim\<close>, or \<open>TEARDOWN_PENDING\<close> in
  \<open>lely_rtt_master_sdo_cancel_queued\<close>), promotes a pending one (\<open>lely_rtt_master_sdo_start_pending\<close>)
  and completes, once, a request that it has taken from the command queue. The application may call
  \<open>cancel\<close> again and again until it destroys the request; \<open>destroy\<close> reads the state and then waits for \<open>completion_refs\<close>.
\<close>

definition in_loop :: "cancel_pc \<Rightarrow> bool" where
  "in_loop c \<longleftrightarrow> (case c of CLoop _ \<Rightarrow> True | _ \<Rightarrow> False)"

inductive sdo_step :: "sdo_request \<Rightarrow> sdo_request \<Rightarrow> bool" where
  post: "state q = NEW \<Longrightarrow> user_at q = UNone \<Longrightarrow> sdo_step q (q\<lparr>state := QUEUED, posting := True\<rparr>)"
| admitted: "posting q \<Longrightarrow> sdo_step q (q\<lparr>posting := False\<rparr>)"
| refused: "posting q \<Longrightarrow> sdo_step q (q\<lparr>state := NEW, posting := False\<rparr>)"
| claim: "owner_at q = OIdle \<Longrightarrow> \<not> posting q \<Longrightarrow> state q = QUEUED \<Longrightarrow> s \<in> {PENDING, ACTIVE, TEARDOWN_PENDING} \<Longrightarrow>
    sdo_step q (q\<lparr>state := s\<rparr>)"
| promote: "owner_at q = OIdle \<Longrightarrow> state q = PENDING \<Longrightarrow> sdo_step q (q\<lparr>state := ACTIVE\<rparr>)"
| complete: "owner_at q = OIdle \<Longrightarrow> \<not> posting q \<Longrightarrow> state q \<notin> {NEW, QUEUED} \<Longrightarrow> sdo_step q (complete_begin res q)"
| owner: "owner_at q \<notin> {OIdle, OEnd} \<Longrightarrow> sdo_step q (complete_step q)"
| cancel: "cancel_at q = CIdle \<longrightarrow> user_at q = UNone \<Longrightarrow> sdo_step q (cancel_step acquired admitted q)"
| destroy: "user_at q = UNone \<Longrightarrow> state q \<in> {NEW, DONE} \<Longrightarrow>
    sdo_step q (q\<lparr>user_at := UWait, overlap := in_loop (cancel_at q)\<rparr>)"
| free: "user_at q = UWait \<Longrightarrow> \<not> completion_refs q \<Longrightarrow> sdo_step q (q\<lparr>user_at := UFreed\<rparr>)"

section \<open>Invariant\<close>

definition live :: "sdo_state \<Rightarrow> bool" where
  "live s \<longleftrightarrow> s \<in> {PENDING, CANCEL_PENDING, TEARDOWN_PENDING, ACTIVE, ACTIVE_CANCEL_PINNED, PENDING_CANCEL_PINNED}"

definition staged :: "sdo_state \<Rightarrow> bool" where
  "staged s \<longleftrightarrow> s = ACTIVE_CANCEL_DONE \<or> s = PENDING_CANCEL_DONE"

fun owner_ok :: "owner_pc \<Rightarrow> sdo_state \<Rightarrow> bool" where
  "owner_ok OIdle s \<longleftrightarrow> s \<noteq> DONE \<and> \<not> staged s"
| "owner_ok (OLoop t) s \<longleftrightarrow> live s \<and> live t"
| "owner_ok (OCas t) s \<longleftrightarrow> live s \<and> live t \<and> \<not> pinned_state t"
| "owner_ok (OCasFail t) s \<longleftrightarrow> live s \<and> live t"
| "owner_ok (OStage t) s \<longleftrightarrow> live s \<and> pinned_state t"
| "owner_ok (OStageFail t) s \<longleftrightarrow> live s \<and> live t"
| "owner_ok OSend s \<longleftrightarrow> s = DONE"
| "owner_ok OClear s \<longleftrightarrow> s = DONE"
| "owner_ok OEnd s \<longleftrightarrow> s = DONE \<or> staged s"

fun cancel_ok :: "cancel_pc \<Rightarrow> sdo_state \<Rightarrow> bool" where
  "cancel_ok CIdle s \<longleftrightarrow> \<not> pinned_state s \<and> \<not> staged s"
| "cancel_ok (CLoop t) s \<longleftrightarrow> \<not> pinned_state s \<and> \<not> staged s"
| "cancel_ok (CPinned p) s \<longleftrightarrow> pinned_state p \<and> (s = p \<or> s = staged_of p)"
| "cancel_ok CWake s \<longleftrightarrow> \<not> pinned_state s \<and> \<not> staged s"
| "cancel_ok (CUnpin p a rp) s \<longleftrightarrow> pinned_state p \<and> (s = p \<or> s = staged_of p)"
| "cancel_ok (CRefs p) s \<longleftrightarrow> pinned_state p \<and> s = staged_of p"
| "cancel_ok (CCas p) s \<longleftrightarrow> pinned_state p \<and> s = staged_of p"
| "cancel_ok CSend s \<longleftrightarrow> s = DONE"
| "cancel_ok CClear s \<longleftrightarrow> s = DONE"
| "cancel_ok CRelease s \<longleftrightarrow> s = DONE"

fun owner_refs :: "owner_pc \<Rightarrow> bool" where
  "owner_refs (OCas t) = True" | "owner_refs (OCasFail t) = True"
| "owner_refs OSend = True" | "owner_refs OClear = True" | "owner_refs _ = False"

fun cancel_refs :: "cancel_pc \<Rightarrow> bool" where
  "cancel_refs (CCas p) = True" | "cancel_refs CSend = True" | "cancel_refs CClear = True"
| "cancel_refs _ = False"

fun owner_pins :: "owner_pc \<Rightarrow> bool" where
  "owner_pins (OStage t) = True" | "owner_pins (OStageFail t) = True" | "owner_pins _ = False"

fun publishing :: "cancel_pc \<Rightarrow> bool" where
  "publishing CSend = True" | "publishing CClear = True" | "publishing CRelease = True"
| "publishing _ = False"

definition request_inv :: "sdo_request \<Rightarrow> bool" where
  "request_inv q \<longleftrightarrow> owner_ok (owner_at q) (state q) \<and> cancel_ok (cancel_at q) (state q)
     \<and> (completion_refs q \<longleftrightarrow> owner_refs (owner_at q) \<or> cancel_refs (cancel_at q))
     \<and> sdo_cancel_refs q = of_bool (owner_pins (owner_at q)) + of_bool (staged (state q) \<or> publishing (cancel_at q))
     \<and> (publishing (cancel_at q) \<longrightarrow> owner_at q = OEnd)
     \<and> sends q = of_bool (state q = DONE \<and> owner_at q \<noteq> OSend \<and> cancel_at q \<noteq> CSend)
     \<and> (owner_at q \<noteq> OIdle \<longrightarrow> result q \<noteq> None)"

definition user_inv :: "sdo_request \<Rightarrow> bool" where
  "user_inv q \<longleftrightarrow> (user_at q \<noteq> UNone \<longrightarrow> (state q = NEW \<or> state q = DONE) \<and> (in_loop (cancel_at q) \<longrightarrow> overlap q))
     \<and> (user_at q = UFreed \<longrightarrow> \<not> completion_refs q)
     \<and> (posting q \<longrightarrow> owner_at q = OIdle \<and> (state q = QUEUED \<or> state q = CANCEL_PENDING))"

lemma request_new_inv: "request_inv request_new" "user_inv request_new"
  by (simp_all add: request_inv_def user_inv_def request_new_def staged_def)

text \<open>What one side may conclude from the state alone.\<close>

lemma owner_ok_live: "owner_ok ow s \<Longrightarrow> live s \<Longrightarrow> live t \<Longrightarrow> owner_ok ow t"
  by (cases ow) (auto simp: live_def staged_def)

lemma owner_ok_staged: "owner_ok ow s \<Longrightarrow> staged s \<Longrightarrow> ow = OEnd"
  by (cases ow) (auto simp: live_def staged_def)

lemma owner_ok_fresh: "owner_ok ow s \<Longrightarrow> s = NEW \<or> s = QUEUED \<Longrightarrow> ow = OIdle"
  by (cases ow) (auto simp: live_def staged_def)

lemma owner_ok_not_done: "owner_ok ow s \<Longrightarrow> s \<noteq> DONE \<Longrightarrow> ow \<noteq> OSend \<and> ow \<noteq> OClear"
  by (cases ow) auto

lemma cancel_ok_plain:
  "cancel_ok c s \<Longrightarrow> \<not> pinned_state s \<Longrightarrow> \<not> staged s \<Longrightarrow> s \<noteq> DONE \<Longrightarrow>
     \<not> pinned_state t \<Longrightarrow> \<not> staged t \<Longrightarrow> cancel_ok c t"
  by (cases c) (auto simp: staged_def staged_of_def split: if_splits)

lemma cancel_ok_idle:
  "cancel_ok c s \<Longrightarrow> \<not> pinned_state s \<Longrightarrow> \<not> staged s \<Longrightarrow> s \<noteq> DONE \<Longrightarrow>
     c = CIdle \<or> c = CWake \<or> (\<exists>t. c = CLoop t)"
  by (cases c) (auto simp: staged_def staged_of_def split: if_splits)

lemma cancel_ok_pinned:
  "cancel_ok c s \<Longrightarrow> pinned_state s \<Longrightarrow> c = CPinned s \<or> (\<exists>a rp. c = CUnpin s a rp)"
  by (cases c) (auto simp: staged_def staged_of_def split: if_splits)

lemma live_facts:
  "live s \<Longrightarrow> \<not> staged s \<and> s \<noteq> DONE \<and> s \<noteq> NEW \<and> s \<noteq> QUEUED \<and> \<not> terminal s"
  "pinned_state s \<Longrightarrow> live s" "pinned_state s \<Longrightarrow> staged (staged_of s)"
  by (auto simp: live_def staged_def staged_of_def)

lemma cancel_refs_cases: "cancel_ok c s \<Longrightarrow> cancel_refs c \<Longrightarrow> staged s \<or> publishing c"
  by (cases c) (auto simp: staged_def staged_of_def)

lemma publishing_done: "cancel_ok c s \<Longrightarrow> publishing c \<Longrightarrow> s = DONE"
  by (cases c) auto

lemma complete_step_inv:
  assumes inv: "request_inv q" and busy: "owner_at q \<notin> {OIdle, OEnd}"
  shows "request_inv (complete_step q)"
proof -
  show ?thesis
  proof (cases "owner_at q")
    case (OLoop s)
    with inv show ?thesis
      by (auto simp: request_inv_def complete_step_def live_def staged_def)
  next
    case (OCas s)
    show ?thesis
    proof (cases "state q = s")
      case True
      with OCas inv cancel_ok_idle [of "cancel_at q" s] show ?thesis
        by (auto simp: request_inv_def complete_step_def live_def staged_def)
    next
      case False
      with OCas inv show ?thesis by (auto simp: request_inv_def complete_step_def)
    qed
  next
    case (OStage s)
    show ?thesis
    proof (cases "state q = s")
      case True
      with OStage inv cancel_ok_pinned [of "cancel_at q" s] show ?thesis
        by (auto simp: request_inv_def complete_step_def live_def staged_def staged_of_def)
    next
      case False
      with OStage inv show ?thesis by (auto simp: request_inv_def complete_step_def)
    qed
  next
    case (OCasFail s)
    with inv live_facts(1) [of "state q"] cancel_refs_cases [of "cancel_at q" "state q"]
      publishing_done [of "cancel_at q" "state q"] show ?thesis
      by (auto simp: request_inv_def complete_step_def)
  next
    case (OStageFail s)
    with inv show ?thesis by (auto simp: request_inv_def complete_step_def)
  next
    case OClear
    with inv cancel_refs_cases [of "cancel_at q" "state q"] show ?thesis
      by (auto simp: request_inv_def complete_step_def staged_def)
  qed (use inv busy in \<open>auto simp: request_inv_def complete_step_def\<close>)
qed

lemma cancel_step_inv:
  assumes inv: "request_inv q"
  shows "request_inv (cancel_step acquired admitted q)"
proof -
  note facts = inv [unfolded request_inv_def]
  have owner: "owner_ok (owner_at q) (state q)" using inv by (simp add: request_inv_def)
  show ?thesis
  proof (cases "cancel_at q")
    case (CLoop s)
    have "owner_ok (owner_at q) (pin_of s)" if "state q = s" "s = PENDING \<or> s = ACTIVE"
      using owner_ok_live [OF owner, of "pin_of s"] that by (auto simp: live_def pin_of_def)
    moreover have "owner_at q = OIdle" if "state q = QUEUED" using owner_ok_fresh [OF owner] that by simp
    ultimately show ?thesis
      using CLoop facts by (auto simp: request_inv_def cancel_step_def staged_def pin_of_def)
  next
    case (CUnpin p a rp)
    show ?thesis
    proof (cases "state q = p")
      case True
      have p: "pinned_state p" using CUnpin facts by simp
      have "owner_ok (owner_at q) (released_of p a)"
        using owner_ok_live [OF owner, of "released_of p a"] True p by (auto simp: live_def released_of_def)
      moreover have "\<not> pinned_state (released_of p a) \<and> \<not> staged (released_of p a)
          \<and> released_of p a \<noteq> DONE" by (simp add: released_of_def staged_def)
      moreover have "\<not> staged p" "p \<noteq> DONE" "p \<noteq> NEW" using p by (auto simp: staged_def)
      ultimately have "request_inv (q\<lparr>state := released_of p a, cancel_at := c\<rparr>)" if "c = CIdle \<or> c = CWake" for c
        using that CUnpin facts True by (elim disjE) (simp_all add: request_inv_def)
      then show ?thesis using CUnpin True by (simp add: cancel_step_def)
    next
      case False
      with CUnpin facts show ?thesis by (auto simp: request_inv_def cancel_step_def staged_def staged_of_def)
    qed
  next
    case (CRefs p)
    with facts owner_ok_staged [OF owner] live_facts(3) [of p] show ?thesis
      by (auto simp: request_inv_def cancel_step_def staged_def staged_of_def)
  next
    case (CCas p)
    with facts owner_ok_staged [OF owner] live_facts(3) [of p] show ?thesis
      by (auto simp: request_inv_def cancel_step_def staged_def staged_of_def)
  qed (use facts in \<open>auto simp: request_inv_def cancel_step_def staged_def\<close>)
qed

text \<open>What the application may rely on, and what it keeps.\<close>

lemma user_live: "user_inv q \<Longrightarrow> live (state q) \<Longrightarrow> user_at q = UNone"
  by (auto simp: user_inv_def live_def)

lemma busy_state: "request_inv q \<Longrightarrow> owner_at q \<notin> {OIdle, OEnd} \<Longrightarrow> live (state q) \<or> state q = DONE \<and> owner_at q \<in> {OSend, OClear}"
  by (cases "owner_at q") (auto simp: request_inv_def)

lemma complete_user:
  assumes inv: "request_inv q" "user_inv q" and busy: "owner_at q \<notin> {OIdle, OEnd}"
  shows "user_inv (complete_step q)"
proof -
  have np: "\<not> posting q" using inv(2) busy by (auto simp: user_inv_def)
  have same: "user_at (complete_step q) = user_at q" "posting (complete_step q) = posting q" "overlap (complete_step q) = overlap q" "cancel_at (complete_step q) = cancel_at q"
    by (simp_all add: complete_step_def split: owner_pc.split)
  from busy_state [OF inv(1) busy] show ?thesis
  proof
    assume "live (state q)"
    then have "user_at q = UNone" using user_live [OF inv(2)] by simp
    then show ?thesis using same np by (simp add: user_inv_def)
  next
    assume d: "state q = DONE \<and> owner_at q \<in> {OSend, OClear}"
    then have "state (complete_step q) = DONE" "completion_refs (complete_step q) \<longrightarrow> completion_refs q"
      by (auto simp: complete_step_def)
    then show ?thesis using same np inv(2) by (auto simp: user_inv_def)
  qed
qed

lemma cancel_user:
  assumes inv: "request_inv q" "user_inv q" and start: "cancel_at q = CIdle \<longrightarrow> user_at q = UNone"
  shows "user_inv (cancel_step acquired admitted q)"
proof -
  let ?q = "cancel_step acquired admitted q"
  have same: "user_at ?q = user_at q" "posting ?q = posting q" "overlap ?q = overlap q" "owner_at ?q = owner_at q"
    by (auto simp: cancel_step_def split: cancel_pc.split)
  have can: "cancel_ok (cancel_at q) (state q)" using inv(1) by (simp add: request_inv_def)
  show ?thesis
  proof (cases "user_at q = UNone")
    case True
    have "state ?q = QUEUED \<or> state ?q = CANCEL_PENDING" if "posting q"
    proof -
      have st: "state q = QUEUED \<or> state q = CANCEL_PENDING" using inv(2) that by (simp add: user_inv_def)
      then have "cancel_at q = CIdle \<or> cancel_at q = CWake \<or> (\<exists>t. cancel_at q = CLoop t)"
        using cancel_ok_idle [OF can] by (auto simp: staged_def)
      then show ?thesis using st by (auto simp: cancel_step_def split: if_splits)
    qed
    then show ?thesis using True same inv(2) by (simp add: user_inv_def)
  next
    case False
    then have st: "state q = NEW \<or> state q = DONE" "in_loop (cancel_at q) \<longrightarrow> overlap q" "\<not> posting q" using inv(2) by (auto simp: user_inv_def)
    have "\<not> staged (state q)" using st(1) by (auto simp: staged_def)
    then have "state ?q = state q \<and> (completion_refs ?q \<longrightarrow> completion_refs q) \<and> (in_loop (cancel_at ?q) \<longrightarrow> in_loop (cancel_at q))"
      using can st(1) start False by (cases "cancel_at q") (auto simp: cancel_step_def in_loop_def staged_def staged_of_def)
    then show ?thesis using st same inv(2) by (auto simp: user_inv_def)
  qed
qed

lemma sdo_step_inv [step_inv]: "sdo_step q q' \<Longrightarrow> request_inv q \<Longrightarrow> user_inv q \<Longrightarrow> request_inv q'"
proof (induction rule: sdo_step.induct)
  case (post q)
  with owner_ok_fresh [of "owner_at q" NEW] show ?case
    by (cases "cancel_at q") (auto simp: request_inv_def staged_def staged_of_def)
next
  case (refused q)
  then have "owner_at q = OIdle" "state q = QUEUED \<or> state q = CANCEL_PENDING" by (auto simp: user_inv_def)
  with refused show ?case by (cases "cancel_at q") (auto simp: request_inv_def staged_def staged_of_def)
next
  case (claim q s)
  then show ?case by (cases "cancel_at q") (auto simp: request_inv_def staged_def staged_of_def)
next
  case (promote q)
  then show ?case by (cases "cancel_at q") (auto simp: request_inv_def staged_def staged_of_def)
next
  case (complete q res)
  then have "live (state q)" by (cases "state q") (auto simp: request_inv_def live_def staged_def)
  with complete live_facts(1) [of "state q"] show ?case
    by (auto simp: request_inv_def complete_begin_def)
next
  case (owner q)
  then show ?case by (simp add: complete_step_inv)
next
  case (cancel q acquired admitted)
  then show ?case by (simp add: cancel_step_inv)
qed (simp_all add: request_inv_def)

lemma sdo_step_user: "sdo_step q q' \<Longrightarrow> request_inv q \<Longrightarrow> user_inv q \<Longrightarrow> user_inv q'"
proof (induction rule: sdo_step.induct)
  case (post q)
  with owner_ok_fresh [of "owner_at q" NEW] show ?case by (simp add: request_inv_def user_inv_def)
next
  case (complete q res)
  then have "live (state q)" by (cases "state q") (auto simp: request_inv_def live_def staged_def)
  then have "user_at q = UNone" using user_live complete by blast
  with complete show ?case by (simp add: user_inv_def complete_begin_def)
next
  case (owner q)
  then show ?case by (simp add: complete_user)
next
  case (cancel q acquired admitted)
  then show ?case by (simp add: cancel_user)
qed (auto simp: user_inv_def)

definition sdo_reachable :: "sdo_request \<Rightarrow> bool" where
  "sdo_reachable q \<longleftrightarrow> sdo_step\<^sup>*\<^sup>* request_new q"

lemma reachable_invs: "sdo_reachable q \<Longrightarrow> request_inv q \<and> user_inv q"
  unfolding sdo_reachable_def
  by (induction rule: rtranclp_induct) (auto simp: request_new_inv sdo_step_inv sdo_step_user)

lemmas reachable_request_inv = reachable_invs [THEN conjunct1]
lemmas reachable_user_inv = reachable_invs [THEN conjunct2]

section \<open>Completion is published\<close>

text \<open>How many operations the owner needs to leave the loop when nobody interferes.\<close>

definition owner_rank :: "sdo_request \<Rightarrow> nat" where
  "owner_rank q = (case owner_at q of OIdle \<Rightarrow> 0 | OEnd \<Rightarrow> 0 | OClear \<Rightarrow> 1 | OSend \<Rightarrow> 2
     | OStage s \<Rightarrow> if s = state q then 1 else 6
     | OCas s \<Rightarrow> if s = state q then 3 else 6
     | OLoop s \<Rightarrow> if s = state q then 4 else 7
     | OCasFail s \<Rightarrow> if s = state q then 5 else 8
     | OStageFail s \<Rightarrow> if s = state q then 5 else 8)"

lemma owner_rank_decreases:
  "owner_at q \<notin> {OIdle, OEnd} \<Longrightarrow> owner_rank (complete_step q) < owner_rank q"
  by (cases "owner_at q") (auto simp: owner_rank_def complete_step_def)

lemma complete_step_keeps:
  "owner_at q \<noteq> OIdle \<Longrightarrow> owner_at (complete_step q) \<noteq> OIdle"
  "cancel_at (complete_step q) = cancel_at q" "user_at (complete_step q) = user_at q"
  by (cases "owner_at q"; simp add: complete_step_def)+

lemma complete_returns:
  assumes "request_inv q" "owner_at q \<noteq> OIdle"
  shows "\<exists>n \<le> owner_rank q. owner_at ((complete_step ^^ n) q) = OEnd \<and> request_inv ((complete_step ^^ n) q)"
  using assms
proof (induction "owner_rank q" arbitrary: q rule: less_induct)
  case less
  show ?case
  proof (cases "owner_at q = OEnd")
    case True
    with less.prems show ?thesis by (intro exI [of _ 0]) simp
  next
    case False
    with less.prems have dec: "owner_rank (complete_step q) < owner_rank q"
      by (simp add: owner_rank_decreases)
    with less.hyps [OF dec] less.prems False obtain n where "n \<le> owner_rank (complete_step q)"
      "owner_at ((complete_step ^^ n) (complete_step q)) = OEnd"
      "request_inv ((complete_step ^^ n) (complete_step q))"
      using complete_step_inv complete_step_keeps(1) by auto
    with dec show ?thesis by (intro exI [of _ "Suc n"]) (simp add: funpow_swap1)
  qed
qed

lemma owner_rank_le: "owner_rank q \<le> 8"
  by (simp add: owner_rank_def split: owner_pc.splits)

text \<open>A caller that finds a staged completion publishes it.\<close>

definition cancel_rank :: "sdo_request \<Rightarrow> nat" where
  "cancel_rank q = (case cancel_at q of CIdle \<Rightarrow> 0 | CLoop _ \<Rightarrow> 0 | CWake \<Rightarrow> 0 | CRelease \<Rightarrow> 1 | CClear \<Rightarrow> 2
     | CSend \<Rightarrow> 3 | CCas _ \<Rightarrow> 4 | CRefs _ \<Rightarrow> 5 | CUnpin _ _ _ \<Rightarrow> 6 | CPinned _ \<Rightarrow> 7)"

definition published :: "sdo_request \<Rightarrow> bool" where
  "published q \<longleftrightarrow> state q = DONE \<and> sends q = 1 \<and> result q \<noteq> None \<and> \<not> completion_refs q
     \<and> sdo_cancel_refs q = 0"

lemma cancel_rank_0:
  assumes "request_inv q" "owner_at q = OEnd" "cancel_rank q = 0"
  shows "published q"
  using assms
  by (cases "cancel_at q") (auto simp: cancel_rank_def published_def request_inv_def staged_def)

lemma cancel_rank_decreases:
  assumes "request_inv q" "owner_at q = OEnd" "cancel_rank q \<noteq> 0"
  shows "cancel_rank (cancel_step k a q) < cancel_rank q" "request_inv (cancel_step k a q)"
    "owner_at (cancel_step k a q) = OEnd"
proof -
  have "cancel_at q \<noteq> CIdle" using assms(3) by (auto simp: cancel_rank_def)
  with assms(1) show "request_inv (cancel_step k a q)" by (simp add: cancel_step_inv)
  have "state q = DONE \<or> staged (state q)" using assms(1,2) by (simp add: request_inv_def)
  then show "cancel_rank (cancel_step k a q) < cancel_rank q" "owner_at (cancel_step k a q) = OEnd"
    using assms
    by (cases "cancel_at q"; auto simp: request_inv_def cancel_step_def cancel_rank_def staged_def staged_of_def)+
qed

lemma cancel_publishes:
  assumes "request_inv q" "owner_at q = OEnd"
  shows "\<exists>n \<le> cancel_rank q. published ((cancel_step k a ^^ n) q)"
  using assms
proof (induction "cancel_rank q" arbitrary: q rule: less_induct)
  case less
  show ?case
  proof (cases "cancel_rank q = 0")
    case True
    with less.prems show ?thesis by (intro exI [of _ 0]) (simp add: cancel_rank_0)
  next
    case False
    note step = cancel_rank_decreases [OF less.prems False, of k a]
    from less.hyps [OF step] obtain n where "n \<le> cancel_rank (cancel_step k a q)"
      "published ((cancel_step k a ^^ n) (cancel_step k a q))" by blast
    with step(1) show ?thesis by (intro exI [of _ "Suc n"]) (simp add: funpow_swap1)
  qed
qed

lemma cancel_rank_le: "cancel_rank q \<le> 7"
  by (simp add: cancel_rank_def split: cancel_pc.splits)

section \<open>Example runs\<close>

lemma sdo_reachable_step: "sdo_reachable q \<Longrightarrow> sdo_step q q' \<Longrightarrow> sdo_reachable q'"
  by (simp add: sdo_reachable_def)

definition ok_result :: sdo_result where
  "ok_result = \<lparr>completion_status = COMPLETION_OK, local_error = RT_EOK, abort_code = 0\<rparr>"

definition request_completing :: sdo_request where
  "request_completing = request_new\<lparr>state := ACTIVE, result := Some ok_result, owner_at := OLoop ACTIVE\<rparr>"

definition request_done :: sdo_request where
  "request_done = request_completing\<lparr>state := DONE, sends := 1, owner_at := OEnd\<rparr>"

lemma reach_queued: "sdo_reachable (request_new\<lparr>state := QUEUED\<rparr>)"
proof -
  let ?q = "request_new\<lparr>state := QUEUED, posting := True\<rparr>"
  have "sdo_reachable request_new" by (simp add: sdo_reachable_def)
  moreover have "sdo_step request_new ?q" using sdo_step.post [of request_new] by (simp add: request_new_def)
  moreover have "sdo_step ?q (request_new\<lparr>state := QUEUED\<rparr>)" using sdo_step.admitted [of ?q] by (simp add: request_new_def)
  ultimately show ?thesis using sdo_reachable_step by blast
qed

lemma reach_completing: "sdo_reachable request_completing"
proof -
  have "sdo_step (request_new\<lparr>state := QUEUED\<rparr>) (request_new\<lparr>state := ACTIVE\<rparr>)"
    using sdo_step.claim [of "request_new\<lparr>state := QUEUED\<rparr>" ACTIVE] by (simp add: request_new_def)
  moreover have "sdo_step (request_new\<lparr>state := ACTIVE\<rparr>) request_completing"
    using sdo_step.complete [of "request_new\<lparr>state := ACTIVE\<rparr>" ok_result]
    by (simp add: request_new_def complete_begin_def request_completing_def)
  ultimately show ?thesis using reach_queued sdo_reachable_step by blast
qed

lemma reach_done: "sdo_reachable request_done"
proof -
  have step: "sdo_reachable (complete_step q)" if "sdo_reachable q" "owner_at q \<notin> {OIdle, OEnd}" for q
    using that sdo_reachable_step sdo_step.owner by blast
  have "sdo_reachable (complete_step (complete_step (complete_step (complete_step request_completing))))"
    by (intro step reach_completing)
      (simp_all add: complete_step_def request_completing_def request_new_def)
  then show ?thesis
    by (simp add: complete_step_def request_completing_def request_new_def request_done_def)
qed

lemma reach_freed: "sdo_reachable (request_done\<lparr>user_at := UFreed\<rparr>)"
proof -
  have "sdo_step request_done (request_done\<lparr>user_at := UWait\<rparr>)"
    using sdo_step.destroy [of request_done]
    by (simp add: request_done_def request_completing_def request_new_def in_loop_def)
  moreover have "sdo_step (request_done\<lparr>user_at := UWait\<rparr>) (request_done\<lparr>user_at := UFreed\<rparr>)"
    using sdo_step.free [of "request_done\<lparr>user_at := UWait\<rparr>"]
    by (simp add: request_done_def request_completing_def request_new_def)
  ultimately show ?thesis using reach_done sdo_reachable_step by blast
qed

lemma reach_cancel_pending: "sdo_reachable (request_new\<lparr>state := CANCEL_PENDING\<rparr>)"
proof -
  let ?q = "request_new\<lparr>state := QUEUED, cancel_at := CLoop QUEUED\<rparr>"
  have "sdo_step (request_new\<lparr>state := QUEUED\<rparr>) ?q"
    using sdo_step.cancel [of "request_new\<lparr>state := QUEUED\<rparr>" True True]
    by (simp add: request_new_def cancel_step_def)
  moreover have "sdo_step ?q (request_new\<lparr>state := CANCEL_PENDING\<rparr>)"
    using sdo_step.cancel [of ?q True True] by (simp add: request_new_def cancel_step_def)
  ultimately show ?thesis using reach_queued sdo_reachable_step by blast
qed

section \<open>Properties\<close>

text \<open>C29. Exactly one completion: in every interleaving of the owner with cancelling and destroying
  callers, the completion event of a request is sent at most once, it is never sent before the state is
  \<open>DONE\<close> with the result written, and a request that is \<open>DONE\<close> with nobody still publishing it has had
  its event sent.\<close>

theorem sdo_completion_once:
  assumes "sdo_reachable q"
  shows "sends q \<le> 1 \<and> (sends q = 1 \<longrightarrow> state q = DONE) \<and> (state q = DONE \<longrightarrow> result q \<noteq> None)
    \<and> (state q = DONE \<and> owner_at q \<noteq> OSend \<and> cancel_at q \<noteq> CSend \<longrightarrow> sends q = 1)"
  using reachable_request_inv [OF assms] by (auto simp: request_inv_def)

theorem sdo_completion_once_witness: "sends request_done = 1 \<and> result request_done \<noteq> None"
  using sdo_completion_once [OF reach_done] by (simp add: request_done_def)

text \<open>C30. No use after free: once \<open>lely_rtt_sdo_request_destroy\<close> has freed a request, the owner is done
  with it, or never had it, in every interleaving, and does not touch it again. Neither does a cancelling caller, which at most still wakes the owner or gives back its
  reference to the runtime, if \<open>destroy\<close> was not called while \<open>cancel\<close> was still reading the state, as the contract of the
  request asks: its calls are serialised.\<close>

theorem sdo_no_use_after_free:
  assumes "sdo_reachable q" "user_at q = UFreed"
  shows "(owner_at q = OEnd \<or> state q = NEW \<and> owner_at q = OIdle)
    \<and> (sdo_step q q' \<longrightarrow> q' = cancel_step True True q \<and> user_at q' = UFreed)
    \<and> (\<not> overlap q \<longrightarrow> cancel_at q \<in> {CIdle, CWake, CRelease} \<and> (sdo_step q q' \<longrightarrow> cancel_at q \<in> {CWake, CRelease} \<and> \<not> overlap q'))"
proof -
  note inv = reachable_request_inv [OF assms(1)]
  have st: "state q = NEW \<or> state q = DONE" "\<not> completion_refs q" "in_loop (cancel_at q) \<longrightarrow> overlap q" "\<not> posting q"
    using reachable_user_inv [OF assms(1)] assms(2) by (auto simp: user_inv_def)
  have nl: "\<not> live (state q)" "\<not> staged (state q)" using st(1) by (auto simp: live_def staged_def)
  have "owner_at q \<noteq> OSend \<and> owner_at q \<noteq> OClear" using inv st(2) by (auto simp: request_inv_def)
  then have ow: "owner_at q = OEnd \<or> state q = NEW \<and> owner_at q = OIdle"
    using inv nl st(1) by (cases "owner_at q") (auto simp: request_inv_def)
  have "\<not> cancel_refs (cancel_at q)" using inv st(2) by (simp add: request_inv_def)
  then have can: "cancel_at q \<in> {CIdle, CWake, CRelease} \<or> in_loop (cancel_at q)"
    using inv nl st(1) by (cases "cancel_at q") (auto simp: request_inv_def staged_def staged_of_def in_loop_def split: if_splits)
  have step: "q' = cancel_step True True q \<and> cancel_at q \<noteq> CIdle" if "sdo_step q q'"
    using that
  proof (cases rule: sdo_step.cases)
    case (cancel acquired admitted)
    then show ?thesis using can assms(2) by (cases "cancel_at q") (auto simp: cancel_step_def in_loop_def)
  qed (use assms(2) st ow in auto)
  have "user_at (cancel_step True True q) = UFreed" "overlap (cancel_step True True q) = overlap q"
    using assms(2) by (auto simp: cancel_step_def split: cancel_pc.split)
  then show ?thesis using ow can st(3) step by auto
qed

theorem sdo_no_use_after_free_witness:
  "owner_at (request_done\<lparr>user_at := UFreed\<rparr>) = OEnd \<and> cancel_at (request_done\<lparr>user_at := UFreed\<rparr>) \<in> {CIdle, CWake, CRelease}"
  using sdo_no_use_after_free [OF reach_freed] by (simp add: request_done_def request_completing_def request_new_def)

text \<open>Runtime teardown is safe: while a cancelling caller may still use the runtime to publish a
  completion that the owner staged for it, \<open>sdo_cancel_refs\<close> is not zero, so the barrier in
  \<open>lely_rtt_master_sdo_fini\<close> holds the owner back.\<close>

theorem sdo_teardown_waits:
  assumes "sdo_reachable q" "sdo_cancel_refs q = 0"
  shows "\<not> staged (state q) \<and> (\<forall>p. cancel_at q \<noteq> CRefs p \<and> cancel_at q \<noteq> CCas p)
    \<and> cancel_at q \<noteq> CSend \<and> cancel_at q \<noteq> CClear \<and> cancel_at q \<noteq> CRelease"
  using reachable_request_inv [OF assms(1)] assms(2)
  by (cases "cancel_at q") (auto simp: request_inv_def staged_def staged_of_def)

theorem sdo_teardown_waits_witness: "\<not> staged (state request_done) \<and> cancel_at request_done \<noteq> CRelease"
  using sdo_teardown_waits [OF reach_done]
  by (simp add: request_done_def request_completing_def request_new_def)

text \<open>Completion is not lost: once the owner has entered \<open>lely_rtt_master_sdo_complete\<close>, at most
  eight operations of its own make it return, and at most seven further operations of a caller that
  held the request pinned make the request \<open>DONE\<close>, its event sent, and every reference given back.\<close>

theorem sdo_completion_published:
  assumes "sdo_reachable q" "owner_at q \<noteq> OIdle"
  shows "\<exists>n m. n \<le> 8 \<and> m \<le> 7 \<and> published ((cancel_step k a ^^ m) ((complete_step ^^ n) q))"
proof -
  obtain n where n: "n \<le> owner_rank q" "owner_at ((complete_step ^^ n) q) = OEnd"
    "request_inv ((complete_step ^^ n) q)"
    using complete_returns [OF reachable_request_inv [OF assms(1)] assms(2)] by blast
  then obtain m where m: "m \<le> cancel_rank ((complete_step ^^ n) q)"
    "published ((cancel_step k a ^^ m) ((complete_step ^^ n) q))"
    using cancel_publishes by blast
  with n(1) owner_rank_le [of q] cancel_rank_le [of "(complete_step ^^ n) q"] show ?thesis
    by (intro exI [of _ n] exI [of _ m]) linarith
qed

theorem sdo_completion_published_witness:
  "\<exists>n m. n \<le> 8 \<and> m \<le> 7 \<and> published ((cancel_step True True ^^ m) ((complete_step ^^ n) request_completing))"
  by (rule sdo_completion_published [OF reach_completing]) (simp add: request_completing_def)

text \<open>A cancel that wins against the command queue is final: a request that was admitted and whose state became
  \<open>CANCEL_PENDING\<close> is never made active, so that no transfer starts, and ends as \<open>DONE\<close>.\<close>

theorem sdo_cancel_pending_final:
  assumes "sdo_reachable q" "state q = CANCEL_PENDING" "\<not> posting q" "sdo_step\<^sup>*\<^sup>* q q'"
  shows "state q' = CANCEL_PENDING \<or> state q' = DONE"
proof -
  have "(state q' = CANCEL_PENDING \<or> state q' = DONE) \<and> \<not> posting q'" using assms(4)
  proof (induction rule: rtranclp_induct)
    case base
    then show ?case using assms by simp
  next
    case (step x y)
    have "sdo_reachable x" using assms(1) step.hyps(1) unfolding sdo_reachable_def by (rule rtranclp_trans)
    then have inv: "request_inv x" by (rule reachable_request_inv)
    have plain: "\<not> pinned_state (state x)" "\<not> staged (state x)" using step.IH by (auto simp: staged_def)
    show ?case
    proof (use step.hyps(2) in \<open>cases rule: sdo_step.cases\<close>)
      case owner
      with inv step.IH plain show ?thesis
        by (cases "owner_at x") (auto simp: complete_step_def request_inv_def)
    next
      case (cancel acquired admitted)
      with inv step.IH plain show ?thesis
        by (cases "cancel_at x") (auto simp: cancel_step_def request_inv_def staged_def staged_of_def)
    qed (use step.IH in \<open>auto simp: complete_begin_def\<close>)
  qed
  then show ?thesis by simp
qed

theorem sdo_cancel_pending_final_witness:
  "state (complete_begin ok_result (request_new\<lparr>state := CANCEL_PENDING\<rparr>)) \<in> {CANCEL_PENDING, DONE}"
proof -
  have "sdo_step (request_new\<lparr>state := CANCEL_PENDING\<rparr>)
      (complete_begin ok_result (request_new\<lparr>state := CANCEL_PENDING\<rparr>))"
    by (rule sdo_step.complete) (simp_all add: request_new_def)
  with sdo_cancel_pending_final [OF reach_cancel_pending] show ?thesis by (auto simp: request_new_def)
qed

end
