(* ===== verification/Rtt_Sdo_Channel.thy ===== *)
theory Rtt_Sdo_Channel
  imports Rtt_Types
begin

text \<open>
  Validation of the custom client-SDO channels (\<open>port/rtthread/src/master_sdo_client.c\<close>). The clients
  that the NMT service manages are an argument: \<open>csdos n\<close> is what \<open>co_nmt_get_csdo\<close> returns for the
  service number \<open>n\<close>, its state and its parameters. Two service numbers denote different clients.
\<close>

unbundle bit_operations_syntax

section \<open>Model\<close>

text \<open>The states of a client that the port distinguishes: stopped, idle, transferring.\<close>

datatype csdo = Csdo_stopped | Csdo_wait | Csdo_busy

record co_sdo_par =
  par_n :: u8
  cobid_req :: u32
  cobid_res :: u32
  par_id :: u8

type_synonym csdos = "u8 \<Rightarrow> (csdo \<times> co_sdo_par) option"

definition CO_NUM_NODES :: nat where "CO_NUM_NODES = 127"
definition CO_NUM_SDOS :: nat where "CO_NUM_SDOS = 128"
definition CO_SDO_COBID_VALID :: u32 where "CO_SDO_COBID_VALID = 0x80000000"
definition CO_SDO_COBID_FRAME :: u32 where "CO_SDO_COBID_FRAME = 0x20000000"

definition co_csdo_is_valid :: "co_sdo_par \<Rightarrow> bool" where
  "co_csdo_is_valid par \<longleftrightarrow> cobid_req par AND CO_SDO_COBID_VALID = 0 \<and> cobid_res par AND CO_SDO_COBID_VALID = 0"

definition lely_rtt_master_sdo_is_predefined_cobid :: "u32 \<Rightarrow> u32 \<Rightarrow> u32 \<Rightarrow> bool" where
  "lely_rtt_master_sdo_is_predefined_cobid cobid low high =
     (let i = cobid AND 0x7ff in cobid AND CO_SDO_COBID_FRAME = 0 \<and> i \<ge> low \<and> i \<le> high)"

definition lely_rtt_master_sdo_same_can_identity :: "u32 \<Rightarrow> u32 \<Rightarrow> bool" where
  "lely_rtt_master_sdo_same_can_identity lhs rhs =
     (let lhs_extended = (lhs AND CO_SDO_COBID_FRAME \<noteq> 0);
          rhs_extended = (rhs AND CO_SDO_COBID_FRAME \<noteq> 0);
          mask = (if lhs_extended then 0x1fffffff else 0x7ff)
      in lhs_extended = rhs_extended \<and> lhs AND mask = rhs AND mask)"

definition lely_rtt_master_sdo_custom_channels_conflict :: "co_sdo_par \<Rightarrow> co_sdo_par \<Rightarrow> bool" where
  "lely_rtt_master_sdo_custom_channels_conflict lhs rhs \<longleftrightarrow>
     lely_rtt_master_sdo_same_can_identity (cobid_req lhs) (cobid_req rhs)
   \<or> lely_rtt_master_sdo_same_can_identity (cobid_req lhs) (cobid_res rhs)
   \<or> lely_rtt_master_sdo_same_can_identity (cobid_res lhs) (cobid_req rhs)
   \<or> lely_rtt_master_sdo_same_can_identity (cobid_res lhs) (cobid_res rhs)"

text \<open>
  The argument \<open>master\<close> is the node identifier of the NMT service, \<open>None\<close> without one. The result is
  the selected client.
\<close>

definition lely_rtt_master_sdo_validate_custom_channel ::
  "csdos \<Rightarrow> u8 option \<Rightarrow> u8 \<Rightarrow> u8 \<Rightarrow> rt_err + (csdo \<times> co_sdo_par)" where
  "lely_rtt_master_sdo_validate_custom_channel csdos master node num =
     (if master = None \<or> node = 0 \<or> unat node > CO_NUM_NODES \<or> num = 0 \<or> unat num > CO_NUM_SDOS
      then Inl RT_EINVAL
      else if Some node = master then Inl RT_EINVAL
      else case csdos num of
        None \<Rightarrow> Inl RT_EINVAL
      | Some (sdo, par) \<Rightarrow>
          if par_n par < 3 \<or> par_id par \<noteq> node
             \<or> cobid_req par AND CO_SDO_COBID_VALID \<noteq> 0 \<or> cobid_res par AND CO_SDO_COBID_VALID \<noteq> 0
          then Inl RT_EINVAL
          else if lely_rtt_master_sdo_is_predefined_cobid (cobid_req par) 0x581 0x5ff
               \<or> lely_rtt_master_sdo_is_predefined_cobid (cobid_req par) 0x601 0x67f
               \<or> lely_rtt_master_sdo_is_predefined_cobid (cobid_res par) 0x581 0x5ff
               \<or> lely_rtt_master_sdo_is_predefined_cobid (cobid_res par) 0x601 0x67f
          then Inl RT_EINVAL
          else Inr (sdo, par))"

text \<open>The loop over the other services, \<open>nums\<close> those still to visit.\<close>

fun peers_conflict :: "csdos \<Rightarrow> u8 \<Rightarrow> co_sdo_par \<Rightarrow> nat list \<Rightarrow> bool" where
  "peers_conflict csdos num par [] = False"
| "peers_conflict csdos num par (k # ks) =
     (case csdos (of_nat k) of
        None \<Rightarrow> peers_conflict csdos num par ks
      | Some (_, other_par) \<Rightarrow>
          if of_nat k = num \<or> \<not> co_csdo_is_valid other_par then peers_conflict csdos num par ks
          else if lely_rtt_master_sdo_custom_channels_conflict par other_par then True
          else peers_conflict csdos num par ks)"

definition lely_rtt_master_sdo_validate_custom_channel_set ::
  "csdos \<Rightarrow> u8 option \<Rightarrow> u8 \<Rightarrow> u8 \<Rightarrow> rt_err + (csdo \<times> co_sdo_par)" where
  "lely_rtt_master_sdo_validate_custom_channel_set csdos master node num =
     (case lely_rtt_master_sdo_validate_custom_channel csdos master node num of
        Inl err \<Rightarrow> Inl err
      | Inr (sdo, par) \<Rightarrow>
          if peers_conflict csdos num par [1..<CO_NUM_SDOS + 1] then Inl RT_EINVAL else Inr (sdo, par))"

text \<open>The loop over the nodes; \<open>sdo_channel\<close> is the table of the runtime, 0 the predefined channel.\<close>

fun validate_nodes :: "csdos \<Rightarrow> u8 option \<Rightarrow> (u8 \<Rightarrow> u8) \<Rightarrow> nat list \<Rightarrow> rt_err" where
  "validate_nodes csdos master sdo_channel [] = RT_EOK"
| "validate_nodes csdos master sdo_channel (k # ks) =
     (let num = sdo_channel (of_nat k)
      in if num = 0 then validate_nodes csdos master sdo_channel ks
         else case lely_rtt_master_sdo_validate_custom_channel_set csdos master (of_nat k) num of
           Inl err \<Rightarrow> err
         | Inr _ \<Rightarrow> validate_nodes csdos master sdo_channel ks)"

definition lely_rtt_master_sdo_validate_channels :: "csdos \<Rightarrow> u8 option \<Rightarrow> (u8 \<Rightarrow> u8) \<Rightarrow> rt_err" where
  "lely_rtt_master_sdo_validate_channels csdos master sdo_channel =
     (if master = None then RT_EINVAL
      else validate_nodes csdos master sdo_channel [1..<CO_NUM_NODES + 1])"

section \<open>CAN identities\<close>

text \<open>
  What a COB-ID denotes on the bus: the frame format and the identifier of that format.
\<close>

definition can_identity :: "u32 \<Rightarrow> bool \<times> u32" where
  "can_identity cobid = (if cobid AND CO_SDO_COBID_FRAME \<noteq> 0 then (True, cobid AND 0x1fffffff)
     else (False, cobid AND 0x7ff))"

definition channel_identities :: "co_sdo_par \<Rightarrow> (bool \<times> u32) set" where
  "channel_identities par = {can_identity (cobid_req par), can_identity (cobid_res par)}"

definition predefined_identities :: "(bool \<times> u32) set" where
  "predefined_identities = (\<lambda>k. (False, 0x580 + of_nat k)) ` {1..CO_NUM_NODES}
     \<union> (\<lambda>k. (False, 0x600 + of_nat k)) ` {1..CO_NUM_NODES}"

lemma same_can_identity_iff:
  "lely_rtt_master_sdo_same_can_identity lhs rhs \<longleftrightarrow> can_identity lhs = can_identity rhs"
  by (auto simp: lely_rtt_master_sdo_same_can_identity_def can_identity_def Let_def)

lemma conflict_iff:
  "lely_rtt_master_sdo_custom_channels_conflict lhs rhs
     \<longleftrightarrow> channel_identities lhs \<inter> channel_identities rhs \<noteq> {}"
  by (auto simp: lely_rtt_master_sdo_custom_channels_conflict_def same_can_identity_iff channel_identities_def)

lemma u32_offset_range:
  fixes i :: u32
  assumes "i = b + of_nat k" "1 \<le> k" "k \<le> CO_NUM_NODES" "unat b < 0x1000"
  shows "b + 1 \<le> i \<and> i \<le> b + 127"
proof -
  have k: "unat (of_nat k :: u32) = k" using assms by (simp add: unat_of_nat CO_NUM_NODES_def)
  have "unat i = unat b + k" using assms k by (simp add: unat_word_ariths CO_NUM_NODES_def)
  moreover have "unat (b + 1) = unat b + 1" "unat (b + 127) = unat b + 127"
    using assms(4) by (simp_all add: unat_word_ariths)
  ultimately show ?thesis using assms by (simp add: word_le_nat_alt CO_NUM_NODES_def)
qed

lemma not_predefined:
  assumes "\<not> lely_rtt_master_sdo_is_predefined_cobid cobid 0x581 0x5ff"
    "\<not> lely_rtt_master_sdo_is_predefined_cobid cobid 0x601 0x67f"
  shows "can_identity cobid \<notin> predefined_identities"
proof
  assume "can_identity cobid \<in> predefined_identities"
  then obtain k where k: "1 \<le> k" "k \<le> CO_NUM_NODES"
    "can_identity cobid = (False, 0x580 + of_nat k) \<or> can_identity cobid = (False, 0x600 + of_nat k)"
    by (auto simp: predefined_identities_def)
  then show False
    using u32_offset_range [of "cobid AND 0x7ff" "0x580" k] u32_offset_range [of "cobid AND 0x7ff" "0x600" k] assms
    by (auto simp: can_identity_def lely_rtt_master_sdo_is_predefined_cobid_def Let_def split: if_splits)
qed

lemma validate_one:
  assumes "lely_rtt_master_sdo_validate_custom_channel csdos master node num = Inr (sdo, par)"
  shows "csdos num = Some (sdo, par)" "par_id par = node" "co_csdo_is_valid par" "num \<noteq> 0" "unat num \<le> CO_NUM_SDOS"
    "channel_identities par \<inter> predefined_identities = {}" "master \<noteq> Some node"
  using assms not_predefined [of "cobid_req par"] not_predefined [of "cobid_res par"]
  by (auto simp: lely_rtt_master_sdo_validate_custom_channel_def co_csdo_is_valid_def channel_identities_def
      split: if_splits option.splits)

lemma peers_conflict_iff:
  "peers_conflict csdos num par ks \<longleftrightarrow>
     (\<exists>k \<in> set ks. \<exists>sdo other. csdos (of_nat k) = Some (sdo, other) \<and> of_nat k \<noteq> num
        \<and> co_csdo_is_valid other \<and> lely_rtt_master_sdo_custom_channels_conflict par other)"
  by (induction ks) (auto split: option.splits)

lemma validate_set:
  assumes "lely_rtt_master_sdo_validate_custom_channel_set csdos master node num = Inr (sdo, par)"
  shows "lely_rtt_master_sdo_validate_custom_channel csdos master node num = Inr (sdo, par)"
    "csdos other = Some (sdo', par') \<Longrightarrow> other \<noteq> num \<Longrightarrow> other \<noteq> 0 \<Longrightarrow> unat other \<le> CO_NUM_SDOS \<Longrightarrow>
      co_csdo_is_valid par' \<Longrightarrow> channel_identities par \<inter> channel_identities par' = {}"
proof -
  show "lely_rtt_master_sdo_validate_custom_channel csdos master node num = Inr (sdo, par)"
    using assms by (auto simp: lely_rtt_master_sdo_validate_custom_channel_set_def split: sum.splits if_splits)
  assume o: "csdos other = Some (sdo', par')" "other \<noteq> num" "other \<noteq> 0" "unat other \<le> CO_NUM_SDOS"
    "co_csdo_is_valid par'"
  have "\<not> peers_conflict csdos num par [1..<CO_NUM_SDOS + 1]"
    using assms by (auto simp: lely_rtt_master_sdo_validate_custom_channel_set_def split: sum.splits if_splits)
  moreover have "unat other \<in> set [1..<CO_NUM_SDOS + 1]" using o(3,4) by (simp add: Suc_le_eq unat_gt_0 CO_NUM_SDOS_def)
  moreover have "of_nat (unat other) = other" by simp
  ultimately have "\<not> lely_rtt_master_sdo_custom_channels_conflict par par'"
    using o unfolding peers_conflict_iff by metis
  then show "channel_identities par \<inter> channel_identities par' = {}" by (simp add: conflict_iff)
qed

lemma validate_set_error:
  "lely_rtt_master_sdo_validate_custom_channel_set csdos master node num = Inl err \<Longrightarrow> err = RT_EINVAL"
  by (auto simp: lely_rtt_master_sdo_validate_custom_channel_set_def
      lely_rtt_master_sdo_validate_custom_channel_def split: sum.splits if_splits option.splits)

lemma validate_nodes_all:
  assumes "validate_nodes csdos master ch ks = RT_EOK" "k \<in> set ks" "ch (of_nat k) \<noteq> 0"
  obtains sdo par where
    "lely_rtt_master_sdo_validate_custom_channel_set csdos master (of_nat k) (ch (of_nat k)) = Inr (sdo, par)"
  using assms
proof (induction ks arbitrary: thesis)
  case (Cons a ks)
  show ?case
  proof (cases "lely_rtt_master_sdo_validate_custom_channel_set csdos master (of_nat a) (ch (of_nat a))")
    case (Inl err)
    with Cons.prems validate_set_error [OF Inl] Cons.IH show ?thesis by (auto simp: Let_def split: if_splits)
  next
    case (Inr c)
    with Cons.prems Cons.IH show ?thesis by (cases c) (auto simp: Let_def split: if_splits)
  qed
qed simp

lemma validate_channels_node:
  assumes ok: "lely_rtt_master_sdo_validate_channels csdos master ch = RT_EOK"
    and n: "n \<noteq> 0" "unat n \<le> CO_NUM_NODES" "ch n \<noteq> 0"
  obtains sdo par where
    "lely_rtt_master_sdo_validate_custom_channel_set csdos master n (ch n) = Inr (sdo, par)"
proof -
  have "unat n \<in> set [1..<CO_NUM_NODES + 1]"
    using n(1,2) by (simp add: Suc_le_eq unat_gt_0 CO_NUM_NODES_def)
  moreover have "validate_nodes csdos master ch [1..<CO_NUM_NODES + 1] = RT_EOK"
    using ok by (simp add: lely_rtt_master_sdo_validate_channels_def split: if_splits)
  moreover have "of_nat (unat n) = n" by simp
  ultimately show thesis using validate_nodes_all [of csdos master ch _ "unat n"] n(3) that by metis
qed

section \<open>Properties\<close>

text \<open>Startup validation separates the channels. When \<open>lely_rtt_master_sdo_validate_channels\<close> accepts
  the configuration, every node with a custom channel has a client whose parameters name that node
  (so that two nodes never share a channel), whose CAN identities lie outside the predefined SDO
  identifiers of all nodes, and which shares no CAN identity with any other enabled client of the NMT
  service.
\<close>

theorem sdo_channels_separate:
  assumes "lely_rtt_master_sdo_validate_channels csdos master sdo_channel = RT_EOK"
    and "n \<noteq> 0" "unat n \<le> CO_NUM_NODES" "sdo_channel n \<noteq> 0"
  shows "\<exists>sdo par. csdos (sdo_channel n) = Some (sdo, par) \<and> par_id par = n \<and> master \<noteq> Some n
     \<and> co_csdo_is_valid par \<and> channel_identities par \<inter> predefined_identities = {}
     \<and> (\<forall>other sdo' par'. csdos other = Some (sdo', par') \<and> other \<noteq> sdo_channel n \<and> other \<noteq> 0
          \<and> unat other \<le> CO_NUM_SDOS \<and> co_csdo_is_valid par'
          \<longrightarrow> channel_identities par \<inter> channel_identities par' = {})"
proof -
  obtain sdo par where v:
    "lely_rtt_master_sdo_validate_custom_channel_set csdos master n (sdo_channel n) = Inr (sdo, par)"
    using validate_channels_node assms by blast
  show ?thesis
    using validate_one [OF validate_set(1) [OF v]] validate_set(2) [OF v] by blast
qed

definition demo_csdos :: csdos where
  "demo_csdos num = (if num = 1 then Some (Csdo_wait, \<lparr>par_n = 3, cobid_req = 0x6C5, cobid_res = 0x645 + 0x100, par_id = 5\<rparr>)
     else if num = 2 then Some (Csdo_wait, \<lparr>par_n = 3, cobid_req = 0x6C6, cobid_res = 0x20000005, par_id = 6\<rparr>)
     else None)"

definition demo_channel :: "u8 \<Rightarrow> u8" where
  "demo_channel node = (if node = 5 then 1 else if node = 6 then 2 else 0)"

lemma demo_channels_valid:
  "lely_rtt_master_sdo_validate_channels demo_csdos (Some 1) demo_channel = RT_EOK"
  by code_simp

theorem sdo_channels_separate_witness:
  "lely_rtt_master_sdo_validate_channels demo_csdos (Some 1) demo_channel = RT_EOK
   \<and> (\<exists>sdo par. demo_csdos 1 = Some (sdo, par) \<and> par_id par = 5 \<and> channel_identities par \<inter> predefined_identities = {})"
  using sdo_channels_separate [OF demo_channels_valid, of 5] demo_channels_valid
  by (auto simp: demo_channel_def CO_NUM_NODES_def)

end
