(* ===== verification/Rtt_Sdo.thy ===== *)
theory Rtt_Sdo
  imports Rtt_Sdo_Request Rtt_Sdo_Channel "HOL-Library.Multiset"
begin

text \<open>
  The owner's scheduling of application SDO requests (\<open>port/rtthread/src/master_sdo.c\<close>,
  \<open>master_sdo_client.c\<close>): a bounded first-in first-out queue behind at most one active transfer for
  each remote node, gates that close a node during NMT stop, reset and boot, and validation of the
  client-SDO channels.

  All tables of the runtime are indexed by node, so the operations are modelled on the state of one
  node and lifted to the tables at the end. A request object carries its own atomic state, which a
  cancelling caller may change between two operations of the owner (theory \<open>Rtt_Sdo_Request\<close>).
  The client-SDO service of the Lely stack is one of stopped, waiting or transferring; what its
  operations and the allocator answer is the argument \<open>E\<close>.
\<close>

section \<open>Model\<close>

datatype sdo_operation = SDO_UPLOAD | SDO_DOWNLOAD

record req =
  rq_id :: u32
  rq_operation :: sdo_operation
  rq_index :: u16
  rq_subindex :: u8
  rq_timeout_ms :: u32
  rq_block :: bool
  rq_buffer :: bytes
  rq_state :: sdo_state
  rq_cancel :: bool

record node =
  node_id :: u8
  channel :: u8
  client :: "csdo option"
  active :: "req option"
  pending :: "req list"
  suspended :: bool
  reset_pending :: bool
  stop_pending :: bool
  finished :: "(req \<times> sdo_result) list" \<comment> \<open>completions published or staged, in order\<close>

record sdo_env =
  en_nmt :: "u8 option" \<comment> \<open>the node identifier of \<open>master_nmt\<close>, \<open>None\<close> if there is none\<close>
  en_net :: bool \<comment> \<open>\<open>can_net\<close> exists\<close>
  en_booting :: bool \<comment> \<open>\<open>co_nmt_is_booting\<close>\<close>
  en_cfg_busy :: bool \<comment> \<open>\<open>lely_rtt_master_cfg_node_busy\<close>\<close>
  en_create :: bool \<comment> \<open>\<open>co_csdo_create\<close> succeeds\<close>
  en_start :: bool \<comment> \<open>\<open>co_csdo_start\<close> succeeds\<close>
  en_csdos :: csdos \<comment> \<open>the clients of the NMT service\<close>
  en_req :: "u32 \<Rightarrow> u32 option \<times> bool" \<comment> \<open>a transfer request: the abort code of a confirmation made
    before it returns, and whether it returned success\<close>
  en_data :: bytes \<comment> \<open>the bytes an upload delivers\<close>
  en_malloc :: bool

definition QUEUE_DEPTH :: nat where "QUEUE_DEPTH = 4" \<comment> \<open>\<open>PKG_LELY_MASTER_SDO_QUEUE_DEPTH\<close>\<close>

definition uses_predefined :: "node \<Rightarrow> bool" where
  "uses_predefined nd \<longleftrightarrow> channel nd = 0"

definition completion :: "sdo_completion_status \<Rightarrow> rt_err \<Rightarrow> u32 \<Rightarrow> sdo_result" where
  "completion st err ac = \<lparr>completion_status = st, local_error = err, abort_code = ac\<rparr>"

text \<open>
  \<open>lely_rtt_master_sdo_complete\<close> as the owner sees it when it returns: the request is done, or staged
  for the caller that holds it pinned, and a request that was already complete is left alone.
\<close>

definition complete :: "req \<Rightarrow> sdo_result \<Rightarrow> node \<Rightarrow> node" where
  "complete r res nd = (if terminal (rq_state r) then nd
     else nd\<lparr>finished := finished nd
       @ [(r\<lparr>rq_state := if pinned_state (rq_state r) then staged_of (rq_state r) else DONE\<rparr>, res)]\<rparr>)"

definition finish_protocol :: "req \<Rightarrow> u32 \<Rightarrow> node \<Rightarrow> node" where
  "finish_protocol r ac nd =
     (let nd1 = (if active nd = Some r
        then nd\<lparr>active := None, stop_pending := (if uses_predefined nd then True else stop_pending nd)\<rparr>
        else nd)
      in complete r
           (if rq_cancel r then completion COMPLETION_CANCELED RT_EOK ac
            else if ac \<noteq> 0 then completion COMPLETION_ABORT RT_EOK ac
            else completion COMPLETION_OK RT_EOK 0) nd1)"

definition dn_con :: "req \<Rightarrow> u32 \<Rightarrow> node \<Rightarrow> node" where
  "dn_con r ac nd = finish_protocol r ac nd"

definition up_con :: "sdo_env \<Rightarrow> req \<Rightarrow> u32 \<Rightarrow> node \<Rightarrow> node" where
  "up_con E r ac nd =
     (if ac = 0 \<and> en_data E \<noteq> [] \<and> \<not> en_malloc E
      then complete r (completion COMPLETION_LOCAL_ERROR RT_ENOMEM 0)
             (if active nd = Some r
              then nd\<lparr>active := None, stop_pending := (if uses_predefined nd then True else stop_pending nd)\<rparr>
              else nd)
      else let r1 = (if ac = 0 then r\<lparr>rq_buffer := en_data E\<rparr> else r);
               nd1 = (if active nd = Some r then nd\<lparr>active := Some r1\<rparr> else nd)
           in finish_protocol r1 ac nd1)"

text \<open>
  The confirmation of the active transfer, which ends it in the client: called by the stack for a
  transfer under way, and by \<open>co_csdo_abort_req\<close> before it returns.
\<close>

definition confirm :: "sdo_env \<Rightarrow> u32 \<Rightarrow> node \<Rightarrow> node" where
  "confirm E ac nd = (case active nd of None \<Rightarrow> nd
     | Some r \<Rightarrow>
         let nd1 = (if uses_predefined nd then nd\<lparr>client := map_option (\<lambda>_. Csdo_wait) (client nd)\<rparr> else nd)
         in case rq_operation r of SDO_UPLOAD \<Rightarrow> up_con E r ac nd1 | SDO_DOWNLOAD \<Rightarrow> dn_con r ac nd1)"

definition get_client :: "sdo_env \<Rightarrow> bool \<Rightarrow> node \<Rightarrow> csdo option \<times> node" where
  "get_client E create nd =
     (if en_nmt E = None then (None, nd)
      else if uses_predefined nd
      then (if \<not> en_net E then (None, nd)
            else if client nd \<noteq> None \<or> \<not> create then (client nd, nd)
            else if en_create E then (Some Csdo_stopped, nd\<lparr>client := Some Csdo_stopped\<rparr>)
            else (None, nd))
      else (map_option fst (en_csdos E (channel nd)), nd))"

text \<open>The transfer request on an idle client, the last part of \<open>lely_rtt_master_sdo_start_active\<close>.\<close>

definition start_transfer :: "sdo_env \<Rightarrow> req \<Rightarrow> node \<Rightarrow> node" where
  "start_transfer E r nd =
     (let predefined = uses_predefined nd;
          nd1 = nd\<lparr>active := Some r\<rparr>;
          nd2 = (case fst (en_req E (rq_id r)) of
              Some ac \<Rightarrow> confirm E ac nd1
            | None \<Rightarrow> if snd (en_req E (rq_id r)) \<and> predefined then nd1\<lparr>client := Some Csdo_busy\<rparr> else nd1)
      in if \<not> snd (en_req E (rq_id r)) \<and> active nd2 = Some r
         then complete r (completion COMPLETION_LOCAL_ERROR RT_ERROR 0)
                (nd2\<lparr>active := None, stop_pending := (if predefined then True else stop_pending nd2)\<rparr>)
         else nd2)"

definition start_active :: "sdo_env \<Rightarrow> req \<Rightarrow> node \<Rightarrow> node" where
  "start_active E r nd =
     (let fail = (\<lambda>err. complete r (completion COMPLETION_LOCAL_ERROR err 0))
      in if uses_predefined nd
         then (case get_client E True nd of
             (None, nd1) \<Rightarrow> fail RT_ERROR nd1
           | (Some sdo, nd1) \<Rightarrow>
               if sdo = Csdo_stopped \<and> \<not> en_start E then fail RT_ERROR nd1
               else
                 let sdo2 = (if sdo = Csdo_stopped then Csdo_wait else sdo);
                     nd2 = nd1\<lparr>client := Some sdo2, stop_pending := False\<rparr>
                 in if sdo2 \<noteq> Csdo_wait then fail RT_EBUSY nd2 else start_transfer E r nd2)
         else (case lely_rtt_master_sdo_validate_custom_channel_set (en_csdos E) (en_nmt E) (node_id nd) (channel nd) of
             Inl err \<Rightarrow> fail err nd
           | Inr (sdo, _) \<Rightarrow>
               if sdo = Csdo_stopped then fail RT_EBUSY nd
               else if sdo \<noteq> Csdo_wait then fail RT_EBUSY nd else start_transfer E r nd))"

section \<open>Queueing\<close>

text \<open>
  \<open>lely_rtt_master_sdo_claim\<close>: the claimed request, or \<open>None\<close> with a cancelled one completed.
\<close>

definition claim :: "req \<Rightarrow> sdo_state \<Rightarrow> node \<Rightarrow> req option \<times> node" where
  "claim r desired nd =
     (if rq_state r = QUEUED then (Some (r\<lparr>rq_state := desired\<rparr>), nd)
      else if rq_state r = CANCEL_PENDING
      then (None, complete (r\<lparr>rq_cancel := True\<rparr>) (completion COMPLETION_CANCELED RT_EOK CO_SDO_AC_NO_SDO) nd)
      else (None, nd))"

definition node_available :: "sdo_env \<Rightarrow> node \<Rightarrow> bool" where
  "node_available E nd \<longleftrightarrow> en_nmt E \<noteq> None \<and> en_net E \<and> \<not> suspended nd \<and> \<not> en_booting E \<and> \<not> en_cfg_busy E"

text \<open>The walk to the tail, which gives up at the depth of the queue.\<close>

fun has_room :: "nat \<Rightarrow> req list \<Rightarrow> bool" where
  "has_room n [] = True"
| "has_room n (r # rs) = (if n + 1 \<ge> QUEUE_DEPTH then False else has_room (n + 1) rs)"

definition pending_append :: "req \<Rightarrow> node \<Rightarrow> bool \<times> node" where
  "pending_append r nd =
     (if \<not> has_room 0 (pending nd) then (False, nd)
      else case claim r PENDING nd of
        (None, nd1) \<Rightarrow> (True, nd1)
      | (Some r1, nd1) \<Rightarrow> (True, nd1\<lparr>pending := pending nd1 @ [r1]\<rparr>))"

definition refuse :: "req \<Rightarrow> node \<Rightarrow> node" where
  "refuse r nd = (case claim r ACTIVE nd of
       (None, nd1) \<Rightarrow> nd1
     | (Some r1, nd1) \<Rightarrow> complete r1 (completion COMPLETION_LOCAL_ERROR RT_EBUSY 0) nd1)"

definition dispatch :: "sdo_env \<Rightarrow> req \<Rightarrow> node \<Rightarrow> node" where
  "dispatch E r nd =
     (if \<not> node_available E nd then refuse r nd
      else if active nd \<noteq> None \<or> pending nd \<noteq> []
      then (case pending_append r nd of (True, nd1) \<Rightarrow> nd1 | (False, nd1) \<Rightarrow> refuse r nd1)
      else case claim r ACTIVE nd of
        (None, nd1) \<Rightarrow> nd1
      | (Some r1, nd1) \<Rightarrow> start_active E r1 nd1)"

section \<open>Cancellation\<close>

definition cancelled :: "u32 \<Rightarrow> req \<Rightarrow> node \<Rightarrow> node" where
  "cancelled ac r nd = complete (r\<lparr>rq_cancel := True\<rparr>) (completion COMPLETION_CANCELED RT_EOK ac) nd"

text \<open>The first pending request with the identifier leaves the queue.\<close>

fun take_pending :: "u32 \<Rightarrow> req list \<Rightarrow> req option \<times> req list" where
  "take_pending i [] = (None, [])"
| "take_pending i (r # rs) = (if rq_id r = i then (Some r, rs)
     else case take_pending i rs of (found, rest) \<Rightarrow> (found, r # rest))"

definition cancel_pending :: "u32 \<Rightarrow> node \<Rightarrow> node" where
  "cancel_pending i nd = (case take_pending i (pending nd) of
       (None, _) \<Rightarrow> nd
     | (Some r, rest) \<Rightarrow> cancelled CO_SDO_AC_NO_SDO r (nd\<lparr>pending := rest\<rparr>))"

text \<open>\<open>co_csdo_abort_req\<close> on the client of the active request, if it is transferring.\<close>

definition abort_client :: "sdo_env \<Rightarrow> node \<Rightarrow> node" where
  "abort_client E nd = (case fst (get_client E False nd) of
       Some Csdo_busy \<Rightarrow> confirm E CO_SDO_AC_NO_SDO nd | _ \<Rightarrow> nd)"

definition cancel_dispatch :: "sdo_env \<Rightarrow> u32 \<Rightarrow> node \<Rightarrow> node" where
  "cancel_dispatch E i nd = (case active nd of
       None \<Rightarrow> cancel_pending i nd
     | Some r \<Rightarrow>
         if rq_id r \<noteq> i then cancel_pending i nd
         else
           let r1 = r\<lparr>rq_cancel := True\<rparr>;
               nd1 = abort_client E (nd\<lparr>active := Some r1\<rparr>)
           in if active nd1 = Some r1
              then complete r1 (completion COMPLETION_CANCELED RT_EOK CO_SDO_AC_NO_SDO)
                     (nd1\<lparr>active := None,
                        stop_pending := (if uses_predefined nd1 then True else stop_pending nd1)\<rparr>)
              else nd1)"

definition cancel_node :: "sdo_env \<Rightarrow> node \<Rightarrow> node" where
  "cancel_node E nd =
     (let nd1 = (case active nd of None \<Rightarrow> nd
        | Some r \<Rightarrow>
            let r1 = r\<lparr>rq_cancel := True\<rparr>;
                nd1 = abort_client E (nd\<lparr>active := Some r1\<rparr>)
            in if active nd1 = Some r1
               then complete r1 (completion COMPLETION_CANCELED RT_EOK CO_SDO_AC_NO_SDO) (nd1\<lparr>active := None\<rparr>)
               else nd1);
          nd2 = fold (cancelled CO_SDO_AC_NO_SDO) (pending nd1) (nd1\<lparr>pending := []\<rparr>);
          nd3 = (if uses_predefined nd2 then nd2\<lparr>client := map_option (\<lambda>_. Csdo_stopped) (client nd2)\<rparr> else nd2)
      in nd3\<lparr>stop_pending := False\<rparr>)"

text \<open>A request still in the command queue when the runtime goes down.\<close>

definition cancel_queued :: "req \<Rightarrow> node \<Rightarrow> node" where
  "cancel_queued r nd =
     (if rq_state r = CANCEL_PENDING then cancelled CO_SDO_AC_NO_SDO r nd
      else if rq_state r = QUEUED then cancelled 0 (r\<lparr>rq_state := TEARDOWN_PENDING\<rparr>) nd
      else nd)"

section \<open>Progress\<close>

text \<open>The flag says whether the owner may try the next entry at once.\<close>

definition start_pending :: "sdo_env \<Rightarrow> node \<Rightarrow> bool \<times> node" where
  "start_pending E nd =
     (if \<not> node_available E nd \<or> active nd \<noteq> None then (False, nd)
      else case pending nd of
        [] \<Rightarrow> (False, nd)
      | r # rs \<Rightarrow>
          if rq_state r = CANCEL_PENDING
          then (False, cancelled CO_SDO_AC_NO_SDO r (nd\<lparr>pending := rs\<rparr>))
          else if rq_state r \<noteq> PENDING then (False, nd)
          else let nd1 = start_active E (r\<lparr>rq_state := ACTIVE\<rparr>) (nd\<lparr>pending := rs\<rparr>)
               in (active nd1 = None, nd1))"

text \<open>The client is stopped once its last callback has returned.\<close>

definition reap_client :: "node \<Rightarrow> node" where
  "reap_client nd =
     (if stop_pending nd
      then (case client nd of
          None \<Rightarrow> nd\<lparr>stop_pending := False\<rparr>
        | Some c \<Rightarrow>
            let c1 = (if c = Csdo_wait then Csdo_stopped else c)
            in nd\<lparr>client := Some c1, stop_pending := (c1 \<noteq> Csdo_stopped)\<rparr>)
      else nd)"

text \<open>The inner loop of \<open>lely_rtt_master_sdo_reap\<close>, with fuel.\<close>

fun reap_loop :: "nat \<Rightarrow> sdo_env \<Rightarrow> node \<Rightarrow> node option" where
  "reap_loop 0 E nd = None"
| "reap_loop (Suc fuel) E nd =
     (if active nd \<noteq> None then Some nd
      else
        let nd1 = reap_client nd
        in if stop_pending nd1 then Some nd1
           else case start_pending E nd1 of
             (again, nd2) \<Rightarrow> if again then reap_loop fuel E nd2 else Some nd2)"

definition reap :: "sdo_env \<Rightarrow> node \<Rightarrow> node option" where
  "reap E nd = reap_loop (Suc (length (pending nd))) E nd"

section \<open>Gates\<close>

definition CO_NMT_ST_STOP :: u8 where "CO_NMT_ST_STOP = 0x04"
definition CO_NMT_ST_START :: u8 where "CO_NMT_ST_START = 0x05"
definition CO_NMT_ST_PREOP :: u8 where "CO_NMT_ST_PREOP = 0x7f"

datatype nmt_command = COMMAND_START | COMMAND_STOP | COMMAND_PREOP | COMMAND_RESET_NODE | COMMAND_RESET_COMM

definition set_suspended :: "bool \<Rightarrow> bool \<Rightarrow> node \<Rightarrow> node" where
  "set_suspended sus res nd = nd\<lparr>suspended := sus, reset_pending := res\<rparr>"

definition before_boot :: "sdo_env \<Rightarrow> node \<Rightarrow> node" where
  "before_boot E nd = set_suspended True True ((cancel_node E nd)\<lparr>client := None\<rparr>)"

definition on_nmt_state :: "sdo_env \<Rightarrow> u8 \<Rightarrow> node \<Rightarrow> node" where
  "on_nmt_state E st nd =
     (if st = CO_NMT_ST_BOOTUP
      then (if en_nmt E \<noteq> None \<and> en_booting E then set_suspended True True nd else set_suspended False False nd)
      else if st = CO_NMT_ST_STOP then (cancel_node E nd)\<lparr>suspended := True\<rparr>
      else if st = CO_NMT_ST_PREOP \<or> st = CO_NMT_ST_START
      then (if \<not> reset_pending nd then set_suspended False False nd else nd)
      else nd)"

definition on_nmt_command :: "nmt_command \<Rightarrow> node \<Rightarrow> node" where
  "on_nmt_command c nd = (case c of
       COMMAND_STOP \<Rightarrow> nd\<lparr>suspended := True\<rparr>
     | COMMAND_RESET_NODE \<Rightarrow> set_suspended True True nd
     | COMMAND_RESET_COMM \<Rightarrow> set_suspended True True nd
     | COMMAND_START \<Rightarrow> (if \<not> reset_pending nd then nd\<lparr>suspended := False\<rparr> else nd)
     | COMMAND_PREOP \<Rightarrow> (if \<not> reset_pending nd then nd\<lparr>suspended := False\<rparr> else nd))"

definition on_boot_complete :: "u8 \<Rightarrow> node \<Rightarrow> node" where
  "on_boot_complete st nd = set_suspended (st \<noteq> CO_NMT_ST_PREOP \<and> st \<noteq> CO_NMT_ST_START) False nd"

definition sdo_fini :: "sdo_env \<Rightarrow> node \<Rightarrow> node" where
  "sdo_fini E nd = (cancel_node E nd)\<lparr>client := None, active := None, pending := [], suspended := False,
     reset_pending := False, stop_pending := False\<rparr>"

section \<open>The tables\<close>

text \<open>Operations addressed to a node, where node 0 stands for every node.\<close>

definition for_nodes :: "u8 \<Rightarrow> (node \<Rightarrow> node) \<Rightarrow> (u8 \<Rightarrow> node) \<Rightarrow> u8 \<Rightarrow> node" where
  "for_nodes target f tbl = (if target > 127 then tbl
     else (\<lambda>i. if (if target = 0 then 1 \<le> i \<and> i \<le> 127 else i = target) then f (tbl i) else tbl i))"

definition lely_rtt_master_sdo_cancel_node :: "(u8 \<Rightarrow> sdo_env) \<Rightarrow> u8 \<Rightarrow> (u8 \<Rightarrow> node) \<Rightarrow> u8 \<Rightarrow> node" where
  "lely_rtt_master_sdo_cancel_node E target tbl i = for_nodes target (cancel_node (E i)) tbl i"

definition lely_rtt_master_sdo_on_nmt_command :: "u8 \<Rightarrow> nmt_command \<Rightarrow> (u8 \<Rightarrow> node) \<Rightarrow> u8 \<Rightarrow> node" where
  "lely_rtt_master_sdo_on_nmt_command target c tbl = for_nodes target (on_nmt_command c) tbl"

section \<open>Where the requests are\<close>

text \<open>Every request of the node, the active one first.\<close>

definition held :: "node \<Rightarrow> req list" where
  "held nd = (case active nd of None \<Rightarrow> [] | Some r \<Rightarrow> [r]) @ pending nd"

text \<open>The requests in the order in which the node served and will serve them.\<close>

definition order :: "node \<Rightarrow> u32 list" where
  "order nd = map (rq_id \<circ> fst) (finished nd) @ map rq_id (held nd)"

definition held_ids :: "node \<Rightarrow> u32 multiset" where
  "held_ids nd = (case active nd of None \<Rightarrow> {#} | Some r \<Rightarrow> {#rq_id r#}) + mset (map rq_id (pending nd))"

definition done_ids :: "node \<Rightarrow> u32 multiset" where
  "done_ids nd = mset (map (rq_id \<circ> fst) (finished nd))"

definition all_ids :: "node \<Rightarrow> u32 multiset" where
  "all_ids nd = held_ids nd + done_ids nd"

definition pending_state :: "sdo_state \<Rightarrow> bool" where
  "pending_state s \<longleftrightarrow> s = PENDING \<or> s = PENDING_CANCEL_PINNED \<or> s = CANCEL_PENDING"

definition active_state :: "sdo_state \<Rightarrow> bool" where
  "active_state s \<longleftrightarrow> s = ACTIVE \<or> s = ACTIVE_CANCEL_PINNED"

definition node_inv :: "node \<Rightarrow> bool" where
  "node_inv nd \<longleftrightarrow> (reset_pending nd \<longrightarrow> suspended nd) \<and> length (pending nd) \<le> QUEUE_DEPTH
     \<and> (client nd = Some Csdo_busy \<longrightarrow> active nd \<noteq> None \<and> uses_predefined nd)
     \<and> (\<forall>r \<in> set (pending nd). pending_state (rq_state r))
     \<and> (\<forall>r. active nd = Some r \<longrightarrow> active_state (rq_state r))"

lemma complete_simps [simp]:
  "active (complete r res nd) = active nd" "pending (complete r res nd) = pending nd"
  "client (complete r res nd) = client nd" "channel (complete r res nd) = channel nd"
  "suspended (complete r res nd) = suspended nd" "reset_pending (complete r res nd) = reset_pending nd"
  "stop_pending (complete r res nd) = stop_pending nd" "node_id (complete r res nd) = node_id nd"
  by (simp_all add: complete_def)

text \<open>What the completion of a request leaves in the log of completions.\<close>

definition completed :: "req \<Rightarrow> req" where
  "completed r = r\<lparr>rq_state := if pinned_state (rq_state r) then staged_of (rq_state r) else DONE\<rparr>"

lemma complete_finished:
  "\<not> terminal (rq_state r) \<Longrightarrow> finished (complete r res nd) = finished nd @ [(completed r, res)]"
  by (simp add: complete_def completed_def)

lemma completed_id [simp]: "rq_id (completed r) = rq_id r"
  by (simp add: completed_def)

lemma complete_done: "\<not> terminal (rq_state r) \<Longrightarrow> done_ids (complete r res nd) = add_mset (rq_id r) (done_ids nd)"
  by (simp add: complete_def done_ids_def)

lemma held_complete [simp]: "held_ids (complete r res nd) = held_ids nd"
  by (simp add: held_ids_def)

lemma not_terminal: "pending_state s \<Longrightarrow> \<not> terminal s" "active_state s \<Longrightarrow> \<not> terminal s"
  by (auto simp: pending_state_def active_state_def)

lemma uses_predefined_simps [simp]:
  "uses_predefined (nd\<lparr>client := c\<rparr>) = uses_predefined nd" "uses_predefined (nd\<lparr>active := a\<rparr>) = uses_predefined nd"
  "uses_predefined (nd\<lparr>stop_pending := b\<rparr>) = uses_predefined nd"
  "uses_predefined (nd\<lparr>pending := p\<rparr>) = uses_predefined nd"
  "uses_predefined (complete r res nd) = uses_predefined nd"
  by (simp_all add: uses_predefined_def)

text \<open>A confirmation ends the active request.\<close>

lemma confirm_ends:
  fixes E :: sdo_env and ac :: u32
  assumes "active nd = Some r" "\<not> terminal (rq_state r)"
  defines "nd' \<equiv> confirm E ac nd"
  shows "active nd' = None" "pending nd' = pending nd" "order nd' = order nd"
    "suspended nd' = suspended nd" "reset_pending nd' = reset_pending nd" "channel nd' = channel nd"
    "client nd' = (if uses_predefined nd then map_option (\<lambda>_. Csdo_wait) (client nd) else client nd)"
  using assms
  by (cases "rq_operation r"; auto simp: confirm_def up_con_def dn_con_def finish_protocol_def Let_def
      order_def held_def complete_def)+

lemma all_ids_order: "all_ids nd = mset (order nd)"
  by (simp add: all_ids_def held_ids_def done_ids_def order_def held_def split: option.split)

lemma confirm_predefined:
  "active nd = Some r \<Longrightarrow> \<not> terminal (rq_state r) \<Longrightarrow> uses_predefined (confirm E ac nd) = uses_predefined nd"
  using confirm_ends(6) by (simp add: uses_predefined_def)

lemma has_room_iff: "n < QUEUE_DEPTH \<Longrightarrow> has_room n rs \<longleftrightarrow> n + length rs < QUEUE_DEPTH"
  by (induction rs arbitrary: n) auto

lemma depth_pos: "0 < QUEUE_DEPTH" by (simp add: QUEUE_DEPTH_def)

lemma get_client_frame:
  assumes "get_client E cr nd = (c, nd1)"
  shows "active nd1 = active nd" "pending nd1 = pending nd" "finished nd1 = finished nd"
    "suspended nd1 = suspended nd" "reset_pending nd1 = reset_pending nd" "channel nd1 = channel nd"
    "client nd1 = client nd \<or> client nd1 = Some Csdo_stopped"
    "uses_predefined nd \<Longrightarrow> c = client nd1 \<or> c = None"
    "uses_predefined nd1 = uses_predefined nd" "uses_predefined nd \<or> client nd1 = client nd"
  using assms by (auto simp: get_client_def split: if_splits)

text \<open>
  Starting a request accounts for it: it is active, or it has been completed. A transfer under way in
  the client belongs to it.
\<close>

definition accounts :: "req \<Rightarrow> node \<Rightarrow> node \<Rightarrow> bool" where
  "accounts r nd nd' \<longleftrightarrow>
     order nd' = map (rq_id \<circ> fst) (finished nd) @ rq_id r # map rq_id (pending nd) \<and> pending nd' = pending nd
     \<and> suspended nd' = suspended nd \<and> reset_pending nd' = reset_pending nd
     \<and> (client nd' = Some Csdo_busy \<longrightarrow> active nd' \<noteq> None) \<and> (active nd' = None \<or> active nd' = Some r)
     \<and> uses_predefined nd' = uses_predefined nd \<and> (uses_predefined nd \<or> client nd' = client nd)"

definition node_idle :: "node \<Rightarrow> bool" where
  "node_idle nd \<longleftrightarrow> active nd = None \<and> client nd \<noteq> Some Csdo_busy"

lemma complete_accounts:
  assumes "node_idle nd1" "pending nd1 = pending nd" "finished nd1 = finished nd"
    "suspended nd1 = suspended nd" "reset_pending nd1 = reset_pending nd" "active nd = None"
    "uses_predefined nd1 = uses_predefined nd" "uses_predefined nd \<or> client nd1 = client nd"
    "\<not> terminal (rq_state r)"
  shows "accounts r nd (complete r res nd1)"
  using assms
  by (simp add: accounts_def order_def held_def node_idle_def complete_finished)

lemma start_transfer_accounts:
  assumes idle: "node_idle nd" and nt: "\<not> terminal (rq_state r)"
  shows "accounts r nd (start_transfer E r nd)"
proof (cases "fst (en_req E (rq_id r))")
  case (Some ac)
  have "active (nd\<lparr>active := Some r\<rparr>) = Some r" by simp
  note con = confirm_ends [OF this nt, of E ac]
  have "order (nd\<lparr>active := Some r\<rparr>) = map (rq_id \<circ> fst) (finished nd) @ rq_id r # map rq_id (pending nd)"
    by (simp add: order_def held_def)
  then show ?thesis
    using Some con confirm_predefined [of "nd\<lparr>active := Some r\<rparr>" r E ac] nt idle
    by (auto simp: start_transfer_def accounts_def node_idle_def Let_def split: if_splits)
next
  case None
  have "accounts r nd (complete r res (nd\<lparr>active := None, stop_pending := b\<rparr>))" for res b
    by (rule complete_accounts) (use idle nt in \<open>simp_all add: node_idle_def\<close>)
  moreover have "accounts r nd (nd\<lparr>active := Some r, client := c\<rparr>)" if "uses_predefined nd" for c
    using idle that by (simp add: accounts_def order_def held_def node_idle_def)
  moreover have "accounts r nd (nd\<lparr>active := Some r\<rparr>)"
    using idle by (simp add: accounts_def order_def held_def node_idle_def)
  ultimately show ?thesis using None by (simp add: start_transfer_def Let_def)
qed

lemma start_active_accounts:
  assumes idle: "node_idle nd" and st: "active_state (rq_state r)"
  shows "accounts r nd (start_active E r nd)"
proof -
  have nt: "\<not> terminal (rq_state r)" using not_terminal st by blast
  obtain c nd1 where gc: "get_client E True nd = (c, nd1)" by fastforce
  note g = get_client_frame [OF gc]
  have idle1: "node_idle nd1" using idle g by (auto simp: node_idle_def)
  have busy: "c \<noteq> Some Csdo_busy" if "uses_predefined nd" using idle1 g(8) that by (auto simp: node_idle_def)
  have fail: "accounts r nd (complete r res nd)" "accounts r nd (complete r res nd1)" for res
    by (rule complete_accounts; use idle idle1 g nt in \<open>simp add: node_idle_def\<close>)+
  have trans: "accounts r nd (start_transfer E r ndx)"
    if "uses_predefined nd" "ndx = nd1 \<or> ndx = nd1\<lparr>client := Some Csdo_wait, stop_pending := False\<rparr>" for ndx
  proof -
    have "node_idle ndx" using that idle1 by (auto simp: node_idle_def)
    moreover have "finished ndx = finished nd" "pending ndx = pending nd" "suspended ndx = suspended nd"
      "reset_pending ndx = reset_pending nd" "uses_predefined ndx = uses_predefined nd" using that g by auto
    ultimately show ?thesis using start_transfer_accounts [OF _ nt] that(1) by (auto simp: accounts_def)
  qed
  show ?thesis
  proof (cases "uses_predefined nd")
    case True
    with gc busy show ?thesis
      by (cases c; cases "the c") (simp_all add: start_active_def fail trans Let_def)
  next
    case False
    have "accounts r nd (start_transfer E r nd)" by (rule start_transfer_accounts [OF idle nt])
    then show ?thesis
      using False fail(1) by (simp add: start_active_def Let_def split: sum.split prod.split)
  qed
qed

lemma claim_cases:
  assumes "rq_state r = QUEUED \<or> rq_state r = CANCEL_PENDING"
  obtains "claim r s nd = (Some (r\<lparr>rq_state := s\<rparr>), nd)" "rq_state r = QUEUED"
  | "claim r s nd = (None, cancelled CO_SDO_AC_NO_SDO r nd)" "rq_state r = CANCEL_PENDING"
  using assms by (auto simp: claim_def cancelled_def)


definition no_sdo :: sdo_result where
  "no_sdo = completion COMPLETION_CANCELED RT_EOK CO_SDO_AC_NO_SDO"

text \<open>Cancelling the active request, the shared part of the two operations that abort a transfer.\<close>

definition abort_active :: "sdo_env \<Rightarrow> req \<Rightarrow> node \<Rightarrow> node" where
  "abort_active E r nd = abort_client E (nd\<lparr>active := Some (r\<lparr>rq_cancel := True\<rparr>)\<rparr>)"

lemma no_sdo_nonzero: "CO_SDO_AC_NO_SDO \<noteq> 0" by (simp add: CO_SDO_AC_NO_SDO_def)

lemma confirm_cancelled:
  assumes "active nd = Some r" "\<not> terminal (rq_state r)" "rq_cancel r"
  shows "finished (confirm E CO_SDO_AC_NO_SDO nd) = finished nd @ [(completed r, no_sdo)]"
  using assms no_sdo_nonzero
  by (cases "rq_operation r") (auto simp: confirm_def up_con_def dn_con_def finish_protocol_def Let_def
      complete_finished no_sdo_def)

lemma abort_active_cases:
  assumes "\<not> terminal (rq_state r)"
  obtains
    (ended) "active (abort_active E r nd) = None"
      "finished (abort_active E r nd) = finished nd @ [(completed (r\<lparr>rq_cancel := True\<rparr>), no_sdo)]"
      "client (abort_active E r nd) \<noteq> Some Csdo_busy \<or> client (abort_active E r nd) = client nd \<and> \<not> uses_predefined nd"
      "pending (abort_active E r nd) = pending nd" "suspended (abort_active E r nd) = suspended nd"
      "reset_pending (abort_active E r nd) = reset_pending nd"
      "uses_predefined (abort_active E r nd) = uses_predefined nd"
  | (kept) "abort_active E r nd = nd\<lparr>active := Some (r\<lparr>rq_cancel := True\<rparr>)\<rparr>"
      "uses_predefined nd \<Longrightarrow> en_nmt E \<noteq> None \<and> en_net E \<Longrightarrow> client nd \<noteq> Some Csdo_busy"
proof -
  let ?r = "r\<lparr>rq_cancel := True\<rparr>" and ?nd = "nd\<lparr>active := Some (r\<lparr>rq_cancel := True\<rparr>)\<rparr>"
  have a: "active ?nd = Some ?r" "\<not> terminal (rq_state ?r)" "rq_cancel ?r" using assms by simp_all
  show thesis
  proof (cases "fst (get_client E False ?nd) = Some Csdo_busy")
    case True
    then have "abort_active E r nd = confirm E CO_SDO_AC_NO_SDO ?nd" by (simp add: abort_active_def abort_client_def)
    then show thesis using ended confirm_ends [OF a(1,2), of E CO_SDO_AC_NO_SDO] confirm_cancelled [OF a, of E]
      by (auto simp: uses_predefined_def)
  next
    case False
    then have "abort_active E r nd = ?nd"
      by (auto simp: abort_active_def abort_client_def split: option.split csdo.split)
    moreover have "client nd \<noteq> Some Csdo_busy" if "uses_predefined nd" "en_nmt E \<noteq> None \<and> en_net E"
      using False that by (simp add: get_client_def split: if_splits)
    ultimately show thesis using kept by blast
  qed
qed


text \<open>
  The runtime destroys the clients before the NMT service and the network, so a client implies both.
\<close>

definition env_ok :: "sdo_env \<Rightarrow> node \<Rightarrow> bool" where
  "env_ok E nd \<longleftrightarrow> (client nd \<noteq> None \<longrightarrow> en_nmt E \<noteq> None \<and> en_net E)"

lemma all_ids_active:
  "active nd = Some r \<Longrightarrow> all_ids nd = add_mset (rq_id r) (mset (map rq_id (pending nd)) + done_ids nd)"
  "active nd = None \<Longrightarrow> all_ids nd = mset (map rq_id (pending nd)) + done_ids nd"
  by (simp_all add: all_ids_def held_ids_def)

lemma inv_parts:
  assumes "node_inv nd"
  shows "active nd = Some r \<Longrightarrow> \<not> terminal (rq_state r)" "r \<in> set (pending nd) \<Longrightarrow> \<not> terminal (rq_state r)"
    "active nd = None \<Longrightarrow> node_idle nd"
  using assms by (auto simp: node_inv_def node_idle_def active_state_def pending_state_def)

lemma cancelled_finished:
  "\<not> terminal (rq_state r) \<Longrightarrow>
     finished (cancelled CO_SDO_AC_NO_SDO r nd) = finished nd @ [(completed (r\<lparr>rq_cancel := True\<rparr>), no_sdo)]"
  by (simp add: cancelled_def complete_finished no_sdo_def)

lemma cancelled_simps [simp]:
  "active (cancelled ac r nd) = active nd" "pending (cancelled ac r nd) = pending nd"
  "client (cancelled ac r nd) = client nd" "channel (cancelled ac r nd) = channel nd"
  "suspended (cancelled ac r nd) = suspended nd" "reset_pending (cancelled ac r nd) = reset_pending nd"
  "stop_pending (cancelled ac r nd) = stop_pending nd" "uses_predefined (cancelled ac r nd) = uses_predefined nd"
  by (simp_all add: cancelled_def)

lemma cancelled_done:
  "\<not> terminal (rq_state r) \<Longrightarrow> done_ids (cancelled ac r nd) = add_mset (rq_id r) (done_ids nd)"
  by (simp add: cancelled_def complete_done)

lemma fold_cancelled:
  assumes "\<forall>r \<in> set rs. \<not> terminal (rq_state r)"
  shows "finished (fold (cancelled CO_SDO_AC_NO_SDO) rs nd)
      = finished nd @ map (\<lambda>r. (completed (r\<lparr>rq_cancel := True\<rparr>), no_sdo)) rs"
    "active (fold (cancelled CO_SDO_AC_NO_SDO) rs nd) = active nd"
    "pending (fold (cancelled CO_SDO_AC_NO_SDO) rs nd) = pending nd"
    "client (fold (cancelled CO_SDO_AC_NO_SDO) rs nd) = client nd"
    "suspended (fold (cancelled CO_SDO_AC_NO_SDO) rs nd) = suspended nd"
    "reset_pending (fold (cancelled CO_SDO_AC_NO_SDO) rs nd) = reset_pending nd"
    "uses_predefined (fold (cancelled CO_SDO_AC_NO_SDO) rs nd) = uses_predefined nd"
  using assms by (induction rs arbitrary: nd) (simp_all add: cancelled_finished)

definition cancel_first :: "sdo_env \<Rightarrow> node \<Rightarrow> node" where
  "cancel_first E nd = (case active nd of None \<Rightarrow> nd
     | Some r \<Rightarrow>
         let nd1 = abort_active E r nd
         in if active nd1 = Some (r\<lparr>rq_cancel := True\<rparr>)
            then complete (r\<lparr>rq_cancel := True\<rparr>) no_sdo (nd1\<lparr>active := None\<rparr>) else nd1)"

lemma cancel_first_result:
  assumes inv: "node_inv nd"
  shows "active (cancel_first E nd) = None \<and> pending (cancel_first E nd) = pending nd
    \<and> suspended (cancel_first E nd) = suspended nd \<and> reset_pending (cancel_first E nd) = reset_pending nd
    \<and> uses_predefined (cancel_first E nd) = uses_predefined nd
    \<and> (\<not> uses_predefined nd \<longrightarrow> client (cancel_first E nd) \<noteq> Some Csdo_busy)
    \<and> finished (cancel_first E nd) = finished nd
       @ map (\<lambda>r. (completed (r\<lparr>rq_cancel := True\<rparr>), no_sdo)) (case active nd of None \<Rightarrow> [] | Some r \<Rightarrow> [r])"
proof (cases "active nd")
  case None
  then show ?thesis using inv by (simp add: cancel_first_def node_inv_def)
next
  case (Some r)
  have nt: "\<not> terminal (rq_state r)" using inv Some by (rule inv_parts)
  have "\<not> uses_predefined nd \<longrightarrow> client nd \<noteq> Some Csdo_busy" using inv by (auto simp: node_inv_def)
  then show ?thesis
    using nt Some by (cases rule: abort_active_cases [of r E nd, OF nt])
      (auto simp: cancel_first_def Let_def complete_finished)
qed

lemma cancel_node_unfold:
  "cancel_node E nd =
     (let nd1 = cancel_first E nd;
          nd2 = fold (cancelled CO_SDO_AC_NO_SDO) (pending nd1) (nd1\<lparr>pending := []\<rparr>);
          nd3 = (if uses_predefined nd2 then nd2\<lparr>client := map_option (\<lambda>_. Csdo_stopped) (client nd2)\<rparr> else nd2)
      in nd3\<lparr>stop_pending := False\<rparr>)"
  by (simp only: cancel_node_def cancel_first_def abort_active_def no_sdo_def Let_def)

lemma cancel_node_result:
  assumes inv: "node_inv nd"
  shows "active (cancel_node E nd) = None \<and> pending (cancel_node E nd) = [] \<and> \<not> stop_pending (cancel_node E nd)
    \<and> suspended (cancel_node E nd) = suspended nd \<and> reset_pending (cancel_node E nd) = reset_pending nd
    \<and> uses_predefined (cancel_node E nd) = uses_predefined nd
    \<and> client (cancel_node E nd) \<noteq> Some Csdo_busy
    \<and> (uses_predefined nd \<longrightarrow> client (cancel_node E nd) = None \<or> client (cancel_node E nd) = Some Csdo_stopped)
    \<and> finished (cancel_node E nd) = finished nd @ map (\<lambda>r. (completed (r\<lparr>rq_cancel := True\<rparr>), no_sdo)) (held nd)"
proof -
  note c = cancel_first_result [OF inv, of E]
  have "\<forall>r \<in> set (pending (cancel_first E nd)). \<not> terminal (rq_state r)"
    using c inv_parts(2) [OF inv] by simp
  note f = fold_cancelled [OF this, of "cancel_first E nd\<lparr>pending := []\<rparr>"]
  show ?thesis
    using c f by (cases "client (cancel_first E nd)") (simp_all add: cancel_node_unfold Let_def held_def)
qed

section \<open>Every operation keeps the invariant and accounts for every request\<close>

definition sound :: "u32 multiset \<Rightarrow> node \<Rightarrow> node \<Rightarrow> bool" where
  "sound M nd nd' \<longleftrightarrow> node_inv nd' \<and> all_ids nd' = M + all_ids nd"

lemma map_fst_completed: "map (rq_id \<circ> fst) (map (\<lambda>r. (completed (r\<lparr>rq_cancel := True\<rparr>), no_sdo)) rs) = map rq_id rs"
  by simp

lemma all_ids_held: "all_ids nd = mset (map rq_id (held nd)) + done_ids nd"
  by (simp add: all_ids_def held_ids_def held_def split: option.split)

lemma cancel_node_inv: "node_inv nd \<Longrightarrow> node_inv (cancel_node E nd)"
  using cancel_node_result [of nd E] by (simp add: node_inv_def)

lemma cancel_node_sound: "node_inv nd \<Longrightarrow> sound {#} nd (cancel_node E nd)"
  using cancel_node_result [of nd E] cancel_node_inv [of nd E]
  by (simp add: sound_def all_ids_held held_def [of "cancel_node E nd"] done_ids_def multiset.map_comp comp_def)

lemma accounts_sound:
  assumes "node_inv nd" "accounts r nd nd'" "active_state (rq_state r)" "active nd = None"
  shows "sound {#rq_id r#} nd nd'"
proof -
  have "all_ids nd' = {#rq_id r#} + all_ids nd"
    using assms(2,4) by (simp add: accounts_def all_ids_order) (simp add: order_def held_def)
  moreover have "node_inv nd'" using assms by (auto simp: node_inv_def accounts_def)
  ultimately show ?thesis by (simp add: sound_def)
qed

lemma complete_sound:
  assumes "node_inv nd" "\<not> terminal (rq_state r)"
  shows "sound {#rq_id r#} nd (complete r res nd)"
  using assms by (simp add: sound_def node_inv_def all_ids_def complete_done)

lemma cancelled_sound:
  "node_inv nd \<Longrightarrow> \<not> terminal (rq_state r) \<Longrightarrow> sound {#rq_id r#} nd (cancelled ac r nd)"
  unfolding cancelled_def using complete_sound [of nd "r\<lparr>rq_cancel := True\<rparr>"] by simp

lemma sound_trans: "sound M nd nd' \<Longrightarrow> sound N nd' nd'' \<Longrightarrow> sound (N + M) nd nd''"
  by (simp add: sound_def)

definition fresh :: "req \<Rightarrow> bool" where
  "fresh r \<longleftrightarrow> rq_state r = QUEUED \<or> rq_state r = CANCEL_PENDING"

lemma refuse_sound: "node_inv nd \<Longrightarrow> fresh r \<Longrightarrow> sound {#rq_id r#} nd (refuse r nd)"
  using complete_sound [of nd "r\<lparr>rq_state := ACTIVE\<rparr>"] complete_sound [of nd "r\<lparr>rq_cancel := True\<rparr>"]
  by (auto simp: fresh_def refuse_def claim_def)

lemma pending_append_sound:
  assumes inv: "node_inv nd" and fresh: "fresh r" and app: "pending_append r nd = (True, nd')"
  shows "sound {#rq_id r#} nd nd'"
proof (cases "rq_state r = QUEUED")
  case True
  with app have "length (pending nd) < QUEUE_DEPTH" "nd' = nd\<lparr>pending := pending nd @ [r\<lparr>rq_state := PENDING\<rparr>]\<rparr>"
    using has_room_iff [of 0, OF depth_pos] by (auto simp: pending_append_def claim_def split: if_splits)
  with inv show ?thesis
    by (auto simp: sound_def node_inv_def pending_state_def all_ids_def held_ids_def done_ids_def)
next
  case False
  with app fresh have "nd' = cancelled CO_SDO_AC_NO_SDO r nd" "\<not> terminal (rq_state r)"
    by (auto simp: pending_append_def claim_def cancelled_def fresh_def split: if_splits)
  then show ?thesis using cancelled_sound [OF inv] by simp
qed

lemma dispatch_sound:
  assumes inv: "node_inv nd" and fresh: "fresh r"
  shows "sound {#rq_id r#} nd (dispatch E r nd)"
proof -
  obtain ok nd1 where app: "pending_append r nd = (ok, nd1)" by fastforce
  then have keep: "nd1 = nd" if "\<not> ok" using that by (auto simp: pending_append_def split: if_splits prod.splits option.splits)
  have start: "sound {#rq_id r#} nd (start_active E (r\<lparr>rq_state := ACTIVE\<rparr>) nd)" if "active nd = None"
    using accounts_sound [OF inv start_active_accounts [OF inv_parts(3) [OF inv that]], of "r\<lparr>rq_state := ACTIVE\<rparr>" E] that
    by (simp add: active_state_def)
  have cancel: "sound {#rq_id r#} nd (complete (r\<lparr>rq_cancel := True\<rparr>) res nd)" if "rq_state r = CANCEL_PENDING" for res
    using complete_sound [OF inv, of "r\<lparr>rq_cancel := True\<rparr>"] that by simp
  show ?thesis
    using refuse_sound [OF inv fresh] pending_append_sound [OF inv fresh] app keep start cancel fresh
    by (cases ok) (auto simp: dispatch_def claim_def fresh_def)
qed

lemma take_pending_split:
  "take_pending i rs = (Some r, rest) \<Longrightarrow> \<exists>xs ys. rs = xs @ r # ys \<and> rest = xs @ ys \<and> rq_id r = i"
proof (induction rs arbitrary: rest)
  case (Cons a rs)
  show ?case
  proof (cases "rq_id a = i")
    case True
    with Cons.prems show ?thesis by (intro exI [of _ "[]"] exI [of _ rest]) auto
  next
    case False
    with Cons.prems obtain rest' where "take_pending i rs = (Some r, rest')" "rest = a # rest'"
      by (auto split: prod.splits)
    then show ?thesis using Cons.IH [of rest'] by (metis append_Cons)
  qed
qed simp

text \<open>A pending request may leave the queue for the log of completions.\<close>

lemma unqueue_cancelled_sound:
  assumes inv: "node_inv nd" and p: "pending nd = xs @ r # ys"
  shows "sound {#} nd (cancelled ac r (nd\<lparr>pending := xs @ ys\<rparr>))"
proof -
  have "\<not> terminal (rq_state r)" using inv_parts(2) [OF inv] p by simp
  then have "all_ids (cancelled ac r (nd\<lparr>pending := xs @ ys\<rparr>)) = all_ids nd"
    using p by (simp add: all_ids_held held_def cancelled_done) (simp add: done_ids_def)
  moreover have "node_inv (cancelled ac r (nd\<lparr>pending := xs @ ys\<rparr>))"
    using inv p by (simp add: node_inv_def)
  ultimately show ?thesis by (simp add: sound_def)
qed

lemma cancel_pending_sound: "node_inv nd \<Longrightarrow> sound {#} nd (cancel_pending i nd)"
proof (cases "take_pending i (pending nd)")
  case (Pair f rest)
  assume inv: "node_inv nd"
  show ?thesis
  proof (cases f)
    case None
    with Pair inv show ?thesis by (simp add: cancel_pending_def sound_def)
  next
    case (Some r)
    with Pair take_pending_split [of i "pending nd" r rest] unqueue_cancelled_sound [OF inv] show ?thesis
      by (auto simp: cancel_pending_def)
  qed
qed

lemma cancel_dispatch_sound:
  assumes inv: "node_inv nd" and env: "env_ok E nd"
  shows "sound {#} nd (cancel_dispatch E i nd)"
proof (cases "\<exists>r. active nd = Some r \<and> rq_id r = i")
  case False
  then have "cancel_dispatch E i nd = cancel_pending i nd"
    by (auto simp: cancel_dispatch_def split: option.split)
  then show ?thesis using cancel_pending_sound [OF inv] by simp
next
  case True
  then obtain r where r: "active nd = Some r" "rq_id r = i" by blast
  have nt: "\<not> terminal (rq_state r)" using inv r(1) by (rule inv_parts)
  let ?nd = "abort_active E r nd"
  let ?f = "\<lambda>n. n\<lparr>active := None, stop_pending := (if uses_predefined n then True else stop_pending n)\<rparr>"
  have unfold: "cancel_dispatch E i nd = (if active ?nd = Some (r\<lparr>rq_cancel := True\<rparr>)
     then complete (r\<lparr>rq_cancel := True\<rparr>) no_sdo (?f ?nd) else ?nd)"
    using r by (simp add: cancel_dispatch_def abort_active_def no_sdo_def Let_def)
  show ?thesis
    using nt
  proof (cases rule: abort_active_cases [where E = E and nd = nd])
    case ended
    then have "all_ids ?nd = all_ids nd" using r by (simp add: all_ids_active done_ids_def)
    then show ?thesis using ended inv r unfold by (auto simp: sound_def node_inv_def)
  next
    case kept
    then have "client nd \<noteq> Some Csdo_busy" using env inv by (auto simp: env_ok_def node_inv_def)
    moreover have "all_ids (cancel_dispatch E i nd) = all_ids nd"
      using kept nt r unfold by (simp add: all_ids_active complete_done) (simp add: done_ids_def)
    ultimately show ?thesis using kept inv unfold by (simp add: sound_def node_inv_def)
  qed
qed

lemma cancel_queued_sound: "node_inv nd \<Longrightarrow> fresh r \<Longrightarrow> sound {#rq_id r#} nd (cancel_queued r nd)"
  using cancelled_sound [of nd r] cancelled_sound [of nd "r\<lparr>rq_state := TEARDOWN_PENDING\<rparr>"]
  by (auto simp: cancel_queued_def fresh_def)

lemma start_pending_sound:
  assumes inv: "node_inv nd"
  shows "sound {#} nd (snd (start_pending E nd))"
proof (cases "\<not> node_available E nd \<or> active nd \<noteq> None \<or> pending nd = []")
  case True
  then show ?thesis using inv by (auto simp: start_pending_def sound_def split: list.split)
next
  case False
  then obtain r rs where p: "pending nd = r # rs" by (cases "pending nd") auto
  let ?nd = "nd\<lparr>pending := rs\<rparr>"
  have inv': "node_inv ?nd" using inv p by (simp add: node_inv_def)
  have "sound {#rq_id r#} ?nd (start_active E (r\<lparr>rq_state := ACTIVE\<rparr>) ?nd)"
    using accounts_sound [OF inv' start_active_accounts [OF inv_parts(3) [OF inv']], of "r\<lparr>rq_state := ACTIVE\<rparr>" E] False
    by (simp add: active_state_def)
  moreover have "{#rq_id r#} + all_ids ?nd = all_ids nd" using p by (simp add: all_ids_def held_ids_def done_ids_def)
  ultimately have "sound {#} nd (start_active E (r\<lparr>rq_state := ACTIVE\<rparr>) ?nd)" by (simp add: sound_def)
  moreover have "sound {#} nd (cancelled CO_SDO_AC_NO_SDO r ?nd)" using unqueue_cancelled_sound [OF inv, of "[]"] p by simp
  ultimately show ?thesis using p False inv by (auto simp: start_pending_def sound_def Let_def)
qed

lemma reap_client_sound: "node_inv nd \<Longrightarrow> sound {#} nd (reap_client nd)"
  by (auto simp: reap_client_def sound_def node_inv_def all_ids_def held_ids_def done_ids_def Let_def split: option.split)

section \<open>The owner's pass over a node\<close>

lemma reap_client_frame [simp]:
  "active (reap_client nd) = active nd" "pending (reap_client nd) = pending nd" "order (reap_client nd) = order nd"
  "suspended (reap_client nd) = suspended nd"
  by (auto simp: reap_client_def order_def held_def Let_def split: option.split)

lemma reap_client_stopped: "client nd \<noteq> Some Csdo_busy \<Longrightarrow> \<not> stop_pending (reap_client nd)"
  by (cases "client nd"; cases "the (client nd)") (auto simp: reap_client_def)

lemma start_pending_order:
  assumes inv: "node_inv nd"
  shows "order (snd (start_pending E nd)) = order nd"
proof (cases "\<not> node_available E nd \<or> active nd \<noteq> None \<or> pending nd = []")
  case True
  then show ?thesis by (auto simp: start_pending_def split: list.split)
next
  case False
  then obtain r rs where p: "pending nd = r # rs" by (cases "pending nd") auto
  let ?nd = "nd\<lparr>pending := rs\<rparr>"
  have "node_idle ?nd" using inv_parts(3) [OF inv] False by (simp add: node_idle_def)
  from start_active_accounts [OF this, of "r\<lparr>rq_state := ACTIVE\<rparr>" E]
  have "order (start_active E (r\<lparr>rq_state := ACTIVE\<rparr>) ?nd) = order nd"
    using False p by (simp add: accounts_def active_state_def order_def [of nd] held_def)
  moreover have "order (cancelled CO_SDO_AC_NO_SDO r ?nd) = order nd"
    using False p inv_parts(2) [OF inv, of r] by (simp add: order_def held_def cancelled_finished)
  ultimately show ?thesis using p False by (auto simp: start_pending_def Let_def)
qed

lemma start_pending_again:
  assumes inv: "node_inv nd" and again: "start_pending E nd = (True, nd')"
  shows "active nd' = None" "length (pending nd) = Suc (length (pending nd'))" "suspended nd' = suspended nd"
    "\<exists>r rs. pending nd = r # rs \<and> pending nd' = rs"
proof -
  from again obtain r rs where p: "pending nd = r # rs" "active nd = None"
    and nd': "nd' = start_active E (r\<lparr>rq_state := ACTIVE\<rparr>) (nd\<lparr>pending := rs\<rparr>)" "active nd' = None"
    by (auto simp: start_pending_def Let_def split: if_splits list.splits)
  have "node_idle (nd\<lparr>pending := rs\<rparr>)" using inv_parts(3) [OF inv] p(2) by (simp add: node_idle_def)
  from start_active_accounts [OF this, of "r\<lparr>rq_state := ACTIVE\<rparr>" E]
  have "accounts (r\<lparr>rq_state := ACTIVE\<rparr>) (nd\<lparr>pending := rs\<rparr>) nd'" using nd'(1) by (simp add: active_state_def)
  then show "active nd' = None" "length (pending nd) = Suc (length (pending nd'))" "suspended nd' = suspended nd"
    "\<exists>r rs. pending nd = r # rs \<and> pending nd' = rs" using p nd'(2) by (simp_all add: accounts_def)
qed

lemma reap_loop_sound:
  assumes "node_inv nd" "length (pending nd) < fuel"
  shows "\<exists>nd'. reap_loop fuel E nd = Some nd' \<and> node_inv nd' \<and> order nd' = order nd"
  using assms
proof (induction fuel arbitrary: nd)
  case (Suc fuel)
  let ?nd1 = "reap_client nd"
  have inv1: "node_inv ?nd1" using reap_client_sound [OF Suc.prems(1)] by (simp add: sound_def)
  obtain again nd2 where sp: "start_pending E ?nd1 = (again, nd2)" by fastforce
  have inv2: "node_inv nd2" "order nd2 = order nd"
    using start_pending_sound [OF inv1, of E] start_pending_order [OF inv1, of E] sp by (simp_all add: sound_def)
  show ?case
  proof (cases again)
    case True
    with start_pending_again [OF inv1] sp Suc.prems have "length (pending nd2) < fuel" by fastforce
    from Suc.IH [OF inv2(1) this] Suc.prems(1) inv1 inv2 sp show ?thesis by (auto simp: Let_def)
  next
    case False
    with Suc.prems(1) inv1 inv2 sp show ?thesis by (auto simp: Let_def)
  qed
qed simp

lemma reap_sound: "node_inv nd \<Longrightarrow> \<exists>nd'. reap E nd = Some nd' \<and> node_inv nd' \<and> order nd' = order nd"
  unfolding reap_def by (rule reap_loop_sound) simp_all

lemma start_pending_shorter:
  assumes inv: "node_inv nd"
  shows "length (pending (snd (start_pending E nd))) \<le> length (pending nd)"
proof (cases "active nd = None \<and> pending nd \<noteq> []")
  case True
  then obtain r rs where p: "pending nd = r # rs" by (cases "pending nd") auto
  have "node_idle (nd\<lparr>pending := rs\<rparr>)" using inv_parts(3) [OF inv] True by (simp add: node_idle_def)
  from start_active_accounts [OF this, of "r\<lparr>rq_state := ACTIVE\<rparr>" E] p True show ?thesis
    by (auto simp: start_pending_def Let_def accounts_def active_state_def)
qed (auto simp: start_pending_def split: list.split)

lemma reap_loop_shorter:
  "node_inv nd \<Longrightarrow> reap_loop fuel E nd = Some nd' \<Longrightarrow> length (pending nd') \<le> length (pending nd)"
proof (induction fuel arbitrary: nd)
  case (Suc fuel)
  let ?nd1 = "reap_client nd"
  have inv1: "node_inv ?nd1" using reap_client_sound [OF Suc.prems(1)] by (simp add: sound_def)
  obtain again nd2 where sp: "start_pending E ?nd1 = (again, nd2)" by fastforce
  have inv2: "node_inv nd2" "length (pending nd2) \<le> length (pending nd)"
    using start_pending_sound [OF inv1, of E] start_pending_shorter [OF inv1, of E] sp by (simp_all add: sound_def)
  show ?case using Suc.IH [OF inv2(1)] Suc.prems(2) inv2(2) sp by (auto simp: Let_def split: if_splits)
qed simp

lemma start_pending_idle_stuck:
  assumes "node_available E nd" "active nd = None" "\<forall>r \<in> set (pending nd). rq_state r = PENDING"
    "start_pending E nd = (False, nd')"
  shows "active nd' \<noteq> None \<or> pending nd' = []"
  using assms by (auto simp: start_pending_def Let_def split: list.splits if_splits)

lemma reap_loop_progress:
  assumes "node_inv nd" "node_available E nd" "\<forall>r \<in> set (pending nd). rq_state r = PENDING"
    "reap_loop fuel E nd = Some nd'"
  shows "active nd' \<noteq> None \<or> pending nd' = []"
  using assms
proof (induction fuel arbitrary: nd)
  case (Suc fuel)
  let ?nd1 = "reap_client nd"
  have inv1: "node_inv ?nd1" using reap_client_sound [OF Suc.prems(1)] by (simp add: sound_def)
  obtain again nd2 where sp: "start_pending E ?nd1 = (again, nd2)" by fastforce
  have av1: "node_available E ?nd1" using Suc.prems(2) by (simp add: node_available_def)
  show ?case
  proof (cases "active nd")
    case None
    then have ns: "\<not> stop_pending ?nd1"
      using reap_client_stopped inv_parts(3) [OF Suc.prems(1)] by (simp add: node_idle_def)
    show ?thesis
    proof (cases again)
      case True
      note a = start_pending_again [OF inv1, of E nd2]
      have "node_inv nd2" using start_pending_sound [OF inv1, of E] sp by (simp add: sound_def)
      moreover have "node_available E nd2" using a(3) True sp av1 by (simp add: node_available_def)
      moreover have "\<forall>r \<in> set (pending nd2). rq_state r = PENDING" using a(4) True sp Suc.prems(3) by auto
      ultimately show ?thesis using Suc.IH Suc.prems(4) None ns True sp by (simp add: Let_def)
    next
      case False
      then show ?thesis
        using start_pending_idle_stuck [OF av1, of nd2] Suc.prems(3,4) None ns sp by (simp add: Let_def)
    qed
  qed (use Suc.prems in simp)
qed simp

section \<open>Sequences of operations\<close>

text \<open>
  What the owner does to a node, in any order, with what the stack answers at that moment, and the
  atomic steps of a caller that cancels a request held by the node: it pins the request and later
  releases it, after the cancel command was posted or refused (theory \<open>Rtt_Sdo_Request\<close>).
\<close>

datatype sdo_op = Op_dispatch req | Op_cancel u32 | Op_cancel_node | Op_cancel_queued req | Op_reap
  | Op_confirm u32 | Op_before_boot | Op_nmt_state u8 | Op_nmt_command nmt_command | Op_boot_complete u8
  | Op_fini | Op_caller u32 bool

definition caller_touch :: "u32 \<Rightarrow> bool \<Rightarrow> req \<Rightarrow> req" where
  "caller_touch i admitted r = (if rq_id r \<noteq> i then r
     else if rq_state r = PENDING \<or> rq_state r = ACTIVE then r\<lparr>rq_state := pin_of (rq_state r)\<rparr>
     else if pinned_state (rq_state r) then r\<lparr>rq_state := released_of (rq_state r) admitted\<rparr>
     else r)"

definition caller :: "u32 \<Rightarrow> bool \<Rightarrow> node \<Rightarrow> node" where
  "caller i admitted nd = nd\<lparr>active := map_option (caller_touch i admitted) (active nd),
     pending := map (caller_touch i admitted) (pending nd)\<rparr>"

fun node_op :: "sdo_env \<Rightarrow> sdo_op \<Rightarrow> node \<Rightarrow> node" where
  "node_op E (Op_dispatch r) nd = dispatch E r nd"
| "node_op E (Op_cancel i) nd = cancel_dispatch E i nd"
| "node_op E Op_cancel_node nd = cancel_node E nd"
| "node_op E (Op_cancel_queued r) nd = cancel_queued r nd"
| "node_op E Op_reap nd = (case reap E nd of Some nd' \<Rightarrow> nd' | None \<Rightarrow> nd)"
| "node_op E (Op_confirm ac) nd = confirm E ac nd"
| "node_op E Op_before_boot nd = before_boot E nd"
| "node_op E (Op_nmt_state st) nd = on_nmt_state E st nd"
| "node_op E (Op_nmt_command c) nd = on_nmt_command c nd"
| "node_op E (Op_boot_complete st) nd = on_boot_complete st nd"
| "node_op E Op_fini nd = sdo_fini E nd"
| "node_op E (Op_caller i admitted) nd = caller i admitted nd"

fun posted :: "sdo_op \<Rightarrow> req list" where
  "posted (Op_dispatch r) = [r]" | "posted (Op_cancel_queued r) = [r]" | "posted _ = []"

definition node_zero :: "u8 \<Rightarrow> u8 \<Rightarrow> node" where
  "node_zero n ch = \<lparr>node_id = n, channel = ch, client = None, active = None, pending = [], suspended = False,
     reset_pending = False, stop_pending = False, finished = []\<rparr>"

text \<open>The posted requests, with the state of the node after the operations.\<close>

inductive node_run :: "u32 list \<Rightarrow> node \<Rightarrow> bool" where
  start: "node_run [] (node_zero n ch)"
| step: "node_run ids nd \<Longrightarrow> env_ok E nd \<Longrightarrow> (\<forall>r \<in> set (posted op). fresh r) \<Longrightarrow>
    node_run (ids @ map rq_id (posted op)) (node_op E op nd)"

lemma sound_update:
  "sound M nd nd' \<Longrightarrow> (res \<longrightarrow> sus) \<Longrightarrow> sound M nd (nd'\<lparr>suspended := sus, reset_pending := res\<rparr>)"
  "sound M nd nd' \<Longrightarrow> sound M nd (nd'\<lparr>suspended := True\<rparr>)"
  by (simp_all add: sound_def node_inv_def all_ids_def held_ids_def done_ids_def uses_predefined_def)

lemma sound_client_none: "sound M nd nd' \<Longrightarrow> sound M nd (nd'\<lparr>client := None\<rparr>)"
  by (simp add: sound_def node_inv_def all_ids_def held_ids_def done_ids_def)

lemma sound_refl: "node_inv nd \<Longrightarrow> sound {#} nd nd"
  by (simp add: sound_def)

lemma confirm_sound: "node_inv nd \<Longrightarrow> sound {#} nd (confirm E ac nd)"
proof (cases "active nd")
  case None
  assume "node_inv nd"
  with None show ?thesis by (simp add: confirm_def sound_def)
next
  case (Some r)
  assume inv: "node_inv nd"
  have nt: "\<not> terminal (rq_state r)" using inv Some by (rule inv_parts)
  note c = confirm_ends [OF Some nt, of E ac] confirm_predefined [OF Some nt, of E ac]
  then show ?thesis using inv by (auto simp: sound_def all_ids_order node_inv_def split: if_splits)
qed

lemma caller_touch_id [simp]: "rq_id (caller_touch i a r) = rq_id r"
  by (simp add: caller_touch_def)

lemma caller_touch_state:
  "pending_state (rq_state r) \<Longrightarrow> pending_state (rq_state (caller_touch i a r))"
  "active_state (rq_state r) \<Longrightarrow> active_state (rq_state (caller_touch i a r))"
  by (auto simp: caller_touch_def pending_state_def active_state_def pin_of_def released_of_def)

lemma caller_sound: "node_inv nd \<Longrightarrow> sound {#} nd (caller i a nd)"
  by (auto simp: sound_def node_inv_def caller_def all_ids_def held_ids_def done_ids_def caller_touch_state
      multiset.map_comp comp_def uses_predefined_def split: option.split)

lemma sdo_fini_sound:
  assumes inv: "node_inv nd"
  shows "sound {#} nd (sdo_fini E nd)"
proof -
  have "all_ids (sdo_fini E nd) = all_ids (cancel_node E nd)"
    using cancel_node_result [OF inv, of E] by (simp add: sdo_fini_def all_ids_def held_ids_def done_ids_def)
  then show ?thesis using cancel_node_sound [OF inv, of E] by (simp add: sound_def sdo_fini_def node_inv_def)
qed

lemma gates_sound:
  assumes inv: "node_inv nd"
  shows "sound {#} nd (before_boot E nd)" "sound {#} nd (on_nmt_state E st nd)"
    "sound {#} nd (on_nmt_command c nd)" "sound {#} nd (on_boot_complete st nd)"
proof -
  note c = cancel_node_sound [OF inv, of E]
  show "sound {#} nd (before_boot E nd)"
    unfolding before_boot_def set_suspended_def by (intro sound_update(1) sound_client_none c) simp
  show "sound {#} nd (on_nmt_state E st nd)"
    using sound_update(2) [OF c] sound_update(1) [OF sound_refl [OF inv]] sound_refl [OF inv]
    by (simp add: on_nmt_state_def set_suspended_def)
  show "sound {#} nd (on_boot_complete st nd)"
    using sound_update(1) [OF sound_refl [OF inv]] by (simp add: on_boot_complete_def set_suspended_def)
  have "sound {#} nd (nd\<lparr>suspended := False\<rparr>)" if "\<not> reset_pending nd"
    using that inv by (simp add: sound_def node_inv_def all_ids_def held_ids_def done_ids_def uses_predefined_def)
  then show "sound {#} nd (on_nmt_command c nd)"
    using sound_update [OF sound_refl [OF inv]] sound_refl [OF inv]
    by (cases c) (simp_all add: on_nmt_command_def set_suspended_def)
qed

lemma node_op_sound [step_inv]:
  assumes inv: "node_inv nd" and env: "env_ok E nd" and fresh: "\<forall>r \<in> set (posted op). fresh r"
  shows "sound (mset (map rq_id (posted op))) nd (node_op E op nd)"
proof (cases op)
  case Op_reap
  then show ?thesis using reap_sound [OF inv, of E] by (auto simp: sound_def all_ids_order)
qed (use assms dispatch_sound [OF inv] cancel_dispatch_sound [OF inv env] cancel_node_sound [OF inv]
    cancel_queued_sound [OF inv] confirm_sound [OF inv] gates_sound [OF inv] sdo_fini_sound [OF inv]
    caller_sound [OF inv] in simp_all)

lemma node_zero_inv: "node_inv (node_zero n ch)"
  by (simp add: node_zero_def node_inv_def)

lemma node_run_inv: "node_run ids nd \<Longrightarrow> node_inv nd \<and> all_ids nd = mset ids"
proof (induction rule: node_run.induct)
  case (start n ch)
  then show ?case using node_zero_inv by (simp add: all_ids_def held_ids_def done_ids_def) (simp add: node_zero_def)
next
  case (step ids nd E op)
  then show ?case using node_op_sound [of nd E op] by (simp add: sound_def)
qed

section \<open>Gates\<close>

definition releases :: "sdo_env \<Rightarrow> sdo_op \<Rightarrow> bool" where
  "releases E op \<longleftrightarrow> op = Op_nmt_state CO_NMT_ST_BOOTUP \<and> \<not> (en_nmt E \<noteq> None \<and> en_booting E)
     \<or> (\<exists>st. op = Op_boot_complete st) \<or> op = Op_fini"

definition active_id :: "node \<Rightarrow> u32 option" where
  "active_id nd = map_option rq_id (active nd)"

text \<open>What an operation does to a node that is held for a reset.\<close>

definition still_held :: "node \<Rightarrow> node \<Rightarrow> bool" where
  "still_held nd nd' \<longleftrightarrow> reset_pending nd' \<and> suspended nd' \<and> (active_id nd' = None \<or> active_id nd' = active_id nd)"

lemma refuse_frame [simp]:
  "active (refuse r nd) = active nd" "suspended (refuse r nd) = suspended nd"
  "reset_pending (refuse r nd) = reset_pending nd" "pending (refuse r nd) = pending nd"
  by (auto simp: refuse_def claim_def)

lemma cancel_pending_frame [simp]:
  "active (cancel_pending i nd) = active nd" "suspended (cancel_pending i nd) = suspended nd"
  "reset_pending (cancel_pending i nd) = reset_pending nd"
  by (simp_all add: cancel_pending_def split: prod.split option.split)

lemma cancel_queued_frame [simp]:
  "active (cancel_queued r nd) = active nd" "suspended (cancel_queued r nd) = suspended nd"
  "reset_pending (cancel_queued r nd) = reset_pending nd"
  by (simp_all add: cancel_queued_def)

lemma start_pending_suspended: "suspended nd \<Longrightarrow> start_pending E nd = (False, nd)"
  by (simp add: start_pending_def node_available_def)

lemma reap_suspended:
  "suspended nd \<Longrightarrow> reap E nd = Some nd' \<Longrightarrow>
     active nd' = active nd \<and> suspended nd' \<and> reset_pending nd' = reset_pending nd"
  by (auto simp: reap_def Let_def start_pending_suspended reap_client_def split: if_splits option.splits)

lemma cancel_dispatch_held:
  assumes inv: "node_inv nd" and res: "reset_pending nd" "suspended nd"
  shows "still_held nd (cancel_dispatch E i nd)"
proof (cases "\<exists>r. active nd = Some r \<and> rq_id r = i")
  case False
  then have "cancel_dispatch E i nd = cancel_pending i nd"
    by (auto simp: cancel_dispatch_def split: option.split)
  then show ?thesis using res by (simp add: still_held_def active_id_def)
next
  case True
  then obtain r where r: "active nd = Some r" "rq_id r = i" by blast
  have nt: "\<not> terminal (rq_state r)" using inv r(1) by (rule inv_parts)
  show ?thesis
    using nt r res by (cases rule: abort_active_cases [where E = E and nd = nd])
      (auto simp: cancel_dispatch_def abort_active_def [symmetric] still_held_def active_id_def Let_def)
qed

lemma confirm_held:
  assumes inv: "node_inv nd" and res: "reset_pending nd" "suspended nd"
  shows "still_held nd (confirm E ac nd)"
proof (cases "active nd")
  case None
  then show ?thesis using res by (simp add: confirm_def still_held_def)
next
  case (Some r)
  have "\<not> terminal (rq_state r)" using inv Some by (rule inv_parts)
  from confirm_ends [OF Some this, of E ac] show ?thesis using res by (simp add: still_held_def active_id_def)
qed

lemma node_op_held:
  assumes inv: "node_inv nd" and res: "reset_pending nd" and rel: "\<not> releases E op"
  shows "still_held nd (node_op E op nd)"
proof -
  have sus: "suspended nd" using inv res by (simp add: node_inv_def)
  note c = cancel_node_result [OF inv, of E]
  show ?thesis
  proof (cases op)
    case Op_reap
    then show ?thesis
      using reap_sound [OF inv, of E] reap_suspended [OF sus, of E] res by (auto simp: still_held_def active_id_def)
  next
    case (Op_dispatch r)
    then show ?thesis using sus res by (simp add: dispatch_def node_available_def still_held_def active_id_def)
  next
    case (Op_nmt_state st)
    then show ?thesis using sus res rel c
      by (auto simp: on_nmt_state_def set_suspended_def releases_def still_held_def active_id_def)
  next
    case (Op_nmt_command cmd)
    then show ?thesis using sus res
      by (cases cmd) (simp_all add: on_nmt_command_def set_suspended_def still_held_def active_id_def)
  qed (use sus res rel c cancel_dispatch_held [OF inv res sus] confirm_held [OF inv res sus] in
    \<open>simp_all add: still_held_def active_id_def releases_def before_boot_def set_suspended_def caller_def
      option.map_comp comp_def\<close>)
qed

section \<open>Properties\<close>

text \<open>C31. No request is lost and none completes twice. After any sequence of operations on a node
  (dispatch, cancel, NMT and boot events, confirmations, passes of the owner, steps of cancelling
  callers), the posted requests are exactly those completed and those still held, each in one place,
  and the queue behind the active transfer is never longer than its configured depth.
\<close>

theorem sdo_requests_accounted:
  assumes "node_run ids nd" "distinct ids"
  shows "set (map (rq_id \<circ> fst) (finished nd)) \<union> set (map rq_id (held nd)) = set ids
    \<and> set (map (rq_id \<circ> fst) (finished nd)) \<inter> set (map rq_id (held nd)) = {}
    \<and> distinct (map (rq_id \<circ> fst) (finished nd)) \<and> distinct (map rq_id (held nd))
    \<and> length (pending nd) \<le> QUEUE_DEPTH"
proof -
  have inv: "node_inv nd" "mset (order nd) = mset ids"
    using node_run_inv [OF assms(1)] by (simp_all add: all_ids_order)
  have "distinct (order nd)" "set (order nd) = set ids"
    using inv(2) assms(2) mset_eq_imp_distinct_iff mset_eq_setD by metis+
  then show ?thesis using inv(1) by (auto simp: order_def node_inv_def)
qed

lemma reap_cancelled_head:
  assumes "node_available E nd" "active nd = None" "\<not> stop_pending nd" "pending nd = r # rs" "rq_state r = CANCEL_PENDING"
  shows "reap E nd = Some (cancelled CO_SDO_AC_NO_SDO r (nd\<lparr>pending := rs\<rparr>))"
  using assms by (simp add: reap_def reap_client_def start_pending_def)


text \<open>What becomes of a queued request when the owner dispatches it. It is refused with \<open>-RT_EBUSY\<close>
  exactly when the node is not available or the queue behind the active transfer is full, and then
  nothing else changes; otherwise it takes its place behind every request accepted before.
\<close>

theorem sdo_dispatch_outcome:
  assumes "node_run ids nd" "rq_state r = QUEUED"
  shows "let nd' = dispatch E r nd;
             busy = (active nd \<noteq> None \<or> pending nd \<noteq> []);
             full = (length (pending nd) \<ge> QUEUE_DEPTH)
         in if \<not> node_available E nd \<or> busy \<and> full
            then nd' = nd\<lparr>finished := finished nd
                @ [(r\<lparr>rq_state := DONE\<rparr>, completion COMPLETION_LOCAL_ERROR RT_EBUSY 0)]\<rparr>
            else order nd' = order nd @ [rq_id r]"
proof -
  have inv: "node_inv nd" using node_run_inv [OF assms(1)] by simp
  have room: "has_room 0 (pending nd) \<longleftrightarrow> length (pending nd) < QUEUE_DEPTH" using has_room_iff [OF depth_pos] by simp
  have ref: "refuse r nd = nd\<lparr>finished := finished nd
      @ [(r\<lparr>rq_state := DONE\<rparr>, completion COMPLETION_LOCAL_ERROR RT_EBUSY 0)]\<rparr>"
    using assms(2) by (simp add: refuse_def claim_def complete_def)
  have start: "order (start_active E (r\<lparr>rq_state := ACTIVE\<rparr>) nd) = order nd @ [rq_id r]"
    if "active nd = None" "pending nd = []"
    using start_active_accounts [OF inv_parts(3) [OF inv that(1)], of "r\<lparr>rq_state := ACTIVE\<rparr>" E] that
    by (simp add: accounts_def active_state_def order_def [of nd] held_def)
  have app: "order (nd\<lparr>pending := pending nd @ [r\<lparr>rq_state := PENDING\<rparr>]\<rparr>) = order nd @ [rq_id r]"
    by (simp add: order_def held_def)
  show ?thesis
    using assms(2) ref room start app
    by (auto simp: dispatch_def pending_append_def claim_def Let_def)
qed

text \<open>Cancelling a node (\<open>lely_rtt_master_sdo_cancel_node\<close>, before boot, on a stop indication and at
  teardown) empties it: every request it held, the active one first and the others in queue order,
  completes as cancelled with the abort code \<open>CO_SDO_AC_NO_SDO\<close>, and a predefined client is stopped.
\<close>

theorem sdo_cancel_node_complete:
  assumes "node_run ids nd"
  shows "held (cancel_node E nd) = []
    \<and> finished (cancel_node E nd) = finished nd
        @ map (\<lambda>r. (completed (r\<lparr>rq_cancel := True\<rparr>), completion COMPLETION_CANCELED RT_EOK CO_SDO_AC_NO_SDO)) (held nd)
    \<and> (uses_predefined nd \<longrightarrow> client (cancel_node E nd) = None \<or> client (cancel_node E nd) = Some Csdo_stopped)"
  using cancel_node_result [of nd E] node_run_inv [OF assms] by (auto simp: held_def no_sdo_def)

text \<open>The reset hold. Once a reset command or the start of a boot has closed a node, only a boot-up
  message outside the boot procedure, the end of the boot procedure or teardown opens it again; until
  then, whatever else happens, the node stays suspended and no other request becomes active on it.
\<close>

theorem sdo_reset_hold:
  assumes "node_run ids nd" "reset_pending nd" "\<not> releases E op"
  shows "reset_pending (node_op E op nd) \<and> suspended (node_op E op nd)
    \<and> (active_id (node_op E op nd) = None \<or> active_id (node_op E op nd) = active_id nd)"
  using node_op_held [of nd E op] node_run_inv [OF assms(1)] assms(2,3) by (simp add: still_held_def)

section \<open>Witnesses\<close>

definition demo_sdo_env :: sdo_env where
  "demo_sdo_env = \<lparr>en_nmt = Some 1, en_net = True, en_booting = False, en_cfg_busy = False, en_create = True,
     en_start = True, en_csdos = (\<lambda>_. None), en_req = (\<lambda>_. (None, True)), en_data = [1, 2], en_malloc = True\<rparr>"

definition demo_req :: "u32 \<Rightarrow> req" where
  "demo_req i = \<lparr>rq_id = i, rq_operation = SDO_UPLOAD, rq_index = 0x1018, rq_subindex = 1, rq_timeout_ms = 100,
     rq_block = False, rq_buffer = [], rq_state = QUEUED, rq_cancel = False\<rparr>"

definition demo_node :: node where
  "demo_node = dispatch demo_sdo_env (demo_req 8) (dispatch demo_sdo_env (demo_req 7) (node_zero 5 0))"

lemmas demo_sdo_defs = demo_node_def demo_sdo_env_def demo_req_def node_zero_def dispatch_def node_available_def
  claim_def start_active_def get_client_def uses_predefined_def start_transfer_def pending_append_def
  QUEUE_DEPTH_def

lemma demo_node_state:
  "active demo_node = Some ((demo_req 7)\<lparr>rq_state := ACTIVE\<rparr>)" "pending demo_node = [(demo_req 8)\<lparr>rq_state := PENDING\<rparr>]"
  "finished demo_node = []" "client demo_node = Some Csdo_busy"
  by (simp_all add: demo_sdo_defs Let_def)

lemma demo_node_run: "node_run [7, 8] demo_node"
proof -
  have "node_run ([] @ map rq_id (posted (Op_dispatch (demo_req 7)))) (node_op demo_sdo_env (Op_dispatch (demo_req 7)) (node_zero 5 0))"
    by (rule node_run.step [OF node_run.start]) (simp_all add: env_ok_def fresh_def demo_req_def demo_sdo_env_def)
  from node_run.step [OF this, of demo_sdo_env "Op_dispatch (demo_req 8)"]
  show ?thesis by (simp add: env_ok_def fresh_def demo_node_def demo_req_def demo_sdo_env_def)
qed

theorem sdo_requests_accounted_witness:
  "distinct [7, 8 :: u32] \<and> node_run [7, 8] demo_node \<and> distinct (map rq_id (held demo_node))"
  using sdo_requests_accounted [OF demo_node_run] demo_node_run by simp


theorem sdo_dispatch_outcome_witness:
  "order (dispatch demo_sdo_env (demo_req 9) demo_node) = [7, 8, 9]"
proof -
  have "node_available demo_sdo_env demo_node" by (simp add: demo_sdo_defs Let_def)
  moreover have "order demo_node = [7, 8]" by (simp add: order_def held_def demo_node_state demo_req_def)
  ultimately show ?thesis
    using sdo_dispatch_outcome [OF demo_node_run, of "demo_req 9" demo_sdo_env]
    by (simp add: demo_node_state QUEUE_DEPTH_def demo_req_def Let_def)
qed

theorem sdo_cancel_node_complete_witness:
  "node_run [7, 8] demo_node \<and> length (finished (cancel_node demo_sdo_env demo_node)) = 2"
  using sdo_cancel_node_complete [OF demo_node_run, of demo_sdo_env] demo_node_run
  by (simp add: held_def demo_node_state)

theorem sdo_reset_hold_witness:
  "suspended (node_op demo_sdo_env (Op_nmt_command COMMAND_START)
     (node_op demo_sdo_env (Op_nmt_command COMMAND_RESET_NODE) demo_node))"
proof -
  let ?nd = "node_op demo_sdo_env (Op_nmt_command COMMAND_RESET_NODE) demo_node"
  have "node_run ([7, 8] @ []) ?nd"
    using node_run.step [OF demo_node_run, of demo_sdo_env "Op_nmt_command COMMAND_RESET_NODE"]
    by (simp add: env_ok_def demo_sdo_env_def)
  moreover have "reset_pending ?nd" by (simp add: on_nmt_command_def set_suspended_def)
  ultimately show ?thesis
    using sdo_reset_hold [of "[7, 8] @ []" ?nd demo_sdo_env "Op_nmt_command COMMAND_START"] by (simp add: releases_def)
qed

end
