(* ===== verification/Rtt_Emcy.thy ===== *)
theory Rtt_Emcy
  imports Rtt_Types
begin

text \<open>
  The history of received emergency messages (\<open>port/rtthread/src/master_emcy.c\<close>): a ring of slots that
  the owner fills and application threads read without a lock. Each slot is a sequence lock.

  The first part treats \<open>lely_rtt_runtime_get_emcy\<close> against an abstract log of events; the second
  interleaves the single stores of the writer with the single loads of a reader.
\<close>

section \<open>Model\<close>

definition EMCY_HISTORY_DEPTH :: nat where "EMCY_HISTORY_DEPTH = 8"
  \<comment> \<open>\<open>PKG_LELY_MASTER_EMCY_HISTORY_DEPTH\<close>\<close>

record emcy_slot =
  guard :: u32
  sequence :: u32
  header :: u32
  msef_lo :: u32
  msef_hi :: u32

record emcy_history =
  emcy_latest_sequence :: u32
  emcy_slots :: "emcy_slot list"

record emcy_event =
  ev_node :: u8
  ev_code :: u16
  ev_register :: u8
  ev_msef :: bytes
  ev_sequence :: u32

definition emcy_pack :: "u8 \<Rightarrow> u16 \<Rightarrow> u8 \<Rightarrow> u32" where
  "emcy_pack node code reg = ucast node OR push_bit 8 (ucast code) OR push_bit 24 (ucast reg)"

definition emcy_prev_sequence :: "u32 \<Rightarrow> u32" where
  "emcy_prev_sequence s = (if s > 1 then s - 1 else 0)"

text \<open>The manufacturer field as two words, zero when there is none.\<close>

definition pack_lo :: "bytes option \<Rightarrow> u32" where
  "pack_lo m = (case m of None \<Rightarrow> 0
     | Some b \<Rightarrow> ucast (b ! 0) OR push_bit 8 (ucast (b ! 1)) OR push_bit 16 (ucast (b ! 2)) OR push_bit 24 (ucast (b ! 3)))"

definition pack_hi :: "bytes option \<Rightarrow> u32" where
  "pack_hi m = (case m of None \<Rightarrow> 0 | Some b \<Rightarrow> ucast (b ! 4))"

definition next_sequence :: "u32 \<Rightarrow> u32" where
  "next_sequence latest = (if latest + 1 = 0 then 1 else latest + 1)"

text \<open>The guard that the writer starts from.\<close>

definition base_guard :: "u32 \<Rightarrow> u32" where
  "base_guard g = (let g1 = (if g AND 1 \<noteq> 0 then g + 1 else g) in if g1 > 0xfffffffc then 0 else g1)"

text \<open>The stores of \<open>lely_rtt_master_emcy_publish\<close> to the slot, in their order.\<close>

datatype store = SGuard u32 | SSequence u32 | SHeader u32 | SLo u32 | SHi u32

fun slot_store :: "store \<Rightarrow> emcy_slot \<Rightarrow> emcy_slot" where
  "slot_store (SGuard v) s = s\<lparr>guard := v\<rparr>"
| "slot_store (SSequence v) s = s\<lparr>sequence := v\<rparr>"
| "slot_store (SHeader v) s = s\<lparr>header := v\<rparr>"
| "slot_store (SLo v) s = s\<lparr>msef_lo := v\<rparr>"
| "slot_store (SHi v) s = s\<lparr>msef_hi := v\<rparr>"

definition publish_stores :: "u32 \<Rightarrow> u32 \<Rightarrow> u32 \<Rightarrow> u32 \<Rightarrow> u32 \<Rightarrow> store list" where
  "publish_stores g seqno hdr lo hi =
     [SGuard (g + 1), SSequence seqno, SHeader hdr, SLo lo, SHi hi, SGuard (g + 2)]"

text \<open>
  The stores of \<open>lely_rtt_master_emcy_reset\<close> to one slot: the guard goes to zero at once, without an odd
  value that would tell a reader of the change.
\<close>

definition reset_stores :: "store list" where
  "reset_stores = [SGuard 0, SSequence 0, SHeader 0, SLo 0, SHi 0]"

definition emcy_reset :: "emcy_history \<Rightarrow> emcy_history" where
  "emcy_reset h = \<lparr>emcy_latest_sequence = 0, emcy_slots = map (fold slot_store reset_stores) (emcy_slots h)\<rparr>"

text \<open>The history of a runtime as \<open>lely_rtt_runtime_create\<close> allocates it, all zero.\<close>

definition emcy_blank :: emcy_history where
  "emcy_blank = \<lparr>emcy_latest_sequence = 0,
     emcy_slots = replicate EMCY_HISTORY_DEPTH \<lparr>guard = 0, sequence = 0, header = 0, msef_lo = 0, msef_hi = 0\<rparr>\<rparr>"

definition slot_index :: "u32 \<Rightarrow> nat" where
  "slot_index seqno = unat (seqno - 1) mod EMCY_HISTORY_DEPTH"

definition emcy_publish :: "u8 \<Rightarrow> u16 \<Rightarrow> u8 \<Rightarrow> bytes option \<Rightarrow> emcy_history \<Rightarrow> emcy_history" where
  "emcy_publish node code reg m h =
     (if node = 0 \<or> unat node > 127 then h
      else
        let seqno = next_sequence (emcy_latest_sequence h);
            i = slot_index seqno;
            slot = emcy_slots h ! i
        in \<lparr>emcy_latest_sequence = seqno,
            emcy_slots = (emcy_slots h)[i := fold slot_store
              (publish_stores (base_guard (guard slot)) seqno (emcy_pack node code reg) (pack_lo m) (pack_hi m)) slot]\<rparr>)"

definition emcy_decode :: "emcy_slot \<Rightarrow> emcy_event" where
  "emcy_decode s = \<lparr>ev_node = ucast (header s), ev_code = ucast (drop_bit 8 (header s)),
     ev_register = ucast (drop_bit 24 (header s)),
     ev_msef = [ucast (msef_lo s), ucast (drop_bit 8 (msef_lo s)), ucast (drop_bit 16 (msef_lo s)),
       ucast (drop_bit 24 (msef_lo s)), ucast (msef_hi s)],
     ev_sequence = sequence s\<rparr>"

text \<open>
  One pass of the loop of \<open>lely_rtt_runtime_get_emcy\<close> over a history that does not change under it.
  \<open>Retry\<close> is the case in which the caller sleeps and starts over.
\<close>

datatype scan_result = Found emcy_event | Retry | Nothing

fun emcy_scan :: "emcy_history \<Rightarrow> u8 \<Rightarrow> nat \<Rightarrow> u32 \<Rightarrow> scan_result" where
  "emcy_scan h node 0 candidate = Nothing"
| "emcy_scan h node (Suc remaining) candidate =
     (if candidate = 0 then Nothing
      else
        let slot = emcy_slots h ! slot_index candidate
        in if guard slot = 0 then Nothing
           else if guard slot AND 1 \<noteq> 0 then Retry
           else if sequence slot \<noteq> candidate then Retry
           else if node = 0 \<or> ucast (header slot) = node then Found (emcy_decode slot)
           else emcy_scan h node remaining (emcy_prev_sequence candidate))"

definition get_emcy :: "emcy_history \<Rightarrow> u8 \<Rightarrow> (rt_err + emcy_event) option" where
  "get_emcy h node =
     (if unat node > 127 then Some (Inl RT_EINVAL)
      else if emcy_latest_sequence h = 0 then Some (Inl RT_EBUSY)
      else case emcy_scan h node EMCY_HISTORY_DEPTH (emcy_latest_sequence h) of
        Found ev \<Rightarrow> Some (Inr ev) | Nothing \<Rightarrow> Some (Inl RT_EBUSY) | Retry \<Rightarrow> None)"

section \<open>Encoding\<close>

lemma ucast_byte: "ucast (ucast (x :: u8) :: u32) = x"
  by (rule bit_word_eqI) (simp add: bit_simps)

lemma pack_fields:
  "ucast (emcy_pack node code reg) = node" "ucast (drop_bit 8 (emcy_pack node code reg)) = code"
  "ucast (drop_bit 24 (emcy_pack node code reg)) = reg"
  by (auto intro!: bit_word_eqI simp: emcy_pack_def bit_simps)

lemma pack_lo_fields:
  "ucast (pack_lo (Some b)) = b ! 0" "ucast (drop_bit 8 (pack_lo (Some b))) = b ! 1"
  "ucast (drop_bit 16 (pack_lo (Some b))) = b ! 2" "ucast (drop_bit 24 (pack_lo (Some b))) = b ! 3"
  by (auto intro!: bit_word_eqI simp: pack_lo_def bit_simps)

definition msef_bytes :: "bytes option \<Rightarrow> bytes" where
  "msef_bytes m = (case m of None \<Rightarrow> replicate 5 0 | Some b \<Rightarrow> take 5 b)"

lemma msef_none: "msef_bytes None = [0, 0, 0, 0, 0]"
  by (simp add: msef_bytes_def numeral_eq_Suc)

lemma take5: "length b = 5 \<Longrightarrow> [b ! 0, b ! 1, b ! 2, b ! 3, b ! 4] = b"
  by (auto simp: list_eq_iff_nth_eq less_Suc_eq numeral_eq_Suc)

lemma msef_roundtrip:
  assumes "\<forall>b. m = Some b \<longrightarrow> length b = 5"
  shows "[ucast (pack_lo m), ucast (drop_bit 8 (pack_lo m)), ucast (drop_bit 16 (pack_lo m)),
    ucast (drop_bit 24 (pack_lo m)), ucast (pack_hi m)] = msef_bytes m"
proof (cases m)
  case None
  then show ?thesis by (simp add: pack_lo_def pack_hi_def msef_bytes_def numeral_eq_Suc)
next
  case (Some b)
  then show ?thesis using assms take5 [of b] by (simp add: pack_lo_fields pack_hi_def msef_bytes_def ucast_byte)
qed

lemma and_one_odd: "(g :: u32) AND 1 \<noteq> 0 \<longleftrightarrow> odd (unat g)"
proof -
  have "g AND 1 = 0 \<longleftrightarrow> unat (g mod 2) = 0" by (simp add: and_one_eq unat_eq_zero)
  also have "unat (g mod 2) = unat g mod 2" by (simp add: unat_mod)
  finally show ?thesis by (simp add: even_iff_mod_2_eq_zero)
qed

lemma base_guard_even: "even (unat (base_guard g)) \<and> unat (base_guard g) \<le> 0xfffffffc"
proof -
  have "unat (g + 1) = (unat g + 1) mod 2 ^ 32" by (simp add: unat_word_ariths)
  moreover have "even ((n + 1) mod 2 ^ 32)" if "odd n" for n :: nat using that by (simp add: dvd_mod_iff)
  ultimately have "even (unat (g + 1))" if "odd (unat g)" using that by presburger
  then show ?thesis by (auto simp: base_guard_def and_one_odd Let_def word_less_nat_alt)
qed

lemma base_guard_stored: "unat (base_guard g + 2) = unat (base_guard g) + 2" "unat (base_guard g + 1) = unat (base_guard g) + 1"
  using base_guard_even [of g] by (simp_all add: unat_word_ariths)

section \<open>The history as a log\<close>

text \<open>
  The events since the sequence number last started over at 1, the newest first. The number of the
  newest is the length of the log.
\<close>

type_synonym emcy_input = "u8 \<times> u16 \<times> u8 \<times> bytes option"

definition log_publish :: "emcy_input \<Rightarrow> emcy_event list \<Rightarrow> emcy_event list" where
  "log_publish i log = (case i of (node, code, reg, m) \<Rightarrow>
     if node = 0 \<or> unat node > 127 then log
     else let old = (if length log = 2 ^ 32 - 1 then [] else log)
          in \<lparr>ev_node = node, ev_code = code, ev_register = reg, ev_msef = msef_bytes m,
              ev_sequence = of_nat (length old + 1)\<rparr> # old)"

definition publish_input :: "emcy_input \<Rightarrow> emcy_history \<Rightarrow> emcy_history" where
  "publish_input i = (case i of (node, code, reg, m) \<Rightarrow> emcy_publish node code reg m)"

definition input_ok :: "emcy_input \<Rightarrow> bool" where
  "input_ok i \<longleftrightarrow> (case i of (node, code, reg, m) \<Rightarrow> \<forall>b. m = Some b \<longrightarrow> length b = 5)"

definition slot_holds :: "emcy_slot \<Rightarrow> emcy_event \<Rightarrow> bool" where
  "slot_holds s ev \<longleftrightarrow> guard s \<noteq> 0 \<and> even (unat (guard s)) \<and> emcy_decode s = ev"

definition window :: "emcy_slot list \<Rightarrow> emcy_event list \<Rightarrow> bool" where
  "window slots log \<longleftrightarrow> (\<forall>k < min EMCY_HISTORY_DEPTH (length log).
       slot_holds (slots ! ((length log - 1 - k) mod EMCY_HISTORY_DEPTH)) (log ! k)
     \<and> ev_sequence (log ! k) = of_nat (length log - k))"

definition history_rel :: "emcy_history \<Rightarrow> emcy_event list \<Rightarrow> bool" where
  "history_rel h log \<longleftrightarrow> length log < 2 ^ 32 \<and> emcy_latest_sequence h = of_nat (length log)
     \<and> length (emcy_slots h) = EMCY_HISTORY_DEPTH \<and> window (emcy_slots h) log"

lemma history_depth_pos: "0 < EMCY_HISTORY_DEPTH" by (simp add: EMCY_HISTORY_DEPTH_def)

lemma reset_slot: "fold slot_store reset_stores s = \<lparr>guard = 0, sequence = 0, header = 0, msef_lo = 0, msef_hi = 0\<rparr>"
  by (simp add: reset_stores_def)

lemma reset_rel: "length (emcy_slots h) = EMCY_HISTORY_DEPTH \<Longrightarrow> history_rel (emcy_reset h) []"
  by (simp add: history_rel_def window_def emcy_reset_def)

lemma slot_index_of_nat:
  assumes "0 < n" "n < 2 ^ 32"
  shows "slot_index (of_nat n) = (n - 1) mod EMCY_HISTORY_DEPTH"
proof -
  have "(of_nat n :: u32) - 1 = of_nat (n - 1)" using assms by (simp add: of_nat_diff)
  moreover have "unat (of_nat (n - 1) :: u32) = n - 1" by (rule unat_u32) (use assms in linarith)
  ultimately show ?thesis by (simp add: slot_index_def)
qed

lemma next_sequence_log:
  assumes "length log < 2 ^ 32"
  shows "next_sequence (of_nat (length log))
    = of_nat (length (if length log = 2 ^ 32 - 1 then [] else log) + 1)"
proof (cases "length log = 2 ^ 32 - 1")
  case True
  have "(of_nat (2 ^ 32 - 1) :: u32) + 1 = 0" by simp
  then show ?thesis using True by (simp add: next_sequence_def)
next
  case False
  then have "unat (of_nat (length log + 1) :: u32) = length log + 1"
    by (intro unat_u32) (use assms in simp)
  then have "(of_nat (length log + 1) :: u32) \<noteq> 0" by (metis add_is_0 one_neq_zero unat_0)
  then show ?thesis using False by (simp add: next_sequence_def add.commute)
qed

lemma written_slot:
  assumes "\<forall>b. m = Some b \<longrightarrow> length b = 5"
  shows "slot_holds (fold slot_store
      (publish_stores (base_guard (guard s)) seqno (emcy_pack node code reg) (pack_lo m) (pack_hi m)) s)
    \<lparr>ev_node = node, ev_code = code, ev_register = reg, ev_msef = msef_bytes m, ev_sequence = seqno\<rparr>"
proof -
  have "base_guard (guard s) + 2 \<noteq> 0" using base_guard_stored(1) [of "guard s"] by (metis add_is_0 unat_0 zero_neq_numeral)
  then show ?thesis
    using base_guard_stored(1) [of "guard s"] base_guard_even [of "guard s"] msef_roundtrip [OF assms]
    by (simp add: slot_holds_def publish_stores_def emcy_decode_def pack_fields)
qed

lemma ring_distinct:
  fixes n k d :: nat
  assumes "Suc k < d" "k < n"
  shows "(n - 1 - k) mod d \<noteq> n mod d"
proof
  assume "(n - 1 - k) mod d = n mod d"
  then have "d dvd n - (n - 1 - k)" using assms(2) by (metis diff_le_self le_trans mod_eq_dvd_iff_nat)
  moreover have "n - (n - 1 - k) = Suc k" using assms(2) by simp
  ultimately show False using assms(1) by (metis Suc_neq_Zero dvd_imp_le leD zero_less_Suc)
qed

lemma window_push:
  assumes old: "window slots old" and len: "length slots = EMCY_HISTORY_DEPTH"
    and new: "slot_holds s e" "ev_sequence e = of_nat (length old + 1)"
  shows "window (slots[length old mod EMCY_HISTORY_DEPTH := s]) (e # old)"
  unfolding window_def
proof (intro allI impI)
  fix k assume k: "k < min EMCY_HISTORY_DEPTH (length (e # old))"
  show "slot_holds (slots[length old mod EMCY_HISTORY_DEPTH := s] ! ((length (e # old) - 1 - k) mod EMCY_HISTORY_DEPTH)) ((e # old) ! k)
      \<and> ev_sequence ((e # old) ! k) = of_nat (length (e # old) - k)"
  proof (cases k)
    case 0
    then show ?thesis using new len history_depth_pos by simp
  next
    case (Suc j)
    then have "j < min EMCY_HISTORY_DEPTH (length old)" "Suc j < EMCY_HISTORY_DEPTH" using k by auto
    with old ring_distinct [of j EMCY_HISTORY_DEPTH "length old"] show ?thesis
      using Suc by (simp add: window_def)
  qed
qed

lemma window_nil: "window slots []"
  by (simp add: window_def)

lemma publish_rel:
  assumes rel: "history_rel h log" and ok: "input_ok i"
  shows "history_rel (publish_input i h) (log_publish i log)"
proof -
  obtain node code reg m where i: "i = (node, code, reg, m)" by (cases i)
  show ?thesis
  proof (cases "node = 0 \<or> unat node > 127")
    case True
    then show ?thesis using rel by (simp add: i publish_input_def log_publish_def emcy_publish_def)
  next
    case False
    define old where "old = (if length log = 2 ^ 32 - 1 then [] else log)"
    define s where "s = emcy_slots h ! (length old mod EMCY_HISTORY_DEPTH)"
    define s' where "s' = fold slot_store (publish_stores (base_guard (guard s)) (of_nat (length old + 1))
        (emcy_pack node code reg) (pack_lo m) (pack_hi m)) s"
    let ?e = "\<lparr>ev_node = node, ev_code = code, ev_register = reg, ev_msef = msef_bytes m,
              ev_sequence = of_nat (length old + 1)\<rparr> :: emcy_event"
    have len: "length old < 2 ^ 32 - 1" using rel by (auto simp: old_def history_rel_def)
    have seq: "next_sequence (emcy_latest_sequence h) = of_nat (length old + 1)"
      using next_sequence_log [of log] rel by (simp add: history_rel_def old_def)
    have idx: "slot_index (of_nat (length old + 1)) = length old mod EMCY_HISTORY_DEPTH"
      using slot_index_of_nat [of "length old + 1"] len by simp
    have pub: "publish_input i h = \<lparr>emcy_latest_sequence = of_nat (length old + 1),
        emcy_slots = (emcy_slots h)[length old mod EMCY_HISTORY_DEPTH := s']\<rparr>"
      using False seq idx unfolding i publish_input_def emcy_publish_def s'_def s_def by (simp only: prod.case Let_def if_False)
    have log: "log_publish i log = ?e # old" using False by (simp add: i log_publish_def old_def)
    have "slot_holds s' ?e" unfolding s'_def using ok by (intro written_slot) (simp add: i input_ok_def)
    then have "window ((emcy_slots h)[length old mod EMCY_HISTORY_DEPTH := s']) (?e # old)"
      using rel window_nil by (intro window_push) (auto simp: history_rel_def old_def)
    then show ?thesis using rel len unfolding history_rel_def log pub by simp
  qed
qed

section \<open>Reading\<close>

definition wanted :: "u8 \<Rightarrow> emcy_event \<Rightarrow> bool" where
  "wanted node ev \<longleftrightarrow> node = 0 \<or> ev_node ev = node"

lemma prev_sequence_of_nat:
  assumes "0 < n" "n < 2 ^ 32"
  shows "emcy_prev_sequence (of_nat n) = of_nat (n - 1)"
proof -
  have "unat (of_nat n :: u32) = n" using unat_u32 assms by blast
  then show ?thesis
    using assms by (cases "n = 1") (auto simp: emcy_prev_sequence_def word_less_nat_alt of_nat_diff)
qed

lemma slot_holds_fields:
  "slot_holds s ev \<Longrightarrow> sequence s = ev_sequence ev" "slot_holds s ev \<Longrightarrow> ucast (header s) = ev_node ev"
  by (auto simp: slot_holds_def emcy_decode_def)

text \<open>The scan from the entry \<open>k\<close> of the log on.\<close>

lemma scan_correct:
  assumes rel: "history_rel h log" and k: "k + r = EMCY_HISTORY_DEPTH" "k \<le> length log"
  shows "emcy_scan h node r (of_nat (length log - k))
    = (case find (wanted node) (take r (drop k log)) of None \<Rightarrow> Nothing | Some ev \<Rightarrow> Found ev)"
  using k
proof (induction r arbitrary: k)
  case (Suc r)
  have len: "length log < 2 ^ 32" using rel by (simp add: history_rel_def)
  show ?case
  proof (cases "k = length log")
    case False
    let ?c = "of_nat (length log - k) :: u32"
    let ?s = "emcy_slots h ! slot_index ?c"
    have n: "0 < length log - k" "length log - k < 2 ^ 32" using False Suc.prems len by auto
    have c: "?c \<noteq> 0" using unat_u32 [OF n(2)] n(1) by (metis less_numeral_extra(3) unat_0)
    have "slot_index ?c = (length log - 1 - k) mod EMCY_HISTORY_DEPTH"
      using slot_index_of_nat [OF n] by (simp add: diff_commute)
    moreover have "k < min EMCY_HISTORY_DEPTH (length log)" using Suc.prems False by auto
    ultimately have s: "slot_holds ?s (log ! k)" "ev_sequence (log ! k) = ?c"
      using rel unfolding history_rel_def window_def by auto
    have "sequence ?s = ?c" "ucast (header ?s) = ev_node (log ! k)"
      using slot_holds_fields s by auto
    moreover have "take (Suc r) (drop k log) = log ! k # take r (drop (Suc k) log)"
      using False Suc.prems by (simp add: Cons_nth_drop_Suc [symmetric])
    moreover have "emcy_prev_sequence ?c = of_nat (length log - Suc k)"
      using prev_sequence_of_nat [OF n] by (simp add: diff_commute)
    ultimately show ?thesis
      using c s Suc.IH [of "Suc k"] Suc.prems False
      by (simp add: and_one_odd slot_holds_def wanted_def Let_def)
  qed simp
qed simp

definition emcy_run :: "emcy_input list \<Rightarrow> emcy_history" where
  "emcy_run inputs = fold publish_input inputs (emcy_reset emcy_blank)"

definition emcy_log :: "emcy_input list \<Rightarrow> emcy_event list" where
  "emcy_log inputs = fold log_publish inputs []"

lemma run_rel:
  assumes "\<forall>i \<in> set inputs. input_ok i" "history_rel h log"
  shows "history_rel (fold publish_input inputs h) (fold log_publish inputs log)"
  using assms by (induction inputs arbitrary: h log) (simp_all add: publish_rel)

section \<open>The sequence lock\<close>

text \<open>
  The writer performs the stores of \<open>publish_stores\<close> one at a time; a reader loads the guard, the four
  fields and the guard again, and accepts the fields when both guards are the same even number. The
  writer also performs the stores of \<open>lely_rtt_master_emcy_reset\<close>, one at a time, whenever a runtime is
  started, cleaned up or initialised; it does so under the readers, who take no part in the lifecycle.

  The components \<open>cur\<close>, \<open>published\<close>, \<open>snap\<close>, \<open>since\<close> and \<open>wiped\<close> are history variables: the fields being
  written, all complete publications, and, since the reader loaded the guard, the fields at that
  moment, the number of publications begun and whether a store of a reset has been performed.
\<close>

type_synonym fields = "u32 \<times> u32 \<times> u32 \<times> u32"

datatype reader_pc = RIdle | RLoad u32 "u32 list" | RDone fields | RRetry

record seqlock =
  slot :: emcy_slot
  todo :: "store list"
  wipe :: "store list"
  cur :: fields
  published :: "fields set"
  reader :: reader_pc
  snap :: fields
  since :: nat
  wiped :: bool

definition fields_of :: "emcy_slot \<Rightarrow> fields" where
  "fields_of s = (sequence s, header s, msef_lo s, msef_hi s)"

definition stores_of :: "u32 \<Rightarrow> fields \<Rightarrow> store list" where
  "stores_of g f = (case f of (sq, hdr, lo, hi) \<Rightarrow> publish_stores g sq hdr lo hi)"

definition load_field :: "nat \<Rightarrow> emcy_slot \<Rightarrow> u32" where
  "load_field n s = (if n = 0 then sequence s else if n = 1 then header s else if n = 2 then msef_lo s else msef_hi s)"

definition lock_init :: seqlock where
  "lock_init = \<lparr>slot = \<lparr>guard = 0, sequence = 0, header = 0, msef_lo = 0, msef_hi = 0\<rparr>, todo = [],
     wipe = [], cur = (0, 0, 0, 0), published = {}, reader = RIdle, snap = (0, 0, 0, 0), since = 0, wiped = False\<rparr>"

inductive lock_step :: "seqlock \<Rightarrow> seqlock \<Rightarrow> bool" where
  publish: "todo l = [] \<Longrightarrow> wipe l = [] \<Longrightarrow>
    lock_step l (l\<lparr>todo := stores_of (base_guard (guard (slot l))) f, cur := f\<rparr>)"
| store: "todo l = st # rest \<Longrightarrow>
    lock_step l (l\<lparr>slot := slot_store st (slot l), todo := rest,
      published := (if rest = [] then insert (cur l) (published l) else published l),
      since := (if length rest = 5 then since l + 1 else since l)\<rparr>)"
| reset: "todo l = [] \<Longrightarrow> wipe l = [] \<Longrightarrow> lock_step l (l\<lparr>wipe := reset_stores\<rparr>)"
| wipe: "wipe l = st # rest \<Longrightarrow>
    lock_step l (l\<lparr>slot := slot_store st (slot l), wipe := rest, wiped := True\<rparr>)"
| probe: "reader l = RIdle \<Longrightarrow>
    lock_step l (if guard (slot l) = 0 \<or> guard (slot l) AND 1 \<noteq> 0 then l\<lparr>reader := RRetry\<rparr>
      else l\<lparr>reader := RLoad (guard (slot l)) [], snap := fields_of (slot l), since := 0, wiped := False\<rparr>)"
| load: "reader l = RLoad g xs \<Longrightarrow> length xs < 4 \<Longrightarrow>
    lock_step l (l\<lparr>reader := RLoad g (xs @ [load_field (length xs) (slot l)])\<rparr>)"
| accept: "reader l = RLoad g [sq, hdr, lo, hi] \<Longrightarrow>
    lock_step l (l\<lparr>reader := if g \<noteq> guard (slot l) \<or> guard (slot l) AND 1 \<noteq> 0 then RRetry
      else RDone (sq, hdr, lo, hi)\<rparr>)"
| again: "reader l \<in> range RDone \<union> {RRetry} \<Longrightarrow> lock_step l (l\<lparr>reader := RIdle\<rparr>)"

definition next_guard :: "u32 \<Rightarrow> u32" where
  "next_guard g = base_guard g + 2"

lemma next_guard_unat:
  assumes "even (unat g)"
  shows "unat (next_guard g) = (if unat g = 0xfffffffe then 2 else unat g + 2)"
proof -
  obtain m where m: "unat g = 2 * m" using assms by (elim evenE)
  have "unat g < 4294967296" by (rule unat_u32_lt)
  then have hi: "unat g > 0xfffffffc \<longleftrightarrow> unat g = 0xfffffffe" unfolding m by auto
  have "unat (base_guard g) = (if unat g > 0xfffffffc then 0 else unat g)"
    using assms by (simp add: base_guard_def and_one_odd Let_def word_less_nat_alt)
  then show ?thesis using base_guard_stored(1) [of g] hi by (simp add: next_guard_def)
qed

lemma next_guard_iter:
  assumes "even (unat g)" "unat g \<noteq> 0"
  shows "unat ((next_guard ^^ n) g) = 2 * ((unat g div 2 - 1 + n) mod 0x7fffffff + 1)"
proof (induction n)
  case 0
  have "unat g < 4294967296" by (rule unat_u32_lt)
  then have "unat g div 2 - 1 < 0x7fffffff" by linarith
  then show ?case using assms by (auto elim!: evenE)
next
  case (Suc n)
  let ?u = "unat g div 2 - 1 + n"
  have lt: "?u mod 0x7fffffff < 0x7fffffff" by simp
  have "unat (next_guard ((next_guard ^^ n) g)) = (if 2 * (?u mod 0x7fffffff + 1) = 0xfffffffe then 2
      else 2 * (?u mod 0x7fffffff + 1) + 2)"
    using next_guard_unat [of "(next_guard ^^ n) g"] Suc.IH by simp
  also have "\<dots> = 2 * (Suc ?u mod 0x7fffffff + 1)"
    using lt by (auto simp: mod_Suc)
  finally show ?case by simp
qed

lemma next_guard_distinct:
  assumes "even (unat g)" "unat g \<noteq> 0" "(next_guard ^^ n) g = g" "n < 0x7fffffff"
  shows "n = 0"
proof -
  have "(unat g div 2 - 1 + n) mod 0x7fffffff = (unat g div 2 - 1) mod 0x7fffffff"
    using next_guard_iter [OF assms(1,2), of n] next_guard_iter [OF assms(1,2), of 0] assms(3)
    by (metis add.right_neutral add_right_cancel funpow_0 mult_left_cancel zero_neq_numeral)
  then have "0x7fffffff dvd n" by (metis add_diff_cancel_left' le_add1 mod_eq_dvd_iff_nat)
  then show ?thesis using assms(4) by (auto dest: dvd_imp_le)
qed

definition stable :: "seqlock \<Rightarrow> bool" where
  "stable l \<longleftrightarrow> guard (slot l) = 0 \<or> guard (slot l) \<noteq> 0 \<and> even (unat (guard (slot l)))
     \<and> fields_of (slot l) \<in> published l"

definition load_fields :: "fields \<Rightarrow> u32 list" where
  "load_fields f = [fst f, fst (snd f), fst (snd (snd f)), snd (snd (snd f))]"

text \<open>The writer is between two publications, or has performed the first \<open>k\<close> stores of one.\<close>

definition resting :: "seqlock \<Rightarrow> bool" where
  "resting l \<longleftrightarrow> stable l \<and> (todo l = [] \<or> todo l = stores_of (base_guard (guard (slot l))) (cur l))"

definition writing :: "u32 \<Rightarrow> nat \<Rightarrow> seqlock \<Rightarrow> bool" where
  "writing b k l \<longleftrightarrow> 1 \<le> k \<and> k \<le> 5 \<and> todo l = drop k (stores_of b (cur l)) \<and> guard (slot l) = b + 1
     \<and> even (unat b) \<and> unat b \<le> 0xfffffffc
     \<and> take (k - 1) (load_fields (fields_of (slot l))) = take (k - 1) (load_fields (cur l))"

text \<open>What the reader knows: its guard is \<open>since\<close> publications behind the writer's.\<close>

definition behind :: "u32 \<Rightarrow> u32 list \<Rightarrow> seqlock \<Rightarrow> bool" where
  "behind g xs l \<longleftrightarrow> g \<noteq> 0 \<and> even (unat g) \<and> snap l \<in> published l \<and> length xs \<le> 4
     \<and> (resting l \<longrightarrow> guard (slot l) = (next_guard ^^ since l) g)
     \<and> (\<forall>b k. writing b k l \<longrightarrow> since l > 0 \<and> b + 2 = (next_guard ^^ since l) g)
     \<and> (since l = 0 \<longrightarrow> fields_of (slot l) = snap l \<and> xs = take (length xs) (load_fields (snap l)))"

definition reader_ok :: "seqlock \<Rightarrow> bool" where
  "reader_ok l \<longleftrightarrow> (case reader l of RLoad g xs \<Rightarrow> wiped l \<or> behind g xs l
     | RDone f \<Rightarrow> wiped l \<or> since l \<ge> 0x7fffffff \<or> f \<in> published l | _ \<Rightarrow> True)"

text \<open>A reset is not interleaved with a publication, and keeps the guard zero after its first store.\<close>

definition wiping :: "seqlock \<Rightarrow> bool" where
  "wiping l \<longleftrightarrow> wipe l = [] \<or> todo l = [] \<and> (wipe l = reset_stores
     \<or> guard (slot l) = 0 \<and> set (wipe l) \<subseteq> set (tl reset_stores))"

definition lock_inv :: "seqlock \<Rightarrow> bool" where
  "lock_inv l \<longleftrightarrow> (resting l \<or> (\<exists>b k. writing b k l)) \<and> reader_ok l"

lemma odd_guard:
  fixes b :: u32
  assumes "even (unat b)" "unat b \<le> 0xfffffffc"
  shows "odd (unat (b + 1))" "unat (b + 1) = unat b + 1" "unat (b + 2) = unat b + 2"
  using assms by (simp_all add: unat_word_ariths)

lemma writing_not_resting: "writing b k l \<Longrightarrow> \<not> resting l"
  using odd_guard(1) [of b] odd_guard(2) [of b]
  by (auto simp: writing_def resting_def stable_def)

lemma stores_of_length [simp]: "length (stores_of g f) = 6"
  by (simp add: stores_of_def publish_stores_def split: prod.split)

lemma base_guard_idem: "guard s = 0 \<or> even (unat (guard s)) \<Longrightarrow> next_guard (guard s) = base_guard (guard s) + 2"
  by (simp add: next_guard_def)

lemma stores_of_nth:
  "stores_of b f ! 0 = SGuard (b + 1)" "stores_of b f ! 1 = SSequence (fst f)" "stores_of b f ! 2 = SHeader (fst (snd f))"
  "stores_of b f ! 3 = SLo (fst (snd (snd f)))" "stores_of b f ! 4 = SHi (snd (snd (snd f)))" "stores_of b f ! 5 = SGuard (b + 2)"
  "stores_of b f ! Suc 0 = SSequence (fst f)" "hd (drop 5 (stores_of b f)) = SGuard (b + 2)"
  by (cases f; simp add: stores_of_def publish_stores_def)+

text \<open>The first store of a publication.\<close>

lemma first_store:
  assumes r: "resting l" and t: "todo l = stores_of (base_guard (guard (slot l))) (cur l)"
    and l': "l' = l\<lparr>slot := slot_store (hd (todo l)) (slot l), todo := tl (todo l), since := since l + 1\<rparr>"
  shows "writing (base_guard (guard (slot l))) 1 l'"
proof -
  have "hd (todo l) = SGuard (base_guard (guard (slot l)) + 1)" unfolding t by (simp add: hd_conv_nth stores_of_nth flip: length_0_conv)
  then show ?thesis using t base_guard_even by (simp add: l' writing_def drop_Suc)
qed

lemma next_store:
  assumes w: "writing b k l" and k: "k < 5"
  shows "writing b (Suc k) (l\<lparr>slot := slot_store (hd (todo l)) (slot l), todo := tl (todo l)\<rparr>)"
proof -
  have hd: "hd (todo l) = stores_of b (cur l) ! k" "tl (todo l) = drop (Suc k) (stores_of b (cur l))"
    using w by (simp_all add: writing_def hd_drop_conv_nth drop_Suc tl_drop)
  have "k = 1 \<or> k = 2 \<or> k = 3 \<or> k = 4" using w k by (auto simp: writing_def)
  then show ?thesis
    using w hd by (elim disjE) (simp_all add: writing_def stores_of_nth load_fields_def fields_of_def)
qed

lemma last_store:
  assumes w: "writing b 5 l"
  defines "l' \<equiv> l\<lparr>slot := slot_store (hd (todo l)) (slot l), todo := [], published := insert (cur l) (published l)\<rparr>"
  shows "resting l'" "guard (slot l') = b + 2"
proof -
  have hd: "hd (todo l) = SGuard (b + 2)"
    using w by (simp add: writing_def stores_of_nth)
  show g: "guard (slot l') = b + 2" by (simp add: l'_def hd)
  have "fields_of (slot l') = cur l"
    using w by (simp add: l'_def stores_of_nth fields_of_def load_fields_def writing_def prod_eq_iff)
  moreover have "even (unat (b + 2)) \<and> b + 2 \<noteq> 0"
    using odd_guard [of b] w by (auto simp: writing_def)
  ultimately show "resting l'" using g by (simp add: resting_def stable_def) (simp add: l'_def)
qed

lemma writing_unique: "writing b k l \<Longrightarrow> writing b' k' l \<Longrightarrow> b' = b"
  by (simp add: writing_def)

lemma resting_reader [simp]:
  "resting (l\<lparr>reader := r\<rparr>) = resting l" "writing b k (l\<lparr>reader := r\<rparr>) = writing b k l"
  "resting (l\<lparr>since := n\<rparr>) = resting l" "writing b k (l\<lparr>since := n\<rparr>) = writing b k l"
  "resting (l\<lparr>wiped := w\<rparr>) = resting l" "writing b k (l\<lparr>wiped := w\<rparr>) = writing b k l"
  "resting (l\<lparr>wipe := ws\<rparr>) = resting l" "writing b k (l\<lparr>wipe := ws\<rparr>) = writing b k l"
  "resting (l\<lparr>snap := f\<rparr>) = resting l" "writing b k (l\<lparr>snap := f\<rparr>) = writing b k l"
  by (simp_all add: resting_def stable_def writing_def)

text \<open>How the reader's knowledge moves with the writer.\<close>

lemma behind_writing:
  assumes w: "writing b k l" and s: "since l > 0" "b + 2 = (next_guard ^^ since l) g"
    and g: "g \<noteq> 0" "even (unat g)" "snap l \<in> published l" "length xs \<le> 4"
  shows "behind g xs l"
proof -
  have "b' = b" if "writing b' k' l" for b' k' using writing_unique [OF w that] .
  moreover have "since l \<noteq> 0" using s(1) by simp
  ultimately show ?thesis using assms writing_not_resting [OF w] unfolding behind_def by blast
qed

lemma behind_parts:
  assumes "behind g xs l"
  shows "g \<noteq> 0" "even (unat g)" "snap l \<in> published l" "length xs \<le> 4"
    "resting l \<Longrightarrow> guard (slot l) = (next_guard ^^ since l) g"
    "writing b k l \<Longrightarrow> since l > 0" "writing b k l \<Longrightarrow> b + 2 = (next_guard ^^ since l) g"
  using assms by (auto simp: behind_def)

lemma behind_first:
  assumes b: "behind g xs l" and r: "resting l" and t: "todo l = stores_of (base_guard (guard (slot l))) (cur l)"
  shows "behind g xs (l\<lparr>slot := slot_store (hd (todo l)) (slot l), todo := tl (todo l), since := since l + 1\<rparr>)"
  by (rule behind_writing [OF first_store [OF r t refl]])
    (use behind_parts [OF b] r in \<open>simp_all add: next_guard_def\<close>)

lemma behind_next:
  assumes b: "behind g xs l" and w: "writing bg k l" and k: "k < 5"
  shows "behind g xs (l\<lparr>slot := slot_store (hd (todo l)) (slot l), todo := tl (todo l)\<rparr>)"
  by (rule behind_writing [OF next_store [OF w k]])
    (use behind_parts(1-4) [OF b] behind_parts(6,7) [OF b w] in simp_all)

lemma behind_last:
  assumes b: "behind g xs l" and w: "writing bg 5 l"
  shows "behind g xs (l\<lparr>slot := slot_store (hd (todo l)) (slot l), todo := [], published := insert (cur l) (published l)\<rparr>)"
    (is "behind g xs ?l")
proof -
  have "\<not> writing b' k' ?l" for b' k' using writing_not_resting last_store(1) [OF w] by blast
  then show ?thesis
    using last_store [OF w] behind_parts(1-4) [OF b] behind_parts(6,7) [OF b w] by (simp add: behind_def)
qed

lemma reader_ok_writer:
  assumes ok: "reader_ok l" and pub: "published l \<subseteq> published l'" and si: "since l \<le> since l'"
    and rd: "reader l' = reader l" "wiped l' = wiped l" and be: "\<And>g xs. behind g xs l \<Longrightarrow> behind g xs l'"
  shows "reader_ok l'"
proof (cases "reader l")
  case (RDone f)
  then show ?thesis using ok pub si rd by (auto simp: reader_ok_def)
qed (use ok rd be in \<open>auto simp: reader_ok_def\<close>)

lemma publish_inv:
  assumes inv: "lock_inv l" and t: "todo l = []"
  shows "lock_inv (l\<lparr>todo := stores_of (base_guard (guard (slot l))) f, cur := f\<rparr>)" (is "lock_inv ?l")
proof -
  have "\<not> writing b k l" for b k using t by (auto simp: writing_def simp flip: length_0_conv)
  then have r: "resting l" using inv by (auto simp: lock_inv_def)
  then have r': "resting ?l" by (simp add: resting_def stable_def)
  then have "\<not> writing b k ?l" for b k using writing_not_resting by blast
  then have "behind g xs l \<Longrightarrow> behind g xs ?l" for g xs using r by (auto simp: behind_def)
  then show ?thesis using inv r' reader_ok_writer [of l ?l] by (simp add: lock_inv_def)
qed

lemma store_inv:
  assumes inv: "lock_inv l" and t: "todo l = st # rest"
  shows "lock_inv (l\<lparr>slot := slot_store st (slot l), todo := rest,
      published := (if rest = [] then insert (cur l) (published l) else published l),
      since := (if length rest = 5 then since l + 1 else since l)\<rparr>)" (is "lock_inv ?l")
proof -
  have hd: "hd (todo l) = st" "tl (todo l) = rest" using t by simp_all
  have ok: "reader_ok l" using inv by (simp add: lock_inv_def)
  consider (first) "resting l" | (mid) b k where "writing b k l" "k < 5" | (last) b where "writing b 5 l"
    using inv by (fastforce simp: lock_inv_def writing_def)
  then show ?thesis
  proof cases
    case first
    then have ts: "todo l = stores_of (base_guard (guard (slot l))) (cur l)" using t by (simp add: resting_def)
    then have "length (todo l) = 6" by simp
    then have len: "length rest = 5" using t by simp
    then have eq: "?l = l\<lparr>slot := slot_store (hd (todo l)) (slot l), todo := tl (todo l), since := since l + 1\<rparr>"
      using hd by auto
    show ?thesis unfolding eq lock_inv_def
      using first_store [OF first ts refl] reader_ok_writer [OF ok] behind_first [OF _ first ts] by auto
  next
    case mid
    then have "length rest < 5" "rest \<noteq> []" using t by (auto simp: writing_def dest: arg_cong [of _ _ length])
    then have eq: "?l = l\<lparr>slot := slot_store (hd (todo l)) (slot l), todo := tl (todo l)\<rparr>" using hd by auto
    show ?thesis unfolding eq lock_inv_def
      using next_store [OF mid] reader_ok_writer [OF ok] behind_next [OF _ mid] by auto
  next
    case last
    then have "rest = []" using t by (auto simp: writing_def dest: arg_cong [of _ _ length])
    then have eq: "?l = l\<lparr>slot := slot_store (hd (todo l)) (slot l), todo := [],
        published := insert (cur l) (published l)\<rparr>" using hd by auto
    show ?thesis unfolding eq lock_inv_def
      using last_store(1) [OF last] reader_ok_writer [OF ok _ _ _ _ behind_last [OF _ last]] by auto
  qed
qed

lemma load_fields_nth: "n < 4 \<Longrightarrow> load_fields (fields_of s) ! n = load_field n s"
  by (auto simp: load_fields_def fields_of_def load_field_def less_Suc_eq numeral_eq_Suc)

lemma load_fields_length [simp]: "length (load_fields f) = 4"
  by (simp add: load_fields_def)

lemma probe_inv:
  assumes inv: "lock_inv l" and ok: "\<not> (guard (slot l) = 0 \<or> guard (slot l) AND 1 \<noteq> 0)"
  shows "lock_inv (l\<lparr>reader := RLoad (guard (slot l)) [], snap := fields_of (slot l), since := 0, wiped := False\<rparr>)"
proof -
  have even: "even (unat (guard (slot l)))" using ok by (simp add: and_one_odd)
  have nw: "\<not> writing b k l" for b k using odd_guard(1) [of b] even by (auto simp: writing_def)
  then have r: "resting l" using inv by (auto simp: lock_inv_def)
  then have "fields_of (slot l) \<in> published l" using ok by (simp add: resting_def stable_def)
  then show ?thesis using r nw ok even by (simp add: lock_inv_def reader_ok_def behind_def)
qed

lemma load_inv:
  assumes inv: "lock_inv l" and rd: "reader l = RLoad g xs" "length xs < 4" and nw: "\<not> wiped l"
  shows "lock_inv (l\<lparr>reader := RLoad g (xs @ [load_field (length xs) (slot l)])\<rparr>)"
proof -
  have b: "behind g xs l" using inv rd nw by (simp add: lock_inv_def reader_ok_def)
  have "xs @ [load_field (length xs) (slot l)] = take (Suc (length xs)) (load_fields (snap l))" if "since l = 0"
    using b that rd(2) load_fields_nth [of "length xs" "slot l"]
    by (simp add: behind_def take_Suc_conv_app_nth)
  then have "behind g (xs @ [load_field (length xs) (slot l)]) (l\<lparr>reader := RLoad g (xs @ [load_field (length xs) (slot l)])\<rparr>)"
    using b rd(2) unfolding behind_def by simp
  then show ?thesis using inv by (simp add: lock_inv_def reader_ok_def)
qed

lemma accept_inv:
  assumes inv: "lock_inv l" and rd: "reader l = RLoad g [sq, hdr, lo, hi]" and nw: "\<not> wiped l"
    and same: "g = guard (slot l)" "guard (slot l) AND 1 = 0"
  shows "lock_inv (l\<lparr>reader := RDone (sq, hdr, lo, hi)\<rparr>)"
proof -
  have b: "behind g [sq, hdr, lo, hi] l" using inv rd nw by (simp add: lock_inv_def reader_ok_def)
  have "even (unat (guard (slot l)))" using same(2) and_one_odd by metis
  then have "\<not> writing b k l" for b k using odd_guard(1) [of b] by (auto simp: writing_def)
  then have r: "resting l" using inv by (auto simp: lock_inv_def)
  then have "(next_guard ^^ since l) g = g" using behind_parts(5) [OF b] same(1) by simp
  then have "since l = 0" if "since l < 0x7fffffff"
    using next_guard_distinct [of g "since l"] behind_parts(1,2) [OF b] that by (simp add: unat_eq_zero)
  moreover have "(sq, hdr, lo, hi) = snap l" if "since l = 0"
    using b that by (simp add: behind_def load_fields_def prod_eq_iff)
  ultimately have "since l \<ge> 0x7fffffff \<or> (sq, hdr, lo, hi) \<in> published l"
    using behind_parts(3) [OF b] by (cases "since l < 0x7fffffff") auto
  then show ?thesis using inv by (simp add: lock_inv_def reader_ok_def)
qed

text \<open>A reset ends what the reader knows, and leaves the writer at rest.\<close>

lemma wipe_inv:
  assumes inv: "lock_inv l" and wi: "wiping l" and w: "wipe l = st # rest"
  shows "lock_inv (l\<lparr>slot := slot_store st (slot l), wipe := rest, wiped := True\<rparr>)"
proof -
  have t: "todo l = []" using wi w by (simp add: wiping_def)
  have "st = SGuard 0 \<or> guard (slot l) = 0 \<and> st \<in> set (tl reset_stores)"
    using wi w by (auto simp: wiping_def reset_stores_def)
  then have "guard (slot_store st (slot l)) = 0" by (auto simp: reset_stores_def)
  then have "resting (l\<lparr>slot := slot_store st (slot l)\<rparr>)" using t by (simp add: resting_def stable_def)
  then have "resting (l\<lparr>slot := slot_store st (slot l), wipe := rest, wiped := True\<rparr>)" by (simp only: resting_reader)
  then show ?thesis by (simp add: lock_inv_def reader_ok_def split: reader_pc.split)
qed

lemma wiping_step: "lock_step l l' \<Longrightarrow> wiping l \<Longrightarrow> wiping l'"
  by (induction rule: lock_step.induct) (auto simp: wiping_def reset_stores_def)

lemma lock_step_inv [step_inv]: "lock_step l l' \<Longrightarrow> lock_inv l \<Longrightarrow> wiping l \<Longrightarrow> lock_inv l'"
proof (induction rule: lock_step.induct)
  case (load l g xs)
  then show ?case using load_inv [of l g xs] by (cases "wiped l") (auto simp: lock_inv_def reader_ok_def)
next
  case (reset l)
  have "behind g xs (l\<lparr>wipe := reset_stores\<rparr>) = behind g xs l" for g xs by (simp add: behind_def)
  then have "reader_ok (l\<lparr>wipe := reset_stores\<rparr>) = reader_ok l" by (simp add: reader_ok_def split: reader_pc.split)
  then show ?case using reset by (simp add: lock_inv_def)
next
  case (probe l)
  then show ?case using probe_inv [of l] by (auto simp: lock_inv_def reader_ok_def)
next
  case (accept l g sq hdr lo hi)
  then show ?case using accept_inv [of l g sq hdr lo hi] by (cases "wiped l") (auto simp: lock_inv_def reader_ok_def)
next
  case (again l)
  then show ?case by (simp add: lock_inv_def reader_ok_def)
qed (use publish_inv store_inv wipe_inv in auto)

lemma lock_init_inv: "lock_inv lock_init"
  by (simp add: lock_inv_def lock_init_def resting_def stable_def reader_ok_def)

lemma lock_reachable_inv: "lock_step\<^sup>*\<^sup>* lock_init l \<Longrightarrow> lock_inv l \<and> wiping l"
proof (induction rule: rtranclp_induct)
  case base
  then show ?case using lock_init_inv by (simp add: wiping_def lock_init_def)
next
  case (step l l')
  then show ?case using lock_step_inv wiping_step by blast
qed

section \<open>Properties\<close>

text \<open>C33. The history is the log of the last events. After any sequence of received emergency messages, a
  read that is not disturbed by the owner returns without retrying: the newest event of the requested
  node (of any node for 0) among the last \<open>PKG_LELY_MASTER_EMCY_HISTORY_DEPTH\<close> ones since the sequence
  number last started over (the lookup does not search earlier ones, as \<open>runtime.h\<close> says), decoded field by field and with its sequence number, or \<open>-RT_EBUSY\<close> when
  there is none.
\<close>

theorem emcy_history_refines_log:
  assumes "\<forall>i \<in> set inputs. input_ok i" "unat node \<le> 127"
  shows "get_emcy (emcy_run inputs) node
    = Some (case find (wanted node) (take EMCY_HISTORY_DEPTH (emcy_log inputs)) of
        None \<Rightarrow> Inl RT_EBUSY | Some ev \<Rightarrow> Inr ev)"
proof -
  have rel: "history_rel (emcy_run inputs) (emcy_log inputs)"
    unfolding emcy_run_def emcy_log_def using run_rel [OF assms(1) reset_rel [of emcy_blank]] by (simp add: emcy_blank_def)
  show ?thesis
  proof (cases "emcy_log inputs = []")
    case True
    then show ?thesis using rel assms(2) by (simp add: get_emcy_def history_rel_def)
  next
    case False
    have len: "length (emcy_log inputs) < 2 ^ 32" using rel by (simp add: history_rel_def)
    have "(of_nat (length (emcy_log inputs)) :: u32) \<noteq> 0"
      using unat_u32 [OF len] False by (metis length_0_conv unat_0)
    then show ?thesis
      using rel assms(2) scan_correct [OF rel, of 0 EMCY_HISTORY_DEPTH node]
      by (auto simp: get_emcy_def history_rel_def split: option.split)
  qed
qed

theorem emcy_history_refines_log_witness:
  "get_emcy (emcy_run [(5, 0x1000, 1, None), (6, 0x2310, 3, Some [1, 2, 3, 4, 5])]) 5
    = Some (Inr \<lparr>ev_node = 5, ev_code = 0x1000, ev_register = 1, ev_msef = [0, 0, 0, 0, 0], ev_sequence = 1\<rparr>)"
  using emcy_history_refines_log [of "[(5, 0x1000, 1, None), (6, 0x2310, 3, Some [1, 2, 3, 4, 5])]" 5]
  by (simp add: input_ok_def emcy_log_def log_publish_def wanted_def EMCY_HISTORY_DEPTH_def msef_none)

text \<open>C34. The sequence lock gives whole events. Whatever the interleaving of the owner's stores with the
  loads of a reader, the fields that the reader accepts are those of one publication, never a mixture
  of two, provided that during the read the history is not reset and fewer than \<open>2 ^ 31 - 1\<close>
  publications to the slot begin (after as many the 32-bit guard comes back to the value the reader has
  seen). Both conditions are needed: \<open>emcy_reset_tears\<close> below shows that a reset and one publication
  during the read can make the reader accept a mixture.
\<close>

theorem emcy_read_untorn:
  assumes "lock_step\<^sup>*\<^sup>* lock_init l" "reader l = RDone f" "since l < 0x7fffffff" "\<not> wiped l"
  shows "f \<in> published l"
  using lock_reachable_inv [OF assms(1)] assms(2,3,4) by (simp add: lock_inv_def reader_ok_def)

text \<open>A run of the relation, for the witness.\<close>

datatype lock_act = Publish fields | Store | Reset | Wipe | Probe | Load | Accept

fun lock_exec :: "lock_act list \<Rightarrow> seqlock \<Rightarrow> seqlock option" where
  "lock_exec [] l = Some l"
| "lock_exec (Publish f # as) l = (if todo l = [] \<and> wipe l = []
     then lock_exec as (l\<lparr>todo := stores_of (base_guard (guard (slot l))) f, cur := f\<rparr>) else None)"
| "lock_exec (Store # as) l = (case todo l of [] \<Rightarrow> None
     | st # rest \<Rightarrow> lock_exec as (l\<lparr>slot := slot_store st (slot l), todo := rest,
         published := (if rest = [] then insert (cur l) (published l) else published l),
         since := (if length rest = 5 then since l + 1 else since l)\<rparr>))"
| "lock_exec (Reset # as) l = (if todo l = [] \<and> wipe l = [] then lock_exec as (l\<lparr>wipe := reset_stores\<rparr>) else None)"
| "lock_exec (Wipe # as) l = (case wipe l of [] \<Rightarrow> None
     | st # rest \<Rightarrow> lock_exec as (l\<lparr>slot := slot_store st (slot l), wipe := rest, wiped := True\<rparr>))"
| "lock_exec (Probe # as) l = (if reader l = RIdle
     then lock_exec as (if guard (slot l) = 0 \<or> guard (slot l) AND 1 \<noteq> 0 then l\<lparr>reader := RRetry\<rparr>
       else l\<lparr>reader := RLoad (guard (slot l)) [], snap := fields_of (slot l), since := 0, wiped := False\<rparr>) else None)"
| "lock_exec (Load # as) l = (case reader l of
       RLoad g xs \<Rightarrow> if length xs < 4 then lock_exec as (l\<lparr>reader := RLoad g (xs @ [load_field (length xs) (slot l)])\<rparr>) else None
     | _ \<Rightarrow> None)"
| "lock_exec (Accept # as) l = (case reader l of
       RLoad g [sq, hdr, lo, hi] \<Rightarrow> lock_exec as (l\<lparr>reader := if g \<noteq> guard (slot l) \<or> guard (slot l) AND 1 \<noteq> 0 then RRetry
         else RDone (sq, hdr, lo, hi)\<rparr>)
     | _ \<Rightarrow> None)"

lemma lock_exec_sound: "lock_exec as l = Some l' \<Longrightarrow> lock_step\<^sup>*\<^sup>* l l'"
proof (induction as l rule: lock_exec.induct)
  case (2 f as l)
  then show ?case by (auto split: if_splits intro: converse_rtranclp_into_rtranclp lock_step.publish)
next
  case (3 as l)
  then show ?case by (auto split: list.splits intro: converse_rtranclp_into_rtranclp lock_step.store)
next
  case (4 as l)
  then show ?case by (auto split: if_splits intro: converse_rtranclp_into_rtranclp lock_step.reset)
next
  case (5 as l)
  then show ?case by (auto split: list.splits intro: converse_rtranclp_into_rtranclp lock_step.wipe)
next
  case (6 as l)
  from 6(2) have "reader l = RIdle" by (simp split: if_splits)
  then show ?case using 6 lock_step.probe [of l] by (simp add: converse_rtranclp_into_rtranclp)
next
  case (7 as l)
  then show ?case by (auto split: reader_pc.splits if_splits intro: converse_rtranclp_into_rtranclp lock_step.load)
next
  case (8 as l)
  then show ?case
    by (auto split: reader_pc.splits list.splits intro: converse_rtranclp_into_rtranclp lock_step.accept)
qed simp

theorem emcy_read_untorn_witness:
  "\<exists>l. lock_step\<^sup>*\<^sup>* lock_init l \<and> reader l = RDone (1, 7, 8, 9) \<and> since l < 0x7fffffff
    \<and> \<not> wiped l \<and> (1, 7, 8, 9) \<in> published l"
proof -
  let ?as = "[Publish (1, 7, 8, 9), Store, Store, Store, Store, Store, Store, Probe, Load, Load, Load, Load, Accept]"
  obtain l where l: "lock_exec ?as lock_init = Some l" "reader l = RDone (1, 7, 8, 9)" "since l = 0" "\<not> wiped l"
    by (simp add: lock_init_def stores_of_def publish_stores_def base_guard_def fields_of_def load_field_def Let_def)
  have "lock_step\<^sup>*\<^sup>* lock_init l" using lock_exec_sound [OF l(1)] .
  then show ?thesis using emcy_read_untorn [of l] l(2,3,4) by auto
qed

text \<open>
  A reset during the read is not noticed. The reader has seen the guard 2 and loaded the sequence number
  and the header of the first event; the history is reset and the first event after that brings the guard
  back to 2 with the same sequence number 1, so the reader accepts the header of one event with the
  manufacturer field of another.
\<close>

lemma emcy_reset_tears:
  "\<exists>l. lock_step\<^sup>*\<^sup>* lock_init l \<and> reader l = RDone (1, 7, 5, 6) \<and> published l = {(1, 7, 8, 9), (1, 4, 5, 6)}"
proof -
  let ?as = "[Publish (1, 7, 8, 9), Store, Store, Store, Store, Store, Store, Probe, Load, Load,
    Reset, Wipe, Wipe, Wipe, Wipe, Wipe, Publish (1, 4, 5, 6), Store, Store, Store, Store, Store, Store, Load, Load, Accept]"
  obtain l where l: "lock_exec ?as lock_init = Some l" "reader l = RDone (1, 7, 5, 6)"
      "published l = {(1, 7, 8, 9), (1, 4, 5, 6)}"
    by (simp add: lock_init_def stores_of_def publish_stores_def reset_stores_def base_guard_def fields_of_def load_field_def
        Let_def insert_commute)
  show ?thesis using lock_exec_sound [OF l(1)] l(2,3) by blast
qed

end
