(* ===== verification/Bytes.thy ===== *)
theory Bytes
  imports Prelude
begin

text \<open>
  Little-endian fields in byte strings (\<open>upstream/include/lely/util/endian.h\<close>): the stores
  \<open>stle_u16\<close> and \<open>stle_u32\<close>, the loads \<open>ldle_u16\<close> and \<open>ldle_u32\<close>, and that they are inverse.
\<close>

section \<open>Model\<close>

definition stle_u16 :: "u16 \<Rightarrow> bytes" where
  "stle_u16 x = [ucast x, ucast (drop_bit 8 x)]"

definition ldle_u16 :: "bytes \<Rightarrow> u16" where
  "ldle_u16 src = ucast (src ! 0) OR push_bit 8 (ucast (src ! 1))"

definition stle_u32 :: "u32 \<Rightarrow> bytes" where
  "stle_u32 x = [ucast x, ucast (drop_bit 8 x), ucast (drop_bit 16 x), ucast (drop_bit 24 x)]"

definition ldle_u32 :: "bytes \<Rightarrow> u32" where
  "ldle_u32 src = ucast (src ! 0) OR push_bit 8 (ucast (src ! 1)) OR push_bit 16 (ucast (src ! 2))
     OR push_bit 24 (ucast (src ! 3))"

section \<open>Round trips\<close>

lemma stle_length [simp]: "length (stle_u16 x) = 2" "length (stle_u32 y) = 4"
  by (simp_all add: stle_u16_def stle_u32_def)

lemma list_cases:
  "length xs = 2 \<Longrightarrow> \<exists>a b. xs = [a, b]" "length xs = 4 \<Longrightarrow> \<exists>a b c d. xs = [a, b, c, d]"
  by (auto simp: length_Suc_conv numeral_eq_Suc)

lemma ldle_stle_u16 [simp]: "ldle_u16 (stle_u16 x) = x"
proof (rule bit_word_eqI)
  fix n assume "n < LENGTH(16)"
  then have n: "n < 16" by simp
  consider "n < 8" | m where "n = 8 + m" "m < 8"
  proof -
    have "n < 8 \<or> n = 8 + (n - 8) \<and> n - 8 < 8" using n by linarith
    then show thesis using that by blast
  qed
  then show "bit (ldle_u16 (stle_u16 x)) n = bit x n"
    by cases (auto simp: ldle_u16_def stle_u16_def bit_simps)
qed

lemma ldle_stle_u32 [simp]: "ldle_u32 (stle_u32 x) = x"
proof (rule bit_word_eqI)
  fix n assume "n < LENGTH(32)"
  then have n: "n < 32" by simp
  consider "n < 8" | m where "n = 8 + m" "m < 8" | m where "n = 16 + m" "m < 8" | m where "n = 24 + m" "m < 8"
  proof -
    have "n < 8 \<or> n = 8 + (n - 8) \<and> n - 8 < 8 \<or> n = 16 + (n - 16) \<and> n - 16 < 8 \<or> n = 24 + (n - 24) \<and> n - 24 < 8"
      using n by linarith
    then show thesis using that by blast
  qed
  then show "bit (ldle_u32 (stle_u32 x)) n = bit x n"
    by cases (auto simp: ldle_u32_def stle_u32_def bit_simps)
qed

lemma stle_ldle_u16: "length bs = 2 \<Longrightarrow> stle_u16 (ldle_u16 bs) = bs"
  by (drule list_cases(1)) (auto intro!: bit_word_eqI simp: stle_u16_def ldle_u16_def bit_simps)

lemma stle_ldle_u32: "length bs = 4 \<Longrightarrow> stle_u32 (ldle_u32 bs) = bs"
  by (drule list_cases(2)) (auto intro!: bit_word_eqI simp: stle_u32_def ldle_u32_def bit_simps)

lemma ldle_append [simp]:
  "length bs = 2 \<Longrightarrow> ldle_u16 (bs @ r) = ldle_u16 bs" "length bs = 4 \<Longrightarrow> ldle_u32 (bs @ r) = ldle_u32 bs"
  by (simp_all add: ldle_u16_def ldle_u32_def nth_append)

end
