(* ===== verification/Rtt_Dcf.thy ===== *)
theory Rtt_Dcf
  imports Rtt_Types Bytes
begin

text \<open>
  Framing of a concise DCF that the application hands over for a remote node
  (\<open>lely_rtt_master_cfg_validate_dcf\<close> and \<open>lely_rtt_runtime_configure_nmt_dcf\<close> of
  \<open>port/rtthread/src/master_cfg.c\<close>): a count, then for each entry an index, a sub-index, a length and
  as many bytes. A read outside the buffer is the value \<open>None\<close>.
\<close>

unbundle bit_operations_syntax

section \<open>Model\<close>

definition lely_rtt_master_cfg_load_u32 :: "bytes \<Rightarrow> nat \<Rightarrow> u32 option" where
  "lely_rtt_master_cfg_load_u32 d i = (if i + 4 > length d then None
     else Some (ucast (d ! i) OR push_bit 8 (ucast (d ! (i + 1))) OR push_bit 16 (ucast (d ! (i + 2)))
       OR push_bit 24 (ucast (d ! (i + 3)))))"

text \<open>The loop, with the number of entries left.\<close>

fun dcf_loop :: "bytes \<Rightarrow> size_t \<Rightarrow> nat \<Rightarrow> size_t \<Rightarrow> (size_t option) option" where
  "dcf_loop d sz 0 offset = Some (Some offset)"
| "dcf_loop d sz (Suc n) offset =
     (if sz - offset < 7 then Some None
      else case lely_rtt_master_cfg_load_u32 d (unat offset + 3) of
        None \<Rightarrow> None
      | Some value_size \<Rightarrow>
          let offset = offset + 7
          in if value_size > sz - offset then Some None else dcf_loop d sz n (offset + value_size))"

definition lely_rtt_master_cfg_validate_dcf :: "bytes \<Rightarrow> size_t \<Rightarrow> (u32 option) option" where
  "lely_rtt_master_cfg_validate_dcf d sz =
     (if sz < 4 then Some None
      else case lely_rtt_master_cfg_load_u32 d 0 of
        None \<Rightarrow> None
      | Some count \<Rightarrow>
          if count = 0 then Some None
          else case dcf_loop d sz (unat count) 4 of
            None \<Rightarrow> None
          | Some None \<Rightarrow> Some None
          | Some (Some offset) \<Rightarrow> if offset \<noteq> sz then Some None else Some (Some count))"

section \<open>The format\<close>

type_synonym dcf_entry = "u16 \<times> u8 \<times> bytes"

definition dcf_entry_bytes :: "dcf_entry \<Rightarrow> bytes" where
  "dcf_entry_bytes e = (case e of (index, subindex, val) \<Rightarrow>
     stle_u16 index @ [subindex] @ stle_u32 (of_nat (length val)) @ val)"

definition dcf_entries_bytes :: "dcf_entry list \<Rightarrow> bytes" where
  "dcf_entries_bytes es = concat (map dcf_entry_bytes es)"

definition dcf_bytes :: "dcf_entry list \<Rightarrow> bytes" where
  "dcf_bytes es = stle_u32 (of_nat (length es)) @ dcf_entries_bytes es"

lemma entries_Cons [simp]: "dcf_entries_bytes (e # es) = dcf_entry_bytes e @ dcf_entries_bytes es"
  "dcf_entries_bytes [] = []"
  by (simp_all add: dcf_entries_bytes_def)

lemma load_u32_ld:
  "i + 4 \<le> length d \<Longrightarrow> lely_rtt_master_cfg_load_u32 d i = Some (ldle_u32 (take 4 (drop i d)))"
  by (simp add: lely_rtt_master_cfg_load_u32_def ldle_u32_def)

lemma entry_length: "length (dcf_entry_bytes (ix, sub, val)) = 7 + length val"
  by (simp add: dcf_entry_bytes_def)

text \<open>One round of the loop, in terms of the bytes that are left.\<close>

lemma unat_sub_of_nat:
  assumes "unat (sz :: u32) = n" "off \<le> n"
  shows "unat (sz - of_nat off) = n - off"
proof -
  have "n < 4294967296" using assms(1) unat_u32_lt [of sz] by simp
  then have "unat (of_nat off :: u32) = off" using assms(2) by (intro unat_u32) simp
  then show ?thesis using assms by (simp add: unat_sub word_le_nat_alt)
qed

lemma dcf_round:
  assumes sz: "unat sz = length d" and off: "off \<le> length d"
  shows "dcf_loop d sz (Suc n) (of_nat off) =
     (if length (drop off d) < 7 then Some None
      else let v = unat (ldle_u32 (take 4 (drop 3 (drop off d))))
           in if v > length (drop (7 + off) d) then Some None else dcf_loop d sz n (of_nat (off + 7 + v)))"
proof -
  have len: "length d < 4294967296" using sz unat_u32_lt [of sz] by simp
  have off_u: "unat (of_nat off :: u32) = off" using off len by (intro unat_u32) simp
  have a: "(sz - of_nat off < 7) = (length (drop off d) < 7)"
    using unat_sub_of_nat [OF sz off] by (simp add: word_less_nat_alt)
  show ?thesis
  proof (cases "length (drop off d) < 7")
    case False
    have ld: "lely_rtt_master_cfg_load_u32 d (unat (of_nat off :: u32) + 3) = Some (ldle_u32 (take 4 (drop 3 (drop off d))))"
      using False off_u by (simp add: load_u32_ld add.commute)
    have "of_nat off + 7 = (of_nat (off + 7) :: u32)" by simp
    moreover have "unat (sz - of_nat (off + 7)) = length d - (off + 7)" using False by (intro unat_sub_of_nat [OF sz]) simp
    ultimately show ?thesis using False a ld by (simp add: Let_def word_less_nat_alt add.commute)
  qed (simp add: a)
qed

text \<open>Parsing one entry off a byte string.\<close>

lemma entry_of_bytes:
  assumes len: "7 \<le> length bs" and n: "n = unat (ldle_u32 (take 4 (drop 3 bs)))" "n \<le> length (drop 7 bs)"
  obtains ix sub val where "bs = dcf_entry_bytes (ix, sub, val) @ drop (7 + n) bs" "length val = n"
proof -
  have split: "drop i bs = take k (drop i bs) @ drop (i + k) bs" for i k
    by (metis append_take_drop_id drop_drop add.commute)
  have parts: "bs = take 2 bs @ take 1 (drop 2 bs) @ take 4 (drop 3 bs) @ take n (drop 7 bs) @ drop (7 + n) bs"
    using split [of 0 2] split [of 2 1] split [of 3 4] split [of 7 n] by simp
  have "take 1 (drop 2 bs) = [bs ! 2]" using len by (simp flip: Cons_nth_drop_Suc)
  moreover have "take 2 bs = stle_u16 (ldle_u16 (take 2 bs))" using len by (simp add: stle_ldle_u16)
  moreover have "take 4 (drop 3 bs) = stle_u32 (of_nat n)" using len n(1) by (simp add: stle_ldle_u32)
  ultimately have "bs = dcf_entry_bytes (ldle_u16 (take 2 bs), bs ! 2, take n (drop 7 bs)) @ drop (7 + n) bs"
    using parts n(2) by (simp add: dcf_entry_bytes_def add.commute)
  then show thesis using that n(2) by simp
qed

lemma entry_size:
  assumes "bs = dcf_entry_bytes (ix, sub, val) @ r" "length val < 2 ^ 32"
  shows "unat (ldle_u32 (take 4 (drop 3 bs))) = length val"
  using assms unat_u32 [of "length val"] by (simp add: dcf_entry_bytes_def)

text \<open>The loop accepts exactly a sequence of entries, and never reads outside the buffer.\<close>

lemma dcf_loop_iff:
  assumes sz: "unat sz = length d" and off: "off \<le> length d"
  shows "dcf_loop d sz n (of_nat off) \<noteq> None
    \<and> (dcf_loop d sz n (of_nat off) = Some (Some sz) \<longleftrightarrow> (\<exists>es. length es = n \<and> drop off d = dcf_entries_bytes es))"
  using off
proof (induction n arbitrary: off)
  case 0
  have len: "length d < 4294967296" using sz unat_u32_lt [of sz] by simp
  have "unat (of_nat off :: u32) = off" using 0 len by (intro unat_u32) simp
  then have "of_nat off = sz \<longleftrightarrow> off = length d" using sz by (metis word_unat_eq_iff)
  then show ?case using 0 by auto
next
  case (Suc n)
  have len: "length d < 4294967296" using sz unat_u32_lt [of sz] by simp
  let ?bs = "drop off d" and ?v = "unat (ldle_u32 (take 4 (drop 3 (drop off d))))"
  have fits: "7 \<le> length ?bs \<and> ?v = length val \<and> ?v \<le> length (drop (7 + off) d)
      \<and> drop (off + 7 + ?v) d = dcf_entries_bytes es"
    if "?bs = dcf_entries_bytes ((ix, sub, val) # es)" for ix sub val es
  proof -
    have l: "length ?bs = 7 + length val + length (dcf_entries_bytes es)" using that by (simp add: entry_length)
    then have "length val < 2 ^ 32" using len by (simp add: less_diff_conv2)
    then have v: "?v = length val" using entry_size [of ?bs ix sub val "dcf_entries_bytes es"] that by simp
    have "drop (length (dcf_entry_bytes (ix, sub, val))) ?bs = dcf_entries_bytes es" using that by simp
    then have "drop (7 + length val) ?bs = dcf_entries_bytes es" by (simp only: entry_length)
    then show ?thesis using l v by (simp add: add.commute add.left_commute)
  qed
  show ?case
  proof (cases "7 \<le> length ?bs \<and> ?v \<le> length (drop (7 + off) d)")
    case True
    then have le: "off + 7 + ?v \<le> length d" by auto
    obtain ix sub val where e: "?bs = dcf_entry_bytes (ix, sub, val) @ drop (7 + ?v) ?bs"
    proof -
      have v: "?v \<le> length (drop 7 ?bs)" using le Suc.prems by simp
      show thesis by (rule entry_of_bytes [OF conjunct1 [OF True] refl v]) (rule that)
    qed
    have "(\<exists>es. length es = Suc n \<and> ?bs = dcf_entries_bytes es)
        \<longleftrightarrow> (\<exists>es. length es = n \<and> drop (off + 7 + ?v) d = dcf_entries_bytes es)" (is "?L \<longleftrightarrow> ?R")
    proof
      assume ?L
      then obtain x es where "length es = n" "?bs = dcf_entries_bytes (x # es)" by (auto simp: length_Suc_conv)
      then show ?R using fits by (metis prod_cases3)
    next
      assume ?R
      then obtain es where "length es = n" "drop (off + 7 + ?v) d = dcf_entries_bytes es" by blast
      then show ?L using e by (intro exI [of _ "(ix, sub, val) # es"]) (simp add: ac_simps)
    qed
    then show ?thesis using dcf_round [OF sz Suc.prems, of n] True Suc.IH [OF le] by (simp add: Let_def)
  next
    case False
    have "\<not> (\<exists>es. length es = Suc n \<and> ?bs = dcf_entries_bytes es)"
    proof
      assume "\<exists>es. length es = Suc n \<and> ?bs = dcf_entries_bytes es"
      then obtain x es where x: "?bs = dcf_entries_bytes (x # es)" by (auto simp: length_Suc_conv)
      obtain ix sub val where "x = (ix, sub, val)" by (rule prod_cases3)
      then show False using fits [of ix sub val es] x False by blast
    qed
    then show ?thesis using dcf_round [OF sz Suc.prems, of n] False by (auto simp: Let_def not_le)
  qed
qed

section \<open>Installing a source\<close>

text \<open>
  \<open>lely_rtt_runtime_configure_nmt_dcf\<close>, with the number of entries of the source of each node. The size
  of the header of a source and whether \<open>rt_malloc\<close> succeeds are arguments; an accepted buffer is
  copied.
\<close>

definition lely_rtt_runtime_configure_nmt_dcf ::
  "size_t \<Rightarrow> bool \<Rightarrow> runtime \<Rightarrow> u8 \<Rightarrow> bytes \<Rightarrow> (u8 \<Rightarrow> (u32 \<times> bytes) option)
     \<Rightarrow> (rt_err \<times> (u8 \<Rightarrow> (u32 \<times> bytes) option)) option" where
  "lely_rtt_runtime_configure_nmt_dcf hdr malloc r node d sources =
     (if \<not> event_initialized r \<or> owner_thread r \<or> node = 0 \<or> unat node > 127 then Some (RT_EINVAL, sources)
      else if sources node \<noteq> None then Some (RT_EBUSY, sources)
      else case lely_rtt_master_cfg_validate_dcf d (of_nat (length d)) of
        None \<Rightarrow> None
      | Some None \<Rightarrow> Some (RT_EINVAL, sources)
      | Some (Some entries) \<Rightarrow>
          if of_nat (length d) > (- 1 :: size_t) - hdr then Some (RT_EINVAL, sources)
          else if \<not> malloc then Some (RT_ENOMEM, sources)
          else Some (RT_EOK, sources(node \<mapsto> (entries, d))))"

text \<open>The validation accepts exactly the encodings of non-empty lists of entries.\<close>

lemma dcf_validation:
  assumes "length d < 2 ^ 32"
  shows "\<exists>r. lely_rtt_master_cfg_validate_dcf d (of_nat (length d)) = Some r
    \<and> (\<forall>n. r = Some n \<longleftrightarrow> (\<exists>es. d = dcf_bytes es \<and> es \<noteq> [] \<and> length es < 2 ^ 32 \<and> n = of_nat (length es)))"
proof -
  let ?sz = "of_nat (length d) :: u32"
  have sz: "unat ?sz = length d" using assms by (rule unat_u32)
  have head: "take 4 (dcf_bytes es) = stle_u32 (of_nat (length es))" for es by (simp add: dcf_bytes_def)
  show ?thesis
  proof (cases "length d < 4")
    case True
    then have "lely_rtt_master_cfg_validate_dcf d ?sz = Some None"
      using sz by (simp add: lely_rtt_master_cfg_validate_dcf_def word_less_nat_alt)
    moreover have "d \<noteq> dcf_bytes es" for es using True by (auto simp: dcf_bytes_def)
    ultimately show ?thesis by auto
  next
    case False
    let ?count = "ldle_u32 (take 4 d)"
    have d: "d = stle_u32 ?count @ drop 4 d" using False by (simp add: stle_ldle_u32)
    have loop: "dcf_loop d ?sz (unat ?count) 4 \<noteq> None"
      "dcf_loop d ?sz (unat ?count) 4 = Some (Some ?sz)
        \<longleftrightarrow> (\<exists>es. length es = unat ?count \<and> drop 4 d = dcf_entries_bytes es)"
      using dcf_loop_iff [OF sz, of 4 "unat ?count"] False by auto
    have wf: "(\<exists>es. d = dcf_bytes es \<and> es \<noteq> [] \<and> length es < 2 ^ 32 \<and> n = of_nat (length es)) \<longleftrightarrow>
        n = ?count \<and> ?count \<noteq> 0 \<and> (\<exists>es. length es = unat ?count \<and> drop 4 d = dcf_entries_bytes es)" (is "?L \<longleftrightarrow> ?R") for n
    proof
      assume ?L
      then obtain es where es: "d = dcf_bytes es" "es \<noteq> []" "length es < 2 ^ 32" "n = of_nat (length es)" by blast
      then have "unat (of_nat (length es) :: u32) = length es" using unat_u32 by blast
      moreover have c: "?count = of_nat (length es)" "drop 4 d = dcf_entries_bytes es" using es(1) by (simp_all add: dcf_bytes_def)
      ultimately show ?R using es(2,4) by (auto simp: unat_eq_zero [symmetric])
    next
      assume ?R
      then obtain es where "length es = unat ?count" "drop 4 d = dcf_entries_bytes es" "n = ?count" "?count \<noteq> 0" by blast
      then show ?L using d unat_u32_lt [of ?count] by (intro exI [of _ es]) (auto simp: dcf_bytes_def unat_eq_zero)
    qed
    have "lely_rtt_master_cfg_validate_dcf d ?sz = (if ?count = 0 then Some None
        else if dcf_loop d ?sz (unat ?count) 4 = Some (Some ?sz) then Some (Some ?count) else Some None)"
      using False sz loop(1)
      by (auto simp: lely_rtt_master_cfg_validate_dcf_def word_less_nat_alt load_u32_ld split: option.split)
    then show ?thesis unfolding wf using loop(2) by auto
  qed
qed

lemma dcf_validation_iff:
  assumes "length d < 2 ^ 32"
  shows "lely_rtt_master_cfg_validate_dcf d (of_nat (length d)) = Some (Some n)
    \<longleftrightarrow> (\<exists>es. d = dcf_bytes es \<and> es \<noteq> [] \<and> length es < 2 ^ 32 \<and> n = of_nat (length es))"
  using dcf_validation [OF assms] by auto

section \<open>Properties\<close>

text \<open>The validation of a concise DCF reads only inside the buffer, ends, and accepts exactly the byte
  strings that are a count followed by that many entries and nothing else, with at least one entry;
  the number it reports is the number of entries.\<close>

theorem dcf_validation_exact:
  assumes "length d < 2 ^ 32"
  shows "\<exists>r. lely_rtt_master_cfg_validate_dcf d (of_nat (length d)) = Some r
    \<and> (\<forall>n. r = Some n \<longleftrightarrow> (\<exists>es. d = dcf_bytes es \<and> es \<noteq> [] \<and> length es < 2 ^ 32 \<and> n = of_nat (length es)))"
  by (rule dcf_validation [OF assms])

theorem dcf_validation_exact_witness:
  "lely_rtt_master_cfg_validate_dcf [1, 0, 0, 0, 0x17, 0x10, 0, 2, 0, 0, 0, 0xE8, 3] 13 = Some (Some 1)"
proof -
  let ?d = "[1, 0, 0, 0, 0x17, 0x10, 0, 2, 0, 0, 0, 0xE8, 3] :: bytes"
  have "?d = dcf_bytes [(0x1017, 0, [0xE8, 3])]"
    by (simp add: dcf_bytes_def dcf_entry_bytes_def stle_u16_def stle_u32_def)
  then have es: "\<exists>es. ?d = dcf_bytes es \<and> es \<noteq> [] \<and> length es < 2 ^ 32 \<and> (1 :: u32) = of_nat (length es)"
    by (intro exI [of _ "[(0x1017, 0, [0xE8, 3])]"]) simp
  obtain r where r: "lely_rtt_master_cfg_validate_dcf ?d (of_nat (length ?d)) = Some r"
    "\<forall>n. r = Some n \<longleftrightarrow> (\<exists>es. ?d = dcf_bytes es \<and> es \<noteq> [] \<and> length es < 2 ^ 32 \<and> n = of_nat (length es))"
    using dcf_validation_exact [of ?d] by auto
  then have "r = Some 1" using es by blast
  then show ?thesis using r(1) by simp
qed

end
