(* ===== verification/Co_Csdo_Dcf.thy ===== *)
theory Co_Csdo_Dcf
  imports Rtt_Dcf
begin

text \<open>
  The download of a concise DCF by the client-SDO of the stack (\<open>co_csdo_dn_dcf_req\<close> and its confirmation
  function \<open>co_csdo_dn_dcf_dn_con\<close> in \<open>upstream/src/co/csdo.c\<close>), on a target with 32-bit pointers. The
  state keeps the number of entries and the bytes that are left; each step submits one download or
  reports the end. Reading outside the buffer is a value of its own.
\<close>

section \<open>Model\<close>

record dn_dcf =
  dcf_n :: u32
  dcf_rest :: bytes \<comment> \<open>from \<open>begin\<close> to \<open>end\<close>\<close>

datatype dcf_act = Dcf_req u16 u8 bytes dn_dcf | Dcf_con u16 u8 u32 | Dcf_outside

definition co_csdo_dn_dcf_dn_con :: "dn_dcf \<Rightarrow> u16 \<Rightarrow> u8 \<Rightarrow> u32 \<Rightarrow> dcf_act" where
  "co_csdo_dn_dcf_dn_con dcf idx subidx ac =
     (if ac = 0 \<and> dcf_n dcf \<noteq> 0
      then
        let b = dcf_rest dcf
        in if length b < 2 then Dcf_con 0 0 CO_SDO_AC_TYPE_LEN_LO
           else let idx = ldle_u16 (take 2 b); b = drop 2 b
                in if length b < 1 then Dcf_con idx 0 CO_SDO_AC_TYPE_LEN_LO
                   else let subidx = hd b; b = drop 1 b
                        in if length b < 4 then Dcf_con idx subidx CO_SDO_AC_TYPE_LEN_LO
                           else let sz = ldle_u32 (take 4 b); b = drop 4 b
                                in if int (length b) < sint sz then Dcf_con idx subidx CO_SDO_AC_TYPE_LEN_LO
                                   else if length b < unat sz then Dcf_outside
                                   else Dcf_req idx subidx (take (unat sz) b)
                                          \<lparr>dcf_n = dcf_n dcf - 1, dcf_rest = drop (unat sz) b\<rparr>
      else Dcf_con idx subidx ac)"

definition co_csdo_dn_dcf_req :: "bytes \<Rightarrow> dcf_act" where
  "co_csdo_dn_dcf_req b =
     (if length b < 4 then co_csdo_dn_dcf_dn_con \<lparr>dcf_n = 0, dcf_rest = []\<rparr> 0 0 CO_SDO_AC_TYPE_LEN_LO
      else co_csdo_dn_dcf_dn_con \<lparr>dcf_n = ldle_u32 (take 4 b), dcf_rest = drop 4 b\<rparr> 0 0 0)"

text \<open>
  The downloads that are submitted and the confirmation at the end, \<open>None\<close> when the reader leaves the
  buffer. The remote node answers each download with an abort code, zero for success. The fuel counts
  confirmations.
\<close>

fun dcf_run :: "nat \<Rightarrow> (dcf_entry \<Rightarrow> u32) \<Rightarrow> dcf_act \<Rightarrow> (dcf_entry list \<times> u16 \<times> u8 \<times> u32) option" where
  "dcf_run fuel ans (Dcf_con idx subidx ac) = Some ([], idx, subidx, ac)"
| "dcf_run fuel ans Dcf_outside = None"
| "dcf_run 0 ans (Dcf_req idx subidx val dcf) = None"
| "dcf_run (Suc fuel) ans (Dcf_req idx subidx val dcf) =
     map_option (\<lambda>(es, con). ((idx, subidx, val) # es, con))
       (dcf_run fuel ans (co_csdo_dn_dcf_dn_con dcf idx subidx (ans (idx, subidx, val))))"

section \<open>The entries as a list\<close>

text \<open>Downloading a list of entries in order, until one is refused.\<close>

fun download :: "(dcf_entry \<Rightarrow> u32) \<Rightarrow> u16 \<Rightarrow> u8 \<Rightarrow> dcf_entry list \<Rightarrow> dcf_entry list \<times> u16 \<times> u8 \<times> u32" where
  "download ans idx subidx [] = ([], idx, subidx, 0)"
| "download ans idx subidx (e # es) =
     (if ans e \<noteq> 0 then ([e], fst e, fst (snd e), ans e)
      else case download ans (fst e) (fst (snd e)) es of (ds, con) \<Rightarrow> (e # ds, con))"

lemma sint_of_nat_u32:
  assumes "k < 2 ^ 31"
  shows "sint (of_nat k :: u32) = int k"
proof -
  have "unat (of_nat k :: u32) = k" using assms by (intro unat_u32) simp
  then have "uint (of_nat k :: u32) = int k" by (metis uint_nat)
  then show ?thesis using assms by (simp add: sint_uint signed_take_bit_int_eq_self)
qed

lemma sint_negative:
  assumes "2 ^ 31 \<le> unat (x :: u32)"
  shows "sint x < 0"
proof -
  have "unat x div 2 ^ 31 = 1"
    using assms unat_u32_lt [of x] by (simp add: div_nat_eqI)
  then have "bit (unat x) 31" by (simp add: bit_iff_odd)
  then have "bit (uint x) 31" by (simp add: bit_simps)
  then show ?thesis by (simp add: sint_uint)
qed

lemma con_entry:
  assumes "length val < 2 ^ 31" "n \<noteq> 0"
  shows "co_csdo_dn_dcf_dn_con \<lparr>dcf_n = n, dcf_rest = dcf_entry_bytes (ix, sub, val) @ r\<rparr> idx subidx 0
    = Dcf_req ix sub val \<lparr>dcf_n = n - 1, dcf_rest = r\<rparr>"
proof -
  have "unat (of_nat (length val) :: u32) = length val" using assms(1) by (intro unat_u32) simp
  moreover have "sint (of_nat (length val) :: u32) = int (length val)" using assms(1) by (rule sint_of_nat_u32)
  ultimately show ?thesis using assms(2)
    by (simp add: co_csdo_dn_dcf_dn_con_def dcf_entry_bytes_def Let_def)
qed

lemma of_nat_u32_nonzero: "0 < k \<Longrightarrow> k < 2 ^ 32 \<Longrightarrow> (of_nat k :: u32) \<noteq> 0"
  using unat_u32 [of k] by (metis less_numeral_extra(3) unat_0)

lemma run_download:
  assumes "\<forall>(ix, sub, val) \<in> set es. length val < 2 ^ 31" "length es < 2 ^ 32" "length es \<le> fuel"
  shows "dcf_run fuel ans (co_csdo_dn_dcf_dn_con \<lparr>dcf_n = of_nat (length es), dcf_rest = dcf_entries_bytes es\<rparr> idx subidx 0)
    = Some (download ans idx subidx es)"
  using assms
proof (induction es arbitrary: fuel idx subidx)
  case Nil
  then show ?case by (simp add: co_csdo_dn_dcf_dn_con_def)
next
  case (Cons e es)
  obtain ix sub val where e: "e = (ix, sub, val)" by (rule prod_cases3)
  obtain f where f: "fuel = Suc f" "length es \<le> f" using Cons.prems(3) by (cases fuel) auto
  have "(of_nat (Suc (length es)) :: u32) \<noteq> 0" using Cons.prems(2) by (intro of_nat_u32_nonzero) simp_all
  then have req: "co_csdo_dn_dcf_dn_con \<lparr>dcf_n = of_nat (length (e # es)), dcf_rest = dcf_entries_bytes (e # es)\<rparr> idx subidx 0
      = Dcf_req ix sub val \<lparr>dcf_n = of_nat (length es), dcf_rest = dcf_entries_bytes es\<rparr>"
    using con_entry [of val "of_nat (length (e # es))"] Cons.prems(1) e by simp
  show ?case
  proof (cases "ans e = 0")
    case True
    then show ?thesis
      unfolding req f(1) using Cons.IH [of f ix sub] Cons.prems f(2) e
      by (simp split: prod.split)
  next
    case False
    then show ?thesis unfolding req f(1) using e by (simp add: co_csdo_dn_dcf_dn_con_def)
  qed
qed

lemma entries_bytes_val_length:
  "(ix, sub, val) \<in> set es \<Longrightarrow> length val \<le> length (dcf_entries_bytes es)"
  by (induction es) (auto simp: entry_length)

lemma entries_count_length: "length es \<le> length (dcf_entries_bytes es)"
  by (induction es) (auto simp: entry_length)

section \<open>Properties\<close>

text \<open>C26. A concise DCF that the port accepts is downloaded as it was meant: the client-SDO of the stack
  submits the entries of the file one by one, in order, each with its value, stops at the first one the
  node refuses and then reports its index and abort code, and reports success when all were accepted;
  it never reads outside the buffer.\<close>

theorem dcf_validated_download:
  assumes "length d < 2 ^ 31" "lely_rtt_master_cfg_validate_dcf d (of_nat (length d)) = Some (Some n)"
  shows "\<exists>es. d = dcf_bytes es \<and> n = of_nat (length es)
    \<and> dcf_run (unat n) ans (co_csdo_dn_dcf_req d) = Some (download ans 0 0 es)"
proof -
  have "length d < 2 ^ 32" using assms(1) by simp
  then obtain es where es: "d = dcf_bytes es" "length es < 2 ^ 32" "n = of_nat (length es)"
    using dcf_validation_iff [of d n] assms(2) by blast
  have "dcf_run (unat n) ans (co_csdo_dn_dcf_req d) = Some (download ans 0 0 es)"
    using run_download [of es "unat n" ans 0 0] es assms(1) entries_bytes_val_length [of _ _ _ es] unat_u32 [of "length es"]
    by (force simp: co_csdo_dn_dcf_req_def dcf_bytes_def)
  with es show ?thesis by blast
qed

theorem dcf_validated_download_witness:
  "let d = dcf_bytes [(0x1017, 0, [0xE8, 3])]
   in lely_rtt_master_cfg_validate_dcf d 13 = Some (Some 1)
    \<and> (\<exists>es. d = dcf_bytes es \<and> dcf_run 1 (\<lambda>_. 0) (co_csdo_dn_dcf_req d) = Some (download (\<lambda>_. 0) 0 0 es))"
proof -
  let ?es = "[(0x1017, 0, [0xE8, 3])] :: dcf_entry list"
  let ?d = "dcf_bytes ?es"
  have len: "length ?d = 13" by (simp add: dcf_bytes_def entry_length)
  have v: "lely_rtt_master_cfg_validate_dcf ?d (of_nat (length ?d)) = Some (Some 1)"
    using dcf_validation_iff [of ?d 1] len by (auto intro!: exI [of _ ?es])
  have "\<exists>es. ?d = dcf_bytes es \<and> (1 :: u32) = of_nat (length es)
      \<and> dcf_run (unat (1 :: u32)) (\<lambda>_. 0) (co_csdo_dn_dcf_req ?d) = Some (download (\<lambda>_. 0) 0 0 es)"
    by (rule dcf_validated_download [OF _ v]) (simp add: len)
  then have "\<exists>es. ?d = dcf_bytes es \<and> dcf_run 1 (\<lambda>_. 0) (co_csdo_dn_dcf_req ?d) = Some (download (\<lambda>_. 0) 0 0 es)"
    unfolding unat_1 by blast
  then show ?thesis using v unfolding Let_def by (simp add: len)
qed

text \<open>The reader of the stack alone does not bound the length of an entry: the conversion to the
  signed pointer difference makes a length of \<open>2 ^ 31\<close> or more negative, so the test that the value fits
  passes and the download would read outside the buffer. The validation of the port refuses every such
  file.\<close>

theorem dcf_reader_leaves_buffer:
  assumes "2 ^ 31 \<le> unat sz" "length val < 2 ^ 31" "n \<noteq> 0"
    "d = stle_u32 n @ stle_u16 ix @ [sub] @ stle_u32 sz @ val"
  shows "co_csdo_dn_dcf_req d = Dcf_outside \<and> lely_rtt_master_cfg_validate_dcf d (of_nat (length d)) = Some None"
proof -
  have sz: "length val < unat sz" using assms(1,2) by simp
  have "sint sz < 0" by (rule sint_negative) (rule assms(1))
  then have out: "co_csdo_dn_dcf_req d = Dcf_outside"
    using assms(3,4) sz by (simp add: co_csdo_dn_dcf_req_def co_csdo_dn_dcf_dn_con_def Let_def)
  have "d \<noteq> dcf_bytes es" if ne: "es \<noteq> []" for es
  proof
    assume "d = dcf_bytes es"
    moreover obtain ix' sub' val' es' where "es = (ix', sub', val') # es'" using ne by (cases es) auto
    ultimately have eq: "drop 7 d = stle_u32 (of_nat (length val')) @ val' @ dcf_entries_bytes es'"
      by (simp add: dcf_bytes_def dcf_entry_bytes_def)
    have "drop 7 d = stle_u32 sz @ val" using assms(4) by simp
    with eq have "stle_u32 sz @ val = stle_u32 (of_nat (length val')) @ val' @ dcf_entries_bytes es'" by simp
    then have "stle_u32 sz = stle_u32 (of_nat (length val'))" "val = val' @ dcf_entries_bytes es'" by auto
    then have "sz = of_nat (length val')" "length val' < 2 ^ 31" using ldle_stle_u32 assms(2) by (metis, simp)
    then have "unat sz = length val'" "length val' < 2 ^ 31" using unat_u32 [of "length val'"] by simp_all
    then show False using assms(1) by simp
  qed
  moreover have len: "length d < 2 ^ 32" using assms(2,4) by simp
  ultimately have "lely_rtt_master_cfg_validate_dcf d (of_nat (length d)) \<noteq> Some (Some k)" for k
    using dcf_validation_iff [OF len, of k] by blast
  then have "lely_rtt_master_cfg_validate_dcf d (of_nat (length d)) = Some None"
    using dcf_validation [OF len] by (metis not_Some_eq)
  with out show ?thesis by blast
qed

theorem dcf_reader_leaves_buffer_witness:
  "let d = stle_u32 1 @ stle_u16 0x1017 @ [0] @ stle_u32 0x80000000 @ [1, 2]
   in co_csdo_dn_dcf_req d = Dcf_outside \<and> lely_rtt_master_cfg_validate_dcf d 13 = Some None"
  using dcf_reader_leaves_buffer [of "0x80000000" "[1, 2]" 1 _ "0x1017" 0, OF _ _ _ refl] by (simp add: Let_def)

end
