(* ===== verification/Co_Nmt_Cfg.thy ===== *)
theory Co_Nmt_Cfg
  imports Prelude
begin

text \<open>
  The configuration request of the NMT master (\<open>upstream/src/co/nmt_cfg.c\<close>): a state machine that may
  restore the default parameters of a node and wait for it to boot, downloads a DCF and a concise DCF to
  it, hands over to the application and reports the result.

  The record keeps what the service does to its collaborators: whether the CAN receiver and the timer
  are active, whether a download is under way, the NMT commands it sends and the results it reports. The
  state is freed when the result is reported. Calling a handler that the current state does not have is
  the value \<open>None\<close>: the source asserts that it exists and calls through the pointer.
\<close>

section \<open>Model\<close>

datatype cfg_state = Abort_state | Restore_state | Reset_state | Store_1f20_state | Store_1f22_state | User_state

text \<open>A sub-object of the device description in object 1F20.\<close>

record dcf_sub =
  ds_idx :: u16
  ds_subidx :: u8
  ds_write :: bool \<comment> \<open>\<open>CO_ACCESS_WRITE\<close>\<close>
  ds_file :: bool \<comment> \<open>\<open>CO_OBJ_FLAGS_DOWNLOAD_FILE\<close>\<close>
  ds_default :: bool \<comment> \<open>the value equals the default\<close>

record co_nmt_cfg =
  st :: "cfg_state option"
  recv_active :: bool
  timer_active :: bool
  cfg_assignment :: u32
  ac :: u32
  dev_1f20 :: "dcf_sub list option"
  sdo_active :: "(u16 \<times> u8) option" \<comment> \<open>the download under way\<close>
  nmt_resets :: "bool list" \<comment> \<open>\<open>co_nmt_cs_req\<close>: reset communication or reset node\<close>
  waiting_user :: bool \<comment> \<open>the application owes a result\<close>
  results :: "u32 list" \<comment> \<open>\<open>co_nmt_cfg_con\<close>; the service is destroyed with the first\<close>

text \<open>What an upload from the local dictionary gives: no sub-object, an abort, a part, or all bytes.\<close>

datatype upload = Up_absent | Up_abort u32 | Up_part | Up_bytes bytes

text \<open>The local dictionary, the client-SDO and the application.\<close>

record cfg_env =
  e_1f81 :: u32
  e_1f8a :: u8
  e_no_dcf :: bool \<comment> \<open>\<open>LELY_NO_CO_DCF\<close>\<close>
  e_1f20 :: upload \<comment> \<open>absent also when 1F21 names another format\<close>
  e_parse :: "bytes \<Rightarrow> dcf_sub list option" \<comment> \<open>\<open>co_dev_create_from_dcf_text\<close>\<close>
  e_1f22 :: upload
  e_dn_val :: "u16 \<Rightarrow> u8 \<Rightarrow> bool" \<comment> \<open>\<open>co_csdo_dn_val_req\<close> succeeds\<close>
  e_dn_dcf :: "u32 option option" \<comment> \<open>\<open>co_csdo_dn_dcf_req\<close>: \<open>None\<close> when it fails, the abort code of a
    confirmation made before it returns\<close>
  e_user :: "u32 option" \<comment> \<open>the result the application gives before \<open>cfg_ind\<close> returns\<close>

type_synonym trans = "co_nmt_cfg \<Rightarrow> cfg_state option \<times> co_nmt_cfg"

definition abort_on_enter :: trans where
  "abort_on_enter c = (None, c\<lparr>recv_active := False, timer_active := False, results := results c @ [ac c]\<rparr>)"

definition restore_on_enter :: "cfg_env \<Rightarrow> trans" where
  "restore_on_enter E c =
     (let c = c\<lparr>ac := 0, cfg_assignment := e_1f81 E\<rparr>
      in if e_1f81 E AND 0x01 = 0 then (Some Abort_state, c)
         else if e_1f81 E AND 0x80 = 0 then (Some Store_1f20_state, c)
         else if e_1f8a E = 0 then (Some Store_1f20_state, c)
         else if \<not> e_dn_val E 0x1011 (e_1f8a E) then (Some Abort_state, c\<lparr>ac := CO_SDO_AC_ERROR\<rparr>)
         else (None, c\<lparr>sdo_active := Some (0x1011, e_1f8a E)\<rparr>))"

definition restore_on_dn_con :: "u8 \<Rightarrow> u32 \<Rightarrow> trans" where
  "restore_on_dn_con subidx a c =
     (if a \<noteq> 0 then (Some Abort_state, c\<lparr>ac := a\<rparr>)
      else (Some Reset_state, c\<lparr>nmt_resets := nmt_resets c @ [subidx = 0x02]\<rparr>))"

definition reset_on_enter :: trans where
  "reset_on_enter c = (None, c\<lparr>recv_active := True, timer_active := True\<rparr>)"

definition reset_on_recv :: trans where
  "reset_on_recv c = (Some Store_1f20_state, c\<lparr>recv_active := False\<rparr>)"

definition reset_on_time :: trans where
  "reset_on_time c = (Some Abort_state, c\<lparr>ac := CO_SDO_AC_TIMEOUT\<rparr>)"

text \<open>The search for the next sub-object to be written.\<close>

definition to_write :: "dcf_sub \<Rightarrow> bool" where
  "to_write d \<longleftrightarrow> ds_write d \<and> \<not> ds_file d \<and> \<not> ds_default d"

definition after_sub :: "u16 \<Rightarrow> u8 \<Rightarrow> dcf_sub list \<Rightarrow> dcf_sub list" where
  "after_sub idx subidx ds =
     (if idx \<noteq> 0 then tl (dropWhile (\<lambda>d. \<not> (ds_idx d = idx \<and> ds_subidx d = subidx)) ds) else ds)"

definition store_1f20_on_dn_con :: "cfg_env \<Rightarrow> u16 \<Rightarrow> u8 \<Rightarrow> u32 \<Rightarrow> trans" where
  "store_1f20_on_dn_con E idx subidx a c =
     (if a \<noteq> 0 then (Some Abort_state, c\<lparr>ac := a\<rparr>)
      else case find to_write (after_sub idx subidx (case dev_1f20 c of None \<Rightarrow> [] | Some ds \<Rightarrow> ds)) of
        None \<Rightarrow> (Some Store_1f22_state, c)
      | Some d \<Rightarrow>
          if \<not> e_dn_val E (ds_idx d) (ds_subidx d) then (Some Abort_state, c\<lparr>ac := CO_SDO_AC_ERROR\<rparr>)
          else (None, c\<lparr>sdo_active := Some (ds_idx d, ds_subidx d)\<rparr>))"

definition store_1f20_on_enter :: "cfg_env \<Rightarrow> trans" where
  "store_1f20_on_enter E c =
     (if e_no_dcf E then (Some Store_1f22_state, c)
      else case e_1f20 E of
        Up_absent \<Rightarrow> (Some Store_1f22_state, c)
      | Up_abort a \<Rightarrow> (Some Abort_state, c\<lparr>ac := a\<rparr>)
      | Up_part \<Rightarrow> (Some Store_1f22_state, c\<lparr>ac := 0\<rparr>)
      | Up_bytes b \<Rightarrow>
          if b = [] then (Some Store_1f22_state, c\<lparr>ac := 0\<rparr>)
          else case e_parse E b of
            None \<Rightarrow> (Some Abort_state, c\<lparr>ac := CO_SDO_AC_ERROR\<rparr>)
          | Some ds \<Rightarrow> store_1f20_on_dn_con E 0 0 0 (c\<lparr>ac := 0, dev_1f20 := Some ds\<rparr>))"

definition store_1f20_on_leave :: "co_nmt_cfg \<Rightarrow> co_nmt_cfg" where
  "store_1f20_on_leave c = c\<lparr>dev_1f20 := None\<rparr>"

definition store_1f22_on_dn_con :: "u32 \<Rightarrow> trans" where
  "store_1f22_on_dn_con a c = (if a \<noteq> 0 then (Some Abort_state, c\<lparr>ac := a\<rparr>) else (Some User_state, c))"

definition user_on_res :: "u32 \<Rightarrow> trans" where
  "user_on_res a c = (Some Abort_state, c\<lparr>ac := a\<rparr>)"

text \<open>
  \<open>co_nmt_cfg_enter\<close> with the entry functions of the states. The last two entry functions may call back
  into the service before they return, when the client-SDO confirms a download at once or the application
  gives its result inside \<open>cfg_ind\<close>; what they return then is \<open>NULL\<close>. The fuel bounds the states entered.
\<close>

definition leave_state :: "cfg_state \<Rightarrow> co_nmt_cfg \<Rightarrow> co_nmt_cfg" where
  "leave_state next c =
     (let c' = c\<lparr>st := Some next\<rparr>
      in case st c of Some Store_1f20_state \<Rightarrow> store_1f20_on_leave c' | _ \<Rightarrow> c')"

fun co_nmt_cfg_enter :: "nat \<Rightarrow> cfg_env \<Rightarrow> cfg_state option \<Rightarrow> co_nmt_cfg \<Rightarrow> co_nmt_cfg option" where
  "co_nmt_cfg_enter fuel E None c = Some c"
| "co_nmt_cfg_enter 0 E (Some next) c = None"
| "co_nmt_cfg_enter (Suc fuel) E (Some next) c =
     (let c = leave_state next c;
          loop = (\<lambda>(next', c'). co_nmt_cfg_enter fuel E next' c')
      in case next of
           Abort_state \<Rightarrow> loop (abort_on_enter c)
         | Restore_state \<Rightarrow> loop (restore_on_enter E c)
         | Reset_state \<Rightarrow> loop (reset_on_enter c)
         | Store_1f20_state \<Rightarrow> loop (store_1f20_on_enter E c)
         | Store_1f22_state \<Rightarrow>
             (case e_1f22 E of
                Up_absent \<Rightarrow> loop (Some User_state, c)
              | Up_abort a \<Rightarrow> loop (Some Abort_state, c\<lparr>ac := a\<rparr>)
              | Up_part \<Rightarrow> loop (Some User_state, c\<lparr>ac := 0\<rparr>)
              | Up_bytes b \<Rightarrow>
                  if b = [] then loop (Some User_state, c\<lparr>ac := 0\<rparr>)
                  else case e_dn_dcf E of
                    None \<Rightarrow> loop (Some Abort_state, c\<lparr>ac := CO_SDO_AC_ERROR\<rparr>)
                  | Some None \<Rightarrow> loop (None, c\<lparr>ac := 0, sdo_active := Some (0, 0)\<rparr>)
                  | Some (Some a) \<Rightarrow> loop (store_1f22_on_dn_con a (c\<lparr>ac := 0\<rparr>)))
         | User_state \<Rightarrow>
             (case e_user E of
                None \<Rightarrow> loop (None, c\<lparr>waiting_user := True\<rparr>)
              | Some a \<Rightarrow> loop (user_on_res a c)))"

definition ENTER_FUEL :: nat where "ENTER_FUEL = 5"

definition enter :: "cfg_env \<Rightarrow> cfg_state option \<times> co_nmt_cfg \<Rightarrow> co_nmt_cfg option" where
  "enter E p = co_nmt_cfg_enter ENTER_FUEL E (fst p) (snd p)"

section \<open>Events\<close>

definition co_nmt_cfg_init :: co_nmt_cfg where
  "co_nmt_cfg_init = \<lparr>st = None, recv_active = False, timer_active = False, cfg_assignment = 0, ac = 0, dev_1f20 = None,
     sdo_active = None, nmt_resets = [], waiting_user = False, results = []\<rparr>"

text \<open>\<open>co_nmt_cfg_cfg_req\<close> once the client-SDO exists; the request is refused while one is under way.\<close>

definition co_nmt_cfg_cfg_req :: "cfg_env \<Rightarrow> co_nmt_cfg \<Rightarrow> co_nmt_cfg option" where
  "co_nmt_cfg_cfg_req E c = (if st c \<noteq> None then Some c else enter E (Some Restore_state, c))"

definition emit_res :: "cfg_env \<Rightarrow> u32 \<Rightarrow> co_nmt_cfg \<Rightarrow> co_nmt_cfg option" where
  "emit_res E a c = (case st c of Some User_state \<Rightarrow> enter E (user_on_res a (c\<lparr>waiting_user := False\<rparr>)) | _ \<Rightarrow> None)"

definition emit_recv :: "cfg_env \<Rightarrow> co_nmt_cfg \<Rightarrow> co_nmt_cfg option" where
  "emit_recv E c = (case st c of Some Reset_state \<Rightarrow> enter E (reset_on_recv c) | _ \<Rightarrow> None)"

text \<open>The timer is started for one expiry.\<close>

definition emit_time :: "cfg_env \<Rightarrow> co_nmt_cfg \<Rightarrow> co_nmt_cfg option" where
  "emit_time E c = (case st c of Some Reset_state \<Rightarrow> enter E (reset_on_time (c\<lparr>timer_active := False\<rparr>)) | _ \<Rightarrow> None)"

definition emit_dn_con :: "cfg_env \<Rightarrow> u16 \<Rightarrow> u8 \<Rightarrow> u32 \<Rightarrow> co_nmt_cfg \<Rightarrow> co_nmt_cfg option" where
  "emit_dn_con E idx subidx a c =
     (let c = c\<lparr>sdo_active := None\<rparr>
      in case st c of
           Some Restore_state \<Rightarrow> enter E (restore_on_dn_con subidx a c)
         | Some Store_1f20_state \<Rightarrow> enter E (store_1f20_on_dn_con E idx subidx a c)
         | Some Store_1f22_state \<Rightarrow> enter E (store_1f22_on_dn_con a c)
         | _ \<Rightarrow> None)"

text \<open>
  The events that can reach the service: the confirmation of the download it has under way, a boot-up
  frame while its receiver is active, the expiry of its timer, and the result the application owes. A
  service that has reported its result no longer exists.
\<close>

datatype cfg_event = Ev_dn_con u32 | Ev_recv | Ev_time | Ev_res u32

fun cfg_possible :: "cfg_event \<Rightarrow> co_nmt_cfg \<Rightarrow> bool" where
  "cfg_possible (Ev_dn_con a) c \<longleftrightarrow> results c = [] \<and> sdo_active c \<noteq> None"
| "cfg_possible Ev_recv c \<longleftrightarrow> results c = [] \<and> recv_active c"
| "cfg_possible Ev_time c \<longleftrightarrow> results c = [] \<and> timer_active c"
| "cfg_possible (Ev_res a) c \<longleftrightarrow> results c = [] \<and> waiting_user c"

fun cfg_handle :: "cfg_env \<Rightarrow> cfg_event \<Rightarrow> co_nmt_cfg \<Rightarrow> co_nmt_cfg option" where
  "cfg_handle E (Ev_dn_con a) c = (case sdo_active c of None \<Rightarrow> None | Some (idx, subidx) \<Rightarrow> emit_dn_con E idx subidx a c)"
| "cfg_handle E Ev_recv c = emit_recv E c"
| "cfg_handle E Ev_time c = emit_time E c"
| "cfg_handle E (Ev_res a) c = emit_res E a c"

text \<open>
  A run of the service from its creation: the environment may answer differently at each event; the
  state is \<open>None\<close> after a call of a missing handler.
\<close>

inductive cfg_run :: "(cfg_env \<Rightarrow> bool) \<Rightarrow> nat \<Rightarrow> co_nmt_cfg option \<Rightarrow> bool" for ok where
  request: "ok E \<Longrightarrow> cfg_run ok 0 (co_nmt_cfg_cfg_req E co_nmt_cfg_init)"
| event: "cfg_run ok n (Some c) \<Longrightarrow> cfg_possible ev c \<Longrightarrow> ok E \<Longrightarrow> cfg_run ok (Suc n) (cfg_handle E ev c)"

text \<open>
  \<open>co_nmt_cfg_destroy\<close>, called from outside for a service that has not reported yet (a local reset, the
  end of the NMT service). It destroys the client-SDO, which first aborts the download under way and so
  confirms it to the service. The number counts how often the memory of the service is freed: once for
  each result, since \<open>co_nmt_cfg_con\<close> destroys the service of the node, and once here.
\<close>

definition co_nmt_cfg_destroy :: "cfg_env \<Rightarrow> co_nmt_cfg \<Rightarrow> (co_nmt_cfg \<times> nat) option" where
  "co_nmt_cfg_destroy E c = (case sdo_active c of
       None \<Rightarrow> Some (c, 1)
     | Some (idx, subidx) \<Rightarrow> map_option (\<lambda>c'. (c', Suc (length (results c')))) (emit_dn_con E idx subidx CO_SDO_AC_NO_SDO c))"

section \<open>Configuration without a restore\<close>

text \<open>The keys of a device description are distinct and no object has index 0.\<close>

definition dcf_wf :: "dcf_sub list \<Rightarrow> bool" where
  "dcf_wf ds \<longleftrightarrow> distinct (map (\<lambda>d. (ds_idx d, ds_subidx d)) ds) \<and> (\<forall>d \<in> set ds. ds_idx d \<noteq> 0)"

definition no_restore :: "cfg_env \<Rightarrow> bool" where
  "no_restore E \<longleftrightarrow> (e_1f81 E AND 0x80 = 0 \<or> e_1f8a E = 0) \<and> (\<forall>b ds. e_parse E b = Some ds \<longrightarrow> dcf_wf ds)"

text \<open>The service waits for one collaborator, or it has reported one result.\<close>

definition quiet :: "co_nmt_cfg \<Rightarrow> bool" where
  "quiet c \<longleftrightarrow> \<not> recv_active c \<and> \<not> timer_active c"

definition waits_1f20 :: "co_nmt_cfg \<Rightarrow> bool" where
  "waits_1f20 c \<longleftrightarrow> st c = Some Store_1f20_state \<and> results c = [] \<and> quiet c \<and> \<not> waiting_user c
     \<and> (\<exists>ds d. dev_1f20 c = Some ds \<and> dcf_wf ds \<and> d \<in> set ds \<and> sdo_active c = Some (ds_idx d, ds_subidx d))"

definition waits_1f22 :: "co_nmt_cfg \<Rightarrow> bool" where
  "waits_1f22 c \<longleftrightarrow> st c = Some Store_1f22_state \<and> results c = [] \<and> quiet c \<and> \<not> waiting_user c
     \<and> dev_1f20 c = None \<and> sdo_active c \<noteq> None"

definition waits_user :: "co_nmt_cfg \<Rightarrow> bool" where
  "waits_user c \<longleftrightarrow> st c = Some User_state \<and> results c = [] \<and> quiet c \<and> waiting_user c
     \<and> dev_1f20 c = None \<and> sdo_active c = None"

definition reported :: "u32 \<Rightarrow> co_nmt_cfg \<Rightarrow> bool" where
  "reported a c \<longleftrightarrow> results c = [a] \<and> quiet c \<and> sdo_active c = None \<and> dev_1f20 c = None \<and> \<not> waiting_user c"

definition cfg_inv :: "co_nmt_cfg \<Rightarrow> bool" where
  "cfg_inv c \<longleftrightarrow> waits_1f20 c \<or> waits_1f22 c \<or> waits_user c \<or> (\<exists>a. reported a c)"

text \<open>Events that can still follow.\<close>

definition cfg_work :: "co_nmt_cfg \<Rightarrow> nat" where
  "cfg_work c = (if results c \<noteq> [] then 0
     else case st c of
       Some User_state \<Rightarrow> 1
     | Some Store_1f22_state \<Rightarrow> 2
     | Some Store_1f20_state \<Rightarrow> 3 + (case (dev_1f20 c, sdo_active c) of
           (Some ds, Some (idx, subidx)) \<Rightarrow> length (after_sub idx subidx ds) | _ \<Rightarrow> 0)
     | _ \<Rightarrow> 0)"

text \<open>A service about to enter a state.\<close>

definition ready :: "co_nmt_cfg \<Rightarrow> bool" where
  "ready c \<longleftrightarrow> results c = [] \<and> quiet c \<and> sdo_active c = None \<and> \<not> waiting_user c"

lemma leave_simps [simp]:
  "st (leave_state s c) = Some s" "results (leave_state s c) = results c" "sdo_active (leave_state s c) = sdo_active c"
  "waiting_user (leave_state s c) = waiting_user c" "quiet (leave_state s c) = quiet c" "ac (leave_state s c) = ac c"
  "recv_active (leave_state s c) = recv_active c" "timer_active (leave_state s c) = timer_active c"
  by (simp_all add: leave_state_def store_1f20_on_leave_def quiet_def Let_def split: option.split cfg_state.split)

text \<open>The description in object 1F20 is kept only in its own state.\<close>

definition dev_local :: "co_nmt_cfg \<Rightarrow> bool" where
  "dev_local c \<longleftrightarrow> dev_1f20 c \<noteq> None \<longrightarrow> st c = Some Store_1f20_state"

lemma leave_dev: "dev_local c \<Longrightarrow> dev_1f20 (leave_state s c) = None"
  by (auto simp: dev_local_def leave_state_def store_1f20_on_leave_def Let_def split: option.split cfg_state.split)

lemma enter_abort:
  assumes "ready c" "dev_local c"
  shows "\<exists>c'. co_nmt_cfg_enter (Suc f) E (Some Abort_state) c = Some c' \<and> reported (ac c) c'"
  using assms leave_dev [OF assms(2), of Abort_state]
  by (simp add: abort_on_enter_def Let_def reported_def ready_def quiet_def)

lemma enter_user:
  assumes "ready c" "dev_local c"
  shows "\<exists>c'. co_nmt_cfg_enter (Suc (Suc f)) E (Some User_state) c = Some c' \<and> (waits_user c' \<or> (\<exists>a. reported a c'))"
proof (cases "e_user E")
  case None
  then show ?thesis
    using assms leave_dev [OF assms(2), of User_state] by (simp add: Let_def waits_user_def ready_def quiet_def)
next
  case (Some a)
  let ?c = "(leave_state User_state c)\<lparr>ac := a\<rparr>"
  have "ready ?c" "dev_local ?c" using assms leave_dev [OF assms(2), of User_state]
    by (auto simp: ready_def quiet_def dev_local_def)
  from enter_abort [OF this, of f E] show ?thesis using Some by (auto simp: user_on_res_def Let_def)
qed

lemma enter_1f22:
  assumes "ready c" "dev_local c"
  shows "\<exists>c'. co_nmt_cfg_enter (Suc (Suc (Suc f))) E (Some Store_1f22_state) c = Some c'
    \<and> (waits_1f22 c' \<or> waits_user c' \<or> (\<exists>a. reported a c'))"
proof -
  let ?c = "leave_state Store_1f22_state c"
  have dev: "dev_1f20 ?c = None" using leave_dev [OF assms(2)] .
  have ok: "ready (?c\<lparr>ac := a\<rparr>)" "dev_local (?c\<lparr>ac := a\<rparr>)" "ready ?c" "dev_local ?c" for a
    using assms dev by (auto simp: ready_def quiet_def dev_local_def)
  note user = enter_user [OF ok(1,2), of f E] enter_user [OF ok(3,4), of f E]
  note abort = enter_abort [OF ok(1,2), of "Suc f" E]
  have dcf: "waits_1f22 (?c\<lparr>ac := 0, sdo_active := Some (0, 0)\<rparr>)"
    using assms dev by (simp add: waits_1f22_def ready_def quiet_def)
  show ?thesis
  proof (cases "e_1f22 E")
    case (Up_bytes b)
    show ?thesis
    proof (cases "e_dn_dcf E")
      case None
      then show ?thesis using Up_bytes abort [of CO_SDO_AC_ERROR] user(1) [of 0] by (auto simp: Let_def)
    next
      case (Some r)
      have step: "store_1f22_on_dn_con a (?c\<lparr>ac := 0\<rparr>)
          = (if a \<noteq> 0 then (Some Abort_state, ?c\<lparr>ac := a\<rparr>) else (Some User_state, ?c\<lparr>ac := 0\<rparr>))" for a
        by (simp add: store_1f22_on_dn_con_def)
      show ?thesis using Some Up_bytes dcf abort user(1) [of 0]
        by (cases r) (auto simp: Let_def step)
    qed
  qed (use abort user(1) [of 0] user(2) in \<open>auto simp: Let_def\<close>)
qed

lemma after_sub_at:
  assumes "dcf_wf ds" "ds = xs @ d # ys"
  shows "after_sub (ds_idx d) (ds_subidx d) ds = ys"
proof -
  let ?P = "\<lambda>x. \<not> (ds_idx x = ds_idx d \<and> ds_subidx x = ds_subidx d)"
  have "(ds_idx d, ds_subidx d) \<notin> (\<lambda>d. (ds_idx d, ds_subidx d)) ` set xs" using assms by (simp add: dcf_wf_def)
  then have "\<forall>x \<in> set xs. ?P x" by (metis (mono_tags, lifting) image_eqI)
  then have "dropWhile ?P ds = d # ys" unfolding assms(2) by (subst dropWhile_append2) auto
  moreover have "ds_idx d \<noteq> 0" using assms by (simp add: dcf_wf_def)
  ultimately show ?thesis by (simp add: after_sub_def)
qed

lemma after_sub_suffix: "\<exists>xs. ds = xs @ after_sub idx subidx ds"
proof (cases "idx = 0")
  case False
  let ?D = "dropWhile (\<lambda>d. \<not> (ds_idx d = idx \<and> ds_subidx d = subidx)) ds"
  have "ds = takeWhile (\<lambda>d. \<not> (ds_idx d = idx \<and> ds_subidx d = subidx)) ds @ ?D" by simp
  moreover have "ys = take 1 ys @ tl ys" for ys :: "dcf_sub list" by (cases ys) simp_all
  ultimately have "ds = (takeWhile (\<lambda>d. \<not> (ds_idx d = idx \<and> ds_subidx d = subidx)) ds @ take 1 ?D) @ tl ?D"
    by (metis append_assoc)
  then show ?thesis unfolding after_sub_def if_P [OF False] by (rule exI)
qed (simp add: after_sub_def)

lemma next_sub:
  assumes wf: "dcf_wf ds" and f: "find to_write (after_sub idx subidx ds) = Some d"
  shows "d \<in> set ds" "length (after_sub (ds_idx d) (ds_subidx d) ds) < length (after_sub idx subidx ds)"
proof -
  obtain xs ys where r: "after_sub idx subidx ds = xs @ d # ys"
    using f by (metis find_Some_iff2 id_take_nth_drop)
  moreover obtain zs where "ds = zs @ after_sub idx subidx ds" using after_sub_suffix by blast
  ultimately have ds: "ds = (zs @ xs) @ d # ys" by simp
  then show "d \<in> set ds" by (metis in_set_conv_decomp)
  show "length (after_sub (ds_idx d) (ds_subidx d) ds) < length (after_sub idx subidx ds)"
    using after_sub_at [OF wf ds] r by simp
qed

lemma enter_next_1f20:
  assumes c: "ready c" "st c = Some Store_1f20_state" "dev_1f20 c = Some ds" "dcf_wf ds"
  shows "\<exists>c'. (case store_1f20_on_dn_con E idx subidx a c of (next, c1) \<Rightarrow> co_nmt_cfg_enter (3 + f) E next c1) = Some c'
    \<and> (if a \<noteq> 0 then reported a c'
       else waits_1f20 c' \<and> cfg_work c' < 3 + length (after_sub idx subidx ds) \<or> waits_1f22 c' \<or> waits_user c' \<or> (\<exists>a. reported a c'))"
proof -
  have three: "3 + f = Suc (Suc (Suc f))" by simp
  have ok: "ready (c\<lparr>ac := x\<rparr>)" "dev_local (c\<lparr>ac := x\<rparr>)" "dev_local c" for x
    using c by (auto simp: ready_def quiet_def dev_local_def)
  note abort = enter_abort [OF ok(1,2), of "Suc (Suc f)" E]
  show ?thesis
  proof (cases "a = 0")
    case False
    then show ?thesis unfolding three using abort [of a] by (simp add: store_1f20_on_dn_con_def del: co_nmt_cfg_enter.simps)
  next
    case True
    show ?thesis
    proof (cases "find to_write (after_sub idx subidx ds)")
      case None
      then show ?thesis unfolding three
        using True c(3) enter_1f22 [OF c(1) ok(3), of f E] by (auto simp: store_1f20_on_dn_con_def simp del: co_nmt_cfg_enter.simps)
    next
      case (Some d)
      note n = next_sub [OF c(4) Some]
      have "waits_1f20 (c\<lparr>sdo_active := Some (ds_idx d, ds_subidx d)\<rparr>)"
        using c n(1) by (auto simp: waits_1f20_def ready_def quiet_def)
      moreover have "cfg_work (c\<lparr>sdo_active := Some (ds_idx d, ds_subidx d)\<rparr>) < 3 + length (after_sub idx subidx ds)"
        using c n(2) by (simp add: cfg_work_def ready_def)
      ultimately show ?thesis unfolding three
        using True Some c(3) abort [of CO_SDO_AC_ERROR]
        by (auto simp: store_1f20_on_dn_con_def simp del: co_nmt_cfg_enter.simps(3))
    qed
  qed
qed

lemma store_1f20_enter_cases:
  "(\<exists>b ds. \<not> e_no_dcf E \<and> e_1f20 E = Up_bytes b \<and> b \<noteq> [] \<and> e_parse E b = Some ds)
    \<or> store_1f20_on_enter E c = (Some Store_1f22_state, c)
    \<or> store_1f20_on_enter E c = (Some Store_1f22_state, c\<lparr>ac := 0\<rparr>)
    \<or> (\<exists>x. store_1f20_on_enter E c = (Some Abort_state, c\<lparr>ac := x\<rparr>))"
proof (cases "e_1f20 E")
  case (Up_bytes b)
  then show ?thesis by (cases "e_parse E b") (simp_all add: store_1f20_on_enter_def, blast)
next
  case (Up_abort a)
  then show ?thesis by (simp add: store_1f20_on_enter_def) blast
qed (simp_all add: store_1f20_on_enter_def)

lemma enter_1f20:
  assumes c: "ready c" "dev_local c" and wf: "\<forall>b ds. e_parse E b = Some ds \<longrightarrow> dcf_wf ds"
  shows "\<exists>c'. co_nmt_cfg_enter (Suc (3 + (f :: nat))) E (Some Store_1f20_state) c = Some c' \<and> cfg_inv c'"
proof -
  let ?c = "leave_state Store_1f20_state c"
  have ok: "ready (?c\<lparr>ac := x\<rparr>)" "dev_local (?c\<lparr>ac := x\<rparr>)" "ready ?c" "dev_local ?c" for x
    using c leave_dev [OF c(2)] by (auto simp: ready_def quiet_def dev_local_def)
  note store = enter_1f22 [OF ok(1,2), where f = f and E = E] enter_1f22 [OF ok(3,4), where f = f and E = E]
  note abort = enter_abort [OF ok(1,2), of "Suc (Suc f)" E]
  have four: "co_nmt_cfg_enter (Suc (3 + f)) E (Some Store_1f20_state) c
      = (case store_1f20_on_enter E ?c of (next, c1) \<Rightarrow> co_nmt_cfg_enter (3 + f) E next c1)"
    unfolding co_nmt_cfg_enter.simps(3) by (simp add: Let_def)
  have three: "3 + f = Suc (Suc (Suc f))" by simp
  show ?thesis
  proof (cases "\<exists>b ds. \<not> e_no_dcf E \<and> e_1f20 E = Up_bytes b \<and> b \<noteq> [] \<and> e_parse E b = Some ds")
    case True
    then obtain b ds where b: "\<not> e_no_dcf E" "e_1f20 E = Up_bytes b" "b \<noteq> []" "e_parse E b = Some ds" by blast
    let ?d = "?c\<lparr>ac := 0, dev_1f20 := Some ds\<rparr>"
    have "ready ?d" using c by (simp add: ready_def quiet_def)
    from enter_next_1f20 [OF this, where ds = ds and E = E and idx = 0 and subidx = 0 and a = 0 and f = f] wf b(4) show ?thesis
      unfolding four store_1f20_on_enter_def using b by (auto simp: cfg_inv_def)
  next
    case False
    then consider "store_1f20_on_enter E ?c = (Some Store_1f22_state, ?c)"
      | "store_1f20_on_enter E ?c = (Some Store_1f22_state, ?c\<lparr>ac := 0\<rparr>)"
      | x where "store_1f20_on_enter E ?c = (Some Abort_state, ?c\<lparr>ac := x\<rparr>)"
      using store_1f20_enter_cases [of E ?c] by blast
    then show ?thesis
    proof cases
      case 1
      then show ?thesis unfolding four unfolding three using store(2) by (simp only: cfg_inv_def prod.case) blast
    next
      case 2
      then show ?thesis unfolding four unfolding three using store(1) [of 0] by (simp only: cfg_inv_def prod.case) blast
    next
      case 3
      then show ?thesis unfolding four unfolding three using abort by (simp only: cfg_inv_def prod.case) blast
    qed
  qed
qed

lemma request_inv:
  assumes "no_restore E"
  shows "\<exists>c. co_nmt_cfg_cfg_req E co_nmt_cfg_init = Some c \<and> cfg_inv c"
proof -
  let ?c = "leave_state Restore_state co_nmt_cfg_init" let ?r = "?c\<lparr>ac := 0, cfg_assignment := e_1f81 E\<rparr>"
  have dev: "dev_local co_nmt_cfg_init" by (simp add: dev_local_def co_nmt_cfg_init_def)
  have ok: "ready ?r" "dev_local ?r"
    using leave_dev [OF dev, of Restore_state] by (simp_all add: ready_def quiet_def dev_local_def co_nmt_cfg_init_def)
  have fuel: "ENTER_FUEL = Suc (Suc (3 + 0))" by (simp add: ENTER_FUEL_def)
  have start: "co_nmt_cfg_cfg_req E co_nmt_cfg_init
      = (case restore_on_enter E ?c of (next, c1) \<Rightarrow> co_nmt_cfg_enter (Suc (3 + 0)) E next c1)"
    unfolding co_nmt_cfg_cfg_req_def enter_def fuel fst_conv snd_conv co_nmt_cfg_enter.simps(3)
    by (simp add: Let_def co_nmt_cfg_init_def)
  have "restore_on_enter E ?c = (Some Abort_state, ?r) \<or> restore_on_enter E ?c = (Some Store_1f20_state, ?r)"
    using assms by (auto simp: restore_on_enter_def no_restore_def Let_def)
  then show ?thesis
  proof
    assume "restore_on_enter E ?c = (Some Abort_state, ?r)"
    then show ?thesis unfolding start using enter_abort [OF ok, of "3 + 0" E] by (auto simp: cfg_inv_def)
  next
    assume "restore_on_enter E ?c = (Some Store_1f20_state, ?r)"
    then show ?thesis unfolding start using enter_1f20 [OF ok, of E 0] assms by (simp add: no_restore_def)
  qed
qed

text \<open>What one event does: it is handled, brings the end nearer, and a refusal or a result is reported.\<close>

definition progresses :: "cfg_event \<Rightarrow> co_nmt_cfg \<Rightarrow> co_nmt_cfg \<Rightarrow> bool" where
  "progresses ev c c' \<longleftrightarrow> cfg_inv c' \<and> cfg_work c' < cfg_work c
     \<and> (\<forall>a. ev = Ev_dn_con a \<and> a \<noteq> 0 \<or> ev = Ev_res a \<longrightarrow> results c' = [a])"

lemma cfg_work_simps:
  "waits_user c \<Longrightarrow> cfg_work c = 1" "waits_1f22 c \<Longrightarrow> cfg_work c = 2" "reported a c \<Longrightarrow> cfg_work c = 0"
  "waits_1f20 c \<Longrightarrow> 3 \<le> cfg_work c"
  by (auto simp: waits_user_def waits_1f22_def reported_def waits_1f20_def cfg_work_def)

lemma event_user:
  assumes w: "waits_user c" and p: "cfg_possible ev c"
  shows "\<exists>c'. cfg_handle E ev c = Some c' \<and> progresses ev c c'"
proof -
  obtain a where ev: "ev = Ev_res a" using w p by (cases ev) (auto simp: waits_user_def quiet_def)
  let ?c = "c\<lparr>waiting_user := False, ac := a\<rparr>"
  have "ready ?c" "dev_local ?c" using w by (simp_all add: waits_user_def ready_def quiet_def dev_local_def)
  from enter_abort [OF this, of 4 E] obtain c' where c': "co_nmt_cfg_enter 5 E (Some Abort_state) ?c = Some c'" "reported a c'"
    by (auto simp: eval_nat_numeral)
  then have "cfg_handle E ev c = Some c'" using w ev
    by (simp add: emit_res_def waits_user_def enter_def user_on_res_def ENTER_FUEL_def)
  moreover have "progresses ev c c'"
    using c'(2) ev cfg_work_simps(1) [OF w] cfg_work_simps(3) [OF c'(2)] by (auto simp: progresses_def cfg_inv_def reported_def)
  ultimately show ?thesis by blast
qed

lemma event_1f22:
  assumes w: "waits_1f22 c" and p: "cfg_possible ev c"
  shows "\<exists>c'. cfg_handle E ev c = Some c' \<and> progresses ev c c'"
proof -
  obtain a where ev: "ev = Ev_dn_con a" using w p by (cases ev) (auto simp: waits_1f22_def quiet_def)
  let ?c = "c\<lparr>sdo_active := None\<rparr>"
  have ok: "ready ?c" "dev_local ?c" "ready (?c\<lparr>ac := a\<rparr>)" "dev_local (?c\<lparr>ac := a\<rparr>)"
    using w by (simp_all add: waits_1f22_def ready_def quiet_def dev_local_def)
  have h: "cfg_handle E ev c = co_nmt_cfg_enter (Suc (Suc 3)) E
      (if a \<noteq> 0 then Some Abort_state else Some User_state) (if a \<noteq> 0 then ?c\<lparr>ac := a\<rparr> else ?c)"
    using w ev by (auto simp: emit_dn_con_def waits_1f22_def enter_def store_1f22_on_dn_con_def ENTER_FUEL_def Let_def
        eval_nat_numeral simp del: co_nmt_cfg_enter.simps)
  show ?thesis
    unfolding h using ev enter_abort [OF ok(3,4), of "Suc 3" E] enter_user [OF ok(1,2), of 3 E]
      cfg_work_simps(2) [OF w] cfg_work_simps(1,3)
    by (auto simp: progresses_def cfg_inv_def reported_def simp del: co_nmt_cfg_enter.simps)
qed

lemma event_1f20:
  assumes w: "waits_1f20 c" and p: "cfg_possible ev c"
  shows "\<exists>c'. cfg_handle E ev c = Some c' \<and> progresses ev c c'"
proof -
  obtain a where ev: "ev = Ev_dn_con a" using w p by (cases ev) (auto simp: waits_1f20_def quiet_def)
  obtain ds and d :: dcf_sub where d: "dev_1f20 c = Some ds" "dcf_wf ds" "sdo_active c = Some (ds_idx d, ds_subidx d)"
    using w unfolding waits_1f20_def by blast
  let ?c = "c\<lparr>sdo_active := None\<rparr>"
  have ok: "ready ?c" "st ?c = Some Store_1f20_state" "dev_1f20 ?c = Some ds"
    using w d by (simp_all add: waits_1f20_def ready_def quiet_def)
  have h: "cfg_handle E ev c = (case store_1f20_on_dn_con E (ds_idx d) (ds_subidx d) a ?c of
      (next, c1) \<Rightarrow> co_nmt_cfg_enter (3 + 2) E next c1)"
    using ok(2) d(3) ev by (simp add: emit_dn_con_def enter_def ENTER_FUEL_def split: prod.split)
  have work: "cfg_work c = 3 + length (after_sub (ds_idx d) (ds_subidx d) ds)"
    using w d by (simp add: waits_1f20_def cfg_work_def)
  show ?thesis
    unfolding h using enter_next_1f20 [OF ok d(2), where E = E and idx = "ds_idx d" and subidx = "ds_subidx d" and a = a and f = 2] ev work cfg_work_simps(1-3)
    by (cases "a = 0") (auto simp: progresses_def cfg_inv_def reported_def)
qed

lemma event_progresses:
  assumes "cfg_inv c" "cfg_possible ev c"
  shows "\<exists>c'. cfg_handle E ev c = Some c' \<and> progresses ev c c'"
proof -
  have "\<not> reported a c" for a using assms(2) by (cases ev) (auto simp: reported_def)
  then show ?thesis using assms event_user event_1f22 event_1f20 unfolding cfg_inv_def by blast
qed

lemma run_inv: "cfg_run no_restore n r \<Longrightarrow> \<exists>c. r = Some c \<and> cfg_inv c"
proof (induction rule: cfg_run.induct)
  case (request E)
  then show ?case using request_inv by blast
next
  case (event n c ev E)
  then have "cfg_inv c" by simp
  from event_progresses [OF this event.hyps(2), of E] show ?case by (auto simp: progresses_def)
qed

lemma inv_waits: "cfg_inv c \<Longrightarrow> (\<exists>a. results c = [a]) \<or> results c = [] \<and> (\<exists>ev. cfg_possible ev c)"
proof -
  assume "cfg_inv c"
  moreover have "results c = [] \<and> cfg_possible (Ev_dn_con 0) c" if "waits_1f20 c \<or> waits_1f22 c"
    using that by (auto simp: waits_1f20_def waits_1f22_def)
  moreover have "results c = [] \<and> cfg_possible (Ev_res 0) c" if "waits_user c" using that by (auto simp: waits_user_def)
  moreover have "results c = [a]" if "reported a c" for a using that by (simp add: reported_def)
  ultimately show ?thesis unfolding cfg_inv_def by blast
qed

section \<open>Properties\<close>

text \<open>C21. A configuration request that does not restore the defaults of the node runs to its end: no event
  reaches a state that has no handler for it, exactly one result is reported, until then the service waits
  for a confirmation or for the application, every event brings it nearer to the end, and a refused
  download or the result of the application is what it reports.\<close>

theorem cfg_sequence_completes:
  assumes "cfg_run no_restore n r"
  shows "\<exists>c. r = Some c \<and> ((\<exists>a. results c = [a]) \<or> results c = [] \<and> (\<exists>ev. cfg_possible ev c))
    \<and> (\<forall>ev E. cfg_possible ev c \<longrightarrow> (\<exists>c'. cfg_handle E ev c = Some c' \<and> cfg_work c' < cfg_work c
        \<and> (\<forall>a. ev = Ev_dn_con a \<and> a \<noteq> 0 \<or> ev = Ev_res a \<longrightarrow> results c' = [a])))"
proof -
  obtain c where c: "r = Some c" "cfg_inv c" using run_inv [OF assms] by blast
  have "\<forall>ev E. cfg_possible ev c \<longrightarrow> (\<exists>c'. cfg_handle E ev c = Some c' \<and> cfg_work c' < cfg_work c
        \<and> (\<forall>a. ev = Ev_dn_con a \<and> a \<noteq> 0 \<or> ev = Ev_res a \<longrightarrow> results c' = [a]))"
    using event_progresses [OF c(2)] unfolding progresses_def by meson
  with c(1) inv_waits [OF c(2)] show ?thesis by (intro exI [of _ c] conjI)
qed

definition demo_cfg_env :: cfg_env where
  "demo_cfg_env = \<lparr>e_1f81 = 0x01, e_1f8a = 1, e_no_dcf = True, e_1f20 = Up_absent, e_parse = (\<lambda>_. None),
     e_1f22 = Up_bytes [1, 0, 0, 0, 0x17, 0x10, 0, 2, 0, 0, 0, 0xE8, 3], e_dn_val = (\<lambda>_ _. True), e_dn_dcf = Some None,
     e_user = None\<rparr>"

lemmas cfg_eval = store_1f20_on_leave_def co_nmt_cfg_cfg_req_def co_nmt_cfg_init_def enter_def ENTER_FUEL_def numeral_eq_Suc Let_def
  leave_state_def restore_on_enter_def restore_on_dn_con_def reset_on_enter_def reset_on_recv_def store_1f20_on_enter_def
  store_1f22_on_dn_con_def emit_dn_con_def emit_recv_def emit_time_def emit_res_def user_on_res_def abort_on_enter_def

theorem cfg_sequence_completes_witness:
  "\<exists>c c'. cfg_run no_restore 0 (Some c) \<and> cfg_possible (Ev_dn_con 5) c \<and> cfg_handle demo_cfg_env (Ev_dn_con 5) c = Some c'
     \<and> results c' = [5]"
proof -
  have ok: "no_restore demo_cfg_env" by (simp add: no_restore_def demo_cfg_env_def)
  note run = cfg_run.request [of no_restore, OF ok]
  obtain c where c: "co_nmt_cfg_cfg_req demo_cfg_env co_nmt_cfg_init = Some c" "cfg_possible (Ev_dn_con 5) c"
    by (simp add: cfg_eval demo_cfg_env_def)
  have "\<forall>ev E. cfg_possible ev c \<longrightarrow> (\<exists>c'. cfg_handle E ev c = Some c' \<and> cfg_work c' < cfg_work c
        \<and> (\<forall>a. ev = Ev_dn_con a \<and> a \<noteq> 0 \<or> ev = Ev_res a \<longrightarrow> results c' = [a]))"
    using cfg_sequence_completes [OF run] c(1) by (elim exE conjE) (simp only: option.inject)
  from this [rule_format, OF c(2), of demo_cfg_env]
  obtain c' where "cfg_handle demo_cfg_env (Ev_dn_con 5) c = Some c'" "results c' = [5]" by auto
  then show ?thesis using run c by auto
qed

text \<open>A request that restores the defaults does not stop its timer when the boot-up message of the
  node arrives. While the concise DCF that follows is being downloaded the timer expires, and the expiry
  reaches a state that has no handler for it.\<close>

theorem cfg_restore_timer_stray:
  assumes "e_1f81 E AND 0x01 \<noteq> 0" "e_1f81 E AND 0x80 \<noteq> 0" "e_1f8a E \<noteq> 0" "e_dn_val E 0x1011 (e_1f8a E)"
    "e_no_dcf E" "e_1f22 E = Up_bytes b" "b \<noteq> []" "e_dn_dcf E = Some None"
  shows "\<exists>c1 c2 c3. co_nmt_cfg_cfg_req E co_nmt_cfg_init = Some c1
    \<and> cfg_possible (Ev_dn_con 0) c1 \<and> cfg_handle E (Ev_dn_con 0) c1 = Some c2
    \<and> cfg_possible Ev_recv c2 \<and> cfg_handle E Ev_recv c2 = Some c3
    \<and> sdo_active c3 \<noteq> None \<and> cfg_possible Ev_time c3 \<and> cfg_handle E Ev_time c3 = None"
  using assms by (simp add: cfg_eval)

theorem cfg_restore_timer_stray_witness:
  "let E = demo_cfg_env\<lparr>e_1f81 := 0x81\<rparr>
   in \<exists>c3. sdo_active c3 \<noteq> None \<and> cfg_possible Ev_time c3 \<and> cfg_handle E Ev_time c3 = None"
  using cfg_restore_timer_stray [of "demo_cfg_env\<lparr>e_1f81 := 0x81\<rparr>"] by (auto simp: demo_cfg_env_def Let_def)

text \<open>Destroying a configuration request from outside while it downloads (a local reset, or the end of
  the NMT service) frees it twice: the abort of the download is confirmed to the request, which reports
  its result, and reporting destroys it a first time.\<close>

theorem cfg_destroy_frees_twice:
  assumes "cfg_run no_restore n (Some c)" "sdo_active c \<noteq> None"
  shows "\<exists>c'. co_nmt_cfg_destroy E c = Some (c', 2)"
proof -
  have inv: "cfg_inv c" using run_inv [OF assms(1)] by simp
  then have "cfg_possible (Ev_dn_con CO_SDO_AC_NO_SDO) c"
    using assms(2) by (auto simp: cfg_inv_def waits_1f20_def waits_1f22_def waits_user_def reported_def)
  from event_progresses [OF inv this, of E] obtain c' where
    "cfg_handle E (Ev_dn_con CO_SDO_AC_NO_SDO) c = Some c'" "results c' = [CO_SDO_AC_NO_SDO]"
    by (auto simp: progresses_def CO_SDO_AC_NO_SDO_def)
  then show ?thesis using assms(2) by (auto simp: co_nmt_cfg_destroy_def)
qed

theorem cfg_destroy_frees_twice_witness:
  "\<exists>c c'. co_nmt_cfg_cfg_req demo_cfg_env co_nmt_cfg_init = Some c \<and> co_nmt_cfg_destroy demo_cfg_env c = Some (c', 2)"
proof -
  have ok: "no_restore demo_cfg_env" by (simp add: no_restore_def demo_cfg_env_def)
  note run = cfg_run.request [of no_restore, OF ok]
  obtain c where c: "co_nmt_cfg_cfg_req demo_cfg_env co_nmt_cfg_init = Some c" "sdo_active c \<noteq> None"
    by (simp add: cfg_eval demo_cfg_env_def)
  from cfg_destroy_frees_twice [OF run [unfolded c(1)] c(2), of demo_cfg_env] c(1) show ?thesis by blast
qed

end
