(* ===== verification/Rtt_Call.thy ===== *)
theory Rtt_Call
  imports Rtt_Types
begin

text \<open>
  Synchronous requests to the owner (\<open>lely_rtt_master_sync_init\<close>, \<open>_complete\<close>, \<open>_wait\<close> and \<open>_fini\<close> in
  \<open>port/rtthread/src/master_command.c\<close>). A calling thread keeps the request on its stack, posts a pointer
  to the owner and waits; the owner publishes the result and wakes it. The result may be taken, and the
  stack frame left, as soon as \<open>done\<close> is seen, so the reference \<open>completion_refs\<close> keeps the frame alive
  until the owner has sent the event.

  The step relation interleaves single operations of the two threads. The receive may time out or fail
  at any moment and the event may be lost; whether the post is accepted, and the result, are chosen by
  the environment.
\<close>

section \<open>Model\<close>

text \<open>The next operation of the calling thread.\<close>

datatype caller_pc = C_init | C_post | C_test | C_recv | C_delay | C_result | C_fini rt_err | C_detach rt_err
  | C_return rt_err

text \<open>The owner holds the pointer from the queue on; the completion starts with the test of \<open>done\<close>.\<close>

datatype completer_pc = O_none | O_holds | O_check rt_err | O_result rt_err | O_refs | O_done | O_send | O_clear
  | O_finished

record sync_call =
  sy_initialized :: bool
  sy_done :: bool
  sy_completion_refs :: u32
  sy_result :: rt_err
  sy_event :: bool
  caller :: caller_pc
  owner :: completer_pc
  frame_alive :: bool \<comment> \<open>the calling function has not returned\<close>
  stray :: bool \<comment> \<open>the owner has used the request after the calling function returned\<close>
  answer :: "rt_err option" \<comment> \<open>what the owner completed the request with\<close>

definition sync_zero :: sync_call where
  "sync_zero = \<lparr>sy_initialized = False, sy_done = False, sy_completion_refs = 0, sy_result = RT_EOK, sy_event = False,
     caller = C_init, owner = O_none, frame_alive = True, stray = False, answer = None\<rparr>"

definition leave :: "rt_err \<Rightarrow> sync_call \<Rightarrow> sync_call" where
  "leave e s = s\<lparr>caller := C_return e, frame_alive := False\<rparr>"

definition lely_rtt_master_sync_init :: "rt_err \<Rightarrow> sync_call \<Rightarrow> sync_call" where
  "lely_rtt_master_sync_init e s =
     (if e \<noteq> RT_EOK then leave e (s\<lparr>sy_done := False, sy_completion_refs := 0, sy_event := False\<rparr>)
      else s\<lparr>sy_initialized := True, sy_done := False, sy_completion_refs := 0, sy_event := False,
             sy_result := RT_EBUSY, caller := C_post\<rparr>)"

text \<open>
  One operation of \<open>lely_rtt_master_sync_wait\<close> and \<open>lely_rtt_master_sync_fini\<close>, with the status of the
  receive.
\<close>

definition wait_step :: "rt_err \<Rightarrow> sync_call \<Rightarrow> sync_call" where
  "wait_step rx s = (case caller s of
       C_test \<Rightarrow> s\<lparr>caller := if sy_done s then C_result else C_recv\<rparr>
     | C_recv \<Rightarrow> if rx = RT_EOK then s\<lparr>caller := C_test, sy_event := False\<rparr>
                 else if rx = RT_ETIMEOUT then s\<lparr>caller := C_test\<rparr>
                 else s\<lparr>caller := C_delay\<rparr>
     | C_delay \<Rightarrow> s\<lparr>caller := C_test\<rparr>
     | C_result \<Rightarrow> s\<lparr>caller := C_fini (sy_result s)\<rparr>
     | C_fini e \<Rightarrow> if sy_completion_refs s \<noteq> 0 then s else s\<lparr>caller := C_detach e\<rparr>
     | C_detach e \<Rightarrow> leave e (s\<lparr>sy_initialized := False\<rparr>)
     | _ \<Rightarrow> s)"

text \<open>One operation of \<open>lely_rtt_master_sync_complete\<close>; \<open>sent\<close> says whether the event arrives.\<close>

definition complete_sync_step :: "bool \<Rightarrow> sync_call \<Rightarrow> sync_call" where
  "complete_sync_step sent s =
     (let s = s\<lparr>stray := stray s \<or> \<not> frame_alive s\<rparr>
      in case owner s of
           O_check e \<Rightarrow> if \<not> sy_initialized s \<or> sy_done s then s\<lparr>owner := O_finished\<rparr>
                        else s\<lparr>owner := O_result e, answer := Some e\<rparr>
         | O_result e \<Rightarrow> s\<lparr>sy_result := e, owner := O_refs\<rparr>
         | O_refs \<Rightarrow> s\<lparr>sy_completion_refs := 1, owner := O_done\<rparr>
         | O_done \<Rightarrow> s\<lparr>sy_done := True, owner := O_send\<rparr>
         | O_send \<Rightarrow> s\<lparr>sy_event := sy_event s \<or> sent, owner := O_clear\<rparr>
         | O_clear \<Rightarrow> s\<lparr>sy_completion_refs := 0, owner := O_finished\<rparr>
         | _ \<Rightarrow> s)"

definition completing :: "completer_pc \<Rightarrow> bool" where
  "completing p \<longleftrightarrow> p \<noteq> O_none \<and> p \<noteq> O_holds \<and> p \<noteq> O_finished"

definition waiting :: "caller_pc \<Rightarrow> bool" where
  "waiting p \<longleftrightarrow> p \<noteq> C_init \<and> p \<noteq> C_post \<and> (\<forall>e. p \<noteq> C_return e)"

inductive call_step :: "sync_call \<Rightarrow> sync_call \<Rightarrow> bool" where
  init: "caller s = C_init \<Longrightarrow> call_step s (lely_rtt_master_sync_init e s)"
| accepted: "caller s = C_post \<Longrightarrow> call_step s (s\<lparr>caller := C_test, owner := O_holds\<rparr>)"
| refused: "caller s = C_post \<Longrightarrow> e \<noteq> RT_EOK \<Longrightarrow> call_step s (s\<lparr>caller := C_fini e\<rparr>)"
| wait: "waiting (caller s) \<Longrightarrow> (rx = RT_EOK \<longrightarrow> sy_event s) \<Longrightarrow> call_step s (wait_step rx s)"
| touch: "owner s = O_holds \<Longrightarrow> call_step s (s\<lparr>stray := stray s \<or> \<not> frame_alive s\<rparr>)"
| begin_complete: "owner s = O_holds \<Longrightarrow> call_step s (s\<lparr>owner := O_check e\<rparr>)"
| complete: "completing (owner s) \<Longrightarrow> call_step s (complete_sync_step sent s)"

section \<open>Invariant\<close>

text \<open>How far the completion has come, and what the calling thread can have seen of it.\<close>

definition owner_view :: "sync_call \<Rightarrow> bool" where
  "owner_view s = (case owner s of
       O_none \<Rightarrow> \<not> sy_done s \<and> sy_completion_refs s = 0 \<and> answer s = None
     | O_holds \<Rightarrow> sy_initialized s \<and> \<not> sy_done s \<and> sy_completion_refs s = 0 \<and> answer s = None
     | O_check e \<Rightarrow> sy_initialized s \<and> \<not> sy_done s \<and> sy_completion_refs s = 0 \<and> answer s = None
     | O_result e \<Rightarrow> \<not> sy_done s \<and> answer s = Some e
     | O_refs \<Rightarrow> \<not> sy_done s \<and> answer s = Some (sy_result s)
     | O_done \<Rightarrow> \<not> sy_done s \<and> answer s = Some (sy_result s) \<and> sy_completion_refs s = 1
     | O_send \<Rightarrow> sy_done s \<and> answer s = Some (sy_result s) \<and> sy_completion_refs s = 1
     | O_clear \<Rightarrow> sy_done s \<and> answer s = Some (sy_result s) \<and> sy_completion_refs s = 1
     | O_finished \<Rightarrow> sy_done s \<and> answer s = Some (sy_result s) \<and> sy_completion_refs s = 0)"

definition caller_view :: "sync_call \<Rightarrow> bool" where
  "caller_view s = (case caller s of
       C_init \<Rightarrow> owner s = O_none
     | C_post \<Rightarrow> owner s = O_none \<and> sy_initialized s
     | C_test \<Rightarrow> owner s \<noteq> O_none
     | C_recv \<Rightarrow> owner s \<noteq> O_none
     | C_delay \<Rightarrow> owner s \<noteq> O_none
     | C_result \<Rightarrow> sy_done s
     | C_fini e \<Rightarrow> owner s = O_none \<and> e \<noteq> RT_EOK \<or> sy_done s \<and> answer s = Some e
     | C_detach e \<Rightarrow> owner s = O_none \<and> e \<noteq> RT_EOK \<or> owner s = O_finished \<and> answer s = Some e
     | C_return e \<Rightarrow> owner s = O_none \<and> e \<noteq> RT_EOK \<or> owner s = O_finished \<and> answer s = Some e)"

definition call_inv :: "sync_call \<Rightarrow> bool" where
  "call_inv s \<longleftrightarrow> owner_view s \<and> caller_view s \<and> \<not> stray s \<and> (frame_alive s \<longleftrightarrow> (\<forall>e. caller s \<noteq> C_return e))"

lemma alive_while_held: "call_inv s \<Longrightarrow> owner s \<noteq> O_none \<Longrightarrow> owner s \<noteq> O_finished \<Longrightarrow> frame_alive s"
  by (auto simp: call_inv_def caller_view_def)

lemma wait_step_inv:
  assumes "call_inv s" "waiting (caller s)"
  shows "call_inv (wait_step rx s)"
proof (cases "caller s")
  case (C_fini e)
  then show ?thesis
    using assms(1)
    by (cases "owner s") (auto simp: call_inv_def owner_view_def caller_view_def wait_step_def)
qed (use assms in \<open>auto simp: call_inv_def owner_view_def caller_view_def wait_step_def leave_def waiting_def
      split: completer_pc.splits\<close>)

lemma complete_sync_step_inv:
  assumes inv: "call_inv s" and c: "completing (owner s)"
  shows "call_inv (complete_sync_step sent s)"
proof -
  have "frame_alive s" using alive_while_held [OF inv] c by (auto simp: completing_def)
  then show ?thesis
    using inv c
    by (cases "owner s"; cases "caller s")
      (auto simp: call_inv_def owner_view_def caller_view_def complete_sync_step_def completing_def Let_def)
qed

lemma call_step_inv [step_inv]:
  assumes "call_step s t" "call_inv s"
  shows "call_inv t"
  using assms
proof (induction rule: call_step.induct)
  case (touch s)
  then have "s\<lparr>stray := stray s \<or> \<not> frame_alive s\<rparr> = s" using alive_while_held [of s] by (simp add: call_inv_def)
  then show ?case using touch by metis
next
  case (wait s rx)
  then show ?case by (intro wait_step_inv)
next
  case (complete s sent)
  then show ?case by (intro complete_sync_step_inv)
next
  case (begin_complete s e)
  then show ?case by (cases "caller s") (auto simp: call_inv_def owner_view_def caller_view_def)
qed (auto simp: call_inv_def owner_view_def caller_view_def lely_rtt_master_sync_init_def leave_def)

lemma call_reachable_inv: "call_step\<^sup>*\<^sup>* sync_zero s \<Longrightarrow> call_inv s"
proof (induction rule: rtranclp_induct)
  case base
  then show ?case by (simp add: sync_zero_def call_inv_def owner_view_def caller_view_def)
qed (rule call_step_inv)

section \<open>Progress\<close>

text \<open>Operations the calling thread still needs once the owner has finished.\<close>

definition waits_left :: "sync_call \<Rightarrow> nat" where
  "waits_left s = (case caller s of C_recv \<Rightarrow> 6 | C_delay \<Rightarrow> 5 | C_test \<Rightarrow> 4 | C_result \<Rightarrow> 3 | C_fini e \<Rightarrow> 2
     | C_detach e \<Rightarrow> 1 | _ \<Rightarrow> 0)"

lemma wait_step_progress:
  assumes "call_inv s" "owner s = O_finished" "waiting (caller s)"
  shows "waits_left (wait_step rx s) < waits_left s" "owner (wait_step rx s) = O_finished"
    "answer (wait_step rx s) = answer s"
    "waiting (caller (wait_step rx s)) \<or> (\<exists>e. caller (wait_step rx s) = C_return e)"
  using assms
  by (cases "caller s";
      auto simp: waits_left_def wait_step_def leave_def waiting_def call_inv_def owner_view_def caller_view_def)+

definition wait_run :: "rt_err list \<Rightarrow> sync_call \<Rightarrow> sync_call" where
  "wait_run rxs s = fold wait_step rxs s"

lemma wait_step_returned: "caller s = C_return e \<Longrightarrow> wait_step rx s = s"
  by (simp add: wait_step_def)

lemma wait_run_returned: "caller s = C_return e \<Longrightarrow> wait_run rxs s = s"
  by (induction rxs) (simp_all add: wait_run_def wait_step_returned)

lemma wait_run_returns:
  assumes "call_inv s" "owner s = O_finished" "waiting (caller s)" "waits_left s \<le> length rxs" "answer s = Some e"
  shows "caller (wait_run rxs s) = C_return e"
  using assms
proof (induction rxs arbitrary: s)
  case Nil
  then show ?case by (auto simp: waits_left_def waiting_def split: caller_pc.splits)
next
  case (Cons rx rxs)
  note p = wait_step_progress [OF Cons.prems(1-3), of rx]
  have inv: "call_inv (wait_step rx s)" using wait_step_inv Cons.prems(1,3) by blast
  have run: "wait_run (rx # rxs) s = wait_run rxs (wait_step rx s)" by (simp add: wait_run_def)
  from p(4) show ?case
  proof
    assume "waiting (caller (wait_step rx s))"
    then show ?thesis unfolding run
      using Cons.IH [OF inv p(2)] p(1,3) Cons.prems(4,5) by simp
  next
    assume "\<exists>e. caller (wait_step rx s) = C_return e"
    then obtain e' where r: "caller (wait_step rx s) = C_return e'" by blast
    then have "e' = e" using inv p(2,3) Cons.prems(5) by (simp add: call_inv_def caller_view_def)
    then show ?thesis unfolding run using wait_run_returned r by simp
  qed
qed

section \<open>Properties\<close>

text \<open>C25. A synchronous request is safe in every interleaving of the calling thread with the owner: the
  owner never uses the request after the calling function has left its stack frame, and what that
  function returns is the result the owner published, or, for a request the owner never received, the
  error of the initialisation or of the post.\<close>

theorem sync_call_safe:
  assumes "call_step\<^sup>*\<^sup>* sync_zero s"
  shows "\<not> stray s \<and> (\<forall>e. caller s = C_return e \<longrightarrow>
    (if owner s = O_none then e \<noteq> RT_EOK else owner s = O_finished \<and> answer s = Some e))"
  using call_reachable_inv [OF assms] by (auto simp: call_inv_def caller_view_def)

text \<open>The wait ends even when the wake-up is lost: once the owner has finished the completion, six
  operations of the calling thread are enough to return its result, whether each receive succeeds,
  times out or fails.\<close>

theorem sync_call_returns:
  assumes "call_step\<^sup>*\<^sup>* sync_zero s" "owner s = O_finished" "length rxs = 6"
  shows "\<exists>e. answer s = Some e \<and> caller (wait_run rxs s) = C_return e"
proof -
  have inv: "call_inv s" using call_reachable_inv [OF assms(1)] .
  then obtain e where e: "answer s = Some e" using assms(2) by (auto simp: call_inv_def owner_view_def)
  have "waits_left s \<le> 6" by (simp add: waits_left_def split: caller_pc.split)
  moreover have "caller s = C_return e \<or> waiting (caller s)"
    using inv assms(2) e by (cases "caller s") (auto simp: call_inv_def caller_view_def waiting_def)
  ultimately show ?thesis
    using wait_run_returns [OF inv assms(2)] wait_run_returned [of s e] e assms(3) by auto
qed

text \<open>A run in which the waiter sees the result before the event is sent, and the event is lost.\<close>

definition demo_call :: sync_call where
  "demo_call = sync_zero\<lparr>sy_initialized := True, sy_done := True, sy_result := RT_ENOSYS, caller := C_fini RT_ENOSYS,
     owner := O_finished, answer := Some RT_ENOSYS\<rparr>"

lemma demo_call_reached: "call_step\<^sup>*\<^sup>* sync_zero demo_call"
proof -
  let ?s1 = "lely_rtt_master_sync_init RT_EOK sync_zero"
  let ?s2 = "?s1\<lparr>caller := C_test, owner := O_holds\<rparr>"
  let ?s3 = "?s2\<lparr>owner := O_check RT_ENOSYS\<rparr>"
  let ?c = "complete_sync_step False"
  let ?s7 = "?c (?c (?c (?c ?s3)))"
  let ?s9 = "wait_step RT_ETIMEOUT (wait_step RT_ETIMEOUT ?s7)"
  note defs = sync_zero_def lely_rtt_master_sync_init_def complete_sync_step_def completing_def wait_step_def waiting_def
  have "call_step sync_zero ?s1" by (rule call_step.init) (simp add: sync_zero_def)
  moreover have "call_step ?s1 ?s2" by (rule call_step.accepted) (simp add: defs)
  moreover have "call_step ?s2 ?s3" by (rule call_step.begin_complete) simp
  moreover have "call_step ?s3 (?c ?s3)" by (rule call_step.complete) (simp add: defs)
  moreover have "call_step (?c ?s3) (?c (?c ?s3))" by (rule call_step.complete) (simp add: defs)
  moreover have "call_step (?c (?c ?s3)) (?c (?c (?c ?s3)))" by (rule call_step.complete) (simp add: defs)
  moreover have "call_step (?c (?c (?c ?s3))) ?s7" by (rule call_step.complete) (simp add: defs)
  moreover have "call_step ?s7 (wait_step RT_ETIMEOUT ?s7)" by (rule call_step.wait) (simp_all add: defs)
  moreover have "call_step (wait_step RT_ETIMEOUT ?s7) ?s9" by (rule call_step.wait) (simp_all add: defs)
  moreover have "call_step ?s9 (?c ?s9)" by (rule call_step.complete) (simp add: defs)
  moreover have "call_step (?c ?s9) (?c (?c ?s9))" by (rule call_step.complete) (simp add: defs)
  moreover have "?c (?c ?s9) = demo_call" by (simp add: defs demo_call_def)
  ultimately show ?thesis by (metis (no_types) rtranclp.simps)
qed

theorem sync_call_safe_witness:
  "\<not> stray (wait_step RT_EOK (wait_step RT_EOK demo_call))
    \<and> caller (wait_step RT_EOK (wait_step RT_EOK demo_call)) = C_return RT_ENOSYS"
proof -
  let ?t = "wait_step RT_ETIMEOUT demo_call" let ?u = "wait_step RT_ETIMEOUT ?t"
  have "call_step demo_call ?t" "call_step ?t ?u"
    by (rule call_step.wait; simp add: demo_call_def sync_zero_def wait_step_def waiting_def)+
  then have "call_step\<^sup>*\<^sup>* sync_zero ?u" using demo_call_reached by (meson rtranclp.rtrancl_into_rtrancl)
  from sync_call_safe [OF this] show ?thesis
    by (simp add: demo_call_def sync_zero_def wait_step_def leave_def)
qed

theorem sync_call_returns_witness:
  "caller (wait_run [RT_ERROR, RT_ERROR, RT_ERROR, RT_ERROR, RT_ERROR, RT_ERROR] demo_call) = C_return RT_ENOSYS"
  using sync_call_returns [OF demo_call_reached, of "[RT_ERROR, RT_ERROR, RT_ERROR, RT_ERROR, RT_ERROR, RT_ERROR]"]
  by (simp add: demo_call_def sync_zero_def)

end
