(* ===== verification/Rtt_Cfg.thy ===== *)
theory Rtt_Cfg
  imports Rtt_Dcf Rtt_Sdo
begin

text \<open>
  Manual configuration of a remote node (\<open>port/rtthread/src/master_cfg.c\<close>). A calling thread waits with
  the request on its stack (theory \<open>Rtt_Call\<close>) while the owner starts the configuration service of the
  NMT master for the node, serves its application stage with the concise DCF of the application, and
  completes the request when the service reports, or when the service is known to be gone.

  As in \<open>Rtt_Sdo\<close> the tables of the runtime are indexed by node and the state is that of one node; it
  contains the SDO scheduling of the node, which a configuration closes. The service of the stack is
  kept with the request its confirmation points to, so that a confirmation for a request that is no
  longer active, whose calling function may have returned, sets \<open>cn_stray\<close>. The argument \<open>E\<close> has what
  the object dictionary and the stack answer.
\<close>

section \<open>Model\<close>

datatype cfg_status = CFG_COMPLETION_OK | CFG_COMPLETION_ABORT | CFG_COMPLETION_CANCELED | CFG_COMPLETION_LOCAL_ERROR

datatype cfg_stage = STAGE_QUEUED | STAGE_OWNER_PRECHECK | STAGE_LELY_SEQUENCE | STAGE_APPLICATION_DCF | STAGE_COMPLETE

record cfg_request =
  cr_id :: nat \<comment> \<open>which stack object\<close>
  cr_status :: cfg_status
  cr_local_error :: rt_err
  cr_abort_code :: u32
  cr_stage :: cfg_stage
  cr_source_flags :: u8
  cr_restore :: bool
  cr_entries :: u32
  cr_last_index :: u16
  cr_last_subindex :: u8
  cr_cancel :: bool

text \<open>
  The configuration service of the stack for the node: the request its confirmation function was given
  (none when the stack configures the node itself), whether it has reached the application stage, whether
  the DCF of the application is being downloaded, and whether another application owes the result.
\<close>

record cfg_service =
  sv_req :: "nat option"
  sv_user :: bool
  sv_dcf :: bool
  sv_ext :: bool

record cfg_node =
  cn_source :: "(u32 \<times> bytes) option" \<comment> \<open>\<open>cfg_sources\<close>: entries and data\<close>
  cn_active :: "cfg_request option" \<comment> \<open>\<open>cfg_active\<close>\<close>
  cn_resume :: bool \<comment> \<open>\<open>cfg_resume_pending\<close>\<close>
  cn_resume_ac :: u32 \<comment> \<open>\<open>cfg_resume_abort_code\<close>\<close>
  cn_tearing :: bool \<comment> \<open>\<open>cfg_tearing_down\<close>\<close>
  cn_service :: "cfg_service option"
  cn_sdo :: node
  cn_done :: "cfg_request list" \<comment> \<open>completed requests, in order\<close>
  cn_stray :: bool
  cn_twice :: bool \<comment> \<open>a service has been destroyed a second time while it was being destroyed\<close>

datatype ind_holder = Ind_none | Ind_bridge | Ind_other "u32 option" \<comment> \<open>with the result it gives before it returns\<close>

datatype req_outcome = Req_fails | Req_waits | Req_user | Req_con u32

record bridge_env =
  ce_nmt :: bool
  ce_net :: bool
  ce_dev :: bool
  ce_1f81 :: u32
  ce_1f22 :: bool \<comment> \<open>object 1F22 has a value for the node\<close>
  ce_1f8a :: u8 \<comment> \<open>0 when the sub-object does not exist\<close>
  ce_ind :: ind_holder \<comment> \<open>\<open>co_nmt_get_cfg_ind\<close>\<close>
  ce_booting :: bool
  ce_resetting :: bool \<comment> \<open>the NMT service is in a reset state\<close>
  ce_req :: req_outcome \<comment> \<open>how far \<open>co_nmt_cfg_req\<close> gets before it returns\<close>
  ce_dcf :: "(u16 \<times> u8 \<times> u32) option option" \<comment> \<open>\<open>co_csdo_dn_dcf_req\<close>: failure, started, or confirmed at once\<close>
  ce_abort :: "u16 \<times> u8 \<times> u32" \<comment> \<open>the confirmation of a download that is aborted\<close>
  ce_transfer :: bool \<comment> \<open>a service in an earlier stage has a transfer of its own SDO client under way\<close>
  ce_sdo :: sdo_env

definition SOURCE_OBJECT_1F22 :: u8 where "SOURCE_OBJECT_1F22 = 1"
definition SOURCE_APPLICATION_DCF :: u8 where "SOURCE_APPLICATION_DCF = 2"
definition SOURCE_EXTERNAL_CFG_IND :: u8 where "SOURCE_EXTERNAL_CFG_IND = 4"

definition finish :: "cfg_request \<Rightarrow> cfg_status \<Rightarrow> rt_err \<Rightarrow> u32 \<Rightarrow> cfg_request" where
  "finish r st err ac = r\<lparr>cr_status := st, cr_local_error := err, cr_abort_code := ac\<rparr>"

definition cfg_complete :: "cfg_request \<Rightarrow> cfg_status \<Rightarrow> rt_err \<Rightarrow> u32 \<Rightarrow> cfg_node \<Rightarrow> cfg_node" where
  "cfg_complete r st err ac n =
     (let n1 = (if map_option cr_id (cn_active n) = Some (cr_id r)
                then n\<lparr>cn_active := None, cn_resume := False, cn_resume_ac := 0\<rparr> else n)
      in n1\<lparr>cn_done := cn_done n1 @ [finish r st err ac]\<rparr>)"

text \<open>\<open>lely_rtt_master_cfg_con\<close>, given the pointer \<open>i\<close>.\<close>

definition cfg_con :: "nat \<Rightarrow> u32 \<Rightarrow> cfg_node \<Rightarrow> cfg_node" where
  "cfg_con i ac n = (case cn_active n of
       None \<Rightarrow> n\<lparr>cn_stray := True\<rparr>
     | Some r \<Rightarrow>
         if cr_id r \<noteq> i then n\<lparr>cn_stray := True\<rparr>
         else if cr_cancel r then cfg_complete r CFG_COMPLETION_CANCELED RT_EOK ac n
         else if ac \<noteq> 0 then cfg_complete r CFG_COMPLETION_ABORT RT_EOK ac n
         else cfg_complete (r\<lparr>cr_stage := STAGE_COMPLETE\<rparr>) CFG_COMPLETION_OK RT_EOK 0 n)"

definition dcf_con :: "u16 \<times> u8 \<times> u32 \<Rightarrow> cfg_node \<Rightarrow> cfg_node" where
  "dcf_con con n = (case (cn_active n, con) of
       (Some r, idx, subidx, ac) \<Rightarrow>
         if cn_tearing n then n
         else n\<lparr>cn_active := Some (r\<lparr>cr_last_index := idx, cr_last_subindex := subidx\<rparr>), cn_resume_ac := ac, cn_resume := True\<rparr>
     | (None, _) \<Rightarrow> n)"

section \<open>The stack\<close>

text \<open>
  \<open>co_nmt_cfg_destroy\<close> for a service that reports its result, and for one in its application stage: a download
  of the application under way is aborted, which confirms it to the bridge, before the memory is freed.
\<close>

definition service_gone :: "bridge_env \<Rightarrow> cfg_node \<Rightarrow> cfg_node" where
  "service_gone E n = (case cn_service n of
       Some s \<Rightarrow> (if sv_dcf s then dcf_con (ce_abort E) n else n)\<lparr>cn_service := None\<rparr>
     | None \<Rightarrow> n)"

definition co_nmt_cfg_con :: "bridge_env \<Rightarrow> u32 \<Rightarrow> cfg_node \<Rightarrow> cfg_node" where
  "co_nmt_cfg_con E ac n = (case cn_service n of
       None \<Rightarrow> n
     | Some s \<Rightarrow> (case sv_req s of None \<Rightarrow> service_gone E n | Some i \<Rightarrow> cfg_con i ac (service_gone E n)))"

text \<open>
  \<open>co_nmt_cfg_destroy\<close> from \<open>co_nmt_slaves_fini\<close>, at a reset or at the end of the NMT service. In an earlier stage the
  transfer under way is one of the service itself: its abort is confirmed to the service, which reports the abort
  code, and \<open>co_nmt_cfg_con\<close> destroys the service, confirms to the request and returns into the first destruction (theory \<open>Co_Nmt_Cfg\<close>).
  What the C program does after that is undefined.
\<close>

definition service_destroyed :: "bridge_env \<Rightarrow> cfg_node \<Rightarrow> cfg_node" where
  "service_destroyed E n = (case cn_service n of
       None \<Rightarrow> n
     | Some s \<Rightarrow>
         if \<not> sv_user s \<and> ce_transfer E then (co_nmt_cfg_con E CO_SDO_AC_NO_SDO n)\<lparr>cn_twice := True\<rparr>
         else service_gone E n)"

text \<open>A result outside the application stage has no handler.\<close>

definition co_nmt_cfg_res :: "bridge_env \<Rightarrow> u32 \<Rightarrow> cfg_node \<Rightarrow> cfg_node" where
  "co_nmt_cfg_res E ac n = (case cn_service n of
       None \<Rightarrow> n
     | Some s \<Rightarrow> if sv_user s then co_nmt_cfg_con E ac n else n\<lparr>cn_stray := True\<rparr>)"

definition cfg_ind :: "bridge_env \<Rightarrow> cfg_node \<Rightarrow> cfg_node" where
  "cfg_ind E n =
     (if cn_tearing n \<or> ce_resetting E then n
      else case (cn_active n, cn_source n) of
        (Some r, Some (entries, d)) \<Rightarrow>
          let n1 = n\<lparr>cn_active := Some (r\<lparr>cr_stage := STAGE_APPLICATION_DCF, cr_entries := entries\<rparr>)\<rparr>
          in (case ce_dcf E of
                None \<Rightarrow> n1\<lparr>cn_resume_ac := CO_SDO_AC_ERROR, cn_resume := True\<rparr>
              | Some None \<Rightarrow> n1\<lparr>cn_service := map_option (\<lambda>s. s\<lparr>sv_dcf := True\<rparr>) (cn_service n1)\<rparr>
              | Some (Some con) \<Rightarrow> dcf_con con n1)
      | _ \<Rightarrow> co_nmt_cfg_res E 0 n)"

text \<open>The service enters its application stage.\<close>

definition co_nmt_cfg_ind :: "bridge_env \<Rightarrow> cfg_node \<Rightarrow> cfg_node" where
  "co_nmt_cfg_ind E n =
     (let n1 = n\<lparr>cn_service := map_option (\<lambda>s. s\<lparr>sv_user := True\<rparr>) (cn_service n)\<rparr>
      in case ce_ind E of
           Ind_bridge \<Rightarrow> cfg_ind E n1
         | Ind_none \<Rightarrow> co_nmt_cfg_res E 0 n1
         | Ind_other (Some ac) \<Rightarrow> co_nmt_cfg_res E ac n1
         | Ind_other None \<Rightarrow> n1\<lparr>cn_service := map_option (\<lambda>s. s\<lparr>sv_ext := True\<rparr>) (cn_service n1)\<rparr>)"

definition co_nmt_cfg_req :: "bridge_env \<Rightarrow> nat option \<Rightarrow> cfg_node \<Rightarrow> bool \<times> cfg_node" where
  "co_nmt_cfg_req E con n =
     (let n1 = n\<lparr>cn_service := Some \<lparr>sv_req = con, sv_user = False, sv_dcf = False, sv_ext = False\<rparr>\<rparr>
      in if cn_service n \<noteq> None then (False, n)
         else case ce_req E of
           Req_fails \<Rightarrow> (False, n)
         | Req_waits \<Rightarrow> (True, n1)
         | Req_user \<Rightarrow> (True, co_nmt_cfg_ind E n1)
         | Req_con ac \<Rightarrow> (True, co_nmt_cfg_con E ac n1))"

section \<open>The owner\<close>

definition source_flags :: "bridge_env \<Rightarrow> cfg_node \<Rightarrow> u8" where
  "source_flags E n =
     (if ce_dev E \<and> ce_1f22 E then SOURCE_OBJECT_1F22 else 0)
     OR (if cn_source n \<noteq> None then SOURCE_APPLICATION_DCF else 0)
     OR (if ce_nmt E \<and> (\<exists>ac. ce_ind E = Ind_other ac) then SOURCE_EXTERNAL_CFG_IND else 0)"

definition has_work :: "bridge_env \<Rightarrow> cfg_node \<Rightarrow> bool" where
  "has_work E n \<longleftrightarrow> ce_nmt E \<and> ce_dev E \<and> ce_1f81 E AND 0x01 \<noteq> 0 \<and> source_flags E n \<noteq> 0"

definition restore_requested :: "bridge_env \<Rightarrow> bool" where
  "restore_requested E \<longleftrightarrow> ce_dev E \<and> ce_1f81 E AND 0x80 \<noteq> 0 \<and> ce_1f8a E \<noteq> 0"

text \<open>The checks before a configuration starts, in order; \<open>RT_EOK\<close> when all pass.\<close>

definition precheck :: "bridge_env \<Rightarrow> cfg_request \<Rightarrow> cfg_node \<Rightarrow> rt_err" where
  "precheck E r n =
     (if \<not> ce_nmt E \<or> \<not> ce_net E then RT_EBUSY
      else if cn_active n \<noteq> None then RT_EBUSY
      else if ce_1f81 E AND 0x01 = 0 then RT_EINVAL
      else if cr_restore r then RT_ENOSYS
      else if cn_source n \<noteq> None \<and> cr_source_flags r AND SOURCE_EXTERNAL_CFG_IND \<noteq> 0 then RT_EBUSY
      else if \<not> has_work E n then RT_ENOSYS
      else if ce_booting E then RT_EBUSY
      else RT_EOK)"

definition diagnose :: "bridge_env \<Rightarrow> cfg_node \<Rightarrow> cfg_request \<Rightarrow> cfg_request" where
  "diagnose E n r = r\<lparr>cr_stage := STAGE_OWNER_PRECHECK, cr_source_flags := source_flags E n, cr_restore := restore_requested E,
     cr_entries := (case cn_source n of None \<Rightarrow> cr_entries r | Some (entries, _) \<Rightarrow> entries)\<rparr>"

definition cfg_dispatch :: "bridge_env \<Rightarrow> cfg_request \<Rightarrow> cfg_node \<Rightarrow> cfg_node" where
  "cfg_dispatch E r n =
     (let r1 = diagnose E n r; err = precheck E r1 n
      in if err \<noteq> RT_EOK then cfg_complete r1 CFG_COMPLETION_LOCAL_ERROR err 0 n
         else
           let n1 = n\<lparr>cn_sdo := cancel_node (ce_sdo E) (cn_sdo n)\<rparr>;
               r2 = r1\<lparr>cr_stage := STAGE_LELY_SEQUENCE\<rparr>
           in case co_nmt_cfg_req E (Some (cr_id r2)) (n1\<lparr>cn_active := Some r2\<rparr>) of
                (ok, n2) \<Rightarrow>
                  if \<not> ok \<and> map_option cr_id (cn_active n2) = Some (cr_id r2)
                  then cfg_complete (the (cn_active n2)) CFG_COMPLETION_LOCAL_ERROR RT_ERROR 0 n2 else n2)"

definition cfg_reap :: "bridge_env \<Rightarrow> cfg_node \<Rightarrow> cfg_node" where
  "cfg_reap E n =
     (if \<not> cn_resume n then n
      else
        let ac = cn_resume_ac n; n1 = n\<lparr>cn_resume := False, cn_resume_ac := 0\<rparr>
        in if cn_tearing n1 \<or> \<not> ce_nmt E \<or> cn_active n1 = None then n1 else co_nmt_cfg_res E ac n1)"

definition cfg_cancel_queued :: "cfg_request \<Rightarrow> cfg_node \<Rightarrow> cfg_node" where
  "cfg_cancel_queued r n = n\<lparr>cn_done := cn_done n @ [finish (r\<lparr>cr_cancel := True\<rparr>) CFG_COMPLETION_CANCELED RT_EOK 0]\<rparr>"

definition mark_cancelled :: "cfg_node \<Rightarrow> cfg_node" where
  "mark_cancelled n = n\<lparr>cn_active := map_option (\<lambda>r. r\<lparr>cr_cancel := True\<rparr>) (cn_active n)\<rparr>"

definition prepare_nmt_destroy :: "cfg_node \<Rightarrow> cfg_node" where
  "prepare_nmt_destroy n = mark_cancelled (n\<lparr>cn_tearing := True\<rparr>)"

definition retire :: "cfg_node \<Rightarrow> cfg_node" where
  "retire n = (case cn_active n of None \<Rightarrow> n
     | Some r \<Rightarrow> cfg_complete (r\<lparr>cr_cancel := True\<rparr>) CFG_COMPLETION_CANCELED RT_EOK 0 n)"

definition after_nmt_destroy :: "cfg_node \<Rightarrow> cfg_node" where
  "after_nmt_destroy n = (retire n)\<lparr>cn_resume := False, cn_resume_ac := 0, cn_tearing := False\<rparr>"

definition cfg_on_nmt_command :: "nmt_command \<Rightarrow> cfg_node \<Rightarrow> cfg_node" where
  "cfg_on_nmt_command c n =
     (if c = COMMAND_STOP \<or> c = COMMAND_RESET_NODE \<or> c = COMMAND_RESET_COMM then mark_cancelled n else n)"

definition cfg_on_local_nmt_state :: "u8 \<Rightarrow> cfg_node \<Rightarrow> cfg_node" where
  "cfg_on_local_nmt_state st n = (if st \<noteq> 0 \<and> st \<noteq> CO_NMT_ST_PREOP then n else retire n)"

definition cfg_node_busy :: "cfg_node \<Rightarrow> bool" where
  "cfg_node_busy n \<longleftrightarrow> cn_active n \<noteq> None"

section \<open>Runs\<close>

text \<open>
  Everything that can happen to the node in the owner thread: operations of the bridge, events of the
  stack, and the SDO operations of the node. The local states 0 and PRE-OP are indicated after the stack
  has destroyed the services of all nodes.
\<close>

datatype cfg_op = Cfg_dispatch cfg_request | Cfg_cancel_queued cfg_request | Cfg_reap | Cfg_command nmt_command
  | Cfg_local_state u8 | Cfg_prepare | Cfg_after | Cfg_stack_req | Cfg_stack_user | Cfg_stack_con u32
  | Cfg_stack_dcf "u16 \<times> u8 \<times> u32" | Cfg_external u32 | Cfg_sdo sdo_op

definition stage_is :: "(cfg_service \<Rightarrow> bool) \<Rightarrow> cfg_node \<Rightarrow> bool" where
  "stage_is P n = (case cn_service n of None \<Rightarrow> False | Some s \<Rightarrow> P s)"

fun cfg_exec :: "bridge_env \<Rightarrow> cfg_op \<Rightarrow> cfg_node \<Rightarrow> cfg_node" where
  "cfg_exec E (Cfg_dispatch r) n = cfg_dispatch E r n"
| "cfg_exec E (Cfg_cancel_queued r) n = cfg_cancel_queued r n"
| "cfg_exec E Cfg_reap n = cfg_reap E n"
| "cfg_exec E (Cfg_command c) n = cfg_on_nmt_command c n"
| "cfg_exec E (Cfg_local_state st) n =
     cfg_on_local_nmt_state st (if st = 0 \<or> st = CO_NMT_ST_PREOP then service_destroyed E n else n)"
| "cfg_exec E Cfg_prepare n = prepare_nmt_destroy n"
| "cfg_exec E Cfg_after n = after_nmt_destroy (service_destroyed E n)"
| "cfg_exec E Cfg_stack_req n = snd (co_nmt_cfg_req E None n)"
| "cfg_exec E Cfg_stack_user n = (if stage_is (\<lambda>s. \<not> sv_user s) n then co_nmt_cfg_ind E n else n)"
| "cfg_exec E (Cfg_stack_con ac) n = (if stage_is (\<lambda>s. \<not> sv_user s) n then co_nmt_cfg_con E ac n else n)"
| "cfg_exec E (Cfg_stack_dcf con) n =
     (if stage_is sv_dcf n then dcf_con con (n\<lparr>cn_service := map_option (\<lambda>s. s\<lparr>sv_dcf := False\<rparr>) (cn_service n)\<rparr>) else n)"
| "cfg_exec E (Cfg_external ac) n = (if stage_is sv_ext n then co_nmt_cfg_res E ac n else n)"
| "cfg_exec E (Cfg_sdo op) n = n\<lparr>cn_sdo := node_op ((ce_sdo E)\<lparr>en_cfg_busy := cfg_node_busy n\<rparr>) op (cn_sdo n)\<rparr>"

fun cfg_posted :: "cfg_op \<Rightarrow> nat list" where
  "cfg_posted (Cfg_dispatch r) = [cr_id r]"
| "cfg_posted (Cfg_cancel_queued r) = [cr_id r]"
| "cfg_posted _ = []"

text \<open>A request is not the one that is active: its calling function still waits.\<close>

fun cfg_op_ok :: "bridge_env \<Rightarrow> cfg_op \<Rightarrow> cfg_node \<Rightarrow> bool" where
  "cfg_op_ok E (Cfg_dispatch r) n \<longleftrightarrow> map_option cr_id (cn_active n) \<noteq> Some (cr_id r)"
| "cfg_op_ok E (Cfg_cancel_queued r) n \<longleftrightarrow> map_option cr_id (cn_active n) \<noteq> Some (cr_id r)"
| "cfg_op_ok E (Cfg_sdo op) n \<longleftrightarrow> env_ok (ce_sdo E) (cn_sdo n) \<and> (\<forall>r \<in> set (posted op). fresh r)"
| "cfg_op_ok E _ n \<longleftrightarrow> True"

definition cfg_node_zero :: "(u32 \<times> bytes) option \<Rightarrow> u8 \<Rightarrow> u8 \<Rightarrow> cfg_node" where
  "cfg_node_zero src nd ch = \<lparr>cn_source = src, cn_active = None, cn_resume = False, cn_resume_ac = 0, cn_tearing = False,
     cn_service = None, cn_sdo = node_zero nd ch, cn_done = [], cn_stray = False, cn_twice = False\<rparr>"

inductive bridge_run :: "nat list \<Rightarrow> cfg_node \<Rightarrow> bool" where
  start: "bridge_run [] (cfg_node_zero src nd ch)"
| step: "bridge_run ids n \<Longrightarrow> cfg_op_ok E op n \<Longrightarrow> bridge_run (ids @ cfg_posted op) (cfg_exec E op n)"

section \<open>Invariant\<close>

text \<open>The active request is the one the service confirms to, and a staged result has a service to resume.\<close>

definition service_req :: "cfg_node \<Rightarrow> nat option" where
  "service_req n = Option.bind (cn_service n) sv_req"

definition service_wf :: "cfg_service \<Rightarrow> bool" where
  "service_wf s \<longleftrightarrow> (sv_dcf s \<longrightarrow> sv_user s \<and> \<not> sv_ext s) \<and> (sv_ext s \<longrightarrow> sv_user s)"

definition good :: "cfg_node \<Rightarrow> bool" where
  "good n \<longleftrightarrow> \<not> cn_stray n \<and> map_option cr_id (cn_active n) = service_req n
     \<and> (\<forall>s. cn_service n = Some s \<longrightarrow> service_wf s)
     \<and> (cn_resume n \<longrightarrow> cn_active n \<noteq> None \<and> stage_is (\<lambda>s. sv_user s \<and> \<not> sv_dcf s \<and> \<not> sv_ext s) n)"

definition cfg_ids :: "cfg_node \<Rightarrow> nat multiset" where
  "cfg_ids n = mset (map cr_id (cn_done n)) + mset (case map_option cr_id (cn_active n) of None \<Rightarrow> [] | Some i \<Rightarrow> [i])"

text \<open>What every step inside the owner keeps.\<close>

definition keeps :: "cfg_node \<Rightarrow> cfg_node \<Rightarrow> bool" where
  "keeps n n' \<longleftrightarrow> good n' \<and> cfg_ids n' = cfg_ids n \<and> cn_sdo n' = cn_sdo n \<and> (cn_active n = None \<longrightarrow> cn_active n' = None)"

lemma finish_id [simp]: "cr_id (finish r st err ac) = cr_id r"
  by (simp add: finish_def)

lemma complete_active:
  assumes "cn_active n = Some a" "cr_id r = cr_id a"
  shows "cn_active (cfg_complete r st err ac n) = None" "cn_resume (cfg_complete r st err ac n) = False"
    "cn_service (cfg_complete r st err ac n) = cn_service n" "cn_stray (cfg_complete r st err ac n) = cn_stray n"
    "cn_sdo (cfg_complete r st err ac n) = cn_sdo n" "cfg_ids (cfg_complete r st err ac n) = cfg_ids n"
  using assms by (simp_all add: cfg_complete_def Let_def cfg_ids_def)

lemma dcf_con_frame [simp]:
  "cn_service (dcf_con con n) = cn_service n" "cn_stray (dcf_con con n) = cn_stray n" "cn_sdo (dcf_con con n) = cn_sdo n"
  "map_option cr_id (cn_active (dcf_con con n)) = map_option cr_id (cn_active n)" "cfg_ids (dcf_con con n) = cfg_ids n"
  "cn_active (dcf_con con n) = None \<longleftrightarrow> cn_active n = None" "cn_done (dcf_con con n) = cn_done n"
  by (cases con; auto simp: dcf_con_def cfg_ids_def split: option.split)+

lemma service_updates [simp]:
  "cfg_ids (n\<lparr>cn_service := v\<rparr>) = cfg_ids n"
  by (simp add: cfg_ids_def)

lemma service_gone_frame [simp]:
  "cn_service (service_gone E n) = None" "cn_stray (service_gone E n) = cn_stray n" "cn_sdo (service_gone E n) = cn_sdo n"
  "map_option cr_id (cn_active (service_gone E n)) = map_option cr_id (cn_active n)" "cfg_ids (service_gone E n) = cfg_ids n"
  "cn_active (service_gone E n) = None \<longleftrightarrow> cn_active n = None"
  by (simp_all add: service_gone_def split: option.split)

text \<open>Whatever the status, a request that is completed for the active one leaves no trace of it.\<close>

lemma completed_good:
  assumes "cn_active n = Some a" "cr_id r = cr_id a" "cn_service n = None" "\<not> cn_stray n"
  shows "good (cfg_complete r st err ac n)"
  using complete_active [OF assms(1,2), of st err ac] assms(3,4) by (simp add: good_def service_req_def)

lemma cfg_con_completes:
  assumes "cn_active n = Some r" "cr_id r = i"
  shows "\<exists>r' st err a. cfg_con i ac n = cfg_complete r' st err a n \<and> cr_id r' = cr_id r"
proof (cases "\<not> cr_cancel r \<and> ac = 0")
  case True
  then have "cfg_con i ac n = cfg_complete (r\<lparr>cr_stage := STAGE_COMPLETE\<rparr>) CFG_COMPLETION_OK RT_EOK 0 n"
    using assms by (simp add: cfg_con_def)
  moreover have "cr_id (r\<lparr>cr_stage := STAGE_COMPLETE\<rparr>) = cr_id r" by simp
  ultimately show ?thesis by blast
qed (use assms in \<open>auto simp: cfg_con_def\<close>)

lemma active_id: "map_option cr_id (cn_active n) = Some i \<Longrightarrow> \<exists>r. cn_active n = Some r \<and> cr_id r = i"
  by (cases "cn_active n") auto

lemma gone_good: "good n \<Longrightarrow> cn_active n = None \<Longrightarrow> good (service_gone E n)"
  by (auto simp: good_def service_gone_def service_req_def dcf_con_def split: option.splits)

lemma con_keeps:
  assumes g: "good n"
  shows "keeps n (co_nmt_cfg_con E ac n)"
proof (cases "service_req n")
  case None
  then have "cn_active n = None" using g by (simp add: good_def)
  moreover have "co_nmt_cfg_con E ac n = n \<or> co_nmt_cfg_con E ac n = service_gone E n"
    using None by (auto simp: co_nmt_cfg_con_def service_req_def split: option.splits)
  ultimately show ?thesis using g gone_good [OF g] by (auto simp: keeps_def)
next
  case (Some i)
  then have con: "co_nmt_cfg_con E ac n = cfg_con i ac (service_gone E n)"
    by (auto simp: co_nmt_cfg_con_def service_req_def bind_eq_Some_conv)
  have "map_option cr_id (cn_active (service_gone E n)) = Some i" using g Some by (simp add: good_def)
  then obtain r where r: "cn_active (service_gone E n) = Some r" "cr_id r = i" using active_id by blast
  obtain r' st err a where c: "cfg_con i ac (service_gone E n) = cfg_complete r' st err a (service_gone E n)" "cr_id r' = cr_id r"
    using cfg_con_completes [OF r] by blast
  note ca = complete_active [OF r(1) c(2), of st err a]
  have "good (cfg_complete r' st err a (service_gone E n))"
    using completed_good [OF r(1) c(2)] g by (simp add: good_def)
  then show ?thesis unfolding con c(1) using ca by (simp add: keeps_def)
qed

lemma res_keeps: "good n \<Longrightarrow> stage_is sv_user n \<or> cn_service n = None \<Longrightarrow> keeps n (co_nmt_cfg_res E ac n)"
  using con_keeps [of n E ac] by (auto simp: co_nmt_cfg_res_def stage_is_def keeps_def split: option.splits)

text \<open>The stages of a service.\<close>

lemma flags_keep:
  assumes "good n" "cn_service n = Some s" "service_wf s'" "sv_req s' = sv_req s"
    "cn_resume n \<Longrightarrow> sv_user s' \<and> \<not> sv_dcf s' \<and> \<not> sv_ext s'"
  shows "keeps n (n\<lparr>cn_service := Some s'\<rparr>)"
  using assms by (auto simp: keeps_def good_def service_req_def stage_is_def)

lemma dcf_staged_good:
  assumes "good n" "cn_active n \<noteq> None" "stage_is (\<lambda>s. sv_user s \<and> \<not> sv_dcf s \<and> \<not> sv_ext s) n"
  shows "keeps n (dcf_con con n)" "keeps n (n\<lparr>cn_resume_ac := ac, cn_resume := True\<rparr>)"
proof -
  have "good (dcf_con con n)" using assms by (simp add: good_def service_req_def stage_is_def)
  then show "keeps n (dcf_con con n)" by (simp add: keeps_def)
  show "keeps n (n\<lparr>cn_resume_ac := ac, cn_resume := True\<rparr>)"
    using assms by (simp add: keeps_def good_def service_req_def stage_is_def cfg_ids_def)
qed

lemma keeps_trans: "keeps n n' \<Longrightarrow> keeps n' n'' \<Longrightarrow> keeps n n''"
  by (simp add: keeps_def)

lemma keeps_refl: "good n \<Longrightarrow> keeps n n"
  by (simp add: keeps_def)

lemma cfg_ind_keeps:
  assumes g: "good n" and u: "stage_is (\<lambda>s. sv_user s \<and> \<not> sv_dcf s \<and> \<not> sv_ext s) n" "\<not> cn_resume n"
  shows "keeps n (cfg_ind E n)"
proof (cases "\<exists>r src. cn_active n = Some r \<and> cn_source n = Some src \<and> \<not> (cn_tearing n \<or> ce_resetting E)")
  case True
  then obtain r entries d where r: "cn_active n = Some r" "cn_source n = Some (entries, d)" "\<not> (cn_tearing n \<or> ce_resetting E)"
    by auto
  let ?n = "n\<lparr>cn_active := Some (r\<lparr>cr_stage := STAGE_APPLICATION_DCF, cr_entries := entries\<rparr>)\<rparr>"
  have k: "keeps n ?n" using g r(1) by (simp add: keeps_def good_def service_req_def stage_is_def cfg_ids_def)
  have st: "stage_is (\<lambda>s. sv_user s \<and> \<not> sv_dcf s \<and> \<not> sv_ext s) ?n" using u(1) by (simp add: stage_is_def)
  have gn: "good ?n" using k by (simp add: keeps_def)
  obtain sv where sv: "cn_service n = Some sv" "sv_user sv" "\<not> sv_dcf sv" "\<not> sv_ext sv"
    using u(1) by (auto simp: stage_is_def split: option.splits)
  have dl: "keeps ?n (?n\<lparr>cn_service := map_option (\<lambda>s. s\<lparr>sv_dcf := True\<rparr>) (cn_service ?n)\<rparr>)"
    using flags_keep [OF gn, of sv "sv\<lparr>sv_dcf := True\<rparr>"] sv u(2) by (simp add: service_wf_def)
  have "cfg_ind E n = (case ce_dcf E of None \<Rightarrow> ?n\<lparr>cn_resume_ac := CO_SDO_AC_ERROR, cn_resume := True\<rparr>
      | Some None \<Rightarrow> ?n\<lparr>cn_service := map_option (\<lambda>s. s\<lparr>sv_dcf := True\<rparr>) (cn_service ?n)\<rparr>
      | Some (Some con) \<Rightarrow> dcf_con con ?n)"
    using r by (simp add: cfg_ind_def Let_def)
  moreover have "cn_active ?n \<noteq> None" by simp
  ultimately show ?thesis using keeps_trans [OF k] dl dcf_staged_good [OF gn _ st] by (simp split: option.split)
next
  case False
  then have "cfg_ind E n = n \<or> cfg_ind E n = co_nmt_cfg_res E 0 n"
    by (auto simp: cfg_ind_def split: option.splits)
  moreover have "stage_is sv_user n" using u(1) by (simp add: stage_is_def split: option.splits)
  ultimately show ?thesis using res_keeps [OF g, of E 0] keeps_refl [OF g] by auto
qed

lemma nmt_cfg_ind_keeps:
  assumes g: "good n" and u: "stage_is (\<lambda>s. \<not> sv_user s) n"
  shows "keeps n (co_nmt_cfg_ind E n)"
proof -
  let ?n = "n\<lparr>cn_service := map_option (\<lambda>s. s\<lparr>sv_user := True\<rparr>) (cn_service n)\<rparr>"
  have nr: "\<not> cn_resume n" using g u by (auto simp: good_def stage_is_def split: option.splits)
  obtain sv where sv: "cn_service n = Some sv" "\<not> sv_user sv" using u by (auto simp: stage_is_def split: option.splits)
  then have wf: "\<not> sv_dcf sv" "\<not> sv_ext sv" using g by (auto simp: good_def service_wf_def)
  have k: "keeps n ?n" using flags_keep [OF g sv(1), of "sv\<lparr>sv_user := True\<rparr>"] sv wf nr by (simp add: service_wf_def)
  then have gn: "good ?n" by (simp add: keeps_def)
  have st: "stage_is (\<lambda>s. sv_user s \<and> \<not> sv_dcf s \<and> \<not> sv_ext s) ?n" "stage_is sv_user ?n"
    using sv wf by (simp_all add: stage_is_def)
  have ext: "keeps ?n (?n\<lparr>cn_service := map_option (\<lambda>s. s\<lparr>sv_ext := True\<rparr>) (cn_service ?n)\<rparr>)"
    using flags_keep [OF gn, of "sv\<lparr>sv_user := True\<rparr>" "sv\<lparr>sv_user := True, sv_ext := True\<rparr>"] sv wf nr
    by (simp add: service_wf_def)
  show ?thesis
    using keeps_trans [OF k] ext cfg_ind_keeps [OF gn st(1)] nr res_keeps [OF gn] st(2)
    by (simp add: co_nmt_cfg_ind_def Let_def split: ind_holder.split option.split)
qed

text \<open>Starting a service for the active request, or for the stack itself.\<close>

lemma req_keeps:
  assumes n: "\<not> cn_stray n" "\<not> cn_resume n" "map_option cr_id (cn_active n) = i" "cn_service n = None"
    and ok: "ce_req E \<noteq> Req_fails"
  defines "p \<equiv> co_nmt_cfg_req E i n"
  shows "fst p" "good (snd p)" "cfg_ids (snd p) = cfg_ids n" "cn_sdo (snd p) = cn_sdo n"
    "cn_active n = None \<Longrightarrow> cn_active (snd p) = None"
proof -
  let ?n = "n\<lparr>cn_service := Some \<lparr>sv_req = i, sv_user = False, sv_dcf = False, sv_ext = False\<rparr>\<rparr>"
  have g: "good ?n" using n by (simp add: good_def service_req_def service_wf_def)
  have st: "stage_is (\<lambda>s. \<not> sv_user s) ?n" by (simp add: stage_is_def)
  have ids: "cfg_ids ?n = cfg_ids n" by (simp add: cfg_ids_def)
  have p: "p = (True, snd p)" "keeps ?n (snd p)"
    using n(4) ok keeps_refl [OF g] nmt_cfg_ind_keeps [OF g st, of E] con_keeps [OF g, of E]
    unfolding p_def co_nmt_cfg_req_def by (cases "ce_req E"; simp add: Let_def)+
  from p(1) show "fst p" by (metis fst_conv)
  from p(2) show "good (snd p)" "cfg_ids (snd p) = cfg_ids n" "cn_sdo (snd p) = cn_sdo n"
    "cn_active n = None \<Longrightarrow> cn_active (snd p) = None"
    using ids by (auto simp: keeps_def)
qed

lemma req_refused: "cn_service n \<noteq> None \<or> ce_req E = Req_fails \<Longrightarrow> co_nmt_cfg_req E i n = (False, n)"
  by (auto simp: co_nmt_cfg_req_def Let_def)

section \<open>The operations of the owner\<close>

definition bridge_inv :: "cfg_node \<Rightarrow> bool" where
  "bridge_inv n \<longleftrightarrow> good n \<and> node_inv (cn_sdo n) \<and> (cn_active n \<noteq> None \<longrightarrow> held (cn_sdo n) = [])"

definition accounted :: "nat list \<Rightarrow> cfg_node \<Rightarrow> cfg_node \<Rightarrow> bool" where
  "accounted ids n n' \<longleftrightarrow> bridge_inv n' \<and> cfg_ids n' = cfg_ids n + mset ids"

lemma keeps_accounted: "bridge_inv n \<Longrightarrow> keeps n n' \<Longrightarrow> accounted [] n n'"
  by (auto simp: keeps_def bridge_inv_def accounted_def)

lemma logged_accounted:
  assumes "bridge_inv n" "cr_id r = i"
  shows "accounted [i] n (n\<lparr>cn_done := cn_done n @ [r]\<rparr>)"
  using assms by (simp add: accounted_def bridge_inv_def good_def service_req_def stage_is_def cfg_ids_def)

lemma complete_other:
  assumes "map_option cr_id (cn_active n) \<noteq> Some (cr_id r)"
  shows "cfg_complete r st err ac n = n\<lparr>cn_done := cn_done n @ [finish r st err ac]\<rparr>"
  using assms unfolding cfg_complete_def Let_def by (simp only: if_False)

lemma diagnose_id [simp]: "cr_id (diagnose E n r) = cr_id r"
  by (simp add: diagnose_def)

lemma held_nil: "held nd = [] \<longleftrightarrow> active nd = None \<and> pending nd = []"
  by (auto simp: held_def split: option.split)

lemma dispatch_accounted:
  assumes inv: "bridge_inv n" and new: "map_option cr_id (cn_active n) \<noteq> Some (cr_id r)"
  shows "accounted [cr_id r] n (cfg_dispatch E r n)"
proof (cases "precheck E (diagnose E n r) n = RT_EOK")
  case False
  then have "cfg_dispatch E r n = n\<lparr>cn_done := cn_done n
      @ [finish (diagnose E n r) CFG_COMPLETION_LOCAL_ERROR (precheck E (diagnose E n r) n) 0]\<rparr>"
    using new complete_other [of n "diagnose E n r"] by (simp add: cfg_dispatch_def Let_def)
  then show ?thesis
    using logged_accounted [OF inv, of "finish (diagnose E n r) CFG_COMPLETION_LOCAL_ERROR (precheck E (diagnose E n r) n) 0"]
    by simp
next
  case True
  then have act: "cn_active n = None" by (auto simp: precheck_def split: if_splits)
  have g: "good n" using inv by (simp add: bridge_inv_def)
  let ?sdo = "cancel_node (ce_sdo E) (cn_sdo n)" let ?r = "(diagnose E n r)\<lparr>cr_stage := STAGE_LELY_SEQUENCE\<rparr>"
  let ?n = "n\<lparr>cn_sdo := ?sdo, cn_active := Some ?r\<rparr>"
  have sdo: "node_inv ?sdo" "held ?sdo = []"
    using inv cancel_node_inv cancel_node_result by (auto simp: bridge_inv_def held_nil)
  have ids: "cfg_ids ?n = cfg_ids n + {#cr_id r#}" using act by (simp add: cfg_ids_def)
  have nr: "\<not> cn_resume n" "\<not> cn_stray n" using g act by (auto simp: good_def)
  have disp: "cfg_dispatch E r n = (case co_nmt_cfg_req E (Some (cr_id r)) ?n of
      (ok, n2) \<Rightarrow> if \<not> ok \<and> map_option cr_id (cn_active n2) = Some (cr_id r)
        then cfg_complete (the (cn_active n2)) CFG_COMPLETION_LOCAL_ERROR RT_ERROR 0 n2 else n2)"
    using True by (simp add: cfg_dispatch_def Let_def)
  show ?thesis
  proof (cases "cn_service n \<noteq> None \<or> ce_req E = Req_fails")
    case refused: True
    have c: "cfg_dispatch E r n = cfg_complete ?r CFG_COMPLETION_LOCAL_ERROR RT_ERROR 0 ?n"
      unfolding disp using req_refused [of ?n E "Some (cr_id r)"] refused by simp
    note ca = complete_active [of ?n ?r ?r CFG_COMPLETION_LOCAL_ERROR RT_ERROR 0]
    have "good (cfg_dispatch E r n)"
      unfolding c using ca g act nr by (simp add: good_def service_req_def cfg_complete_def Let_def)
    then show ?thesis using ca ids sdo unfolding c by (simp add: accounted_def bridge_inv_def)
  next
    case False
    note k = req_keeps [of ?n "Some (cr_id r)" E]
    have "cfg_dispatch E r n = snd (co_nmt_cfg_req E (Some (cr_id r)) ?n)"
    proof -
      have "fst (co_nmt_cfg_req E (Some (cr_id r)) ?n)" using k(1) nr False by simp
      then show ?thesis unfolding disp by (cases "co_nmt_cfg_req E (Some (cr_id r)) ?n") simp
    qed
    then show ?thesis using k nr False ids sdo by (simp add: accounted_def bridge_inv_def)
  qed
qed

lemma reap_keeps: "good n \<Longrightarrow> keeps n (cfg_reap E n)"
proof -
  assume g: "good n"
  let ?n = "n\<lparr>cn_resume := False, cn_resume_ac := 0\<rparr>"
  have k: "keeps n ?n" using g by (auto simp: keeps_def good_def service_req_def stage_is_def cfg_ids_def)
  have "stage_is sv_user ?n" if "cn_resume n"
    using g that by (auto simp: good_def stage_is_def split: option.splits)
  then show ?thesis
    using keeps_refl [OF g] k keeps_trans [OF k res_keeps] by (auto simp: cfg_reap_def Let_def keeps_def)
qed

lemma mark_keeps: "good n \<Longrightarrow> keeps n (mark_cancelled n)" "good n \<Longrightarrow> keeps n (n\<lparr>cn_tearing := b\<rparr>)"
  by (auto simp: keeps_def good_def mark_cancelled_def service_req_def stage_is_def cfg_ids_def option.map_comp comp_def)

text \<open>The barriers: the service is gone, then the request is completed.\<close>

lemma twice_keeps: "keeps n m \<Longrightarrow> keeps n (m\<lparr>cn_twice := b\<rparr>)"
proof -
  have "cfg_ids (m\<lparr>cn_twice := b\<rparr>) = cfg_ids m" by (simp add: cfg_ids_def)
  moreover have "good (m\<lparr>cn_twice := b\<rparr>) = good m" by (simp add: good_def service_req_def stage_is_def)
  ultimately show "keeps n m \<Longrightarrow> ?thesis" by (simp add: keeps_def)
qed

lemma retire_gone_keeps:
  assumes g: "good n"
  shows "keeps n (retire (service_gone E n))"
proof (cases "cn_active (service_gone E n)")
  case None
  then have "retire (service_gone E n) = service_gone E n" unfolding retire_def by (simp only: option.case)
  then show ?thesis using gone_good [OF g, of E] None by (simp add: keeps_def)
next
  case (Some r)
  let ?r = "r\<lparr>cr_cancel := True\<rparr>"
  note ca = complete_active [OF Some, of ?r CFG_COMPLETION_CANCELED RT_EOK 0]
  have "good (cfg_complete ?r CFG_COMPLETION_CANCELED RT_EOK 0 (service_gone E n))"
    using completed_good [OF Some, of ?r] g by (simp add: good_def)
  then show ?thesis using Some ca by (simp add: retire_def keeps_def)
qed

text \<open>A confirmation completes the active request.\<close>

lemma con_idle: "good n \<Longrightarrow> cn_service n \<noteq> None \<Longrightarrow> cn_active (co_nmt_cfg_con E ac n) = None"
proof -
  assume g: "good n" and s: "cn_service n \<noteq> None"
  show ?thesis
  proof (cases "service_req n")
    case None
    then have "cn_active n = None" using g by (simp add: good_def)
    then show ?thesis using con_keeps [OF g, of E ac] by (simp add: keeps_def)
  next
    case (Some i)
    then have con: "co_nmt_cfg_con E ac n = cfg_con i ac (service_gone E n)"
      by (auto simp: co_nmt_cfg_con_def service_req_def bind_eq_Some_conv)
    have "map_option cr_id (cn_active (service_gone E n)) = Some i" using g Some by (simp add: good_def)
    then obtain r where r: "cn_active (service_gone E n) = Some r" "cr_id r = i" using active_id by blast
    obtain r' st err a where c: "cfg_con i ac (service_gone E n) = cfg_complete r' st err a (service_gone E n)" "cr_id r' = cr_id r"
      using cfg_con_completes [OF r] by blast
    then show ?thesis unfolding con using complete_active(1) [OF r(1) c(2)] by simp
  qed
qed

lemma barrier_keeps:
  assumes g: "good n"
  shows "keeps n (retire (service_destroyed E n))" "keeps n ((retire (service_destroyed E n))\<lparr>cn_resume := False, cn_resume_ac := x, cn_tearing := b\<rparr>)"
proof -
  show k: "keeps n (retire (service_destroyed E n))"
  proof (cases "\<exists>s. cn_service n = Some s \<and> \<not> sv_user s \<and> ce_transfer E")
    case True
    then have d: "service_destroyed E n = (co_nmt_cfg_con E CO_SDO_AC_NO_SDO n)\<lparr>cn_twice := True\<rparr>" by (auto simp: service_destroyed_def)
    have "cn_active (co_nmt_cfg_con E CO_SDO_AC_NO_SDO n) = None" using con_idle [OF g] True by blast
    then have "retire (service_destroyed E n) = service_destroyed E n" by (simp add: retire_def d)
    then show ?thesis using twice_keeps [OF con_keeps [OF g]] by (simp add: d)
  next
    case False
    then have "service_destroyed E n = service_gone E n" by (auto simp: service_destroyed_def service_gone_def split: option.split)
    then show ?thesis using retire_gone_keeps [OF g] by simp
  qed
  let ?m = "retire (service_destroyed E n)" let ?m' = "?m\<lparr>cn_resume := False, cn_resume_ac := x, cn_tearing := b\<rparr>"
  have "cfg_ids ?m' = cfg_ids ?m" "good ?m \<Longrightarrow> good ?m'"
    by (simp_all add: cfg_ids_def good_def service_req_def)
  then show "keeps n ?m'" using k by (simp add: keeps_def)
qed

lemma dcf_keeps:
  assumes g: "good n" and d: "stage_is sv_dcf n"
  shows "keeps n (dcf_con con (n\<lparr>cn_service := map_option (\<lambda>s. s\<lparr>sv_dcf := False\<rparr>) (cn_service n)\<rparr>))"
proof -
  obtain s where s: "cn_service n = Some s" "sv_dcf s" using d by (auto simp: stage_is_def split: option.splits)
  then have wf: "sv_user s" "\<not> sv_ext s" using g by (auto simp: good_def service_wf_def)
  let ?n = "n\<lparr>cn_service := Some (s\<lparr>sv_dcf := False\<rparr>)\<rparr>"
  have k: "keeps n ?n" using flags_keep [OF g s(1), of "s\<lparr>sv_dcf := False\<rparr>"] wf by (simp add: service_wf_def)
  then have gn: "good ?n" by (simp add: keeps_def)
  have "keeps ?n (dcf_con con ?n)"
  proof (cases "cn_active ?n")
    case None
    then have "dcf_con con ?n = ?n" by (simp add: dcf_con_def split: prod.split)
    then show ?thesis using keeps_refl [OF gn] by simp
  next
    case (Some r)
    then show ?thesis using dcf_staged_good(1) [OF gn] wf by (simp add: stage_is_def)
  qed
  then show ?thesis using keeps_trans [OF k] s by simp
qed

lemma sdo_closed:
  assumes inv: "node_inv nd" and empty: "held nd = []" and busy: "en_cfg_busy E"
  shows "held (node_op E op nd) = []"
proof -
  note c = cancel_node_result [OF inv, of E]
  have na: "\<not> node_available E nd'" for nd' using busy by (simp add: node_available_def)
  show ?thesis
  proof (cases op)
    case Op_reap
    then show ?thesis
      using empty na by (auto simp: held_nil reap_def start_pending_def Let_def reap_client_def split: option.splits)
  next
    case (Op_caller i a)
    then show ?thesis using empty by (simp add: held_nil caller_def)
  next
    case (Op_cancel_queued r)
    then show ?thesis using empty by (simp add: held_nil cancel_queued_def)
  next
    case (Op_nmt_command cmd)
    then show ?thesis using empty by (cases cmd) (simp_all add: held_nil on_nmt_command_def set_suspended_def)
  qed (use empty c na in \<open>simp_all add: held_nil dispatch_def cancel_dispatch_def cancel_pending_def confirm_def
      before_boot_def set_suspended_def on_nmt_state_def on_boot_complete_def sdo_fini_def\<close>)
qed

lemma sdo_accounted:
  assumes inv: "bridge_inv n" and ok: "env_ok (ce_sdo E) (cn_sdo n)" "\<forall>r \<in> set (posted op). fresh r"
  shows "accounted [] n (cfg_exec E (Cfg_sdo op) n)"
proof -
  let ?E = "(ce_sdo E)\<lparr>en_cfg_busy := cfg_node_busy n\<rparr>"
  have "env_ok ?E (cn_sdo n)" using ok(1) by (simp add: env_ok_def)
  then have "node_inv (node_op ?E op (cn_sdo n))"
    using node_op_sound [of "cn_sdo n" ?E op] inv ok(2) by (simp add: bridge_inv_def sound_def)
  moreover have "held (node_op ?E op (cn_sdo n)) = []" if "cn_active n \<noteq> None"
    using sdo_closed [of "cn_sdo n" ?E op] inv that by (simp add: bridge_inv_def cfg_node_busy_def)
  ultimately show ?thesis
    using inv by (auto simp: accounted_def bridge_inv_def good_def service_req_def stage_is_def cfg_ids_def)
qed

lemma stack_req_keeps:
  assumes g: "good n"
  shows "keeps n (snd (co_nmt_cfg_req E None n))"
proof (cases "cn_service n \<noteq> None \<or> ce_req E = Req_fails")
  case True
  then show ?thesis using req_refused keeps_refl [OF g] by simp
next
  case False
  then have "cn_active n = None" "\<not> cn_resume n" "\<not> cn_stray n" using g by (auto simp: good_def service_req_def)
  then show ?thesis using req_keeps [of n None E] False by (simp add: keeps_def)
qed

lemma cfg_exec_accounted [step_inv]:
  assumes inv: "bridge_inv n" and ok: "cfg_op_ok E op n"
  shows "accounted (cfg_posted op) n (cfg_exec E op n)"
proof -
  have g: "good n" using inv by (simp add: bridge_inv_def)
  note keep = keeps_accounted [OF inv]
  have user: "stage_is sv_user n" if "stage_is sv_ext n"
    using g that by (auto simp: good_def stage_is_def service_wf_def split: option.splits)
  show ?thesis
  proof (cases op)
    case (Cfg_cancel_queued r)
    then show ?thesis
      using logged_accounted [OF inv, of "finish (r\<lparr>cr_cancel := True\<rparr>) CFG_COMPLETION_CANCELED RT_EOK 0"]
      by (simp add: cfg_cancel_queued_def)
  next
    case (Cfg_sdo sop)
    then show ?thesis using sdo_accounted [OF inv] ok by simp
  next
    case (Cfg_local_state st)
    then show ?thesis
      using keep [OF barrier_keeps(1) [OF g]] keep [OF keeps_refl [OF g]] by (simp add: cfg_on_local_nmt_state_def)
  next
    case Cfg_prepare
    have "keeps (n\<lparr>cn_tearing := True\<rparr>) (mark_cancelled (n\<lparr>cn_tearing := True\<rparr>))"
      using mark_keeps(1) mark_keeps(2) [OF g, of True] by (simp add: keeps_def)
    then show ?thesis using Cfg_prepare keep [OF keeps_trans [OF mark_keeps(2) [OF g]]] by (simp add: prepare_nmt_destroy_def)
  qed (use dispatch_accounted [OF inv] ok keep reap_keeps [OF g] mark_keeps [OF g] barrier_keeps [OF g] keeps_refl [OF g]
      stack_req_keeps [OF g] nmt_cfg_ind_keeps [OF g] con_keeps [OF g] dcf_keeps [OF g] res_keeps [OF g] user in
      \<open>simp_all add: cfg_on_nmt_command_def after_nmt_destroy_def\<close>)
qed

lemma bridge_run_inv: "bridge_run ids n \<Longrightarrow> bridge_inv n \<and> cfg_ids n = mset ids"
proof (induction rule: bridge_run.induct)
  case (start src nd ch)
  then show ?case
    using node_zero_inv by (simp add: cfg_node_zero_def bridge_inv_def good_def service_req_def cfg_ids_def)
next
  case (step ids n E op)
  then show ?case using cfg_exec_accounted [of n E op] by (simp add: accounted_def)
qed

section \<open>Properties\<close>

text \<open>C22. Configuration requests and the memory of their callers. Whatever the order in which requests are
  dispatched, cancelled and reaped, the stack runs, aborts or destroys its services, the network resets
  and the NMT service goes down, in every run that does not destroy a service twice: the confirmation of the stack never reaches a request that has been
  completed, each request posted for the node is completed exactly once or is the one still active, and
  the active request is the one that the service of the stack will confirm to.\<close>

theorem cfg_requests_accounted:
  assumes "bridge_run ids n" "\<not> cn_twice n"
  shows "\<not> cn_stray n
    \<and> mset ids = mset (map cr_id (cn_done n)) + mset (case cn_active n of None \<Rightarrow> [] | Some r \<Rightarrow> [cr_id r])
    \<and> (\<forall>r. cn_active n = Some r \<longrightarrow> (\<exists>s. cn_service n = Some s \<and> sv_req s = Some (cr_id r)))"
proof -
  have inv: "good n" "cfg_ids n = mset ids" using bridge_run_inv [OF assms(1)] by (simp_all add: bridge_inv_def)
  have "(case map_option cr_id (cn_active n) of None \<Rightarrow> [] | Some i \<Rightarrow> [i]) = (case cn_active n of None \<Rightarrow> [] | Some r \<Rightarrow> [cr_id r])"
    by (simp split: option.split)
  then have "mset ids = mset (map cr_id (cn_done n)) + mset (case cn_active n of None \<Rightarrow> [] | Some r \<Rightarrow> [cr_id r])"
    using inv(2) unfolding cfg_ids_def by (simp only:)
  moreover have "\<exists>s. cn_service n = Some s \<and> sv_req s = Some (cr_id r)" if "cn_active n = Some r" for r
  proof -
    have "service_req n = Some (cr_id r)" using inv(1) that by (simp add: good_def)
    then show ?thesis by (auto simp: service_req_def bind_eq_Some_conv)
  qed
  ultimately show ?thesis using inv(1) by (simp add: good_def)
qed

text \<open>A configuration has the node to itself: from the moment it starts until its request is completed
  no SDO request of the application is active or queued for the node, whatever is posted meanwhile; new
  ones are refused.\<close>

theorem cfg_excludes_sdo:
  assumes "bridge_run ids n" "cn_active n \<noteq> None"
  shows "held (cn_sdo n) = [] \<and> (\<forall>E r. rq_state r = QUEUED \<longrightarrow>
    cn_sdo (cfg_exec E (Cfg_sdo (Op_dispatch r)) n) = (cn_sdo n)\<lparr>finished := finished (cn_sdo n)
      @ [(r\<lparr>rq_state := DONE\<rparr>, completion COMPLETION_LOCAL_ERROR RT_EBUSY 0)]\<rparr>)"
proof -
  have "held (cn_sdo n) = []" using bridge_run_inv [OF assms(1)] assms(2) by (simp add: bridge_inv_def)
  moreover have "cn_sdo (cfg_exec E (Cfg_sdo (Op_dispatch r)) n) = (cn_sdo n)\<lparr>finished := finished (cn_sdo n)
      @ [(r\<lparr>rq_state := DONE\<rparr>, completion COMPLETION_LOCAL_ERROR RT_EBUSY 0)]\<rparr>" if "rq_state r = QUEUED" for E r
    using assms(2) that
    by (simp add: dispatch_def node_available_def cfg_node_busy_def refuse_def claim_def complete_def)
  ultimately show ?thesis by blast
qed

text \<open>A reset of the master while the configuration of a node is still downloading what the stack itself sends (the configuration
  of the slave, object 1F22) destroys the configuration service twice: the abort of its own transfer makes the service report
  its result in the middle of its destruction. The request of the application is completed in the same way, with
  the abort code \<open>CO_SDO_AC_NO_SDO\<close>, unless it was cancelled before.\<close>

theorem cfg_reset_destroys_twice:
  assumes "bridge_run ids n" "cn_service n = Some s" "\<not> sv_user s" "sv_req s = Some i" "ce_transfer E" "st = 0 \<or> st = CO_NMT_ST_PREOP"
  shows "let n' = cfg_exec E (Cfg_local_state st) n
    in cn_twice n' \<and> cn_active n' = None \<and> (\<exists>r. cn_active n = Some r \<and> cr_id r = i
      \<and> cn_done n' = cn_done n @ [finish r (if cr_cancel r then CFG_COMPLETION_CANCELED else CFG_COMPLETION_ABORT) RT_EOK CO_SDO_AC_NO_SDO])"
proof -
  have g: "good n" using bridge_run_inv [OF assms(1)] by (simp add: bridge_inv_def)
  then have "map_option cr_id (cn_active n) = Some i" using assms(2,4) by (simp add: good_def service_req_def)
  then obtain r where r: "cn_active n = Some r" "cr_id r = i" using active_id by blast
  have "\<not> sv_dcf s" using g assms(2,3) by (auto simp: good_def service_wf_def)
  then have "service_destroyed E n = (cfg_con i CO_SDO_AC_NO_SDO (n\<lparr>cn_service := None\<rparr>))\<lparr>cn_twice := True\<rparr>"
    using assms(2-5) by (simp add: service_destroyed_def co_nmt_cfg_con_def service_gone_def)
  moreover have "CO_SDO_AC_NO_SDO \<noteq> 0" by (simp add: CO_SDO_AC_NO_SDO_def)
  ultimately show ?thesis using assms(6) r
    by (auto simp: Let_def cfg_on_local_nmt_state_def cfg_con_def cfg_complete_def retire_def)
qed

definition demo_bridge_env :: bridge_env where
  "demo_bridge_env = \<lparr>ce_nmt = True, ce_net = True, ce_dev = True, ce_1f81 = 1, ce_1f22 = True, ce_1f8a = 0, ce_ind = Ind_bridge,
     ce_booting = False, ce_resetting = False, ce_req = Req_waits, ce_dcf = Some None, ce_abort = (0, 0, 0x060A0023),
     ce_transfer = True, ce_sdo = demo_sdo_env\<rparr>"

definition demo_cfg_request :: cfg_request where
  "demo_cfg_request = \<lparr>cr_id = 7, cr_status = CFG_COMPLETION_LOCAL_ERROR, cr_local_error = RT_EBUSY, cr_abort_code = 0,
     cr_stage = STAGE_QUEUED, cr_source_flags = 0, cr_restore = False, cr_entries = 0, cr_last_index = 0,
     cr_last_subindex = 0, cr_cancel = False\<rparr>"

text \<open>A request whose configuration is under way, and has reached its application stage.\<close>

definition demo_cfg_node :: cfg_node where
  "demo_cfg_node = cfg_exec demo_bridge_env (Cfg_dispatch demo_cfg_request) (cfg_node_zero (Some (1, [])) 5 0)"

lemmas demo_cfg_defs = demo_cfg_node_def demo_bridge_env_def demo_cfg_request_def cfg_node_zero_def cfg_dispatch_def
  diagnose_def precheck_def has_work_def source_flags_def restore_requested_def co_nmt_cfg_req_def SOURCE_OBJECT_1F22_def
  SOURCE_APPLICATION_DCF_def SOURCE_EXTERNAL_CFG_IND_def

lemma demo_cfg_run: "bridge_run [7] demo_cfg_node"
  using bridge_run.step [OF bridge_run.start [of "Some (1, [])" 5 0], of demo_bridge_env "Cfg_dispatch demo_cfg_request"]
  by (simp add: demo_cfg_node_def demo_cfg_request_def cfg_node_zero_def)

lemma demo_cfg_active: "map_option cr_id (cn_active demo_cfg_node) = Some 7"
  by (simp add: demo_cfg_defs Let_def)

theorem cfg_requests_accounted_witness:
  "let n = cfg_exec demo_bridge_env (Cfg_local_state 0) (cfg_exec demo_bridge_env Cfg_stack_user demo_cfg_node)
   in bridge_run [7] n \<and> \<not> cn_twice n \<and> \<not> cn_stray n \<and> map cr_id (cn_done n) = [7]"
proof -
  let ?m = "cfg_exec demo_bridge_env Cfg_stack_user demo_cfg_node" let ?n = "cfg_exec demo_bridge_env (Cfg_local_state 0) ?m"
  have "bridge_run [7] ?m" using bridge_run.step [OF demo_cfg_run, of demo_bridge_env Cfg_stack_user] by simp
  then have run: "bridge_run [7] ?n" using bridge_run.step [of "[7]" ?m demo_bridge_env "Cfg_local_state 0"] by simp
  have "cn_active ?n = None" and t: "\<not> cn_twice ?n"
    by (simp_all add: demo_cfg_defs Let_def stage_is_def co_nmt_cfg_ind_def cfg_ind_def cfg_on_local_nmt_state_def retire_def service_destroyed_def
        service_gone_def dcf_con_def cfg_complete_def)
  then have "mset [7] = mset (map cr_id (cn_done ?n))" "\<not> cn_stray ?n" using cfg_requests_accounted [OF run t] by simp_all
  then have "map cr_id (cn_done ?n) = [7]" by (metis mset_single_iff)
  then show ?thesis using run t \<open>\<not> cn_stray ?n\<close> unfolding Let_def by blast
qed

theorem cfg_reset_destroys_twice_witness:
  "bridge_run [7] demo_cfg_node \<and> cn_twice (cfg_exec demo_bridge_env (Cfg_local_state 0) demo_cfg_node)"
proof -
  have "cn_service demo_cfg_node = Some \<lparr>sv_req = Some 7, sv_user = False, sv_dcf = False, sv_ext = False\<rparr>"
    by (simp add: demo_cfg_defs Let_def)
  from cfg_reset_destroys_twice [OF demo_cfg_run this, of 7 demo_bridge_env 0] show ?thesis
    using demo_cfg_run by (simp add: Let_def demo_bridge_env_def)
qed

theorem cfg_excludes_sdo_witness:
  "cn_active demo_cfg_node \<noteq> None \<and> held (cn_sdo demo_cfg_node) = []"
  using cfg_excludes_sdo [OF demo_cfg_run] demo_cfg_active by auto

end
