(* ===== verification/Rtt_Snapshot.thy ===== *)
theory Rtt_Snapshot
  imports Rtt_Sdo
begin

text \<open>
  State of the remote nodes as the application sees it (\<open>lely_rtt_master_state_ind\<close>, \<open>_hb_ind\<close>, \<open>_boot_ind\<close>
  and the getters of \<open>port/rtthread/src/runtime.c\<close>). The owner packs the state of a node into one atomic
  word and its boot result into another, so that a reader in any thread gets values that belong
  together. The indications also drive the SDO gates of the node (theory \<open>Rtt_Sdo\<close>).

  The stack handles an indication inside \<open>co_nmt_on_st\<close> and may finish the boot procedure of the node
  before it returns; the argument \<open>nested\<close> is that boot result.
\<close>

unbundle bit_operations_syntax

section \<open>Model\<close>

definition STATE_UNAVAILABLE :: u8 where "STATE_UNAVAILABLE = 0xff"
definition STATE_TIMEOUT :: u32 where "STATE_TIMEOUT = 0x00010000"
definition BOOT_VALID :: u32 where "BOOT_VALID = 0x00010000"

record remote =
  rm_state :: u32 \<comment> \<open>\<open>remote_nmt_state\<close>\<close>
  rm_boot :: u32 \<comment> \<open>\<open>remote_boot_result\<close>\<close>
  rm_sdo :: node

definition remote_state_pack :: "u8 \<Rightarrow> u8 \<Rightarrow> bool \<Rightarrow> u32" where
  "remote_state_pack current previous timed_out =
     (let v = ucast current OR push_bit 8 (ucast previous) in if timed_out then v OR STATE_TIMEOUT else v)"

definition snapshots_reset :: "remote \<Rightarrow> remote" where
  "snapshots_reset m = m\<lparr>rm_state := remote_state_pack STATE_UNAVAILABLE STATE_UNAVAILABLE False, rm_boot := 0\<rparr>"

text \<open>\<open>st & ~CO_NMT_ST_TOGGLE\<close>.\<close>

definition plain_state :: "u8 \<Rightarrow> u8" where
  "plain_state st = st AND NOT CO_NMT_ST_TOGGLE"

text \<open>The boot result: the state, the error status and a flag.\<close>

definition boot_word :: "u8 \<Rightarrow> u8 \<Rightarrow> u32" where
  "boot_word st es = BOOT_VALID OR push_bit 8 (ucast es) OR ucast st"

definition boot_ind :: "u8 \<Rightarrow> u8 \<Rightarrow> remote \<Rightarrow> remote" where
  "boot_ind st es m =
     (let state = plain_state st
      in m\<lparr>rm_sdo := on_boot_complete state (rm_sdo m),
           rm_state := remote_state_pack state state False,
           rm_boot := boot_word state es\<rparr>)"

definition state_ind :: "sdo_env \<Rightarrow> sdo_env \<Rightarrow> (u8 \<times> u8) option \<Rightarrow> u8 \<Rightarrow> remote \<Rightarrow> remote" where
  "state_ind E E' nested st m =
     (let state = plain_state st;
          m1 = (if state = CO_NMT_ST_BOOTUP then m\<lparr>rm_boot := 0\<rparr> else m);
          m2 = (if state = CO_NMT_ST_BOOTUP then m1\<lparr>rm_sdo := before_boot E (rm_sdo m1)\<rparr> else m1);
          m3 = (case nested of None \<Rightarrow> m2 | Some (st', es) \<Rightarrow> boot_ind st' es m2)
      in if state = CO_NMT_ST_BOOTUP \<and> rm_boot m3 AND BOOT_VALID \<noteq> 0 then m3
         else m3\<lparr>rm_sdo := on_nmt_state E' state (rm_sdo m3), rm_state := remote_state_pack state state False\<rparr>)"

datatype hb_event = EC_OCCURRED | EC_RESOLVED

text \<open>Only the reason \<open>CO_NMT_EC_TIMEOUT\<close> changes the snapshot.\<close>

definition hb_ind :: "hb_event \<Rightarrow> bool \<Rightarrow> remote \<Rightarrow> remote" where
  "hb_ind ev timeout m =
     (if \<not> timeout then m
      else
        let previous = ucast (drop_bit 8 (rm_state m))
        in if ev = EC_OCCURRED then m\<lparr>rm_state := remote_state_pack STATE_UNAVAILABLE previous True\<rparr>
           else if rm_state m AND STATE_TIMEOUT \<noteq> 0 then m\<lparr>rm_state := remote_state_pack previous previous False\<rparr>
           else m)"

definition get_remote_nmt_state :: "remote \<Rightarrow> rt_err + u8" where
  "get_remote_nmt_state m =
     (let current = ucast (rm_state m AND 0xff) in if current = STATE_UNAVAILABLE then Inl RT_EBUSY else Inr current)"

definition get_remote_boot_status :: "remote \<Rightarrow> rt_err + u8 \<times> u8" where
  "get_remote_boot_status m =
     (if rm_boot m AND BOOT_VALID = 0 then Inl RT_EBUSY
      else Inr (ucast (rm_boot m AND 0xff), ucast (drop_bit 8 (rm_boot m))))"

section \<open>What the words mean\<close>

text \<open>
  The node as a monitor would describe it: the last state it reported, whether its heartbeat is overdue,
  and the result of its last boot since it announced itself.
\<close>

record monitor =
  mo_last :: "u8 option"
  mo_overdue :: bool
  mo_boot :: "(u8 \<times> u8) option"

definition state_byte :: "u8 option \<Rightarrow> u8" where
  "state_byte s = (case s of None \<Rightarrow> STATE_UNAVAILABLE | Some b \<Rightarrow> b)"

definition represents :: "remote \<Rightarrow> monitor \<Rightarrow> bool" where
  "represents m v \<longleftrightarrow>
     rm_state m = remote_state_pack (if mo_overdue v then STATE_UNAVAILABLE else state_byte (mo_last v))
       (state_byte (mo_last v)) (mo_overdue v)
     \<and> rm_boot m = (case mo_boot v of None \<Rightarrow> 0 | Some (st, es) \<Rightarrow> boot_word st es)
     \<and> (\<forall>b. mo_last v = Some b \<longrightarrow> b \<noteq> STATE_UNAVAILABLE)"

datatype indication = Ind_state u8 "(u8 \<times> u8) option" | Ind_hb hb_event bool | Ind_boot u8 u8

definition monitor_boot :: "u8 \<Rightarrow> u8 \<Rightarrow> monitor" where
  "monitor_boot st es = \<lparr>mo_last = Some (plain_state st), mo_overdue = False, mo_boot = Some (plain_state st, es)\<rparr>"

fun monitor_op :: "indication \<Rightarrow> monitor \<Rightarrow> monitor" where
  "monitor_op (Ind_boot st es) v = monitor_boot st es"
| "monitor_op (Ind_hb ev timeout) v =
     (if \<not> timeout then v else v\<lparr>mo_overdue := (ev = EC_OCCURRED)\<rparr>)"
| "monitor_op (Ind_state st nested) v =
     (let v1 = (case nested of
            Some (st', es) \<Rightarrow> monitor_boot st' es
          | None \<Rightarrow> if plain_state st = CO_NMT_ST_BOOTUP then v\<lparr>mo_boot := None\<rparr> else v)
      in if plain_state st = CO_NMT_ST_BOOTUP \<and> nested \<noteq> None then v1
         else v1\<lparr>mo_last := Some (plain_state st), mo_overdue := False\<rparr>)"

fun remote_op :: "sdo_env \<Rightarrow> sdo_env \<Rightarrow> indication \<Rightarrow> remote \<Rightarrow> remote" where
  "remote_op E E' (Ind_state st nested) m = state_ind E E' nested st m"
| "remote_op E E' (Ind_hb ev timeout) m = hb_ind ev timeout m"
| "remote_op E E' (Ind_boot st es) m = boot_ind st es m"

subsection \<open>Fields of the words\<close>

lemma byte_mask: "bit (0xff :: u32) n \<longleftrightarrow> n < 8"
proof -
  have "(0xff :: u32) = mask 8" unfolding mask_eq_exp_minus_1 by simp
  moreover have "bit (mask 8 :: u32) n \<longleftrightarrow> n < 8" by (simp only: bit_mask_iff possible_bit_word) auto
  ultimately show ?thesis by metis
qed

lemma flag_bit: "bit STATE_TIMEOUT n \<longleftrightarrow> n = 16" "bit BOOT_VALID n \<longleftrightarrow> n = 16"
proof -
  have "(0x00010000 :: u32) = 2 ^ 16" by simp
  moreover have "bit (2 ^ 16 :: u32) n \<longleftrightarrow> n = 16" by (simp only: bit_exp_iff possible_bit_word) auto
  ultimately show "bit STATE_TIMEOUT n \<longleftrightarrow> n = 16" "bit BOOT_VALID n \<longleftrightarrow> n = 16"
    unfolding STATE_TIMEOUT_def BOOT_VALID_def by metis+
qed

lemma flag_test: "w AND STATE_TIMEOUT \<noteq> 0 \<longleftrightarrow> bit w 16" "w AND BOOT_VALID \<noteq> 0 \<longleftrightarrow> bit w 16"
proof -
  have "STATE_TIMEOUT = 2 ^ 16" "BOOT_VALID = 2 ^ 16" by (simp_all add: STATE_TIMEOUT_def BOOT_VALID_def)
  then show "w AND STATE_TIMEOUT \<noteq> 0 \<longleftrightarrow> bit w 16" "w AND BOOT_VALID \<noteq> 0 \<longleftrightarrow> bit w 16"
    using and_exp_neq_0_iff [of w 16] by metis+
qed

lemma bit_u8: "n \<ge> 8 \<Longrightarrow> \<not> bit (x :: u8) n"
  using bit_imp_le_length by force

lemma word_fields:
  fixes lo hi :: u8 and t :: u32
  assumes "\<And>n. n < 16 \<Longrightarrow> \<not> bit t n"
  shows "ucast ((ucast lo OR push_bit 8 (ucast hi) OR t) AND 0xff) = lo"
    "ucast (drop_bit 8 (ucast lo OR push_bit 8 (ucast hi) OR t)) = hi"
    "bit (ucast lo OR push_bit 8 (ucast hi) OR t) 16 = bit t 16"
proof -
  show "ucast ((ucast lo OR push_bit 8 (ucast hi) OR t) AND 0xff) = lo"
  proof (rule bit_word_eqI)
    fix n assume n: "n < LENGTH(8)"
    show "bit (ucast ((ucast lo OR push_bit 8 (ucast hi) OR t) AND 0xff) :: u8) n = bit lo n"
      unfolding bit_ucast_iff bit_and_iff bit_or_iff bit_push_bit_iff byte_mask using n assms by auto
  qed
  show "ucast (drop_bit 8 (ucast lo OR push_bit 8 (ucast hi) OR t)) = hi"
    by (rule bit_word_eqI) (use assms in \<open>simp add: bit_ucast_iff bit_drop_bit_eq bit_or_iff bit_push_bit_iff bit_u8\<close>)
  show "bit (ucast lo OR push_bit 8 (ucast hi) OR t) 16 = bit t 16"
    by (simp add: bit_ucast_iff bit_or_iff bit_push_bit_iff bit_u8)
qed

lemma snapshot_fields:
  "ucast (remote_state_pack c l t AND 0xff) = c" "ucast (drop_bit 8 (remote_state_pack c l t)) = l"
  "remote_state_pack c l t AND STATE_TIMEOUT \<noteq> 0 \<longleftrightarrow> t"
proof -
  have p: "remote_state_pack c l t = ucast c OR push_bit 8 (ucast l) OR (if t then STATE_TIMEOUT else 0)"
    by (simp add: remote_state_pack_def Let_def or.assoc)
  have t: "\<not> bit (if t then STATE_TIMEOUT else 0) n" if "n < 16" for n using that by (simp add: flag_bit)
  show "ucast (remote_state_pack c l t AND 0xff) = c" "ucast (drop_bit 8 (remote_state_pack c l t)) = l"
    "remote_state_pack c l t AND STATE_TIMEOUT \<noteq> 0 \<longleftrightarrow> t"
    unfolding p flag_test using word_fields [OF t] by (simp_all add: flag_bit)
qed

lemma boot_fields:
  "ucast (boot_word st es AND 0xff) = st" "ucast (drop_bit 8 (boot_word st es)) = es" "boot_word st es AND BOOT_VALID \<noteq> 0"
proof -
  have p: "boot_word st es = ucast st OR push_bit 8 (ucast es) OR BOOT_VALID"
    unfolding boot_word_def by (simp only: ac_simps)
  have t: "\<not> bit BOOT_VALID n" if "n < 16" for n using that by (simp add: flag_bit)
  show "ucast (boot_word st es AND 0xff) = st" "ucast (drop_bit 8 (boot_word st es)) = es" "boot_word st es AND BOOT_VALID \<noteq> 0"
    unfolding p flag_test using word_fields [OF t] by (simp_all add: flag_bit)
qed

lemma plain_state_available: "plain_state st \<noteq> STATE_UNAVAILABLE"
proof -
  have "\<not> bit (plain_state st) 7" by (simp add: plain_state_def CO_NMT_ST_TOGGLE_def bit_simps flip: bit_numeral_rec)
  moreover have "bit STATE_UNAVAILABLE 7" by (simp add: STATE_UNAVAILABLE_def)
  ultimately show ?thesis by metis
qed

section \<open>Refinement\<close>

lemma boot_represents: "represents m v \<Longrightarrow> represents (boot_ind st es m) (monitor_boot st es)"
  using plain_state_available [of st] by (simp add: represents_def boot_ind_def state_byte_def monitor_boot_def Let_def)

lemma hb_represents:
  assumes "represents m v"
  shows "represents (hb_ind ev timeout m) (monitor_op (Ind_hb ev timeout) v)"
  using assms by (cases ev) (auto simp: represents_def hb_ind_def snapshot_fields Let_def)

lemma state_represents:
  assumes r: "represents m v"
  shows "represents (state_ind E E' nested st m) (monitor_op (Ind_state st nested) v)"
proof -
  have r1: "represents (m\<lparr>rm_boot := 0, rm_sdo := x\<rparr>) (v\<lparr>mo_boot := None\<rparr>)" for x using r by (simp add: represents_def)
  have upd: "represents (m'\<lparr>rm_sdo := x, rm_state := remote_state_pack (plain_state st) (plain_state st) False\<rparr>)
      (v'\<lparr>mo_last := Some (plain_state st), mo_overdue := False\<rparr>)" if "represents m' v'" for m' v' x
    using that plain_state_available [of st] by (simp add: represents_def state_byte_def)
  show ?thesis
  proof (cases nested)
    case None
    have unset: "(0 :: u32) AND BOOT_VALID = 0" by simp
    then show ?thesis
      using None upd [OF r] upd [OF r1] by (cases "plain_state st = CO_NMT_ST_BOOTUP") (simp_all add: state_ind_def Let_def)
  next
    case (Some p)
    obtain st' es where p: "nested = Some (st', es)" using Some by (cases p) auto
    have valid: "rm_boot (boot_ind st' es m') AND BOOT_VALID \<noteq> 0" for m'
      using boot_fields(3) by (simp add: boot_ind_def Let_def)
    show ?thesis
      using p upd [OF boot_represents [OF r]] boot_represents [OF r1] valid
      by (simp add: state_ind_def Let_def)
  qed
qed

lemma remote_op_represents: "represents m v \<Longrightarrow> represents (remote_op E E' i m) (monitor_op i v)"
  using boot_represents hb_represents state_represents by (cases i) (simp_all only: remote_op.simps monitor_op.simps(1))

definition monitor_zero :: monitor where
  "monitor_zero = \<lparr>mo_last = None, mo_overdue = False, mo_boot = None\<rparr>"

definition remote_run :: "(sdo_env \<times> sdo_env \<times> indication) list \<Rightarrow> remote \<Rightarrow> remote" where
  "remote_run is m = fold (\<lambda>(E, E', i). remote_op E E' i) is (snapshots_reset m)"

definition monitor_run :: "indication list \<Rightarrow> monitor" where
  "monitor_run is = fold monitor_op is monitor_zero"

lemma reset_represents: "represents (snapshots_reset m) monitor_zero"
  by (simp add: represents_def snapshots_reset_def monitor_zero_def state_byte_def)

lemma run_represents: "represents (remote_run is m) (monitor_run (map (\<lambda>(E, E', i). i) is))"
proof -
  have "represents m v \<Longrightarrow> represents (fold (\<lambda>(E, E', i). remote_op E E' i) is m) (fold monitor_op (map (\<lambda>(E, E', i). i) is) v)" for m v
    by (induction "is" arbitrary: m v) (auto simp: remote_op_represents simp del: monitor_op.simps)
  then show ?thesis unfolding remote_run_def monitor_run_def using reset_represents by blast
qed

lemma get_state: "represents m v \<Longrightarrow>
    get_remote_nmt_state m = (case mo_last v of Some st \<Rightarrow> if mo_overdue v then Inl RT_EBUSY else Inr st | None \<Rightarrow> Inl RT_EBUSY)"
  by (simp add: represents_def get_remote_nmt_state_def snapshot_fields(1) state_byte_def Let_def split: option.split)

lemma get_boot: "represents m v \<Longrightarrow>
    get_remote_boot_status m = (case mo_boot v of Some b \<Rightarrow> Inr b | None \<Rightarrow> Inl RT_EBUSY)"
  using boot_fields by (auto simp: represents_def get_remote_boot_status_def split: option.split)

section \<open>Properties\<close>

text \<open>C27. The snapshots tell the application what a monitor of the node would: after any sequence of state,
  heartbeat and boot indications, the getters return the state the node reported last, or \<open>-RT_EBUSY\<close>
  while it has reported none or its heartbeat is overdue (the state comes back when the heartbeat
  does), and the result of the boot procedure since it last announced itself, or \<open>-RT_EBUSY\<close>.\<close>

theorem remote_snapshots_refine_monitor:
  "let m = remote_run is m0; v = monitor_run (map (\<lambda>(E, E', i). i) is)
   in get_remote_nmt_state m = (case mo_last v of Some st \<Rightarrow> if mo_overdue v then Inl RT_EBUSY else Inr st | None \<Rightarrow> Inl RT_EBUSY)
    \<and> get_remote_boot_status m = (case mo_boot v of Some b \<Rightarrow> Inr b | None \<Rightarrow> Inl RT_EBUSY)"
  using get_state [OF run_represents] get_boot [OF run_represents] by (simp add: Let_def)

text \<open>A boot that fails leaves the node closed. When the boot procedure ends inside the handling of the
  boot-up message, the gate of application SDO requests and the published state are those of the boot
  result, open exactly for the states PRE-OPERATIONAL and OPERATIONAL; the outer boot-up indication does
  not reopen the node.\<close>

theorem boot_result_final:
  assumes "plain_state st = CO_NMT_ST_BOOTUP"
  shows "let m' = state_ind E E' (Some (st', es)) st m; s = plain_state st'
    in (suspended (rm_sdo m') \<longleftrightarrow> s \<noteq> CO_NMT_ST_PREOP \<and> s \<noteq> CO_NMT_ST_START) \<and> \<not> reset_pending (rm_sdo m')
     \<and> get_remote_nmt_state m' = Inr s \<and> get_remote_boot_status m' = Inr (s, es)"
proof -
  let ?m = "m\<lparr>rm_boot := 0, rm_sdo := before_boot E (rm_sdo m)\<rparr>"
  have "state_ind E E' (Some (st', es)) st m = boot_ind st' es ?m"
    using assms boot_fields(3) by (simp add: state_ind_def boot_ind_def Let_def)
  then show ?thesis
    using plain_state_available [of st'] boot_fields
    by (simp add: boot_ind_def on_boot_complete_def set_suspended_def get_remote_nmt_state_def get_remote_boot_status_def
        snapshot_fields(1) Let_def)
qed

theorem boot_result_final_witness:
  "let m = \<lparr>rm_state = 0xffff, rm_boot = 0, rm_sdo = node_zero 5 0\<rparr>;
       m' = state_ind demo_sdo_env demo_sdo_env (Some (0x84, 0x42)) 0x80 m
   in suspended (rm_sdo m') \<and> get_remote_boot_status m' = Inr (4, 0x42)"
proof -
  have b: "plain_state 0x80 = CO_NMT_ST_BOOTUP" "plain_state 0x84 = 4"
    by (simp_all add: plain_state_def CO_NMT_ST_TOGGLE_def CO_NMT_ST_BOOTUP_def)
  show ?thesis
    using boot_result_final [OF b(1), of demo_sdo_env demo_sdo_env "0x84" "0x42" "\<lparr>rm_state = 0xffff, rm_boot = 0, rm_sdo = node_zero 5 0\<rparr>"]
    by (simp add: Let_def b CO_NMT_ST_PREOP_def CO_NMT_ST_START_def)
qed

end
