(* ===== verification/Rtt_Lifecycle.thy ===== *)
theory Rtt_Lifecycle
  imports Rtt_Types
begin

text \<open>
  Start, stop and destruction of a runtime (\<open>port/rtthread/src/runtime.c\<close>). The application and the owner
  thread meet only through the event bits STOP, READY and EXIT and the pointer \<open>owner_thread\<close>, which the
  application alone writes. Every wait of the application is bounded, so it may give up while the owner
  is still initialising or cleaning up.

  The step relation interleaves the two threads; each step is one access to the shared runtime. What the
  initialisation, the kernel calls and one pass of the owner's loop return is chosen by the environment.
  The application is one thread: the interface asks for serialised lifecycle calls.
\<close>

section \<open>Model\<close>

text \<open>The next access of the application; \<open>A_idle\<close> is between two calls, with what the last one returned.\<close>

datatype app_pc = A_idle | A_start_clear | A_start_reset | A_start_create | A_start_startup | A_start_wait
  | A_start_giveup rt_err | A_start_check | A_start_wait_exit | A_start_forget
  | A_stop_send | A_stop_wait | A_stop_forget | A_destroy_free | A_gone

datatype own_pc = W_none | W_init | W_fail_cleanup | W_fail_send | W_admit | W_ready | W_loop | W_stopping | W_cleanup
  | W_exit | W_gone

record lifecycle =
  lc_stop :: bool
  lc_ready :: bool
  lc_exit :: bool
  lc_owner_thread :: bool
  lc_init_result :: rt_err
  lc_runtime_error :: rt_err
  lc_running :: bool
  lc_event_initialized :: bool
  lc_allocated :: bool
  lc_app :: app_pc
  lc_own :: own_pc
  lc_returned :: "rt_err option" \<comment> \<open>of the last call\<close>
  lc_started :: bool \<comment> \<open>the last call was a successful start\<close>
  lc_stray :: bool \<comment> \<open>the owner has used a freed runtime, or a second owner was started\<close>

definition own_live :: "own_pc \<Rightarrow> bool" where
  "own_live p \<longleftrightarrow> p \<noteq> W_none \<and> p \<noteq> W_gone"

definition ret :: "rt_err \<Rightarrow> lifecycle \<Rightarrow> lifecycle" where
  "ret e s = s\<lparr>lc_app := A_idle, lc_returned := Some e\<rparr>"

text \<open>\<open>lely_rtt_runtime_create\<close>: the event exists and no owner does.\<close>

definition created :: lifecycle where
  "created = \<lparr>lc_stop = False, lc_ready = False, lc_exit = False, lc_owner_thread = False, lc_init_result = RT_EOK,
     lc_runtime_error = RT_EOK, lc_running = False, lc_event_initialized = True, lc_allocated = True, lc_app = A_idle,
     lc_own = W_none, lc_returned = None, lc_started = False, lc_stray = False\<rparr>"

text \<open>\<open>lely_rtt_validate_config\<close>, with the priorities the kernel has and the CAN FD option.\<close>

definition lely_rtt_validate_config :: "nat \<Rightarrow> bool \<Rightarrow> runtime_config \<Rightarrow> rt_err" where
  "lely_rtt_validate_config prio_max using_canfd c =
     (if can_name c = None \<or> can_name c = Some '''' then RT_EINVAL
      else if can_bitrate c = 0 \<or> rx_batch c = 0 \<or> thread_stack_size c = 0 \<or> thread_timeslice c = 0
        \<or> start_timeout_ms c = 0 \<or> stop_timeout_ms c = 0 then RT_EINVAL
      else if can_brs c \<and> \<not> can_fd c then RT_EINVAL
      else if unat (thread_priority c) \<ge> prio_max then RT_EINVAL
      else if can_fd_len_mode c \<noteq> LELY_RTT_CANFD_LEN_BYTES \<and> can_fd_len_mode c \<noteq> LELY_RTT_CANFD_LEN_DLC then RT_EINVAL
      else if \<not> using_canfd \<and> (can_fd c \<or> can_brs c) then RT_EINVAL
      else RT_EOK)"

section \<open>The application\<close>

datatype app_call = Start | Stop | Destroy

definition life_call :: "app_call \<Rightarrow> lifecycle \<Rightarrow> lifecycle" where
  "life_call c s =
     (let s = s\<lparr>lc_started := False\<rparr>
      in case c of
           Start \<Rightarrow> if \<not> lc_event_initialized s \<or> lc_owner_thread s then ret RT_EINVAL s else s\<lparr>lc_app := A_start_clear\<rparr>
         | Stop \<Rightarrow> if \<not> lc_event_initialized s then ret RT_EINVAL s
                   else if \<not> lc_owner_thread s then ret RT_EOK s
                   else s\<lparr>lc_app := A_stop_send\<rparr>
         | Destroy \<Rightarrow> if lc_owner_thread s then s\<lparr>lc_app := A_idle\<rparr> else s\<lparr>lc_app := A_destroy_free\<rparr>)"

text \<open>
  One access of \<open>lely_rtt_runtime_start\<close>, \<open>_stop\<close> or \<open>_destroy\<close>; \<open>e\<close> is the status of the kernel call made in
  it. A receive succeeds only if its bit is set, and clears it.
\<close>

definition app_step :: "rt_err \<Rightarrow> lifecycle \<Rightarrow> lifecycle" where
  "app_step e s = (case lc_app s of
       A_start_clear \<Rightarrow> s\<lparr>lc_stop := False, lc_ready := False, lc_exit := False, lc_app := A_start_reset\<rparr>
     | A_start_reset \<Rightarrow> s\<lparr>lc_init_result := RT_ERROR, lc_runtime_error := RT_EOK, lc_running := False, lc_app := A_start_create\<rparr>
     | A_start_create \<Rightarrow> if e \<noteq> RT_EOK then ret RT_ENOMEM s else s\<lparr>lc_owner_thread := True, lc_app := A_start_startup\<rparr>
     | A_start_startup \<Rightarrow>
         if e \<noteq> RT_EOK then ret e (s\<lparr>lc_owner_thread := False\<rparr>)
         else s\<lparr>lc_own := W_init, lc_stray := lc_stray s \<or> own_live (lc_own s), lc_app := A_start_wait\<rparr>
     | A_start_wait \<Rightarrow>
         if e = RT_EOK then s\<lparr>lc_ready := False, lc_app := A_start_check\<rparr> else s\<lparr>lc_app := A_start_giveup e\<rparr>
     | A_start_giveup e' \<Rightarrow> ret e' (s\<lparr>lc_stop := True\<rparr>)
     | A_start_check \<Rightarrow>
         if lc_init_result s = RT_EOK then ret RT_EOK (s\<lparr>lc_started := True\<rparr>) else s\<lparr>lc_app := A_start_wait_exit\<rparr>
     | A_start_wait_exit \<Rightarrow> if e = RT_EOK then s\<lparr>lc_exit := False, lc_app := A_start_forget\<rparr> else ret e s
     | A_start_forget \<Rightarrow> ret (lc_init_result s) (s\<lparr>lc_owner_thread := False\<rparr>)
     | A_stop_send \<Rightarrow> if e \<noteq> RT_EOK then ret e s else s\<lparr>lc_stop := True, lc_app := A_stop_wait\<rparr>
     | A_stop_wait \<Rightarrow> if e = RT_EOK then s\<lparr>lc_exit := False, lc_app := A_stop_forget\<rparr> else ret e s
     | A_stop_forget \<Rightarrow> ret (lc_runtime_error s) (s\<lparr>lc_owner_thread := False\<rparr>)
     | A_destroy_free \<Rightarrow> s\<lparr>lc_event_initialized := False, lc_allocated := False, lc_app := A_gone\<rparr>
     | _ \<Rightarrow> s)"

definition receives :: "lifecycle \<Rightarrow> bool" where
  "receives s = (case lc_app s of A_start_wait \<Rightarrow> lc_ready s | A_start_wait_exit \<Rightarrow> lc_exit s | A_stop_wait \<Rightarrow> lc_exit s
     | _ \<Rightarrow> True)"

section \<open>The owner\<close>

text \<open>How one pass of the loop ends: the receive fails, an error stops the loop, or it goes on.\<close>

datatype pass = Pass_recv_error rt_err | Pass_error rt_err | Pass_on

definition latch :: "rt_err \<Rightarrow> lifecycle \<Rightarrow> lifecycle" where
  "latch e s = (if e \<noteq> RT_EOK \<and> lc_runtime_error s = RT_EOK then s\<lparr>lc_runtime_error := e\<rparr> else s)"

text \<open>\<open>lely_rtt_owner_entry\<close>, with the result \<open>e\<close> of the initialisation.\<close>

definition own_step :: "rt_err \<Rightarrow> pass \<Rightarrow> lifecycle \<Rightarrow> lifecycle" where
  "own_step e p s =
     (let s = s\<lparr>lc_stray := lc_stray s \<or> \<not> lc_allocated s\<rparr>
      in case lc_own s of
           W_init \<Rightarrow> s\<lparr>lc_init_result := e, lc_own := if e \<noteq> RT_EOK then W_fail_cleanup else W_admit\<rparr>
         | W_fail_cleanup \<Rightarrow> s\<lparr>lc_own := W_fail_send\<rparr>
         | W_fail_send \<Rightarrow> s\<lparr>lc_ready := True, lc_exit := True, lc_own := W_gone\<rparr>
         | W_admit \<Rightarrow> s\<lparr>lc_running := True, lc_own := W_ready\<rparr>
         | W_ready \<Rightarrow> s\<lparr>lc_ready := True, lc_own := W_loop\<rparr>
         | W_loop \<Rightarrow>
             (case p of
                Pass_recv_error err \<Rightarrow> (latch err s)\<lparr>lc_own := W_stopping\<rparr>
              | _ \<Rightarrow> if lc_stop s then s\<lparr>lc_stop := False, lc_own := W_stopping\<rparr>
                     else case p of Pass_error err \<Rightarrow> (latch err s)\<lparr>lc_own := W_stopping\<rparr> | _ \<Rightarrow> s)
         | W_stopping \<Rightarrow> s\<lparr>lc_running := False, lc_own := W_cleanup\<rparr>
         | W_cleanup \<Rightarrow> s\<lparr>lc_own := W_exit\<rparr>
         | W_exit \<Rightarrow> s\<lparr>lc_exit := True, lc_own := W_gone\<rparr>
         | _ \<Rightarrow> s)"

inductive life_step :: "lifecycle \<Rightarrow> lifecycle \<Rightarrow> bool" where
  calls: "lc_app s = A_idle \<Longrightarrow> life_step s (life_call c s)"
| app: "lc_app s \<noteq> A_idle \<Longrightarrow> lc_app s \<noteq> A_gone \<Longrightarrow> (e = RT_EOK \<longrightarrow> receives s) \<Longrightarrow> life_step s (app_step e s)"
| own: "own_live (lc_own s) \<Longrightarrow> life_step s (own_step e p s)"

section \<open>Invariant\<close>

text \<open>What the state of the owner says about the bits and about the result of its initialisation.\<close>

definition own_view :: "lifecycle \<Rightarrow> bool" where
  "own_view s = (case lc_own s of
       W_none \<Rightarrow> \<not> lc_exit s
     | W_init \<Rightarrow> \<not> lc_ready s \<and> \<not> lc_exit s
     | W_fail_cleanup \<Rightarrow> \<not> lc_ready s \<and> \<not> lc_exit s \<and> lc_init_result s \<noteq> RT_EOK
     | W_fail_send \<Rightarrow> \<not> lc_ready s \<and> \<not> lc_exit s \<and> lc_init_result s \<noteq> RT_EOK
     | W_admit \<Rightarrow> \<not> lc_ready s \<and> \<not> lc_exit s \<and> lc_init_result s = RT_EOK
     | W_ready \<Rightarrow> \<not> lc_ready s \<and> \<not> lc_exit s \<and> lc_init_result s = RT_EOK
     | W_gone \<Rightarrow> True
     | _ \<Rightarrow> \<not> lc_exit s \<and> lc_init_result s = RT_EOK)"

text \<open>What the next access of the application says about the owner.\<close>

definition app_view :: "lifecycle \<Rightarrow> bool" where
  "app_view s = (case lc_app s of
       A_start_clear \<Rightarrow> \<not> own_live (lc_own s) \<and> \<not> lc_owner_thread s
     | A_start_reset \<Rightarrow> \<not> own_live (lc_own s) \<and> \<not> lc_owner_thread s \<and> \<not> lc_ready s \<and> \<not> lc_exit s
     | A_start_create \<Rightarrow> \<not> own_live (lc_own s) \<and> \<not> lc_owner_thread s \<and> \<not> lc_ready s \<and> \<not> lc_exit s
     | A_start_startup \<Rightarrow> \<not> own_live (lc_own s) \<and> lc_owner_thread s \<and> \<not> lc_ready s \<and> \<not> lc_exit s
     | A_start_check \<Rightarrow> lc_owner_thread s \<and> lc_own s \<in> {W_loop, W_stopping, W_cleanup, W_exit, W_gone}
     | A_start_wait_exit \<Rightarrow> lc_owner_thread s \<and> lc_own s = W_gone \<and> lc_init_result s \<noteq> RT_EOK
     | A_start_forget \<Rightarrow> lc_owner_thread s \<and> lc_own s = W_gone \<and> lc_init_result s \<noteq> RT_EOK
     | A_stop_forget \<Rightarrow> lc_owner_thread s \<and> lc_own s = W_gone
     | A_stop_wait \<Rightarrow> lc_owner_thread s \<and> (lc_own s \<in> {W_init, W_admit, W_ready, W_loop} \<longrightarrow> lc_stop s)
     | A_destroy_free \<Rightarrow> \<not> lc_owner_thread s
     | A_gone \<Rightarrow> \<not> lc_owner_thread s
     | A_idle \<Rightarrow> True
     | _ \<Rightarrow> lc_owner_thread s)"

text \<open>The accesses at which EXIT has been received or cleared.\<close>

definition past_exit :: "app_pc \<Rightarrow> bool" where
  "past_exit p \<longleftrightarrow> p \<in> {A_start_startup, A_start_forget, A_stop_forget}"

definition life_inv :: "lifecycle \<Rightarrow> bool" where
  "life_inv s \<longleftrightarrow> own_view s \<and> app_view s \<and> \<not> lc_stray s
     \<and> (own_live (lc_own s) \<longrightarrow> lc_owner_thread s)
     \<and> (lc_owner_thread s \<and> \<not> past_exit (lc_app s) \<and> lc_own s \<in> {W_none, W_gone} \<longrightarrow> lc_exit s)
     \<and> (lc_allocated s \<longleftrightarrow> lc_app s \<noteq> A_gone)
     \<and> (lc_started s \<longrightarrow> lc_app s = A_idle \<and> lc_init_result s = RT_EOK \<and> lc_returned s = Some RT_EOK
          \<and> lc_own s \<in> {W_loop, W_stopping, W_cleanup, W_exit, W_gone})"

lemmas life_defs = life_inv_def own_view_def app_view_def past_exit_def own_live_def

lemma created_inv: "life_inv created"
  by (simp add: life_defs created_def)

lemma life_call_inv:
  assumes "life_inv s" "lc_app s = A_idle"
  shows "life_inv (life_call c s)"
proof (cases c)
  case Start
  then show ?thesis using assms by (cases "lc_own s") (auto simp: life_defs life_call_def ret_def Let_def)
next
  case Stop
  then show ?thesis using assms by (cases "lc_own s") (auto simp: life_defs life_call_def ret_def Let_def)
next
  case Destroy
  then show ?thesis using assms by (cases "lc_own s") (auto simp: life_defs life_call_def ret_def Let_def)
qed

lemma app_step_inv:
  assumes "life_inv s" "lc_app s \<noteq> A_idle" "lc_app s \<noteq> A_gone" "e = RT_EOK \<longrightarrow> receives s"
  shows "life_inv (app_step e s)"
  using assms
  by (cases "lc_app s"; cases "lc_own s") (simp_all add: life_defs app_step_def ret_def receives_def)

lemma own_step_inv:
  assumes "life_inv s" "own_live (lc_own s)"
  shows "life_inv (own_step e p s)"
proof -
  have "lc_app s \<noteq> A_gone" using assms by (auto simp: life_defs)
  then show ?thesis using assms
    by (cases "lc_app s"; cases "lc_own s"; cases p) (simp_all add: life_defs own_step_def Let_def latch_def)
qed

lemma life_step_inv: "life_step s s' \<Longrightarrow> life_inv s \<Longrightarrow> life_inv s'"
  by (induction rule: life_step.induct) (simp_all add: life_call_inv app_step_inv own_step_inv)

lemma life_reachable_inv: "life_step\<^sup>*\<^sup>* created s \<Longrightarrow> life_inv s"
  by (induction rule: rtranclp_induct) (auto intro: created_inv life_step_inv)

text \<open>C23. However the two threads interleave and whatever the kernel calls, the initialisation and the passes of the
  loop return, the owner never touches a runtime that has been freed and no second owner is started beside a live one;
  a live owner is always recorded in \<open>owner_thread\<close>, so that start and destroy are refused; and when the
  last call was a start that returned RT_EOK, the initialisation had succeeded and the owner had entered its loop.\<close>

theorem runtime_lifecycle_safe:
  assumes "life_step\<^sup>*\<^sup>* created s"
  shows "\<not> lc_stray s \<and> (own_live (lc_own s) \<longrightarrow> lc_allocated s \<and> lc_owner_thread s)
    \<and> (lc_started s \<longrightarrow> lc_returned s = Some RT_EOK \<and> lc_init_result s = RT_EOK
         \<and> lc_own s \<in> {W_loop, W_stopping, W_cleanup, W_exit, W_gone})"
  using life_reachable_inv [OF assms] by (auto simp: life_defs)

section \<open>Stopping\<close>

text \<open>How many accesses the owner has left once STOP is set.\<close>

definition own_left :: "own_pc \<Rightarrow> nat" where
  "own_left p = (case p of W_init \<Rightarrow> 7 | W_admit \<Rightarrow> 6 | W_ready \<Rightarrow> 5 | W_loop \<Rightarrow> 4 | W_stopping \<Rightarrow> 3 | W_cleanup \<Rightarrow> 2
     | W_exit \<Rightarrow> 1 | W_fail_cleanup \<Rightarrow> 2 | W_fail_send \<Rightarrow> 1 | _ \<Rightarrow> 0)"

definition own_run :: "(rt_err \<times> pass) list \<Rightarrow> lifecycle \<Rightarrow> lifecycle" where
  "own_run ps s = fold (\<lambda>(e, p). own_step e p) ps s"

lemma own_step_app: "lc_app (own_step e p s) = lc_app s"
  by (cases "lc_own s"; cases p) (simp_all add: own_step_def Let_def latch_def)

lemma own_step_gone:
  assumes "life_inv s" "lc_app s \<noteq> A_gone" "\<not> own_live (lc_own s)"
  shows "own_step e p s = s"
  using assms by (cases "lc_own s") (simp_all add: life_defs own_step_def Let_def)

lemma own_step_left:
  assumes "life_inv s" "lc_app s = A_stop_wait" "own_live (lc_own s)"
  shows "own_left (lc_own (own_step e p s)) < own_left (lc_own s)"
  using assms
  by (cases "lc_own s"; cases p) (simp_all add: life_defs own_step_def Let_def latch_def own_left_def)

lemma own_run_gone:
  assumes "life_inv s" "lc_app s = A_stop_wait" "own_left (lc_own s) \<le> length ps"
  shows "life_inv (own_run ps s) \<and> lc_app (own_run ps s) = A_stop_wait \<and> \<not> own_live (lc_own (own_run ps s))"
  using assms
proof (induction ps arbitrary: s)
  case Nil
  then show ?case by (cases "lc_own s") (simp_all add: own_run_def own_left_def own_live_def)
next
  case (Cons q ps)
  obtain e p where q: "q = (e, p)" by fastforce
  show ?case
  proof (cases "own_live (lc_own s)")
    case True
    then have "own_left (lc_own (own_step e p s)) \<le> length ps"
      using own_step_left [OF Cons.prems(1,2) True, of e p] Cons.prems(3) by simp
    then show ?thesis
      using Cons.IH [of "own_step e p s"] Cons.prems own_step_inv [OF Cons.prems(1) True]
      by (simp add: own_run_def q own_step_app)
  next
    case False
    then have "own_step e p s = s" "own_left (lc_own s) \<le> length ps"
      using own_step_gone [of s e p] Cons.prems by (auto simp: own_left_def own_live_def split: own_pc.splits)
    then show ?thesis using Cons.IH [of s] Cons.prems by (simp add: own_run_def q)
  qed
qed

text \<open>C24. A stop whose wait outlasts seven more accesses of the owner completes: whatever the owner was doing and however
  its initialisation and its passes turn out, EXIT has then been sent, so the wait succeeds, stop returns the
  error latched by the runtime, no owner is left and the runtime can be destroyed.\<close>

theorem runtime_stop_completes:
  assumes "life_step\<^sup>*\<^sup>* created s" "lc_app s = A_stop_wait" "7 \<le> length ps"
  shows "let s' = own_run ps s; s'' = app_step RT_EOK (app_step RT_EOK s')
    in receives s' \<and> lc_app s'' = A_idle \<and> lc_returned s'' = Some (lc_runtime_error s')
       \<and> \<not> lc_owner_thread s'' \<and> \<not> own_live (lc_own s'') \<and> \<not> lc_allocated (app_step RT_EOK (life_call Destroy s''))"
proof -
  have "own_left (lc_own s) \<le> 7" by (cases "lc_own s") (simp_all add: own_left_def)
  then have run: "life_inv (own_run ps s)" "lc_app (own_run ps s) = A_stop_wait" "\<not> own_live (lc_own (own_run ps s))"
    using own_run_gone [of s ps] life_reachable_inv [OF assms(1)] assms(2,3) by auto
  have "lc_exit (own_run ps s)" using run by (auto simp: life_defs)
  then show ?thesis using run by (simp add: receives_def app_step_def ret_def life_call_def Let_def)
qed

section \<open>Schedules\<close>

text \<open>A schedule that can be run: the moves it makes, each where the relation allows it.\<close>

datatype life_move = M_call app_call | M_app rt_err | M_own rt_err pass

definition move :: "life_move \<Rightarrow> lifecycle \<Rightarrow> lifecycle" where
  "move m s = (case m of M_call c \<Rightarrow> life_call c s | M_app e \<Rightarrow> app_step e s | M_own e p \<Rightarrow> own_step e p s)"

definition legal :: "life_move \<Rightarrow> lifecycle \<Rightarrow> bool" where
  "legal m s = (case m of M_call c \<Rightarrow> lc_app s = A_idle
     | M_app e \<Rightarrow> lc_app s \<noteq> A_idle \<and> lc_app s \<noteq> A_gone \<and> (e = RT_EOK \<longrightarrow> receives s)
     | M_own e p \<Rightarrow> own_live (lc_own s))"

fun schedule :: "life_move list \<Rightarrow> lifecycle \<Rightarrow> lifecycle option" where
  "schedule [] s = Some s"
| "schedule (m # ms) s = (if legal m s then schedule ms (move m s) else None)"

lemma schedule_reachable: "schedule ms s = Some s' \<Longrightarrow> life_step\<^sup>*\<^sup>* s s'"
proof (induction ms arbitrary: s)
  case (Cons m ms)
  then have "legal m s" "schedule ms (move m s) = Some s'" by (auto split: if_splits)
  moreover from \<open>legal m s\<close> have "life_step s (move m s)"
    by (cases m) (auto simp: legal_def move_def intro: life_step.intros)
  ultimately show ?case using Cons.IH by (meson converse_rtranclp_into_rtranclp)
qed simp

definition start_ok :: "life_move list" where
  "start_ok = [M_call Start, M_app RT_EOK, M_app RT_EOK, M_app RT_EOK, M_app RT_EOK, M_own RT_EOK Pass_on, M_own RT_EOK Pass_on,
     M_own RT_EOK Pass_on, M_app RT_EOK, M_app RT_EOK]"

lemmas schedule_simps = start_ok_def created_def legal_def move_def life_call_def app_step_def own_step_def receives_def own_live_def
  ret_def Let_def

definition started :: lifecycle where
  "started = created\<lparr>lc_owner_thread := True, lc_running := True, lc_own := W_loop, lc_returned := Some RT_EOK, lc_started := True\<rparr>"

definition stop_waiting :: lifecycle where
  "stop_waiting = started\<lparr>lc_stop := True, lc_app := A_stop_wait, lc_started := False\<rparr>"

lemma schedule_start_ok: "schedule start_ok created = Some started"
  by (simp add: schedule_simps started_def)

lemma schedule_stop_waiting: "schedule (start_ok @ [M_call Stop, M_app RT_EOK]) created = Some stop_waiting"
  by (simp add: schedule_simps started_def stop_waiting_def)

theorem runtime_lifecycle_safe_witness:
  "\<not> lc_stray started \<and> lc_started started \<and> lc_own started = W_loop \<and> lc_allocated started"
  using runtime_lifecycle_safe [OF schedule_reachable [OF schedule_start_ok]]
  by (simp add: started_def created_def own_live_def)

theorem runtime_stop_completes_witness:
  "lc_returned (app_step RT_EOK (app_step RT_EOK (own_run (replicate 7 (RT_EOK, Pass_error RT_ERROR)) stop_waiting))) = Some RT_EOK"
  using runtime_stop_completes [OF schedule_reachable [OF schedule_stop_waiting], of "replicate 7 (RT_EOK, Pass_error RT_ERROR)"]
  by (simp add: Let_def own_run_def own_step_def stop_waiting_def started_def created_def numeral_eq_Suc latch_def app_step_def ret_def)

end
