(* ===== verification/Membuf.thy ===== *)
theory Membuf
  imports Prelude
begin

text \<open>
  The memory buffer of \<open>upstream/include/lely/util/membuf.h\<close> and \<open>upstream/src/util/membuf.c\<close>, with dynamic
  allocation, as the port configures it. The region from \<open>begin\<close> to \<open>end\<close> is a list of bytes and the
  position indicator \<open>cur\<close> an offset into it. Sizes are natural numbers; \<open>szt\<close> is the wrap-around of
  \<open>size_t\<close> on the 32-bit targets, written wherever a sum may reach it.
\<close>

section \<open>Model\<close>

definition szt :: "nat \<Rightarrow> nat" where
  "szt n = n mod 2 ^ 32"

definition szt_diff :: "nat \<Rightarrow> nat \<Rightarrow> nat" where
  "szt_diff a b = szt (a + 2 ^ 32 - b)"

record membuf =
  mb_mem :: bytes
  mb_cur :: nat

text \<open>The allocator decides whether a \<open>realloc\<close> succeeds and what the bytes it adds happen to hold.\<close>

record heap =
  hp_ok :: "nat \<Rightarrow> bool"
  hp_fresh :: "nat \<Rightarrow> u8"

definition membuf_init :: "bytes \<Rightarrow> membuf" where
  "membuf_init mem = \<lparr>mb_mem = mem, mb_cur = 0\<rparr>"

definition membuf_clear :: "membuf \<Rightarrow> membuf" where
  "membuf_clear b = b\<lparr>mb_cur := 0\<rparr>"

definition membuf_size :: "membuf \<Rightarrow> nat" where
  "membuf_size b = mb_cur b"

definition membuf_capacity :: "membuf \<Rightarrow> nat" where
  "membuf_capacity b = length (mb_mem b) - mb_cur b"

text \<open>\<open>while (buf_size < membuf_size(buf) + size) buf_size *= 2\<close>, with fuel: \<open>None\<close> when it has not ended yet.\<close>

fun membuf_grow :: "nat \<Rightarrow> nat \<Rightarrow> nat \<Rightarrow> nat option" where
  "membuf_grow 0 need n = None"
| "membuf_grow (Suc fuel) need n = (if n < need then membuf_grow fuel need (szt (n * 2)) else Some n)"

definition LELY_MEMBUF_SIZE :: nat where "LELY_MEMBUF_SIZE = 16"

definition GROW_FUEL :: nat where "GROW_FUEL = 29"

datatype reserve = Reserve_hangs | Reserve_fails | Reserved membuf

definition membuf_reserve :: "heap \<Rightarrow> membuf \<Rightarrow> nat \<Rightarrow> reserve" where
  "membuf_reserve H b n =
     (if n \<le> membuf_capacity b then (if membuf_capacity b = 0 then Reserve_fails else Reserved b)
      else case membuf_grow GROW_FUEL (szt (membuf_size b + n)) LELY_MEMBUF_SIZE of
        None \<Rightarrow> Reserve_hangs
      | Some sz \<Rightarrow>
          if \<not> hp_ok H sz then Reserve_fails
          else
            let b' = b\<lparr>mb_mem := take sz (mb_mem b) @ map (hp_fresh H) [length (mb_mem b)..<sz]\<rparr>
            in if membuf_capacity b' = 0 then Reserve_fails else Reserved b')"

definition membuf_seek :: "int \<Rightarrow> membuf \<Rightarrow> int \<times> membuf" where
  "membuf_seek off b =
     (let cur = int (mb_cur b) + off;
          cur' = (if cur < 0 then 0 else if int (length (mb_mem b)) < cur then int (length (mb_mem b)) else cur)
      in (cur' - int (mb_cur b), b\<lparr>mb_cur := nat cur'\<rparr>))"

text \<open>\<open>membuf_write\<close>, with the region \<open>src\<close> it copies from: as much as there is room for.\<close>

definition membuf_write :: "bytes \<Rightarrow> membuf \<Rightarrow> membuf" where
  "membuf_write src b =
     (let n = min (length src) (membuf_capacity b)
      in b\<lparr>mb_mem := take (mb_cur b) (mb_mem b) @ take n src @ drop (mb_cur b + n) (mb_mem b), mb_cur := mb_cur b + n\<rparr>)"

definition membuf_flush :: "nat \<Rightarrow> membuf \<Rightarrow> membuf" where
  "membuf_flush n b =
     (let m = min n (membuf_size b); rest = drop m (take (mb_cur b) (mb_mem b))
      in b\<lparr>mb_mem := rest @ drop (length rest) (mb_mem b), mb_cur := mb_cur b - m\<rparr>)"

section \<open>What the buffer holds\<close>

text \<open>The bytes written so far.\<close>

definition mb_held :: "membuf \<Rightarrow> bytes" where
  "mb_held b = take (mb_cur b) (mb_mem b)"

definition membuf_wf :: "membuf \<Rightarrow> bool" where
  "membuf_wf b \<longleftrightarrow> mb_cur b \<le> length (mb_mem b)"

lemma szt_small [simp]: "n < 4294967296 \<Longrightarrow> szt n = n"
  by (simp add: szt_def)

lemma szt_diff_small [simp]: "b \<le> a \<Longrightarrow> a < 4294967296 \<Longrightarrow> szt_diff a b = a - b"
proof -
  assume "b \<le> a" "a < 4294967296"
  then have "szt_diff a b = (4294967296 + (a - b)) mod 4294967296" by (simp add: szt_diff_def szt_def add.commute)
  then show ?thesis using \<open>a < 4294967296\<close> by simp
qed

lemma membuf_init_props [simp]:
  "mb_held (membuf_init mem) = []" "membuf_wf (membuf_init mem)" "membuf_size (membuf_init mem) = 0"
  "mb_mem (membuf_init mem) = mem" "mb_cur (membuf_init mem) = 0"
  by (simp_all add: membuf_init_def mb_held_def membuf_wf_def membuf_size_def)

lemma membuf_clear_props [simp]:
  "mb_held (membuf_clear b) = []" "membuf_wf (membuf_clear b)" "membuf_size (membuf_clear b) = 0"
  "mb_mem (membuf_clear b) = mb_mem b" "mb_cur (membuf_clear b) = 0"
  by (simp_all add: membuf_clear_def mb_held_def membuf_wf_def membuf_size_def)

lemma length_held: "membuf_wf b \<Longrightarrow> length (mb_held b) = membuf_size b"
  by (simp add: mb_held_def membuf_wf_def membuf_size_def)

lemma membuf_write_held:
  assumes "membuf_wf b" "length src \<le> membuf_capacity b"
  shows "mb_held (membuf_write src b) = mb_held b @ src" "membuf_wf (membuf_write src b)"
    "membuf_size (membuf_write src b) = membuf_size b + length src"
    "length (mb_mem (membuf_write src b)) = length (mb_mem b)"
    "membuf_capacity (membuf_write src b) = membuf_capacity b - length src"
  using assms by (auto simp: membuf_write_def mb_held_def membuf_wf_def membuf_capacity_def membuf_size_def Let_def)

lemma membuf_flush_held:
  assumes "membuf_wf b"
  shows "mb_held (membuf_flush n b) = drop n (mb_held b)" "membuf_wf (membuf_flush n b)"
    "membuf_size (membuf_flush n b) = membuf_size b - n" "length (mb_mem (membuf_flush n b)) = length (mb_mem b)"
  using assms by (auto simp: membuf_flush_def mb_held_def membuf_wf_def membuf_size_def Let_def min_def)

section \<open>Growing\<close>

lemma membuf_grow_pow:
  assumes "need \<le> 2 ^ K" "K \<le> 31" "k \<le> K" "K < fuel + k"
  shows "\<exists>j. k \<le> j \<and> j \<le> K \<and> membuf_grow fuel need (2 ^ k) = Some (2 ^ j) \<and> need \<le> 2 ^ j"
  using assms(3,4)
proof (induction fuel arbitrary: k)
  case (Suc fuel)
  show ?case
  proof (cases "2 ^ k < need")
    case True
    have "k < K"
    proof (rule ccontr)
      assume "\<not> k < K"
      then have "k = K" using Suc.prems(1) by simp
      then show False using True assms(1) by simp
    qed
    have "(2 :: nat) ^ Suc k \<le> 2 ^ 31" using \<open>k < K\<close> assms(2) by (intro power_increasing) auto
    then have "szt (2 ^ k * 2) = 2 ^ Suc k" by (simp add: mult.commute)
    moreover obtain j where "Suc k \<le> j" "j \<le> K" "membuf_grow fuel need (2 ^ Suc k) = Some (2 ^ j)" "need \<le> 2 ^ j"
      using Suc.IH [of "Suc k"] \<open>k < K\<close> Suc.prems by auto
    ultimately show ?thesis using True by (intro exI [of _ j]) (simp del: power_Suc)
  next
    case False
    then show ?thesis using Suc.prems by (intro exI [of _ k]) auto
  qed
qed simp

lemma membuf_grow_total:
  assumes "need \<le> 2 ^ 31"
  shows "\<exists>sz. membuf_grow GROW_FUEL need LELY_MEMBUF_SIZE = Some sz \<and> need \<le> sz \<and> sz \<le> 2 ^ 31"
proof -
  obtain j where j: "j \<le> 31" "membuf_grow 29 need (2 ^ 4) = Some (2 ^ j)" "need \<le> 2 ^ j"
    using membuf_grow_pow [OF assms, of 4 29] by auto
  have "(2 :: nat) ^ j \<le> 2 ^ 31" using j(1) by (intro power_increasing) auto
  then show ?thesis using j by (simp add: GROW_FUEL_def LELY_MEMBUF_SIZE_def)
qed

text \<open>Beyond half the address space the loop multiplies the size to zero and never ends.\<close>

lemma membuf_grow_zero: "0 < need \<Longrightarrow> membuf_grow fuel need 0 = None"
  by (induction fuel) (simp_all add: szt_def)

lemma membuf_grow_hangs_from:
  assumes "2 ^ 31 < need" "k \<le> 31"
  shows "membuf_grow fuel need (2 ^ k) = None"
  using assms(2)
proof (induction fuel arbitrary: k)
  case (Suc fuel)
  have "(2 :: nat) ^ k \<le> 2 ^ 31" using Suc.prems by (intro power_increasing) auto
  then have lt: "2 ^ k < need" using assms(1) by linarith
  show ?case
  proof (cases "k = 31")
    case True
    then show ?thesis using lt membuf_grow_zero [of need fuel] assms(1) by (simp add: szt_def)
  next
    case False
    then have "(2 :: nat) ^ Suc k \<le> 2 ^ 31" using Suc.prems by (intro power_increasing) auto
    then have "szt (2 ^ k * 2) = 2 ^ Suc k" by (simp add: mult.commute)
    then show ?thesis using Suc.IH [of "Suc k"] Suc.prems False lt by (simp del: power_Suc)
  qed
qed simp

lemma membuf_grow_hangs: "2 ^ 31 < need \<Longrightarrow> membuf_grow fuel need LELY_MEMBUF_SIZE = None"
  using membuf_grow_hangs_from [of need 4 fuel] by (simp add: LELY_MEMBUF_SIZE_def)

lemma membuf_grow_enough: "membuf_grow fuel need n = Some sz \<Longrightarrow> need \<le> sz"
  by (induction fuel arbitrary: n) (auto split: if_splits)

lemma membuf_reserve_grown:
  assumes "membuf_wf b" "\<not> n \<le> membuf_capacity b" "membuf_size b + n \<le> sz"
    "b' = b\<lparr>mb_mem := take sz (mb_mem b) @ map f [length (mb_mem b)..<sz]\<rparr>"
  shows "membuf_wf b'" "mb_held b' = mb_held b" "n \<le> membuf_capacity b'" "membuf_size b' = membuf_size b" "membuf_capacity b' \<noteq> 0"
proof -
  have "length (mb_mem b) \<le> sz" using assms(1-3) by (simp add: membuf_capacity_def membuf_size_def membuf_wf_def)
  then show "membuf_wf b'" "mb_held b' = mb_held b" "n \<le> membuf_capacity b'" "membuf_size b' = membuf_size b" "membuf_capacity b' \<noteq> 0"
    using assms by (auto simp: membuf_wf_def mb_held_def membuf_capacity_def membuf_size_def)
qed

text \<open>A reservation that returns keeps what was written and makes room.\<close>

lemma membuf_reserve_props:
  assumes "membuf_reserve H b n = Reserved b'" "membuf_wf b" "membuf_size b + n < 2 ^ 32"
  shows "membuf_wf b'" "mb_held b' = mb_held b" "n \<le> membuf_capacity b'" "membuf_size b' = membuf_size b"
proof -
  have "membuf_wf b' \<and> mb_held b' = mb_held b \<and> n \<le> membuf_capacity b' \<and> membuf_size b' = membuf_size b"
  proof (cases "n \<le> membuf_capacity b")
    case True
    then show ?thesis using assms(1,2) by (auto simp: membuf_reserve_def split: if_splits)
  next
    case False
    then obtain sz where "membuf_grow GROW_FUEL (membuf_size b + n) LELY_MEMBUF_SIZE = Some sz"
      and b': "b' = b\<lparr>mb_mem := take sz (mb_mem b) @ map (hp_fresh H) [length (mb_mem b)..<sz]\<rparr>"
      using assms(1,3) by (auto simp: membuf_reserve_def Let_def split: option.splits if_splits)
    then show ?thesis using membuf_reserve_grown [OF assms(2) False membuf_grow_enough b'] by blast
  qed
  then show "membuf_wf b'" "mb_held b' = mb_held b" "n \<le> membuf_capacity b'" "membuf_size b' = membuf_size b" by auto
qed

text \<open>A buffer grown by the loop never exceeds half the address space.\<close>

lemma membuf_reserve_bound:
  assumes "membuf_reserve H b n = Reserved b'" "length (mb_mem b) \<le> 2 ^ 31"
  shows "length (mb_mem b') \<le> 2 ^ 31"
proof (cases "n \<le> membuf_capacity b")
  case True
  then show ?thesis using assms by (auto simp: membuf_reserve_def split: if_splits)
next
  case False
  then obtain sz where sz: "membuf_grow GROW_FUEL (szt (membuf_size b + n)) LELY_MEMBUF_SIZE = Some sz"
    and b': "b' = b\<lparr>mb_mem := take sz (mb_mem b) @ map (hp_fresh H) [length (mb_mem b)..<sz]\<rparr>"
    using assms(1) by (auto simp: membuf_reserve_def Let_def split: option.splits if_splits)
  have "szt (membuf_size b + n) \<le> 2 ^ 31" using sz membuf_grow_hangs [of "szt (membuf_size b + n)" GROW_FUEL] by fastforce
  then have "sz \<le> 2 ^ 31" using membuf_grow_total sz by fastforce
  then show ?thesis using b' by simp
qed

lemma membuf_reserve_ok:
  assumes "membuf_wf b" "0 < n" "membuf_size b + n \<le> 2 ^ 31" "\<And>sz. hp_ok H sz"
  shows "\<exists>b'. membuf_reserve H b n = Reserved b'"
proof (cases "n \<le> membuf_capacity b")
  case False
  obtain sz where sz: "membuf_grow GROW_FUEL (membuf_size b + n) LELY_MEMBUF_SIZE = Some sz" "membuf_size b + n \<le> sz"
    using membuf_grow_total [OF assms(3)] by auto
  show ?thesis using membuf_reserve_grown(5) [OF assms(1) False sz(2) refl, of "hp_fresh H"] False sz(1) assms(3,4)
    by (simp add: membuf_reserve_def Let_def)
qed (use assms(2) in \<open>simp add: membuf_reserve_def\<close>)

end
