(* ===== verification/Co_Sdo.thy ===== *)
theory Co_Sdo
  imports Membuf Bytes Rtt_Sdo_Channel Rtt_Types
begin

text \<open>
  What the client and the server of the SDO protocol share (\<open>upstream/src/co/sdo.h\<close>, \<open>upstream/src/co/sdo.c\<close>,
  \<open>upstream/include/lely/co/sdo.h\<close>): the command bytes and the macros that pack and unpack them, the frame
  layout, and the request through which values enter and leave the object dictionary.
\<close>

unbundle bit_operations_syntax

section \<open>Command bytes\<close>

definition CO_SDO_CS_MASK :: u8 where "CO_SDO_CS_MASK = 0xe0"
definition CO_SDO_CS_ABORT :: u8 where "CO_SDO_CS_ABORT = 0x80"
definition CO_SDO_SCS_DN_INI_RES :: u8 where "CO_SDO_SCS_DN_INI_RES = 0x60"
definition CO_SDO_SCS_DN_SEG_RES :: u8 where "CO_SDO_SCS_DN_SEG_RES = 0x20"
definition CO_SDO_SCS_UP_INI_RES :: u8 where "CO_SDO_SCS_UP_INI_RES = 0x40"
definition CO_SDO_SCS_UP_SEG_RES :: u8 where "CO_SDO_SCS_UP_SEG_RES = 0x00"
definition CO_SDO_SCS_BLK_DN_RES :: u8 where "CO_SDO_SCS_BLK_DN_RES = 0xa0"
definition CO_SDO_SCS_BLK_UP_RES :: u8 where "CO_SDO_SCS_BLK_UP_RES = 0xc0"
definition CO_SDO_CCS_DN_INI_REQ :: u8 where "CO_SDO_CCS_DN_INI_REQ = 0x20"
definition CO_SDO_CCS_DN_SEG_REQ :: u8 where "CO_SDO_CCS_DN_SEG_REQ = 0x00"
definition CO_SDO_CCS_UP_INI_REQ :: u8 where "CO_SDO_CCS_UP_INI_REQ = 0x40"
definition CO_SDO_CCS_UP_SEG_REQ :: u8 where "CO_SDO_CCS_UP_SEG_REQ = 0x60"
definition CO_SDO_CCS_BLK_DN_REQ :: u8 where "CO_SDO_CCS_BLK_DN_REQ = 0xc0"
definition CO_SDO_CCS_BLK_UP_REQ :: u8 where "CO_SDO_CCS_BLK_UP_REQ = 0xa0"
definition CO_SDO_SC_MASK :: u8 where "CO_SDO_SC_MASK = 0x03"
definition CO_SDO_SC_INI_BLK :: u8 where "CO_SDO_SC_INI_BLK = 0x00"
definition CO_SDO_SC_END_BLK :: u8 where "CO_SDO_SC_END_BLK = 0x01"
definition CO_SDO_SC_BLK_RES :: u8 where "CO_SDO_SC_BLK_RES = 0x02"
definition CO_SDO_SC_START_UP :: u8 where "CO_SDO_SC_START_UP = 0x03"
definition CO_SDO_INI_SIZE_MASK :: u8 where "CO_SDO_INI_SIZE_MASK = 0x0f"
definition CO_SDO_INI_SIZE_IND :: u8 where "CO_SDO_INI_SIZE_IND = 0x01"
definition CO_SDO_INI_SIZE_EXP :: u8 where "CO_SDO_INI_SIZE_EXP = 0x02"
definition CO_SDO_SEG_TOGGLE :: u8 where "CO_SDO_SEG_TOGGLE = 0x10"
definition CO_SDO_SEG_SIZE_MASK :: u8 where "CO_SDO_SEG_SIZE_MASK = 0x0e"
definition CO_SDO_SEG_LAST :: u8 where "CO_SDO_SEG_LAST = 0x01"
definition CO_SDO_BLK_SIZE_IND :: u8 where "CO_SDO_BLK_SIZE_IND = 0x02"
definition CO_SDO_BLK_CRC :: u8 where "CO_SDO_BLK_CRC = 0x04"
definition CO_SDO_SEQ_LAST :: u8 where "CO_SDO_SEQ_LAST = 0x80"
definition CO_SDO_BLK_SIZE_MASK :: u8 where "CO_SDO_BLK_SIZE_MASK = 0x1c"
definition CO_SDO_MAX_SEQNO :: nat where "CO_SDO_MAX_SEQNO = 127"

definition CO_SDO_INI_SIZE_EXP_GET :: "u8 \<Rightarrow> nat" where
  "CO_SDO_INI_SIZE_EXP_GET cs = 4 - unat (drop_bit 2 (cs AND CO_SDO_INI_SIZE_MASK))"

definition CO_SDO_INI_SIZE_EXP_SET :: "nat \<Rightarrow> u8" where
  "CO_SDO_INI_SIZE_EXP_SET n = (push_bit 2 (word_of_int (4 - int n)) OR 0x03) AND CO_SDO_INI_SIZE_MASK"

definition CO_SDO_SEG_SIZE_GET :: "u8 \<Rightarrow> nat" where
  "CO_SDO_SEG_SIZE_GET cs = 7 - unat (drop_bit 1 (cs AND CO_SDO_SEG_SIZE_MASK))"

definition CO_SDO_SEG_SIZE_SET :: "nat \<Rightarrow> u8" where
  "CO_SDO_SEG_SIZE_SET n = push_bit 1 (word_of_int (7 - int n)) AND CO_SDO_SEG_SIZE_MASK"

definition CO_SDO_BLK_SIZE_GET :: "u8 \<Rightarrow> nat" where
  "CO_SDO_BLK_SIZE_GET cs = 7 - unat (drop_bit 2 (cs AND CO_SDO_BLK_SIZE_MASK))"

definition CO_SDO_BLK_SIZE_SET :: "nat \<Rightarrow> u8" where
  "CO_SDO_BLK_SIZE_SET n = push_bit 2 (word_of_int (7 - int n)) AND CO_SDO_BLK_SIZE_MASK"

lemmas sdo_cs = CO_SDO_CS_MASK_def CO_SDO_CS_ABORT_def CO_SDO_SCS_DN_INI_RES_def CO_SDO_SCS_DN_SEG_RES_def
  CO_SDO_SCS_UP_INI_RES_def CO_SDO_SCS_UP_SEG_RES_def CO_SDO_SCS_BLK_DN_RES_def CO_SDO_SCS_BLK_UP_RES_def
  CO_SDO_CCS_DN_INI_REQ_def CO_SDO_CCS_DN_SEG_REQ_def CO_SDO_CCS_UP_INI_REQ_def CO_SDO_CCS_UP_SEG_REQ_def
  CO_SDO_CCS_BLK_DN_REQ_def CO_SDO_CCS_BLK_UP_REQ_def CO_SDO_SC_MASK_def CO_SDO_SC_INI_BLK_def CO_SDO_SC_END_BLK_def
  CO_SDO_SC_BLK_RES_def CO_SDO_SC_START_UP_def CO_SDO_INI_SIZE_MASK_def CO_SDO_INI_SIZE_IND_def CO_SDO_INI_SIZE_EXP_def
  CO_SDO_SEG_TOGGLE_def CO_SDO_SEG_SIZE_MASK_def CO_SDO_SEG_LAST_def CO_SDO_BLK_SIZE_IND_def CO_SDO_BLK_CRC_def
  CO_SDO_SEQ_LAST_def CO_SDO_BLK_SIZE_MASK_def

text \<open>The abort codes of the protocol.\<close>

definition CO_SDO_AC_TOGGLE :: u32 where "CO_SDO_AC_TOGGLE = 0x05030000"
definition CO_SDO_AC_NO_CS :: u32 where "CO_SDO_AC_NO_CS = 0x05040001"
definition CO_SDO_AC_BLK_SIZE :: u32 where "CO_SDO_AC_BLK_SIZE = 0x05040002"
definition CO_SDO_AC_BLK_SEQ :: u32 where "CO_SDO_AC_BLK_SEQ = 0x05040003"
definition CO_SDO_AC_BLK_CRC :: u32 where "CO_SDO_AC_BLK_CRC = 0x05040004"
definition CO_SDO_AC_NO_MEM :: u32 where "CO_SDO_AC_NO_MEM = 0x05040005"
definition CO_SDO_AC_NO_READ :: u32 where "CO_SDO_AC_NO_READ = 0x06010001"
definition CO_SDO_AC_NO_WRITE :: u32 where "CO_SDO_AC_NO_WRITE = 0x06010002"
definition CO_SDO_AC_NO_OBJ :: u32 where "CO_SDO_AC_NO_OBJ = 0x06020000"
definition CO_SDO_AC_TYPE_LEN_HI :: u32 where "CO_SDO_AC_TYPE_LEN_HI = 0x06070012"
definition CO_SDO_AC_NO_SUB :: u32 where "CO_SDO_AC_NO_SUB = 0x06090011"
definition CO_SDO_AC_NO_DATA :: u32 where "CO_SDO_AC_NO_DATA = 0x08000024"

lemmas sdo_ac = CO_SDO_AC_TOGGLE_def CO_SDO_AC_NO_CS_def CO_SDO_AC_BLK_SIZE_def CO_SDO_AC_BLK_SEQ_def CO_SDO_AC_BLK_CRC_def
  CO_SDO_AC_NO_MEM_def CO_SDO_AC_NO_READ_def CO_SDO_AC_NO_WRITE_def CO_SDO_AC_NO_OBJ_def CO_SDO_AC_TYPE_LEN_HI_def
  CO_SDO_AC_NO_SUB_def CO_SDO_AC_NO_DATA_def CO_SDO_AC_NO_SDO_def CO_SDO_AC_ERROR_def CO_SDO_AC_TIMEOUT_def
  CO_SDO_AC_TYPE_LEN_LO_def

section \<open>Frames\<close>

text \<open>The identifier and the flags of a frame with the given COB-ID, for sending and for receiving.\<close>

definition cobid_key :: "u32 \<Rightarrow> u32 \<times> u8" where
  "cobid_key cobid = (if cobid AND CO_SDO_COBID_FRAME \<noteq> 0 then (cobid AND CAN_MASK_EID, CAN_FLAG_IDE) else (cobid AND CAN_MASK_BID, 0))"

definition sdo_frame :: "u32 \<Rightarrow> bytes \<Rightarrow> can_msg" where
  "sdo_frame cobid d = \<lparr>cm_id = fst (cobid_key cobid), cm_flags = snd (cobid_key cobid), cm_len = 8, cm_data = d\<rparr>"

text \<open>\<open>init_ini\<close> and \<open>init_seg\<close> of the client and the server; the rest of the frame is zero.\<close>

definition ini_data :: "u8 \<Rightarrow> u16 \<Rightarrow> u8 \<Rightarrow> bytes" where
  "ini_data cs idx subidx = [cs] @ stle_u16 idx @ [subidx] @ replicate 4 0"

definition seg_data :: "u8 \<Rightarrow> bytes" where
  "seg_data cs = cs # replicate 7 0"

definition put_data :: "nat \<Rightarrow> bytes \<Rightarrow> bytes \<Rightarrow> bytes" where
  "put_data off src d = take off d @ src @ drop (off + length src) d"

text \<open>Reading a received frame: the length, the bytes, and the four bytes after the index padded with zeroes.\<close>

definition msg_len :: "can_msg \<Rightarrow> nat" where
  "msg_len m = unat (cm_len m)"

definition msg_cs :: "can_msg \<Rightarrow> u8" where
  "msg_cs m = cm_data m ! 0"

definition msg_idx :: "can_msg \<Rightarrow> u16" where
  "msg_idx m = ldle_u16 (drop 1 (cm_data m))"

definition msg_subidx :: "can_msg \<Rightarrow> u8" where
  "msg_subidx m = cm_data m ! 3"

definition msg_u32 :: "can_msg \<Rightarrow> u32" where
  "msg_u32 m = ldle_u32 (drop 4 (cm_data m))"

definition msg_pad :: "can_msg \<Rightarrow> bytes" where
  "msg_pad m = take 4 (take (msg_len m - 4) (drop 4 (cm_data m)) @ replicate 4 0)"

text \<open>The abort code of a received abort.\<close>

definition msg_abort :: "can_msg \<Rightarrow> u32" where
  "msg_abort m = (let ac = (if msg_len m < 8 then 0 else msg_u32 m) in if ac \<noteq> 0 then ac else CO_SDO_AC_ERROR)"

section \<open>Requests\<close>

text \<open>\<open>sq_buf\<close> holds the bytes from the pointer \<open>buf\<close> on.\<close>

record co_sdo_req =
  sq_size :: nat
  sq_buf :: bytes
  sq_nbyte :: nat
  sq_offset :: nat
  sq_membuf :: membuf

definition co_sdo_req_init :: co_sdo_req where
  "co_sdo_req_init = \<lparr>sq_size = 0, sq_buf = [], sq_nbyte = 0, sq_offset = 0, sq_membuf = membuf_init []\<rparr>"

definition co_sdo_req_clear :: "co_sdo_req \<Rightarrow> co_sdo_req" where
  "co_sdo_req_clear r = \<lparr>sq_size = 0, sq_buf = [], sq_nbyte = 0, sq_offset = 0, sq_membuf = membuf_clear (sq_membuf r)\<rparr>"

definition co_sdo_req_first :: "co_sdo_req \<Rightarrow> bool" where
  "co_sdo_req_first r \<longleftrightarrow> sq_offset r = 0"

definition co_sdo_req_last :: "co_sdo_req \<Rightarrow> bool" where
  "co_sdo_req_last r \<longleftrightarrow> szt (sq_offset r + sq_nbyte r) \<ge> sq_size r"

text \<open>\<open>co_sdo_req_dn\<close> with \<open>co_sdo_req_dn_buf\<close>: an abort code, more to come, or the whole value.\<close>

datatype dn_result = Dn_hangs | Dn_abort u32 | Dn_more | Dn_value bytes

definition dn_copy :: "int \<Rightarrow> co_sdo_req \<Rightarrow> dn_result \<times> co_sdo_req" where
  "dn_copy off r =
     (let b = sq_membuf r
      in if sq_nbyte r \<noteq> 0 \<and> sq_nbyte r > membuf_capacity b
         then (Dn_abort CO_SDO_AC_ERROR, r\<lparr>sq_membuf := snd (membuf_seek (- off) b)\<rparr>)
         else
           let b' = (if sq_nbyte r \<noteq> 0 then membuf_write (take (sq_nbyte r) (sq_buf r)) b else b);
               r' = r\<lparr>sq_membuf := b'\<rparr>
           in (if co_sdo_req_last r then Dn_value (take (sq_size r) (mb_mem b')) else Dn_more, r'))"

definition co_sdo_req_dn :: "heap \<Rightarrow> co_sdo_req \<Rightarrow> dn_result \<times> co_sdo_req" where
  "co_sdo_req_dn H r =
     (let b = sq_membuf r; off = - int (membuf_size b)
      in if co_sdo_req_first r \<and> co_sdo_req_last r then (Dn_value (take (sq_size r) (sq_buf r)), r)
         else if co_sdo_req_first r then
           (case membuf_reserve H (membuf_clear b) (sq_size r) of
              Reserve_hangs \<Rightarrow> (Dn_hangs, r)
            | Reserve_fails \<Rightarrow> (Dn_abort CO_SDO_AC_NO_MEM, r\<lparr>sq_membuf := snd (membuf_seek (- off) (membuf_clear b))\<rparr>)
            | Reserved b' \<Rightarrow> dn_copy off (r\<lparr>sq_membuf := b'\<rparr>))
         else
           let off = off + int (sq_offset r)
           in if off > 0 then (Dn_abort CO_SDO_AC_ERROR, r)
              else dn_copy off (r\<lparr>sq_membuf := snd (membuf_seek off b)\<rparr>))"

text \<open>\<open>co_sdo_req_up_val\<close> for a value whose serialised form is \<open>v\<close>, with \<open>co_sdo_req_up_buf\<close>.\<close>

datatype up_result = Up_hangs | Up_failed u32 | Up_ok

definition co_sdo_req_up_buf :: "co_sdo_req \<Rightarrow> co_sdo_req" where
  "co_sdo_req_up_buf r = r\<lparr>sq_size := membuf_size (sq_membuf r), sq_buf := mb_mem (sq_membuf r),
     sq_nbyte := membuf_size (sq_membuf r), sq_offset := 0\<rparr>"

definition co_sdo_req_up_val :: "heap \<Rightarrow> bytes \<Rightarrow> co_sdo_req \<Rightarrow> up_result \<times> co_sdo_req" where
  "co_sdo_req_up_val H v r =
     (let b = membuf_clear (sq_membuf r)
      in if v = [] then (Up_ok, co_sdo_req_up_buf (r\<lparr>sq_membuf := b\<rparr>))
         else case membuf_reserve H b (length v) of
           Reserve_hangs \<Rightarrow> (Up_hangs, r)
         | Reserve_fails \<Rightarrow> (Up_failed CO_SDO_AC_NO_MEM, r\<lparr>sq_membuf := b\<rparr>)
         | Reserved b' \<Rightarrow> (Up_ok, co_sdo_req_up_buf (r\<lparr>sq_membuf := membuf_write v b'\<rparr>)))"

section \<open>Communication parameters\<close>

text \<open>
  A write of the value \<open>v\<close> over \<open>old\<close> to a sub-object of an SDO parameter record (1200 to 127F for servers, 1280 to 12FF for
  clients): an abort code, 0 when nothing changes, or the new parameters.
\<close>

definition CO_SDO_AC_PARAM_VAL :: u32 where "CO_SDO_AC_PARAM_VAL = 0x06090030"

definition sdo_par_dn :: "u8 \<Rightarrow> u32 \<Rightarrow> u32 \<Rightarrow> co_sdo_par \<Rightarrow> u32 + co_sdo_par" where
  "sdo_par_dn sub v old par =
     (let cobid_ok = \<not> (v AND CO_SDO_COBID_VALID = 0 \<and> old AND CO_SDO_COBID_VALID = 0 \<and> v AND CAN_MASK_EID \<noteq> old AND CAN_MASK_EID)
            \<and> \<not> (v AND CO_SDO_COBID_FRAME = 0 \<and> v AND (CAN_MASK_EID XOR CAN_MASK_BID) \<noteq> 0)
      in if sub = 0 then Inl CO_SDO_AC_NO_WRITE
         else if sub = 1 then (if v = old then Inl 0 else if cobid_ok then Inr (par\<lparr>cobid_req := v\<rparr>) else Inl CO_SDO_AC_PARAM_VAL)
         else if sub = 2 then (if v = old then Inl 0 else if cobid_ok then Inr (par\<lparr>cobid_res := v\<rparr>) else Inl CO_SDO_AC_PARAM_VAL)
         else if sub = 3 then (if v = old then Inl 0 else Inr (par\<lparr>par_id := ucast v\<rparr>))
         else Inl CO_SDO_AC_NO_SUB)"

section \<open>Data types\<close>

text \<open>
  The data types of \<open>upstream/include/lely/co/type.h\<close>. A value is kept in its serialised form, what \<open>co_val_write\<close> gives for
  it: \<open>co_val_width\<close> bytes for the types that are not arrays, zero for a type \<open>co_val_read\<close> does not know.
\<close>

definition CO_DEFTYPE_BOOLEAN :: u16 where "CO_DEFTYPE_BOOLEAN = 0x0001"
definition CO_DEFTYPE_UNSIGNED8 :: u16 where "CO_DEFTYPE_UNSIGNED8 = 0x0005"
definition CO_DEFTYPE_UNSIGNED16 :: u16 where "CO_DEFTYPE_UNSIGNED16 = 0x0006"
definition CO_DEFTYPE_UNSIGNED32 :: u16 where "CO_DEFTYPE_UNSIGNED32 = 0x0007"
definition CO_DEFTYPE_VISIBLE_STRING :: u16 where "CO_DEFTYPE_VISIBLE_STRING = 0x0009"
definition CO_DEFTYPE_OCTET_STRING :: u16 where "CO_DEFTYPE_OCTET_STRING = 0x000a"
definition CO_DEFTYPE_UNICODE_STRING :: u16 where "CO_DEFTYPE_UNICODE_STRING = 0x000b"
definition CO_DEFTYPE_TIME_OF_DAY :: u16 where "CO_DEFTYPE_TIME_OF_DAY = 0x000c"
definition CO_DEFTYPE_TIME_DIFF :: u16 where "CO_DEFTYPE_TIME_DIFF = 0x000d"
definition CO_DEFTYPE_DOMAIN :: u16 where "CO_DEFTYPE_DOMAIN = 0x000f"
definition CO_DEFTYPE_UNSIGNED64 :: u16 where "CO_DEFTYPE_UNSIGNED64 = 0x001b"

lemmas co_deftype = CO_DEFTYPE_BOOLEAN_def CO_DEFTYPE_UNSIGNED8_def CO_DEFTYPE_UNSIGNED16_def CO_DEFTYPE_UNSIGNED32_def
  CO_DEFTYPE_VISIBLE_STRING_def CO_DEFTYPE_OCTET_STRING_def CO_DEFTYPE_UNICODE_STRING_def CO_DEFTYPE_TIME_OF_DAY_def
  CO_DEFTYPE_TIME_DIFF_def CO_DEFTYPE_DOMAIN_def CO_DEFTYPE_UNSIGNED64_def

definition co_type_is_array :: "u16 \<Rightarrow> bool" where
  "co_type_is_array type \<longleftrightarrow> type = CO_DEFTYPE_VISIBLE_STRING \<or> type = CO_DEFTYPE_OCTET_STRING
     \<or> type = CO_DEFTYPE_UNICODE_STRING \<or> type = CO_DEFTYPE_DOMAIN"

definition co_val_width :: "u16 \<Rightarrow> nat" where
  "co_val_width type =
     (if type \<in> {0x01, 0x02, 0x05} then 1 else if type \<in> {0x03, 0x06} then 2 else if type \<in> {0x10, 0x16} then 3
      else if type \<in> {0x04, 0x07, 0x08} then 4 else if type \<in> {0x12, 0x18} then 5 else if type \<in> {0x0c, 0x0d, 0x13, 0x19} then 6
      else if type \<in> {0x14, 0x1a} then 7 else if type \<in> {0x11, 0x15, 0x1b} then 8 else 0)"

text \<open>
  What \<open>co_val_write\<close> gives back for the value \<open>co_val_read\<close> makes of the bytes \<open>v\<close>: a truth value becomes 0 or 1, the upper
  four bits of the milliseconds of a time are lost, and so is the odd last byte of a string of 16-bit characters.
\<close>

definition co_val_norm :: "u16 \<Rightarrow> bytes \<Rightarrow> bytes" where
  "co_val_norm type v =
     (if type = CO_DEFTYPE_BOOLEAN then map (\<lambda>b. if b \<noteq> 0 then 1 else 0) v
      else if type = CO_DEFTYPE_TIME_OF_DAY \<or> type = CO_DEFTYPE_TIME_DIFF then v[3 := v ! 3 AND 0x0f]
      else if type = CO_DEFTYPE_UNICODE_STRING then take (2 * (length v div 2)) v
      else v)"

text \<open>The size checks of \<open>co_sdo_req_dn_val\<close> on a value of \<open>n\<close> bytes.\<close>

definition co_val_size_chk :: "u16 \<Rightarrow> nat \<Rightarrow> u32" where
  "co_val_size_chk type n =
     (if co_type_is_array type then 0
      else if co_val_width type = 0 \<or> n < co_val_width type then CO_SDO_AC_TYPE_LEN_LO
      else if co_val_width type < n then CO_SDO_AC_TYPE_LEN_HI
      else 0)"

lemma co_val_norm_unsigned [simp]:
  "co_val_norm CO_DEFTYPE_UNSIGNED8 v = v" "co_val_norm CO_DEFTYPE_UNSIGNED16 v = v" "co_val_norm CO_DEFTYPE_UNSIGNED32 v = v"
  "co_val_norm CO_DEFTYPE_UNSIGNED64 v = v"
  by (simp_all add: co_val_norm_def co_deftype)

lemma length_co_val_norm: "type \<noteq> CO_DEFTYPE_UNICODE_STRING \<Longrightarrow> length (co_val_norm type v) = length v"
  by (simp add: co_val_norm_def)

lemma length_co_val_norm_le: "length (co_val_norm type v) \<le> length v"
  by (simp add: co_val_norm_def)

lemma co_val_norm_idem [simp]: "co_val_norm type (co_val_norm type v) = co_val_norm type v"
proof (cases "type = CO_DEFTYPE_TIME_OF_DAY \<or> type = CO_DEFTYPE_TIME_DIFF")
  case True
  have "list_update w 3 (w ! 3 AND 0x0f) = w" if "w = list_update v 3 (v ! 3 AND 0x0f)" for w
    using that by (cases "3 < length v") (simp_all add: and.assoc list_update_beyond)
  then show ?thesis using True by (auto simp: co_val_norm_def co_deftype)
next
  case False
  then show ?thesis by (simp add: co_val_norm_def o_def)
qed

section \<open>Objects\<close>

text \<open>
  A sub-object as the SDO server and the PDO services see it: its access rights, its data type, whether it may be mapped
  into a PDO, whether it refuses to be written by a download, its value in serialised form (absent when the object has no
  value), and the abort code \<open>sub_chk\<close> for a new value of the right size: the limits of \<open>co_sub_chk_val\<close>, or
  no memory for the copy of an array. The array check of uploads needs the number of elements of the object. The indication
  functions are the default ones.
\<close>

record co_sub =
  sub_read :: bool
  sub_write :: bool
  sub_rpdo :: bool \<comment> \<open>\<open>CO_ACCESS_RPDO\<close>\<close>
  sub_tpdo :: bool \<comment> \<open>\<open>CO_ACCESS_TPDO\<close>\<close>
  sub_mapping :: bool \<comment> \<open>\<open>co_sub_get_pdo_mapping\<close>\<close>
  sub_refuse :: bool \<comment> \<open>\<open>CO_OBJ_FLAGS_WRITE\<close>\<close>
  sub_type :: u16
  sub_val :: "bytes option"
  sub_chk :: "bytes \<Rightarrow> u32"

record co_obj =
  obj_subs :: "u8 \<Rightarrow> co_sub option"
  obj_array :: "u8 option" \<comment> \<open>the number of elements of an array object\<close>

type_synonym co_dev = "u16 \<Rightarrow> co_obj option"

text \<open>\<open>co_sub_dn\<close> for the value read from the bytes \<open>v\<close>: nothing is stored when the sub-object refuses it.\<close>

definition co_sub_dn :: "co_sub \<Rightarrow> bytes \<Rightarrow> co_sub" where
  "co_sub_dn sb v = (if sub_refuse sb then sb else sb\<lparr>sub_val := Some (co_val_norm (sub_type sb) v)\<rparr>)"

definition upd_sub :: "co_dev \<Rightarrow> u16 \<Rightarrow> u8 \<Rightarrow> (co_sub \<Rightarrow> co_sub) \<Rightarrow> co_dev" where
  "upd_sub D idx subidx f = (case D idx of
       None \<Rightarrow> D
     | Some ob \<Rightarrow> (case obj_subs ob subidx of
         None \<Rightarrow> D
       | Some sb \<Rightarrow> D(idx \<mapsto> ob\<lparr>obj_subs := (obj_subs ob)(subidx \<mapsto> f sb)\<rparr>)))"

text \<open>
  A download into the dictionary through \<open>co_sub_dn\<close>, and a value set by the stack itself (\<open>co_sub_set_val\<close>, or a write through
  the pointer to the value), which the flag does not stop.
\<close>

definition set_val :: "co_dev \<Rightarrow> u16 \<Rightarrow> u8 \<Rightarrow> bytes \<Rightarrow> co_dev" where
  "set_val D idx subidx v = upd_sub D idx subidx (\<lambda>sb. co_sub_dn sb v)"

definition put_val :: "co_dev \<Rightarrow> u16 \<Rightarrow> u8 \<Rightarrow> bytes \<Rightarrow> co_dev" where
  "put_val D idx subidx v = upd_sub D idx subidx (\<lambda>sb. sb\<lparr>sub_val := Some v\<rparr>)"

text \<open>
  The checks of \<open>co_sub_on_dn\<close> on the bytes of a whole value, and \<open>co_sub_dn_ind\<close>: the abort code, or \<open>None\<close> when the call
  does not return, with the bytes that go to \<open>co_sub_dn\<close>.
\<close>

definition co_sub_on_dn_chk :: "co_sub \<Rightarrow> bytes \<Rightarrow> u32" where
  "co_sub_on_dn_chk sb v =
     (if co_val_size_chk (sub_type sb) (length v) \<noteq> 0 then co_val_size_chk (sub_type sb) (length v)
      else sub_chk sb (co_val_norm (sub_type sb) v))"

definition co_sub_dn_ind :: "heap \<Rightarrow> co_sub \<Rightarrow> co_sdo_req \<Rightarrow> u32 option \<times> co_sdo_req \<times> bytes option" where
  "co_sub_dn_ind H sb r =
     (if \<not> sub_write sb then (Some CO_SDO_AC_NO_WRITE, r, None)
      else case co_sdo_req_dn H r of
        (Dn_hangs, r') \<Rightarrow> (None, r', None)
      | (Dn_abort ac, r') \<Rightarrow> (Some ac, r', None)
      | (Dn_more, r') \<Rightarrow> (Some 0, r', None)
      | (Dn_value v, r') \<Rightarrow>
          if co_sub_on_dn_chk sb v \<noteq> 0 then (Some (co_sub_on_dn_chk sb v), r', None) else (Some 0, r', Some v))"

definition co_sub_up_ind :: "heap \<Rightarrow> co_sub \<Rightarrow> co_sdo_req \<Rightarrow> u32 option \<times> co_sdo_req" where
  "co_sub_up_ind H sb r =
     (if \<not> sub_read sb then (Some CO_SDO_AC_NO_READ, r)
      else case sub_val sb of
        None \<Rightarrow> (Some CO_SDO_AC_NO_DATA, r)
      | Some v \<Rightarrow> (case co_sdo_req_up_val H v r of
          (Up_hangs, r') \<Rightarrow> (None, r')
        | (Up_failed ac, r') \<Rightarrow> (Some ac, r')
        | (Up_ok, r') \<Rightarrow> (Some 0, r')))"

end
