(* ===== verification/Co_Csdo.thy ===== *)
theory Co_Csdo
  imports Co_Sdo Crc
begin

text \<open>
  The client of the SDO protocol (\<open>upstream/src/co/csdo.c\<close>): expedited, segmented and block transfers as a
  state machine driven by received frames, time-outs and abort requests.

  Sending a frame appends it to \<open>cs_sent\<close>, and calling the confirmation function of a request appends its
  arguments to \<open>cs_confirmed\<close>; a confirmation function may start the next request, which is then the
  next event of the model, since nothing follows the call. The progress indications are not
  modelled. \<open>cs_hung\<close> says that a call has entered the endless loop of \<open>membuf_reserve\<close>, and
  \<open>cs_broken\<close> that an assertion of the code has failed.
\<close>

unbundle bit_operations_syntax

section \<open>State\<close>

datatype csdo_state = CS_stopped | CS_wait | CS_abort | CS_dn_ini | CS_dn_seg | CS_up_ini | CS_up_seg
  | CS_blk_dn_ini | CS_blk_dn_sub | CS_blk_dn_end | CS_blk_up_ini | CS_blk_up_sub | CS_blk_up_end

datatype csdo_con = Con_dn nat u16 u8 u32 | Con_up nat u16 u8 u32 bytes

record co_csdo =
  cs_par :: co_sdo_par
  cs_timeout :: nat
  cs_timer :: bool \<comment> \<open>whether the timer is running\<close>
  cs_state :: csdo_state
  cs_ac :: u32
  cs_idx :: u16
  cs_subidx :: u8
  cs_size :: nat
  cs_toggle :: u8
  cs_blksize :: nat
  cs_pst :: u8
  cs_ackseq :: nat
  cs_crc :: bool
  cs_dn_buf :: membuf
  cs_buf :: membuf \<comment> \<open>which \<open>up_buf\<close> points to\<close>
  cs_dn_con :: "nat option"
  cs_up_con :: "nat option"
  cs_sent :: "can_msg list"
  cs_confirmed :: "csdo_con list"
  cs_hung :: bool
  cs_broken :: bool

type_synonym ctrans = "co_csdo \<Rightarrow> csdo_state option \<times> co_csdo"

definition csdo_assert :: "bool \<Rightarrow> co_csdo \<Rightarrow> co_csdo" where
  "csdo_assert P s = s\<lparr>cs_broken := cs_broken s \<or> \<not> P\<rparr>"

definition csdo_arm :: "co_csdo \<Rightarrow> co_csdo" where
  "csdo_arm s = (if cs_timeout s \<noteq> 0 then s\<lparr>cs_timer := True\<rparr> else s)"

section \<open>Frames\<close>

definition csdo_send :: "bytes \<Rightarrow> co_csdo \<Rightarrow> co_csdo" where
  "csdo_send d s = s\<lparr>cs_sent := cs_sent s @ [sdo_frame (cobid_req (cs_par s)) d]\<rparr>"

definition co_csdo_init_ini_req :: "co_csdo \<Rightarrow> u8 \<Rightarrow> bytes" where
  "co_csdo_init_ini_req s cs = ini_data cs (cs_idx s) (cs_subidx s)"

definition co_csdo_send_abort :: "u32 \<Rightarrow> co_csdo \<Rightarrow> co_csdo" where
  "co_csdo_send_abort ac s = csdo_send (put_data 4 (stle_u32 ac) (co_csdo_init_ini_req s CO_SDO_CS_ABORT)) s"

text \<open>\<open>memcpy(dst, buf->cur, n); buf->cur += n\<close> from the download buffer.\<close>

definition dn_take :: "nat \<Rightarrow> co_csdo \<Rightarrow> bytes \<times> co_csdo" where
  "dn_take n s = (let b = cs_dn_buf s
     in (take n (drop (mb_cur b) (mb_mem b)), s\<lparr>cs_dn_buf := b\<lparr>mb_cur := mb_cur b + n\<rparr>\<rparr>))"

definition co_csdo_send_dn_exp_req :: "co_csdo \<Rightarrow> co_csdo" where
  "co_csdo_send_dn_exp_req s =
     (let cs = CO_SDO_CCS_DN_INI_REQ OR CO_SDO_INI_SIZE_EXP_SET (cs_size s); (d, s1) = dn_take (cs_size s) s
      in csdo_send (put_data 4 d (co_csdo_init_ini_req s cs)) s1)"

definition co_csdo_send_dn_ini_req :: "co_csdo \<Rightarrow> co_csdo" where
  "co_csdo_send_dn_ini_req s =
     csdo_send (put_data 4 (stle_u32 (of_nat (cs_size s))) (co_csdo_init_ini_req s (CO_SDO_CCS_DN_INI_REQ OR CO_SDO_INI_SIZE_IND))) s"

definition co_csdo_send_dn_seg_req :: "nat \<Rightarrow> bool \<Rightarrow> co_csdo \<Rightarrow> co_csdo" where
  "co_csdo_send_dn_seg_req n final s =
     (let cs = CO_SDO_CCS_DN_SEG_REQ OR cs_toggle s OR CO_SDO_SEG_SIZE_SET n;
          cs' = (if final then cs OR CO_SDO_SEG_LAST else cs);
          (d, s1) = dn_take n (s\<lparr>cs_toggle := cs_toggle s XOR CO_SDO_SEG_TOGGLE\<rparr>)
      in csdo_send (put_data 1 d (seg_data cs')) s1)"

definition co_csdo_send_up_ini_req :: "co_csdo \<Rightarrow> co_csdo" where
  "co_csdo_send_up_ini_req s = csdo_send (co_csdo_init_ini_req s CO_SDO_CCS_UP_INI_REQ) s"

definition co_csdo_send_up_seg_req :: "co_csdo \<Rightarrow> co_csdo" where
  "co_csdo_send_up_seg_req s =
     csdo_send (seg_data (CO_SDO_CCS_UP_SEG_REQ OR cs_toggle s)) (s\<lparr>cs_toggle := cs_toggle s XOR CO_SDO_SEG_TOGGLE\<rparr>)"

definition co_csdo_send_blk_dn_ini_req :: "co_csdo \<Rightarrow> co_csdo" where
  "co_csdo_send_blk_dn_ini_req s =
     csdo_send (put_data 4 (stle_u32 (of_nat (cs_size s))) (co_csdo_init_ini_req s
       (CO_SDO_CCS_BLK_DN_REQ OR CO_SDO_BLK_CRC OR CO_SDO_BLK_SIZE_IND OR CO_SDO_SC_INI_BLK))) s"

definition co_csdo_send_blk_dn_sub_req :: "nat \<Rightarrow> co_csdo \<Rightarrow> co_csdo" where
  "co_csdo_send_blk_dn_sub_req seqno s =
     (let n = szt_diff (cs_size s) (membuf_size (cs_dn_buf s));
          cs = (if n \<le> 7 then of_nat seqno OR CO_SDO_SEQ_LAST else of_nat seqno);
          (d, s1) = dn_take (min n 7) s
      in csdo_send (put_data 1 d (seg_data cs)) s1)"

text \<open>The number of bytes in the last segment containing data.\<close>

definition last_bytes :: "nat \<Rightarrow> nat" where
  "last_bytes n = (if n \<noteq> 0 then (n - 1) mod 7 + 1 else 0)"

definition co_csdo_send_blk_dn_end_req :: "co_csdo \<Rightarrow> co_csdo" where
  "co_csdo_send_blk_dn_end_req s =
     (let cs = CO_SDO_CCS_BLK_DN_REQ OR CO_SDO_SC_END_BLK OR CO_SDO_BLK_SIZE_SET (last_bytes (cs_size s));
          crc = (if cs_crc s then co_crc 0 (Some (mb_mem (cs_dn_buf s))) (cs_size s) else Some 0)
      in case crc of
           Some c \<Rightarrow> csdo_send (put_data 1 (stle_u16 c) (seg_data cs)) s
         | None \<Rightarrow> csdo_assert False s)"

definition co_csdo_send_blk_up_ini_req :: "co_csdo \<Rightarrow> co_csdo" where
  "co_csdo_send_blk_up_ini_req s =
     csdo_send (put_data 4 [of_nat (cs_blksize s), cs_pst s] (co_csdo_init_ini_req s
       (CO_SDO_CCS_BLK_UP_REQ OR CO_SDO_BLK_CRC OR CO_SDO_SC_INI_BLK))) s"

definition co_csdo_send_start_up_req :: "co_csdo \<Rightarrow> co_csdo" where
  "co_csdo_send_start_up_req s = csdo_send (seg_data (CO_SDO_CCS_BLK_UP_REQ OR CO_SDO_SC_START_UP)) s"

definition co_csdo_send_blk_up_sub_res :: "co_csdo \<Rightarrow> co_csdo" where
  "co_csdo_send_blk_up_sub_res s =
     csdo_send (put_data 1 [of_nat (cs_ackseq s), of_nat (cs_blksize s)] (seg_data (CO_SDO_CCS_BLK_UP_REQ OR CO_SDO_SC_BLK_RES))) s"

definition co_csdo_send_blk_up_end_res :: "co_csdo \<Rightarrow> co_csdo" where
  "co_csdo_send_blk_up_end_res s = csdo_send (seg_data (CO_SDO_CCS_BLK_UP_REQ OR CO_SDO_SC_END_BLK)) s"

section \<open>Transitions\<close>

definition co_csdo_abort_ind :: "u32 \<Rightarrow> ctrans" where
  "co_csdo_abort_ind ac s = (Some CS_abort, s\<lparr>cs_ac := ac\<rparr>)"

definition co_csdo_abort_res :: "u32 \<Rightarrow> ctrans" where
  "co_csdo_abort_res ac s = co_csdo_abort_ind ac (co_csdo_send_abort ac s)"

text \<open>\<open>co_csdo_wait_on_recv\<close>.\<close>

definition co_csdo_wait_on_recv :: "can_msg \<Rightarrow> ctrans" where
  "co_csdo_wait_on_recv m s =
     (if msg_len m < 1 then co_csdo_abort_res CO_SDO_AC_NO_CS s
      else if msg_cs m AND CO_SDO_CS_MASK = CO_SDO_CS_ABORT then co_csdo_abort_ind (msg_abort m) s
      else (None, s))"

definition co_csdo_abort_on_enter :: ctrans where
  "co_csdo_abort_on_enter s = (Some CS_wait, s\<lparr>cs_timer := False\<rparr>)"

definition co_csdo_abort_on_leave :: "co_csdo \<Rightarrow> co_csdo" where
  "co_csdo_abort_on_leave s =
     (let s1 = s\<lparr>cs_dn_con := None, cs_up_con := None\<rparr>
      in case cs_dn_con s of
           Some i \<Rightarrow> s1\<lparr>cs_confirmed := cs_confirmed s @ [Con_dn i (cs_idx s) (cs_subidx s) (cs_ac s)]\<rparr>
         | None \<Rightarrow> (case cs_up_con s of
             Some i \<Rightarrow> s1\<lparr>cs_confirmed := cs_confirmed s
               @ [Con_up i (cs_idx s) (cs_subidx s) (cs_ac s) (if cs_ac s \<noteq> 0 then [] else mb_held (cs_buf s))]\<rparr>
           | None \<Rightarrow> s1))"

text \<open>
  The head of every other receive function: the length, the expected server command, an abort of the
  server. \<open>k\<close> is what follows.
\<close>

definition check_scs :: "u8 \<Rightarrow> can_msg \<Rightarrow> ctrans \<Rightarrow> ctrans" where
  "check_scs scs m k s =
     (if msg_len m < 1 then co_csdo_abort_res CO_SDO_AC_NO_CS s
      else if msg_cs m AND CO_SDO_CS_MASK = scs then k s
      else if msg_cs m AND CO_SDO_CS_MASK = CO_SDO_CS_ABORT then co_csdo_abort_ind (msg_abort m) s
      else co_csdo_abort_res CO_SDO_AC_NO_CS s)"

definition check_object :: "can_msg \<Rightarrow> ctrans \<Rightarrow> ctrans" where
  "check_object m k s =
     (if msg_len m < 4 then co_csdo_abort_res CO_SDO_AC_ERROR s
      else if msg_idx m \<noteq> cs_idx s \<or> msg_subidx m \<noteq> cs_subidx s then co_csdo_abort_res CO_SDO_AC_ERROR s
      else k s)"

definition co_csdo_dn_ini_on_recv :: "can_msg \<Rightarrow> ctrans" where
  "co_csdo_dn_ini_on_recv m = check_scs CO_SDO_SCS_DN_INI_RES m (check_object m (\<lambda>s. (Some CS_dn_seg, s)))"

definition co_csdo_dn_seg_on_enter :: ctrans where
  "co_csdo_dn_seg_on_enter s =
     (let n = szt_diff (cs_size s) (membuf_size (cs_dn_buf s))
      in if n \<noteq> 0 \<or> cs_size s = 0 \<and> cs_toggle s = 0
         then (None, co_csdo_send_dn_seg_req (min n 7) (n \<le> 7) (csdo_arm s))
         else co_csdo_abort_ind 0 s)"

definition co_csdo_dn_seg_on_recv :: "can_msg \<Rightarrow> ctrans" where
  "co_csdo_dn_seg_on_recv m = check_scs CO_SDO_SCS_DN_SEG_RES m (\<lambda>s.
     if msg_cs m AND CO_SDO_SEG_TOGGLE = cs_toggle s then co_csdo_abort_res CO_SDO_AC_TOGGLE s
     else (Some CS_dn_seg, s))"

text \<open>\<open>if (sdo->size && !membuf_reserve(buf, sdo->size))\<close>, for the size just set.\<close>

definition reserve_up :: "heap \<Rightarrow> ctrans \<Rightarrow> ctrans" where
  "reserve_up H k s =
     (if cs_size s = 0 then k s
      else case membuf_reserve H (cs_buf s) (cs_size s) of
        Reserve_hangs \<Rightarrow> (None, s\<lparr>cs_hung := True\<rparr>)
      | Reserve_fails \<Rightarrow> co_csdo_abort_res CO_SDO_AC_NO_MEM s
      | Reserved b \<Rightarrow> k (s\<lparr>cs_buf := b\<rparr>))"

definition co_csdo_up_ini_on_recv :: "heap \<Rightarrow> can_msg \<Rightarrow> ctrans" where
  "co_csdo_up_ini_on_recv H m = check_scs CO_SDO_SCS_UP_INI_RES m (check_object m (\<lambda>s.
     let cs = msg_cs m; data = msg_pad m; ex = (cs AND CO_SDO_INI_SIZE_EXP \<noteq> 0);
         size = (if ex then if cs AND CO_SDO_INI_SIZE_IND \<noteq> 0 then CO_SDO_INI_SIZE_EXP_GET cs else msg_len m - 4
                 else if cs AND CO_SDO_INI_SIZE_IND \<noteq> 0 then unat (ldle_u32 data) else 0)
     in reserve_up H (\<lambda>s.
          if ex then co_csdo_abort_ind 0 (s\<lparr>cs_buf := membuf_write (take (cs_size s) data) (cs_buf s)\<rparr>)
          else (Some CS_up_seg, co_csdo_send_up_seg_req (csdo_arm s)))
        (s\<lparr>cs_size := size\<rparr>)))"

definition co_csdo_up_seg_on_recv :: "can_msg \<Rightarrow> ctrans" where
  "co_csdo_up_seg_on_recv m = check_scs CO_SDO_SCS_UP_SEG_RES m (\<lambda>s.
     let cs = msg_cs m; n = CO_SDO_SEG_SIZE_GET cs; final = (cs AND CO_SDO_SEG_LAST \<noteq> 0)
     in if cs AND CO_SDO_SEG_TOGGLE = cs_toggle s then (Some CS_up_seg, s)
        else if msg_len m < 1 + n then co_csdo_abort_res CO_SDO_AC_NO_CS s
        else if szt (membuf_size (cs_buf s) + n) > cs_size s then co_csdo_abort_res CO_SDO_AC_TYPE_LEN_HI s
        else
          let s1 = csdo_assert (membuf_capacity (cs_buf s) \<ge> n) s;
              s2 = s1\<lparr>cs_buf := membuf_write (take n (drop 1 (cm_data m))) (cs_buf s1)\<rparr>
          in if final then
               if cs_size s2 \<noteq> 0 \<and> membuf_size (cs_buf s2) \<noteq> cs_size s2 then co_csdo_abort_res CO_SDO_AC_TYPE_LEN_LO s2
               else co_csdo_abort_ind 0 s2
             else (Some CS_up_seg, co_csdo_send_up_seg_req (csdo_arm s2)))"

definition co_csdo_blk_dn_ini_on_recv :: "can_msg \<Rightarrow> ctrans" where
  "co_csdo_blk_dn_ini_on_recv m = check_scs CO_SDO_SCS_BLK_DN_RES m (\<lambda>s.
     if msg_cs m AND CO_SDO_SC_MASK \<noteq> CO_SDO_SC_INI_BLK then co_csdo_abort_res CO_SDO_AC_NO_CS s
     else check_object m (\<lambda>s.
       if msg_len m < 5 then co_csdo_abort_res CO_SDO_AC_BLK_SIZE s
       else (Some CS_blk_dn_sub, s\<lparr>cs_blksize := unat (cm_data m ! 4)\<rparr>))
     (s\<lparr>cs_crc := (msg_cs m AND CO_SDO_BLK_CRC \<noteq> 0)\<rparr>))"

definition co_csdo_blk_dn_sub_on_enter :: ctrans where
  "co_csdo_blk_dn_sub_on_enter s =
     (let n = szt_diff (cs_size s) (membuf_size (cs_dn_buf s))
      in if n > 0 \<and> cs_blksize s = 0 \<or> cs_blksize s > CO_SDO_MAX_SEQNO then co_csdo_abort_res CO_SDO_AC_BLK_SIZE s
         else
           let s1 = csdo_arm (s\<lparr>cs_blksize := min ((n + 6) div 7) (cs_blksize s)\<rparr>)
           in if n \<noteq> 0 then (None, fold co_csdo_send_blk_dn_sub_req [1..<Suc (cs_blksize s1)] s1)
              else (Some CS_blk_dn_end, co_csdo_send_blk_dn_end_req s1))"

definition co_csdo_blk_dn_sub_on_recv :: "can_msg \<Rightarrow> ctrans" where
  "co_csdo_blk_dn_sub_on_recv m = check_scs CO_SDO_SCS_BLK_DN_RES m (\<lambda>s.
     if msg_cs m AND CO_SDO_SC_MASK \<noteq> CO_SDO_SC_BLK_RES then co_csdo_abort_res CO_SDO_AC_NO_CS s
     else if msg_len m < 2 then co_csdo_abort_res CO_SDO_AC_BLK_SEQ s
     else
       let ackseq = unat (cm_data m ! 1);
           s1 = (if ackseq < cs_blksize s then
                   let b = cs_dn_buf s; n = (membuf_size b + 6) div 7
                   in (csdo_assert (n \<ge> cs_blksize s) s)\<lparr>cs_dn_buf := b\<lparr>mb_cur := (n - (cs_blksize s - ackseq)) * 7\<rparr>\<rparr>
                 else s)
       in if msg_len m < 3 then co_csdo_abort_res CO_SDO_AC_BLK_SIZE s1
          else (Some CS_blk_dn_sub, s1\<lparr>cs_blksize := unat (cm_data m ! 2)\<rparr>))"

definition co_csdo_blk_dn_end_on_recv :: "can_msg \<Rightarrow> ctrans" where
  "co_csdo_blk_dn_end_on_recv m = check_scs CO_SDO_SCS_BLK_DN_RES m (\<lambda>s.
     if msg_cs m AND CO_SDO_SC_MASK \<noteq> CO_SDO_SC_END_BLK then co_csdo_abort_res CO_SDO_AC_NO_CS s
     else co_csdo_abort_ind 0 s)"

definition co_csdo_blk_up_ini_on_recv :: "heap \<Rightarrow> can_msg \<Rightarrow> ctrans" where
  "co_csdo_blk_up_ini_on_recv H m s =
     (if msg_len m < 1 then co_csdo_abort_res CO_SDO_AC_NO_CS s
      else
        let cs = msg_cs m; ac = (if msg_len m < 8 then 0 else msg_u32 m)
        in if cs AND CO_SDO_CS_MASK = CO_SDO_SCS_UP_INI_RES then co_csdo_up_ini_on_recv H m s
           else if cs AND CO_SDO_CS_MASK = CO_SDO_CS_ABORT then
             if ac = CO_SDO_AC_BLK_SIZE \<and> cs_blksize s > 1
             then (None, co_csdo_send_blk_up_ini_req (csdo_arm (s\<lparr>cs_blksize := (cs_blksize s + 1) div 2\<rparr>)))
             else co_csdo_abort_ind (msg_abort m) s
           else if cs AND CO_SDO_CS_MASK \<noteq> CO_SDO_SCS_BLK_UP_RES then co_csdo_abort_res CO_SDO_AC_NO_CS s
           else if cs AND 0x01 \<noteq> CO_SDO_SC_INI_BLK then co_csdo_abort_res CO_SDO_AC_NO_CS s
           else check_object m (\<lambda>s.
             reserve_up H (\<lambda>s. (Some CS_blk_up_sub, co_csdo_send_start_up_req (csdo_arm (s\<lparr>cs_ackseq := 0\<rparr>))))
               (s\<lparr>cs_size := if cs AND CO_SDO_BLK_SIZE_IND \<noteq> 0 then unat (ldle_u32 (msg_pad m)) else 0\<rparr>))
           (s\<lparr>cs_crc := (cs AND CO_SDO_BLK_CRC \<noteq> 0)\<rparr>))"

definition co_csdo_blk_up_sub_on_recv :: "can_msg \<Rightarrow> ctrans" where
  "co_csdo_blk_up_sub_on_recv m s =
     (if msg_len m < 1 then co_csdo_abort_res CO_SDO_AC_NO_CS s
      else if msg_cs m = CO_SDO_CS_ABORT then co_csdo_abort_ind (msg_abort m) s
      else
        let seqno = unat (msg_cs m AND NOT CO_SDO_SEQ_LAST); final = (msg_cs m AND CO_SDO_SEQ_LAST \<noteq> 0);
            n = min (szt_diff (cs_size s) (membuf_size (cs_buf s))) 7;
            ackn = (\<lambda>s. let s1 = (if seqno = cs_blksize s \<or> final
                                  then (co_csdo_send_blk_up_sub_res s)\<lparr>cs_ackseq := 0\<rparr> else s)
                        in (Some (if final then CS_blk_up_end else CS_blk_up_sub), csdo_arm s1))
        in if seqno = cs_ackseq s + 1 then
             let s1 = csdo_assert (cs_size s \<ge> membuf_size (cs_buf s)) (s\<lparr>cs_ackseq := (cs_ackseq s + 1) mod 256\<rparr>)
             in if \<not> final \<and> n < 7 then co_csdo_abort_res CO_SDO_AC_TYPE_LEN_HI s1
                else ackn ((csdo_assert (membuf_capacity (cs_buf s1) \<ge> n) s1)
                  \<lparr>cs_buf := membuf_write (take n (drop 1 (cm_data m))) (cs_buf s1)\<rparr>)
           else ackn s)"

definition co_csdo_blk_up_end_on_recv :: "can_msg \<Rightarrow> ctrans" where
  "co_csdo_blk_up_end_on_recv m = check_scs CO_SDO_SCS_BLK_UP_RES m (\<lambda>s.
     if msg_cs m AND CO_SDO_SC_MASK \<noteq> CO_SDO_SC_END_BLK then co_csdo_abort_res CO_SDO_AC_NO_CS s
     else if cs_size s \<noteq> 0 \<and> membuf_size (cs_buf s) \<noteq> cs_size s then co_csdo_abort_res CO_SDO_AC_TYPE_LEN_LO s
     else if CO_SDO_BLK_SIZE_GET (msg_cs m) \<noteq> last_bytes (cs_size s) then co_csdo_abort_res CO_SDO_AC_NO_CS s
     else if cs_crc s \<and> Some (ldle_u16 (drop 1 (cm_data m))) \<noteq> co_crc 0 (Some (mb_mem (cs_buf s))) (cs_size s)
     then co_csdo_abort_res CO_SDO_AC_BLK_CRC s
     else co_csdo_abort_ind 0 (co_csdo_send_blk_up_end_res s))"

section \<open>Events\<close>

fun csdo_on_enter :: "csdo_state \<Rightarrow> ctrans" where
  "csdo_on_enter CS_abort = co_csdo_abort_on_enter"
| "csdo_on_enter CS_dn_seg = co_csdo_dn_seg_on_enter"
| "csdo_on_enter CS_blk_dn_sub = co_csdo_blk_dn_sub_on_enter"
| "csdo_on_enter _ = (\<lambda>s. (None, s))"

definition csdo_on_leave :: "csdo_state \<Rightarrow> co_csdo \<Rightarrow> co_csdo" where
  "csdo_on_leave st s = (if st = CS_abort then co_csdo_abort_on_leave s else s)"

text \<open>How many states the loop of \<open>co_csdo_enter\<close> may still go through.\<close>

fun csdo_rank :: "csdo_state \<Rightarrow> nat" where
  "csdo_rank CS_abort = 2"
| "csdo_rank CS_dn_seg = 3"
| "csdo_rank CS_blk_dn_sub = 3"
| "csdo_rank _ = 1"

lemma csdo_rank_pos: "0 < csdo_rank st"
  by (cases st) simp_all

lemma abort_next: "co_csdo_abort_ind ac s = (Some st, s') \<Longrightarrow> st = CS_abort" "co_csdo_abort_res ac s = (Some st, s') \<Longrightarrow> st = CS_abort"
  by (auto simp: co_csdo_abort_ind_def co_csdo_abort_res_def)

lemma csdo_on_enter_rank: "csdo_on_enter st s = (Some st', s') \<Longrightarrow> csdo_rank st' < csdo_rank st"
  by (cases st)
    (auto simp: co_csdo_abort_on_enter_def co_csdo_dn_seg_on_enter_def co_csdo_blk_dn_sub_on_enter_def Let_def
      dest: abort_next split: if_splits)

function co_csdo_enter :: "csdo_state option \<Rightarrow> co_csdo \<Rightarrow> co_csdo" where
  "co_csdo_enter None s = s"
| "co_csdo_enter (Some st) s =
     (case csdo_on_enter st (csdo_on_leave (cs_state s) (s\<lparr>cs_state := st\<rparr>)) of (st', s') \<Rightarrow> co_csdo_enter st' s')"
  by pat_completeness auto
termination
proof (relation "measure (\<lambda>(st, s). case st of None \<Rightarrow> 0 | Some st \<Rightarrow> csdo_rank st)")
  fix st and s :: co_csdo and x y
  assume p: "(x, y) = csdo_on_enter st (csdo_on_leave (cs_state s) (s\<lparr>cs_state := st\<rparr>))"
  show "((x, y), Some st, s) \<in> measure (\<lambda>(st, s). case st of None \<Rightarrow> 0 | Some st \<Rightarrow> csdo_rank st)"
    using csdo_rank_pos [of st] csdo_on_enter_rank [of st _ _ y] p
    by (cases x) (auto simp: eq_commute [of "(_, _)"])
qed simp

definition csdo_enter :: "csdo_state option \<times> co_csdo \<Rightarrow> co_csdo" where
  "csdo_enter p = co_csdo_enter (fst p) (snd p)"

text \<open>A missing handler is the failure of the assertion in front of its call.\<close>

fun csdo_on_abort :: "csdo_state \<Rightarrow> u32 \<Rightarrow> ctrans" where
  "csdo_on_abort CS_stopped ac = (\<lambda>s. (None, s))"
| "csdo_on_abort CS_wait ac = (\<lambda>s. (None, s))"
| "csdo_on_abort CS_abort ac = (\<lambda>s. (None, csdo_assert False s))"
| "csdo_on_abort _ ac = co_csdo_abort_res ac"

fun csdo_on_time :: "csdo_state \<Rightarrow> ctrans" where
  "csdo_on_time CS_stopped = (\<lambda>s. (None, csdo_assert False s))"
| "csdo_on_time CS_wait = (\<lambda>s. (None, csdo_assert False s))"
| "csdo_on_time CS_abort = (\<lambda>s. (None, csdo_assert False s))"
| "csdo_on_time _ = co_csdo_abort_res CO_SDO_AC_TIMEOUT"

fun csdo_on_recv :: "heap \<Rightarrow> csdo_state \<Rightarrow> can_msg \<Rightarrow> ctrans" where
  "csdo_on_recv H CS_stopped m = (\<lambda>s. (None, csdo_assert False s))"
| "csdo_on_recv H CS_wait m = co_csdo_wait_on_recv m"
| "csdo_on_recv H CS_abort m = (\<lambda>s. (None, csdo_assert False s))"
| "csdo_on_recv H CS_dn_ini m = co_csdo_dn_ini_on_recv m"
| "csdo_on_recv H CS_dn_seg m = co_csdo_dn_seg_on_recv m"
| "csdo_on_recv H CS_up_ini m = co_csdo_up_ini_on_recv H m"
| "csdo_on_recv H CS_up_seg m = co_csdo_up_seg_on_recv m"
| "csdo_on_recv H CS_blk_dn_ini m = co_csdo_blk_dn_ini_on_recv m"
| "csdo_on_recv H CS_blk_dn_sub m = co_csdo_blk_dn_sub_on_recv m"
| "csdo_on_recv H CS_blk_dn_end m = co_csdo_blk_dn_end_on_recv m"
| "csdo_on_recv H CS_blk_up_ini m = co_csdo_blk_up_ini_on_recv H m"
| "csdo_on_recv H CS_blk_up_sub m = co_csdo_blk_up_sub_on_recv m"
| "csdo_on_recv H CS_blk_up_end m = co_csdo_blk_up_end_on_recv m"

definition co_csdo_emit_abort :: "u32 \<Rightarrow> co_csdo \<Rightarrow> co_csdo" where
  "co_csdo_emit_abort ac s = csdo_enter (csdo_on_abort (cs_state s) ac s)"

definition co_csdo_emit_time :: "co_csdo \<Rightarrow> co_csdo" where
  "co_csdo_emit_time s = csdo_enter (csdo_on_time (cs_state s) s)"

definition co_csdo_emit_recv :: "heap \<Rightarrow> can_msg \<Rightarrow> co_csdo \<Rightarrow> co_csdo" where
  "co_csdo_emit_recv H m s = csdo_enter (csdo_on_recv H (cs_state s) m s)"

text \<open>The callbacks; the timer is one-shot.\<close>

definition co_csdo_recv :: "heap \<Rightarrow> can_msg \<Rightarrow> co_csdo \<Rightarrow> co_csdo" where
  "co_csdo_recv H m s =
     (if cm_flags m AND CAN_FLAG_RTR \<noteq> 0 \<or> cm_flags m AND CAN_FLAG_FDF \<noteq> 0 then s else co_csdo_emit_recv H m s)"

definition co_csdo_timer :: "co_csdo \<Rightarrow> co_csdo" where
  "co_csdo_timer s = co_csdo_emit_time (s\<lparr>cs_timer := False\<rparr>)"

section \<open>Requests\<close>

definition co_csdo_is_idle :: "co_csdo \<Rightarrow> bool" where
  "co_csdo_is_idle s \<longleftrightarrow> cs_state s = CS_wait"

definition csdo_reset :: "u16 \<Rightarrow> u8 \<Rightarrow> nat \<Rightarrow> co_csdo \<Rightarrow> co_csdo" where
  "csdo_reset idx subidx n s = s\<lparr>cs_ac := 0, cs_idx := idx, cs_subidx := subidx, cs_size := n, cs_toggle := 0, cs_blksize := 0,
     cs_pst := 0, cs_ackseq := 0, cs_crc := False\<rparr>"

definition co_csdo_dn_ind :: "u16 \<Rightarrow> u8 \<Rightarrow> bytes \<Rightarrow> nat option \<Rightarrow> co_csdo \<Rightarrow> co_csdo option" where
  "co_csdo_dn_ind idx subidx d con s =
     (if \<not> co_csdo_is_valid (cs_par s) \<or> \<not> co_csdo_is_idle s then None
      else Some ((csdo_reset idx subidx (length d) s)\<lparr>cs_dn_buf := membuf_init d, cs_dn_con := con, cs_up_con := None\<rparr>))"

definition co_csdo_up_ind :: "u16 \<Rightarrow> u8 \<Rightarrow> nat option \<Rightarrow> co_csdo \<Rightarrow> co_csdo option" where
  "co_csdo_up_ind idx subidx con s =
     (if \<not> co_csdo_is_valid (cs_par s) \<or> \<not> co_csdo_is_idle s then None
      else Some ((csdo_reset idx subidx 0 s)\<lparr>cs_buf := membuf_clear (cs_buf s), cs_dn_con := None, cs_up_con := con\<rparr>))"

definition co_csdo_dn_req :: "u16 \<Rightarrow> u8 \<Rightarrow> bytes \<Rightarrow> nat option \<Rightarrow> co_csdo \<Rightarrow> co_csdo option" where
  "co_csdo_dn_req idx subidx d con s = map_option (\<lambda>s.
     let s1 = csdo_arm s;
         s2 = (if cs_size s1 \<noteq> 0 \<and> cs_size s1 \<le> 4 then co_csdo_send_dn_exp_req s1 else co_csdo_send_dn_ini_req s1)
     in co_csdo_enter (Some CS_dn_ini) s2) (co_csdo_dn_ind idx subidx d con s)"

definition co_csdo_up_req :: "u16 \<Rightarrow> u8 \<Rightarrow> nat option \<Rightarrow> co_csdo \<Rightarrow> co_csdo option" where
  "co_csdo_up_req idx subidx con s = map_option (\<lambda>s.
     co_csdo_enter (Some CS_up_ini) (co_csdo_send_up_ini_req (csdo_arm s))) (co_csdo_up_ind idx subidx con s)"

definition co_csdo_blk_dn_req :: "u16 \<Rightarrow> u8 \<Rightarrow> bytes \<Rightarrow> nat option \<Rightarrow> co_csdo \<Rightarrow> co_csdo option" where
  "co_csdo_blk_dn_req idx subidx d con s = map_option (\<lambda>s.
     co_csdo_enter (Some CS_blk_dn_ini) (co_csdo_send_blk_dn_ini_req (csdo_arm s))) (co_csdo_dn_ind idx subidx d con s)"

definition co_csdo_blk_up_req :: "u16 \<Rightarrow> u8 \<Rightarrow> u8 \<Rightarrow> nat option \<Rightarrow> co_csdo \<Rightarrow> co_csdo option" where
  "co_csdo_blk_up_req idx subidx pst con s = map_option (\<lambda>s.
     co_csdo_enter (Some CS_blk_up_ini)
       (co_csdo_send_blk_up_ini_req (csdo_arm (s\<lparr>cs_pst := pst, cs_blksize := CO_SDO_MAX_SEQNO\<rparr>)))) (co_csdo_up_ind idx subidx con s)"

definition co_csdo_abort_req :: "u32 \<Rightarrow> co_csdo \<Rightarrow> co_csdo" where
  "co_csdo_abort_req ac s = co_csdo_emit_abort ac s"

definition co_csdo_set_timeout :: "int \<Rightarrow> co_csdo \<Rightarrow> co_csdo" where
  "co_csdo_set_timeout t s =
     (let s1 = (if cs_timeout s \<noteq> 0 \<and> t \<le> 0 then s\<lparr>cs_timer := False\<rparr> else s) in s1\<lparr>cs_timeout := nat t\<rparr>)"

definition co_csdo_stop :: "co_csdo \<Rightarrow> co_csdo" where
  "co_csdo_stop s =
     (if cs_state s = CS_stopped then s
      else co_csdo_enter (Some CS_stopped) ((co_csdo_abort_req CO_SDO_AC_NO_SDO s)\<lparr>cs_timer := False\<rparr>))"

text \<open>\<open>co_csdo_start\<close> copies the parameters \<open>par\<close> of the object dictionary and, with \<open>co_csdo_update\<close>, aborts what was under way.\<close>

definition co_csdo_start :: "co_sdo_par \<Rightarrow> co_csdo \<Rightarrow> co_csdo" where
  "co_csdo_start par s =
     (if cs_state s \<noteq> CS_stopped then s
      else co_csdo_abort_req CO_SDO_AC_NO_SDO (co_csdo_enter (Some CS_wait) (s\<lparr>cs_par := par\<rparr>)))"

definition co_csdo_init :: "co_sdo_par \<Rightarrow> co_csdo" where
  "co_csdo_init par = co_csdo_start par \<lparr>cs_par = par, cs_timeout = 0, cs_timer = False, cs_state = CS_stopped, cs_ac = 0, cs_idx = 0,
     cs_subidx = 0, cs_size = 0, cs_toggle = 0, cs_blksize = 0, cs_pst = 0, cs_ackseq = 0, cs_crc = False, cs_dn_buf = membuf_init [],
     cs_buf = membuf_init [], cs_dn_con = None, cs_up_con = None, cs_sent = [], cs_confirmed = [], cs_hung = False, cs_broken = False\<rparr>"

text \<open>A write to the SDO parameter record of the client.\<close>

definition co_1280_dn_ind :: "u8 \<Rightarrow> u32 \<Rightarrow> u32 \<Rightarrow> co_csdo \<Rightarrow> u32 \<times> co_csdo" where
  "co_1280_dn_ind sub v old s = (case sdo_par_dn sub v old (cs_par s) of
       Inl ac \<Rightarrow> (ac, s)
     | Inr par \<Rightarrow> (0, co_csdo_abort_req CO_SDO_AC_NO_SDO (s\<lparr>cs_par := par\<rparr>)))"

end
