(* ===== verification/Co_Csdo_Inv.thy ===== *)
theory Co_Csdo_Inv
  imports Co_Csdo
begin

text \<open>
  The client of the SDO protocol against any server: whatever frames arrive, whenever the timer expires and
  the application aborts, no assertion of the code fails, no buffer is overrun, and every accepted
  request is confirmed exactly once.
\<close>

unbundle bit_operations_syntax

section \<open>Invariant\<close>

text \<open>The download buffer is the data of the application, the upload buffer has room for what is still to come.\<close>

definition dn_ok :: "co_csdo \<Rightarrow> bool" where
  "dn_ok s \<longleftrightarrow> cs_size s = length (mb_mem (cs_dn_buf s)) \<and> cs_size s < 2 ^ 32"

definition up_ok :: "co_csdo \<Rightarrow> bool" where
  "up_ok s \<longleftrightarrow> membuf_size (cs_buf s) \<le> cs_size s \<and> cs_size s - membuf_size (cs_buf s) \<le> membuf_capacity (cs_buf s)"

definition core :: "co_csdo \<Rightarrow> bool" where
  "core s \<longleftrightarrow> membuf_wf (cs_buf s) \<and> length (mb_mem (cs_buf s)) \<le> 2 ^ 31 \<and> membuf_wf (cs_dn_buf s) \<and> \<not> cs_broken s"

lemma up_ok_bound: "core s \<Longrightarrow> up_ok s \<Longrightarrow> cs_size s \<le> 2 ^ 31"
  by (auto simp: core_def up_ok_def membuf_wf_def membuf_size_def membuf_capacity_def)

text \<open>What holds when a state is about to be entered, and while it is the current one.\<close>

fun entry :: "csdo_state \<Rightarrow> co_csdo \<Rightarrow> bool" where
  "entry CS_dn_ini s = dn_ok s"
| "entry CS_dn_seg s = dn_ok s"
| "entry CS_blk_dn_ini s = dn_ok s"
| "entry CS_blk_dn_sub s = dn_ok s"
| "entry CS_blk_dn_end s = dn_ok s"
| "entry CS_up_ini s = (membuf_size (cs_buf s) = 0)"
| "entry CS_blk_up_ini s = (membuf_size (cs_buf s) = 0)"
| "entry CS_up_seg s = up_ok s"
| "entry CS_blk_up_sub s = up_ok s"
| "entry CS_blk_up_end s = up_ok s"
| "entry CS_abort s = True"
| "entry CS_wait s = (\<not> cs_timer s)"
| "entry CS_stopped s = (\<not> cs_timer s)"

definition inside :: "csdo_state \<Rightarrow> co_csdo \<Rightarrow> bool" where
  "inside st s \<longleftrightarrow> st \<noteq> CS_abort \<and> entry st s \<and> (st = CS_blk_dn_sub \<longrightarrow> cs_blksize s \<le> (membuf_size (cs_dn_buf s) + 6) div 7)"

definition busy :: "csdo_state \<Rightarrow> bool" where
  "busy st \<longleftrightarrow> st \<noteq> CS_wait \<and> st \<noteq> CS_stopped"

definition pending :: "co_csdo \<Rightarrow> nat list" where
  "pending s = (case cs_dn_con s of Some i \<Rightarrow> [i] | None \<Rightarrow> (case cs_up_con s of Some i \<Rightarrow> [i] | None \<Rightarrow> []))"

fun con_id :: "csdo_con \<Rightarrow> nat" where
  "con_id (Con_dn i _ _ _) = i"
| "con_id (Con_up i _ _ _ _) = i"

definition csdo_inv :: "co_csdo \<Rightarrow> bool" where
  "csdo_inv s \<longleftrightarrow> core s \<and> inside (cs_state s) s \<and> (\<not> busy (cs_state s) \<longrightarrow> pending s = [])"

section \<open>Transitions\<close>

text \<open>What a transition function may change, and what its result promises to the state it leads to.\<close>

definition kept :: "co_csdo \<Rightarrow> co_csdo \<Rightarrow> bool" where
  "kept s s' \<longleftrightarrow> cs_dn_con s' = cs_dn_con s \<and> cs_up_con s' = cs_up_con s \<and> cs_confirmed s' = cs_confirmed s \<and> cs_state s' = cs_state s
     \<and> cs_par s' = cs_par s \<and> cs_timeout s' = cs_timeout s"

definition csdo_sound :: "co_csdo \<Rightarrow> csdo_state option \<times> co_csdo \<Rightarrow> bool" where
  "csdo_sound s p \<longleftrightarrow> kept s (snd p) \<and> core (snd p)
     \<and> (case fst p of None \<Rightarrow> inside (cs_state s) (snd p) | Some st \<Rightarrow> entry st (snd p) \<and> busy st)"

lemma kept_refl [simp]: "kept s s"
  by (simp add: kept_def)

lemma send_simps [simp]:
  "core (csdo_send d s) = core s" "kept t (csdo_send d s) = kept t s" "entry st (csdo_send d s) = entry st s"
  "inside st (csdo_send d s) = inside st s"
  "core (csdo_arm s) = core s" "kept t (csdo_arm s) = kept t s" "busy st \<Longrightarrow> entry st (csdo_arm s) = entry st s"
  "busy st \<Longrightarrow> inside st (csdo_arm s) = inside st s"
  by (cases st; auto simp: csdo_send_def csdo_arm_def core_def kept_def inside_def dn_ok_def up_ok_def busy_def)+

lemma send_ok_simps [simp]: "dn_ok (csdo_send d s) = dn_ok s" "up_ok (csdo_send d s) = up_ok s"
  by (simp_all add: csdo_send_def dn_ok_def up_ok_def)

lemma sound_abort [simp]:
  "core s \<Longrightarrow> kept t s \<Longrightarrow> csdo_sound t (co_csdo_abort_ind ac s)" "core s \<Longrightarrow> kept t s \<Longrightarrow> csdo_sound t (co_csdo_abort_res ac s)"
  by (simp_all add: csdo_sound_def co_csdo_abort_ind_def co_csdo_abort_res_def co_csdo_send_abort_def core_def kept_def busy_def csdo_send_def)

lemma sound_if: "(P \<Longrightarrow> csdo_sound t a) \<Longrightarrow> (\<not> P \<Longrightarrow> csdo_sound t b) \<Longrightarrow> csdo_sound t (if P then a else b)"
  by simp

lemma sound_check_scs:
  assumes "core s" "msg_cs m AND CO_SDO_CS_MASK = scs \<Longrightarrow> 1 \<le> msg_len m \<Longrightarrow> csdo_sound s (k s)"
  shows "csdo_sound s (check_scs scs m k s)"
  using assms by (simp add: check_scs_def not_less)

lemma sound_check_object:
  assumes "core s" "kept t s" "4 \<le> msg_len m \<Longrightarrow> csdo_sound t (k s)"
  shows "csdo_sound t (check_object m k s)"
  using assms by (simp add: check_object_def)

lemma sound_wait: "core s \<Longrightarrow> inside (cs_state s) s \<Longrightarrow> csdo_sound s (co_csdo_wait_on_recv m s)"
  by (simp add: co_csdo_wait_on_recv_def csdo_sound_def [where p = "(None, s)"])

lemma sound_dn_ini: "core s \<Longrightarrow> dn_ok s \<Longrightarrow> csdo_sound s (co_csdo_dn_ini_on_recv m s)"
  by (simp add: co_csdo_dn_ini_on_recv_def sound_check_scs sound_check_object csdo_sound_def [where p = "(Some _, _)"] busy_def)

lemma sound_dn_seg: "core s \<Longrightarrow> dn_ok s \<Longrightarrow> csdo_sound s (co_csdo_dn_seg_on_recv m s)"
  by (simp add: co_csdo_dn_seg_on_recv_def sound_check_scs csdo_sound_def [where p = "(Some _, _)"] busy_def)

lemma sound_blk_dn_end: "core s \<Longrightarrow> csdo_sound s (co_csdo_blk_dn_end_on_recv m s)"
  by (simp add: co_csdo_blk_dn_end_on_recv_def sound_check_scs)

lemma sound_blk_dn_ini: "core s \<Longrightarrow> dn_ok s \<Longrightarrow> csdo_sound s (co_csdo_blk_dn_ini_on_recv m s)"
  by (auto simp: co_csdo_blk_dn_ini_on_recv_def csdo_sound_def [where p = "(Some _, _)"] core_def kept_def dn_ok_def busy_def
      intro!: sound_check_scs sound_check_object)

text \<open>Going back to the first segment that the server has not received.\<close>

lemma rewind_le:
  assumes "a < (b :: nat)" "b \<le> (c + 6) div 7"
  shows "((c + 6) div 7 - (b - a)) * 7 \<le> c"
proof -
  have "(c + 6) div 7 - (b - a) \<le> (c + 6) div 7 - 1" using assms(1) by simp
  then have "((c + 6) div 7 - (b - a)) * 7 \<le> ((c + 6) div 7 - 1) * 7" by simp
  also have "\<dots> \<le> c" using assms by linarith
  finally show ?thesis .
qed

lemma sound_blk_dn_sub:
  assumes "core s" "inside CS_blk_dn_sub s"
  shows "csdo_sound s (co_csdo_blk_dn_sub_on_recv m s)"
proof -
  have dn: "dn_ok s" and blk: "cs_blksize s \<le> (mb_cur (cs_dn_buf s) + 6) div 7" and le: "mb_cur (cs_dn_buf s) \<le> cs_size s"
    using assms by (auto simp: inside_def core_def dn_ok_def membuf_wf_def membuf_size_def)
  have rew: "((mb_cur (cs_dn_buf s) + 6) div 7 - (cs_blksize s - a)) * 7 \<le> cs_size s" if "a < cs_blksize s" for a
    using rewind_le [OF that blk] le by linarith
  show ?thesis
    unfolding co_csdo_blk_dn_sub_on_recv_def
    by (rule sound_check_scs [OF assms(1)])
      (use assms(1) dn blk rew in \<open>auto simp: Let_def csdo_sound_def [where p = "(Some _, _)"] core_def kept_def dn_ok_def busy_def
        csdo_assert_def membuf_wf_def membuf_size_def\<close>)
qed

lemma sound_reserve_up:
  assumes "core s" "kept t s" "membuf_size (cs_buf s) = 0" "cs_size s < 2 ^ 32" "busy (cs_state t)"
    "\<And>s'. core s' \<Longrightarrow> kept t s' \<Longrightarrow> cs_size s' = cs_size s \<Longrightarrow> membuf_size (cs_buf s') = 0 \<Longrightarrow> cs_size s \<le> membuf_capacity (cs_buf s')
       \<Longrightarrow> csdo_sound t (k s')"
    "\<And>s'. core s' \<Longrightarrow> kept t s' \<Longrightarrow> membuf_size (cs_buf s') = 0 \<Longrightarrow> inside (cs_state t) s' = inside (cs_state t) t"
    "inside (cs_state t) t"
  shows "csdo_sound t (reserve_up H k s)"
proof (cases "cs_size s = 0")
  case True
  then show ?thesis using assms(1-4) assms(6) [of s] by (simp add: reserve_up_def)
next
  case False
  show ?thesis
  proof (cases "membuf_reserve H (cs_buf s) (cs_size s)")
    case Reserve_hangs
    have "core (s\<lparr>cs_hung := True\<rparr>)" "kept t (s\<lparr>cs_hung := True\<rparr>)"
      using assms(1,2) by (simp_all add: core_def kept_def)
    then show ?thesis using Reserve_hangs False assms(3,7,8) by (simp add: reserve_up_def csdo_sound_def)
  next
    case Reserve_fails
    then show ?thesis using False assms(1,2) by (simp add: reserve_up_def)
  next
    case (Reserved b)
    have wf: "membuf_wf (cs_buf s)" using assms(1) by (simp add: core_def)
    note b = membuf_reserve_props [OF Reserved wf] membuf_reserve_bound [OF Reserved]
    have "core (s\<lparr>cs_buf := b\<rparr>)" "kept t (s\<lparr>cs_buf := b\<rparr>)" "membuf_size b = 0" "cs_size s \<le> membuf_capacity b"
      using assms(1-4) b by (simp_all add: core_def kept_def)
    then show ?thesis using assms(6) [of "s\<lparr>cs_buf := b\<rparr>"] False Reserved by (simp add: reserve_up_def)
  qed
qed

lemma inside_ini: "st \<in> {CS_up_ini, CS_blk_up_ini} \<Longrightarrow> inside st s \<longleftrightarrow> membuf_size (cs_buf s) = 0"
  by (auto simp: inside_def)

lemma exp_get_le: "CO_SDO_INI_SIZE_EXP_GET cs \<le> 4" "CO_SDO_SEG_SIZE_GET cs \<le> 7"
  by (simp_all add: CO_SDO_INI_SIZE_EXP_GET_def CO_SDO_SEG_SIZE_GET_def)

lemma core_write:
  assumes "core s" "length src \<le> membuf_capacity (cs_buf s)"
  shows "core (s\<lparr>cs_buf := membuf_write src (cs_buf s)\<rparr>)"
  using assms membuf_write_held(2,4) by (auto simp: core_def)

text \<open>A frame as the CAN network hands it to a receiver.\<close>

definition frame_ok :: "can_msg \<Rightarrow> bool" where
  "frame_ok m \<longleftrightarrow> length (cm_data m) = 8 \<and> msg_len m \<le> 8"

lemma sound_up_ini:
  assumes "core s" "cs_state s \<in> {CS_up_ini, CS_blk_up_ini}" "inside (cs_state s) s" "frame_ok m"
  shows "csdo_sound s (co_csdo_up_ini_on_recv H m s)"
proof -
  have empty: "membuf_size (cs_buf s) = 0" and b: "busy (cs_state s)" using assms inside_ini by (auto simp: busy_def)
  have pad: "length (msg_pad m) = 4" by (simp add: msg_pad_def)
  have sz: "unat (ldle_u32 d) < 2 ^ 32" for d using unat_u32_lt [of "ldle_u32 d"] by simp
  have exp: "CO_SDO_INI_SIZE_EXP_GET x < 4294967296" "msg_len m - 4 < 4294967296" for x
    using exp_get_le(1) [of x] assms(4) by (auto simp: frame_ok_def)
  show ?thesis
    unfolding co_csdo_up_ini_on_recv_def Let_def
  proof (rule sound_check_scs [OF assms(1)], rule sound_check_object [OF assms(1) kept_refl], rule sound_reserve_up, goal_cases)
    case 1 show ?case using assms(1) by (simp add: core_def)
  next
    case 2 show ?case by (simp add: kept_def)
  next
    case 3 show ?case using empty by simp
  next
    case 4 show ?case using sz exp by simp
  next
    case 5 show ?case by (rule b)
  next
    case (6 s')
    have cap: "membuf_capacity (cs_buf s') \<ge> length (take (cs_size s') (msg_pad m))" using 6 by simp
    have "csdo_sound s (co_csdo_abort_ind 0 (s'\<lparr>cs_buf := membuf_write (take (cs_size s') (msg_pad m)) (cs_buf s')\<rparr>))"
      by (rule sound_abort) (use 6 core_write [OF _ cap] in \<open>simp_all add: kept_def\<close>)
    moreover have "csdo_sound s (Some CS_up_seg, co_csdo_send_up_seg_req (csdo_arm s'))"
      using 6 sz exp
      by (auto simp: csdo_sound_def co_csdo_send_up_seg_req_def csdo_send_def csdo_arm_def core_def kept_def up_ok_def busy_def)
    ultimately show ?case by simp
  next
    case (7 s') show ?case using inside_ini [OF assms(2)] 7 empty by simp
  next
    case 8 show ?case by (rule assms(3))
  qed
qed

lemma sound_up_seg:
  assumes "core s" "up_ok s" "frame_ok m"
  shows "csdo_sound s (co_csdo_up_seg_on_recv m s)"
  unfolding co_csdo_up_seg_on_recv_def
proof (rule sound_check_scs [OF assms(1)], goal_cases)
  case 1
  let ?n = "CO_SDO_SEG_SIZE_GET (msg_cs m)" and ?b = "cs_buf s"
  let ?src = "take ?n (drop 1 (cm_data m))"
  let ?s = "s\<lparr>cs_buf := membuf_write ?src ?b\<rparr>"
  have wf: "membuf_wf ?b" using assms(1) by (simp add: core_def)
  have "membuf_size ?b + ?n < 4294967296"
    using up_ok_bound [OF assms(1,2)] assms(2) exp_get_le(2) [of "msg_cs m"] by (simp add: up_ok_def)
  show ?case
  proof (cases "membuf_size ?b + ?n \<le> cs_size s")
    case True
    then have cap: "?n \<le> membuf_capacity ?b" using assms(2) by (auto simp: up_ok_def)
    have len: "length ?src = ?n" using assms(3) exp_get_le(2) [of "msg_cs m"] by (simp add: frame_ok_def)
    have w: "membuf_size (membuf_write ?src ?b) = membuf_size ?b + ?n"
      "membuf_capacity (membuf_write ?src ?b) = membuf_capacity ?b - ?n"
      using membuf_write_held(3,5) [OF wf, of ?src] cap len by simp_all
    have "core ?s" using core_write [OF assms(1)] cap len by simp
    moreover have "up_ok ?s" using assms(2) True w by (simp add: up_ok_def)
    moreover have "kept s ?s" by (simp add: kept_def)
    ultimately have "csdo_sound s (co_csdo_abort_res ac ?s)" "csdo_sound s (co_csdo_abort_ind ac ?s)"
      "csdo_sound s (Some CS_up_seg, co_csdo_send_up_seg_req (csdo_arm ?s))" for ac
      by (auto simp: csdo_sound_def [where p = "(Some _, _)"] co_csdo_send_up_seg_req_def csdo_send_def csdo_arm_def core_def kept_def up_ok_def busy_def)
    moreover have "csdo_assert (membuf_capacity ?b \<ge> ?n) s = s" using cap by (simp add: csdo_assert_def)
    ultimately show ?thesis
      using assms(1,2) by (auto simp: Let_def csdo_sound_def [where p = "(Some _, s)"] busy_def)
  next
    case False
    then show ?thesis using \<open>membuf_size ?b + ?n < 4294967296\<close> assms(1,2)
      by (simp add: Let_def csdo_sound_def [where p = "(Some _, s)"] busy_def)
  qed
qed

lemma sound_blk_up_ini:
  assumes "core s" "cs_state s = CS_blk_up_ini" "inside (cs_state s) s" "frame_ok m"
  shows "csdo_sound s (co_csdo_blk_up_ini_on_recv H m s)"
proof -
  have empty: "membuf_size (cs_buf s) = 0" and b: "busy (cs_state s)"
    using assms inside_ini [of CS_blk_up_ini s] by (auto simp: busy_def)
  let ?crc = "msg_cs m AND CO_SDO_BLK_CRC \<noteq> 0"
  let ?sz = "\<lambda>s. s\<lparr>cs_size := if msg_cs m AND CO_SDO_BLK_SIZE_IND \<noteq> 0 then unat (ldle_u32 (msg_pad m)) else 0\<rparr>"
  have "csdo_sound s (check_object m (\<lambda>s. reserve_up H (\<lambda>s. (Some CS_blk_up_sub, co_csdo_send_start_up_req (csdo_arm (s\<lparr>cs_ackseq := 0\<rparr>))))
      (?sz s)) (s\<lparr>cs_crc := ?crc\<rparr>))"
  proof (rule sound_check_object, goal_cases)
    case 3
    show ?case
    proof (rule sound_reserve_up, goal_cases)
      case 4 show ?case using unat_u32_lt [of "ldle_u32 (msg_pad m)"] by simp
    next
      case (6 s')
      then show ?case
        by (auto simp: csdo_sound_def co_csdo_send_start_up_req_def csdo_send_def csdo_arm_def core_def kept_def up_ok_def busy_def)
    next
      case (7 s') then show ?case using inside_ini [of CS_blk_up_ini] assms(2) empty by simp
    qed (use assms empty b in \<open>simp_all add: core_def kept_def\<close>)
  qed (use assms(1) in \<open>simp_all add: core_def kept_def\<close>)
  moreover have "csdo_sound s (None, co_csdo_send_blk_up_ini_req (csdo_arm (s\<lparr>cs_blksize := n\<rparr>)))" for n
    using assms(1,2) empty inside_ini [of CS_blk_up_ini]
    by (simp add: csdo_sound_def co_csdo_send_blk_up_ini_req_def csdo_send_def csdo_arm_def core_def kept_def)
  moreover have "csdo_sound s (co_csdo_up_ini_on_recv H m s)" using sound_up_ini assms by simp
  ultimately show ?thesis using assms(1) by (simp add: co_csdo_blk_up_ini_on_recv_def Let_def)
qed

lemma sound_blk_up_sub:
  assumes "core s" "up_ok s" "frame_ok m"
  shows "csdo_sound s (co_csdo_blk_up_sub_on_recv m s)"
proof -
  let ?b = "cs_buf s"
  define k where "k = min (szt_diff (cs_size s) (membuf_size ?b)) 7"
  define src where "src = take k (drop 1 (cm_data m))"
  have wf: "membuf_wf ?b" using assms(1) by (simp add: core_def)
  have k: "membuf_size ?b + k \<le> cs_size s" "k \<le> membuf_capacity ?b" "k \<le> 7"
    using assms(2) up_ok_bound [OF assms(1,2)] by (auto simp: up_ok_def k_def)
  have len: "length src = k" using assms(3) k(3) by (simp add: frame_ok_def src_def)
  define w where "w = membuf_write src ?b"
  have "membuf_size w = membuf_size ?b + k" "membuf_capacity w = membuf_capacity ?b - k"
    using membuf_write_held(3,5) [OF wf, of src] k(2) by (simp_all only: len w_def)
  moreover have "core (s\<lparr>cs_buf := w\<rparr>)" using core_write [OF assms(1), of src] k(2) by (simp only: len w_def)
  ultimately have ok: "core (s\<lparr>cs_ackseq := j, cs_buf := w\<rparr>)" "up_ok (s\<lparr>cs_ackseq := j, cs_buf := w\<rparr>)"
    "kept s (s\<lparr>cs_ackseq := j, cs_buf := w\<rparr>)" "core (s\<lparr>cs_ackseq := j\<rparr>)" "kept s (s\<lparr>cs_ackseq := j\<rparr>)" for j
    using assms(1,2) k by (auto simp: core_def up_ok_def kept_def)
  have ackn: "csdo_sound s (Some (if f then CS_blk_up_end else CS_blk_up_sub),
      csdo_arm (if P then (co_csdo_send_blk_up_sub_res t)\<lparr>cs_ackseq := 0\<rparr> else t))" if "core t" "up_ok t" "kept s t" for t f P
    using that by (auto simp: csdo_sound_def co_csdo_send_blk_up_sub_res_def csdo_send_def csdo_arm_def core_def kept_def up_ok_def busy_def)
  have e: "csdo_assert (cs_size s \<ge> membuf_size ?b) t = t" "csdo_assert (membuf_capacity ?b \<ge> k) t = t" if "\<not> cs_broken t" for t :: co_csdo
    using k that by (simp_all add: csdo_assert_def)
  have broken: "\<not> cs_broken (s\<lparr>cs_ackseq := j\<rparr>)" for j using assms(1) by (simp add: core_def)
  have buf: "cs_buf (s\<lparr>cs_ackseq := j\<rparr>) = ?b" for j by simp
  show ?thesis
    unfolding co_csdo_blk_up_sub_on_recv_def Let_def k_def [symmetric] src_def [symmetric] e(1) [OF broken] buf e(2) [OF broken] w_def [symmetric]
    by (intro sound_if sound_abort ackn ok assms(1,2) kept_refl)
qed

lemma sound_blk_up_end:
  assumes "core s"
  shows "csdo_sound s (co_csdo_blk_up_end_on_recv m s)"
  unfolding co_csdo_blk_up_end_on_recv_def
  by (rule sound_check_scs [OF assms]) (use assms in \<open>simp add: co_csdo_send_blk_up_end_res_def\<close>)

lemma sound_recv:
  assumes "csdo_inv s" "cs_state s \<noteq> CS_stopped" "frame_ok m"
  shows "csdo_sound s (csdo_on_recv H (cs_state s) m s)"
proof (cases "cs_state s")
  case CS_abort
  then show ?thesis using assms by (simp add: csdo_inv_def inside_def)
qed (use assms in \<open>simp_all add: csdo_inv_def inside_def sound_wait sound_dn_ini sound_dn_seg sound_up_ini sound_up_seg sound_blk_dn_ini
  sound_blk_dn_sub sound_blk_dn_end sound_blk_up_ini sound_blk_up_sub sound_blk_up_end\<close>)

section \<open>Entering a state\<close>

lemma dn_take_simps:
  "core s \<Longrightarrow> membuf_size (cs_dn_buf s) + n \<le> length (mb_mem (cs_dn_buf s)) \<Longrightarrow> core (snd (dn_take n s))"
  "kept t (snd (dn_take n s)) = kept t s" "dn_ok (snd (dn_take n s)) = dn_ok s"
  "membuf_size (cs_dn_buf (snd (dn_take n s))) = membuf_size (cs_dn_buf s) + n"
  by (simp_all add: dn_take_def Let_def core_def membuf_wf_def membuf_size_def kept_def dn_ok_def)

lemma sound_dn_seg_enter:
  assumes "core s" "dn_ok s" "cs_state s = CS_dn_seg"
  shows "csdo_sound s (co_csdo_dn_seg_on_enter s)"
proof -
  let ?s = "csdo_arm s"
  let ?t = "?s\<lparr>cs_toggle := cs_toggle ?s XOR CO_SDO_SEG_TOGGLE\<rparr>"
  have le: "membuf_size (cs_dn_buf s) \<le> cs_size s" "cs_size s = length (mb_mem (cs_dn_buf s))" "cs_size s < 2 ^ 32"
    using assms by (auto simp: core_def dn_ok_def membuf_wf_def membuf_size_def)
  have buf: "cs_dn_buf ?t = cs_dn_buf s" by (simp add: csdo_arm_def)
  have t: "core ?t" "kept s ?t" "dn_ok ?t" using assms(1,2) by (auto simp: csdo_arm_def core_def kept_def dn_ok_def)
  have "csdo_sound s (None, co_csdo_send_dn_seg_req (min (cs_size s - membuf_size (cs_dn_buf s)) 7) f ?s)" for f
    using dn_take_simps(1) [OF t(1), of "min (cs_size s - membuf_size (cs_dn_buf s)) 7"] t le assms(3)
    by (simp add: buf co_csdo_send_dn_seg_req_def Let_def split_beta csdo_sound_def inside_def dn_take_simps)
  moreover have "szt_diff (cs_size s) (membuf_size (cs_dn_buf s)) = cs_size s - membuf_size (cs_dn_buf s)"
    using le by simp
  ultimately show ?thesis using assms(1) by (simp add: co_csdo_dn_seg_on_enter_def Let_def)
qed

text \<open>One segment of a block, and a whole block of them.\<close>

lemma blk_dn_segment:
  assumes "core s" "dn_ok s"
  shows "core (co_csdo_send_blk_dn_sub_req i s) \<and> dn_ok (co_csdo_send_blk_dn_sub_req i s) \<and> kept s (co_csdo_send_blk_dn_sub_req i s)
    \<and> cs_size (co_csdo_send_blk_dn_sub_req i s) = cs_size s \<and> cs_blksize (co_csdo_send_blk_dn_sub_req i s) = cs_blksize s
    \<and> membuf_size (cs_dn_buf (co_csdo_send_blk_dn_sub_req i s)) = min (membuf_size (cs_dn_buf s) + 7) (cs_size s)"
proof -
  let ?n = "cs_size s - membuf_size (cs_dn_buf s)"
  have le: "membuf_size (cs_dn_buf s) \<le> cs_size s" "cs_size s = length (mb_mem (cs_dn_buf s))" "cs_size s < 2 ^ 32"
    using assms by (auto simp: core_def dn_ok_def membuf_wf_def membuf_size_def)
  then have n: "szt_diff (cs_size s) (membuf_size (cs_dn_buf s)) = ?n" by simp
  have "membuf_size (cs_dn_buf s) + min ?n 7 \<le> length (mb_mem (cs_dn_buf s))" using le by simp
  from dn_take_simps(1) [OF assms(1) this] show ?thesis
    using le assms(2)
    by (auto simp: co_csdo_send_blk_dn_sub_req_def n Let_def split_beta dn_take_simps csdo_send_def dn_take_def core_def dn_ok_def kept_def
        membuf_size_def min_def)
qed

lemma blk_dn_segments:
  assumes "core s" "dn_ok s"
  shows "core (fold co_csdo_send_blk_dn_sub_req is s) \<and> dn_ok (fold co_csdo_send_blk_dn_sub_req is s)
    \<and> kept s (fold co_csdo_send_blk_dn_sub_req is s) \<and> cs_size (fold co_csdo_send_blk_dn_sub_req is s) = cs_size s
    \<and> cs_blksize (fold co_csdo_send_blk_dn_sub_req is s) = cs_blksize s
    \<and> membuf_size (cs_dn_buf (fold co_csdo_send_blk_dn_sub_req is s)) = min (membuf_size (cs_dn_buf s) + 7 * length is) (cs_size s)"
  using assms
proof (induction "is" arbitrary: s)
  case Nil
  then show ?case by (auto simp: core_def dn_ok_def membuf_wf_def membuf_size_def)
next
  case (Cons i "is")
  note one = blk_dn_segment [OF Cons.prems, of i]
  note rest = Cons.IH [of "co_csdo_send_blk_dn_sub_req i s"]
  have "kept s (fold co_csdo_send_blk_dn_sub_req is (co_csdo_send_blk_dn_sub_req i s))"
    using one rest by (simp add: kept_def)
  then show ?case using one rest by (simp add: min_def)
qed

lemma block_fits:
  assumes "b \<le> (N - c + 6) div 7" "c \<le> (N :: nat)"
  shows "b \<le> (min (c + 7 * b) N + 6) div 7"
proof -
  have "7 * b \<le> N - c + 6" using assms(1) by (simp add: less_eq_div_iff_mult_less_eq mult.commute)
  then have "7 * b \<le> min (c + 7 * b) N + 6" using assms(2) by simp
  then show ?thesis by (simp add: less_eq_div_iff_mult_less_eq mult.commute)
qed

lemma sound_blk_dn_sub_enter:
  assumes "core s" "dn_ok s" "cs_state s = CS_blk_dn_sub"
  shows "csdo_sound s (co_csdo_blk_dn_sub_on_enter s)"
proof -
  let ?n = "cs_size s - membuf_size (cs_dn_buf s)"
  define t where "t = csdo_arm (s\<lparr>cs_blksize := min ((?n + 6) div 7) (cs_blksize s)\<rparr>)"
  have le: "membuf_size (cs_dn_buf s) \<le> cs_size s" "cs_size s = length (mb_mem (cs_dn_buf s))" "cs_size s < 2 ^ 32"
    using assms by (auto simp: core_def dn_ok_def membuf_wf_def membuf_size_def)
  then have n: "szt_diff (cs_size s) (membuf_size (cs_dn_buf s)) = ?n" by simp
  have t: "core t" "dn_ok t" "kept s t" "cs_size t = cs_size s" "cs_dn_buf t = cs_dn_buf s" "cs_blksize t = min ((?n + 6) div 7) (cs_blksize s)"
    using assms(1,2) by (auto simp: t_def csdo_arm_def core_def dn_ok_def kept_def)
  define f where "f = fold co_csdo_send_blk_dn_sub_req [1..<Suc (cs_blksize t)] t"
  have f: "core f" "dn_ok f" "kept t f" "cs_blksize f = cs_blksize t"
    "membuf_size (cs_dn_buf f) = min (membuf_size (cs_dn_buf s) + 7 * cs_blksize t) (cs_size s)"
    using blk_dn_segments [OF t(1,2), of "[1..<Suc (cs_blksize t)]"] by (simp_all only: f_def t length_upt diff_Suc_1)
  have "cs_blksize t \<le> (min (membuf_size (cs_dn_buf s) + 7 * cs_blksize t) (cs_size s) + 6) div 7"
    by (rule block_fits) (simp_all add: t(6) le(1))
  then have "inside CS_blk_dn_sub f" using f by (simp only: inside_def entry.simps csdo_state.distinct simp_thms)
  moreover have "kept s f" using f(3) t(3) by (simp only: kept_def simp_thms)
  ultimately have "csdo_sound s (None, f)" using f(1) assms(3) by (simp only: csdo_sound_def fst_conv snd_conv option.case simp_thms)
  moreover have "csdo_sound s (Some CS_blk_dn_end, co_csdo_send_blk_dn_end_req t)"
  proof -
    have "co_crc 0 (Some (mb_mem (cs_dn_buf t))) (cs_size t) \<noteq> None" using co_crc_run le(2) t by simp
    then show ?thesis using t by (auto simp: csdo_sound_def co_csdo_send_blk_dn_end_req_def Let_def busy_def split: option.splits)
  qed
  ultimately show ?thesis using assms(1) by (simp add: co_csdo_blk_dn_sub_on_enter_def n t_def [symmetric] f_def Let_def del: upt_Suc)
qed

lemma sound_on_enter:
  assumes "core s" "entry st s" "cs_state s = st" "st \<noteq> CS_abort"
  shows "csdo_sound s (csdo_on_enter st s)"
  using assms by (cases st) (simp_all add: sound_dn_seg_enter sound_blk_dn_sub_enter, simp_all add: csdo_sound_def inside_def)

lemma csdo_enter_abort:
  assumes "cs_state s \<noteq> CS_abort"
  shows "co_csdo_enter (Some CS_abort) s = co_csdo_abort_on_leave (s\<lparr>cs_timer := False, cs_state := CS_wait\<rparr>)"
  using assms by (simp add: csdo_on_leave_def co_csdo_abort_on_enter_def)

text \<open>Every request accepted so far is confirmed or still pending, in order.\<close>

definition requests :: "co_csdo \<Rightarrow> nat list" where
  "requests s = map con_id (cs_confirmed s) @ pending s"

lemma requests_update [simp]: "requests (s\<lparr>cs_state := st\<rparr>) = requests s" "pending (s\<lparr>cs_state := st\<rparr>) = pending s"
  by (simp_all add: requests_def pending_def cong: option.case_cong)

lemma kept_requests: "kept s s' \<Longrightarrow> requests s' = requests s"
  by (simp add: kept_def requests_def pending_def cong: option.case_cong)

lemma abort_on_leave_inv:
  assumes "core s"
  shows "csdo_inv (co_csdo_abort_on_leave (s\<lparr>cs_timer := False, cs_state := CS_wait\<rparr>))
    \<and> requests (co_csdo_abort_on_leave (s\<lparr>cs_timer := False, cs_state := CS_wait\<rparr>)) = requests s"
  using assms
  by (auto simp: co_csdo_abort_on_leave_def Let_def csdo_inv_def core_def inside_def busy_def pending_def requests_def split: option.splits)

lemma enter_inv:
  assumes "core s" "cs_state s \<noteq> CS_abort"
    "case st of None \<Rightarrow> inside (cs_state s) s \<and> (\<not> busy (cs_state s) \<longrightarrow> pending s = []) | Some st \<Rightarrow> entry st s \<and> busy st"
  shows "csdo_inv (co_csdo_enter st s) \<and> requests (co_csdo_enter st s) = requests s"
  using assms
proof (induction st s rule: co_csdo_enter.induct)
  case (1 s)
  then show ?case by (simp add: csdo_inv_def)
next
  case (2 st s)
  show ?case
  proof (cases "st = CS_abort")
    case True
    then show ?thesis using csdo_enter_abort [OF 2(3)] abort_on_leave_inv [OF 2(2)] by simp
  next
    case False
    let ?s = "s\<lparr>cs_state := st\<rparr>"
    have core: "core ?s" using 2(2) by (simp add: core_def)
    have "entry st ?s" using 2(4) by (cases st) (auto simp: dn_ok_def up_ok_def)
    then have snd: "csdo_sound ?s (csdo_on_enter st ?s)" using sound_on_enter [OF core] False by simp
    obtain st' s' where p: "csdo_on_enter st ?s = (st', s')" by fastforce
    have lv: "csdo_on_leave (cs_state s) ?s = ?s" using 2(3) by (simp add: csdo_on_leave_def)
    have p': "(st', s') = csdo_on_enter st (csdo_on_leave (cs_state s) ?s)" by (simp only: lv p)
    have s': "core s'" "cs_state s' = st" "kept ?s s'"
      "case st' of None \<Rightarrow> inside st s' | Some st'' \<Rightarrow> entry st'' s' \<and> busy st''"
      using snd by (simp_all add: p csdo_sound_def kept_def split: option.splits)
    have pend: "case st' of None \<Rightarrow> inside (cs_state s') s' \<and> (\<not> busy (cs_state s') \<longrightarrow> pending s' = []) | Some st'' \<Rightarrow> entry st'' s' \<and> busy st''"
      using s'(2,4) 2(4) by (cases st') simp_all
    have "csdo_inv (co_csdo_enter st' s') \<and> requests (co_csdo_enter st' s') = requests s'"
      by (rule 2(1) [OF p' s'(1) _ pend]) (use s'(2) False in simp)
    moreover have "requests s' = requests s" using kept_requests [OF s'(3)] by simp
    ultimately show ?thesis by (simp add: lv p)
  qed
qed

lemma sound_enter:
  assumes "csdo_inv s" "csdo_sound s p"
  shows "csdo_inv (csdo_enter p) \<and> requests (csdo_enter p) = requests s"
proof -
  have "requests (snd p) = requests s" using assms(2) kept_requests by (auto simp: csdo_sound_def)
  moreover have "csdo_inv (co_csdo_enter (fst p) (snd p)) \<and> requests (co_csdo_enter (fst p) (snd p)) = requests (snd p)"
    by (rule enter_inv) (use assms in \<open>auto simp: csdo_sound_def csdo_inv_def kept_def inside_def pending_def split: option.splits\<close>)
  ultimately show ?thesis by (simp add: csdo_enter_def)
qed

section \<open>Events\<close>

text \<open>What the application, the network and the timer do to the client.\<close>

datatype csdo_event = Ev_dn_req u16 u8 bytes nat | Ev_up_req u16 u8 nat | Ev_blk_dn_req u16 u8 bytes nat | Ev_blk_up_req u16 u8 u8 nat
  | Ev_frame can_msg | Ev_timer | Ev_abort u32 | Ev_timeout int | Ev_stop | Ev_start co_sdo_par | Ev_par u8 u32 u32

fun csdo_exec :: "heap \<Rightarrow> csdo_event \<Rightarrow> co_csdo \<Rightarrow> co_csdo" where
  "csdo_exec H (Ev_dn_req idx subidx d i) s = (case co_csdo_dn_req idx subidx d (Some i) s of None \<Rightarrow> s | Some s' \<Rightarrow> s')"
| "csdo_exec H (Ev_up_req idx subidx i) s = (case co_csdo_up_req idx subidx (Some i) s of None \<Rightarrow> s | Some s' \<Rightarrow> s')"
| "csdo_exec H (Ev_blk_dn_req idx subidx d i) s = (case co_csdo_blk_dn_req idx subidx d (Some i) s of None \<Rightarrow> s | Some s' \<Rightarrow> s')"
| "csdo_exec H (Ev_blk_up_req idx subidx pst i) s = (case co_csdo_blk_up_req idx subidx pst (Some i) s of None \<Rightarrow> s | Some s' \<Rightarrow> s')"
| "csdo_exec H (Ev_frame m) s = co_csdo_recv H m s"
| "csdo_exec H Ev_timer s = co_csdo_timer s"
| "csdo_exec H (Ev_abort ac) s = co_csdo_abort_req ac s"
| "csdo_exec H (Ev_timeout t) s = co_csdo_set_timeout t s"
| "csdo_exec H Ev_stop s = co_csdo_stop s"
| "csdo_exec H (Ev_start par) s = co_csdo_start par s"
| "csdo_exec H (Ev_par sub v old) s = snd (co_1280_dn_ind sub v old s)"

text \<open>A stopped client receives no frames, a timer that is not running does not expire, and a call that hangs is the last.\<close>

fun csdo_possible :: "csdo_event \<Rightarrow> co_csdo \<Rightarrow> bool" where
  "csdo_possible (Ev_frame m) s \<longleftrightarrow> \<not> cs_hung s \<and> frame_ok m \<and> cs_state s \<noteq> CS_stopped"
| "csdo_possible Ev_timer s \<longleftrightarrow> \<not> cs_hung s \<and> cs_timer s"
| "csdo_possible (Ev_dn_req idx subidx d i) s \<longleftrightarrow> \<not> cs_hung s \<and> length d < 2 ^ 32"
| "csdo_possible (Ev_blk_dn_req idx subidx d i) s \<longleftrightarrow> \<not> cs_hung s \<and> length d < 2 ^ 32"
| "csdo_possible _ s \<longleftrightarrow> \<not> cs_hung s"

text \<open>The request an event makes, when the client accepts it.\<close>

definition accepts :: "co_csdo \<Rightarrow> bool" where
  "accepts s \<longleftrightarrow> co_csdo_is_valid (cs_par s) \<and> co_csdo_is_idle s"

fun csdo_posted :: "csdo_event \<Rightarrow> co_csdo \<Rightarrow> nat list" where
  "csdo_posted (Ev_dn_req idx subidx d i) s = (if accepts s then [i] else [])"
| "csdo_posted (Ev_up_req idx subidx i) s = (if accepts s then [i] else [])"
| "csdo_posted (Ev_blk_dn_req idx subidx d i) s = (if accepts s then [i] else [])"
| "csdo_posted (Ev_blk_up_req idx subidx pst i) s = (if accepts s then [i] else [])"
| "csdo_posted _ s = []"

inductive csdo_run :: "nat list \<Rightarrow> co_csdo \<Rightarrow> bool" where
  initial: "csdo_run [] (co_csdo_init par)"
| event: "csdo_run ids s \<Longrightarrow> csdo_possible ev s \<Longrightarrow> csdo_run (ids @ csdo_posted ev s) (csdo_exec H ev s)"

lemma enter_plain:
  assumes "st \<in> {CS_dn_ini, CS_up_ini, CS_blk_dn_ini, CS_blk_up_ini, CS_wait, CS_stopped}" "cs_state s \<noteq> CS_abort"
  shows "co_csdo_enter (Some st) s = s\<lparr>cs_state := st\<rparr>"
  using assms by (auto simp: csdo_on_leave_def)

lemma idle_requests: "csdo_inv s \<Longrightarrow> co_csdo_is_idle s \<Longrightarrow> requests s = map con_id (cs_confirmed s) \<and> \<not> cs_timer s"
  by (auto simp: csdo_inv_def co_csdo_is_idle_def busy_def requests_def inside_def)

lemma dn_req_inv:
  assumes "csdo_inv s" "length d < 2 ^ 32" "co_csdo_dn_req idx subidx d (Some i) s = Some s'"
  shows "csdo_inv s' \<and> requests s' = requests s @ [i]"
proof -
  let ?s = "(csdo_reset idx subidx (length d) s)\<lparr>cs_dn_buf := membuf_init d, cs_dn_con := Some i, cs_up_con := None\<rparr>"
  have idle: "co_csdo_is_idle s" and s': "s' = (let s1 = csdo_arm ?s;
      s2 = (if cs_size s1 \<noteq> 0 \<and> cs_size s1 \<le> 4 then co_csdo_send_dn_exp_req s1 else co_csdo_send_dn_ini_req s1)
      in co_csdo_enter (Some CS_dn_ini) s2)"
    using assms(3) by (auto simp: co_csdo_dn_req_def co_csdo_dn_ind_def split: if_splits)
  show ?thesis
    using assms(1,2) idle idle_requests [OF assms(1) idle]
    by (auto simp: s' Let_def csdo_reset_def csdo_arm_def co_csdo_send_dn_exp_req_def co_csdo_send_dn_ini_req_def dn_take_def csdo_send_def
        co_csdo_is_idle_def csdo_inv_def core_def inside_def dn_ok_def busy_def requests_def pending_def membuf_wf_def membuf_init_def
        enter_plain simp del: co_csdo_enter.simps)
qed

lemma up_req_inv:
  assumes "csdo_inv s" "co_csdo_up_req idx subidx (Some i) s = Some s'"
  shows "csdo_inv s' \<and> requests s' = requests s @ [i]"
proof -
  let ?s = "(csdo_reset idx subidx 0 s)\<lparr>cs_buf := membuf_clear (cs_buf s), cs_dn_con := None, cs_up_con := Some i\<rparr>"
  have idle: "co_csdo_is_idle s" and s': "s' = co_csdo_enter (Some CS_up_ini) (co_csdo_send_up_ini_req (csdo_arm ?s))"
    using assms(2) by (auto simp: co_csdo_up_req_def co_csdo_up_ind_def split: if_splits)
  show ?thesis
    using assms(1) idle idle_requests [OF assms(1) idle]
    by (auto simp: s' csdo_reset_def csdo_arm_def co_csdo_send_up_ini_req_def csdo_send_def co_csdo_is_idle_def csdo_inv_def core_def
        inside_def busy_def requests_def pending_def enter_plain simp del: co_csdo_enter.simps)
qed

lemma blk_dn_req_inv:
  assumes "csdo_inv s" "length d < 2 ^ 32" "co_csdo_blk_dn_req idx subidx d (Some i) s = Some s'"
  shows "csdo_inv s' \<and> requests s' = requests s @ [i]"
proof -
  let ?s = "(csdo_reset idx subidx (length d) s)\<lparr>cs_dn_buf := membuf_init d, cs_dn_con := Some i, cs_up_con := None\<rparr>"
  have idle: "co_csdo_is_idle s" and s': "s' = co_csdo_enter (Some CS_blk_dn_ini) (co_csdo_send_blk_dn_ini_req (csdo_arm ?s))"
    using assms(3) by (auto simp: co_csdo_blk_dn_req_def co_csdo_dn_ind_def split: if_splits)
  show ?thesis
    using assms(1,2) idle idle_requests [OF assms(1) idle]
    by (auto simp: s' csdo_reset_def csdo_arm_def co_csdo_send_blk_dn_ini_req_def csdo_send_def co_csdo_is_idle_def csdo_inv_def core_def
        inside_def dn_ok_def busy_def requests_def pending_def membuf_wf_def membuf_init_def enter_plain simp del: co_csdo_enter.simps)
qed

lemma blk_up_req_inv:
  assumes "csdo_inv s" "co_csdo_blk_up_req idx subidx pst (Some i) s = Some s'"
  shows "csdo_inv s' \<and> requests s' = requests s @ [i]"
proof -
  let ?s = "(csdo_reset idx subidx 0 s)\<lparr>cs_buf := membuf_clear (cs_buf s), cs_dn_con := None, cs_up_con := Some i\<rparr>"
  have idle: "co_csdo_is_idle s" and s': "s' = co_csdo_enter (Some CS_blk_up_ini)
      (co_csdo_send_blk_up_ini_req (csdo_arm (?s\<lparr>cs_pst := pst, cs_blksize := CO_SDO_MAX_SEQNO\<rparr>)))"
    using assms(2) by (auto simp: co_csdo_blk_up_req_def co_csdo_up_ind_def split: if_splits)
  show ?thesis
    using assms(1) idle idle_requests [OF assms(1) idle]
    by (auto simp: s' csdo_reset_def csdo_arm_def co_csdo_send_blk_up_ini_req_def csdo_send_def co_csdo_is_idle_def csdo_inv_def core_def
        inside_def busy_def requests_def pending_def enter_plain simp del: co_csdo_enter.simps)
qed

lemma recv_inv:
  assumes "csdo_inv s" "cs_state s \<noteq> CS_stopped" "frame_ok m"
  shows "csdo_inv (co_csdo_recv H m s) \<and> requests (co_csdo_recv H m s) = requests s"
  using sound_enter [OF assms(1) sound_recv [OF assms]] assms(1) by (simp add: co_csdo_recv_def co_csdo_emit_recv_def)

lemma abort_req_inv:
  assumes "csdo_inv s"
  shows "csdo_inv (co_csdo_abort_req ac s) \<and> requests (co_csdo_abort_req ac s) = requests s
    \<and> (cs_state s \<noteq> CS_stopped \<longrightarrow> cs_state (co_csdo_abort_req ac s) = CS_wait)"
proof (cases "busy (cs_state s)")
  case True
  have na: "cs_state s \<noteq> CS_abort" using assms by (simp add: csdo_inv_def inside_def)
  have on: "csdo_on_abort (cs_state s) ac s = co_csdo_abort_res ac s" using True na by (cases "cs_state s") (simp_all add: busy_def)
  have "core s" using assms by (simp add: csdo_inv_def)
  then have "csdo_sound s (co_csdo_abort_res ac s)" by simp
  from sound_enter [OF assms this] show ?thesis
    using na csdo_enter_abort [of "(co_csdo_send_abort ac s)\<lparr>cs_ac := ac\<rparr>"]
    by (simp add: co_csdo_abort_req_def co_csdo_emit_abort_def on csdo_enter_def co_csdo_abort_res_def co_csdo_abort_ind_def
        co_csdo_send_abort_def csdo_send_def co_csdo_abort_on_leave_def Let_def split: option.splits)
next
  case False
  then have "co_csdo_abort_req ac s = s" by (auto simp: busy_def co_csdo_abort_req_def co_csdo_emit_abort_def csdo_enter_def)
  then show ?thesis using assms False by (auto simp: busy_def)
qed

lemma par_inv:
  assumes "csdo_inv s"
  shows "csdo_inv (snd (co_1280_dn_ind sub v old s)) \<and> requests (snd (co_1280_dn_ind sub v old s)) = requests s"
proof (cases "sdo_par_dn sub v old (cs_par s)")
  case (Inr par)
  have "csdo_inv (s\<lparr>cs_par := par\<rparr>)" "requests (s\<lparr>cs_par := par\<rparr>) = requests s"
    using assms by (cases "cs_state s"; simp add: csdo_inv_def core_def inside_def pending_def requests_def dn_ok_def up_ok_def cong: option.case_cong)+
  then show ?thesis using abort_req_inv [of "s\<lparr>cs_par := par\<rparr>"] Inr by (simp add: co_1280_dn_ind_def)
qed (use assms in \<open>simp add: co_1280_dn_ind_def\<close>)

lemma timer_inv:
  assumes "csdo_inv s" "cs_timer s"
  shows "csdo_inv (co_csdo_timer s) \<and> requests (co_csdo_timer s) = requests s"
proof -
  let ?s = "s\<lparr>cs_timer := False\<rparr>"
  have busy: "busy (cs_state s)" "cs_state s \<noteq> CS_abort"
    using assms by (auto simp: csdo_inv_def inside_def busy_def)
  have inv: "csdo_inv ?s" "requests ?s = requests s"
    using assms busy by (cases "cs_state s"; auto simp: csdo_inv_def core_def inside_def busy_def dn_ok_def up_ok_def requests_def pending_def cong: option.case_cong)+
  have "csdo_on_time (cs_state s) = co_csdo_abort_res CO_SDO_AC_TIMEOUT" using busy by (cases "cs_state s") (simp_all add: busy_def)
  moreover have "csdo_sound ?s (co_csdo_abort_res CO_SDO_AC_TIMEOUT ?s)" using inv(1) by (simp add: csdo_inv_def)
  ultimately show ?thesis using sound_enter [OF inv(1)] inv(2) by (simp add: co_csdo_timer_def co_csdo_emit_time_def)
qed

lemma set_timeout_inv:
  assumes "csdo_inv s"
  shows "csdo_inv (co_csdo_set_timeout t s) \<and> requests (co_csdo_set_timeout t s) = requests s"
  using assms
  by (cases "cs_state s") (auto simp: co_csdo_set_timeout_def Let_def csdo_inv_def core_def inside_def busy_def dn_ok_def up_ok_def
      requests_def pending_def cong: option.case_cong)

lemma stop_inv:
  assumes "csdo_inv s"
  shows "csdo_inv (co_csdo_stop s) \<and> requests (co_csdo_stop s) = requests s"
proof (cases "cs_state s = CS_stopped")
  case False
  let ?s = "co_csdo_abort_req CO_SDO_AC_NO_SDO s"
  have s: "csdo_inv ?s" "requests ?s = requests s" "cs_state ?s = CS_wait" using abort_req_inv [OF assms] False by auto
  then have "co_csdo_stop s = ?s\<lparr>cs_timer := False, cs_state := CS_stopped\<rparr>"
    using False by (simp add: co_csdo_stop_def enter_plain del: co_csdo_enter.simps)
  then show ?thesis using s by (auto simp: csdo_inv_def core_def inside_def busy_def requests_def pending_def cong: option.case_cong)
qed (use assms in \<open>simp add: co_csdo_stop_def\<close>)

lemma start_inv:
  assumes "csdo_inv s"
  shows "csdo_inv (co_csdo_start par s) \<and> requests (co_csdo_start par s) = requests s"
proof (cases "cs_state s = CS_stopped")
  case True
  let ?s = "s\<lparr>cs_par := par, cs_state := CS_wait\<rparr>"
  have "csdo_inv ?s" "requests ?s = requests s"
    using assms True by (auto simp: csdo_inv_def core_def inside_def busy_def requests_def pending_def cong: option.case_cong)
  moreover have "co_csdo_start par s = co_csdo_abort_req CO_SDO_AC_NO_SDO ?s"
    using True by (simp add: co_csdo_start_def enter_plain del: co_csdo_enter.simps)
  ultimately show ?thesis using abort_req_inv by simp
qed (use assms in \<open>simp add: co_csdo_start_def\<close>)

lemma init_inv: "csdo_inv (co_csdo_init par) \<and> requests (co_csdo_init par) = []"
proof -
  let ?s = "\<lparr>cs_par = par, cs_timeout = 0, cs_timer = False, cs_state = CS_stopped, cs_ac = 0, cs_idx = 0,
     cs_subidx = 0, cs_size = 0, cs_toggle = 0, cs_blksize = 0, cs_pst = 0, cs_ackseq = 0, cs_crc = False, cs_dn_buf = membuf_init [],
     cs_buf = membuf_init [], cs_dn_con = None, cs_up_con = None, cs_sent = [], cs_confirmed = [], cs_hung = False, cs_broken = False\<rparr>"
  have "csdo_inv ?s" by (simp add: csdo_inv_def core_def inside_def busy_def pending_def)
  from start_inv [OF this, of par] show ?thesis by (simp add: co_csdo_init_def requests_def pending_def)
qed

lemma exec_inv:
  assumes "csdo_inv s" "csdo_possible ev s"
  shows "csdo_inv (csdo_exec H ev s) \<and> requests (csdo_exec H ev s) = requests s @ csdo_posted ev s"
proof -
  have refused: "co_csdo_dn_ind idx subidx d con s = None \<longleftrightarrow> \<not> accepts s" "co_csdo_up_ind idx subidx con s = None \<longleftrightarrow> \<not> accepts s"
    for idx subidx d con by (simp_all add: co_csdo_dn_ind_def co_csdo_up_ind_def accepts_def)
  show ?thesis
  proof (cases ev)
    case (Ev_dn_req idx subidx d i)
    then show ?thesis using assms dn_req_inv [OF assms(1), of d idx subidx i] refused(1) [of idx subidx d "Some i"]
      by (auto simp: co_csdo_dn_req_def split: option.splits)
  next
    case (Ev_up_req idx subidx i)
    then show ?thesis using assms up_req_inv [OF assms(1), of idx subidx i] refused(2) [of idx subidx "Some i"]
      by (auto simp: co_csdo_up_req_def split: option.splits)
  next
    case (Ev_blk_dn_req idx subidx d i)
    then show ?thesis using assms blk_dn_req_inv [OF assms(1), of d idx subidx i] refused(1) [of idx subidx d "Some i"]
      by (auto simp: co_csdo_blk_dn_req_def split: option.splits)
  next
    case (Ev_blk_up_req idx subidx pst i)
    then show ?thesis using assms blk_up_req_inv [OF assms(1), of idx subidx pst i] refused(2) [of idx subidx "Some i"]
      by (auto simp: co_csdo_blk_up_req_def split: option.splits)
  qed (use assms in \<open>simp_all add: recv_inv timer_inv abort_req_inv set_timeout_inv stop_inv start_inv par_inv\<close>)
qed

lemma csdo_run_inv: "csdo_run ids s \<Longrightarrow> csdo_inv s \<and> requests s = ids"
  by (induction rule: csdo_run.induct) (simp_all add: init_inv exec_inv)

section \<open>Properties\<close>

lemma idle_confirms: "csdo_inv s \<Longrightarrow> cs_state s = CS_wait \<or> cs_state s = CS_stopped \<Longrightarrow> requests s = map con_id (cs_confirmed s)"
  by (auto simp: csdo_inv_def busy_def requests_def)

lemma abort_confirms: "csdo_inv s \<Longrightarrow> map con_id (cs_confirmed (co_csdo_abort_req ac s)) = requests s"
proof -
  assume s: "csdo_inv s"
  have "cs_state (co_csdo_abort_req ac s) = CS_wait \<or> cs_state (co_csdo_abort_req ac s) = CS_stopped"
    using abort_req_inv [OF s, of ac] by (cases "cs_state s = CS_stopped") (simp_all add: co_csdo_abort_req_def co_csdo_emit_abort_def csdo_enter_def)
  then show ?thesis using abort_req_inv [OF s, of ac] idle_confirms by auto
qed

lemma timer_confirms:
  assumes "csdo_inv s" "cs_timer s"
  shows "map con_id (cs_confirmed (co_csdo_timer s)) = requests s"
proof -
  let ?s = "s\<lparr>cs_timer := False\<rparr>"
  have busy: "busy (cs_state s)" "cs_state s \<noteq> CS_abort"
    using assms by (auto simp: csdo_inv_def inside_def busy_def)
  have inv: "csdo_inv ?s" "requests ?s = requests s"
    using assms busy by (cases "cs_state s"; auto simp: csdo_inv_def core_def inside_def busy_def dn_ok_def up_ok_def requests_def pending_def cong: option.case_cong)+
  have "co_csdo_timer s = co_csdo_abort_req CO_SDO_AC_TIMEOUT ?s"
    using busy by (cases "cs_state s") (simp_all add: busy_def co_csdo_timer_def co_csdo_abort_req_def co_csdo_emit_time_def co_csdo_emit_abort_def)
  then show ?thesis using abort_confirms [OF inv(1)] inv(2) by simp
qed

text \<open>C4. The SDO client is safe and accountable against any server. Whatever sequence of frames, time-outs, aborts, stops and starts,
  writes to its parameters and requests it meets, as long as its calls return: no assertion of the code fails (no handler is missing, no buffer is overrun, no
  segment is taken from outside the data of the application); the confirmations are those of the accepted requests, in
  the order of acceptance and none twice, except for at most one request, which is still under way; an idle or stopped client owes no
  confirmation and has no timer running; and an abort by the application, or the time-out when its timer runs, confirms the request under way at once.
  The requests come between the calls of the client: one that the application posts from inside a confirmation is the next event, except
  in \<open>co_csdo_stop\<close>, which drops it.\<close>

theorem csdo_requests_confirmed:
  assumes "csdo_run ids s"
  shows "\<not> cs_broken s \<and> (\<exists>p. ids = map con_id (cs_confirmed s) @ p \<and> length p \<le> 1
    \<and> (cs_state s = CS_wait \<or> cs_state s = CS_stopped \<longrightarrow> p = [] \<and> \<not> cs_timer s))
    \<and> map con_id (cs_confirmed (co_csdo_abort_req ac s)) = ids
    \<and> (cs_timer s \<longrightarrow> map con_id (cs_confirmed (co_csdo_timer s)) = ids)"
proof -
  have run: "csdo_inv s" "ids = requests s" using csdo_run_inv [OF assms] by auto
  have "length (pending s) \<le> 1" by (simp add: pending_def split: option.splits)
  then have "\<exists>p. ids = map con_id (cs_confirmed s) @ p \<and> length p \<le> 1 \<and> (cs_state s = CS_wait \<or> cs_state s = CS_stopped \<longrightarrow> p = [] \<and> \<not> cs_timer s)"
    using run by (intro exI [of _ "pending s"]) (auto simp: requests_def csdo_inv_def core_def inside_def busy_def)
  moreover have "\<not> cs_broken s" using run(1) by (simp add: csdo_inv_def core_def)
  ultimately show ?thesis using abort_confirms [OF run(1)] timer_confirms [OF run(1)] run(2) by simp
qed

text \<open>A download request is under way when the application aborts it.\<close>

definition example_par :: co_sdo_par where
  "example_par = \<lparr>par_n = 3, cobid_req = 0x602, cobid_res = 0x582, par_id = 2\<rparr>"

definition example_csdo :: co_csdo where
  "example_csdo = csdo_exec \<lparr>hp_ok = (\<lambda>_. True), hp_fresh = (\<lambda>_. 0)\<rparr> (Ev_abort 0x08000020)
     (csdo_exec \<lparr>hp_ok = (\<lambda>_. True), hp_fresh = (\<lambda>_. 0)\<rparr> (Ev_dn_req 0x2000 1 [1, 2, 3, 4, 5] 7) (co_csdo_init example_par))"

theorem csdo_requests_confirmed_witness:
  "csdo_run [7] example_csdo \<and> cs_state example_csdo = CS_wait \<and> cs_confirmed example_csdo = [Con_dn 7 0x2000 1 0x08000020]
    \<and> \<not> cs_broken example_csdo \<and> \<not> cs_timer example_csdo \<and> map con_id (cs_confirmed (co_csdo_abort_req 5 example_csdo)) = [7]"
proof -
  let ?H = "\<lparr>hp_ok = (\<lambda>_. True), hp_fresh = (\<lambda>_. 0)\<rparr>" and ?c = "co_csdo_init example_par" and ?ev = "Ev_dn_req 0x2000 1 [1, 2, 3, 4, 5] 7"
  have init: "\<not> cs_hung ?c" by code_simp
  have "csdo_run ([] @ csdo_posted ?ev ?c) (csdo_exec ?H ?ev ?c)"
    by (rule csdo_run.event [OF csdo_run.initial]) (simp add: init)
  moreover have "csdo_posted ?ev ?c = [7]" by code_simp
  ultimately have "csdo_run [7] (csdo_exec ?H ?ev ?c)" by simp
  then have "csdo_run ([7] @ csdo_posted (Ev_abort 0x08000020) (csdo_exec ?H ?ev ?c)) example_csdo"
    unfolding example_csdo_def by (rule csdo_run.event) code_simp
  then have run: "csdo_run [7] example_csdo" by simp
  have st: "cs_state example_csdo = CS_wait" "cs_confirmed example_csdo = [Con_dn 7 0x2000 1 0x08000020]" by code_simp+
  show ?thesis using csdo_requests_confirmed [OF run, of 5] run st by auto
qed

end
