(* ===== verification/Co_Ssdo.thy ===== *)
theory Co_Ssdo
  imports Co_Sdo Crc
begin

text \<open>
  The server of the SDO protocol (\<open>upstream/src/co/ssdo.c\<close>) with block transfer: a state machine driven by received
  frames, time-outs and abort requests, that reads and writes the object dictionary \<open>ss_dev\<close>. Sent
  frames are appended to \<open>ss_sent\<close>; \<open>ss_hung\<close> and \<open>ss_broken\<close> are as for the client.
\<close>

unbundle bit_operations_syntax

section \<open>State\<close>

datatype ssdo_state = SS_stopped | SS_wait | SS_dn_seg | SS_up_seg | SS_blk_dn_sub | SS_blk_dn_end | SS_blk_up_sub | SS_blk_up_end

record co_ssdo =
  ss_par :: co_sdo_par
  ss_dev :: co_dev
  ss_timeout :: nat
  ss_timer :: bool
  ss_state :: ssdo_state
  ss_idx :: u16
  ss_subidx :: u8
  ss_toggle :: u8
  ss_blksize :: nat
  ss_ackseq :: nat
  ss_gencrc :: bool
  ss_crc :: u16
  ss_req :: co_sdo_req
  ss_buf :: membuf
  ss_nbyte :: nat
  ss_sent :: "can_msg list"
  ss_hung :: bool
  ss_broken :: bool

type_synonym strans = "co_ssdo \<Rightarrow> ssdo_state option \<times> co_ssdo"

definition CO_SSDO_MAX_SEQNO :: nat where "CO_SSDO_MAX_SEQNO = 127"

definition ssdo_assert :: "bool \<Rightarrow> co_ssdo \<Rightarrow> co_ssdo" where
  "ssdo_assert P s = s\<lparr>ss_broken := ss_broken s \<or> \<not> P\<rparr>"

definition ssdo_arm :: "co_ssdo \<Rightarrow> co_ssdo" where
  "ssdo_arm s = (if ss_timeout s \<noteq> 0 then s\<lparr>ss_timer := True\<rparr> else s)"

text \<open>A call that does not return.\<close>

definition ssdo_hang :: strans where
  "ssdo_hang s = (None, s\<lparr>ss_hung := True\<rparr>)"

section \<open>Frames\<close>

definition ssdo_send :: "bytes \<Rightarrow> co_ssdo \<Rightarrow> co_ssdo" where
  "ssdo_send d s = s\<lparr>ss_sent := ss_sent s @ [sdo_frame (cobid_res (ss_par s)) d]\<rparr>"

definition co_ssdo_init_ini_res :: "co_ssdo \<Rightarrow> u8 \<Rightarrow> bytes" where
  "co_ssdo_init_ini_res s cs = ini_data cs (ss_idx s) (ss_subidx s)"

definition co_ssdo_send_abort :: "u32 \<Rightarrow> co_ssdo \<Rightarrow> co_ssdo" where
  "co_ssdo_send_abort ac s = ssdo_send (put_data 4 (stle_u32 ac) (co_ssdo_init_ini_res s CO_SDO_CS_ABORT)) s"

definition co_ssdo_send_dn_ini_res :: "co_ssdo \<Rightarrow> co_ssdo" where
  "co_ssdo_send_dn_ini_res s = ssdo_send (co_ssdo_init_ini_res s CO_SDO_SCS_DN_INI_RES) s"

definition co_ssdo_send_dn_seg_res :: "co_ssdo \<Rightarrow> co_ssdo" where
  "co_ssdo_send_dn_seg_res s =
     ssdo_send (seg_data (CO_SDO_SCS_DN_SEG_RES OR ss_toggle s)) (s\<lparr>ss_toggle := ss_toggle s XOR CO_SDO_SEG_TOGGLE\<rparr>)"

definition co_ssdo_send_up_exp_res :: "co_ssdo \<Rightarrow> co_ssdo" where
  "co_ssdo_send_up_exp_res s =
     (let n = membuf_size (ss_buf s);
          s1 = ssdo_assert (sq_size (ss_req s) \<noteq> 0 \<and> sq_size (ss_req s) \<le> 4 \<and> n = sq_size (ss_req s)) s
      in ssdo_send (put_data 4 (take n (mb_mem (ss_buf s)))
           (co_ssdo_init_ini_res s (CO_SDO_SCS_UP_INI_RES OR CO_SDO_INI_SIZE_EXP_SET n))) s1)"

definition co_ssdo_send_up_ini_res :: "co_ssdo \<Rightarrow> co_ssdo" where
  "co_ssdo_send_up_ini_res s =
     ssdo_send (put_data 4 (stle_u32 (of_nat (sq_size (ss_req s))))
         (co_ssdo_init_ini_res s (CO_SDO_SCS_UP_INI_RES OR CO_SDO_INI_SIZE_IND)))
       (ssdo_assert (sq_size (ss_req s) = 0 \<or> sq_size (ss_req s) > 4) s)"

definition co_ssdo_send_up_seg_res :: "bool \<Rightarrow> co_ssdo \<Rightarrow> co_ssdo" where
  "co_ssdo_send_up_seg_res final s =
     (let n = membuf_size (ss_buf s);
          s1 = ssdo_assert ((sq_size (ss_req s) = 0 \<or> sq_size (ss_req s) > 4) \<and> n \<le> 7) s;
          cs = CO_SDO_SCS_UP_SEG_RES OR ss_toggle s OR CO_SDO_SEG_SIZE_SET n;
          cs' = (if final then cs OR CO_SDO_SEG_LAST else cs)
      in ssdo_send (put_data 1 (take n (mb_mem (ss_buf s))) (seg_data cs')) (s1\<lparr>ss_toggle := ss_toggle s XOR CO_SDO_SEG_TOGGLE\<rparr>))"

definition co_ssdo_send_blk_dn_ini_res :: "co_ssdo \<Rightarrow> co_ssdo" where
  "co_ssdo_send_blk_dn_ini_res s =
     (let cs = CO_SDO_SCS_BLK_DN_RES OR CO_SDO_SC_INI_BLK; cs' = (if ss_gencrc s then cs OR CO_SDO_BLK_CRC else cs)
      in ssdo_send (put_data 4 [of_nat (ss_blksize s)] (co_ssdo_init_ini_res s cs')) s)"

definition co_ssdo_send_blk_dn_sub_res :: "co_ssdo \<Rightarrow> co_ssdo" where
  "co_ssdo_send_blk_dn_sub_res s =
     ssdo_send (put_data 1 [of_nat (ss_ackseq s), of_nat (ss_blksize s)] (seg_data (CO_SDO_SCS_BLK_DN_RES OR CO_SDO_SC_BLK_RES))) s"

definition co_ssdo_send_blk_dn_end_res :: "co_ssdo \<Rightarrow> co_ssdo" where
  "co_ssdo_send_blk_dn_end_res s = ssdo_send (seg_data (CO_SDO_SCS_BLK_DN_RES OR CO_SDO_SC_END_BLK)) s"

definition co_ssdo_send_blk_up_ini_res :: "co_ssdo \<Rightarrow> co_ssdo" where
  "co_ssdo_send_blk_up_ini_res s =
     (let cs = CO_SDO_SCS_BLK_UP_RES OR CO_SDO_BLK_SIZE_IND OR CO_SDO_SC_INI_BLK; cs' = (if ss_gencrc s then cs OR CO_SDO_BLK_CRC else cs)
      in ssdo_send (put_data 4 (stle_u32 (of_nat (sq_size (ss_req s)))) (co_ssdo_init_ini_res s cs')) s)"

text \<open>One round of the loop of \<open>co_ssdo_send_blk_up_sub_res\<close>, with the \<open>n\<close> bytes from \<open>buf\<close> on left.\<close>

fun blk_up_segments :: "bool \<Rightarrow> bytes \<Rightarrow> nat \<Rightarrow> nat \<Rightarrow> nat list \<Rightarrow> co_ssdo \<Rightarrow> co_ssdo" where
  "blk_up_segments final mem off n [] s = s"
| "blk_up_segments final mem off n (seqno # seqnos) s =
     (let cs = (if final \<and> n \<le> 7 then of_nat seqno OR CO_SDO_SEQ_LAST else of_nat seqno)
      in blk_up_segments final mem (off + 7) (szt_diff n 7) seqnos
           (ssdo_send (put_data 1 (take (min n 7) (drop off mem)) (seg_data cs)) s))"

definition co_ssdo_send_blk_up_sub_res :: "bool \<Rightarrow> co_ssdo \<Rightarrow> co_ssdo" where
  "co_ssdo_send_blk_up_sub_res final s =
     blk_up_segments final (mb_mem (ss_buf s)) 0 (membuf_size (ss_buf s)) [1..<Suc (ss_blksize s)] s"

definition co_ssdo_send_blk_up_end_res :: "co_ssdo \<Rightarrow> co_ssdo" where
  "co_ssdo_send_blk_up_end_res s =
     (let size = sq_size (ss_req s); n = (if size \<noteq> 0 then (size - 1) mod 7 + 1 else 0)
      in ssdo_send (put_data 1 (stle_u16 (ss_crc s)) (seg_data (CO_SDO_SCS_BLK_UP_RES OR CO_SDO_SC_END_BLK OR CO_SDO_BLK_SIZE_SET n))) s)"

section \<open>The object dictionary\<close>

definition co_ssdo_abort_ind :: strans where
  "co_ssdo_abort_ind s =
     (Some SS_wait, s\<lparr>ss_timer := (if ss_timeout s \<noteq> 0 then False else ss_timer s), ss_idx := 0, ss_subidx := 0, ss_toggle := 0,
        ss_blksize := 0, ss_ackseq := 0, ss_gencrc := False, ss_crc := 0, ss_req := co_sdo_req_clear (ss_req s),
        ss_buf := membuf_clear (ss_buf s), ss_nbyte := 0\<rparr>)"

definition co_ssdo_abort_res :: "u32 \<Rightarrow> strans" where
  "co_ssdo_abort_res ac s = co_ssdo_abort_ind (co_ssdo_send_abort ac s)"

text \<open>\<open>co_ssdo_dn_ind\<close>: the abort code, or \<open>None\<close> when the call does not return.\<close>

definition co_ssdo_dn_ind :: "heap \<Rightarrow> co_ssdo \<Rightarrow> u32 option \<times> co_ssdo" where
  "co_ssdo_dn_ind H s = (case ss_dev s (ss_idx s) of
       None \<Rightarrow> (Some CO_SDO_AC_NO_OBJ, s)
     | Some ob \<Rightarrow> (case obj_subs ob (ss_subidx s) of
         None \<Rightarrow> (Some CO_SDO_AC_NO_SUB, s)
       | Some sb \<Rightarrow> (case co_sub_dn_ind H sb (ss_req s) of
           (ac, r, v) \<Rightarrow> (ac, s\<lparr>ss_req := r,
             ss_dev := case v of None \<Rightarrow> ss_dev s | Some v \<Rightarrow> set_val (ss_dev s) (ss_idx s) (ss_subidx s) v\<rparr>))))"

text \<open>\<open>ac = co_ssdo_dn_ind(sdo); if (ac) return co_ssdo_abort_res(sdo, ac);\<close> and \<open>k\<close> after it.\<close>

definition with_dn_ind :: "heap \<Rightarrow> strans \<Rightarrow> strans" where
  "with_dn_ind H k s = (case co_ssdo_dn_ind H s of
       (None, s') \<Rightarrow> ssdo_hang s'
     | (Some ac, s') \<Rightarrow> if ac \<noteq> 0 then co_ssdo_abort_res ac s' else k s')"

definition co_ssdo_up_ind :: "heap \<Rightarrow> co_ssdo \<Rightarrow> u32 option \<times> co_ssdo" where
  "co_ssdo_up_ind H s = (case ss_dev s (ss_idx s) of
       None \<Rightarrow> (Some CO_SDO_AC_NO_OBJ, s)
     | Some ob \<Rightarrow> (case obj_subs ob (ss_subidx s) of
         None \<Rightarrow> (Some CO_SDO_AC_NO_SUB, s)
       | Some sb \<Rightarrow>
           if (case obj_array ob of None \<Rightarrow> False | Some n \<Rightarrow> ss_subidx s > n) then (Some CO_SDO_AC_NO_DATA, s)
           else case co_sub_up_ind H sb (ss_req s) of (ac, r) \<Rightarrow> (ac, s\<lparr>ss_nbyte := 0, ss_req := r\<rparr>)))"

text \<open>
  The loop of \<open>co_ssdo_up_buf\<close>. The default indication function provides the whole value at once, so
  the loop ends after at most two rounds that copy bytes; the fuel bounds the rounds.
\<close>

fun up_buf_loop :: "nat \<Rightarrow> heap \<Rightarrow> nat \<Rightarrow> co_ssdo \<Rightarrow> u32 option \<times> co_ssdo" where
  "up_buf_loop 0 H n s = (None, s)"
| "up_buf_loop (Suc fuel) H n s =
     (if n = 0 then (Some 0, s)
      else
        let copy = (\<lambda>s.
              let k = min n (szt_diff (sq_nbyte (ss_req s)) (ss_nbyte s)); src = take k (drop (ss_nbyte s) (sq_buf (ss_req s)));
                  s1 = (if ss_gencrc s then (case co_crc (ss_crc s) (Some src) k of Some c \<Rightarrow> s\<lparr>ss_crc := c\<rparr> | None \<Rightarrow> ssdo_assert False s) else s)
              in up_buf_loop fuel H (n - k) (s1\<lparr>ss_buf := membuf_write src (ss_buf s1), ss_nbyte := ss_nbyte s1 + k\<rparr>))
        in if ss_nbyte s \<ge> sq_nbyte (ss_req s) then
             if co_sdo_req_last (ss_req s) then (Some 0, s)
             else case co_ssdo_up_ind H s of
               (None, s') \<Rightarrow> (None, s')
             | (Some ac, s') \<Rightarrow> if ac \<noteq> 0 then (Some ac, s') else copy (s'\<lparr>ss_nbyte := 0\<rparr>)
           else copy s)"

definition UP_BUF_FUEL :: nat where "UP_BUF_FUEL = 4"

definition co_ssdo_up_buf :: "heap \<Rightarrow> nat \<Rightarrow> co_ssdo \<Rightarrow> u32 option \<times> co_ssdo" where
  "co_ssdo_up_buf H n s =
     (if n = 0 then (Some 0, s)
      else case membuf_reserve H (ss_buf s) n of
        Reserve_hangs \<Rightarrow> (None, s)
      | Reserve_fails \<Rightarrow> (Some CO_SDO_AC_NO_MEM, s)
      | Reserved b \<Rightarrow> up_buf_loop UP_BUF_FUEL H n (s\<lparr>ss_buf := b\<rparr>))"

definition with_up_buf :: "heap \<Rightarrow> nat \<Rightarrow> strans \<Rightarrow> strans" where
  "with_up_buf H n k s = (case co_ssdo_up_buf H n s of
       (None, s') \<Rightarrow> ssdo_hang s'
     | (Some ac, s') \<Rightarrow> if ac \<noteq> 0 then co_ssdo_abort_res ac s' else k s')"

definition with_up_ind :: "heap \<Rightarrow> strans \<Rightarrow> strans" where
  "with_up_ind H k s = (case co_ssdo_up_ind H s of
       (None, s') \<Rightarrow> ssdo_hang s'
     | (Some ac, s') \<Rightarrow> if ac \<noteq> 0 then co_ssdo_abort_res ac s' else k s')"

section \<open>Transitions\<close>

text \<open>Loading the object index and sub-index from the frame.\<close>

definition load_object :: "can_msg \<Rightarrow> strans \<Rightarrow> strans" where
  "load_object m k s =
     (if msg_len m < 3 then co_ssdo_abort_res CO_SDO_AC_NO_OBJ s
      else
        let s1 = s\<lparr>ss_idx := msg_idx m\<rparr>
        in if msg_len m < 4 then co_ssdo_abort_res CO_SDO_AC_NO_SUB s1 else k (s1\<lparr>ss_subidx := msg_subidx m\<rparr>))"

definition co_ssdo_dn_ini_on_recv :: "heap \<Rightarrow> can_msg \<Rightarrow> strans" where
  "co_ssdo_dn_ini_on_recv H m = load_object m (\<lambda>s.
     let cs = msg_cs m; r = co_sdo_req_clear (ss_req s); ex = (cs AND CO_SDO_INI_SIZE_EXP \<noteq> 0);
         size = (if ex then if cs AND CO_SDO_INI_SIZE_IND \<noteq> 0 then CO_SDO_INI_SIZE_EXP_GET cs else msg_len m - 4
                 else if cs AND CO_SDO_INI_SIZE_IND \<noteq> 0 then unat (ldle_u32 (msg_pad m)) else 0)
     in if ex then with_dn_ind H (\<lambda>s. co_ssdo_abort_ind (co_ssdo_send_dn_ini_res s))
            (s\<lparr>ss_req := r\<lparr>sq_size := size, sq_buf := drop 4 (cm_data m), sq_nbyte := size\<rparr>\<rparr>)
        else with_dn_ind H (\<lambda>s. (Some SS_dn_seg, ssdo_arm (co_ssdo_send_dn_ini_res s))) (s\<lparr>ss_req := r\<lparr>sq_size := size\<rparr>\<rparr>))"

text \<open>The head of the receive functions of a transfer: the length, the expected client command, an abort of the client.\<close>

definition check_ccs :: "u8 \<Rightarrow> can_msg \<Rightarrow> strans \<Rightarrow> strans" where
  "check_ccs ccs m k s =
     (if msg_len m < 1 then co_ssdo_abort_res CO_SDO_AC_NO_CS s
      else if msg_cs m AND CO_SDO_CS_MASK = ccs then k s
      else if msg_cs m AND CO_SDO_CS_MASK = CO_SDO_CS_ABORT then co_ssdo_abort_ind s
      else co_ssdo_abort_res CO_SDO_AC_NO_CS s)"

definition co_ssdo_dn_seg_on_recv :: "heap \<Rightarrow> can_msg \<Rightarrow> strans" where
  "co_ssdo_dn_seg_on_recv H m = check_ccs CO_SDO_CCS_DN_SEG_REQ m (\<lambda>s.
     let cs = msg_cs m; n = CO_SDO_SEG_SIZE_GET cs; final = (cs AND CO_SDO_SEG_LAST \<noteq> 0); r = ss_req s
     in if cs AND CO_SDO_SEG_TOGGLE \<noteq> ss_toggle s then (Some SS_dn_seg, s)
        else if msg_len m < 1 + n then co_ssdo_abort_res CO_SDO_AC_NO_CS s
        else if szt (sq_offset r + sq_nbyte r + n) > sq_size r then co_ssdo_abort_res CO_SDO_AC_TYPE_LEN_HI s
        else
          let r' = r\<lparr>sq_buf := drop 1 (cm_data m), sq_offset := sq_offset r + sq_nbyte r, sq_nbyte := n\<rparr>; s1 = s\<lparr>ss_req := r'\<rparr>
          in if final \<and> \<not> co_sdo_req_last r' then co_ssdo_abort_res CO_SDO_AC_TYPE_LEN_LO s1
             else with_dn_ind H (\<lambda>s.
               let s2 = co_ssdo_send_dn_seg_res s
               in if final then co_ssdo_abort_ind s2 else (Some SS_dn_seg, ssdo_arm s2)) s1)"

definition co_ssdo_up_ini_on_recv :: "heap \<Rightarrow> can_msg \<Rightarrow> strans" where
  "co_ssdo_up_ini_on_recv H m = load_object m (\<lambda>s. with_up_ind H (\<lambda>s.
     let size = sq_size (ss_req s)
     in if size \<noteq> 0 \<and> size \<le> 4 then with_up_buf H size (\<lambda>s. co_ssdo_abort_ind (co_ssdo_send_up_exp_res s)) s
        else (Some SS_up_seg, ssdo_arm (co_ssdo_send_up_ini_res s)))
     (s\<lparr>ss_req := co_sdo_req_clear (ss_req s)\<rparr>))"

definition co_ssdo_up_seg_on_recv :: "heap \<Rightarrow> can_msg \<Rightarrow> strans" where
  "co_ssdo_up_seg_on_recv H m = check_ccs CO_SDO_CCS_UP_SEG_REQ m (\<lambda>s.
     if msg_cs m AND CO_SDO_SEG_TOGGLE \<noteq> ss_toggle s then co_ssdo_abort_res CO_SDO_AC_TOGGLE s
     else with_up_buf H 7 (\<lambda>s.
       let final = (co_sdo_req_last (ss_req s) \<and> ss_nbyte s = sq_nbyte (ss_req s)); s1 = co_ssdo_send_up_seg_res final s
       in if final then co_ssdo_abort_ind s1 else (Some SS_up_seg, ssdo_arm s1))
     (s\<lparr>ss_buf := membuf_clear (ss_buf s)\<rparr>))"

definition co_ssdo_blk_dn_ini_on_recv :: "heap \<Rightarrow> can_msg \<Rightarrow> strans" where
  "co_ssdo_blk_dn_ini_on_recv H m s =
     (let cs = msg_cs m
      in if cs AND 0x01 \<noteq> CO_SDO_SC_INI_BLK then co_ssdo_abort_res CO_SDO_AC_NO_CS s
         else load_object m (\<lambda>s.
           let size = (if cs AND CO_SDO_BLK_SIZE_IND \<noteq> 0 then unat (ldle_u32 (msg_pad m)) else 0)
           in with_dn_ind H (\<lambda>s. (Some SS_blk_dn_sub, ssdo_arm (co_ssdo_send_blk_dn_ini_res s)))
                (s\<lparr>ss_req := (co_sdo_req_clear (ss_req s))\<lparr>sq_size := size\<rparr>, ss_blksize := CO_SSDO_MAX_SEQNO, ss_ackseq := 0\<rparr>))
         (s\<lparr>ss_gencrc := (cs AND CO_SDO_BLK_CRC \<noteq> 0)\<rparr>))"

text \<open>Updating the checksum with the bytes of the request.\<close>

definition crc_update :: "co_ssdo \<Rightarrow> co_ssdo" where
  "crc_update s =
     (if ss_gencrc s then
        (case co_crc (ss_crc s) (Some (sq_buf (ss_req s))) (sq_nbyte (ss_req s)) of Some c \<Rightarrow> s\<lparr>ss_crc := c\<rparr> | None \<Rightarrow> ssdo_assert False s)
      else s)"

text \<open>The end of \<open>co_ssdo_blk_dn_sub_on_recv\<close>: the confirmation of a block.\<close>

definition blk_dn_confirm :: "heap \<Rightarrow> nat \<Rightarrow> bool \<Rightarrow> strans" where
  "blk_dn_confirm H seqno final s =
     (let go = (\<lambda>s. (Some (if final then SS_blk_dn_end else SS_blk_dn_sub), ssdo_arm s));
          confirm = (\<lambda>s. go ((co_ssdo_send_blk_dn_sub_res s)\<lparr>ss_ackseq := 0\<rparr>))
      in if seqno = ss_blksize s \<or> final then (if \<not> final then with_dn_ind H confirm s else confirm s)
         else go s)"

definition co_ssdo_blk_dn_sub_on_recv :: "heap \<Rightarrow> can_msg \<Rightarrow> strans" where
  "co_ssdo_blk_dn_sub_on_recv H m s =
     (if msg_len m < 1 then co_ssdo_abort_res CO_SDO_AC_NO_CS s
      else if msg_cs m = CO_SDO_CS_ABORT then co_ssdo_abort_ind s
      else
        let seqno = unat (msg_cs m AND NOT CO_SDO_SEQ_LAST); final = (msg_cs m AND CO_SDO_SEQ_LAST \<noteq> 0); r = ss_req s;
            n = min (szt_diff (sq_size r) (sq_offset r + sq_nbyte r)) 7
        in if seqno = 0 \<or> seqno > ss_blksize s then co_ssdo_abort_res CO_SDO_AC_BLK_SEQ s
           else if seqno = ss_ackseq s + 1 then
             let s1 = ssdo_assert (sq_size r \<ge> sq_offset r + sq_nbyte r) (s\<lparr>ss_ackseq := (ss_ackseq s + 1) mod 256\<rparr>)
             in if \<not> final \<and> n < 7 then co_ssdo_abort_res CO_SDO_AC_TYPE_LEN_HI s1
                else case membuf_reserve H (membuf_clear (ss_buf s1)) n of
                  Reserve_hangs \<Rightarrow> ssdo_hang s1
                | Reserve_fails \<Rightarrow> co_ssdo_abort_res CO_SDO_AC_NO_MEM s1
                | Reserved b \<Rightarrow>
                    let b' = membuf_write (take n (drop 1 (cm_data m))) b;
                        s2 = s1\<lparr>ss_buf := b', ss_req := r\<lparr>sq_buf := mb_mem b', sq_offset := sq_offset r + sq_nbyte r,
                               sq_nbyte := membuf_size b'\<rparr>\<rparr>
                    in if final then blk_dn_confirm H seqno final s2
                       else with_dn_ind H (blk_dn_confirm H seqno final) (crc_update s2)
           else blk_dn_confirm H seqno final s)"

definition co_ssdo_blk_dn_end_on_recv :: "heap \<Rightarrow> can_msg \<Rightarrow> strans" where
  "co_ssdo_blk_dn_end_on_recv H m = check_ccs CO_SDO_CCS_BLK_DN_REQ m (\<lambda>s.
     let r = ss_req s; n = (if sq_size r \<noteq> 0 then (sq_size r - 1) mod 7 + 1 else 0)
     in if msg_cs m AND CO_SDO_SC_MASK \<noteq> CO_SDO_SC_END_BLK then co_ssdo_abort_res CO_SDO_AC_NO_CS s
        else if sq_size r \<noteq> szt (sq_offset r + sq_nbyte r) then co_ssdo_abort_res CO_SDO_AC_TYPE_LEN_LO s
        else if CO_SDO_BLK_SIZE_GET (msg_cs m) \<noteq> n then co_ssdo_abort_res CO_SDO_AC_NO_CS s
        else
          let s1 = crc_update s
          in if ss_gencrc s1 \<and> ss_crc s1 \<noteq> ldle_u16 (drop 1 (cm_data m)) then co_ssdo_abort_res CO_SDO_AC_BLK_CRC s1
             else with_dn_ind H (\<lambda>s. co_ssdo_abort_ind (co_ssdo_send_blk_dn_end_res s)) s1)"

definition co_ssdo_blk_up_ini_on_recv :: "heap \<Rightarrow> can_msg \<Rightarrow> strans" where
  "co_ssdo_blk_up_ini_on_recv H m s =
     (let cs = msg_cs m
      in if cs AND CO_SDO_SC_MASK \<noteq> CO_SDO_SC_INI_BLK then co_ssdo_abort_res CO_SDO_AC_NO_CS s
         else load_object m (\<lambda>s.
           if msg_len m < 5 then co_ssdo_abort_res CO_SDO_AC_BLK_SIZE s
           else
             let s1 = s\<lparr>ss_blksize := unat (cm_data m ! 4)\<rparr>; pst = (if msg_len m > 5 then unat (cm_data m ! 5) else 0)
             in if ss_blksize s1 = 0 \<or> ss_blksize s1 > CO_SSDO_MAX_SEQNO then co_ssdo_abort_res CO_SDO_AC_BLK_SIZE s1
                else with_up_ind H (\<lambda>s.
                  let size = sq_size (ss_req s)
                  in if pst \<noteq> 0 \<and> size \<le> pst then
                       if size \<le> 4 then with_up_buf H size (\<lambda>s. co_ssdo_abort_ind (co_ssdo_send_up_exp_res s)) s
                       else (Some SS_up_seg, ssdo_arm (co_ssdo_send_up_ini_res s))
                     else (Some SS_blk_up_sub, ssdo_arm (co_ssdo_send_blk_up_ini_res s)))
                (s1\<lparr>ss_req := co_sdo_req_clear (ss_req s1)\<rparr>))
         (s\<lparr>ss_gencrc := (cs AND CO_SDO_BLK_CRC \<noteq> 0)\<rparr>))"

text \<open>The end of \<open>co_ssdo_blk_up_sub_on_recv\<close>: filling the buffer and sending the block.\<close>

definition blk_up_block :: strans where
  "blk_up_block s =
     (let final = (co_sdo_req_last (ss_req s) \<and> ss_nbyte s = sq_nbyte (ss_req s)); s1 = ssdo_arm s
      in if ss_blksize s1 \<noteq> 0 then (Some SS_blk_up_sub, co_ssdo_send_blk_up_sub_res final s1)
         else (Some SS_blk_up_end, co_ssdo_send_blk_up_end_res s1))"

definition blk_up_fill :: "heap \<Rightarrow> strans" where
  "blk_up_fill H s =
     (let n = ss_blksize s * 7 - membuf_size (ss_buf s)
      in if n > 0 then
           (case membuf_reserve H (ss_buf s) n of
              Reserve_hangs \<Rightarrow> ssdo_hang s
            | Reserve_fails \<Rightarrow> co_ssdo_abort_res CO_SDO_AC_NO_MEM s
            | Reserved b \<Rightarrow> with_up_buf H n (\<lambda>s. blk_up_block (s\<lparr>ss_blksize := ((membuf_size (ss_buf s) + 6) div 7) mod 256\<rparr>))
                (s\<lparr>ss_buf := b\<rparr>))
         else blk_up_block s)"

definition co_ssdo_blk_up_sub_on_recv :: "heap \<Rightarrow> can_msg \<Rightarrow> strans" where
  "co_ssdo_blk_up_sub_on_recv H m = check_ccs CO_SDO_CCS_BLK_UP_REQ m (\<lambda>s.
     let sc = msg_cs m AND CO_SDO_SC_MASK; fresh = (co_sdo_req_first (ss_req s) \<and> ss_nbyte s = 0)
     in if sc = CO_SDO_SC_BLK_RES then
          if fresh then co_ssdo_abort_res CO_SDO_AC_NO_CS s
          else if msg_len m < 3 then co_ssdo_abort_res CO_SDO_AC_BLK_SEQ s
          else
            let s1 = s\<lparr>ss_buf := membuf_flush (unat (cm_data m ! 1) * 7) (ss_buf s), ss_blksize := unat (cm_data m ! 2)\<rparr>
            in if ss_blksize s1 = 0 \<or> ss_blksize s1 > CO_SSDO_MAX_SEQNO then co_ssdo_abort_res CO_SDO_AC_BLK_SIZE s1
               else blk_up_fill H s1
        else if sc = CO_SDO_SC_START_UP then
          if \<not> fresh then co_ssdo_abort_res CO_SDO_AC_NO_CS s else blk_up_fill H s
        else co_ssdo_abort_res CO_SDO_AC_NO_CS s)"

definition co_ssdo_blk_up_end_on_recv :: "can_msg \<Rightarrow> strans" where
  "co_ssdo_blk_up_end_on_recv m = check_ccs CO_SDO_CCS_BLK_UP_REQ m (\<lambda>s.
     if msg_cs m AND CO_SDO_SC_MASK \<noteq> CO_SDO_SC_END_BLK then co_ssdo_abort_res CO_SDO_AC_NO_CS s
     else co_ssdo_abort_ind s)"

definition co_ssdo_wait_on_recv :: "heap \<Rightarrow> can_msg \<Rightarrow> strans" where
  "co_ssdo_wait_on_recv H m s =
     (if msg_len m < 1 then co_ssdo_abort_res CO_SDO_AC_NO_CS s
      else
        let cs = msg_cs m AND CO_SDO_CS_MASK
        in if cs = CO_SDO_CCS_DN_INI_REQ then co_ssdo_dn_ini_on_recv H m s
           else if cs = CO_SDO_CCS_UP_INI_REQ then co_ssdo_up_ini_on_recv H m s
           else if cs = CO_SDO_CCS_BLK_DN_REQ then co_ssdo_blk_dn_ini_on_recv H m s
           else if cs = CO_SDO_CCS_BLK_UP_REQ then co_ssdo_blk_up_ini_on_recv H m s
           else if cs = CO_SDO_CS_ABORT then (None, s)
           else co_ssdo_abort_res CO_SDO_AC_NO_CS s)"

section \<open>Events\<close>

definition co_ssdo_enter :: "ssdo_state option \<times> co_ssdo \<Rightarrow> co_ssdo" where
  "co_ssdo_enter p = (case fst p of None \<Rightarrow> snd p | Some st \<Rightarrow> (snd p)\<lparr>ss_state := st\<rparr>)"

fun ssdo_on_recv :: "heap \<Rightarrow> ssdo_state \<Rightarrow> can_msg \<Rightarrow> strans" where
  "ssdo_on_recv H SS_stopped m = (\<lambda>s. (None, ssdo_assert False s))"
| "ssdo_on_recv H SS_wait m = co_ssdo_wait_on_recv H m"
| "ssdo_on_recv H SS_dn_seg m = co_ssdo_dn_seg_on_recv H m"
| "ssdo_on_recv H SS_up_seg m = co_ssdo_up_seg_on_recv H m"
| "ssdo_on_recv H SS_blk_dn_sub m = co_ssdo_blk_dn_sub_on_recv H m"
| "ssdo_on_recv H SS_blk_dn_end m = co_ssdo_blk_dn_end_on_recv H m"
| "ssdo_on_recv H SS_blk_up_sub m = co_ssdo_blk_up_sub_on_recv H m"
| "ssdo_on_recv H SS_blk_up_end m = co_ssdo_blk_up_end_on_recv m"

fun ssdo_on_abort :: "ssdo_state \<Rightarrow> u32 \<Rightarrow> strans" where
  "ssdo_on_abort SS_stopped ac = (\<lambda>s. (None, ssdo_assert False s))"
| "ssdo_on_abort SS_wait ac = (\<lambda>s. (None, s))"
| "ssdo_on_abort _ ac = co_ssdo_abort_res ac"

fun ssdo_on_time :: "ssdo_state \<Rightarrow> strans" where
  "ssdo_on_time SS_stopped = (\<lambda>s. (None, ssdo_assert False s))"
| "ssdo_on_time SS_wait = (\<lambda>s. (None, ssdo_assert False s))"
| "ssdo_on_time _ = co_ssdo_abort_res CO_SDO_AC_TIMEOUT"

definition co_ssdo_recv :: "heap \<Rightarrow> can_msg \<Rightarrow> co_ssdo \<Rightarrow> co_ssdo" where
  "co_ssdo_recv H m s =
     (if cm_flags m AND CAN_FLAG_RTR \<noteq> 0 \<or> cm_flags m AND CAN_FLAG_FDF \<noteq> 0 then s
      else co_ssdo_enter (ssdo_on_recv H (ss_state s) m s))"

definition co_ssdo_timer :: "co_ssdo \<Rightarrow> co_ssdo" where
  "co_ssdo_timer s = (let s1 = s\<lparr>ss_timer := False\<rparr> in co_ssdo_enter (ssdo_on_time (ss_state s1) s1))"

definition co_ssdo_emit_abort :: "u32 \<Rightarrow> co_ssdo \<Rightarrow> co_ssdo" where
  "co_ssdo_emit_abort ac s = co_ssdo_enter (ssdo_on_abort (ss_state s) ac s)"

definition co_ssdo_set_timeout :: "int \<Rightarrow> co_ssdo \<Rightarrow> co_ssdo" where
  "co_ssdo_set_timeout t s =
     (let s1 = (if ss_timeout s \<noteq> 0 \<and> t \<le> 0 then s\<lparr>ss_timer := False\<rparr> else s) in s1\<lparr>ss_timeout := nat t\<rparr>)"

definition co_ssdo_stop :: "co_ssdo \<Rightarrow> co_ssdo" where
  "co_ssdo_stop s =
     (if ss_state s = SS_stopped then s
      else co_ssdo_enter (Some SS_stopped, (co_ssdo_emit_abort CO_SDO_AC_NO_SDO s)\<lparr>ss_timer := False\<rparr>))"

text \<open>\<open>co_ssdo_start\<close> copies the parameters \<open>par\<close>, those of the object dictionary or the default ones, and aborts what was under way.\<close>

definition co_ssdo_start :: "co_sdo_par \<Rightarrow> co_ssdo \<Rightarrow> co_ssdo" where
  "co_ssdo_start par s =
     (if ss_state s \<noteq> SS_stopped then s
      else co_ssdo_emit_abort CO_SDO_AC_NO_SDO ((co_ssdo_enter (Some SS_wait, s))\<lparr>ss_par := par\<rparr>))"

definition co_1200_dn_ind :: "u8 \<Rightarrow> u32 \<Rightarrow> u32 \<Rightarrow> co_ssdo \<Rightarrow> u32 \<times> co_ssdo" where
  "co_1200_dn_ind sub v old s = (case sdo_par_dn sub v old (ss_par s) of
       Inl ac \<Rightarrow> (ac, s)
     | Inr par \<Rightarrow> (0, co_ssdo_emit_abort CO_SDO_AC_NO_SDO (s\<lparr>ss_par := par\<rparr>)))"

definition co_ssdo_init :: "co_sdo_par \<Rightarrow> co_dev \<Rightarrow> co_ssdo" where
  "co_ssdo_init par D = co_ssdo_start par \<lparr>ss_par = par, ss_dev = D, ss_timeout = 0, ss_timer = False, ss_state = SS_stopped, ss_idx = 0,
     ss_subidx = 0, ss_toggle = 0, ss_blksize = 0, ss_ackseq = 0, ss_gencrc = False, ss_crc = 0, ss_req = co_sdo_req_init,
     ss_buf = membuf_init [], ss_nbyte = 0, ss_sent = [], ss_hung = False, ss_broken = False\<rparr>"

lemma ssdo_init_state: "co_ssdo_init par D = \<lparr>ss_par = par, ss_dev = D, ss_timeout = 0, ss_timer = False, ss_state = SS_wait, ss_idx = 0,
     ss_subidx = 0, ss_toggle = 0, ss_blksize = 0, ss_ackseq = 0, ss_gencrc = False, ss_crc = 0, ss_req = co_sdo_req_init,
     ss_buf = membuf_init [], ss_nbyte = 0, ss_sent = [], ss_hung = False, ss_broken = False\<rparr>"
  by (simp add: co_ssdo_init_def co_ssdo_start_def co_ssdo_emit_abort_def co_ssdo_enter_def)

end
