(* ===== verification/Co_Sdo_Bus.thy ===== *)
theory Co_Sdo_Bus
  imports Co_Csdo_Inv Co_Ssdo
begin

text \<open>
  The client and the server of the SDO protocol together, over a CAN bus that loses nothing and keeps the
  frames of each node in order, with the lemmas on frames, on the requests of the server and on the two
  ends of a transfer that the theories on downloads and uploads share.
\<close>

unbundle bit_operations_syntax

section \<open>Requests of the server\<close>

lemma held_take: "membuf_wf b \<Longrightarrow> mb_held b = x \<Longrightarrow> membuf_size b = length x \<and> take (length x) (mb_mem b) = x"
  by (auto simp: mb_held_def membuf_wf_def membuf_size_def min_absorb2)

lemma membuf_seek_back:
  assumes "membuf_wf b" "k \<le> membuf_size b"
  shows "snd (membuf_seek (- int (membuf_size b) + int k) b) = b\<lparr>mb_cur := k\<rparr>"
  using assms by (simp add: membuf_seek_def membuf_wf_def membuf_size_def Let_def)

text \<open>One more chunk of a download: the buffer holds the bytes so far, and the last chunk completes the value.\<close>

lemma req_dn_chunk:
  assumes "sq_size r = length d" "sq_offset r = k" "sq_nbyte r = n" "n \<le> length (sq_buf r)" "take n (sq_buf r) = take n (drop k d)"
    "k + n \<le> length d" "length d \<le> 2 ^ 31" "0 < length d" "b = sq_membuf r" "membuf_wf b" "k \<le> membuf_size b"
    "take k (mb_held b) = take k d" "length d \<le> length (mb_mem b)"
  shows "\<exists>b'. co_sdo_req_dn H r = (if k + n = length d then Dn_value d else Dn_more, r\<lparr>sq_membuf := b'\<rparr>)
    \<and> membuf_wf b' \<and> length d \<le> length (mb_mem b') \<and> (k + n < length d \<longrightarrow> mb_held b' = take (k + n) d)"
proof -
  have last: "co_sdo_req_last r \<longleftrightarrow> k + n = length d" using assms by (auto simp: co_sdo_req_last_def)
  have first: "co_sdo_req_first r \<longleftrightarrow> k = 0" using assms by (simp add: co_sdo_req_first_def)
  show ?thesis
  proof (cases "k = 0 \<and> k + n = length d")
    case True
    then have n: "n = length d" by simp
    then have "take (length d) (sq_buf r) = d" using True assms(5) [unfolded n] by simp
    then show ?thesis using True n assms(1,9,10,13) last first
      by (intro exI [of _ b]) (simp add: co_sdo_req_dn_def Let_def)
  next
    case False
    let ?b = "b\<lparr>mb_cur := k\<rparr>"
    have wf: "membuf_wf ?b" using assms by (simp add: membuf_wf_def)
    have held: "mb_held ?b = take k d"
      using assms by (simp add: mb_held_def membuf_size_def min_absorb1)
    have cap: "n \<le> membuf_capacity ?b" using assms by (simp add: membuf_capacity_def)
    let ?src = "take n (sq_buf r)"
    have src: "length ?src = n" using assms(4) by simp
    have w: "mb_held (membuf_write ?src ?b) = take (k + n) d" "membuf_wf (membuf_write ?src ?b)"
      "length (mb_mem (membuf_write ?src ?b)) = length (mb_mem b)"
      using membuf_write_held [OF wf, of ?src] cap src held assms(5) by (simp_all add: take_add)
    have copy: "dn_copy off (r\<lparr>sq_membuf := ?b\<rparr>)
        = (if k + n = length d then Dn_value d else Dn_more, r\<lparr>sq_membuf := if n \<noteq> 0 then membuf_write ?src ?b else ?b\<rparr>)" for off
    proof -
      have "take (length d) (mb_mem (membuf_write ?src ?b)) = d" if "k + n = length d" "n \<noteq> 0"
      proof -
        have "mb_held (membuf_write ?src ?b) = d" using w(1) that by simp
        then show ?thesis by (metis length_take mb_held_def min_def nle_le take_all take_take)
      qed
      moreover have "take (length d) (mb_mem ?b) = d" if "k + n = length d" "n = 0"
        using held that by (simp add: mb_held_def)
      moreover have "co_sdo_req_last (r\<lparr>sq_membuf := ?b\<rparr>) = co_sdo_req_last r" by (simp add: co_sdo_req_last_def)
      ultimately show ?thesis using assms(1,3) cap last by (auto simp: dn_copy_def Let_def)
    qed
    have "co_sdo_req_dn H r = dn_copy (if k = 0 then - int (membuf_size b) else - int (membuf_size b) + int k) (r\<lparr>sq_membuf := ?b\<rparr>)"
    proof (cases "k = 0")
      case True
      then have "membuf_reserve H (membuf_clear b) (length d) = Reserved (membuf_clear b)"
        using assms by (auto simp: membuf_reserve_def membuf_capacity_def)
      then show ?thesis using True False first last assms(1,9) by (simp add: co_sdo_req_dn_def Let_def membuf_clear_def)
    next
      case k: False
      then show ?thesis using first membuf_seek_back [OF assms(10,11)] assms(2,9,11) by (simp add: co_sdo_req_dn_def Let_def)
    qed
    then show ?thesis using copy w wf held assms(13)
      by (intro exI [of _ "if n \<noteq> 0 then membuf_write ?src ?b else ?b"]) simp
  qed
qed

text \<open>The first call of a segmented or block download, before any data.\<close>

lemma req_dn_start:
  assumes "sq_size r = length d" "sq_offset r = 0" "sq_nbyte r = 0" "0 < length d" "length d \<le> 2 ^ 31"
    "membuf_wf (sq_membuf r)" "\<And>sz. hp_ok H sz"
  shows "\<exists>b'. co_sdo_req_dn H r = (Dn_more, r\<lparr>sq_membuf := b'\<rparr>) \<and> membuf_wf b' \<and> mb_held b' = [] \<and> length d \<le> length (mb_mem b')"
proof -
  obtain b' where b': "membuf_reserve H (membuf_clear (sq_membuf r)) (length d) = Reserved b'"
    using membuf_reserve_ok [of "membuf_clear (sq_membuf r)" "length d" H] assms by auto
  note p = membuf_reserve_props [OF b']
  have "membuf_wf b'" "mb_held b' = []" "length d \<le> membuf_capacity b'" using p assms(5) by simp_all
  moreover have "length d \<le> length (mb_mem b')" using calculation(3) by (simp add: membuf_capacity_def)
  moreover have "co_sdo_req_dn H r = (Dn_more, r\<lparr>sq_membuf := b'\<rparr>)"
    using b' assms(1-4) by (simp add: co_sdo_req_dn_def Let_def co_sdo_req_first_def co_sdo_req_last_def dn_copy_def)
  ultimately show ?thesis by blast
qed

section \<open>The bus\<close>

text \<open>A node takes the frames whose identifier and flags are those it has registered for.\<close>

definition hears :: "u32 \<Rightarrow> can_msg \<Rightarrow> bool" where
  "hears cobid m \<longleftrightarrow> cobid_key cobid = (cm_id m, cm_flags m)"

text \<open>The oldest frame of the client reaches the server, or when it has none the oldest frame of the server the client.\<close>

definition bus_step :: "heap \<Rightarrow> co_csdo \<times> co_ssdo \<Rightarrow> co_csdo \<times> co_ssdo" where
  "bus_step H p = (case p of (c, s) \<Rightarrow>
     (case cs_sent c of
        m # ms \<Rightarrow> (c\<lparr>cs_sent := ms\<rparr>, if hears (cobid_req (ss_par s)) m then co_ssdo_recv H m s else s)
      | [] \<Rightarrow> (case ss_sent s of
          m # ms \<Rightarrow> (if hears (cobid_res (cs_par c)) m then co_csdo_recv H m c else c, s\<lparr>ss_sent := ms\<rparr>)
        | [] \<Rightarrow> (c, s))))"

inductive bus_run :: "heap \<Rightarrow> co_csdo \<times> co_ssdo \<Rightarrow> co_csdo \<times> co_ssdo \<Rightarrow> bool" for H where
  bus_done: "cs_sent c = [] \<Longrightarrow> ss_sent s = [] \<Longrightarrow> bus_run H (c, s) (c, s)"
| bus_next: "bus_run H (bus_step H p) q \<Longrightarrow> bus_run H p q"

definition connected :: "co_csdo \<Rightarrow> co_ssdo \<Rightarrow> bool" where
  "connected c s \<longleftrightarrow> cobid_req (ss_par s) = cobid_req (cs_par c) \<and> cobid_res (ss_par s) = cobid_res (cs_par c)"

definition csdo_idle :: "co_csdo \<Rightarrow> bool" where
  "csdo_idle c \<longleftrightarrow> cs_state c = CS_wait \<and> cs_sent c = [] \<and> co_csdo_is_valid (cs_par c) \<and> \<not> cs_hung c \<and> \<not> cs_broken c"

definition ssdo_idle :: "co_ssdo \<Rightarrow> bool" where
  "ssdo_idle s \<longleftrightarrow> ss_state s = SS_wait \<and> ss_sent s = [] \<and> ss_toggle s = 0 \<and> ss_nbyte s = 0 \<and> ss_crc s = 0 \<and> membuf_size (ss_buf s) = 0
     \<and> membuf_wf (sq_membuf (ss_req s)) \<and> \<not> ss_hung s \<and> \<not> ss_broken s"

section \<open>Frames\<close>

lemma hears_frame [simp]: "hears cobid (sdo_frame cobid d)"
  by (simp add: hears_def sdo_frame_def)

lemma frame_flags [simp]: "cm_flags (sdo_frame cobid d) AND CAN_FLAG_RTR = 0" "cm_flags (sdo_frame cobid d) AND CAN_FLAG_FDF = 0"
  by (simp_all add: sdo_frame_def cobid_key_def CAN_FLAG_IDE_def CAN_FLAG_RTR_def CAN_FLAG_FDF_def)

lemma frame_fields [simp]:
  "cm_data (sdo_frame cobid d) = d" "msg_len (sdo_frame cobid d) = 8" "msg_cs (sdo_frame cobid d) = d ! 0"
  by (simp_all add: sdo_frame_def msg_len_def msg_cs_def)

lemma ini_frame [simp]:
  "put_data 4 x (ini_data cs idx sub) = [cs] @ stle_u16 idx @ [sub] @ x @ replicate (4 - length x) 0"
proof -
  have "drop (4 + length x) (ini_data cs idx sub) = drop (length x) (drop 4 (ini_data cs idx sub))" by (simp add: add.commute)
  then show ?thesis by (simp add: put_data_def ini_data_def stle_u16_def)
qed

lemma seg_frame [simp]:
  "put_data 1 x (seg_data cs) = cs # x @ replicate (7 - length x) 0" "put_data (Suc 0) x (seg_data cs) = cs # x @ replicate (7 - length x) 0"
  by (simp_all add: put_data_def seg_data_def)

lemma ini_msg [simp]:
  assumes "d = [cs] @ stle_u16 idx @ [sub] @ rest"
  shows "msg_idx (sdo_frame cobid d) = idx" "msg_subidx (sdo_frame cobid d) = sub" "drop 4 d = rest"
  using ldle_stle_u16 [of idx] by (simp_all add: assms msg_idx_def msg_subidx_def stle_u16_def ldle_u16_def)

text \<open>The command byte of a segment.\<close>

definition seg_cs :: "u8 \<Rightarrow> nat \<Rightarrow> bool \<Rightarrow> u8" where
  "seg_cs t n final = (if final then t OR CO_SDO_SEG_SIZE_SET n OR CO_SDO_SEG_LAST else t OR CO_SDO_SEG_SIZE_SET n)"

lemma le_7_cases: "n \<le> 7 \<Longrightarrow> n = 0 \<or> n = 1 \<or> n = 2 \<or> n = 3 \<or> n = 4 \<or> n = 5 \<or> n = 6 \<or> n = (7 :: nat)"
  by arith

lemma seg_cs_fields:
  assumes "t = 0 \<or> t = CO_SDO_SEG_TOGGLE" "n \<le> 7"
  shows "seg_cs t n final AND CO_SDO_CS_MASK = 0" "seg_cs t n final AND CO_SDO_SEG_TOGGLE = t"
    "CO_SDO_SEG_SIZE_GET (seg_cs t n final) = n" "seg_cs t n final AND CO_SDO_SEG_LAST \<noteq> 0 \<longleftrightarrow> final"
  using assms(1) le_7_cases [OF assms(2)]
  by (cases final; auto simp: seg_cs_def CO_SDO_SEG_SIZE_SET_def CO_SDO_SEG_SIZE_GET_def sdo_cs)+


lemma exp_cs:
  assumes "x = CO_SDO_CCS_DN_INI_REQ \<or> x = CO_SDO_SCS_UP_INI_RES" "0 < n" "n \<le> 4"
  shows "(x OR CO_SDO_INI_SIZE_EXP_SET n) AND CO_SDO_CS_MASK = x" "(x OR CO_SDO_INI_SIZE_EXP_SET n) AND CO_SDO_INI_SIZE_EXP \<noteq> 0"
    "(x OR CO_SDO_INI_SIZE_EXP_SET n) AND CO_SDO_INI_SIZE_IND \<noteq> 0" "CO_SDO_INI_SIZE_EXP_GET (x OR CO_SDO_INI_SIZE_EXP_SET n) = n"
proof -
  have "n = 1 \<or> n = 2 \<or> n = 3 \<or> n = 4" using assms(2,3) by arith
  then show "(x OR CO_SDO_INI_SIZE_EXP_SET n) AND CO_SDO_CS_MASK = x" "(x OR CO_SDO_INI_SIZE_EXP_SET n) AND CO_SDO_INI_SIZE_EXP \<noteq> 0"
    "(x OR CO_SDO_INI_SIZE_EXP_SET n) AND CO_SDO_INI_SIZE_IND \<noteq> 0" "CO_SDO_INI_SIZE_EXP_GET (x OR CO_SDO_INI_SIZE_EXP_SET n) = n"
    using assms(1) by (auto simp: CO_SDO_INI_SIZE_EXP_SET_def CO_SDO_INI_SIZE_EXP_GET_def sdo_cs)
qed

text \<open>The segment of \<open>d\<close> that starts at byte \<open>k\<close>, the same for downloads and uploads.\<close>

definition seg_part :: "bytes \<Rightarrow> nat \<Rightarrow> bytes" where
  "seg_part d k = take 7 (drop k d)"

definition seg_req :: "bytes \<Rightarrow> nat \<Rightarrow> u8 \<Rightarrow> bytes" where
  "seg_req d k t = seg_cs t (length (seg_part d k)) (length d - k \<le> 7) # seg_part d k @ replicate (7 - length (seg_part d k)) 0"

lemma seg_part_length [simp]: "length (seg_part d k) = min (length d - k) 7"
  by (simp add: seg_part_def)

lemma toggle_other:
  assumes "t = 0 \<or> t = CO_SDO_SEG_TOGGLE"
  shows "t XOR CO_SDO_SEG_TOGGLE = 0 \<or> t XOR CO_SDO_SEG_TOGGLE = CO_SDO_SEG_TOGGLE" "t XOR CO_SDO_SEG_TOGGLE \<noteq> t"
    "t XOR CO_SDO_SEG_TOGGLE = 0 \<Longrightarrow> t = CO_SDO_SEG_TOGGLE"
  using assms by (auto simp: CO_SDO_SEG_TOGGLE_def)

section \<open>The end of a transfer\<close>

lemma csdo_recv_frame:
  "co_csdo_recv H (sdo_frame cobid d) c = csdo_enter (csdo_on_recv H (cs_state c) (sdo_frame cobid d) c)"
  by (simp add: co_csdo_recv_def co_csdo_emit_recv_def)

lemma ssdo_recv_frame:
  "co_ssdo_recv H (sdo_frame cobid d) s = co_ssdo_enter (ssdo_on_recv H (ss_state s) (sdo_frame cobid d) s)"
  by (simp add: co_ssdo_recv_def)

lemma bus_to_server:
  assumes "cs_sent c = m # ms" "m = sdo_frame (cobid_req (ss_par s)) d" "bus_run H (c\<lparr>cs_sent := ms\<rparr>, co_ssdo_recv H m s) q"
  shows "bus_run H (c, s) q"
  by (rule bus_next) (use assms in \<open>simp add: bus_step_def\<close>)

lemma bus_to_client:
  assumes "cs_sent c = []" "ss_sent s = m # ms" "m = sdo_frame (cobid_res (cs_par c)) d"
    "bus_run H (co_csdo_recv H m c, s\<lparr>ss_sent := ms\<rparr>) q"
  shows "bus_run H (c, s) q"
  by (rule bus_next) (use assms in \<open>simp add: bus_step_def\<close>)

text \<open>The client has confirmed a download and is idle again.\<close>

definition dn_finished :: "co_csdo \<Rightarrow> nat \<Rightarrow> u16 \<Rightarrow> u8 \<Rightarrow> u32 \<Rightarrow> co_csdo \<Rightarrow> bool" where
  "dn_finished c i idx sub ac c' \<longleftrightarrow> csdo_idle c' \<and> cs_par c' = cs_par c \<and> cs_confirmed c' = cs_confirmed c @ [Con_dn i idx sub ac]"

definition up_finished :: "co_csdo \<Rightarrow> nat \<Rightarrow> u16 \<Rightarrow> u8 \<Rightarrow> u32 \<Rightarrow> bytes \<Rightarrow> co_csdo \<Rightarrow> bool" where
  "up_finished c i idx sub ac v c' \<longleftrightarrow> csdo_idle c' \<and> cs_par c' = cs_par c \<and> cs_confirmed c' = cs_confirmed c @ [Con_up i idx sub ac v]"

text \<open>A client with a request under way and nothing in its transmit queue.\<close>

definition requested :: "nat option \<Rightarrow> nat option \<Rightarrow> u16 \<Rightarrow> u8 \<Rightarrow> co_csdo \<Rightarrow> bool" where
  "requested dn up idx sub c \<longleftrightarrow> cs_dn_con c = dn \<and> cs_up_con c = up \<and> cs_idx c = idx \<and> cs_subidx c = sub \<and> cs_sent c = []
     \<and> co_csdo_is_valid (cs_par c) \<and> \<not> cs_hung c \<and> \<not> cs_broken c \<and> cs_state c \<noteq> CS_abort"

lemma client_done:
  assumes "requested (Some i) up idx sub c"
  shows "dn_finished c i idx sub ac (csdo_enter (co_csdo_abort_ind ac c))"
  using assms
  by (auto simp: requested_def dn_finished_def csdo_enter_def co_csdo_abort_ind_def csdo_enter_abort co_csdo_abort_on_leave_def Let_def csdo_idle_def
      simp del: co_csdo_enter.simps)

lemma client_up_done:
  assumes "requested None (Some i) idx sub c"
  shows "up_finished c i idx sub ac (if ac \<noteq> 0 then [] else mb_held (cs_buf c)) (csdo_enter (co_csdo_abort_ind ac c))"
  using assms
  by (auto simp: requested_def up_finished_def csdo_enter_def co_csdo_abort_ind_def csdo_enter_abort co_csdo_abort_on_leave_def Let_def csdo_idle_def
      simp del: co_csdo_enter.simps)

definition same_request :: "co_csdo \<Rightarrow> co_csdo \<Rightarrow> bool" where
  "same_request c c' \<longleftrightarrow> cs_confirmed c' = cs_confirmed c \<and> cs_par c' = cs_par c"

text \<open>The frame with which the server aborts a transfer, and what the client makes of it.\<close>

definition abort_data :: "u16 \<Rightarrow> u8 \<Rightarrow> u32 \<Rightarrow> bytes" where
  "abort_data idx sub ac = [CO_SDO_CS_ABORT] @ stle_u16 idx @ [sub] @ stle_u32 ac"

lemma abort_frame: "put_data 4 (stle_u32 ac) (ini_data CO_SDO_CS_ABORT idx sub) = abort_data idx sub ac"
  by (simp add: abort_data_def)

lemma abort_msg: "ac \<noteq> 0 \<Longrightarrow> msg_abort (sdo_frame cobid (abort_data idx sub ac)) = ac"
  by (simp add: msg_abort_def msg_u32_def abort_data_def stle_u16_def)

lemma client_recv_abort:
  assumes "ac \<noteq> 0" "ac \<noteq> CO_SDO_AC_BLK_SIZE \<or> cs_state c \<noteq> CS_blk_up_ini" "cs_state c \<notin> {CS_stopped, CS_wait, CS_abort}"
  shows "co_csdo_recv H (sdo_frame cobid (abort_data idx sub ac)) c = csdo_enter (co_csdo_abort_ind ac c)"
proof -
  have cs: "msg_cs (sdo_frame cobid (abort_data idx sub ac)) = CO_SDO_CS_ABORT" by (simp add: abort_data_def)
  have "msg_u32 (sdo_frame cobid (abort_data idx sub ac)) = ac" by (simp add: msg_u32_def abort_data_def stle_u16_def)
  moreover have "check_scs scs (sdo_frame cobid (abort_data idx sub ac)) k c = co_csdo_abort_ind ac c"
    if "scs \<noteq> CO_SDO_CS_ABORT" for scs k
    using that assms(1) by (simp add: check_scs_def cs abort_msg CO_SDO_CS_MASK_def CO_SDO_CS_ABORT_def del: frame_fields(3))
  ultimately show ?thesis using assms
    by (cases "cs_state c")
      (simp_all add: csdo_recv_frame co_csdo_dn_ini_on_recv_def co_csdo_dn_seg_on_recv_def co_csdo_up_ini_on_recv_def
        co_csdo_up_seg_on_recv_def co_csdo_blk_dn_ini_on_recv_def co_csdo_blk_dn_sub_on_recv_def co_csdo_blk_dn_end_on_recv_def
        co_csdo_blk_up_ini_on_recv_def co_csdo_blk_up_sub_on_recv_def co_csdo_blk_up_end_on_recv_def cs abort_msg sdo_cs Let_def
        del: frame_fields(3))
qed

text \<open>The server ends a transfer with a last frame \<open>d\<close>.\<close>

definition ended :: "co_ssdo \<Rightarrow> co_dev \<Rightarrow> bytes \<Rightarrow> co_ssdo \<Rightarrow> bool" where
  "ended s D d s' \<longleftrightarrow> ssdo_idle (s'\<lparr>ss_sent := []\<rparr>) \<and> ss_par s' = ss_par s \<and> ss_dev s' = D \<and> ss_sent s' = [sdo_frame (cobid_res (ss_par s)) d]"

text \<open>A server in the middle of a transfer.\<close>

definition serving :: "co_sdo_par \<Rightarrow> co_dev \<Rightarrow> u16 \<Rightarrow> u8 \<Rightarrow> co_ssdo \<Rightarrow> bool" where
  "serving par D idx sub s \<longleftrightarrow> ss_par s = par \<and> ss_dev s = D \<and> ss_idx s = idx \<and> ss_subidx s = sub \<and> membuf_wf (sq_membuf (ss_req s))
     \<and> \<not> ss_hung s \<and> \<not> ss_broken s"

lemma server_abort:
  assumes "serving (ss_par t) D idx sub s" "ss_sent s = []"
  shows "ended t D (abort_data idx sub ac) (co_ssdo_enter (co_ssdo_abort_res ac s))"
  using assms
  by (simp add: serving_def ended_def co_ssdo_abort_res_def co_ssdo_abort_ind_def co_ssdo_send_abort_def co_ssdo_init_ini_res_def ssdo_send_def
      co_ssdo_enter_def ssdo_idle_def co_sdo_req_clear_def abort_frame del: ini_frame)

lemma server_done:
  assumes "serving (ss_par t) D idx sub s" "ss_sent s = [sdo_frame (cobid_res (ss_par t)) d]"
  shows "ended t D d (co_ssdo_enter (co_ssdo_abort_ind s))"
  using assms
  by (simp add: serving_def ended_def co_ssdo_abort_ind_def co_ssdo_enter_def ssdo_idle_def co_sdo_req_clear_def)


text \<open>The server has sent its last frame: the client takes it, confirms the request, and the bus is quiet.\<close>

lemma bus_last:
  assumes "ended s D d s'" "cs_sent c = []" "connected c s" "c' = co_csdo_recv H (sdo_frame (cobid_res (cs_par c)) d) c" "csdo_idle c'"
  shows "\<exists>s''. bus_run H (c, s') (c', s'') \<and> ssdo_idle s'' \<and> ss_par s'' = ss_par s \<and> ss_dev s'' = D"
proof -
  have m: "ss_sent s' = [sdo_frame (cobid_res (cs_par c)) d]" using assms(1,3) by (simp add: ended_def connected_def)
  have "bus_run H (c', s'\<lparr>ss_sent := []\<rparr>) (c', s'\<lparr>ss_sent := []\<rparr>)" by (rule bus_done) (use assms(5) in \<open>simp_all add: csdo_idle_def\<close>)
  then have "bus_run H (c, s') (c', s'\<lparr>ss_sent := []\<rparr>)" by (intro bus_to_client [OF assms(2) m]) (simp_all add: assms(4))
  then show ?thesis using assms(1) by (intro exI [of _ "s'\<lparr>ss_sent := []\<rparr>"]) (simp add: ended_def)
qed

section \<open>Idle ends\<close>

lemma init_idle:
  "co_csdo_is_valid par \<Longrightarrow> csdo_idle (co_csdo_init par)" "ssdo_idle (co_ssdo_init par D)"
  by (simp_all add: csdo_idle_def ssdo_idle_def co_csdo_init_def co_csdo_start_def co_csdo_abort_req_def co_csdo_emit_abort_def csdo_enter_def
      csdo_on_leave_def ssdo_init_state co_sdo_req_init_def)

text \<open>A device with one writable object of up to 16 bytes, and an allocator that never fails.\<close>

definition example_dev :: co_dev where
  "example_dev = [0x2000 \<mapsto> \<lparr>obj_subs = [1 \<mapsto> \<lparr>sub_read = True, sub_write = True, sub_rpdo = False, sub_tpdo = False,
     sub_mapping = False, sub_refuse = False, sub_type = CO_DEFTYPE_OCTET_STRING, sub_val = Some [9, 8, 7, 6, 5],
     sub_chk = (\<lambda>d. if length d > 16 then CO_SDO_AC_TYPE_LEN_HI else 0)\<rparr>], obj_array = None\<rparr>]"

definition example_heap :: heap where
  "example_heap = \<lparr>hp_ok = (\<lambda>_. True), hp_fresh = (\<lambda>_. 0)\<rparr>"

lemma example_idle:
  "csdo_idle (co_csdo_init example_par)" "connected (co_csdo_init example_par) (co_ssdo_init example_par D)" "hp_ok example_heap n"
  "cs_confirmed (co_csdo_init example_par) = []" "ss_dev (co_ssdo_init par D) = D"
proof -
  show "csdo_idle (co_csdo_init example_par)" by (rule init_idle) code_simp
  have "cs_par (co_csdo_init example_par) = example_par" by code_simp
  then show "connected (co_csdo_init example_par) (co_ssdo_init example_par D)" by (simp add: connected_def ssdo_init_state)
  show "cs_confirmed (co_csdo_init example_par) = []" by code_simp
qed (simp_all add: example_heap_def ssdo_init_state)

end
