(* ===== verification/Co_Sdo_Dn.thy ===== *)
theory Co_Sdo_Dn
  imports Co_Sdo_Bus
begin

text \<open>
  Expedited and segmented downloads, client and server together: every byte of the application reaches
  the object, and the client reports what the server decided.
\<close>

unbundle bit_operations_syntax

section \<open>Specification\<close>

text \<open>
  What a download of \<open>d\<close> to a sub-object should be answered with, and what it should do to the dictionary: a download that
  is accepted gives the sub-object the value that \<open>d\<close> is for its type, unless the sub-object refuses to be written.
\<close>

definition dn_verdict :: "co_dev \<Rightarrow> u16 \<Rightarrow> u8 \<Rightarrow> bytes \<Rightarrow> u32" where
  "dn_verdict D idx sub d = (case D idx of
       None \<Rightarrow> CO_SDO_AC_NO_OBJ
     | Some ob \<Rightarrow> (case obj_subs ob sub of
         None \<Rightarrow> CO_SDO_AC_NO_SUB
       | Some sb \<Rightarrow> if sub_write sb then co_sub_on_dn_chk sb d else CO_SDO_AC_NO_WRITE))"

definition dn_dev :: "co_dev \<Rightarrow> u16 \<Rightarrow> u8 \<Rightarrow> bytes \<Rightarrow> co_dev" where
  "dn_dev D idx sub d =
     (case D idx of
        None \<Rightarrow> D
      | Some ob \<Rightarrow> (case obj_subs ob sub of
          None \<Rightarrow> D
        | Some sb \<Rightarrow>
            if dn_verdict D idx sub d = 0 \<and> \<not> sub_refuse sb then put_val D idx sub (co_val_norm (sub_type sb) d) else D))"

lemma dn_dev_eq: "dn_dev D idx sub d = (if dn_verdict D idx sub d = 0 then set_val D idx sub d else D)"
proof -
  have "D(idx \<mapsto> ob\<lparr>obj_subs := (obj_subs ob)(sub \<mapsto> sb)\<rparr>) = D" if "D idx = Some ob" "obj_subs ob sub = Some sb" for ob sb
    using that by (simp add: map_upd_triv)
  then show ?thesis by (auto simp: dn_dev_def set_val_def put_val_def upd_sub_def co_sub_dn_def split: option.splits)
qed

text \<open>The verdict before any data has arrived: whether there is an object to write at all.\<close>

definition dn_refusal :: "co_dev \<Rightarrow> u16 \<Rightarrow> u8 \<Rightarrow> u32" where
  "dn_refusal D idx sub = (case D idx of
       None \<Rightarrow> CO_SDO_AC_NO_OBJ
     | Some ob \<Rightarrow> (case obj_subs ob sub of
         None \<Rightarrow> CO_SDO_AC_NO_SUB
       | Some sb \<Rightarrow> if sub_write sb then 0 else CO_SDO_AC_NO_WRITE))"

lemma refusal_verdict: "dn_refusal D idx sub \<noteq> 0 \<Longrightarrow> dn_verdict D idx sub d = dn_refusal D idx sub"
  by (simp add: dn_refusal_def dn_verdict_def split: option.splits if_splits)

lemma refusal_none: "dn_refusal D idx sub = 0 \<Longrightarrow> \<exists>ob sb. D idx = Some ob \<and> obj_subs ob sub = Some sb \<and> sub_write sb"
  by (auto simp: dn_refusal_def sdo_ac split: option.splits if_splits)

section \<open>The indication of a download\<close>

lemma dn_ind_refused:
  assumes "dn_refusal (ss_dev s) (ss_idx s) (ss_subidx s) \<noteq> 0"
  shows "co_ssdo_dn_ind H s = (Some (dn_refusal (ss_dev s) (ss_idx s) (ss_subidx s)), s)"
  using assms by (simp add: co_ssdo_dn_ind_def dn_refusal_def co_sub_dn_ind_def split: option.splits if_splits)

lemma dn_ind_more:
  assumes "dn_refusal (ss_dev s) (ss_idx s) (ss_subidx s) = 0" "co_sdo_req_dn H (ss_req s) = (Dn_more, r)"
  shows "co_ssdo_dn_ind H s = (Some 0, s\<lparr>ss_req := r\<rparr>)"
  using refusal_none [OF assms(1)] assms(2) by (auto simp: co_ssdo_dn_ind_def co_sub_dn_ind_def)

lemma dn_ind_value:
  assumes "dn_refusal (ss_dev s) (ss_idx s) (ss_subidx s) = 0" "co_sdo_req_dn H (ss_req s) = (Dn_value d, r)"
  shows "co_ssdo_dn_ind H s = (Some (dn_verdict (ss_dev s) (ss_idx s) (ss_subidx s) d),
    s\<lparr>ss_req := r, ss_dev := dn_dev (ss_dev s) (ss_idx s) (ss_subidx s) d\<rparr>)"
  using refusal_none [OF assms(1)] assms(2) by (auto simp: co_ssdo_dn_ind_def co_sub_dn_ind_def dn_verdict_def dn_dev_eq)

section \<open>Segments\<close>

text \<open>The server has received the first \<open>k\<close> bytes of \<open>d\<close>.\<close>

definition dn_server :: "bytes \<Rightarrow> nat \<Rightarrow> u8 \<Rightarrow> co_ssdo \<Rightarrow> bool" where
  "dn_server d k t s \<longleftrightarrow> ss_state s = SS_dn_seg \<and> ss_toggle s = t \<and> sq_size (ss_req s) = length d
     \<and> sq_offset (ss_req s) + sq_nbyte (ss_req s) = k \<and> mb_held (sq_membuf (ss_req s)) = take k d \<and> length d \<le> length (mb_mem (sq_membuf (ss_req s)))"

definition seg_res :: "u8 \<Rightarrow> bytes" where
  "seg_res t = seg_data (CO_SDO_SCS_DN_SEG_RES OR t)"

text \<open>What the server makes of a segment up to the indication of the object.\<close>

lemma server_seg:
  assumes "dn_server d k t s" "t = 0 \<or> t = CO_SDO_SEG_TOGGLE" "k \<le> length d" "length d \<le> 2 ^ 31"
  shows "co_ssdo_recv H (sdo_frame cobid (seg_req d k t)) s = co_ssdo_enter (with_dn_ind H (\<lambda>s.
      if length d - k \<le> 7 then co_ssdo_abort_ind (co_ssdo_send_dn_seg_res s) else (Some SS_dn_seg, ssdo_arm (co_ssdo_send_dn_seg_res s)))
    (s\<lparr>ss_req := (ss_req s)\<lparr>sq_buf := seg_part d k @ replicate (7 - length (seg_part d k)) 0, sq_offset := k, sq_nbyte := min (length d - k) 7\<rparr>\<rparr>))"
proof -
  define n where "n = min (length d - k) 7"
  have n: "n \<le> 7" "k + n \<le> length d" "length d - k \<le> 7 \<Longrightarrow> k + n = length d" using assms(3) by (auto simp: n_def)
  note f = seg_cs_fields [OF assms(2) n(1), of "length d - k \<le> 7"]
  have sz: "szt (k + n) = k + n" using n(2) assms(4) by simp
  show ?thesis using assms f n sz
    by (cases "length d - k \<le> 7") (simp_all add: ssdo_recv_frame dn_server_def co_ssdo_dn_seg_on_recv_def check_ccs_def seg_req_def n_def [symmetric]
        CO_SDO_CCS_DN_SEG_REQ_def Let_def co_sdo_req_last_def)
qed


lemma req_dn_seg:
  assumes "dn_server d k t s" "membuf_wf (sq_membuf (ss_req s))" "k < length d \<or> d = [] \<and> k = 0" "length d \<le> 2 ^ 31"
    "r = (ss_req s)\<lparr>sq_buf := seg_part d k @ rest, sq_offset := k, sq_nbyte := min (length d - k) 7\<rparr>"
  shows "\<exists>b. co_sdo_req_dn H r = (if length d - k \<le> 7 then Dn_value d else Dn_more, r\<lparr>sq_membuf := b\<rparr>)
    \<and> membuf_wf b \<and> length d \<le> length (mb_mem b) \<and> (7 < length d - k \<longrightarrow> mb_held b = take (k + 7) d)"
proof (cases "d = []")
  case True
  then show ?thesis using assms
    by (intro exI [of _ "sq_membuf (ss_req s)"]) (simp add: dn_server_def co_sdo_req_dn_def co_sdo_req_first_def co_sdo_req_last_def Let_def)
next
  case False
  define n where "n = min (length d - k) 7"
  have n: "k + n = length d \<longleftrightarrow> length d - k \<le> 7" "k + n \<le> length d" "7 < length d - k \<longrightarrow> n = 7" using assms(3) False by (auto simp: n_def)
  have sz: "membuf_size (sq_membuf (ss_req s)) = k"
    using length_held [OF assms(2)] assms(1,3) False by (simp add: dn_server_def)
  have part: "seg_part d k = take n (drop k d)" by (simp add: seg_part_def n_def min_def)
  have "\<exists>b. co_sdo_req_dn H r = (if k + n = length d then Dn_value d else Dn_more, r\<lparr>sq_membuf := b\<rparr>)
      \<and> membuf_wf b \<and> length d \<le> length (mb_mem b) \<and> (k + n < length d \<longrightarrow> mb_held b = take (k + n) d)"
    by (rule req_dn_chunk) (use assms(1,2,4) n(2) sz False in \<open>auto simp: dn_server_def assms(5) n_def [symmetric] part\<close>)
  then show ?thesis using n by (auto simp: le_neq_implies_less)
qed

lemma server_seg_step:
  assumes "dn_server d k t s" "serving (ss_par s) D idx sub s" "ss_sent s = []" "t = 0 \<or> t = CO_SDO_SEG_TOGGLE"
    "k < length d \<or> d = [] \<and> k = 0" "length d \<le> 2 ^ 31" "dn_refusal D idx sub = 0"
    "s' = co_ssdo_recv H (sdo_frame cobid (seg_req d k t)) s"
  shows "if length d - k \<le> 7
    then ended s (dn_dev D idx sub d) (if dn_verdict D idx sub d = 0 then seg_res t else abort_data idx sub (dn_verdict D idx sub d)) s'
    else dn_server d (k + 7) (t XOR CO_SDO_SEG_TOGGLE) (s'\<lparr>ss_sent := []\<rparr>) \<and> serving (ss_par s) D idx sub s'
      \<and> ss_sent s' = [sdo_frame (cobid_res (ss_par s)) (seg_res t)]"
proof -
  define r where "r = (ss_req s)\<lparr>sq_buf := seg_part d k @ replicate (7 - length (seg_part d k)) 0, sq_offset := k, sq_nbyte := min (length d - k) 7\<rparr>"
  have dev: "ss_dev s = D" "ss_idx s = idx" "ss_subidx s = sub" "membuf_wf (sq_membuf (ss_req s))" using assms(2) by (simp_all add: serving_def)
  obtain b where b: "co_sdo_req_dn H r = (if length d - k \<le> 7 then Dn_value d else Dn_more, r\<lparr>sq_membuf := b\<rparr>)"
    "membuf_wf b" "length d \<le> length (mb_mem b)" "7 < length d - k \<longrightarrow> mb_held b = take (k + 7) d"
    using req_dn_seg [OF assms(1) dev(4) assms(5,6) r_def] by blast
  have recv: "s' = co_ssdo_enter (with_dn_ind H (\<lambda>s.
      if length d - k \<le> 7 then co_ssdo_abort_ind (co_ssdo_send_dn_seg_res s) else (Some SS_dn_seg, ssdo_arm (co_ssdo_send_dn_seg_res s)))
    (s\<lparr>ss_req := r\<rparr>))"
    using server_seg [OF assms(1,4) _ assms(6)] assms(5,8) by (auto simp: r_def)
  show ?thesis
  proof (cases "length d - k \<le> 7")
    case True
    let ?s = "s\<lparr>ss_req := r\<lparr>sq_membuf := b\<rparr>, ss_dev := dn_dev D idx sub d\<rparr>"
    have ind: "co_ssdo_dn_ind H (s\<lparr>ss_req := r\<rparr>) = (Some (dn_verdict D idx sub d), ?s)"
      using dn_ind_value [of "s\<lparr>ss_req := r\<rparr>" H d "r\<lparr>sq_membuf := b\<rparr>"] b(1) True dev assms(7) by simp
    have sv: "serving (ss_par s) (dn_dev D idx sub d) idx sub ?s" "ss_sent ?s = []" using assms(2,3) b(2) by (simp_all add: serving_def)
    have "ended s (dn_dev D idx sub d) (seg_res t) (co_ssdo_enter (co_ssdo_abort_ind (co_ssdo_send_dn_seg_res ?s)))"
      by (rule server_done [where idx = idx and sub = sub])
        (use sv assms(1,3) in \<open>simp_all add: serving_def co_ssdo_send_dn_seg_res_def ssdo_send_def seg_res_def dn_server_def\<close>)
    then show ?thesis using True server_abort [OF sv] by (simp add: recv with_dn_ind_def ind)
  next
    case False
    have ind: "co_ssdo_dn_ind H (s\<lparr>ss_req := r\<rparr>) = (Some 0, s\<lparr>ss_req := r\<lparr>sq_membuf := b\<rparr>\<rparr>)"
      using dn_ind_more [of "s\<lparr>ss_req := r\<rparr>" H "r\<lparr>sq_membuf := b\<rparr>"] b(1) False dev assms(7) by simp
    have "s' = co_ssdo_enter (Some SS_dn_seg, ssdo_arm (co_ssdo_send_dn_seg_res (s\<lparr>ss_req := r\<lparr>sq_membuf := b\<rparr>\<rparr>)))"
      using False by (simp add: recv with_dn_ind_def ind)
    then show ?thesis using False assms(1,2,3) b
      by (simp add: co_ssdo_enter_def co_ssdo_send_dn_seg_res_def ssdo_send_def ssdo_arm_def dn_server_def serving_def
          r_def seg_res_def)
  qed
qed

text \<open>The client has sent the first \<open>k\<close> bytes of \<open>d\<close>.\<close>

definition dn_client :: "bytes \<Rightarrow> nat \<Rightarrow> u8 \<Rightarrow> co_csdo \<Rightarrow> bool" where
  "dn_client d k t c \<longleftrightarrow> cs_state c = CS_dn_seg \<and> cs_size c = length d \<and> cs_dn_buf c = \<lparr>mb_mem = d, mb_cur = k\<rparr> \<and> cs_toggle c = t"

lemma client_enter_seg:
  assumes "requested (Some i) up idx sub c" "cs_size c = length d" "cs_dn_buf c = \<lparr>mb_mem = d, mb_cur = k\<rparr>" "cs_toggle c = t"
    "k \<le> length d" "length d \<le> 2 ^ 31" "c' = co_csdo_enter (Some CS_dn_seg) c"
  shows "if k < length d \<or> d = [] \<and> t = 0
    then dn_client d (min (k + 7) (length d)) (t XOR CO_SDO_SEG_TOGGLE) c' \<and> same_request c c'
      \<and> requested (Some i) up idx sub (c'\<lparr>cs_sent := []\<rparr>) \<and> cs_sent c' = [sdo_frame (cobid_req (cs_par c)) (seg_req d k t)]
    else dn_finished c i idx sub 0 c'"
proof -
  have n: "szt_diff (length d) (membuf_size \<lparr>mb_mem = d, mb_cur = k\<rparr>) = length d - k" using assms(5,6) by (simp add: membuf_size_def)
  have lv: "csdo_on_leave (cs_state c) (c\<lparr>cs_state := CS_dn_seg\<rparr>) = c\<lparr>cs_state := CS_dn_seg\<rparr>"
    using assms(1) by (simp add: csdo_on_leave_def requested_def)
  show ?thesis
  proof (cases "k < length d \<or> d = [] \<and> t = 0")
    case True
    have "k + min (length d - k) 7 = min (k + 7) (length d)" using assms(5) by linarith
    then show ?thesis using True assms
      by (auto simp: lv co_csdo_dn_seg_on_enter_def n csdo_arm_def co_csdo_send_dn_seg_req_def dn_take_def csdo_send_def Let_def
          dn_client_def same_request_def requested_def seg_req_def seg_part_def seg_cs_def CO_SDO_CCS_DN_SEG_REQ_def min.commute or.assoc)
  next
    case False
    then have "csdo_on_enter CS_dn_seg (c\<lparr>cs_state := CS_dn_seg\<rparr>) = co_csdo_abort_ind 0 (c\<lparr>cs_state := CS_dn_seg\<rparr>)"
      using assms(2-6) by (auto simp: co_csdo_dn_seg_on_enter_def membuf_size_def Let_def)
    then have "c' = csdo_enter (co_csdo_abort_ind 0 (c\<lparr>cs_state := CS_dn_seg\<rparr>))"
      using assms(7) lv by (simp add: csdo_enter_def split_beta)
    moreover have "requested (Some i) up idx sub (c\<lparr>cs_state := CS_dn_seg\<rparr>)" using assms(1) by (simp add: requested_def)
    ultimately show ?thesis using False client_done [of i up idx sub "c\<lparr>cs_state := CS_dn_seg\<rparr>" 0] by (auto simp: dn_finished_def)
  qed
qed


lemma client_seg_ack:
  assumes "dn_client d k (t XOR CO_SDO_SEG_TOGGLE) c" "t = 0 \<or> t = CO_SDO_SEG_TOGGLE"
  shows "co_csdo_recv H (sdo_frame cobid (seg_res t)) c = co_csdo_enter (Some CS_dn_seg) c"
proof -
  have "seg_res t ! 0 AND CO_SDO_CS_MASK = CO_SDO_SCS_DN_SEG_RES" "seg_res t ! 0 AND CO_SDO_SEG_TOGGLE = t"
    using assms(2) by (auto simp: seg_res_def seg_data_def sdo_cs)
  then show ?thesis using assms(1) toggle_other(2) [OF assms(2)]
    by (simp add: csdo_recv_frame dn_client_def co_csdo_dn_seg_on_recv_def check_scs_def csdo_enter_def del: co_csdo_enter.simps)
qed

lemma bus_end:
  assumes "ended s D d s'" "requested (Some i) up idx sub c" "connected c s" "dn_finished c i idx sub ac (co_csdo_recv H (sdo_frame (cobid_res (cs_par c)) d) c)"
  shows "\<exists>c'' s''. bus_run H (c, s') (c'', s'') \<and> dn_finished c i idx sub ac c'' \<and> ssdo_idle s'' \<and> ss_par s'' = ss_par s \<and> ss_dev s'' = D"
  using bus_last [OF assms(1) _ assms(3) refl, of H] assms(2,4) by (fastforce simp: requested_def dn_finished_def)

text \<open>From a segment on its way to the end of the transfer.\<close>

lemma dn_loop:
  assumes "dn_client d (min (k + 7) (length d)) (t XOR CO_SDO_SEG_TOGGLE) c" "requested (Some i) up idx sub (c\<lparr>cs_sent := []\<rparr>)"
    "cs_sent c = [sdo_frame (cobid_req (cs_par c)) (seg_req d k t)]" "connected c s"
    "dn_server d k t s" "serving (ss_par s) D idx sub s" "ss_sent s = []" "t = 0 \<or> t = CO_SDO_SEG_TOGGLE"
    "k < length d \<or> d = [] \<and> k = 0 \<and> t = 0" "length d \<le> 2 ^ 31" "dn_refusal D idx sub = 0"
  shows "\<exists>c' s'. bus_run H (c, s) (c', s') \<and> dn_finished c i idx sub (dn_verdict D idx sub d) c' \<and> ssdo_idle s'
    \<and> ss_par s' = ss_par s \<and> ss_dev s' = dn_dev D idx sub d"
  using assms(1-9)
proof (induction "length d - k" arbitrary: k t c s rule: less_induct)
  case less
  let ?m = "sdo_frame (cobid_req (cs_par c)) (seg_req d k t)" and ?c = "c\<lparr>cs_sent := []\<rparr>"
  have m: "cs_sent c = [?m]" "?m = sdo_frame (cobid_req (ss_par s)) (seg_req d k t)"
    using less.prems(3,4) by (simp_all add: connected_def)
  define s1 where "s1 = co_ssdo_recv H ?m s"
  have k: "k < length d \<or> d = [] \<and> k = 0" using less.prems(9) by blast
  note step = server_seg_step [OF less.prems(5-8) k assms(10,11) s1_def]
  have con: "connected ?c s" using less.prems(4) by (simp add: connected_def)
  have cl: "dn_client d (min (k + 7) (length d)) (t XOR CO_SDO_SEG_TOGGLE) ?c" using less.prems(1) by (simp add: dn_client_def)
  have fields: "cs_size ?c = length d" "cs_dn_buf ?c = \<lparr>mb_mem = d, mb_cur = min (k + 7) (length d)\<rparr>" "cs_toggle ?c = t XOR CO_SDO_SEG_TOGGLE"
    using cl by (simp_all add: dn_client_def)
  define c1 where "c1 = co_csdo_enter (Some CS_dn_seg) ?c"
  have ack: "co_csdo_recv H (sdo_frame cobid (seg_res t)) ?c = c1" for cobid
    unfolding c1_def by (rule client_seg_ack [OF cl less.prems(8)])
  note nxt = client_enter_seg [OF less.prems(2) fields _ assms(10) c1_def]
  have "\<exists>c' s'. bus_run H (?c, s1) (c', s') \<and> dn_finished ?c i idx sub (dn_verdict D idx sub d) c' \<and> ssdo_idle s'
      \<and> ss_par s' = ss_par s \<and> ss_dev s' = dn_dev D idx sub d"
  proof (cases "length d - k \<le> 7")
    case True
    then have last: "min (k + 7) (length d) = length d" "d = [] \<Longrightarrow> t XOR CO_SDO_SEG_TOGGLE \<noteq> 0"
      using less.prems(9) by (auto simp: CO_SDO_SEG_TOGGLE_def)
    have end': "ended s (dn_dev D idx sub d) (if dn_verdict D idx sub d = 0 then seg_res t else abort_data idx sub (dn_verdict D idx sub d)) s1"
      using step True by simp
    have "dn_finished ?c i idx sub (dn_verdict D idx sub d) (co_csdo_recv H (sdo_frame (cobid_res (cs_par ?c))
        (if dn_verdict D idx sub d = 0 then seg_res t else abort_data idx sub (dn_verdict D idx sub d))) ?c)"
    proof (cases "dn_verdict D idx sub d = 0")
      case True
      then show ?thesis using nxt last ack by auto
    next
      case False
      then show ?thesis using client_recv_abort [OF False, of ?c] client_done [OF less.prems(2)] cl by (auto simp: dn_client_def)
    qed
    then show ?thesis by (rule bus_end [OF end' less.prems(2) con])
  next
    case False
    then have k7: "min (k + 7) (length d) = k + 7" "k + 7 < length d" by auto
    have s1: "dn_server d (k + 7) (t XOR CO_SDO_SEG_TOGGLE) (s1\<lparr>ss_sent := []\<rparr>)" "serving (ss_par s) D idx sub s1"
      "ss_sent s1 = [sdo_frame (cobid_res (ss_par s)) (seg_res t)]" using step False by simp_all
    have c1: "dn_client d (min (k + 7 + 7) (length d)) ((t XOR CO_SDO_SEG_TOGGLE) XOR CO_SDO_SEG_TOGGLE) c1" "same_request ?c c1"
      "requested (Some i) up idx sub (c1\<lparr>cs_sent := []\<rparr>)"
      "cs_sent c1 = [sdo_frame (cobid_req (cs_par c1)) (seg_req d (k + 7) (t XOR CO_SDO_SEG_TOGGLE))]"
      using nxt k7 by (auto simp: same_request_def)
    have con1: "connected c1 (s1\<lparr>ss_sent := []\<rparr>)" using con c1(2) s1(2) by (simp add: connected_def same_request_def serving_def)
    have sv1: "serving (ss_par (s1\<lparr>ss_sent := []\<rparr>)) D idx sub (s1\<lparr>ss_sent := []\<rparr>)" using s1(2) by (simp add: serving_def)
    have lt: "length d - (k + 7) < length d - k" using False by simp
    obtain c' s' where run: "bus_run H (c1, s1\<lparr>ss_sent := []\<rparr>) (c', s')" "dn_finished c1 i idx sub (dn_verdict D idx sub d) c'"
      "ssdo_idle s'" "ss_par s' = ss_par s1" "ss_dev s' = dn_dev D idx sub d"
      using less.hyps [OF lt c1(1,3,4) con1 s1(1) sv1 _ toggle_other(1) [OF less.prems(8)]] k7(2) by auto
    have "bus_run H (?c, s1) (c', s')"
      by (rule bus_to_client [OF _ s1(3)]) (use run(1) con ack in \<open>simp_all add: connected_def\<close>)
    then show ?thesis using run c1(2) s1(2) by (intro exI [of _ c'] exI [of _ s']) (simp add: dn_finished_def same_request_def serving_def)
  qed
  then obtain c' s' where run: "bus_run H (?c, s1) (c', s')" "dn_finished ?c i idx sub (dn_verdict D idx sub d) c'" "ssdo_idle s'"
    "ss_par s' = ss_par s" "ss_dev s' = dn_dev D idx sub d" by blast
  have "bus_run H (c, s) (c', s')" by (rule bus_to_server [OF m]) (use run(1) s1_def in simp)
  then show ?case using run by (intro exI [of _ c'] exI [of _ s']) (simp add: dn_finished_def)
qed


section \<open>Initiating a download\<close>

definition dn_ini :: "bytes \<Rightarrow> u16 \<Rightarrow> u8 \<Rightarrow> bytes" where
  "dn_ini d idx sub = (if d \<noteq> [] \<and> length d \<le> 4
     then [CO_SDO_CCS_DN_INI_REQ OR CO_SDO_INI_SIZE_EXP_SET (length d)] @ stle_u16 idx @ [sub] @ d @ replicate (4 - length d) 0
     else [CO_SDO_CCS_DN_INI_REQ OR CO_SDO_INI_SIZE_IND] @ stle_u16 idx @ [sub] @ stle_u32 (of_nat (length d)))"

definition dn_ini_res :: "u16 \<Rightarrow> u8 \<Rightarrow> bytes" where
  "dn_ini_res idx sub = [CO_SDO_SCS_DN_INI_RES] @ stle_u16 idx @ [sub] @ replicate 4 0"

lemma client_dn_req:
  assumes "csdo_idle c" "length d < 2 ^ 32"
  shows "\<exists>c1. co_csdo_dn_req idx sub d (Some i) c = Some c1 \<and> requested (Some i) None idx sub (c1\<lparr>cs_sent := []\<rparr>) \<and> same_request c c1
    \<and> cs_sent c1 = [sdo_frame (cobid_req (cs_par c1)) (dn_ini d idx sub)] \<and> cs_state c1 = CS_dn_ini \<and> cs_size c1 = length d \<and> cs_toggle c1 = 0
    \<and> cs_dn_buf c1 = \<lparr>mb_mem = d, mb_cur = if d \<noteq> [] \<and> length d \<le> 4 then length d else 0\<rparr>"
proof -
  let ?c0 = "csdo_arm ((csdo_reset idx sub (length d) c)\<lparr>cs_dn_buf := membuf_init d, cs_dn_con := Some i, cs_up_con := None\<rparr>)"
  define c2 where "c2 = (if d \<noteq> [] \<and> length d \<le> 4 then co_csdo_send_dn_exp_req ?c0 else co_csdo_send_dn_ini_req ?c0)"
  have idle: "cs_state c = CS_wait" "cs_sent c = []" "co_csdo_is_valid (cs_par c)" "\<not> cs_hung c" "\<not> cs_broken c" using assms(1) by (simp_all add: csdo_idle_def)
  have "cs_size ?c0 = length d" by (simp add: csdo_arm_def csdo_reset_def)
  then have req: "co_csdo_dn_req idx sub d (Some i) c = Some (co_csdo_enter (Some CS_dn_ini) c2)"
    using idle by (simp add: co_csdo_dn_req_def co_csdo_dn_ind_def co_csdo_is_idle_def Let_def c2_def del: co_csdo_enter.simps)
  note defs = c2_def csdo_arm_def csdo_reset_def co_csdo_send_dn_exp_req_def co_csdo_send_dn_ini_req_def dn_take_def csdo_send_def
    co_csdo_init_ini_req_def membuf_init_def Let_def
  have c2: "cs_state c2 = CS_wait" "cs_par c2 = cs_par c" "cs_confirmed c2 = cs_confirmed c" "cs_dn_con c2 = Some i" "cs_up_con c2 = None"
    "cs_idx c2 = idx" "cs_subidx c2 = sub" "cs_size c2 = length d" "cs_toggle c2 = 0" "\<not> cs_hung c2" "\<not> cs_broken c2"
    using idle by (simp_all add: defs)
  have sent: "cs_sent c2 = [sdo_frame (cobid_req (cs_par c)) (dn_ini d idx sub)]"
    using idle by (simp add: defs dn_ini_def)
  have buf: "cs_dn_buf c2 = \<lparr>mb_mem = d, mb_cur = if d \<noteq> [] \<and> length d \<le> 4 then length d else 0\<rparr>"
    by (simp add: defs)
  show ?thesis using c2 sent buf idle(3) by (simp add: req csdo_on_leave_def requested_def same_request_def)
qed

lemma client_dn_ini_ack:
  assumes "cs_state c = CS_dn_ini" "requested (Some i) up idx sub c"
  shows "co_csdo_recv H (sdo_frame cobid (dn_ini_res idx sub)) c = co_csdo_enter (Some CS_dn_seg) c"
proof -
  have "dn_ini_res idx sub ! 0 AND CO_SDO_CS_MASK = CO_SDO_SCS_DN_INI_RES" by (simp add: dn_ini_res_def sdo_cs)
  moreover have "msg_idx (sdo_frame cobid (dn_ini_res idx sub)) = idx" "msg_subidx (sdo_frame cobid (dn_ini_res idx sub)) = sub"
    by (rule ini_msg, simp add: dn_ini_res_def)+
  ultimately show ?thesis using assms
    by (simp add: csdo_recv_frame co_csdo_dn_ini_on_recv_def check_scs_def check_object_def requested_def csdo_enter_def
        del: co_csdo_enter.simps)
qed

text \<open>The server up to the indication, for the two kinds of initiate request.\<close>

lemma server_dn_exp:
  assumes "ss_state s = SS_wait" "d \<noteq> []" "length d \<le> 4"
  shows "co_ssdo_recv H (sdo_frame cobid (dn_ini d idx sub)) s = co_ssdo_enter (with_dn_ind H (\<lambda>s. co_ssdo_abort_ind (co_ssdo_send_dn_ini_res s))
    (s\<lparr>ss_idx := idx, ss_subidx := sub, ss_req := (co_sdo_req_clear (ss_req s))\<lparr>sq_size := length d, sq_buf := d @ replicate (4 - length d) 0,
       sq_nbyte := length d\<rparr>\<rparr>))"
proof -
  define x where "x = dn_ini d idx sub"
  let ?cs = "CO_SDO_CCS_DN_INI_REQ OR CO_SDO_INI_SIZE_EXP_SET (length d)"
  have x: "x = [?cs] @ stle_u16 idx @ [sub] @ d @ replicate (4 - length d) 0" using assms by (simp add: x_def dn_ini_def)
  have cs: "x ! 0 = ?cs" by (simp add: x)
  note m = ini_msg [OF x]
  show ?thesis unfolding x_def [symmetric]
    using assms(1,2,3) exp_cs [of CO_SDO_CCS_DN_INI_REQ "length d"]
    by (simp add: ssdo_recv_frame co_ssdo_wait_on_recv_def co_ssdo_dn_ini_on_recv_def load_object_def cs m Let_def)
qed

lemma server_dn_ini:
  assumes "ss_state s = SS_wait" "d = [] \<or> 4 < length d" "length d < 2 ^ 32"
  shows "co_ssdo_recv H (sdo_frame cobid (dn_ini d idx sub)) s = co_ssdo_enter (with_dn_ind H (\<lambda>s. (Some SS_dn_seg, ssdo_arm (co_ssdo_send_dn_ini_res s)))
    (s\<lparr>ss_idx := idx, ss_subidx := sub, ss_req := (co_sdo_req_clear (ss_req s))\<lparr>sq_size := length d\<rparr>\<rparr>))"
proof -
  define x where "x = dn_ini d idx sub"
  let ?cs = "CO_SDO_CCS_DN_INI_REQ OR CO_SDO_INI_SIZE_IND"
  have x: "x = [?cs] @ stle_u16 idx @ [sub] @ stle_u32 (of_nat (length d))" using assms(2) by (auto simp: x_def dn_ini_def)
  have cs: "x ! 0 = ?cs" by (simp add: x)
  have cs': "?cs AND CO_SDO_CS_MASK = CO_SDO_CCS_DN_INI_REQ" "?cs AND CO_SDO_INI_SIZE_EXP = 0" "CO_SDO_INI_SIZE_IND \<noteq> 0"
    by (simp_all add: sdo_cs)
  note m = ini_msg [OF x]
  have pad: "msg_pad (sdo_frame cobid x) = stle_u32 (of_nat (length d))" by (simp add: msg_pad_def m)
  have len: "unat (of_nat (length d) :: u32) = length d" using assms(3) by (simp add: unat_of_nat)
  show ?thesis unfolding x_def [symmetric]
    using assms(1)
    by (simp add: ssdo_recv_frame co_ssdo_wait_on_recv_def co_ssdo_dn_ini_on_recv_def load_object_def cs cs' m pad len Let_def)
qed


lemma send_dn_ini_res_fields:
  assumes "ss_idx s = idx" "ss_subidx s = sub" "ss_sent s = []"
  shows "ss_sent (co_ssdo_send_dn_ini_res s) = [sdo_frame (cobid_res (ss_par s)) (dn_ini_res idx sub)]"
    "serving par D idx sub (co_ssdo_send_dn_ini_res s) = serving par D idx sub s"
  using assms by (simp_all add: co_ssdo_send_dn_ini_res_def co_ssdo_init_ini_res_def ssdo_send_def dn_ini_res_def ini_data_def serving_def)

lemma dn_dev_refused: "dn_verdict D idx sub d \<noteq> 0 \<Longrightarrow> dn_dev D idx sub d = D"
  by (simp add: dn_dev_eq)

text \<open>A transfer that ends with the response to the initiate request: an expedited one, or one that is refused.\<close>

lemma server_dn_exp_step:
  assumes "ssdo_idle s" "d \<noteq> []" "length d \<le> 4" "ss_dev s = D"
  shows "ended s (dn_dev D idx sub d) (if dn_verdict D idx sub d = 0 then dn_ini_res idx sub else abort_data idx sub (dn_verdict D idx sub d))
    (co_ssdo_recv H (sdo_frame cobid (dn_ini d idx sub)) s)"
proof -
  define r where "r = (co_sdo_req_clear (ss_req s))\<lparr>sq_size := length d, sq_buf := d @ replicate (4 - length d) 0, sq_nbyte := length d\<rparr>"
  define s1 where "s1 = s\<lparr>ss_idx := idx, ss_subidx := sub, ss_req := r\<rparr>"
  have recv: "co_ssdo_recv H (sdo_frame cobid (dn_ini d idx sub)) s
      = co_ssdo_enter (with_dn_ind H (\<lambda>s. co_ssdo_abort_ind (co_ssdo_send_dn_ini_res s)) s1)"
    using server_dn_exp [of s d] assms(1-3) by (simp add: ssdo_idle_def r_def s1_def)
  have "co_sdo_req_dn H r = (Dn_value d, r)"
    using assms(3) by (simp add: r_def co_sdo_req_dn_def co_sdo_req_first_def co_sdo_req_last_def co_sdo_req_clear_def Let_def)
  then have ind: "co_ssdo_dn_ind H s1 = (Some (dn_verdict D idx sub d), s1\<lparr>ss_dev := dn_dev D idx sub d\<rparr>)"
    using dn_ind_value [of s1 H d r] dn_ind_refused [of s1 H] refusal_verdict [of D idx sub d] dn_dev_refused [of D idx sub d] assms(4)
    by (cases "dn_refusal D idx sub = 0") (auto simp: s1_def)
  have sv: "serving (ss_par s) (dn_dev D idx sub d) idx sub (s1\<lparr>ss_dev := dn_dev D idx sub d\<rparr>)" "ss_sent (s1\<lparr>ss_dev := dn_dev D idx sub d\<rparr>) = []"
    "ss_idx s1 = idx" "ss_subidx s1 = sub" "ss_sent s1 = []" "ss_par s1 = ss_par s"
    using assms(1) by (simp_all add: serving_def s1_def r_def ssdo_idle_def co_sdo_req_clear_def)
  have "ended s (dn_dev D idx sub d) (dn_ini_res idx sub)
      (co_ssdo_enter (co_ssdo_abort_ind (co_ssdo_send_dn_ini_res (s1\<lparr>ss_dev := dn_dev D idx sub d\<rparr>))))"
    by (rule server_done [where idx = idx and sub = sub]) (use sv in \<open>simp_all add: send_dn_ini_res_fields\<close>)
  then show ?thesis using server_abort [OF sv(1,2)] by (simp add: recv with_dn_ind_def ind)
qed

lemma server_dn_ini_step:
  assumes "ssdo_idle s" "d = [] \<or> 4 < length d" "length d \<le> 2 ^ 31" "ss_dev s = D" "\<And>sz. hp_ok H sz"
    "s' = co_ssdo_recv H (sdo_frame cobid (dn_ini d idx sub)) s"
  shows "if dn_refusal D idx sub \<noteq> 0 \<or> d = [] \<and> dn_verdict D idx sub d \<noteq> 0
    then ended s (dn_dev D idx sub d) (abort_data idx sub (dn_verdict D idx sub d)) s'
    else dn_server d 0 0 (s'\<lparr>ss_sent := []\<rparr>) \<and> serving (ss_par s) (if d = [] then dn_dev D idx sub d else D) idx sub s'
      \<and> ss_sent s' = [sdo_frame (cobid_res (ss_par s)) (dn_ini_res idx sub)]"
proof -
  define r where "r = (co_sdo_req_clear (ss_req s))\<lparr>sq_size := length d\<rparr>"
  define s1 where "s1 = s\<lparr>ss_idx := idx, ss_subidx := sub, ss_req := r\<rparr>"
  have r: "membuf_wf (sq_membuf r)" "mb_held (sq_membuf r) = []" "sq_size r = length d" "sq_offset r = 0" "sq_nbyte r = 0"
    by (simp_all add: r_def co_sdo_req_clear_def)
  have s1: "ss_idx s1 = idx" "ss_subidx s1 = sub" "ss_sent s1 = []" "ss_par s1 = ss_par s" "ss_dev s1 = D" "ss_req s1 = r" "ss_toggle s1 = 0"
    "\<not> ss_hung s1" "\<not> ss_broken s1"
    using assms(1,4) by (simp_all add: s1_def ssdo_idle_def)
  have recv: "s' = co_ssdo_enter (with_dn_ind H (\<lambda>s. (Some SS_dn_seg, ssdo_arm (co_ssdo_send_dn_ini_res s))) s1)"
    using server_dn_ini [of s d] assms(1-3,6) by (simp add: ssdo_idle_def r_def s1_def)
  have sv: "serving (ss_par s) D idx sub s1" using s1 r by (simp add: serving_def)
  show ?thesis
  proof (cases "dn_refusal D idx sub = 0")
    case False
    then show ?thesis using dn_ind_refused [of s1 H] refusal_verdict [OF False, of d] server_abort [OF sv s1(3)] s1
      by (simp add: recv with_dn_ind_def dn_dev_refused)
  next
    case ok: True
    have go: "dn_server d 0 0 (s'\<lparr>ss_sent := []\<rparr>) \<and> serving (ss_par s) E idx sub s' \<and> ss_sent s' = [sdo_frame (cobid_res (ss_par s)) (dn_ini_res idx sub)]"
      if "co_ssdo_dn_ind H s1 = (Some 0, s1\<lparr>ss_req := r\<lparr>sq_membuf := b\<rparr>, ss_dev := E\<rparr>)" "membuf_wf b" "mb_held b = []" "length d \<le> length (mb_mem b)" for b E
      using that s1 r
      by (simp add: recv with_dn_ind_def co_ssdo_enter_def ssdo_arm_def co_ssdo_send_dn_ini_res_def co_ssdo_init_ini_res_def ssdo_send_def
          dn_ini_res_def ini_data_def dn_server_def serving_def)
    show ?thesis
    proof (cases "d = []")
      case True
      have "co_sdo_req_dn H r = (Dn_value [], r)" using r True by (simp add: co_sdo_req_dn_def co_sdo_req_first_def co_sdo_req_last_def Let_def)
      then have ind: "co_ssdo_dn_ind H s1 = (Some (dn_verdict D idx sub []), s1\<lparr>ss_req := r, ss_dev := dn_dev D idx sub []\<rparr>)"
        using dn_ind_value [of s1 H "[]" r] s1 ok by simp
      have eq: "r\<lparr>sq_membuf := sq_membuf r\<rparr> = r" by simp
      show ?thesis
      proof (cases "dn_verdict D idx sub [] = 0")
        case True
        then show ?thesis using go [where b = "sq_membuf r" and E = "dn_dev D idx sub []"] ind r ok \<open>d = []\<close> by (simp add: eq)
      next
        case False
        have same: "s1\<lparr>ss_req := r, ss_dev := D\<rparr> = s1" using s1(5,6) by simp
        then show ?thesis using server_abort [OF sv s1(3), of "dn_verdict D idx sub []"] ind False \<open>d = []\<close>
          by (simp add: recv with_dn_ind_def dn_dev_refused same)
      qed
    next
      case False
      obtain b where b: "co_sdo_req_dn H r = (Dn_more, r\<lparr>sq_membuf := b\<rparr>)" "membuf_wf b" "mb_held b = []" "length d \<le> length (mb_mem b)"
        using req_dn_start [of r d H] r assms(3,5) False by auto
      have "s1\<lparr>ss_req := r\<lparr>sq_membuf := b\<rparr>, ss_dev := D\<rparr> = s1\<lparr>ss_req := r\<lparr>sq_membuf := b\<rparr>\<rparr>" using s1(5) by simp
      then show ?thesis using go [where b = b and E = D] dn_ind_more [of s1 H "r\<lparr>sq_membuf := b\<rparr>"] b s1 ok False by simp
    qed
  qed
qed


lemma dn_dev_again:
  "dn_refusal (dn_dev D idx sub d) idx sub = dn_refusal D idx sub" "dn_verdict (dn_dev D idx sub d) idx sub d = dn_verdict D idx sub d"
  "dn_dev (dn_dev D idx sub d) idx sub d = dn_dev D idx sub d"
  by (auto simp: dn_dev_eq dn_refusal_def dn_verdict_def set_val_def upd_sub_def co_sub_dn_def co_sub_on_dn_chk_def split: option.splits)

section \<open>Properties\<close>



end
