(* ===== verification/Co_Sdo_Blk.thy ===== *)
theory Co_Sdo_Blk
  imports Co_Sdo_Dn
begin

text \<open>
  Block downloads, client and server together: segments are sent in bursts, every block is acknowledged, and the
  checksum of the whole value is compared at the end.
\<close>

unbundle bit_operations_syntax

section \<open>Frames\<close>

text \<open>The segment with sequence number \<open>j\<close> that starts at byte \<open>k\<close>, the acknowledgement of a block, and the end of the transfer.\<close>

definition blk_seg :: "bytes \<Rightarrow> nat \<Rightarrow> nat \<Rightarrow> bytes" where
  "blk_seg d k j = (if length d - k \<le> 7 then of_nat j OR CO_SDO_SEQ_LAST else of_nat j) # seg_part d k @ replicate (7 - length (seg_part d k)) 0"

definition blk_ack :: "nat \<Rightarrow> bytes" where
  "blk_ack j = [CO_SDO_SCS_BLK_DN_RES OR CO_SDO_SC_BLK_RES, of_nat j, of_nat CO_SSDO_MAX_SEQNO] @ replicate 5 0"

definition blk_end :: "bytes \<Rightarrow> bytes" where
  "blk_end d = [CO_SDO_CCS_BLK_DN_REQ OR CO_SDO_SC_END_BLK OR CO_SDO_BLK_SIZE_SET (last_bytes (length d))] @ stle_u16 (crc_ref 0 d) @ replicate 5 0"

lemma seqno_cs:
  assumes "j \<le> 127"
  shows "unat ((of_nat j :: u8) AND NOT CO_SDO_SEQ_LAST) = j" "unat ((of_nat j OR CO_SDO_SEQ_LAST :: u8) AND NOT CO_SDO_SEQ_LAST) = j"
    "(of_nat j :: u8) AND CO_SDO_SEQ_LAST = 0" "(of_nat j OR CO_SDO_SEQ_LAST :: u8) AND CO_SDO_SEQ_LAST \<noteq> 0"
    "0 < j \<Longrightarrow> (of_nat j :: u8) \<noteq> CO_SDO_CS_ABORT" "0 < j \<Longrightarrow> (of_nat j OR CO_SDO_SEQ_LAST :: u8) \<noteq> CO_SDO_CS_ABORT"
    "unat (of_nat j :: u8) = j"
proof -
  have u: "unat (of_nat j :: u8) = j" using assms by (simp add: unat_of_nat)
  have hi: "\<not> bit (of_nat j :: u8) 7"
  proof -
    have "bit j 7 = odd (j div 2 ^ 7)" by (simp add: bit_iff_odd)
    moreover have "j div 2 ^ 7 = 0" using assms by simp
    ultimately show ?thesis by (simp add: bit_of_nat_iff)
  qed
  have b7: "bit (CO_SDO_SEQ_LAST :: u8) n \<longleftrightarrow> n = 7" for n
    by (auto simp: CO_SDO_SEQ_LAST_def bit_numeral_rec numeral_eq_Suc bit_1_iff split: nat.split)
  show "unat (of_nat j :: u8) = j" by (rule u)
  have lo: "(of_nat j :: u8) AND NOT CO_SDO_SEQ_LAST = of_nat j"
    by (rule bit_word_eqI) (use hi in \<open>auto simp: bit_simps b7\<close>)
  then show "unat ((of_nat j :: u8) AND NOT CO_SDO_SEQ_LAST) = j" by (simp add: u)
  have lo': "(of_nat j OR CO_SDO_SEQ_LAST :: u8) AND NOT CO_SDO_SEQ_LAST = of_nat j"
    by (rule bit_word_eqI) (use hi in \<open>auto simp: bit_simps b7\<close>)
  then show "unat ((of_nat j OR CO_SDO_SEQ_LAST :: u8) AND NOT CO_SDO_SEQ_LAST) = j" by (simp add: u)
  show z: "(of_nat j :: u8) AND CO_SDO_SEQ_LAST = 0" by (rule bit_word_eqI) (use hi in \<open>auto simp: bit_simps b7\<close>)
  have "bit ((of_nat j OR CO_SDO_SEQ_LAST :: u8) AND CO_SDO_SEQ_LAST) 7" by (simp add: bit_simps b7)
  then show "(of_nat j OR CO_SDO_SEQ_LAST :: u8) AND CO_SDO_SEQ_LAST \<noteq> 0" by force
  have ab: "CO_SDO_CS_ABORT = CO_SDO_SEQ_LAST" by (simp add: sdo_cs)
  show "(of_nat j :: u8) \<noteq> CO_SDO_CS_ABORT" if "0 < j"
    using hi b7 [of 7] by (auto simp: ab)
  show "(of_nat j OR CO_SDO_SEQ_LAST :: u8) \<noteq> CO_SDO_CS_ABORT" if "0 < j"
  proof
    assume "(of_nat j OR CO_SDO_SEQ_LAST :: u8) = CO_SDO_CS_ABORT"
    then have "(of_nat j :: u8) = 0" using lo' by (simp add: ab)
    then show False using u that by simp
  qed
qed

section \<open>The bursts of the client\<close>

definition blk_client :: "bytes \<Rightarrow> nat \<Rightarrow> co_csdo \<Rightarrow> bool" where
  "blk_client d k c \<longleftrightarrow> cs_size c = length d \<and> cs_dn_buf c = \<lparr>mb_mem = d, mb_cur = k\<rparr> \<and> cs_crc c"

definition blk_frames :: "u32 \<Rightarrow> bytes \<Rightarrow> nat \<Rightarrow> nat \<Rightarrow> nat \<Rightarrow> can_msg list" where
  "blk_frames cobid d k a m = map (\<lambda>i. sdo_frame cobid (blk_seg d (k + 7 * i) (a + i))) [0..<m]"

lemma client_blk_seg:
  assumes "blk_client d k c" "k \<le> length d" "length d < 2 ^ 32"
  shows "co_csdo_send_blk_dn_sub_req j c
    = c\<lparr>cs_dn_buf := \<lparr>mb_mem = d, mb_cur = min (k + 7) (length d)\<rparr>, cs_sent := cs_sent c @ [sdo_frame (cobid_req (cs_par c)) (blk_seg d k j)]\<rparr>"
proof -
  have n: "szt_diff (length d) k = length d - k" using assms(2,3) by simp
  have "k + min (length d - k) 7 = min (k + 7) (length d)" using assms(2) by linarith
  moreover have "take (min (length d - k) 7) (drop k d) = seg_part d k" by (simp add: seg_part_def min_def)
  ultimately show ?thesis using assms(1)
    by (simp add: co_csdo_send_blk_dn_sub_req_def blk_client_def membuf_size_def n dn_take_def csdo_send_def Let_def blk_seg_def)
qed

lemma client_blk_burst:
  assumes "blk_client d k c" "k \<le> length d" "length d < 2 ^ 32" "m = 0 \<or> k + 7 * (m - 1) < length d"
  shows "fold co_csdo_send_blk_dn_sub_req [a..<a + m] c
    = c\<lparr>cs_dn_buf := \<lparr>mb_mem = d, mb_cur = min (k + 7 * m) (length d)\<rparr>, cs_sent := cs_sent c @ blk_frames (cobid_req (cs_par c)) d k a m\<rparr>"
  using assms(4)
proof (induction m)
  case 0
  have "c\<lparr>cs_dn_buf := \<lparr>mb_mem = d, mb_cur = min (k + 7 * 0) (length d)\<rparr>, cs_sent := cs_sent c @ []\<rparr> = c"
    using assms(1,2) by (simp add: blk_client_def)
  then show ?case by (simp add: blk_frames_def)
next
  case (Suc m)
  let ?c = "c\<lparr>cs_dn_buf := \<lparr>mb_mem = d, mb_cur = min (k + 7 * m) (length d)\<rparr>, cs_sent := cs_sent c @ blk_frames (cobid_req (cs_par c)) d k a m\<rparr>"
  have le: "m = 0 \<or> k + 7 * (m - 1) < length d" "k + 7 * m < length d" using Suc.prems by auto
  have cur: "min (k + 7 * m) (length d) = k + 7 * m" using le(2) by simp
  have cl: "blk_client d (k + 7 * m) ?c" using assms(1) cur by (simp add: blk_client_def)
  have "[a..<a + Suc m] = [a..<a + m] @ [a + m]" by simp
  then have "fold co_csdo_send_blk_dn_sub_req [a..<a + Suc m] c = co_csdo_send_blk_dn_sub_req (a + m) ?c"
    using Suc.IH [OF le(1)] by (simp del: upt_Suc)
  also have "\<dots> = c\<lparr>cs_dn_buf := \<lparr>mb_mem = d, mb_cur = min (k + 7 * m + 7) (length d)\<rparr>,
      cs_sent := cs_sent c @ blk_frames (cobid_req (cs_par c)) d k a m @ [sdo_frame (cobid_req (cs_par c)) (blk_seg d (k + 7 * m) (a + m))]\<rparr>"
    using client_blk_seg [OF cl _ assms(3), of "a + m"] le(2) by simp
  finally show ?case by (simp add: blk_frames_def add.assoc)
qed


section \<open>The blocks of the server\<close>

text \<open>The server has received the first \<open>k\<close> bytes of \<open>d\<close>, the last \<open>a\<close> segments of them in this block.\<close>

definition blk_received :: "bytes \<Rightarrow> nat \<Rightarrow> co_ssdo \<Rightarrow> bool" where
  "blk_received d k s \<longleftrightarrow> ss_blksize s = CO_SSDO_MAX_SEQNO \<and> ss_gencrc s \<and> ss_crc s = crc_ref 0 (take k d) \<and> sq_size (ss_req s) = length d
     \<and> mb_held (sq_membuf (ss_req s)) = take k d \<and> length d \<le> length (mb_mem (sq_membuf (ss_req s)))"

definition blk_server :: "bytes \<Rightarrow> nat \<Rightarrow> nat \<Rightarrow> co_ssdo \<Rightarrow> bool" where
  "blk_server d k a s \<longleftrightarrow> ss_state s = SS_blk_dn_sub \<and> ss_ackseq s = a \<and> sq_offset (ss_req s) + sq_nbyte (ss_req s) = k \<and> blk_received d k s"

text \<open>All segments have arrived; the last one, from byte \<open>k\<close> on, is still in the buffer of the request.\<close>

definition blk_complete :: "bytes \<Rightarrow> nat \<Rightarrow> co_ssdo \<Rightarrow> bool" where
  "blk_complete d k s \<longleftrightarrow> ss_state s = SS_blk_dn_end \<and> blk_received d k s \<and> sq_offset (ss_req s) = k \<and> sq_nbyte (ss_req s) = length d - k
     \<and> take (length d - k) (sq_buf (ss_req s)) = drop k d \<and> length d - k \<le> length (sq_buf (ss_req s))"

lemma max_seqno: "CO_SSDO_MAX_SEQNO = 127"
  by (simp add: CO_SSDO_MAX_SEQNO_def)

text \<open>What the server makes of a segment up to the first indication of the object.\<close>

definition blk_stored :: "bytes \<Rightarrow> nat \<Rightarrow> nat \<Rightarrow> co_ssdo \<Rightarrow> co_ssdo \<Rightarrow> bool" where
  "blk_stored d k j s t \<longleftrightarrow> (\<exists>b. t = s\<lparr>ss_ackseq := j, ss_buf := b,
       ss_req := (ss_req s)\<lparr>sq_buf := mb_mem b, sq_offset := k, sq_nbyte := min (length d - k) 7\<rparr>\<rparr>
     \<and> take (min (length d - k) 7) (mb_mem b) = seg_part d k \<and> min (length d - k) 7 \<le> length (mb_mem b))"

lemma server_blk_store:
  assumes "blk_server d k a s" "serving par D idx sub s" "k < length d" "length d \<le> 2 ^ 31" "a < 127" "\<And>sz. hp_ok H sz"
  shows "\<exists>t. co_ssdo_recv H (sdo_frame cobid (blk_seg d k (Suc a))) s = co_ssdo_enter
      (if length d - k \<le> 7 then blk_dn_confirm H (Suc a) True t else with_dn_ind H (blk_dn_confirm H (Suc a) False) (crc_update t))
    \<and> blk_stored d k (Suc a) s t"
proof -
  define n where "n = min (length d - k) 7"
  have n: "0 < n" "n \<le> 7" "length (seg_part d k) = n" "\<not> length d - k \<le> 7 \<Longrightarrow> n = 7" using assms(3) by (auto simp: n_def)
  have sv: "ss_state s = SS_blk_dn_sub" "ss_ackseq s = a" "ss_blksize s = 127" "sq_size (ss_req s) = length d"
    "sq_offset (ss_req s) + sq_nbyte (ss_req s) = k" "ss_broken s = False"
    using assms(1,2) by (simp_all add: blk_server_def blk_received_def max_seqno serving_def)
  obtain b where b: "membuf_reserve H (membuf_clear (ss_buf s)) n = Reserved b"
    using membuf_reserve_ok [of "membuf_clear (ss_buf s)" n H] n assms(6) by auto
  have p: "membuf_wf b" "mb_held b = []" "n \<le> membuf_capacity b" using membuf_reserve_props [OF b] n(2) by simp_all
  define b' where "b' = membuf_write (seg_part d k) b"
  have w: "mb_held b' = seg_part d k" "membuf_wf b'" "membuf_size b' = n"
    using membuf_write_held [OF p(1), of "seg_part d k"] p n held_take [OF p(1,2)] by (simp_all add: b'_def)
  have mem: "take n (mb_mem b') = seg_part d k" "n \<le> length (mb_mem b')"
    using held_take [OF w(2,1)] n(3) w by (simp_all add: membuf_wf_def membuf_size_def)
  define final where "final = (length d - k \<le> 7)"
  define cs :: u8 where "cs = (if final then of_nat (Suc a) OR CO_SDO_SEQ_LAST else of_nat (Suc a))"
  have cs: "unat (cs AND NOT CO_SDO_SEQ_LAST) = Suc a" "cs AND CO_SDO_SEQ_LAST \<noteq> 0 \<longleftrightarrow> final" "cs \<noteq> CO_SDO_CS_ABORT"
    using seqno_cs [of "Suc a"] assms(5) by (auto simp: cs_def)
  have frame: "blk_seg d k (Suc a) = cs # seg_part d k @ replicate (7 - n) 0" by (simp add: blk_seg_def cs_def final_def n_def)
  define t where "t = s\<lparr>ss_ackseq := Suc a, ss_buf := b',
    ss_req := (ss_req s)\<lparr>sq_buf := mb_mem b', sq_offset := k, sq_nbyte := n\<rparr>\<rparr>"
  have sz: "min (szt_diff (length d) k) 7 = n" using assms(3,4) by (simp add: n_def)
  have as: "ssdo_assert True (s\<lparr>ss_ackseq := x\<rparr>) = s\<lparr>ss_ackseq := x\<rparr>" for x using sv(6) by (simp add: ssdo_assert_def)
  have "take n (seg_part d k @ replicate (7 - n) 0) = seg_part d k" using n(3) by simp
  then have "co_ssdo_recv H (sdo_frame cobid (blk_seg d k (Suc a))) s = co_ssdo_enter
      (if final then blk_dn_confirm H (Suc a) True t else with_dn_ind H (blk_dn_confirm H (Suc a) False) (crc_update t))"
    using sv(1-5) cs assms(3,5) n sz b w(3) [unfolded b'_def]
    by (auto simp: frame ssdo_recv_frame co_ssdo_blk_dn_sub_on_recv_def Let_def as t_def b'_def final_def)
  moreover have "blk_stored d k (Suc a) s t" unfolding blk_stored_def using mem by (intro exI [of _ b']) (simp add: t_def n_def [symmetric])
  ultimately show ?thesis unfolding final_def by blast
qed


lemma req_dn_block:
  assumes "sq_size r = length d" "sq_offset r = k" "sq_nbyte r = 7" "7 \<le> length (sq_buf r)" "take 7 (sq_buf r) = seg_part d k"
    "7 < length d - k" "length d \<le> 2 ^ 31" "membuf_wf (sq_membuf r)" "k \<le> membuf_size (sq_membuf r)" "take k (mb_held (sq_membuf r)) = take k d"
    "length d \<le> length (mb_mem (sq_membuf r))"
  shows "\<exists>b. co_sdo_req_dn H r = (Dn_more, r\<lparr>sq_membuf := b\<rparr>) \<and> membuf_wf b \<and> length d \<le> length (mb_mem b) \<and> mb_held b = take (k + 7) d"
proof -
  have "\<exists>b. co_sdo_req_dn H r = (if k + 7 = length d then Dn_value d else Dn_more, r\<lparr>sq_membuf := b\<rparr>)
      \<and> membuf_wf b \<and> length d \<le> length (mb_mem b) \<and> (k + 7 < length d \<longrightarrow> mb_held b = take (k + 7) d)"
    by (rule req_dn_chunk) (use assms in \<open>auto simp: seg_part_def\<close>)
  then show ?thesis using assms(6) by auto
qed

lemma server_blk_more:
  assumes "blk_server d k a s" "serving par D idx sub s" "7 < length d - k" "length d \<le> 2 ^ 31" "a < 127" "\<And>sz. hp_ok H sz"
    "ss_sent s = []" "dn_refusal D idx sub = 0" "s' = co_ssdo_recv H (sdo_frame cobid (blk_seg d k (Suc a))) s"
  shows "if Suc a = 127
    then blk_server d (k + 7) 0 (s'\<lparr>ss_sent := []\<rparr>) \<and> serving par D idx sub s' \<and> ss_sent s' = [sdo_frame (cobid_res par) (blk_ack 127)]
    else blk_server d (k + 7) (Suc a) s' \<and> serving par D idx sub s' \<and> ss_sent s' = []"
proof -
  have k: "k < length d" using assms(3) by simp
  obtain t where t: "s' = co_ssdo_enter (with_dn_ind H (blk_dn_confirm H (Suc a) False) (crc_update t))" "blk_stored d k (Suc a) s t"
    using server_blk_store [OF assms(1,2) k assms(4,5,6), of cobid] assms(3,9) by auto
  obtain b where b: "t = s\<lparr>ss_ackseq := Suc a, ss_buf := b, ss_req := (ss_req s)\<lparr>sq_buf := mb_mem b, sq_offset := k, sq_nbyte := 7\<rparr>\<rparr>"
    "take 7 (mb_mem b) = seg_part d k" "7 \<le> length (mb_mem b)"
    using t(2) assms(3) by (auto simp: blk_stored_def min_absorb2)
  have sv: "ss_state s = SS_blk_dn_sub" "blk_received d k s" "ss_dev s = D" "ss_idx s = idx" "ss_subidx s = sub" "ss_par s = par"
    "membuf_wf (sq_membuf (ss_req s))" "\<not> ss_hung s" "\<not> ss_broken s"
    using assms(1,2) by (simp_all add: blk_server_def serving_def)
  have rc: "ss_gencrc s" "ss_crc s = crc_ref 0 (take k d)" "ss_blksize s = 127" "sq_size (ss_req s) = length d"
    "mb_held (sq_membuf (ss_req s)) = take k d" "length d \<le> length (mb_mem (sq_membuf (ss_req s)))"
    using sv(2) by (simp_all add: blk_received_def max_seqno)
  define r where "r = (ss_req s)\<lparr>sq_buf := mb_mem b, sq_offset := k, sq_nbyte := 7\<rparr>"
  define u where "u = t\<lparr>ss_crc := crc_ref 0 (take (k + 7) d)\<rparr>"
  have "crc_ref (crc_ref 0 (take k d)) (seg_part d k) = crc_ref 0 (take (k + 7) d)"
    by (simp add: seg_part_def take_add flip: crc_ref_append)
  then have u: "crc_update t = u" using co_crc_run [of 7 "mb_mem b"] b rc(1,2) by (simp add: crc_update_def u_def)
  have uf: "ss_req u = r" "ss_dev u = D" "ss_idx u = idx" "ss_subidx u = sub" "ss_blksize u = 127" using sv rc b by (simp_all add: u_def r_def)
  have rf: "sq_size r = length d" "sq_offset r = k" "sq_nbyte r = 7" "7 \<le> length (sq_buf r)" "take 7 (sq_buf r) = seg_part d k" "sq_membuf r = sq_membuf (ss_req s)"
    using rc(4) b(2,3) by (simp_all add: r_def)
  have size: "membuf_size (sq_membuf (ss_req s)) = k" using held_take [OF sv(7) rc(5)] k by simp
  obtain b1 where b1: "co_sdo_req_dn H r = (Dn_more, r\<lparr>sq_membuf := b1\<rparr>)" "membuf_wf b1" "length d \<le> length (mb_mem b1)" "mb_held b1 = take (k + 7) d"
    using req_dn_block [OF rf(1-5) assms(3,4), of H] rf(6) sv(7) size rc(5,6) by auto
  have ind: "co_ssdo_dn_ind H u = (Some 0, u\<lparr>ss_req := r\<lparr>sq_membuf := b1\<rparr>\<rparr>)"
    using dn_ind_more [of u H "r\<lparr>sq_membuf := b1\<rparr>"] uf assms(8) b1(1) by simp
  define r1 where "r1 = r\<lparr>sq_membuf := b1\<rparr>"
  have r1f: "sq_size r1 = length d" "sq_offset r1 = k" "sq_nbyte r1 = 7" "7 \<le> length (sq_buf r1)" "take 7 (sq_buf r1) = seg_part d k" "sq_membuf r1 = b1"
    using rf by (simp_all add: r1_def)
  have size1: "membuf_size b1 = k + 7" using held_take [OF b1(2,4)] assms(3) by simp
  have s': "s' = co_ssdo_enter (blk_dn_confirm H (Suc a) False (u\<lparr>ss_req := r1\<rparr>))"
    using t(1) by (simp add: u with_dn_ind_def ind r1_def)
  show ?thesis
  proof (cases "Suc a = 127")
    case False
    then have "s' = (ssdo_arm (u\<lparr>ss_req := r1\<rparr>))\<lparr>ss_state := SS_blk_dn_sub\<rparr>" using uf(5) by (simp add: s' blk_dn_confirm_def co_ssdo_enter_def Let_def)
    then show ?thesis using False sv rc b(1) r1f b1 assms(7)
      by (simp add: blk_server_def blk_received_def serving_def ssdo_arm_def u_def max_seqno)
  next
    case True
    obtain b2 where b2: "co_sdo_req_dn H r1 = (Dn_more, r1\<lparr>sq_membuf := b2\<rparr>)" "membuf_wf b2" "length d \<le> length (mb_mem b2)" "mb_held b2 = take (k + 7) d"
      using req_dn_block [OF r1f(1-5) assms(3,4), of H] r1f(6) b1 size1 by auto
    define u2 where "u2 = u\<lparr>ss_req := r1\<lparr>sq_membuf := b2\<rparr>\<rparr>"
    have "co_ssdo_dn_ind H (u\<lparr>ss_req := r1\<rparr>) = (Some 0, u2)"
      using dn_ind_more [of "u\<lparr>ss_req := r1\<rparr>" H "r1\<lparr>sq_membuf := b2\<rparr>"] uf assms(8) b2(1) by (simp add: u2_def)
    then have "s' = (ssdo_arm ((co_ssdo_send_blk_dn_sub_res u2)\<lparr>ss_ackseq := 0\<rparr>))\<lparr>ss_state := SS_blk_dn_sub\<rparr>"
      using uf(5) True by (simp add: s' blk_dn_confirm_def co_ssdo_enter_def with_dn_ind_def Let_def)
    moreover have "ss_sent u2 = []" "ss_par u2 = par" "ss_ackseq u2 = 127" "ss_blksize u2 = 127" "ss_dev u2 = D" "ss_idx u2 = idx" "ss_subidx u2 = sub"
      "ss_req u2 = r1\<lparr>sq_membuf := b2\<rparr>" "ss_gencrc u2" "ss_crc u2 = crc_ref 0 (take (k + 7) d)" "\<not> ss_hung u2" "\<not> ss_broken u2"
      using sv rc b(1) assms(7) True by (simp_all add: u2_def u_def)
    ultimately show ?thesis using True b2 r1f
      by (simp add: blk_server_def blk_received_def serving_def ssdo_arm_def max_seqno co_ssdo_send_blk_dn_sub_res_def ssdo_send_def blk_ack_def)
  qed
qed

lemma server_blk_last:
  assumes "blk_server d k a s" "serving par D idx sub s" "k < length d" "length d - k \<le> 7" "length d \<le> 2 ^ 31" "a < 127" "\<And>sz. hp_ok H sz"
    "ss_sent s = []" "s' = co_ssdo_recv H (sdo_frame cobid (blk_seg d k (Suc a))) s"
  shows "blk_complete d k (s'\<lparr>ss_sent := []\<rparr>) \<and> serving par D idx sub s' \<and> ss_sent s' = [sdo_frame (cobid_res par) (blk_ack (Suc a))]"
proof -
  obtain t where t: "s' = co_ssdo_enter (blk_dn_confirm H (Suc a) True t)" "blk_stored d k (Suc a) s t"
    using server_blk_store [OF assms(1,2,3,5,6,7), of cobid] assms(4,9) by auto
  obtain b where b: "t = s\<lparr>ss_ackseq := Suc a, ss_buf := b, ss_req := (ss_req s)\<lparr>sq_buf := mb_mem b, sq_offset := k, sq_nbyte := length d - k\<rparr>\<rparr>"
    "take (length d - k) (mb_mem b) = seg_part d k" "length d - k \<le> length (mb_mem b)"
    using t(2) assms(4) by (auto simp: blk_stored_def min_absorb1)
  have "seg_part d k = drop k d" using assms(4) by (simp add: seg_part_def)
  moreover have "s' = (ssdo_arm ((co_ssdo_send_blk_dn_sub_res t)\<lparr>ss_ackseq := 0\<rparr>))\<lparr>ss_state := SS_blk_dn_end\<rparr>"
    by (simp add: t(1) blk_dn_confirm_def co_ssdo_enter_def Let_def)
  ultimately show ?thesis using b assms(1,2,8)
    by (simp add: blk_server_def blk_complete_def blk_received_def serving_def ssdo_arm_def max_seqno co_ssdo_send_blk_dn_sub_res_def ssdo_send_def blk_ack_def)
qed


section \<open>A block on the bus\<close>

lemma blk_frames_Suc: "blk_frames cobid d k a (Suc m) = sdo_frame cobid (blk_seg d k a) # blk_frames cobid d (k + 7) (Suc a) m"
proof -
  have "[0..<Suc m] = 0 # map Suc [0..<m]" by (simp add: map_Suc_upt upt_conv_Cons del: upt_Suc)
  then show ?thesis by (simp add: blk_frames_def comp_def algebra_simps del: upt_Suc)
qed

text \<open>A burst of \<open>m\<close> segments fills the block or ends the value; the server answers with one acknowledgement.\<close>

lemma bus_burst:
  assumes "cs_sent c = blk_frames (cobid_req (cs_par c)) d k (Suc a) (Suc m)" "connected c s" "blk_server d k a s" "serving (ss_par s) D idx sub s"
    "ss_sent s = []" "k + 7 * m < length d" "length d - (k + 7 * m) \<le> 7 \<or> Suc (a + m) = 127" "Suc (a + m) \<le> 127" "length d \<le> 2 ^ 31"
    "\<And>sz. hp_ok H sz" "dn_refusal D idx sub = 0"
  shows "\<exists>s'. (\<forall>q. bus_run H (c\<lparr>cs_sent := []\<rparr>, s') q \<longrightarrow> bus_run H (c, s) q) \<and> serving (ss_par s) D idx sub s'
    \<and> ss_sent s' = [sdo_frame (cobid_res (ss_par s)) (blk_ack (Suc (a + m)))]
    \<and> (if length d - (k + 7 * m) \<le> 7 then blk_complete d (k + 7 * m) (s'\<lparr>ss_sent := []\<rparr>) else blk_server d (k + 7 * Suc m) 0 (s'\<lparr>ss_sent := []\<rparr>))"
  using assms(1-8)
proof (induction m arbitrary: c s k a)
  case 0
  let ?m = "sdo_frame (cobid_req (cs_par c)) (blk_seg d k (Suc a))"
  have m: "cs_sent c = [?m]" "?m = sdo_frame (cobid_req (ss_par s)) (blk_seg d k (Suc a))"
    using 0(1,2) by (simp_all add: blk_frames_def connected_def)
  define s1 where "s1 = co_ssdo_recv H ?m s"
  have run: "bus_run H (c\<lparr>cs_sent := []\<rparr>, s1) q \<Longrightarrow> bus_run H (c, s) q" for q by (rule bus_to_server [OF m]) (simp add: s1_def)
  have a: "a < 127" "k < length d" using 0(6,8) by simp_all
  show ?case
  proof (cases "length d - k \<le> 7")
    case True
    then show ?thesis using run server_blk_last [OF 0(3,4) a(2) True assms(9) a(1) assms(10) 0(5) s1_def] by (intro exI [of _ s1]) simp
  next
    case False
    then have "Suc a = 127" using 0(7) by simp
    then show ?thesis using run server_blk_more [OF 0(3,4) _ assms(9) a(1) assms(10) 0(5) assms(11) s1_def] False by (intro exI [of _ s1]) simp
  qed
next
  case (Suc m)
  let ?m = "sdo_frame (cobid_req (cs_par c)) (blk_seg d k (Suc a))" and ?ms = "blk_frames (cobid_req (cs_par c)) d (k + 7) (Suc (Suc a)) (Suc m)"
  have m: "cs_sent c = ?m # ?ms" "?m = sdo_frame (cobid_req (ss_par s)) (blk_seg d k (Suc a))"
    using Suc.prems(1,2) by (simp_all only: blk_frames_Suc connected_def)
  define s1 where "s1 = co_ssdo_recv H ?m s"
  have a: "a < 127" "7 < length d - k" "Suc a \<noteq> 127" using Suc.prems(6,8) by simp_all
  have s1: "blk_server d (k + 7) (Suc a) s1" "serving (ss_par s) D idx sub s1" "ss_sent s1 = []"
    using server_blk_more [OF Suc.prems(3,4) a(2) assms(9) a(1) assms(10) Suc.prems(5) assms(11) s1_def] a(3) by simp_all
  have par: "ss_par s1 = ss_par s" using s1(2) by (simp add: serving_def)
  let ?c = "c\<lparr>cs_sent := ?ms\<rparr>"
  have ih: "\<exists>s'. (\<forall>q. bus_run H (?c\<lparr>cs_sent := []\<rparr>, s') q \<longrightarrow> bus_run H (?c, s1) q) \<and> serving (ss_par s1) D idx sub s'
    \<and> ss_sent s' = [sdo_frame (cobid_res (ss_par s1)) (blk_ack (Suc (Suc a + m)))]
    \<and> (if length d - (k + 7 + 7 * m) \<le> 7 then blk_complete d (k + 7 + 7 * m) (s'\<lparr>ss_sent := []\<rparr>)
       else blk_server d (k + 7 + 7 * Suc m) 0 (s'\<lparr>ss_sent := []\<rparr>))"
    by (rule Suc.IH) (use s1 par Suc.prems in \<open>simp_all add: connected_def algebra_simps\<close>)
  have "bus_run H (?c, s1) q \<Longrightarrow> bus_run H (c, s) q" for q by (rule bus_to_server [OF m]) (simp add: s1_def)
  moreover have "k + 7 * Suc m = k + 7 + 7 * m" "k + 7 * Suc (Suc m) = k + 7 + 7 * Suc m" "Suc (a + Suc m) = Suc (Suc a + m)" "?c\<lparr>cs_sent := []\<rparr> = c\<lparr>cs_sent := []\<rparr>"
    by simp_all
  ultimately show ?case using ih unfolding par by (simp only:) blast
qed

section \<open>The client between blocks\<close>

lemma client_enter_blk:
  assumes "requested (Some i) up idx sub c" "blk_client d k c" "cs_blksize c = 127" "k \<le> length d" "0 < length d" "length d \<le> 2 ^ 31"
    "c' = co_csdo_enter (Some CS_blk_dn_sub) c" "m = min ((length d - k + 6) div 7) 127"
  shows "if k < length d
    then cs_state c' = CS_blk_dn_sub \<and> blk_client d (min (k + 7 * m) (length d)) c' \<and> cs_blksize c' = m \<and> same_request c c'
      \<and> requested (Some i) up idx sub (c'\<lparr>cs_sent := []\<rparr>) \<and> cs_sent c' = blk_frames (cobid_req (cs_par c)) d k 1 m
    else cs_state c' = CS_blk_dn_end \<and> same_request c c' \<and> requested (Some i) up idx sub (c'\<lparr>cs_sent := []\<rparr>)
      \<and> cs_sent c' = [sdo_frame (cobid_req (cs_par c)) (blk_end d)]"
proof -
  define c1 where "c1 = csdo_arm (c\<lparr>cs_state := CS_blk_dn_sub, cs_blksize := m\<rparr>)"
  have cl: "cs_size c = length d" "cs_dn_buf c = \<lparr>mb_mem = d, mb_cur = k\<rparr>" "cs_crc c" using assms(2) by (simp_all add: blk_client_def)
  have n: "szt_diff (cs_size c) (membuf_size (cs_dn_buf c)) = length d - k" using assms(4,6) cl by (simp add: membuf_size_def)
  have enter: "csdo_on_enter CS_blk_dn_sub (csdo_on_leave (cs_state c) (c\<lparr>cs_state := CS_blk_dn_sub\<rparr>))
      = (if length d - k \<noteq> 0 then (None, fold co_csdo_send_blk_dn_sub_req [1..<Suc m] c1) else (Some CS_blk_dn_end, co_csdo_send_blk_dn_end_req c1))"
  proof -
    have "csdo_on_leave (cs_state c) (c\<lparr>cs_state := CS_blk_dn_sub\<rparr>) = c\<lparr>cs_state := CS_blk_dn_sub\<rparr>"
      using assms(1) by (simp add: csdo_on_leave_def requested_def)
    moreover have "cs_blksize (csdo_arm x) = cs_blksize x" for x by (simp add: csdo_arm_def)
    ultimately show ?thesis using n assms(3,8)
      by (simp add: co_csdo_blk_dn_sub_on_enter_def CO_SDO_MAX_SEQNO_def c1_def Let_def del: upt_Suc)
  qed
  have c1: "cs_state c1 = CS_blk_dn_sub" "cs_par c1 = cs_par c" "cs_confirmed c1 = cs_confirmed c" "blk_client d k c1" "cs_blksize c1 = m" "cs_sent c1 = []"
    "requested (Some i) up idx sub c1"
    using assms(1,2) by (simp_all add: c1_def csdo_arm_def blk_client_def requested_def)
  show ?thesis
  proof (cases "k < length d")
    case True
    have m: "0 < m" "m = 0 \<or> k + 7 * (m - 1) < length d" using True assms(8) by auto
    have "fold co_csdo_send_blk_dn_sub_req [1..<Suc m] c1 = c1\<lparr>cs_dn_buf := \<lparr>mb_mem = d, mb_cur = min (k + 7 * m) (length d)\<rparr>,
        cs_sent := blk_frames (cobid_req (cs_par c)) d k 1 m\<rparr>"
      using client_blk_burst [OF c1(4) assms(4) _ m(2), of 1] assms(6) c1(2,6) by (simp del: upt_Suc)
    then have "c' = c1\<lparr>cs_dn_buf := \<lparr>mb_mem = d, mb_cur = min (k + 7 * m) (length d)\<rparr>, cs_sent := blk_frames (cobid_req (cs_par c)) d k 1 m\<rparr>"
      using enter True assms(7) by (simp del: upt_Suc csdo_on_enter.simps)
    then show ?thesis using True c1 by (simp add: blk_client_def same_request_def requested_def)
  next
    case False
    then have k: "k = length d" using assms(4) by simp
    have "co_crc 0 (Some d) (length d) = Some (crc_ref 0 d)" using co_crc_run [of "length d" d 0] by simp
    then have sent: "co_csdo_send_blk_dn_end_req c1 = c1\<lparr>cs_sent := [sdo_frame (cobid_req (cs_par c)) (blk_end d)]\<rparr>"
      using c1(2,4,6) by (simp add: co_csdo_send_blk_dn_end_req_def blk_client_def csdo_send_def Let_def blk_end_def or.assoc)
    have "c' = co_csdo_enter (Some CS_blk_dn_end) (co_csdo_send_blk_dn_end_req c1)"
      using enter k assms(7) by (simp del: upt_Suc csdo_on_enter.simps co_csdo_enter.simps add: co_csdo_enter.simps(2) [of CS_blk_dn_sub])
    then have "c' = c1\<lparr>cs_sent := [sdo_frame (cobid_req (cs_par c)) (blk_end d)], cs_state := CS_blk_dn_end\<rparr>"
      using sent c1(1) by (simp add: csdo_on_leave_def)
    then show ?thesis using False c1 by (simp add: same_request_def requested_def)
  qed
qed


lemma client_blk_ack:
  assumes "cs_state c = CS_blk_dn_sub" "cs_blksize c = m" "m \<le> 127"
  shows "co_csdo_recv H (sdo_frame cobid (blk_ack m)) c = co_csdo_enter (Some CS_blk_dn_sub) (c\<lparr>cs_blksize := 127\<rparr>)"
proof -
  have cs: "blk_ack m ! 0 AND CO_SDO_CS_MASK = CO_SDO_SCS_BLK_DN_RES" "blk_ack m ! 0 AND CO_SDO_SC_MASK = CO_SDO_SC_BLK_RES"
    by (simp_all add: blk_ack_def sdo_cs)
  have "blk_ack m ! 1 = of_nat m" "blk_ack m ! 2 = 127" by (simp_all add: blk_ack_def max_seqno)
  then show ?thesis using assms cs seqno_cs(7) [OF assms(3)]
    by (simp add: csdo_recv_frame co_csdo_blk_dn_sub_on_recv_def check_scs_def csdo_enter_def Let_def del: co_csdo_enter.simps)
qed

section \<open>The end of the transfer\<close>

definition blk_end_res :: bytes where
  "blk_end_res = seg_data (CO_SDO_SCS_BLK_DN_RES OR CO_SDO_SC_END_BLK)"

lemma client_blk_end:
  assumes "cs_state c = CS_blk_dn_end"
  shows "co_csdo_recv H (sdo_frame cobid blk_end_res) c = csdo_enter (co_csdo_abort_ind 0 c)"
proof -
  have "blk_end_res ! 0 AND CO_SDO_CS_MASK = CO_SDO_SCS_BLK_DN_RES" "blk_end_res ! 0 AND CO_SDO_SC_MASK = CO_SDO_SC_END_BLK"
    by (simp_all add: blk_end_res_def seg_data_def sdo_cs)
  then show ?thesis using assms by (simp add: csdo_recv_frame co_csdo_blk_dn_end_on_recv_def check_scs_def)
qed

lemma blk_end_cs:
  assumes "n \<le> 7" "cs = CO_SDO_CCS_BLK_DN_REQ OR CO_SDO_SC_END_BLK OR CO_SDO_BLK_SIZE_SET n"
  shows "cs AND CO_SDO_CS_MASK = CO_SDO_CCS_BLK_DN_REQ" "cs AND CO_SDO_SC_MASK = CO_SDO_SC_END_BLK" "CO_SDO_BLK_SIZE_GET cs = n"
  using le_7_cases [OF assms(1)] assms(2)
  by (auto simp: CO_SDO_BLK_SIZE_SET_def CO_SDO_BLK_SIZE_GET_def sdo_cs)

lemma server_blk_end:
  assumes "blk_complete d k s" "serving (ss_par s) D idx sub s" "ss_sent s = []" "k < length d" "length d \<le> 2 ^ 31" "dn_refusal D idx sub = 0"
  shows "ended s (dn_dev D idx sub d) (if dn_verdict D idx sub d = 0 then blk_end_res else abort_data idx sub (dn_verdict D idx sub d))
    (co_ssdo_recv H (sdo_frame cobid (blk_end d)) s)"
proof -
  have sv: "ss_state s = SS_blk_dn_end" "ss_gencrc s" "ss_crc s = crc_ref 0 (take k d)" "sq_size (ss_req s) = length d" "sq_offset (ss_req s) = k"
    "sq_nbyte (ss_req s) = length d - k" "take (length d - k) (sq_buf (ss_req s)) = drop k d" "length d - k \<le> length (sq_buf (ss_req s))"
    "mb_held (sq_membuf (ss_req s)) = take k d" "length d \<le> length (mb_mem (sq_membuf (ss_req s)))" "membuf_wf (sq_membuf (ss_req s))"
    "ss_dev s = D" "ss_idx s = idx" "ss_subidx s = sub" "\<not> ss_broken s" "\<not> ss_hung s"
    using assms(1,2) by (simp_all add: blk_complete_def blk_received_def serving_def)
  define u where "u = s\<lparr>ss_crc := crc_ref 0 d\<rparr>"
  have "crc_ref (crc_ref 0 (take k d)) (drop k d) = crc_ref 0 d" by (simp flip: crc_ref_append)
  then have crc: "crc_update s = u" using co_crc_run [OF sv(8)] sv(2,3,6,7) by (simp add: crc_update_def u_def)
  have size: "membuf_size (sq_membuf (ss_req s)) = k" using held_take [OF sv(11,9)] assms(4) by simp
  have "d \<noteq> []" using assms(4) by auto
  obtain b where b: "co_sdo_req_dn H (ss_req s) = (Dn_value d, (ss_req s)\<lparr>sq_membuf := b\<rparr>)" "membuf_wf b"
    using req_dn_chunk [of "ss_req s" d k "length d - k" "sq_membuf (ss_req s)" H] sv(4-11) size assms(4,5) \<open>d \<noteq> []\<close> by auto
  define t where "t = u\<lparr>ss_req := (ss_req s)\<lparr>sq_membuf := b\<rparr>, ss_dev := dn_dev D idx sub d\<rparr>"
  have ind: "co_ssdo_dn_ind H u = (Some (dn_verdict D idx sub d), t)"
    using dn_ind_value [of u H d "(ss_req s)\<lparr>sq_membuf := b\<rparr>"] b(1) sv(12-14) assms(6) by (simp add: u_def t_def)
  have t: "serving (ss_par s) (dn_dev D idx sub d) idx sub t" "ss_sent t = []" "ss_par t = ss_par s"
    using sv b(2) assms(3) by (simp_all add: t_def u_def serving_def)
  define x where "x = blk_end d"
  have n: "last_bytes (length d) \<le> 7" by (simp add: last_bytes_def Suc_le_eq)
  have x: "x ! 0 = CO_SDO_CCS_BLK_DN_REQ OR CO_SDO_SC_END_BLK OR CO_SDO_BLK_SIZE_SET (last_bytes (length d))" by (simp add: x_def blk_end_def)
  note cs = blk_end_cs [OF n x]
  have x1: "ldle_u16 (drop 1 x) = crc_ref 0 d" by (simp add: x_def blk_end_def)
  have "last_bytes (length d) = (length d - 1) mod 7 + 1" using \<open>d \<noteq> []\<close> by (simp add: last_bytes_def)
  moreover have "szt (k + (length d - k)) = length d" using assms(4,5) by simp
  moreover have "ss_gencrc u" "ss_crc u = crc_ref 0 d" using sv(2) by (simp_all add: u_def)
  ultimately have recv: "co_ssdo_recv H (sdo_frame cobid x) s = co_ssdo_enter (with_dn_ind H (\<lambda>s. co_ssdo_abort_ind (co_ssdo_send_blk_dn_end_res s)) u)"
    using cs x1 sv(1,4-6) crc \<open>d \<noteq> []\<close>
    by (simp add: ssdo_recv_frame co_ssdo_blk_dn_end_on_recv_def check_ccs_def Let_def del: One_nat_def)
  have "ended s (dn_dev D idx sub d) blk_end_res (co_ssdo_enter (co_ssdo_abort_ind (co_ssdo_send_blk_dn_end_res t)))"
    by (rule server_done [where idx = idx and sub = sub])
      (use t in \<open>simp_all add: co_ssdo_send_blk_dn_end_res_def ssdo_send_def blk_end_res_def serving_def\<close>)
  then show ?thesis using server_abort [OF t(1,2)] by (simp add: x_def [symmetric] recv with_dn_ind_def ind)
qed


lemma blk_size_cases:
  assumes "k < (l :: nat)" "m = min ((l - k + 6) div 7) 127"
  shows "0 < m" "m \<le> 127" "k + 7 * (m - 1) < l" "l - (k + 7 * (m - 1)) \<le> 7 \<or> m = 127"
  using assms by auto

lemma blk_loop:
  assumes "cs_state c = CS_blk_dn_sub" "blk_client d (min (k + 7 * m) (length d)) c" "cs_blksize c = m" "requested (Some i) up idx sub (c\<lparr>cs_sent := []\<rparr>)"
    "cs_sent c = blk_frames (cobid_req (cs_par c)) d k 1 m" "connected c s" "blk_server d k 0 s" "serving (ss_par s) D idx sub s" "ss_sent s = []"
    "k < length d" "m = min ((length d - k + 6) div 7) 127" "length d \<le> 2 ^ 31" "\<And>sz. hp_ok H sz" "dn_refusal D idx sub = 0"
  shows "\<exists>c' s'. bus_run H (c, s) (c', s') \<and> dn_finished c i idx sub (dn_verdict D idx sub d) c' \<and> ssdo_idle s'
    \<and> ss_par s' = ss_par s \<and> ss_dev s' = dn_dev D idx sub d"
  using assms(1-11)
proof (induction "length d - k" arbitrary: k m c s rule: less_induct)
  case less
  let ?c = "c\<lparr>cs_sent := []\<rparr>"
  note sz = blk_size_cases [OF less.prems(10,11)]
  define m' where "m' = m - 1"
  have m': "m = Suc m'" using sz(1) by (simp add: m'_def)
  obtain s1 where s1: "\<And>q. bus_run H (?c, s1) q \<Longrightarrow> bus_run H (c, s) q" "serving (ss_par s) D idx sub s1"
    "ss_sent s1 = [sdo_frame (cobid_res (ss_par s)) (blk_ack m)]"
    "if length d - (k + 7 * m') \<le> 7 then blk_complete d (k + 7 * m') (s1\<lparr>ss_sent := []\<rparr>) else blk_server d (k + 7 * m) 0 (s1\<lparr>ss_sent := []\<rparr>)"
    using bus_burst [of c d k 0 m' s D idx sub H] less.prems(5-9) sz m' assms(12-14) by auto
  let ?s = "s1\<lparr>ss_sent := []\<rparr>" and ?k = "min (k + 7 * m) (length d)"
  have con: "connected ?c s" "connected ?c ?s" using less.prems(6) s1(2) by (simp_all add: connected_def serving_def)
  have sv: "serving (ss_par ?s) D idx sub ?s" "ss_par ?s = ss_par s" using s1(2) by (simp_all add: serving_def)
  define c1 where "c1 = co_csdo_enter (Some CS_blk_dn_sub) (?c\<lparr>cs_blksize := 127\<rparr>)"
  have ack: "co_csdo_recv H (sdo_frame cobid (blk_ack m)) ?c = c1" for cobid
    unfolding c1_def by (rule client_blk_ack) (use less.prems(1,3) sz(2) in simp_all)
  have to_c1: "bus_run H (c1, ?s) q \<Longrightarrow> bus_run H (c, s) q" for q
    by (rule s1(1), rule bus_to_client [OF _ s1(3)]) (use con ack in \<open>simp_all add: connected_def\<close>)
  have req: "requested (Some i) up idx sub (?c\<lparr>cs_blksize := 127\<rparr>)" "blk_client d ?k (?c\<lparr>cs_blksize := 127\<rparr>)"
    using less.prems(2,4) by (simp_all add: requested_def blk_client_def)
  have "0 < length d" using less.prems(10) by linarith
  note nxt = client_enter_blk [OF req _ _ this assms(12) c1_def refl]
  have "\<exists>c' s'. bus_run H (c1, ?s) (c', s') \<and> dn_finished c1 i idx sub (dn_verdict D idx sub d) c' \<and> same_request c c1 \<and> ssdo_idle s'
      \<and> ss_par s' = ss_par s \<and> ss_dev s' = dn_dev D idx sub d"
  proof (cases "length d - (k + 7 * m') \<le> 7")
    case True
    then have kl: "?k = length d" using m' by simp
    have c1: "cs_state c1 = CS_blk_dn_end" "same_request c c1" "requested (Some i) up idx sub (c1\<lparr>cs_sent := []\<rparr>)"
      "cs_sent c1 = [sdo_frame (cobid_req (cs_par c1)) (blk_end d)]"
      using nxt kl less.prems(10) by (auto simp: same_request_def)
    let ?m = "sdo_frame (cobid_req (cs_par c1)) (blk_end d)" and ?c1 = "c1\<lparr>cs_sent := []\<rparr>"
    have con1: "connected ?c1 ?s" using con(2) c1(2) by (simp add: connected_def same_request_def)
    have end': "ended ?s (dn_dev D idx sub d) (if dn_verdict D idx sub d = 0 then blk_end_res else abort_data idx sub (dn_verdict D idx sub d)) (co_ssdo_recv H ?m ?s)"
      using server_blk_end [of d "k + 7 * m'" ?s D idx sub H] s1(4) True sv(1) sz(3) m' assms(12,14) by simp
    have "dn_finished ?c1 i idx sub (dn_verdict D idx sub d) (co_csdo_recv H (sdo_frame (cobid_res (cs_par ?c1))
        (if dn_verdict D idx sub d = 0 then blk_end_res else abort_data idx sub (dn_verdict D idx sub d))) ?c1)"
      using client_blk_end [of ?c1] client_recv_abort [of _ ?c1] client_done [OF c1(3)] c1(1) by simp
    then obtain c' s' where "bus_run H (?c1, co_ssdo_recv H ?m ?s) (c', s')" "dn_finished ?c1 i idx sub (dn_verdict D idx sub d) c'" "ssdo_idle s'"
      "ss_par s' = ss_par ?s" "ss_dev s' = dn_dev D idx sub d"
      using bus_end [OF end' c1(3) con1] by blast
    moreover have "bus_run H (c1, ?s) (c', s')"
      by (rule bus_to_server [OF c1(4)]) (use calculation(1) con1 in \<open>simp_all add: connected_def\<close>)
    ultimately show ?thesis using c1(2) sv(2) by (intro exI [of _ c'] exI [of _ s']) (simp add: dn_finished_def)
  next
    case False
    then have k': "?k = k + 7 * m" "k + 7 * m < length d" "length d - (k + 7 * m) < length d - k" using m' less.prems(10) by auto
    define m2 where "m2 = min ((length d - (k + 7 * m) + 6) div 7) 127"
    have c1: "cs_state c1 = CS_blk_dn_sub" "blk_client d (min (k + 7 * m + 7 * m2) (length d)) c1" "cs_blksize c1 = m2" "same_request c c1"
      "requested (Some i) up idx sub (c1\<lparr>cs_sent := []\<rparr>)" "cs_sent c1 = blk_frames (cobid_req (cs_par c1)) d (k + 7 * m) 1 m2"
      using nxt k' by (auto simp: same_request_def m2_def)
    have con1: "connected c1 ?s" using con(2) c1(4) by (simp add: connected_def same_request_def)
    have bs: "blk_server d (k + 7 * m) 0 ?s" using s1(4) False by simp
    show ?thesis
      using less.hyps [OF k'(3) c1(1-3,5,6) con1 bs sv(1) _ k'(2) m2_def] c1(4) sv(2) by auto
  qed
  then obtain c' s' where run: "bus_run H (c1, ?s) (c', s')" "dn_finished c1 i idx sub (dn_verdict D idx sub d) c'" "same_request c c1" "ssdo_idle s'"
    "ss_par s' = ss_par s" "ss_dev s' = dn_dev D idx sub d" by blast
  then show ?case using to_c1 [OF run(1)] by (intro exI [of _ c'] exI [of _ s']) (simp add: dn_finished_def same_request_def)
qed


section \<open>Initiating a block download\<close>

definition blk_ini :: "bytes \<Rightarrow> u16 \<Rightarrow> u8 \<Rightarrow> bytes" where
  "blk_ini d idx sub = [CO_SDO_CCS_BLK_DN_REQ OR CO_SDO_BLK_CRC OR CO_SDO_BLK_SIZE_IND OR CO_SDO_SC_INI_BLK] @ stle_u16 idx @ [sub] @ stle_u32 (of_nat (length d))"

definition blk_ini_res :: "u16 \<Rightarrow> u8 \<Rightarrow> bytes" where
  "blk_ini_res idx sub = [(CO_SDO_SCS_BLK_DN_RES OR CO_SDO_SC_INI_BLK) OR CO_SDO_BLK_CRC] @ stle_u16 idx @ [sub] @ [of_nat CO_SSDO_MAX_SEQNO] @ replicate 3 0"

lemma client_blk_req:
  assumes "csdo_idle c"
  shows "\<exists>c1. co_csdo_blk_dn_req idx sub d (Some i) c = Some c1 \<and> requested (Some i) None idx sub (c1\<lparr>cs_sent := []\<rparr>) \<and> same_request c c1
    \<and> cs_sent c1 = [sdo_frame (cobid_req (cs_par c1)) (blk_ini d idx sub)] \<and> cs_state c1 = CS_blk_dn_ini \<and> cs_size c1 = length d
    \<and> cs_dn_buf c1 = \<lparr>mb_mem = d, mb_cur = 0\<rparr>"
proof -
  define c2 where "c2 = co_csdo_send_blk_dn_ini_req (csdo_arm ((csdo_reset idx sub (length d) c)\<lparr>cs_dn_buf := membuf_init d, cs_dn_con := Some i, cs_up_con := None\<rparr>))"
  have idle: "cs_state c = CS_wait" "cs_sent c = []" "co_csdo_is_valid (cs_par c)" "\<not> cs_hung c" "\<not> cs_broken c" using assms by (simp_all add: csdo_idle_def)
  have req: "co_csdo_blk_dn_req idx sub d (Some i) c = Some (co_csdo_enter (Some CS_blk_dn_ini) c2)"
    using idle by (simp add: co_csdo_blk_dn_req_def co_csdo_dn_ind_def co_csdo_is_idle_def c2_def del: co_csdo_enter.simps)
  have c2: "cs_state c2 = CS_wait" "cs_par c2 = cs_par c" "cs_confirmed c2 = cs_confirmed c" "cs_dn_con c2 = Some i" "cs_up_con c2 = None"
    "cs_idx c2 = idx" "cs_subidx c2 = sub" "cs_size c2 = length d" "\<not> cs_hung c2" "\<not> cs_broken c2" "cs_dn_buf c2 = \<lparr>mb_mem = d, mb_cur = 0\<rparr>"
    "cs_sent c2 = [sdo_frame (cobid_req (cs_par c)) (blk_ini d idx sub)]"
    using idle by (simp_all add: c2_def csdo_arm_def csdo_reset_def co_csdo_send_blk_dn_ini_req_def csdo_send_def co_csdo_init_ini_req_def blk_ini_def
        membuf_init_def or.assoc)
  show ?thesis using c2 idle(3) by (simp add: req csdo_on_leave_def requested_def same_request_def)
qed

lemma server_blk_ini:
  assumes "ssdo_idle s" "0 < length d" "length d \<le> 2 ^ 31" "ss_dev s = D" "\<And>sz. hp_ok H sz"
    "s' = co_ssdo_recv H (sdo_frame cobid (blk_ini d idx sub)) s"
  shows "if dn_refusal D idx sub \<noteq> 0 then ended s (dn_dev D idx sub d) (abort_data idx sub (dn_verdict D idx sub d)) s'
    else blk_server d 0 0 (s'\<lparr>ss_sent := []\<rparr>) \<and> serving (ss_par s) D idx sub s' \<and> ss_sent s' = [sdo_frame (cobid_res (ss_par s)) (blk_ini_res idx sub)]"
proof -
  define r where "r = (co_sdo_req_clear (ss_req s))\<lparr>sq_size := length d\<rparr>"
  define s1 where "s1 = s\<lparr>ss_gencrc := True, ss_idx := idx, ss_subidx := sub, ss_req := r, ss_blksize := CO_SSDO_MAX_SEQNO, ss_ackseq := 0\<rparr>"
  define x where "x = blk_ini d idx sub"
  let ?cs = "CO_SDO_CCS_BLK_DN_REQ OR CO_SDO_BLK_CRC OR CO_SDO_BLK_SIZE_IND OR CO_SDO_SC_INI_BLK"
  have x: "x = [?cs] @ stle_u16 idx @ [sub] @ stle_u32 (of_nat (length d))" by (simp add: x_def blk_ini_def)
  have x0: "x ! 0 = ?cs" by (simp add: x)
  have cs: "?cs AND CO_SDO_CS_MASK = CO_SDO_CCS_BLK_DN_REQ" "?cs AND 0x01 = CO_SDO_SC_INI_BLK" "?cs AND CO_SDO_BLK_CRC \<noteq> 0" "?cs AND CO_SDO_BLK_SIZE_IND \<noteq> 0"
    "CO_SDO_CCS_BLK_DN_REQ \<noteq> CO_SDO_CCS_DN_INI_REQ" "CO_SDO_CCS_BLK_DN_REQ \<noteq> CO_SDO_CCS_UP_INI_REQ"
    by (simp_all add: sdo_cs)
  note m = ini_msg [OF x]
  have pad: "msg_pad (sdo_frame cobid x) = stle_u32 (of_nat (length d))" by (simp add: msg_pad_def m)
  have len: "unat (of_nat (length d) :: u32) = length d" using assms(3) by (simp add: unat_of_nat)
  have st: "ss_state s = SS_wait" using assms(1) by (simp add: ssdo_idle_def)
  have recv: "s' = co_ssdo_enter (with_dn_ind H (\<lambda>s. (Some SS_blk_dn_sub, ssdo_arm (co_ssdo_send_blk_dn_ini_res s))) s1)"
    using assms(6) st
    by (simp only: x_def [symmetric] ssdo_recv_frame ssdo_on_recv.simps co_ssdo_wait_on_recv_def co_ssdo_blk_dn_ini_on_recv_def load_object_def
        frame_fields x0 cs m pad len Let_def if_True if_False simp_thms ldle_stle_u32 s1_def r_def)
      (simp add: cs)
  have s1: "ss_idx s1 = idx" "ss_subidx s1 = sub" "ss_sent s1 = []" "ss_par s1 = ss_par s" "ss_dev s1 = D" "ss_req s1 = r" "ss_crc s1 = 0" "ss_gencrc s1"
    "ss_blksize s1 = CO_SSDO_MAX_SEQNO" "ss_ackseq s1 = 0" "\<not> ss_hung s1" "\<not> ss_broken s1"
    using assms(1,4) by (simp_all add: s1_def ssdo_idle_def)
  have r: "membuf_wf (sq_membuf r)" "sq_size r = length d" "sq_offset r = 0" "sq_nbyte r = 0" by (simp_all add: r_def co_sdo_req_clear_def)
  have sv: "serving (ss_par s) D idx sub s1" using s1 r by (simp add: serving_def)
  show ?thesis
  proof (cases "dn_refusal D idx sub = 0")
    case False
    then show ?thesis using dn_ind_refused [of s1 H] refusal_verdict [OF False, of d] server_abort [OF sv s1(3)] s1
      by (simp add: recv with_dn_ind_def dn_dev_refused)
  next
    case True
    obtain b where b: "co_sdo_req_dn H r = (Dn_more, r\<lparr>sq_membuf := b\<rparr>)" "membuf_wf b" "mb_held b = []" "length d \<le> length (mb_mem b)"
      using req_dn_start [of r d H] r assms(2,3,5) by auto
    have "co_ssdo_dn_ind H s1 = (Some 0, s1\<lparr>ss_req := r\<lparr>sq_membuf := b\<rparr>\<rparr>)"
      using dn_ind_more [of s1 H "r\<lparr>sq_membuf := b\<rparr>"] b(1) s1 True by simp
    then have "s' = (ssdo_arm (co_ssdo_send_blk_dn_ini_res (s1\<lparr>ss_req := r\<lparr>sq_membuf := b\<rparr>\<rparr>)))\<lparr>ss_state := SS_blk_dn_sub\<rparr>"
      by (simp add: recv with_dn_ind_def co_ssdo_enter_def)
    then show ?thesis using True s1 r b
      by (simp add: ssdo_arm_def co_ssdo_send_blk_dn_ini_res_def co_ssdo_init_ini_res_def ssdo_send_def blk_ini_res_def Let_def blk_server_def
          blk_received_def serving_def)
  qed
qed

lemma client_blk_ini:
  assumes "cs_state c = CS_blk_dn_ini" "requested (Some i) up idx sub c"
  shows "co_csdo_recv H (sdo_frame cobid (blk_ini_res idx sub)) c = co_csdo_enter (Some CS_blk_dn_sub) (c\<lparr>cs_crc := True, cs_blksize := 127\<rparr>)"
proof -
  define x where "x = blk_ini_res idx sub"
  let ?cs = "(CO_SDO_SCS_BLK_DN_RES OR CO_SDO_SC_INI_BLK) OR CO_SDO_BLK_CRC"
  have x: "x = [?cs] @ stle_u16 idx @ [sub] @ [of_nat CO_SSDO_MAX_SEQNO] @ replicate 3 0" by (simp add: x_def blk_ini_res_def)
  have x0: "x ! 0 = ?cs" "x ! 4 = 127" by (simp_all add: x stle_u16_def max_seqno)
  have cs: "?cs AND CO_SDO_CS_MASK = CO_SDO_SCS_BLK_DN_RES" "?cs AND CO_SDO_SC_MASK = CO_SDO_SC_INI_BLK" "CO_SDO_BLK_CRC \<noteq> 0"
    by (simp_all add: sdo_cs)
  note m = ini_msg [OF x]
  show ?thesis using assms unfolding x_def [symmetric]
    by (simp add: csdo_recv_frame co_csdo_blk_dn_ini_on_recv_def check_scs_def check_object_def x0 cs m requested_def csdo_enter_def
        del: co_csdo_enter.simps)
qed

section \<open>Properties\<close>



end
