(* ===== verification/Co_Sdo_Up.thy ===== *)
theory Co_Sdo_Up
  imports Co_Sdo_Bus
begin

text \<open>
  Expedited and segmented uploads, client and server together: the application gets exactly the bytes of
  the object, or the reason why there are none.
\<close>

unbundle bit_operations_syntax

section \<open>Specification\<close>

text \<open>What an upload of a sub-object should yield: an abort code or the value.\<close>

definition up_answer :: "co_dev \<Rightarrow> u16 \<Rightarrow> u8 \<Rightarrow> u32 + bytes" where
  "up_answer D idx sub = (case D idx of
       None \<Rightarrow> Inl CO_SDO_AC_NO_OBJ
     | Some ob \<Rightarrow> (case obj_subs ob sub of
         None \<Rightarrow> Inl CO_SDO_AC_NO_SUB
       | Some sb \<Rightarrow>
           if (case obj_array ob of None \<Rightarrow> False | Some n \<Rightarrow> sub > n) then Inl CO_SDO_AC_NO_DATA
           else if \<not> sub_read sb then Inl CO_SDO_AC_NO_READ
           else (case sub_val sb of None \<Rightarrow> Inl CO_SDO_AC_NO_DATA | Some v \<Rightarrow> Inr v)))"

lemma up_answer_codes: "up_answer D idx sub = Inl ac \<Longrightarrow> ac \<noteq> 0 \<and> ac \<noteq> CO_SDO_AC_BLK_SIZE"
  by (auto simp: up_answer_def sdo_ac split: option.splits if_splits)

section \<open>The value of the server\<close>

text \<open>A request that holds the whole value \<open>v\<close>.\<close>

definition up_req :: "bytes \<Rightarrow> co_sdo_req \<Rightarrow> bool" where
  "up_req v r \<longleftrightarrow> sq_size r = length v \<and> sq_nbyte r = length v \<and> sq_offset r = 0 \<and> take (length v) (sq_buf r) = v \<and> membuf_wf (sq_membuf r)"

lemma up_ind_some:
  assumes "ss_dev s (ss_idx s) = Some ob" "obj_subs ob (ss_subidx s) = Some sb"
    "\<not> (case obj_array ob of None \<Rightarrow> False | Some n \<Rightarrow> ss_subidx s > n)" "co_sub_up_ind H sb (ss_req s) = (ac, r)"
  shows "co_ssdo_up_ind H s = (ac, s\<lparr>ss_nbyte := 0, ss_req := r\<rparr>)"
  using assms by (simp add: co_ssdo_up_ind_def)

lemma up_ind_refused:
  assumes "up_answer (ss_dev s) (ss_idx s) (ss_subidx s) = Inl ac" "ss_nbyte s = 0"
  shows "co_ssdo_up_ind H s = (Some ac, s)"
proof -
  have same: "s\<lparr>ss_nbyte := 0, ss_req := ss_req s\<rparr> = s" using assms(2) by simp
  consider "ss_dev s (ss_idx s) = None" | ob where "ss_dev s (ss_idx s) = Some ob" "obj_subs ob (ss_subidx s) = None"
    | ob sb where "ss_dev s (ss_idx s) = Some ob" "obj_subs ob (ss_subidx s) = Some sb" by fastforce
  then show ?thesis
  proof cases
    case (3 ob sb)
    show ?thesis
    proof (cases "case obj_array ob of None \<Rightarrow> False | Some n \<Rightarrow> ss_subidx s > n")
      case True
      then show ?thesis using 3 assms(1) by (simp add: up_answer_def co_ssdo_up_ind_def)
    next
      case False
      then have "co_sub_up_ind H sb (ss_req s) = (Some ac, ss_req s)"
        using 3 assms(1) by (cases "sub_read sb"; cases "sub_val sb") (simp_all add: up_answer_def co_sub_up_ind_def)
      from up_ind_some [OF 3 False this] same show ?thesis by (simp only:)
    qed
  qed (use assms(1) in \<open>simp_all add: up_answer_def co_ssdo_up_ind_def\<close>)
qed

lemma up_answer_value:
  assumes "up_answer D idx sub = Inr v"
  obtains ob sb where "D idx = Some ob" "obj_subs ob sub = Some sb" "\<not> (case obj_array ob of None \<Rightarrow> False | Some n \<Rightarrow> sub > n)" "sub_read sb"
    "sub_val sb = Some v"
  using assms by (auto simp: up_answer_def split: option.splits if_splits)

lemma req_up_val:
  assumes "membuf_wf (sq_membuf r)" "length v \<le> 2 ^ 31" "\<And>sz. hp_ok H sz"
  shows "\<exists>r'. co_sdo_req_up_val H v r = (Up_ok, r') \<and> up_req v r'"
proof (cases "v = []")
  case True
  then show ?thesis by (simp add: co_sdo_req_up_val_def co_sdo_req_up_buf_def up_req_def Let_def membuf_size_def)
next
  case False
  obtain b where b: "membuf_reserve H (membuf_clear (sq_membuf r)) (length v) = Reserved b"
    using membuf_reserve_ok [of "membuf_clear (sq_membuf r)" "length v" H] assms False by auto
  note p = membuf_reserve_props [OF b]
  have "membuf_wf b" "mb_held b = []" "length v \<le> membuf_capacity b" "membuf_size b = 0" using p assms(2) by simp_all
  then have w: "mb_held (membuf_write v b) = v" "membuf_wf (membuf_write v b)" "membuf_size (membuf_write v b) = length v"
    using membuf_write_held [of b v] by simp_all
  then show ?thesis using False
    by (simp add: co_sdo_req_up_val_def b co_sdo_req_up_buf_def up_req_def mb_held_def membuf_size_def)
qed

lemma up_ind_value:
  assumes "up_answer (ss_dev s) (ss_idx s) (ss_subidx s) = Inr v" "membuf_wf (sq_membuf (ss_req s))" "length v \<le> 2 ^ 31" "\<And>sz. hp_ok H sz"
  shows "\<exists>r. co_ssdo_up_ind H s = (Some 0, s\<lparr>ss_nbyte := 0, ss_req := r\<rparr>) \<and> up_req v r"
proof -
  obtain r where "co_sdo_req_up_val H v (ss_req s) = (Up_ok, r)" "up_req v r" using req_up_val [OF assms(2-4)] by blast
  moreover obtain ob sb where o: "ss_dev s (ss_idx s) = Some ob" "obj_subs ob (ss_subidx s) = Some sb"
    "\<not> (case obj_array ob of None \<Rightarrow> False | Some n \<Rightarrow> ss_subidx s > n)" "sub_read sb" "sub_val sb = Some v"
    by (rule up_answer_value [OF assms(1)])
  ultimately have "co_sub_up_ind H sb (ss_req s) = (Some 0, r)" by (simp add: co_sub_up_ind_def)
  from up_ind_some [OF o(1-3) this] show ?thesis using \<open>up_req v r\<close> by blast
qed

lemma up_buf_fuel: "UP_BUF_FUEL = Suc (Suc (Suc (Suc 0)))"
  by (simp add: UP_BUF_FUEL_def)

text \<open>\<open>co_ssdo_up_buf\<close> appends the next \<open>n\<close> bytes of the value to the buffer, or as many as are left.\<close>

lemma up_buf_chunk:
  assumes "up_req v (ss_req s)" "ss_nbyte s \<le> length v" "length v \<le> 2 ^ 31" "0 < n" "membuf_wf (ss_buf s)" "membuf_size (ss_buf s) + n \<le> 2 ^ 31"
    "\<And>sz. hp_ok H sz" "x = take n (drop (ss_nbyte s) v)"
  shows "\<exists>b. co_ssdo_up_buf H n s
      = (Some 0, s\<lparr>ss_buf := b, ss_nbyte := ss_nbyte s + length x, ss_crc := if ss_gencrc s then crc_ref (ss_crc s) x else ss_crc s\<rparr>)
    \<and> membuf_wf b \<and> mb_held b = mb_held (ss_buf s) @ x"
proof -
  obtain b where b: "membuf_reserve H (ss_buf s) n = Reserved b" using membuf_reserve_ok [OF assms(5,4,6,7)] by blast
  have p: "membuf_wf b" "mb_held b = mb_held (ss_buf s)" "n \<le> membuf_capacity b" using membuf_reserve_props [OF b assms(5)] assms(6) by auto
  have r: "sq_nbyte (ss_req s) = length v" "co_sdo_req_last (ss_req s)" "take (length v) (sq_buf (ss_req s)) = v"
    using assms(1,3) by (simp_all add: up_req_def co_sdo_req_last_def)
  define k where "k = ss_nbyte s"
  show ?thesis
  proof (cases "k < length v")
    case False
    then have "k = length v" using assms(2) by (simp add: k_def)
    then have "x = []" "ss_nbyte s = length v" using assms(8) by (simp_all add: k_def)
    then show ?thesis using p r assms(4)
      by (intro exI [of _ b]) (auto simp: co_ssdo_up_buf_def b up_buf_fuel)
  next
    case True
    define m where "m = min n (length v - k)"
    have m: "0 < m" "m \<le> n" "k + m \<le> length v" "n - m \<noteq> 0 \<Longrightarrow> k + m = length v" "length x = m"
      using True assms(4,8) by (auto simp: m_def k_def)
    have "szt_diff (length v) k = length v - k" using True assms(3) by simp
    then have km: "min n (szt_diff (sq_nbyte (ss_req s)) (ss_nbyte s)) = m" using r by (simp add: k_def m_def)
    have src: "take m (drop k (sq_buf (ss_req s))) = x"
    proof -
      have "take m (drop k (sq_buf (ss_req s))) = take m (drop k (take (length v) (sq_buf (ss_req s))))"
        using m(3) by (simp add: drop_take min_def)
      then show ?thesis using r(3) assms(8) m(5) by (simp add: k_def m_def min_def)
    qed
    have w: "mb_held (membuf_write x b) = mb_held (ss_buf s) @ x" "membuf_wf (membuf_write x b)"
      using membuf_write_held [OF p(1), of x] p m by simp_all
    have crc: "co_crc c (Some x) m = Some (crc_ref c x)" for c using co_crc_run [of m x c] m(5) by simp
    define t where "t = s\<lparr>ss_buf := b\<rparr>"
    define u where "u = s\<lparr>ss_buf := membuf_write x b, ss_nbyte := k + m, ss_crc := if ss_gencrc s then crc_ref (ss_crc s) x else ss_crc s\<rparr>"
    have t: "ss_nbyte t = k" "sq_nbyte (ss_req t) = length v" "ss_gencrc t = ss_gencrc s" "ss_req t = ss_req s" "ss_buf t = b" "ss_crc t = ss_crc s"
      using r by (simp_all add: t_def k_def)
    have ut: "u = (if ss_gencrc s then t\<lparr>ss_crc := crc_ref (ss_crc s) x\<rparr> else t)\<lparr>ss_buf := membuf_write x b, ss_nbyte := k + m\<rparr>"
      by (simp add: u_def t_def)
    have "up_buf_loop UP_BUF_FUEL H n t = up_buf_loop (Suc (Suc (Suc 0))) H (n - m) u"
      using True assms(4) km src crc r
      by (simp add: up_buf_fuel t ut k_def [symmetric] Let_def del: up_buf_loop.simps add: up_buf_loop.simps(2) [of "Suc (Suc (Suc 0))"])
    also have "\<dots> = (Some 0, u)"
      using r m(4) by (simp add: up_buf_loop.simps(2) [of "Suc (Suc 0)"] u_def del: up_buf_loop.simps)
    finally have "co_ssdo_up_buf H n s = (Some 0, u)" using assms(4) by (simp add: co_ssdo_up_buf_def b t_def)
    then show ?thesis using w m(5) by (intro exI [of _ "membuf_write x b"]) (simp add: u_def k_def)
  qed
qed


section \<open>Segments\<close>

text \<open>The server has sent the first \<open>k\<close> bytes of \<open>v\<close>.\<close>

definition up_server :: "bytes \<Rightarrow> nat \<Rightarrow> u8 \<Rightarrow> co_ssdo \<Rightarrow> bool" where
  "up_server v k t s \<longleftrightarrow> ss_state s = SS_up_seg \<and> ss_toggle s = t \<and> up_req v (ss_req s) \<and> ss_nbyte s = k"

definition up_seg_req :: "u8 \<Rightarrow> bytes" where
  "up_seg_req t = seg_data (CO_SDO_CCS_UP_SEG_REQ OR t)"

lemma server_up_seg:
  assumes "up_server v k t s" "serving (ss_par s) D idx sub s" "ss_sent s = []" "t = 0 \<or> t = CO_SDO_SEG_TOGGLE" "k \<le> length v"
    "v = [] \<or> 4 < length v" "length v \<le> 2 ^ 31" "\<And>sz. hp_ok H sz" "s' = co_ssdo_recv H (sdo_frame cobid (up_seg_req t)) s"
  shows "if length v - k \<le> 7 then ended s D (seg_req v k t) s'
    else up_server v (k + 7) (t XOR CO_SDO_SEG_TOGGLE) (s'\<lparr>ss_sent := []\<rparr>) \<and> serving (ss_par s) D idx sub s'
      \<and> ss_sent s' = [sdo_frame (cobid_res (ss_par s)) (seg_req v k t)]"
proof -
  define t1 where "t1 = s\<lparr>ss_buf := membuf_clear (ss_buf s)\<rparr>"
  have up: "up_req v (ss_req s)" "ss_nbyte s = k" "ss_state s = SS_up_seg" "ss_toggle s = t" using assms(1) by (simp_all add: up_server_def)
  have t1: "ss_req t1 = ss_req s" "ss_nbyte t1 = k" "ss_gencrc t1 = ss_gencrc s" "ss_crc t1 = ss_crc s" "membuf_wf (ss_buf t1)" "mb_held (ss_buf t1) = []"
    "membuf_size (ss_buf t1) = 0" using up(2) by (simp_all add: t1_def)
  obtain b where b: "co_ssdo_up_buf H 7 t1 = (Some 0, t1\<lparr>ss_buf := b, ss_nbyte := k + length (seg_part v k),
        ss_crc := if ss_gencrc s then crc_ref (ss_crc s) (seg_part v k) else ss_crc s\<rparr>)"
      "membuf_wf b" "mb_held b = seg_part v k"
    using up_buf_chunk [of v t1 7 H "seg_part v k"] up t1 assms(5,7,8) by (auto simp: seg_part_def)
  define u where "u = t1\<lparr>ss_buf := b, ss_nbyte := k + length (seg_part v k),
    ss_crc := if ss_gencrc s then crc_ref (ss_crc s) (seg_part v k) else ss_crc s\<rparr>"
  define final where "final = (length v - k \<le> 7)"
  have size: "membuf_size b = length (seg_part v k)" "take (length (seg_part v k)) (mb_mem b) = seg_part v k"
  proof -
    show sz: "membuf_size b = length (seg_part v k)" using length_held [OF b(2)] b(3) by simp
    show "take (length (seg_part v k)) (mb_mem b) = seg_part v k" using b(3) sz by (simp add: mb_held_def membuf_size_def)
  qed
  have len: "length (seg_part v k) \<le> length (mb_mem b)" using size(1) b(2) by (simp add: membuf_wf_def membuf_size_def)
  have u: "ss_req u = ss_req s" "ss_nbyte u = k + min (length v - k) 7" "ss_buf u = b" "ss_toggle u = t" "ss_par u = ss_par s" "ss_sent u = []"
    "serving (ss_par s) D idx sub u" "ss_broken u = ss_broken s"
    using assms(2,3) up(4) by (simp_all add: u_def t1_def serving_def)
  have fin: "co_sdo_req_last (ss_req u) \<and> ss_nbyte u = sq_nbyte (ss_req u) \<longleftrightarrow> final"
    using up(1) u(1,2) assms(5,7) by (auto simp: up_req_def co_sdo_req_last_def final_def)
  define w where "w = co_ssdo_send_up_seg_res final u"
  have w: "ss_sent w = [sdo_frame (cobid_res (ss_par s)) (seg_req v k t)]" "serving (ss_par s) D idx sub w" "ss_req w = ss_req s"
    "ss_nbyte w = k + min (length v - k) 7" "ss_toggle w = t XOR CO_SDO_SEG_TOGGLE"
    using u up(1) size len assms(6) by (auto simp: w_def min_absorb2 co_ssdo_send_up_seg_res_def ssdo_assert_def ssdo_send_def Let_def seg_req_def seg_cs_def
        serving_def CO_SDO_SCS_UP_SEG_RES_def or.assoc up_req_def final_def)
  have "up_seg_req t ! 0 AND CO_SDO_CS_MASK = CO_SDO_CCS_UP_SEG_REQ" "up_seg_req t ! 0 AND CO_SDO_SEG_TOGGLE = t"
    using assms(4) by (auto simp: up_seg_req_def seg_data_def sdo_cs)
  moreover have "co_ssdo_up_buf H 7 t1 = (Some 0, u)" using b(1) by (simp only: u_def)
  ultimately have "s' = co_ssdo_enter (if final then co_ssdo_abort_ind w else (Some SS_up_seg, ssdo_arm w))"
    using assms(9) up(3,4) fin
    by (simp add: ssdo_recv_frame co_ssdo_up_seg_on_recv_def check_ccs_def with_up_buf_def t1_def [symmetric] w_def Let_def)
  then show ?thesis using server_done [OF w(2,1)] w up(1) final_def
    by (auto simp: co_ssdo_enter_def ssdo_arm_def up_server_def serving_def)
qed

text \<open>The client has received the first \<open>k\<close> bytes of \<open>v\<close> and has room for the rest.\<close>

definition up_client :: "bytes \<Rightarrow> nat \<Rightarrow> u8 \<Rightarrow> co_csdo \<Rightarrow> bool" where
  "up_client v k t c \<longleftrightarrow> cs_state c = CS_up_seg \<and> cs_size c = length v \<and> cs_toggle c = t \<and> membuf_wf (cs_buf c) \<and> mb_held (cs_buf c) = take k v
     \<and> length v - k \<le> membuf_capacity (cs_buf c)"

lemma client_up_seg:
  assumes "up_client v k (t XOR CO_SDO_SEG_TOGGLE) c" "requested None (Some i) idx sub c" "t = 0 \<or> t = CO_SDO_SEG_TOGGLE" "k \<le> length v"
    "length v \<le> 2 ^ 31" "c' = co_csdo_recv H (sdo_frame cobid (seg_req v k t)) c"
  shows "if length v - k \<le> 7 then up_finished c i idx sub 0 v c'
    else up_client v (k + 7) ((t XOR CO_SDO_SEG_TOGGLE) XOR CO_SDO_SEG_TOGGLE) c' \<and> same_request c c' \<and> requested None (Some i) idx sub (c'\<lparr>cs_sent := []\<rparr>)
      \<and> cs_sent c' = [sdo_frame (cobid_req (cs_par c)) (up_seg_req (t XOR CO_SDO_SEG_TOGGLE))]"
proof -
  define n where "n = min (length v - k) 7"
  have n: "length (seg_part v k) = n" "n \<le> 7" "k + n \<le> length v" using assms(4) by (auto simp: n_def)
  define final where "final = (length v - k \<le> 7)"
  note f = seg_cs_fields [OF assms(3) n(2), of final]
  have cl: "cs_state c = CS_up_seg" "cs_size c = length v" "cs_toggle c = t XOR CO_SDO_SEG_TOGGLE" "membuf_wf (cs_buf c)" "mb_held (cs_buf c) = take k v"
    "length v - k \<le> membuf_capacity (cs_buf c)"
    using assms(1) by (simp_all add: up_client_def)
  have sz: "membuf_size (cs_buf c) = k" using length_held [OF cl(4)] cl(5) assms(4) by simp
  define b where "b = membuf_write (seg_part v k) (cs_buf c)"
  have room: "length (seg_part v k) \<le> membuf_capacity (cs_buf c)" using cl(6) n by (simp add: n_def)
  have "seg_part v k = take n (drop k v)" by (simp add: seg_part_def n_def min_def)
  then have held: "mb_held b = take (k + n) v" "membuf_wf b" "membuf_size b = k + n" "length v - (k + n) \<le> membuf_capacity b"
    using membuf_write_held [OF cl(4) room] cl(5,6) n(1) sz by (simp_all add: b_def take_add)
  define c1 where "c1 = c\<lparr>cs_buf := b\<rparr>"
  have c1: "requested None (Some i) idx sub c1" "cs_confirmed c1 = cs_confirmed c" "cs_par c1 = cs_par c" "cs_size c1 = length v" "cs_buf c1 = b"
    using assms(2) cl(2) by (simp_all add: c1_def requested_def)
  have fin: "final \<Longrightarrow> k + n = length v" "\<not> final \<Longrightarrow> n = 7" using assms(4) by (auto simp: final_def n_def)
  have frame: "seg_req v k t = seg_cs t n final # seg_part v k @ replicate (7 - n) 0" by (simp add: seg_req_def n_def final_def)
  have "take n (seg_part v k @ replicate (7 - n) 0) = seg_part v k" using n(1) by simp
  moreover have "csdo_assert (membuf_capacity (cs_buf c) \<ge> n) c = c" using room n(1) by (simp add: csdo_assert_def)
  moreover have "szt (k + n) = k + n" using n(3) assms(5) by simp
  ultimately have c': "c' = csdo_enter (if final then co_csdo_abort_ind 0 c1 else (Some CS_up_seg, co_csdo_send_up_seg_req (csdo_arm c1)))"
    using f n fin(1) toggle_other(2) [OF assms(3)] sz cl(1-3) held(3) c1(4,5)
    by (auto simp: assms(6) csdo_recv_frame co_csdo_up_seg_on_recv_def check_scs_def frame CO_SDO_SCS_UP_SEG_RES_def Let_def
        b_def [symmetric] c1_def [symmetric])
  show ?thesis
  proof (cases final)
    case True
    then have "mb_held (cs_buf c1) = v" using held(1) fin(1) by (simp add: c1_def)
    then show ?thesis using client_up_done [OF c1(1), of 0] c1(2,3) True c' by (simp add: final_def up_finished_def)
  next
    case False
    then show ?thesis using c' held fin(2) assms(2) cl
      by (auto simp: final_def csdo_enter_def csdo_on_leave_def co_csdo_send_up_seg_req_def csdo_arm_def csdo_send_def c1_def up_client_def
          same_request_def requested_def up_seg_req_def)
  qed
qed


lemma bus_end_up:
  assumes "ended s D d s'" "requested None (Some i) idx sub c" "connected c s" "up_finished c i idx sub ac v (co_csdo_recv H (sdo_frame (cobid_res (cs_par c)) d) c)"
  shows "\<exists>c'' s''. bus_run H (c, s') (c'', s'') \<and> up_finished c i idx sub ac v c'' \<and> ssdo_idle s'' \<and> ss_par s'' = ss_par s \<and> ss_dev s'' = D"
  using bus_last [OF assms(1) _ assms(3) refl, of H] assms(2,4) by (fastforce simp: requested_def up_finished_def)

text \<open>From a request for a segment on its way to the end of the transfer.\<close>

lemma up_loop:
  assumes "up_client v k (t XOR CO_SDO_SEG_TOGGLE) c" "requested None (Some i) idx sub (c\<lparr>cs_sent := []\<rparr>)"
    "cs_sent c = [sdo_frame (cobid_req (cs_par c)) (up_seg_req t)]" "connected c s"
    "up_server v k t s" "serving (ss_par s) D idx sub s" "ss_sent s = []" "t = 0 \<or> t = CO_SDO_SEG_TOGGLE" "k \<le> length v"
    "v = [] \<or> 4 < length v" "length v \<le> 2 ^ 31" "\<And>sz. hp_ok H sz"
  shows "\<exists>c' s'. bus_run H (c, s) (c', s') \<and> up_finished c i idx sub 0 v c' \<and> ssdo_idle s' \<and> ss_par s' = ss_par s \<and> ss_dev s' = D"
  using assms(1-9)
proof (induction "length v - k" arbitrary: k t c s rule: less_induct)
  case less
  let ?m = "sdo_frame (cobid_req (cs_par c)) (up_seg_req t)" and ?c = "c\<lparr>cs_sent := []\<rparr>"
  have m: "cs_sent c = [?m]" "?m = sdo_frame (cobid_req (ss_par s)) (up_seg_req t)"
    using less.prems(3,4) by (simp_all add: connected_def)
  define s1 where "s1 = co_ssdo_recv H ?m s"
  note step = server_up_seg [OF less.prems(5-9) assms(10-12) s1_def]
  have con: "connected ?c s" using less.prems(4) by (simp add: connected_def)
  have cl: "up_client v k (t XOR CO_SDO_SEG_TOGGLE) ?c" using less.prems(1) by (simp add: up_client_def)
  define c1 where "c1 = co_csdo_recv H (sdo_frame (cobid_res (cs_par ?c)) (seg_req v k t)) ?c"
  note nxt = client_up_seg [OF cl less.prems(2,8,9) assms(11) c1_def]
  have "\<exists>c' s'. bus_run H (?c, s1) (c', s') \<and> up_finished ?c i idx sub 0 v c' \<and> ssdo_idle s' \<and> ss_par s' = ss_par s \<and> ss_dev s' = D"
  proof (cases "length v - k \<le> 7")
    case True
    then show ?thesis by (intro bus_end_up [OF _ less.prems(2) con]) (use step nxt c1_def in auto)
  next
    case False
    have s1: "up_server v (k + 7) (t XOR CO_SDO_SEG_TOGGLE) (s1\<lparr>ss_sent := []\<rparr>)" "serving (ss_par s) D idx sub s1"
      "ss_sent s1 = [sdo_frame (cobid_res (ss_par s)) (seg_req v k t)]" using step False by simp_all
    have c1: "up_client v (k + 7) ((t XOR CO_SDO_SEG_TOGGLE) XOR CO_SDO_SEG_TOGGLE) c1" "same_request ?c c1"
      "requested None (Some i) idx sub (c1\<lparr>cs_sent := []\<rparr>)"
      "cs_sent c1 = [sdo_frame (cobid_req (cs_par c1)) (up_seg_req (t XOR CO_SDO_SEG_TOGGLE))]"
      using nxt False by (auto simp: same_request_def)
    have con1: "connected c1 (s1\<lparr>ss_sent := []\<rparr>)" using con c1(2) s1(2) by (simp add: connected_def same_request_def serving_def)
    have sv1: "serving (ss_par (s1\<lparr>ss_sent := []\<rparr>)) D idx sub (s1\<lparr>ss_sent := []\<rparr>)" using s1(2) by (simp add: serving_def)
    have lt: "length v - (k + 7) < length v - k" "k + 7 \<le> length v" using False by simp_all
    obtain c' s' where run: "bus_run H (c1, s1\<lparr>ss_sent := []\<rparr>) (c', s')" "up_finished c1 i idx sub 0 v c'"
      "ssdo_idle s'" "ss_par s' = ss_par s1" "ss_dev s' = D"
      using less.hyps [OF lt(1) c1(1,3,4) con1 s1(1) sv1 _ toggle_other(1) [OF less.prems(8)] lt(2)] by auto
    have "bus_run H (?c, s1) (c', s')"
      by (rule bus_to_client [OF _ s1(3)]) (use run(1) con c1_def in \<open>simp_all add: connected_def\<close>)
    then show ?thesis using run c1(2) s1(2) by (intro exI [of _ c'] exI [of _ s']) (simp add: up_finished_def same_request_def serving_def)
  qed
  then obtain c' s' where run: "bus_run H (?c, s1) (c', s')" "up_finished ?c i idx sub 0 v c'" "ssdo_idle s'"
    "ss_par s' = ss_par s" "ss_dev s' = D" by blast
  have "bus_run H (c, s) (c', s')" by (rule bus_to_server [OF m]) (use run(1) s1_def in simp)
  then show ?case using run by (intro exI [of _ c'] exI [of _ s']) (simp add: up_finished_def)
qed

section \<open>Initiating an upload\<close>

definition up_ini :: "u16 \<Rightarrow> u8 \<Rightarrow> bytes" where
  "up_ini idx sub = [CO_SDO_CCS_UP_INI_REQ] @ stle_u16 idx @ [sub] @ replicate 4 0"

definition up_ini_res :: "bytes \<Rightarrow> u16 \<Rightarrow> u8 \<Rightarrow> bytes" where
  "up_ini_res v idx sub = (if v \<noteq> [] \<and> length v \<le> 4
     then [CO_SDO_SCS_UP_INI_RES OR CO_SDO_INI_SIZE_EXP_SET (length v)] @ stle_u16 idx @ [sub] @ v @ replicate (4 - length v) 0
     else [CO_SDO_SCS_UP_INI_RES OR CO_SDO_INI_SIZE_IND] @ stle_u16 idx @ [sub] @ stle_u32 (of_nat (length v)))"

lemma client_up_req:
  assumes "csdo_idle c"
  shows "\<exists>c1. co_csdo_up_req idx sub (Some i) c = Some c1 \<and> requested None (Some i) idx sub (c1\<lparr>cs_sent := []\<rparr>) \<and> same_request c c1
    \<and> cs_sent c1 = [sdo_frame (cobid_req (cs_par c1)) (up_ini idx sub)] \<and> cs_state c1 = CS_up_ini \<and> cs_toggle c1 = 0
    \<and> membuf_wf (cs_buf c1) \<and> mb_held (cs_buf c1) = []"
proof -
  define c2 where "c2 = co_csdo_send_up_ini_req (csdo_arm ((csdo_reset idx sub 0 c)\<lparr>cs_buf := membuf_clear (cs_buf c), cs_dn_con := None, cs_up_con := Some i\<rparr>))"
  have idle: "cs_state c = CS_wait" "cs_sent c = []" "co_csdo_is_valid (cs_par c)" "\<not> cs_hung c" "\<not> cs_broken c" using assms by (simp_all add: csdo_idle_def)
  have req: "co_csdo_up_req idx sub (Some i) c = Some (co_csdo_enter (Some CS_up_ini) c2)"
    using idle by (simp add: co_csdo_up_req_def co_csdo_up_ind_def co_csdo_is_idle_def c2_def del: co_csdo_enter.simps)
  have c2: "cs_state c2 = CS_wait" "cs_par c2 = cs_par c" "cs_confirmed c2 = cs_confirmed c" "cs_dn_con c2 = None" "cs_up_con c2 = Some i"
    "cs_idx c2 = idx" "cs_subidx c2 = sub" "cs_toggle c2 = 0" "\<not> cs_hung c2" "\<not> cs_broken c2" "cs_buf c2 = membuf_clear (cs_buf c)"
    "cs_sent c2 = [sdo_frame (cobid_req (cs_par c)) (up_ini idx sub)]"
    using idle by (simp_all add: c2_def csdo_arm_def csdo_reset_def co_csdo_send_up_ini_req_def csdo_send_def co_csdo_init_ini_req_def ini_data_def up_ini_def)
  show ?thesis using c2 idle(3) by (simp add: req csdo_on_leave_def requested_def same_request_def)
qed


lemma server_up_ini:
  assumes "ss_state s = SS_wait"
  shows "co_ssdo_recv H (sdo_frame cobid (up_ini idx sub)) s = co_ssdo_enter (with_up_ind H (\<lambda>s.
      if sq_size (ss_req s) \<noteq> 0 \<and> sq_size (ss_req s) \<le> 4 then with_up_buf H (sq_size (ss_req s)) (\<lambda>s. co_ssdo_abort_ind (co_ssdo_send_up_exp_res s)) s
      else (Some SS_up_seg, ssdo_arm (co_ssdo_send_up_ini_res s)))
    (s\<lparr>ss_idx := idx, ss_subidx := sub, ss_req := co_sdo_req_clear (ss_req s)\<rparr>))"
proof -
  have cs: "up_ini idx sub ! 0 AND CO_SDO_CS_MASK = CO_SDO_CCS_UP_INI_REQ" "CO_SDO_CCS_UP_INI_REQ \<noteq> CO_SDO_CCS_DN_INI_REQ"
    by (simp_all add: up_ini_def sdo_cs)
  have m: "msg_idx (sdo_frame cobid (up_ini idx sub)) = idx" "msg_subidx (sdo_frame cobid (up_ini idx sub)) = sub"
    by (rule ini_msg, simp add: up_ini_def)+
  show ?thesis using assms cs m
    by (simp add: ssdo_recv_frame co_ssdo_wait_on_recv_def co_ssdo_up_ini_on_recv_def load_object_def Let_def)
qed

lemma server_up_ini_step:
  assumes "ssdo_idle s" "ss_dev s = D" "\<And>v. up_answer D idx sub = Inr v \<Longrightarrow> length v \<le> 2 ^ 31" "\<And>sz. hp_ok H sz"
    "s' = co_ssdo_recv H (sdo_frame cobid (up_ini idx sub)) s"
  shows "case up_answer D idx sub of
      Inl ac \<Rightarrow> ended s D (abort_data idx sub ac) s'
    | Inr v \<Rightarrow> if v \<noteq> [] \<and> length v \<le> 4 then ended s D (up_ini_res v idx sub) s'
        else up_server v 0 0 (s'\<lparr>ss_sent := []\<rparr>) \<and> serving (ss_par s) D idx sub s' \<and> ss_sent s' = [sdo_frame (cobid_res (ss_par s)) (up_ini_res v idx sub)]"
proof -
  define s1 where "s1 = s\<lparr>ss_idx := idx, ss_subidx := sub, ss_req := co_sdo_req_clear (ss_req s)\<rparr>"
  have s1: "ss_idx s1 = idx" "ss_subidx s1 = sub" "ss_sent s1 = []" "ss_par s1 = ss_par s" "ss_dev s1 = D" "ss_nbyte s1 = 0" "membuf_wf (sq_membuf (ss_req s1))"
    "ss_toggle s1 = 0" "membuf_wf (ss_buf s1)" "membuf_size (ss_buf s1) = 0" "mb_held (ss_buf s1) = []" "\<not> ss_broken s1" "\<not> ss_hung s1"
    using assms(1,2) by (simp_all add: s1_def ssdo_idle_def co_sdo_req_clear_def membuf_wf_def membuf_size_def mb_held_def)
  have sv: "serving (ss_par s) D idx sub s1" using s1 by (simp add: serving_def)
  have recv: "s' = co_ssdo_enter (with_up_ind H (\<lambda>s.
      if sq_size (ss_req s) \<noteq> 0 \<and> sq_size (ss_req s) \<le> 4 then with_up_buf H (sq_size (ss_req s)) (\<lambda>s. co_ssdo_abort_ind (co_ssdo_send_up_exp_res s)) s
      else (Some SS_up_seg, ssdo_arm (co_ssdo_send_up_ini_res s))) s1)"
    using server_up_ini [of s H cobid idx sub] assms(1,5) by (simp add: ssdo_idle_def s1_def)
  show ?thesis
  proof (cases "up_answer D idx sub")
    case (Inl ac)
    have "co_ssdo_up_ind H s1 = (Some ac, s1)" by (rule up_ind_refused) (use Inl s1 in simp_all)
    then show ?thesis using Inl server_abort [OF sv s1(3), of ac] up_answer_codes [OF Inl] by (simp add: recv with_up_ind_def)
  next
    case (Inr v)
    have len: "length v \<le> 2 ^ 31" using assms(3) [OF Inr] .
    obtain r where r: "co_ssdo_up_ind H s1 = (Some 0, s1\<lparr>ss_nbyte := 0, ss_req := r\<rparr>)" "up_req v r"
      using up_ind_value [of s1 v H] Inr s1 len assms(4) by auto
    define s2 where "s2 = s1\<lparr>ss_nbyte := 0, ss_req := r\<rparr>"
    have s2: "ss_req s2 = r" "ss_nbyte s2 = 0" "ss_buf s2 = ss_buf s1" "sq_size r = length v" "serving (ss_par s) D idx sub s2" "ss_sent s2 = []"
      using s1 r(2) by (simp_all add: s2_def up_req_def serving_def)
    show ?thesis
    proof (cases "v \<noteq> [] \<and> length v \<le> 4")
      case True
      obtain b where b: "co_ssdo_up_buf H (length v) s2 = (Some 0, s2\<lparr>ss_buf := b, ss_nbyte := length v,
          ss_crc := if ss_gencrc s2 then crc_ref (ss_crc s2) v else ss_crc s2\<rparr>)" "membuf_wf b" "mb_held b = v"
        using up_buf_chunk [of v s2 "length v" H v] s2 r(2) s1(9-11) len assms(4) True by auto
      define w where "w = co_ssdo_send_up_exp_res (s2\<lparr>ss_buf := b, ss_nbyte := length v,
          ss_crc := if ss_gencrc s2 then crc_ref (ss_crc s2) v else ss_crc s2\<rparr>)"
      have sz: "membuf_size b = length v" "take (length v) (mb_mem b) = v"
        using held_take [OF b(2,3)] by simp_all
      have "min (length (mb_mem b)) (length v) = length v" using arg_cong [OF sz(2), of length] by simp
      then have w: "serving (ss_par s) D idx sub w" "ss_sent w = [sdo_frame (cobid_res (ss_par s)) (up_ini_res v idx sub)]"
        using s2 sz True by (simp_all add: w_def co_ssdo_send_up_exp_res_def ssdo_assert_def ssdo_send_def Let_def co_ssdo_init_ini_res_def
            serving_def up_ini_res_def)
      have "s' = co_ssdo_enter (co_ssdo_abort_ind w)"
        using True b(1) r(1) s2(1,4) by (simp add: recv with_up_ind_def with_up_buf_def s2_def [symmetric] w_def)
      then show ?thesis using Inr True server_done [OF w] by simp
    next
      case False
      then have "v = [] \<or> 4 < length v" by auto
      then have "s' = co_ssdo_enter (Some SS_up_seg, ssdo_arm (co_ssdo_send_up_ini_res s2))"
        using r(1) s2(1,4) by (auto simp: recv with_up_ind_def s2_def [symmetric])
      then show ?thesis using Inr False s1 s2 r(2)
        by (auto simp: co_ssdo_enter_def ssdo_arm_def co_ssdo_send_up_ini_res_def ssdo_assert_def ssdo_send_def co_ssdo_init_ini_res_def
            serving_def up_ini_res_def up_server_def s2_def)
    qed
  qed
qed

lemma client_up_ini:
  assumes "cs_state c = CS_up_ini" "requested None (Some i) idx sub c" "cs_toggle c = 0" "membuf_wf (cs_buf c)" "mb_held (cs_buf c) = []"
    "length v \<le> 2 ^ 31" "\<And>sz. hp_ok H sz" "c' = co_csdo_recv H (sdo_frame cobid (up_ini_res v idx sub)) c"
  shows "if v \<noteq> [] \<and> length v \<le> 4 then up_finished c i idx sub 0 v c'
    else up_client v 0 (0 XOR CO_SDO_SEG_TOGGLE) c' \<and> same_request c c' \<and> requested None (Some i) idx sub (c'\<lparr>cs_sent := []\<rparr>)
      \<and> cs_sent c' = [sdo_frame (cobid_req (cs_par c)) (up_seg_req 0)]"
proof -
  define ex where "ex = (v \<noteq> [] \<and> length v \<le> 4)"
  define cs where "cs = (if ex then CO_SDO_SCS_UP_INI_RES OR CO_SDO_INI_SIZE_EXP_SET (length v) else CO_SDO_SCS_UP_INI_RES OR CO_SDO_INI_SIZE_IND)"
  define data where "data = (if ex then v @ replicate (4 - length v) 0 else stle_u32 (of_nat (length v)))"
  define x where "x = up_ini_res v idx sub"
  have x: "x = [cs] @ stle_u16 idx @ [sub] @ data" by (simp add: x_def up_ini_res_def ex_def cs_def data_def)
  note m = ini_msg [OF x]
  have x0: "x ! 0 = cs" by (simp add: x)
  have cs_f: "cs AND CO_SDO_CS_MASK = CO_SDO_SCS_UP_INI_RES" "cs AND CO_SDO_INI_SIZE_EXP \<noteq> 0 \<longleftrightarrow> ex" "cs AND CO_SDO_INI_SIZE_IND \<noteq> 0"
    "ex \<Longrightarrow> CO_SDO_INI_SIZE_EXP_GET cs = length v"
    using exp_cs [of CO_SDO_SCS_UP_INI_RES "length v"] by (auto simp: cs_def ex_def) (auto simp: sdo_cs)
  have len: "unat (of_nat (length v) :: u32) = length v" using assms(6) by (simp add: unat_of_nat)
  have "msg_pad (sdo_frame cobid x) = data" by (simp add: msg_pad_def m data_def ex_def)
  then have recv: "c' = csdo_enter (reserve_up H (\<lambda>s. if ex then co_csdo_abort_ind 0 (s\<lparr>cs_buf := membuf_write (take (cs_size s) data) (cs_buf s)\<rparr>)
      else (Some CS_up_seg, co_csdo_send_up_seg_req (csdo_arm s))) (c\<lparr>cs_size := length v\<rparr>))"
    using assms(1,2,8) cs_f len
    by (simp add: x_def [symmetric] csdo_recv_frame co_csdo_up_ini_on_recv_def check_scs_def check_object_def x0 m requested_def Let_def data_def)
  have res: "\<exists>b. reserve_up H k (c\<lparr>cs_size := length v\<rparr>) = k (c\<lparr>cs_size := length v, cs_buf := b\<rparr>) \<and> membuf_wf b \<and> mb_held b = [] \<and> length v \<le> membuf_capacity b" for k
  proof (cases "v = []")
    case True
    then show ?thesis using assms(4,5) by (intro exI [of _ "cs_buf c"]) (simp add: reserve_up_def)
  next
    case False
    have "membuf_size (cs_buf c) = 0" using length_held [OF assms(4)] assms(5) by simp
    then obtain b where b: "membuf_reserve H (cs_buf c) (length v) = Reserved b"
      using membuf_reserve_ok [OF assms(4), of "length v" H] assms(6,7) False by auto
    have "membuf_wf b" "mb_held b = []" "length v \<le> membuf_capacity b"
      using membuf_reserve_props [OF b assms(4)] \<open>membuf_size (cs_buf c) = 0\<close> assms(5,6) by simp_all
    then show ?thesis using b False by (intro exI [of _ b]) (simp add: reserve_up_def)
  qed
  let ?k = "\<lambda>s. if ex then co_csdo_abort_ind 0 (s\<lparr>cs_buf := membuf_write (take (cs_size s) data) (cs_buf s)\<rparr>)
      else (Some CS_up_seg, co_csdo_send_up_seg_req (csdo_arm s))"
  obtain b where r: "reserve_up H ?k (c\<lparr>cs_size := length v\<rparr>) = ?k (c\<lparr>cs_size := length v, cs_buf := b\<rparr>)"
    and b': "membuf_wf b" "mb_held b = []" "length v \<le> membuf_capacity b"
    using res [of ?k] by blast
  note b = recv [unfolded r] b'
  show ?thesis
  proof (cases ex)
    case True
    define c1 where "c1 = c\<lparr>cs_size := length v, cs_buf := membuf_write v b\<rparr>"
    have "c' = csdo_enter (co_csdo_abort_ind 0 c1)" using True b(1) by (simp add: c1_def data_def Let_def)
    moreover have "requested None (Some i) idx sub c1" "mb_held (cs_buf c1) = v" "cs_par c1 = cs_par c" "cs_confirmed c1 = cs_confirmed c"
      using assms(2) membuf_write_held [OF b(2,4)] b(3) by (simp_all add: c1_def requested_def)
    ultimately show ?thesis using client_up_done [of i idx sub c1 0] True by (simp add: ex_def up_finished_def)
  next
    case False
    have e: "\<not> (v \<noteq> [] \<and> length v \<le> 4)" using False by (simp add: ex_def)
    show ?thesis unfolding if_not_P [OF e] using False b assms(1-3)
      by (simp add: csdo_enter_def csdo_on_leave_def co_csdo_send_up_seg_req_def csdo_arm_def csdo_send_def up_client_def
          same_request_def requested_def up_seg_req_def Let_def)
  qed
qed


section \<open>Properties\<close>

text \<open>C2. An SDO upload returns the object. When client and server are idle and connected, an upload request for any sub-object is
  accepted and the transfer ends by itself, expedited, segmented or empty: the bus falls quiet, both
  ends are idle again, the dictionary is untouched, and the request is confirmed exactly once, with exactly
  the bytes of the object, or with the reason why it cannot be read (no such object, no such sub-object,
  an array element beyond the number of elements, not readable, no value).\<close>

theorem sdo_upload_returns:
  assumes "csdo_idle c" "ssdo_idle s" "connected c s" "\<And>v. up_answer (ss_dev s) idx sub = Inr v \<Longrightarrow> length v \<le> 2 ^ 31" "\<And>sz. hp_ok H sz"
  shows "\<exists>c1 c' s'. co_csdo_up_req idx sub (Some i) c = Some c1 \<and> bus_run H (c1, s) (c', s')
    \<and> csdo_idle c' \<and> ssdo_idle s' \<and> connected c' s' \<and> ss_dev s' = ss_dev s
    \<and> cs_confirmed c' = cs_confirmed c @ [case up_answer (ss_dev s) idx sub of Inl ac \<Rightarrow> Con_up i idx sub ac [] | Inr v \<Rightarrow> Con_up i idx sub 0 v]"
proof -
  define D where "D = ss_dev s"
  obtain c1 where c1: "co_csdo_up_req idx sub (Some i) c = Some c1" "requested None (Some i) idx sub (c1\<lparr>cs_sent := []\<rparr>)" "same_request c c1"
    "cs_sent c1 = [sdo_frame (cobid_req (cs_par c1)) (up_ini idx sub)]" "cs_state c1 = CS_up_ini" "cs_toggle c1 = 0" "membuf_wf (cs_buf c1)"
    "mb_held (cs_buf c1) = []"
    using client_up_req [OF assms(1), of idx sub i] by auto
  let ?c = "c1\<lparr>cs_sent := []\<rparr>"
  have con: "connected ?c s" using assms(3) c1(3) by (simp add: connected_def same_request_def)
  define s1 where "s1 = co_ssdo_recv H (sdo_frame (cobid_req (cs_par c1)) (up_ini idx sub)) s"
  note step = server_up_ini_step [OF assms(2) D_def [symmetric] assms(4) [folded D_def] assms(5) s1_def]
  define ac where "ac = (case up_answer D idx sub of Inl ac \<Rightarrow> ac | Inr v \<Rightarrow> 0)"
  define v where "v = (case up_answer D idx sub of Inl ac \<Rightarrow> [] | Inr v \<Rightarrow> v)"
  have "\<exists>c' s'. bus_run H (?c, s1) (c', s') \<and> up_finished ?c i idx sub ac v c' \<and> ssdo_idle s' \<and> ss_par s' = ss_par s \<and> ss_dev s' = D"
  proof (cases "up_answer D idx sub")
    case (Inl ac')
    then have "up_finished ?c i idx sub ac v (co_csdo_recv H (sdo_frame (cobid_res (cs_par ?c)) (abort_data idx sub ac)) ?c)"
      using client_recv_abort [of ac ?c H _ idx sub] client_up_done [OF c1(2), of ac] up_answer_codes [OF Inl] c1(5) by (simp add: ac_def v_def)
    then show ?thesis by (intro bus_end_up [OF _ c1(2) con]) (use step Inl ac_def in auto)
  next
    case (Inr v')
    then have v: "up_answer D idx sub = Inr v" "ac = 0" "length v \<le> 2 ^ 31" using assms(4) by (simp_all add: v_def ac_def D_def)
    define c2 where "c2 = co_csdo_recv H (sdo_frame (cobid_res (cs_par ?c)) (up_ini_res v idx sub)) ?c"
    have nxt: "if v \<noteq> [] \<and> length v \<le> 4 then up_finished ?c i idx sub 0 v c2
      else up_client v 0 (0 XOR CO_SDO_SEG_TOGGLE) c2 \<and> same_request ?c c2 \<and> requested None (Some i) idx sub (c2\<lparr>cs_sent := []\<rparr>)
        \<and> cs_sent c2 = [sdo_frame (cobid_req (cs_par ?c)) (up_seg_req 0)]"
      by (rule client_up_ini [OF _ c1(2) _ _ _ v(3) assms(5) c2_def]) (use c1(5-8) in simp_all)
    show ?thesis
    proof (cases "v \<noteq> [] \<and> length v \<le> 4")
      case True
      show ?thesis by (rule bus_end_up [OF _ c1(2) con]) (use nxt step v(1,2) True c2_def in auto)
    next
      case False
      then have long: "v = [] \<or> 4 < length v" by auto
      have s1: "up_server v 0 0 (s1\<lparr>ss_sent := []\<rparr>)" "serving (ss_par s) D idx sub s1" "ss_sent s1 = [sdo_frame (cobid_res (ss_par s)) (up_ini_res v idx sub)]"
        using step v(1) False by auto
      have c2: "up_client v 0 (0 XOR CO_SDO_SEG_TOGGLE) c2" "same_request ?c c2" "requested None (Some i) idx sub (c2\<lparr>cs_sent := []\<rparr>)"
        "cs_sent c2 = [sdo_frame (cobid_req (cs_par c2)) (up_seg_req 0)]"
        using nxt False by (auto simp: same_request_def)
      have con2: "connected c2 (s1\<lparr>ss_sent := []\<rparr>)" using con c2(2) s1(2) by (simp add: connected_def same_request_def serving_def)
      have sv: "serving (ss_par (s1\<lparr>ss_sent := []\<rparr>)) D idx sub (s1\<lparr>ss_sent := []\<rparr>)" using s1(2) by (simp add: serving_def)
      obtain c' s' where run: "bus_run H (c2, s1\<lparr>ss_sent := []\<rparr>) (c', s')" "up_finished c2 i idx sub 0 v c'" "ssdo_idle s'" "ss_par s' = ss_par s1" "ss_dev s' = D"
        using up_loop [OF c2(1,3,4) con2 s1(1) sv _ _ _ long v(3) assms(5)] by auto
      have "bus_run H (?c, s1) (c', s')"
        by (rule bus_to_client [OF _ s1(3)]) (use run(1) con c2_def in \<open>simp_all add: connected_def\<close>)
      then show ?thesis using run c2(2) s1(2) v(2) by (intro exI [of _ c'] exI [of _ s']) (simp add: up_finished_def same_request_def serving_def)
    qed
  qed
  then obtain c' s' where run: "bus_run H (?c, s1) (c', s')" "up_finished ?c i idx sub ac v c'" "ssdo_idle s'"
    "ss_par s' = ss_par s" "ss_dev s' = D" by blast
  have "bus_run H (c1, s) (c', s')"
    by (rule bus_to_server [OF c1(4)]) (use run(1) s1_def con in \<open>simp_all add: connected_def\<close>)
  then show ?thesis using run c1(1,3) con
    by (intro exI [of _ c1] exI [of _ c'] exI [of _ s'])
      (simp add: up_finished_def same_request_def connected_def D_def [symmetric] ac_def v_def split: sum.split)
qed

theorem sdo_upload_returns_witness:
  "\<exists>c1 c' s'. co_csdo_up_req 0x2000 1 (Some 7) (co_csdo_init example_par) = Some c1
    \<and> bus_run example_heap (c1, co_ssdo_init example_par example_dev) (c', s') \<and> csdo_idle c' \<and> ssdo_idle s' \<and> connected c' s'
    \<and> ss_dev s' = example_dev \<and> cs_confirmed c' = [Con_up 7 0x2000 1 0 [9, 8, 7, 6, 5]]"
proof -
  have "up_answer example_dev 0x2000 1 = Inr [9, 8, 7, 6, 5]" by (simp add: up_answer_def example_dev_def)
  then show ?thesis
    using sdo_upload_returns [where H = example_heap and idx = "0x2000" and sub = 1 and i = 7,
        OF example_idle(1) init_idle(2) [of example_par example_dev] example_idle(2)]
    by (simp add: example_idle)
qed

end
