(* ===== verification/Co_Sdo_Faults.thy ===== *)
theory Co_Sdo_Faults
  imports Co_Sdo_Blk Co_Sdo_Up
begin

text \<open>
  What single frames do to the ends of an SDO transfer: an announced size beyond half the address space, a lost
  segment in the last block of a block download, and a block upload of an empty object with a
  protocol switch threshold.
\<close>

unbundle bit_operations_syntax

section \<open>Announced sizes\<close>

lemma reserve_hangs:
  assumes "membuf_size b = 0" "length (mb_mem b) \<le> 2 ^ 31" "2 ^ 31 < n" "n < 2 ^ 32"
  shows "membuf_reserve H b n = Reserve_hangs"
  using assms membuf_grow_hangs [of n GROW_FUEL] by (simp add: membuf_reserve_def membuf_capacity_def)

text \<open>An initiate frame with command byte \<open>cs\<close> that announces \<open>n\<close> bytes.\<close>

definition announce :: "u8 \<Rightarrow> u16 \<Rightarrow> u8 \<Rightarrow> u32 \<Rightarrow> bytes" where
  "announce cs idx sub n = [cs OR CO_SDO_INI_SIZE_IND] @ stle_u16 idx @ [sub] @ stle_u32 n"

lemma server_hangs:
  assumes "ssdo_idle s" "dn_refusal (ss_dev s) idx sub = 0" "2 ^ 31 < unat n" "length (mb_mem (sq_membuf (ss_req s))) \<le> 2 ^ 31"
  shows "ss_hung (co_ssdo_recv H (sdo_frame cobid (announce CO_SDO_CCS_DN_INI_REQ idx sub n)) s)"
proof -
  define d where "d = replicate (unat n) (0 :: u8)"
  have len: "length d = unat n" "unat n < 2 ^ 32" using unsigned_less [of n] by (simp_all add: d_def)
  define r where "r = (co_sdo_req_clear (ss_req s))\<lparr>sq_size := length d\<rparr>"
  define s1 where "s1 = s\<lparr>ss_idx := idx, ss_subidx := sub, ss_req := r\<rparr>"
  have frame: "announce CO_SDO_CCS_DN_INI_REQ idx sub n = dn_ini d idx sub" using assms(3) len(1) by (auto simp: announce_def dn_ini_def)
  have recv: "co_ssdo_recv H (sdo_frame cobid (dn_ini d idx sub)) s
      = co_ssdo_enter (with_dn_ind H (\<lambda>s. (Some SS_dn_seg, ssdo_arm (co_ssdo_send_dn_ini_res s))) s1)"
    using server_dn_ini [of s d H cobid idx sub] assms(1,3) len by (simp add: ssdo_idle_def s1_def r_def)
  have "membuf_reserve H (membuf_clear (sq_membuf r)) (length d) = Reserve_hangs"
    by (rule reserve_hangs) (use assms(3,4) len in \<open>simp_all add: r_def co_sdo_req_clear_def\<close>)
  then have "co_sdo_req_dn H r = (Dn_hangs, r)"
    using assms(3) len by (simp add: co_sdo_req_dn_def co_sdo_req_first_def co_sdo_req_last_def r_def co_sdo_req_clear_def Let_def)
  moreover obtain ob sb where "ss_dev s idx = Some ob" "obj_subs ob sub = Some sb" "sub_write sb" using refusal_none [OF assms(2)] by blast
  ultimately have "\<exists>t. co_ssdo_dn_ind H s1 = (None, t)" by (auto simp: co_ssdo_dn_ind_def co_sub_dn_ind_def s1_def)
  then show ?thesis by (auto simp: frame recv with_dn_ind_def ssdo_hang_def co_ssdo_enter_def)
qed

lemma client_hangs:
  assumes "cs_state c = CS_up_ini" "cs_idx c = idx" "cs_subidx c = sub" "membuf_size (cs_buf c) = 0" "length (mb_mem (cs_buf c)) \<le> 2 ^ 31" "2 ^ 31 < unat n"
  shows "cs_hung (co_csdo_recv H (sdo_frame cobid (announce CO_SDO_SCS_UP_INI_RES idx sub n)) c)"
proof -
  define x where "x = announce CO_SDO_SCS_UP_INI_RES idx sub n"
  let ?cs = "CO_SDO_SCS_UP_INI_RES OR CO_SDO_INI_SIZE_IND"
  have x: "x = [?cs] @ stle_u16 idx @ [sub] @ stle_u32 n" by (simp add: x_def announce_def)
  have x0: "x ! 0 = ?cs" by (simp add: x)
  have cs: "?cs AND CO_SDO_CS_MASK = CO_SDO_SCS_UP_INI_RES" "?cs AND CO_SDO_INI_SIZE_EXP = 0" "CO_SDO_INI_SIZE_IND \<noteq> 0"
    by (simp_all add: sdo_cs)
  note m = ini_msg [OF x]
  have pad: "msg_pad (sdo_frame cobid x) = stle_u32 n" by (simp add: msg_pad_def m)
  have "unat n \<noteq> 0" "unat n < 2 ^ 32" using assms(6) unsigned_less [of n] by simp_all
  moreover from this have "membuf_reserve H (cs_buf c) (unat n) = Reserve_hangs" using reserve_hangs [OF assms(4-6)] by simp
  ultimately show ?thesis using assms(1-3) unfolding x_def [symmetric]
    by (simp add: csdo_recv_frame co_csdo_up_ini_on_recv_def check_scs_def check_object_def x0 cs m pad Let_def reserve_up_def csdo_enter_def)
qed

section \<open>Lost segments\<close>

lemma server_blk_gap:
  assumes "blk_server d k a s" "serving (ss_par s) D idx sub s" "ss_sent s = []" "Suc (Suc a) \<le> j" "j \<le> 127" "length d - k' \<le> 7"
    "s1 = co_ssdo_recv H (sdo_frame cobid (blk_seg d k' j)) s"
  shows "ss_state s1 = SS_blk_dn_end" "serving (ss_par s) D idx sub s1" "ss_sent s1 = [sdo_frame (cobid_res (ss_par s)) (blk_ack a)]"
proof -
  have sv: "ss_state s = SS_blk_dn_sub" "ss_ackseq s = a" "ss_blksize s = 127"
    using assms(1) by (simp_all add: blk_server_def blk_received_def max_seqno)
  have "s1 = (ssdo_arm ((co_ssdo_send_blk_dn_sub_res s)\<lparr>ss_ackseq := 0\<rparr>))\<lparr>ss_state := SS_blk_dn_end\<rparr>"
    using sv seqno_cs [of j] assms(4-7)
    by (simp add: ssdo_recv_frame co_ssdo_blk_dn_sub_on_recv_def Let_def blk_seg_def blk_dn_confirm_def co_ssdo_enter_def)
  then show "ss_state s1 = SS_blk_dn_end" "serving (ss_par s) D idx sub s1" "ss_sent s1 = [sdo_frame (cobid_res (ss_par s)) (blk_ack a)]"
    using assms(2,3) sv
    by (simp_all add: ssdo_arm_def co_ssdo_send_blk_dn_sub_res_def ssdo_send_def serving_def blk_ack_def max_seqno)
qed

section \<open>Properties\<close>

text \<open>C38. An announced size of more than half the address space is never refused and never answered. One download initiate frame that
  announces more than \<open>2 ^ 31\<close> bytes for any writable object makes an idle server loop forever in
  \<open>membuf_reserve\<close>, and one upload initiate response that does so makes a waiting client loop forever,
  whatever the allocator does and however long one waits.\<close>

theorem sdo_announced_size_hangs:
  assumes "2 ^ 31 < unat n"
    "ssdo_idle s" "dn_refusal (ss_dev s) idx sub = 0" "length (mb_mem (sq_membuf (ss_req s))) \<le> 2 ^ 31"
    "cs_state c = CS_up_ini" "cs_idx c = idx" "cs_subidx c = sub" "membuf_size (cs_buf c) = 0" "length (mb_mem (cs_buf c)) \<le> 2 ^ 31"
  shows "ss_hung (co_ssdo_recv H (sdo_frame cobid (announce CO_SDO_CCS_DN_INI_REQ idx sub n)) s)
    \<and> cs_hung (co_csdo_recv H (sdo_frame cobid (announce CO_SDO_SCS_UP_INI_RES idx sub n)) c)
    \<and> (\<forall>fuel. membuf_grow fuel (unat n) LELY_MEMBUF_SIZE = None)"
  using server_hangs [OF assms(2,3,1,4)] client_hangs [OF assms(5-9,1)] membuf_grow_hangs [OF assms(1)] by blast

definition example_up :: co_csdo where
  "example_up = the (co_csdo_up_req 0x2000 1 (Some 7) (co_csdo_init example_par))"

theorem sdo_announced_size_hangs_witness:
  "ss_hung (co_ssdo_recv example_heap (sdo_frame 0x602 (announce CO_SDO_CCS_DN_INI_REQ 0x2000 1 0x80000001)) (co_ssdo_init example_par example_dev))
    \<and> cs_hung (co_csdo_recv example_heap (sdo_frame 0x582 (announce CO_SDO_SCS_UP_INI_RES 0x2000 1 0x80000001)) example_up)"
proof -
  have big: "2 ^ 31 < unat (0x80000001 :: u32)" by simp
  have dev: "dn_refusal (ss_dev (co_ssdo_init example_par example_dev)) 0x2000 1 = 0" by (simp add: ssdo_init_state dn_refusal_def example_dev_def)
  have mem: "length (mb_mem (sq_membuf (ss_req (co_ssdo_init example_par example_dev)))) \<le> 2 ^ 31" by (simp add: ssdo_init_state co_sdo_req_init_def)
  have up: "cs_state example_up = CS_up_ini" "cs_idx example_up = 0x2000" "cs_subidx example_up = 1" "membuf_size (cs_buf example_up) = 0"
    "length (mb_mem (cs_buf example_up)) = 0" by code_simp+
  have cap: "length (mb_mem (cs_buf example_up)) \<le> 2 ^ 31" by (simp add: up(5))
  show ?thesis
    using sdo_announced_size_hangs [OF big init_idle(2) dev mem up(1-4) cap, of example_heap "0x602"]
      sdo_announced_size_hangs [OF big init_idle(2) dev mem up(1-4) cap, of example_heap "0x582"] by blast
qed

text \<open>C39. A segment lost in the last block of a block download costs the transfer. The comments promise that dropped segments are
  resent after the confirmation of the block. When the server has received the first \<open>a\<close> segments of the
  last block and then the final one, number \<open>j\<close>, without some between them, it confirms \<open>a\<close> segments, but it
  also goes on to the end of the transfer; the first segment that the client then resends is not
  expected there and aborts the transfer, leaving the object untouched.\<close>

theorem blk_lost_segment_aborts:
  assumes "blk_server d k a s" "serving (ss_par s) D idx sub s" "ss_sent s = []" "Suc (Suc a) \<le> j" "j \<le> 127"
    "length d - (k + 7 * (j - Suc a)) \<le> 7" "k + 7 * (j - Suc a) < length d"
    "s1 = co_ssdo_recv H (sdo_frame cobid (blk_seg d (k + 7 * (j - Suc a)) j)) s"
  shows "ss_sent s1 = [sdo_frame (cobid_res (ss_par s)) (blk_ack a)]
    \<and> ended s1 D (abort_data idx sub CO_SDO_AC_NO_CS) (co_ssdo_recv H (sdo_frame cobid (blk_seg d k 1)) (s1\<lparr>ss_sent := []\<rparr>))"
proof -
  note s1 = server_blk_gap [OF assms(1-6,8)]
  have more: "\<not> length d - k \<le> 7" using assms(4,7) by auto
  then have cs: "blk_seg d k 1 ! 0 = 1" by (simp add: blk_seg_def)
  have sv: "serving (ss_par s1) D idx sub (s1\<lparr>ss_sent := []\<rparr>)" using s1(2) by (simp add: serving_def)
  have "co_ssdo_recv H (sdo_frame cobid (blk_seg d k 1)) (s1\<lparr>ss_sent := []\<rparr>) = co_ssdo_enter (co_ssdo_abort_res CO_SDO_AC_NO_CS (s1\<lparr>ss_sent := []\<rparr>))"
    using s1(1) cs by (simp add: ssdo_recv_frame co_ssdo_blk_dn_end_on_recv_def check_ccs_def sdo_cs)
  then show ?thesis using s1(3) server_abort [OF sv] by simp
qed

text \<open>The second of three segments is lost.\<close>

definition example_blk :: co_ssdo where
  "example_blk = (co_ssdo_recv example_heap (sdo_frame 0x602 (blk_ini (replicate 15 1) 0x2000 1)) (co_ssdo_init example_par example_dev))\<lparr>ss_sent := []\<rparr>"

theorem blk_lost_segment_aborts_witness:
  "\<exists>s1. s1 = co_ssdo_recv example_heap (sdo_frame 0x602 (blk_seg (replicate 15 1) 14 3)) example_blk
    \<and> ss_sent s1 = [sdo_frame 0x582 (blk_ack 0)]
    \<and> ended s1 example_dev (abort_data 0x2000 1 CO_SDO_AC_NO_CS) (co_ssdo_recv example_heap (sdo_frame 0x602 (blk_seg (replicate 15 1) 0 1)) (s1\<lparr>ss_sent := []\<rparr>))"
proof -
  have dev: "dn_refusal example_dev 0x2000 1 = 0" by (simp add: dn_refusal_def example_dev_def)
  define s' where "s' = co_ssdo_recv example_heap (sdo_frame 0x602 (blk_ini (replicate 15 1) 0x2000 1)) (co_ssdo_init example_par example_dev)"
  have ini: "blk_server (replicate 15 1) 0 0 (s'\<lparr>ss_sent := []\<rparr>)" "serving example_par example_dev 0x2000 1 s'"
    using server_blk_ini [OF init_idle(2) _ _ _ _ s'_def, of example_dev] dev by (simp_all add: ssdo_init_state example_heap_def)
  have eb: "example_blk = s'\<lparr>ss_sent := []\<rparr>" by (simp only: example_blk_def s'_def)
  have res: "cobid_res example_par = 0x582" by (simp add: example_par_def)
  have b: "blk_server (replicate 15 1) 0 0 example_blk" "serving (ss_par example_blk) example_dev 0x2000 1 example_blk" "ss_sent example_blk = []"
    "cobid_res (ss_par example_blk) = 0x582"
    using ini res by (simp_all add: eb serving_def)
  show ?thesis
    using blk_lost_segment_aborts [OF b(1-3), of 3 _ example_heap "0x602"] by (simp add: b(4))
qed


text \<open>An empty object is read as four zero bytes. A block upload request with a protocol switch threshold for a readable object
  without bytes makes the server answer with an expedited response that its own assertion excludes; where
  assertions are compiled out, the frame is the one an object of four zero bytes is answered with.\<close>

theorem blk_up_empty_misread:
  assumes "ssdo_idle s" "up_answer (ss_dev s) idx sub = Inr []" "0 < bs" "bs \<le> 127" "0 < pst" "\<And>sz. hp_ok H sz"
    "s' = co_ssdo_recv H (sdo_frame cobid ([CO_SDO_CCS_BLK_UP_REQ OR CO_SDO_BLK_CRC OR CO_SDO_SC_INI_BLK] @ stle_u16 idx @ [sub, bs, pst, 0, 0])) s"
  shows "ss_broken s' \<and> ss_sent s' = [sdo_frame (cobid_res (ss_par s)) (up_ini_res [0, 0, 0, 0] idx sub)]"
proof -
  define x where "x = [CO_SDO_CCS_BLK_UP_REQ OR CO_SDO_BLK_CRC OR CO_SDO_SC_INI_BLK] @ stle_u16 idx @ [sub, bs, pst, 0, 0]"
  let ?cs = "CO_SDO_CCS_BLK_UP_REQ OR CO_SDO_BLK_CRC OR CO_SDO_SC_INI_BLK"
  have x: "x = [?cs] @ stle_u16 idx @ [sub] @ [bs, pst, 0, 0]" by (simp add: x_def)
  have x0: "x ! 0 = ?cs" "x ! 4 = bs" "x ! 5 = pst" by (simp_all add: x stle_u16_def)
  have cs: "?cs AND CO_SDO_CS_MASK = CO_SDO_CCS_BLK_UP_REQ" "?cs AND CO_SDO_SC_MASK = CO_SDO_SC_INI_BLK" "?cs AND CO_SDO_BLK_CRC \<noteq> 0"
    "CO_SDO_CCS_BLK_UP_REQ \<noteq> CO_SDO_CCS_DN_INI_REQ" "CO_SDO_CCS_BLK_UP_REQ \<noteq> CO_SDO_CCS_UP_INI_REQ" "CO_SDO_CCS_BLK_UP_REQ \<noteq> CO_SDO_CCS_BLK_DN_REQ"
    by (simp_all add: sdo_cs)
  note m = ini_msg [OF x]
  have bs: "unat bs \<noteq> 0" "\<not> 127 < unat bs" "unat pst \<noteq> 0" using assms(3-5) by (auto simp: word_less_nat_alt word_le_nat_alt unat_eq_0)
  define s1 where "s1 = s\<lparr>ss_gencrc := True, ss_idx := idx, ss_subidx := sub, ss_blksize := unat bs, ss_req := co_sdo_req_clear (ss_req s)\<rparr>"
  have s1: "ss_idx s1 = idx" "ss_subidx s1 = sub" "ss_sent s1 = []" "ss_par s1 = ss_par s" "ss_dev s1 = ss_dev s" "membuf_wf (sq_membuf (ss_req s1))"
    "membuf_size (ss_buf s1) = 0"
    using assms(1) by (simp_all add: s1_def ssdo_idle_def co_sdo_req_clear_def)
  obtain r where r: "co_ssdo_up_ind H s1 = (Some 0, s1\<lparr>ss_nbyte := 0, ss_req := r\<rparr>)" "up_req [] r"
    using up_ind_value [of s1 "[]" H] assms(2,6) s1 by auto
  have size: "sq_size r = 0" using r(2) by (simp add: up_req_def)
  have st: "ss_state s = SS_wait" using assms(1) by (simp add: ssdo_idle_def)
  have "s' = co_ssdo_enter (co_ssdo_abort_ind (co_ssdo_send_up_exp_res (s1\<lparr>ss_nbyte := 0, ss_req := r\<rparr>)))"
    unfolding assms(7) x_def [symmetric] using st r(1) bs size
    by (simp add: ssdo_recv_frame co_ssdo_wait_on_recv_def co_ssdo_blk_up_ini_on_recv_def load_object_def x0 cs m with_up_ind_def with_up_buf_def
        co_ssdo_up_buf_def CO_SSDO_MAX_SEQNO_def Let_def s1_def [symmetric])
  moreover have "put_data 4 [] (ini_data c idx sub) = [c] @ stle_u16 idx @ [sub, 0, 0, 0, 0]" for c
    unfolding ini_frame by (simp add: numeral_eq_Suc)
  moreover have "CO_SDO_SCS_UP_INI_RES OR CO_SDO_INI_SIZE_EXP_SET 0 = CO_SDO_SCS_UP_INI_RES OR CO_SDO_INI_SIZE_EXP_SET 4"
    by (simp add: CO_SDO_INI_SIZE_EXP_SET_def sdo_cs)
  moreover have "up_ini_res [0, 0, 0, 0] idx sub = [CO_SDO_SCS_UP_INI_RES OR CO_SDO_INI_SIZE_EXP_SET 4] @ stle_u16 idx @ [sub, 0, 0, 0, 0]"
    by (simp add: up_ini_res_def numeral_eq_Suc)
  ultimately show ?thesis using s1 size
    by (simp add: co_ssdo_enter_def co_ssdo_abort_ind_def co_ssdo_send_up_exp_res_def ssdo_assert_def ssdo_send_def co_ssdo_init_ini_res_def
        Let_def del: ini_frame)
qed

definition empty_dev :: co_dev where
  "empty_dev = [0x2000 \<mapsto> \<lparr>obj_subs = [1 \<mapsto> \<lparr>sub_read = True, sub_write = False, sub_rpdo = False, sub_tpdo = False,
     sub_mapping = False, sub_refuse = False, sub_type = CO_DEFTYPE_OCTET_STRING, sub_val = Some [], sub_chk = (\<lambda>_. 0)\<rparr>], obj_array = None\<rparr>]"

theorem blk_up_empty_misread_witness:
  "\<exists>s'. s' = co_ssdo_recv example_heap (sdo_frame 0x602 ([CO_SDO_CCS_BLK_UP_REQ OR CO_SDO_BLK_CRC OR CO_SDO_SC_INI_BLK] @ stle_u16 0x2000 @ [1, 127, 21, 0, 0]))
      (co_ssdo_init example_par empty_dev)
    \<and> ss_broken s' \<and> ss_sent s' = [sdo_frame (cobid_res example_par) (up_ini_res [0, 0, 0, 0] 0x2000 1)]"
proof -
  have up: "up_answer (ss_dev (co_ssdo_init example_par empty_dev)) 0x2000 1 = Inr []" by (simp add: up_answer_def empty_dev_def ssdo_init_state)
  have par: "ss_par (co_ssdo_init example_par empty_dev) = example_par" by (simp add: ssdo_init_state)
  have "(0 :: u8) < 127" "(127 :: u8) \<le> 127" "(0 :: u8) < 21" by simp_all
  from blk_up_empty_misread [OF init_idle(2) up this example_idle(3) refl, of "0x602"] show ?thesis
    by (intro exI conjI [OF refl]) (simp only: par)
qed

end
