(* ===== verification/Endian.thy ===== *)
theory Endian
  imports Bytes "HOL-Library.Monad_Syntax"
begin

text \<open>
  Bit copies between byte strings (\<open>upstream/src/util/endian.c\<close>): \<open>bcpyle\<close> with its helper \<open>bitcpy\<close>, and the 64-bit
  little-endian load and store of \<open>upstream/include/lely/util/endian.h\<close>. Every access of \<open>bcpyle\<close> to its two
  buffers is explicit: \<open>None\<close> stands for an access outside of one of them. The bit offsets are natural numbers; the
  code also takes negative ones, which no caller in the stack passes. The routine is proved equal to a copy bit by bit
  whenever the bytes it touches exist, and the bytes it touches are determined exactly.
\<close>

unbundle bit_operations_syntax

section \<open>Model\<close>

definition stle_u64 :: "u64 \<Rightarrow> bytes" where
  "stle_u64 x = map (\<lambda>i. ucast (drop_bit (8 * i) x)) [0..<8]"

definition ldle_u64 :: "bytes \<Rightarrow> u64" where
  "ldle_u64 src = foldr (\<lambda>i x. push_bit (8 * i) (ucast (src ! i)) OR x) [0..<8] 0"

text \<open>Reading \<open>src[i]\<close>, and \<open>bitcpy\<close> on \<open>dst[i]\<close>.\<close>

definition byte_at :: "bytes \<Rightarrow> nat \<Rightarrow> u8 option" where
  "byte_at src i = (if i < length src then Some (src ! i) else None)"

definition bitcpy :: "bytes \<Rightarrow> nat \<Rightarrow> u8 \<Rightarrow> u8 \<Rightarrow> bytes option" where
  "bitcpy dst i x m = (if i < length dst then Some (dst[i := ((x XOR dst ! i) AND m) XOR dst ! i]) else None)"

text \<open>The two loops over whole bytes, with and without a shift; \<open>b\<close> is the byte read last.\<close>

fun bcpyle_shift :: "nat \<Rightarrow> nat \<Rightarrow> nat \<Rightarrow> bytes \<Rightarrow> nat \<Rightarrow> bytes \<Rightarrow> nat \<Rightarrow> u8 \<Rightarrow> (bytes \<times> nat \<times> nat \<times> u8) option" where
  "bcpyle_shift 0 right left dst d src s b = Some (dst, d, s, b)"
| "bcpyle_shift (Suc n) right left dst d src s b = do {
     c \<leftarrow> byte_at src s;
     dst \<leftarrow> bitcpy dst d (drop_bit right b OR push_bit left c) 0xff;
     bcpyle_shift n right left dst (d + 1) src (s + 1) c }"

fun bcpyle_plain :: "nat \<Rightarrow> bytes \<Rightarrow> nat \<Rightarrow> bytes \<Rightarrow> nat \<Rightarrow> (bytes \<times> nat \<times> nat) option" where
  "bcpyle_plain 0 dst d src s = Some (dst, d, s)"
| "bcpyle_plain (Suc n) dst d src s = do {
     c \<leftarrow> byte_at src s;
     dst \<leftarrow> bitcpy dst d c 0xff;
     bcpyle_plain n dst (d + 1) src (s + 1) }"

definition bcpyle :: "bytes \<Rightarrow> nat \<Rightarrow> bytes \<Rightarrow> nat \<Rightarrow> nat \<Rightarrow> bytes option" where
  "bcpyle dst dstpos src srcpos n =
     (if n = 0 then Some dst
      else
        let d = dstpos div 8; dstbit = dstpos mod 8;
            s = srcpos div 8; srcbit = srcpos mod 8;
            first = push_bit dstbit 0xff;
            last = NOT (push_bit ((dstbit + n) mod 8) 0xff)
        in if dstbit \<noteq> srcbit then
             let right = (srcbit + 8 - dstbit) mod 8; left = (dstbit + 8 - srcbit) mod 8
             in if dstbit + n \<le> 8 then
                  let first = (if last \<noteq> 0 then first AND last else first)
                  in if srcbit < dstbit then do { a \<leftarrow> byte_at src s; bitcpy dst d (push_bit left a) first }
                     else if srcbit + n \<le> 8 then do { a \<leftarrow> byte_at src s; bitcpy dst d (drop_bit right a) first }
                     else do { a \<leftarrow> byte_at src s; c \<leftarrow> byte_at src (s + 1);
                               bitcpy dst d (drop_bit right a OR push_bit left c) first }
                else do {
                  b \<leftarrow> byte_at src s;
                  (dst, s, b) \<leftarrow>
                    (if srcbit < dstbit then do { dst \<leftarrow> bitcpy dst d (push_bit left b) first; Some (dst, s + 1, b) }
                     else do { c \<leftarrow> byte_at src (s + 1);
                               dst \<leftarrow> bitcpy dst d (drop_bit right b OR push_bit left c) first;
                               Some (dst, s + 2, c) });
                  (dst, d, s, b) \<leftarrow> bcpyle_shift ((n - (8 - dstbit)) div 8) right left dst (d + 1) src s b;
                  if last \<noteq> 0 then do { c \<leftarrow> byte_at src s; bitcpy dst d (drop_bit right b OR push_bit left c) last }
                  else Some dst }
           else
             if dstbit + n \<le> 8 then
               let first = (if last \<noteq> 0 then first AND last else first)
               in do { a \<leftarrow> byte_at src s; bitcpy dst d a first }
             else do {
               (dst, d, s, n) \<leftarrow>
                 (if dstbit > 0 then do { a \<leftarrow> byte_at src s; dst \<leftarrow> bitcpy dst d a first; Some (dst, d + 1, s + 1, n - (8 - dstbit)) }
                  else Some (dst, d, s, n));
               (dst, d, s) \<leftarrow> bcpyle_plain (n div 8) dst d src s;
               if last \<noteq> 0 then do { a \<leftarrow> byte_at src s; bitcpy dst d a last } else Some dst })"

section \<open>The reference\<close>

text \<open>Bit \<open>i\<close> of a byte string, the byte with given bits, and the copy of \<open>n\<close> bits one by one.\<close>

definition bit_at :: "bytes \<Rightarrow> nat \<Rightarrow> bool" where
  "bit_at xs i = bit (xs ! (i div 8)) (i mod 8)"

definition byte_of :: "(nat \<Rightarrow> bool) \<Rightarrow> u8" where
  "byte_of f = horner_sum of_bool 2 (map f [0..<8])"

definition copy_bits :: "bytes \<Rightarrow> nat \<Rightarrow> bytes \<Rightarrow> nat \<Rightarrow> nat \<Rightarrow> bytes" where
  "copy_bits dst dstpos src srcpos n =
     map (\<lambda>j. byte_of (\<lambda>p. let i = 8 * j + p in if dstpos \<le> i \<and> i < dstpos + n then bit_at src (i - dstpos + srcpos) else bit_at dst i))
       [0..<length dst]"

text \<open>The last byte of the source that \<open>bcpyle\<close> reads.\<close>

definition bcpyle_reach :: "nat \<Rightarrow> nat \<Rightarrow> nat \<Rightarrow> nat" where
  "bcpyle_reach dstpos srcpos n =
     srcpos div 8 + (dstpos mod 8 + n - 1) div 8 + (if dstpos mod 8 < srcpos mod 8 \<and> 8 < srcpos mod 8 + n then 1 else 0)"

section \<open>Bytes and bits\<close>

lemma bit_byte_of [simp]: "bit (byte_of f) p \<longleftrightarrow> p < 8 \<and> f p"
  by (auto simp: byte_of_def bit_horner_sum_bit_word_iff)

lemma length_copy_bits [simp]: "length (copy_bits dst dp src sp n) = length dst"
  by (simp add: copy_bits_def)

lemma bit_copy_bits:
  assumes "j < length dst" "p < 8"
  shows "bit (copy_bits dst dp src sp n ! j) p =
    (if dp \<le> 8 * j + p \<and> 8 * j + p < dp + n then bit_at src (8 * j + p - dp + sp) else bit (dst ! j) p)"
  using assms by (simp add: copy_bits_def bit_at_def Let_def)

lemma bit_bitcpy: "bit (((x XOR y) AND m) XOR y) p = (if bit m p then bit x p else bit y p)" for x y m :: u8
  by (auto simp: bit_simps)

lemma bit_ff [simp]: "bit (255 :: int) k \<longleftrightarrow> k < 8" "bit (0xff :: u8) k \<longleftrightarrow> k < 8"
proof -
  have "(255 :: int) = mask 8" by (simp add: mask_eq_exp_minus_1)
  then show "bit (255 :: int) k \<longleftrightarrow> k < 8" by (simp only: bit_mask_iff) simp
  have "(0xff :: u8) = - 1" by simp
  then show "bit (0xff :: u8) k \<longleftrightarrow> k < 8" by (simp only: bit_minus_1_iff) simp
qed

lemma bit_first: "p < 8 \<Longrightarrow> bit (push_bit t (0xff :: u8)) p \<longleftrightarrow> t \<le> p"
  by (auto simp: bit_push_bit_iff)

lemma bit_last: "p < 8 \<Longrightarrow> bit (NOT (push_bit t (0xff :: u8))) p \<longleftrightarrow> p < t"
  by (auto simp: bit_not_iff bit_first)

lemma last_0: "NOT (push_bit (t mod 8) (0xff :: u8)) = 0 \<longleftrightarrow> t mod 8 = 0"
proof -
  have "NOT (push_bit (t mod 8) (0xff :: u8)) = 0 \<longleftrightarrow> (\<forall>p<8. \<not> p < t mod 8)"
    by (auto simp: bit_eq_iff bit_last)
  also have "\<dots> \<longleftrightarrow> t mod 8 = 0" by (auto dest: spec [of _ 0])
  finally show ?thesis .
qed

lemma bit_at_byte [simp]: "q < 8 \<Longrightarrow> bit_at xs (8 * x + q) = bit (xs ! x) q"
  by (simp add: bit_at_def)

text \<open>A byte put together from two neighbours, for a shift to the left and for a shift to the right.\<close>

lemma shift_up_bit:
  assumes "0 < k" "k < 8" "p < 8" "0 < x"
  shows "bit (drop_bit (8 - k) (src ! (x - 1)) OR push_bit k (src ! x)) p = bit_at src (8 * x + p - k)"
proof (cases "k \<le> p")
  case True
  then have "8 * x + p - k = 8 * x + (p - k)" "p - k < 8" "\<not> bit (src ! (x - 1)) (8 - k + p)"
    using assms bit_imp_le_length [of "src ! (x - 1)" "8 - k + p"] by auto
  then show ?thesis using True assms by (simp only: bit_at_byte) (simp add: bit_simps)
next
  case False
  then have "8 * x + p - k = 8 * (x - 1) + (8 - k + p)" "8 - k + p < 8" using assms by auto
  then show ?thesis using False by (simp only: bit_at_byte) (simp add: bit_simps)
qed

lemma shift_up_first: "k \<le> p \<Longrightarrow> p < 8 \<Longrightarrow> bit (push_bit k (src ! x)) p = bit_at src (8 * x + p - k)" for src :: bytes
  using bit_at_byte [of "p - k" src x] by (simp add: bit_simps)

lemma shift_down_bit:
  assumes "0 < k" "k < 8" "p < 8"
  shows "bit (drop_bit k (src ! x) OR push_bit (8 - k) (src ! Suc x)) p = bit_at src (8 * x + p + k)"
proof (cases "k + p < 8")
  case True
  then have "8 * x + p + k = 8 * x + (k + p)" "\<not> 8 - k \<le> p" by simp_all
  then show ?thesis using True by (simp only: bit_at_byte) (simp add: bit_simps)
next
  case False
  then have "8 * x + p + k = 8 * Suc x + (p - (8 - k))" "p - (8 - k) < 8" "\<not> bit (src ! x) (k + p)" "8 - k \<le> p"
    using assms bit_imp_le_length [of "src ! x" "k + p"] by auto
  then show ?thesis using False assms by (simp only: bit_at_byte) (simp add: bit_simps)
qed

lemma shift_down_first: "k + p < 8 \<Longrightarrow> bit (drop_bit k (src ! x)) p = bit_at src (8 * x + p + k)" for src :: bytes
  using bit_at_byte [of "k + p" src x] by (simp add: bit_simps ac_simps)

section \<open>The loops\<close>

lemma bitcpy_whole: "bitcpy dst i x 0xff = (if i < length dst then Some (dst[i := x]) else None)"
proof -
  have "((x XOR y) AND 0xff) XOR y = x" for y
    by (rule bit_word_eqI) (simp add: bit_bitcpy)
  then show ?thesis by (simp add: bitcpy_def)
qed

lemma shift_loop:
  assumes "0 < s" "s \<le> length src" "d \<le> length dst"
  shows "bcpyle_shift k r l dst d src s (src ! (s - 1)) =
    (if s + k \<le> length src \<and> d + k \<le> length dst
     then Some (map (\<lambda>j. if d \<le> j \<and> j < d + k then drop_bit r (src ! (s + (j - d) - 1)) OR push_bit l (src ! (s + (j - d))) else dst ! j)
                  [0..<length dst], d + k, s + k, src ! (s + k - 1))
     else None)"
  using assms
proof (induction k arbitrary: dst d s)
  case 0
  then show ?case by (auto intro!: nth_equalityI)
next
  case (Suc k)
  show ?case
  proof (cases "s < length src \<and> d < length dst")
    case True
    then show ?thesis using Suc.prems Suc.IH [of "s + 1" "d + 1" "dst[d := drop_bit r (src ! (s - 1)) OR push_bit l (src ! s)]"]
      by (auto simp: byte_at_def bitcpy_whole nth_list_update Suc_diff_le Suc_diff_Suc intro!: map_cong)
  next
    case False
    then show ?thesis using Suc.prems by (auto simp: byte_at_def bitcpy_whole)
  qed
qed

lemma plain_loop:
  assumes "s \<le> length src" "d \<le> length dst"
  shows "bcpyle_plain k dst d src s =
    (if s + k \<le> length src \<and> d + k \<le> length dst
     then Some (map (\<lambda>j. if d \<le> j \<and> j < d + k then src ! (s + (j - d)) else dst ! j) [0..<length dst], d + k, s + k)
     else None)"
  using assms
proof (induction k arbitrary: dst d s)
  case 0
  then show ?case by (auto intro!: nth_equalityI)
next
  case (Suc k)
  show ?case
  proof (cases "s < length src \<and> d < length dst")
    case True
    then show ?thesis using Suc.prems Suc.IH [of "s + 1" "d + 1" "dst[d := src ! s]"]
      by (auto simp: byte_at_def bitcpy_whole nth_list_update Suc_diff_le Suc_diff_Suc intro!: map_cong)
  next
    case False
    then show ?thesis using Suc.prems by (auto simp: byte_at_def bitcpy_whole)
  qed
qed

section \<open>Equivalence\<close>

lemma copy_bits_eqI:
  assumes "length r = length dst"
    and "\<And>j p. j < length dst \<Longrightarrow> p < 8 \<Longrightarrow>
      bit (r ! j) p = (if dp \<le> 8 * j + p \<and> 8 * j + p < dp + n then bit_at src (8 * j + p - dp + sp) else bit (dst ! j) p)"
  shows "r = copy_bits dst dp src sp n"
  using assms by (auto intro!: nth_equalityI bit_word_eqI simp: bit_copy_bits)

text \<open>A copy within one byte of the destination.\<close>

lemma bitcpy_one:
  assumes "0 < n" "t + n \<le> 8" "d < length dst"
    and x: "\<And>p. t \<le> p \<Longrightarrow> p < t + n \<Longrightarrow> bit x p = bit_at src (p - t + sp)"
  shows "bitcpy dst d x (if NOT (push_bit ((t + n) mod 8) 0xff) \<noteq> (0 :: u8)
      then push_bit t 0xff AND NOT (push_bit ((t + n) mod 8) 0xff) else push_bit t 0xff)
    = Some (copy_bits dst (8 * d + t) src sp n)"
proof -
  let ?m = "if NOT (push_bit ((t + n) mod 8) 0xff) \<noteq> (0 :: u8)
      then push_bit t 0xff AND NOT (push_bit ((t + n) mod 8) 0xff) else push_bit t (0xff :: u8)"
  have m: "bit ?m p \<longleftrightarrow> t \<le> p \<and> p < t + n" if "p < 8" for p
  proof (cases "t + n = 8")
    case True
    then show ?thesis using that by (simp add: bit_first)
  next
    case False
    then have "(t + n) mod 8 = t + n" "t + n \<noteq> 0" using assms by auto
    then show ?thesis using that last_0 [of "t + n"] by (simp add: bit_and_iff bit_first bit_last)
  qed
  have "dst[d := ((x XOR dst ! d) AND ?m) XOR dst ! d] = copy_bits dst (8 * d + t) src sp n"
  proof (rule copy_bits_eqI)
    fix j p assume "j < length dst" "p < (8 :: nat)"
    then show "bit (dst[d := ((x XOR dst ! d) AND ?m) XOR dst ! d] ! j) p =
        (if 8 * d + t \<le> 8 * j + p \<and> 8 * j + p < 8 * d + t + n then bit_at src (8 * j + p - (8 * d + t) + sp) else bit (dst ! j) p)"
      using assms by (cases "j = d") (auto simp: nth_list_update bit_bitcpy m x)
  qed simp
  then show ?thesis using assms by (simp add: bitcpy_def)
qed

text \<open>
  A copy over several bytes: the first byte, the whole bytes and the last one each hold the bits of the source they
  should; \<open>w\<close> is the byte of the shifted source that belongs to byte \<open>j\<close> of the destination.
\<close>

lemma copy_many:
  assumes t: "t < 8" "8 < t + n"
    and fits: "d + (t + n - 1) div 8 < length dst"
    and first: "\<And>p. t \<le> p \<Longrightarrow> p < 8 \<Longrightarrow> bit a p = bit_at src (p - t + sp)"
    and whole: "\<And>j p. 0 < j \<Longrightarrow> 8 * j + p < t + n \<Longrightarrow> p < 8 \<Longrightarrow> bit (w j) p = bit_at src (8 * j + p - t + sp)"
    and k: "k = (t + n) div 8 - 1"
    and body: "length body = length dst"
      "\<And>j. j < length dst \<Longrightarrow> body ! j = (if d < j \<and> j < d + 1 + k then w (j - d)
         else if j = d then ((a XOR dst ! d) AND push_bit t 0xff) XOR dst ! d else dst ! j)"
  shows "(if NOT (push_bit ((t + n) mod 8) (0xff :: u8)) \<noteq> 0
      then bitcpy body (d + 1 + k) (w (1 + k)) (NOT (push_bit ((t + n) mod 8) 0xff)) else Some body)
    = Some (copy_bits dst (8 * d + t) src sp n)"
proof -
  define e where "e = (t + n) mod 8"
  have tn: "t + n = 8 * (1 + k) + e" "e < 8" using t by (auto simp: k e_def)
  have bits: "bit (body ! j) p = (if 8 * d + t \<le> 8 * j + p \<and> 8 * j + p < 8 * (d + 1 + k) then bit_at src (8 * j + p - (8 * d + t) + sp) else bit (dst ! j) p)"
    if "j < length dst" "p < 8" for j p
  proof -
    consider "j < d" | "j = d" | "d < j" "j < d + 1 + k" | "d + 1 + k \<le> j" by linarith
    then show ?thesis
    proof cases
      case 2
      then show ?thesis using that t by (simp add: body bit_bitcpy bit_first first)
    next
      case 3
      then have "8 * (j - d) + p - t + sp = 8 * j + p - (8 * d + t) + sp" "8 * (j - d) + p < t + n"
        using that t tn by auto
      then show ?thesis using 3 that t whole [of "j - d" p] by (simp add: body)
    qed (use that t in \<open>auto simp: body\<close>)
  qed
  show ?thesis
  proof (cases "e = 0")
    case True
    have "body = copy_bits dst (8 * d + t) src sp n"
      by (rule copy_bits_eqI) (use body bits tn True in auto)
    then show ?thesis using True last_0 [of "t + n"] by (simp add: e_def)
  next
    case False
    have "t + n - 1 = 8 * (1 + k) + (e - 1)" using tn False by linarith
    then have "(t + n - 1) div 8 = 1 + k" using tn False by simp
    then have "d + 1 + k < length dst" using fits by simp
    moreover have "body[d + 1 + k := ((w (1 + k) XOR body ! (d + 1 + k)) AND NOT (push_bit e 0xff)) XOR body ! (d + 1 + k)]
        = copy_bits dst (8 * d + t) src sp n" (is "body[?i := ?v] = _")
    proof (rule copy_bits_eqI)
      fix j p assume *: "j < length dst" "p < (8 :: nat)"
      show "bit (body[?i := ?v] ! j) p =
        (if 8 * d + t \<le> 8 * j + p \<and> 8 * j + p < 8 * d + t + n then bit_at src (8 * j + p - (8 * d + t) + sp) else bit (dst ! j) p)"
      proof (cases "j = ?i")
        case True
        have "8 * (1 + k) + p - t + sp = 8 * j + p - (8 * d + t) + sp" using True t by simp
        then show ?thesis using True * tn t body whole [of "1 + k" p] bits [of j p] by (simp add: bit_bitcpy bit_last)
      next
        case False
        then show ?thesis using * tn bits [of j p] by (auto simp: body)
      qed
    qed (simp add: body)
    ultimately show ?thesis using False last_0 [of "t + n"] by (simp add: e_def bitcpy_def body)
  qed
qed

lemma shift_amounts:
  "u < t \<Longrightarrow> t < 8 \<Longrightarrow> (u + 8 - t) mod 8 = 8 - (t - u)" "u < t \<Longrightarrow> t < 8 \<Longrightarrow> (t + 8 - u) mod 8 = t - u" for t u :: nat
proof -
  assume *: "u < t" "t < 8"
  then have "t + 8 - u = t - u + 8" by linarith
  then show "(t + 8 - u) mod 8 = t - u" using * by (simp only: mod_add_self2) simp
  show "(u + 8 - t) mod 8 = 8 - (t - u)" using * by simp
qed

lemma byte_counts:
  fixes t n :: nat
  assumes "t < 8" "8 < t + n"
  shows "(n - (8 - t)) div 8 = (t + n) div 8 - 1"
    and "(t + n - 1) div 8 = (if (t + n) mod 8 = 0 then (t + n) div 8 - 1 else (t + n) div 8)"
proof -
  have "n - (8 - t) = t + n - 8" using assms by linarith
  then show "(n - (8 - t)) div 8 = (t + n) div 8 - 1" using assms le_div_geq [of 8 "t + n"] by simp
  show "(t + n - 1) div 8 = (if (t + n) mod 8 = 0 then (t + n) div 8 - 1 else (t + n) div 8)"
    using assms div_Suc [of "t + n - 1" 8] mod_Suc [of "t + n - 1" 8] by (auto simp: Suc_diff_1 split: if_splits)
qed

lemma bcpyle_one:
  assumes "0 < n" "t + n \<le> 8" "u < 8"
  shows "bcpyle dst (8 * d + t) src (8 * s + u) n =
    (if bcpyle_reach (8 * d + t) (8 * s + u) n < length src \<and> d < length dst
     then Some (copy_bits dst (8 * d + t) src (8 * s + u) n) else None)"
proof -
  have t: "t < 8" "(t + n - Suc 0) div 8 = 0" using assms by auto
  note unf = bcpyle_def bcpyle_reach_def byte_at_def Let_def
  consider "u < t" | "t < u" "u + n \<le> 8" | "t < u" "8 < u + n" | "t = u" by linarith
  then show ?thesis
  proof cases
    case 1
    have "bit (push_bit (t - u) (src ! s)) p = bit_at src (p - t + (8 * s + u))" if "t \<le> p" "p < t + n" for p
      using that 1 assms shift_up_first [of "t - u" p src s] by (simp add: ac_simps)
    then show ?thesis using 1 assms t bitcpy_one [of n t d dst "push_bit (t - u) (src ! s)" src "8 * s + u"]
      by (auto simp: unf shift_amounts) (auto simp: bitcpy_def shift_amounts)
  next
    case 2
    have "bit (drop_bit (u - t) (src ! s)) p = bit_at src (p - t + (8 * s + u))" if "t \<le> p" "p < t + n" for p
      using that 2 assms shift_down_first [of "u - t" p src s] by (simp add: ac_simps)
    then show ?thesis using 2 assms t bitcpy_one [of n t d dst "drop_bit (u - t) (src ! s)" src "8 * s + u"]
      by (auto simp: unf shift_amounts) (auto simp: bitcpy_def shift_amounts)
  next
    case 3
    have "bit (drop_bit (u - t) (src ! s) OR push_bit (t + 8 - u) (src ! Suc s)) p = bit_at src (p - t + (8 * s + u))"
      if "t \<le> p" "p < t + n" for p
      using that 3 assms shift_down_bit [of "u - t" p src s] by (simp add: ac_simps)
    then show ?thesis
      using 3 assms t bitcpy_one [of n t d dst "drop_bit (u - t) (src ! s) OR push_bit (t + 8 - u) (src ! Suc s)" src "8 * s + u"]
      by (auto simp: unf shift_amounts) (auto simp: bitcpy_def shift_amounts)
  next
    case 4
    have "bit (src ! s) p = bit_at src (p - t + (8 * s + u))" if "t \<le> p" "p < t + n" for p
      using that 4 assms bit_at_byte [of p src s] by (simp add: ac_simps)
    then show ?thesis using 4 assms t bitcpy_one [of n t d dst "src ! s" src "8 * s + u"]
      by (auto simp: unf shift_amounts) (auto simp: bitcpy_def shift_amounts)
  qed
qed

text \<open>What follows the first byte: the whole bytes and the last one; \<open>q\<close> is the next byte of the source.\<close>

lemma copy_rest:
  assumes t: "t < 8" "8 < t + n" and d: "d < length dst" and q: "0 < q" "q \<le> length src"
    and first: "\<And>p. t \<le> p \<Longrightarrow> p < 8 \<Longrightarrow> bit a p = bit_at src (p - t + sp)"
    and whole: "\<And>j p. 0 < j \<Longrightarrow> 8 * j + p < t + n \<Longrightarrow> p < 8 \<Longrightarrow>
      bit (drop_bit r (src ! (q + j - 2)) OR push_bit l (src ! (q + j - 1))) p = bit_at src (8 * j + p - t + sp)"
  shows "Option.bind (bcpyle_shift ((t + n) div 8 - 1) r l (dst[d := ((a XOR dst ! d) AND push_bit t 0xff) XOR dst ! d]) (d + 1) src q (src ! (q - 1)))
      (\<lambda>(dst, d, s, b). if NOT (push_bit ((t + n) mod 8) (0xff :: u8)) \<noteq> 0
         then Option.bind (byte_at src s) (\<lambda>c. bitcpy dst d (drop_bit r b OR push_bit l c) (NOT (push_bit ((t + n) mod 8) 0xff)))
         else Some dst)
    = (if q + (t + n - 1) div 8 \<le> length src \<and> d + (t + n - 1) div 8 < length dst
       then Some (copy_bits dst (8 * d + t) src sp n) else None)"
    (is "Option.bind (bcpyle_shift _ _ _ ?dst _ _ _ _) _ = _")
proof -
  define k where "k = (t + n) div 8 - 1"
  have m: "(t + n - 1) div 8 = (if (t + n) mod 8 = 0 then k else 1 + k)"
    using byte_counts [OF t] t le_div_geq [of 8 "t + n"] by (auto simp: k_def)
  let ?w = "\<lambda>i. drop_bit r (src ! (q + i - 2)) OR push_bit l (src ! (q + i - 1))"
  let ?body = "map (\<lambda>j. if d + 1 \<le> j \<and> j < d + 1 + k
      then drop_bit r (src ! (q + (j - (d + 1)) - 1)) OR push_bit l (src ! (q + (j - (d + 1)))) else ?dst ! j) [0..<length ?dst]"
  have loop: "bcpyle_shift k r l ?dst (d + 1) src q (src ! (q - 1)) =
      (if q + k \<le> length src \<and> d + 1 + k \<le> length dst then Some (?body, d + 1 + k, q + k, src ! (q + k - 1)) else None)"
    using shift_loop [of q src "d + 1" ?dst k r l] d q by simp
  show ?thesis
  proof (cases "q + (t + n - 1) div 8 \<le> length src \<and> d + (t + n - 1) div 8 < length dst")
    case True
    have "(if NOT (push_bit ((t + n) mod 8) (0xff :: u8)) \<noteq> 0
        then bitcpy ?body (d + 1 + k) (?w (1 + k)) (NOT (push_bit ((t + n) mod 8) 0xff)) else Some ?body)
      = Some (copy_bits dst (8 * d + t) src sp n)"
    proof (rule copy_many [where a = a])
      show "?body ! j = (if d < j \<and> j < d + 1 + k then ?w (j - d)
          else if j = d then ((a XOR dst ! d) AND push_bit t 0xff) XOR dst ! d else dst ! j)" if "j < length dst" for j
        using that q by (auto simp: nth_list_update Suc_le_eq numeral_2_eq_2 intro!: arg_cong2 [where f = "(OR)"] arg_cong [where f = "drop_bit r"] arg_cong [where f = "push_bit l"] arg_cong [where f = "(!) src"])
    qed (use True t first whole in \<open>auto simp: k_def\<close>)
    then show ?thesis unfolding k_def [symmetric] loop
      using True m last_0 [of "t + n"] by (auto simp: byte_at_def numeral_2_eq_2 split: if_splits)
  next
    case False
    then show ?thesis unfolding k_def [symmetric] loop
      using m last_0 [of "t + n"] by (auto simp: bitcpy_def byte_at_def split: if_splits)
  qed
qed

lemma access_ok:
  "i < length src \<Longrightarrow> byte_at src i = Some (src ! i)"
  "i < length dst \<Longrightarrow> bitcpy dst i x m = Some (dst[i := ((x XOR dst ! i) AND m) XOR dst ! i])"
  by (simp_all add: byte_at_def bitcpy_def)

lemma split_pos: "t < 8 \<Longrightarrow> (8 * d + t) div 8 = d" "t < 8 \<Longrightarrow> (8 * d + t) mod 8 = t" for t d :: nat
  by auto

lemma bcpyle_up:
  assumes t: "t < 8" "8 < t + n" and u: "u < t"
  shows "bcpyle dst (8 * d + t) src (8 * s + u) n =
    (if s + (t + n - 1) div 8 < length src \<and> d + (t + n - 1) div 8 < length dst
     then Some (copy_bits dst (8 * d + t) src (8 * s + u) n) else None)"
proof (cases "s < length src \<and> d < length dst")
  case True
  define k e l r where "k = (t + n) div 8 - 1" and "e = (t + n) mod 8" and "l = t - u" and "r = 8 - l"
  have u': "u < 8" using u t by simp
  have first: "bit (push_bit l (src ! s)) p = bit_at src (p - t + (8 * s + u))" if "t \<le> p" "p < 8" for p
    using that u shift_up_first [of l p src s] by (simp add: l_def ac_simps)
  have whole: "bit (drop_bit r (src ! (s + 1 + j - 2)) OR push_bit l (src ! (s + 1 + j - 1))) p =
      bit_at src (8 * j + p - t + (8 * s + u))" if "0 < j" "8 * j + p < t + n" "p < 8" for j p
    using that u t shift_up_bit [of l p "s + j" src] by (simp add: l_def r_def algebra_simps numeral_2_eq_2)
  have fold: "(n - (8 - t)) div 8 = k" "(t + n) mod 8 = e" "(u + 8 - t) mod 8 = r" "(t + 8 - u) mod 8 = l"
    using t u by (simp_all only: byte_counts(1) shift_amounts k_def e_def l_def r_def)
  show ?thesis
    unfolding bcpyle_def Let_def split_pos [OF t(1)] split_pos [OF u'] fold
    using copy_rest [where q = "s + 1", OF t _ _ _ first whole, folded k_def e_def] True t u
    by (simp add: access_ok Suc_le_eq)
next
  case False
  then show ?thesis using t u by (auto simp: bcpyle_def Let_def byte_at_def bitcpy_def)
qed

lemma bcpyle_down:
  assumes t: "t < u" "8 < t + n" and u: "u < 8"
  shows "bcpyle dst (8 * d + t) src (8 * s + u) n =
    (if s + 1 + (t + n - 1) div 8 < length src \<and> d + (t + n - 1) div 8 < length dst
     then Some (copy_bits dst (8 * d + t) src (8 * s + u) n) else None)"
proof (cases "s + 1 < length src \<and> d < length dst")
  case True
  define k e r l where "k = (t + n) div 8 - 1" and "e = (t + n) mod 8" and "r = u - t" and "l = 8 - r"
  have t': "t < 8" using t u by simp
  have first: "bit (drop_bit r (src ! s) OR push_bit l (src ! (s + 1))) p = bit_at src (p - t + (8 * s + u))" if "t \<le> p" "p < 8" for p
    using that t u shift_down_bit [of r p src s] by (simp add: l_def r_def ac_simps)
  have whole: "bit (drop_bit r (src ! (s + 2 + j - 2)) OR push_bit l (src ! (s + 2 + j - 1))) p =
      bit_at src (8 * j + p - t + (8 * s + u))" if "0 < j" "8 * j + p < t + n" "p < 8" for j p
    using that u t shift_down_bit [of r p src "s + j"] by (simp add: l_def r_def algebra_simps)
  have fold: "(n - (8 - t)) div 8 = k" "(t + n) mod 8 = e" "(u + 8 - t) mod 8 = r" "(t + 8 - u) mod 8 = l"
    using t u t' by (simp_all only: byte_counts(1) shift_amounts k_def e_def l_def r_def)
  show ?thesis
    unfolding bcpyle_def Let_def split_pos [OF t'] split_pos [OF u] fold
    using copy_rest [where q = "s + 2", OF t' t(2) _ _ _ first whole, folded k_def e_def] True t u
    by (simp add: access_ok Suc_le_eq)
next
  case False
  then show ?thesis using t u by (auto simp: bcpyle_def Let_def byte_at_def bitcpy_def)
qed

text \<open>Without a shift, the whole bytes are copied as they are.\<close>

lemma bcpyle_same:
  assumes t: "0 < t" "t < 8" "8 < t + n"
  shows "bcpyle dst (8 * d + t) src (8 * s + t) n =
    (if s + (t + n - 1) div 8 < length src \<and> d + (t + n - 1) div 8 < length dst
     then Some (copy_bits dst (8 * d + t) src (8 * s + t) n) else None)"
proof (cases "s < length src \<and> d < length dst")
  case True
  define k e where "k = (t + n) div 8 - 1" and "e = (t + n) mod 8"
  have m: "(t + n - 1) div 8 = (if e = 0 then k else 1 + k)"
    using byte_counts [OF t(2,3)] t le_div_geq [of 8 "t + n"] by (auto simp: k_def e_def)
  let ?dst = "dst[d := ((src ! s XOR dst ! d) AND push_bit t 0xff) XOR dst ! d]"
  let ?body = "map (\<lambda>j. if d + 1 \<le> j \<and> j < d + 1 + k then src ! (s + 1 + (j - (d + 1))) else ?dst ! j) [0..<length ?dst]"
  have loop: "bcpyle_plain k ?dst (d + 1) src (s + 1) =
      (if s + 1 + k \<le> length src \<and> d + 1 + k \<le> length dst then Some (?body, d + 1 + k, s + 1 + k) else None)"
    using plain_loop [of "s + 1" src "d + 1" ?dst k] True by simp
  have fold: "(n - (8 - t)) div 8 = k" "(t + n) mod 8 = e"
    using t by (simp_all only: byte_counts(1) k_def e_def)
  have eq: "bcpyle dst (8 * d + t) src (8 * s + t) n =
      Option.bind (bcpyle_plain k ?dst (d + 1) src (s + 1)) (\<lambda>(dst, d, s).
         if NOT (push_bit e (0xff :: u8)) \<noteq> 0 then Option.bind (byte_at src s) (\<lambda>a. bitcpy dst d a (NOT (push_bit e 0xff))) else Some dst)"
    unfolding bcpyle_def Let_def split_pos [OF t(2)] fold using True t fold(1) by (simp add: access_ok)
  show ?thesis
  proof (cases "s + (t + n - 1) div 8 < length src \<and> d + (t + n - 1) div 8 < length dst")
    case fits: True
    have "(if NOT (push_bit ((t + n) mod 8) (0xff :: u8)) \<noteq> 0
        then bitcpy ?body (d + 1 + k) (src ! (s + (1 + k))) (NOT (push_bit ((t + n) mod 8) 0xff)) else Some ?body)
      = Some (copy_bits dst (8 * d + t) src (8 * s + t) n)"
    proof (rule copy_many [where a = "src ! s" and w = "\<lambda>j. src ! (s + j)"])
      show "bit (src ! s) p = bit_at src (p - t + (8 * s + t))" if "t \<le> p" "p < 8" for p
        using that bit_at_byte [of p src s] by (simp add: ac_simps)
      show "bit (src ! (s + j)) p = bit_at src (8 * j + p - t + (8 * s + t))" if "0 < j" "p < 8" for j p
        using that t bit_at_byte [of p src "s + j"] by (simp add: algebra_simps)
    qed (use fits t True in \<open>auto simp: k_def nth_list_update Suc_le_eq Suc_diff_Suc\<close>)
    then show ?thesis unfolding eq loop using fits m last_0 [of "t + n"] by (auto simp: byte_at_def e_def split: if_splits)
  next
    case False
    then show ?thesis unfolding eq loop using m last_0 [of "t + n"] by (auto simp: bitcpy_def byte_at_def e_def split: if_splits)
  qed
next
  case False
  then show ?thesis using t by (auto simp: bcpyle_def Let_def byte_at_def bitcpy_def)
qed

lemma bcpyle_aligned:
  assumes n: "8 < n"
  shows "bcpyle dst (8 * d) src (8 * s) n =
    (if s + (n - 1) div 8 < length src \<and> d + (n - 1) div 8 < length dst
     then Some (copy_bits dst (8 * d) src (8 * s) n) else None)"
proof (cases "s \<le> length src \<and> d \<le> length dst")
  case True
  define k e where "k = n div 8 - 1" and "e = n mod 8"
  have m: "(n - 1) div 8 = (if e = 0 then k else 1 + k)" "n div 8 = 1 + k"
    using byte_counts [of 0 n] n le_div_geq [of 8 n] by (auto simp: k_def e_def)
  have aligned: "8 * i div 8 = i" "8 * i mod 8 = 0" for i :: nat by auto
  let ?body = "map (\<lambda>j. if d \<le> j \<and> j < d + (1 + k) then src ! (s + (j - d)) else dst ! j) [0..<length dst]"
  have loop: "bcpyle_plain (1 + k) dst d src s =
      (if s + (1 + k) \<le> length src \<and> d + (1 + k) \<le> length dst then Some (?body, d + (1 + k), s + (1 + k)) else None)"
    using plain_loop [of s src d dst "1 + k"] True by simp
  have eq: "bcpyle dst (8 * d) src (8 * s) n =
      Option.bind (bcpyle_plain (1 + k) dst d src s) (\<lambda>(dst, d, s).
         if NOT (push_bit e (0xff :: u8)) \<noteq> 0 then Option.bind (byte_at src s) (\<lambda>a. bitcpy dst d a (NOT (push_bit e 0xff))) else Some dst)"
    unfolding bcpyle_def Let_def aligned add_0 e_def using n by (simp add: m)
  show ?thesis
  proof (cases "s + (n - 1) div 8 < length src \<and> d + (n - 1) div 8 < length dst")
    case fits: True
    have whole: "((x XOR y) AND 0xff) XOR y = x" for x y :: u8
      by (rule bit_word_eqI) (simp add: bit_bitcpy)
    have "(if NOT (push_bit ((0 + n) mod 8) (0xff :: u8)) \<noteq> 0
        then bitcpy ?body (d + 1 + k) (src ! (s + (1 + k))) (NOT (push_bit ((0 + n) mod 8) 0xff)) else Some ?body)
      = Some (copy_bits dst (8 * d + 0) src (8 * s) n)"
    proof (rule copy_many [where a = "src ! s" and w = "\<lambda>j. src ! (s + j)"])
      show "bit (src ! s) p = bit_at src (p - 0 + (8 * s))" if "p < 8" for p
        using that bit_at_byte [of p src s] by (simp add: ac_simps)
      show "bit (src ! (s + j)) p = bit_at src (8 * j + p - 0 + 8 * s)" if "0 < j" "p < 8" for j p
        using that bit_at_byte [of p src "s + j"] by (simp add: algebra_simps)
    qed (use fits n m in \<open>auto simp: k_def whole\<close>)
    then show ?thesis unfolding eq loop using fits m last_0 [of n] by (auto simp: byte_at_def e_def split: if_splits)
  next
    case False
    then show ?thesis unfolding eq loop using m last_0 [of n] by (auto simp: bitcpy_def byte_at_def e_def split: if_splits)
  qed
next
  case False
  have "bcpyle_plain (Suc k) dst d src s = None" for k
    using False by (auto simp: byte_at_def bitcpy_def)
  moreover have "n div 8 = Suc ((n - 8) div 8)" using n by (simp add: le_div_geq)
  ultimately have "bcpyle_plain (n div 8) dst d src s = None" by simp
  then show ?thesis using n False by (auto simp: bcpyle_def Let_def)
qed

text \<open>C10. The optimised bit copy equals the copy bit by bit, for all offsets and lengths: it succeeds exactly when the last
  byte it writes and the last byte it reads exist, and then every bit of the destination is the one the reference gives.
\<close>

theorem bcpyle_correct:
  "bcpyle dst dp src sp n =
     (if n = 0 then Some dst
      else if bcpyle_reach dp sp n < length src \<and> (dp + n - 1) div 8 < length dst then Some (copy_bits dst dp src sp n)
      else None)"
proof (cases "n = 0")
  case False
  define d t s u where "d = dp div 8" and "t = dp mod 8" and "s = sp div 8" and "u = sp mod 8"
  have pos: "dp = 8 * d + t" "sp = 8 * s + u" "t < 8" "u < 8" by (simp_all add: d_def t_def s_def u_def)
  have dst: "(8 * d + t + n - 1) div 8 = d + (t + n - 1) div 8" using False by (simp add: add.assoc)
  consider "t + n \<le> 8" | "8 < t + n" "u < t" | "8 < t + n" "t < u" | "8 < t + n" "t = u" "0 < t" | "8 < t + n" "t = u" "t = 0" by linarith
  then show ?thesis
  proof cases
    case 1
    then show ?thesis using False pos bcpyle_one [of n t u dst d src s] dst by simp
  next
    case 2
    then show ?thesis using False pos bcpyle_up [of t n u dst d src s] dst by (simp add: bcpyle_reach_def)
  next
    case 3
    then show ?thesis using False pos bcpyle_down [of t u n dst d src s] dst by (simp add: bcpyle_reach_def)
  next
    case 4
    then show ?thesis using False pos bcpyle_same [of t n dst d src s] dst by (simp add: bcpyle_reach_def)
  next
    case 5
    then show ?thesis using False pos bcpyle_aligned [of n dst d src s] dst by (simp add: bcpyle_reach_def)
  qed
qed (simp add: bcpyle_def)

end
