(* ===== verification/Co_Dev.thy ===== *)
theory Co_Dev
  imports Co_Sdo Endian
begin

text \<open>
  The object dictionary as the PDO, SYNC and NMT services read it (\<open>upstream/src/co/dev.c\<close>, \<open>upstream/src/co/obj.c\<close>,
  \<open>upstream/src/co/type.c\<close>): lookup of objects and sub-objects, typed reads, which give zero unless the sub-object exists,
  has that type and has a value, and the data types. A device adds its node-ID and its mask of dummy entries.
\<close>

unbundle bit_operations_syntax

definition co_type_is_basic :: "u16 \<Rightarrow> bool" where
  "co_type_is_basic type \<longleftrightarrow> type \<in> {0x01, 0x02, 0x03, 0x04, 0x05, 0x06, 0x07, 0x08, 0x10, 0x11, 0x12, 0x13, 0x14, 0x15, 0x16,
     0x18, 0x19, 0x1a, 0x1b}"

text \<open>\<open>sizeof\<close> of the C type of a basic data type: 24-bit values are held in 32 bits, 40-, 48- and 56-bit ones in 64.\<close>

definition co_type_sizeof :: "u16 \<Rightarrow> nat" where
  "co_type_sizeof type =
     (if type \<in> {0x01, 0x02, 0x05} then 1 else if type \<in> {0x03, 0x06} then 2
      else if type \<in> {0x04, 0x07, 0x08, 0x10, 0x16} then 4 else 8)"

record co_device =
  dv_od :: co_dev
  dv_id :: u8
  dv_dummy :: u32

definition co_dev_find_sub :: "co_dev \<Rightarrow> u16 \<Rightarrow> u8 \<Rightarrow> co_sub option" where
  "co_dev_find_sub D idx subidx = (case D idx of None \<Rightarrow> None | Some ob \<Rightarrow> obj_subs ob subidx)"

definition sub_bytes :: "u16 \<Rightarrow> co_sub option \<Rightarrow> bytes option" where
  "sub_bytes type sub = (case sub of None \<Rightarrow> None | Some sb \<Rightarrow> if sub_type sb \<noteq> type then None else sub_val sb)"

definition co_sub_get_val_u8 :: "co_sub option \<Rightarrow> u8" where
  "co_sub_get_val_u8 sub = (case sub_bytes CO_DEFTYPE_UNSIGNED8 sub of None \<Rightarrow> 0 | Some v \<Rightarrow> v ! 0)"

definition co_sub_get_val_u16 :: "co_sub option \<Rightarrow> u16" where
  "co_sub_get_val_u16 sub = (case sub_bytes CO_DEFTYPE_UNSIGNED16 sub of None \<Rightarrow> 0 | Some v \<Rightarrow> ldle_u16 v)"

definition co_sub_get_val_u32 :: "co_sub option \<Rightarrow> u32" where
  "co_sub_get_val_u32 sub = (case sub_bytes CO_DEFTYPE_UNSIGNED32 sub of None \<Rightarrow> 0 | Some v \<Rightarrow> ldle_u32 v)"

definition co_sub_get_val_u64 :: "co_sub option \<Rightarrow> u64" where
  "co_sub_get_val_u64 sub = (case sub_bytes CO_DEFTYPE_UNSIGNED64 sub of None \<Rightarrow> 0 | Some v \<Rightarrow> ldle_u64 v)"

definition co_dev_get_val_u8 :: "co_dev \<Rightarrow> u16 \<Rightarrow> u8 \<Rightarrow> u8" where
  "co_dev_get_val_u8 D idx subidx = co_sub_get_val_u8 (co_dev_find_sub D idx subidx)"

definition co_dev_get_val_u16 :: "co_dev \<Rightarrow> u16 \<Rightarrow> u8 \<Rightarrow> u16" where
  "co_dev_get_val_u16 D idx subidx = co_sub_get_val_u16 (co_dev_find_sub D idx subidx)"

definition co_dev_get_val_u32 :: "co_dev \<Rightarrow> u16 \<Rightarrow> u8 \<Rightarrow> u32" where
  "co_dev_get_val_u32 D idx subidx = co_sub_get_val_u32 (co_dev_find_sub D idx subidx)"

text \<open>Writing a value leaves the shape of the dictionary alone.\<close>

lemma find_sub_upd_sub:
  "co_dev_find_sub (upd_sub D idx subidx f) idx' subidx' =
     (if idx' = idx \<and> subidx' = subidx then map_option f (co_dev_find_sub D idx subidx) else co_dev_find_sub D idx' subidx')"
  by (auto simp: co_dev_find_sub_def upd_sub_def split: option.splits)

lemma find_sub_set_val:
  "co_dev_find_sub (set_val D idx subidx v) idx' subidx' =
     (if idx' = idx \<and> subidx' = subidx then map_option (\<lambda>sb. co_sub_dn sb v) (co_dev_find_sub D idx subidx)
      else co_dev_find_sub D idx' subidx')"
  by (simp add: set_val_def find_sub_upd_sub)

lemma find_sub_put_val:
  "co_dev_find_sub (put_val D idx subidx v) idx' subidx' =
     (if idx' = idx \<and> subidx' = subidx then map_option (\<lambda>sb. sb\<lparr>sub_val := Some v\<rparr>) (co_dev_find_sub D idx subidx)
      else co_dev_find_sub D idx' subidx')"
  by (simp add: put_val_def find_sub_upd_sub)

lemma set_val_found:
  assumes "co_dev_find_sub D idx subidx = Some sb"
  shows "set_val D idx subidx v = (if sub_refuse sb then D else put_val D idx subidx (co_val_norm (sub_type sb) v))"
proof -
  obtain ob where "D idx = Some ob" "obj_subs ob subidx = Some sb" using assms by (auto simp: co_dev_find_sub_def split: option.splits)
  then show ?thesis by (simp add: set_val_def put_val_def upd_sub_def co_sub_dn_def map_upd_triv)
qed

lemma co_sub_dn_simps [simp]:
  "sub_read (co_sub_dn sb v) = sub_read sb" "sub_write (co_sub_dn sb v) = sub_write sb" "sub_rpdo (co_sub_dn sb v) = sub_rpdo sb"
  "sub_tpdo (co_sub_dn sb v) = sub_tpdo sb" "sub_mapping (co_sub_dn sb v) = sub_mapping sb" "sub_refuse (co_sub_dn sb v) = sub_refuse sb"
  "sub_type (co_sub_dn sb v) = sub_type sb" "sub_chk (co_sub_dn sb v) = sub_chk sb"
  "sub_val (co_sub_dn sb v) = (if sub_refuse sb then sub_val sb else Some (co_val_norm (sub_type sb) v))"
  by (simp_all add: co_sub_dn_def)

lemma set_val_other [simp]: "i \<noteq> idx \<Longrightarrow> set_val D idx subidx v i = D i" "i \<noteq> idx \<Longrightarrow> put_val D idx subidx v i = D i"
  by (auto simp: set_val_def put_val_def upd_sub_def split: option.splits)

lemma set_val_obj: "(set_val D idx subidx v i = None) = (D i = None)"
  by (auto simp: set_val_def upd_sub_def split: option.splits)

end
