(* ===== verification/Co_Pdo.thy ===== *)
theory Co_Pdo
  imports Co_Dev
begin

text \<open>
  Process data objects (\<open>upstream/src/co/pdo.c\<close>): packing values into a frame and unpacking them (\<open>co_pdo_map\<close>,
  \<open>co_pdo_unmap\<close>), reading mapped sub-objects into a frame and writing a frame to mapped sub-objects (\<open>co_pdo_up\<close>,
  \<open>co_pdo_dn\<close>), the checks of a mapping, and the multiplex PDOs. As for \<open>bcpyle\<close>, \<open>None\<close> stands for an access outside of a buffer or a
  call that does not return.
\<close>

unbundle bit_operations_syntax

section \<open>Model\<close>

definition CO_NUM_PDOS :: u16 where "CO_NUM_PDOS = 512"
definition CO_PDO_NUM_MAPS :: u8 where "CO_PDO_NUM_MAPS = 0x40"
definition CO_PDO_COBID_VALID :: u32 where "CO_PDO_COBID_VALID = 0x80000000"
definition CO_PDO_COBID_RTR :: u32 where "CO_PDO_COBID_RTR = 0x40000000"
definition CO_PDO_COBID_FRAME :: u32 where "CO_PDO_COBID_FRAME = 0x20000000"
definition CO_PDO_MAP_SAM_MPDO :: u8 where "CO_PDO_MAP_SAM_MPDO = 0xfe"
definition CO_PDO_MAP_DAM_MPDO :: u8 where "CO_PDO_MAP_DAM_MPDO = 0xff"
definition CO_SDO_AC_NO_PDO :: u32 where "CO_SDO_AC_NO_PDO = 0x06040041"
definition CO_SDO_AC_PDO_LEN :: u32 where "CO_SDO_AC_PDO_LEN = 0x06040042"

record co_pdo_comm_par =
  pc_n :: u8
  pc_cobid :: u32
  pc_trans :: u8
  pc_inhibit :: u16
  pc_event :: u16
  pc_sync :: u8

record co_pdo_map_par =
  pm_n :: u8
  pm_map :: "u32 list" \<comment> \<open>64 entries\<close>

text \<open>The fields of a mapping entry, and the entries in use.\<close>

definition map_idx :: "u32 \<Rightarrow> u16" where
  "map_idx m = ucast (drop_bit 16 m AND 0xffff)"

definition map_subidx :: "u32 \<Rightarrow> u8" where
  "map_subidx m = ucast (drop_bit 8 m AND 0xff)"

definition map_len :: "u32 \<Rightarrow> nat" where
  "map_len m = unat (m AND 0xff)"

definition map_entries :: "co_pdo_map_par \<Rightarrow> u32 list" where
  "map_entries par = take (unat (pm_n par)) (pm_map par)"

definition co_dev_chk_rpdo :: "co_device \<Rightarrow> u16 \<Rightarrow> u8 \<Rightarrow> u32" where
  "co_dev_chk_rpdo dev idx subidx =
     (if co_type_is_basic idx \<and> subidx = 0 then
        (if dv_dummy dev AND push_bit (unat idx) 1 = 0 then CO_SDO_AC_NO_OBJ else 0)
      else case dv_od dev idx of
        None \<Rightarrow> CO_SDO_AC_NO_OBJ
      | Some ob \<Rightarrow> (case obj_subs ob subidx of
          None \<Rightarrow> CO_SDO_AC_NO_SUB
        | Some sb \<Rightarrow>
            if \<not> sub_write sb then CO_SDO_AC_NO_WRITE
            else if \<not> sub_mapping sb \<or> \<not> sub_rpdo sb then CO_SDO_AC_NO_PDO
            else 0))"

definition co_dev_chk_tpdo :: "co_device \<Rightarrow> u16 \<Rightarrow> u8 \<Rightarrow> u32" where
  "co_dev_chk_tpdo dev idx subidx =
     (case dv_od dev idx of
        None \<Rightarrow> CO_SDO_AC_NO_OBJ
      | Some ob \<Rightarrow> (case obj_subs ob subidx of
          None \<Rightarrow> CO_SDO_AC_NO_SUB
        | Some sb \<Rightarrow>
            if \<not> sub_read sb then CO_SDO_AC_NO_READ
            else if \<not> sub_mapping sb \<or> \<not> sub_tpdo sb then CO_SDO_AC_NO_PDO
            else 0))"

text \<open>
  Packing: the loop returns the abort code, the number of bits used and the buffer. \<open>buf\<close> and \<open>pn\<close> are pointers, \<open>None\<close> for
  null; \<open>pn\<close> holds the size of the buffer the caller allows to be written.
\<close>

fun pdo_map_loop :: "(u32 \<times> u64) list \<Rightarrow> nat \<Rightarrow> bytes option \<Rightarrow> nat option \<Rightarrow> (u32 \<times> nat \<times> bytes option) option" where
  "pdo_map_loop [] offset buf pn = Some (0, offset, buf)"
| "pdo_map_loop ((m, v) # r) offset buf pn =
     (if m = 0 then pdo_map_loop r offset buf pn
      else let len = map_len m
           in if offset + len > CAN_MAX_LEN * 8 then Some (CO_SDO_AC_PDO_LEN, offset, buf)
              else do {
                buf \<leftarrow> (case (buf, pn) of
                    (Some b, Some n) \<Rightarrow> if offset + len \<le> n * 8 then map_option Some (bcpyle b offset (stle_u64 v) 0 len) else Some buf
                  | _ \<Rightarrow> Some buf);
                pdo_map_loop r (offset + len) buf pn })"

definition co_pdo_map :: "co_pdo_map_par \<Rightarrow> u64 list \<Rightarrow> u8 \<Rightarrow> bytes option \<Rightarrow> nat option \<Rightarrow> (u32 \<times> bytes option \<times> nat option) option" where
  "co_pdo_map par val n buf pn =
     (if pm_n par > CO_PDO_NUM_MAPS \<or> n \<noteq> pm_n par then Some (CO_SDO_AC_PDO_LEN, buf, pn)
      else if length val < unat n then None
      else do {
        (ac, offset, buf) \<leftarrow> pdo_map_loop (zip (map_entries par) val) 0 buf pn;
        if ac \<noteq> 0 then Some (ac, buf, pn)
        else Some (0, buf, map_option (\<lambda>_. (offset + 7) div 8) pn) })"

text \<open>Unpacking \<open>n\<close> bytes: entry \<open>i\<close> of the values is set unless it lies outside of the array the caller provides.\<close>

fun pdo_unmap_loop :: "u32 list \<Rightarrow> nat \<Rightarrow> nat \<Rightarrow> bytes \<Rightarrow> nat \<Rightarrow> u64 list option \<Rightarrow> nat option \<Rightarrow> (u32 \<times> u64 list option) option" where
  "pdo_unmap_loop [] i offset buf n val pn = Some (0, val)"
| "pdo_unmap_loop (m # r) i offset buf n val pn =
     (if m = 0 then pdo_unmap_loop r (i + 1) offset buf n val pn
      else let len = map_len m
           in if offset + len > n * 8 then Some (CO_SDO_AC_PDO_LEN, val)
              else do {
                tmp \<leftarrow> bcpyle (replicate 8 0) 0 buf offset len;
                pdo_unmap_loop r (i + 1) (offset + len) buf n
                  (case (val, pn) of (Some v, Some k) \<Rightarrow> Some (if i < k then v[i := ldle_u64 tmp] else v) | _ \<Rightarrow> val) pn })"

definition co_pdo_unmap :: "co_pdo_map_par \<Rightarrow> bytes \<Rightarrow> nat \<Rightarrow> u64 list option \<Rightarrow> nat option \<Rightarrow> (u32 \<times> u64 list option \<times> nat option) option" where
  "co_pdo_unmap par buf n val pn =
     (if pm_n par > CO_PDO_NUM_MAPS then Some (CO_SDO_AC_PDO_LEN, val, pn)
      else do {
        (ac, val) \<leftarrow> pdo_unmap_loop (map_entries par) 0 0 buf n val pn;
        Some (ac, val, if ac \<noteq> 0 then pn else map_option (\<lambda>_. unat (pm_n par)) pn) })"

text \<open>The entries of the object scanner list (1FA0 to 1FCF) and of the object dispatching list (1FD0 to 1FFF).\<close>

definition list_subs :: "co_dev \<Rightarrow> nat \<Rightarrow> nat \<Rightarrow> co_sub list" where
  "list_subs D lo hi = concat (map (\<lambda>i. case D (of_nat i) of
       None \<Rightarrow> []
     | Some ob \<Rightarrow> List.map_filter (\<lambda>j. obj_subs ob (of_nat j)) [1..<unat (co_sub_get_val_u8 (obj_subs ob 0)) + 1]) [lo..<hi + 1])"

definition block_max :: "u8 \<Rightarrow> u8 \<Rightarrow> u8" where
  "block_max lo blk = (if blk \<noteq> 0 then lo + (if blk - 1 < 0xff - lo then blk - 1 else 0xff - lo) else lo)"

definition sam_match :: "u16 \<Rightarrow> u8 \<Rightarrow> co_sub \<Rightarrow> bool" where
  "sam_match idx subidx sub =
     (let val = co_sub_get_val_u32 (Some sub); lo = ucast (val AND 0xff)
      in val \<noteq> 0 \<and> ucast (drop_bit 8 val AND 0xffff) = idx \<and> lo \<le> subidx \<and> subidx \<le> block_max lo (ucast (drop_bit 24 val AND 0xff)))"

definition co_dev_chk_sam_mpdo :: "co_dev \<Rightarrow> u16 \<Rightarrow> u8 \<Rightarrow> bool" where
  "co_dev_chk_sam_mpdo D idx subidx = list_ex (sam_match idx subidx) (list_subs D 0x1fa0 0x1fcf)"

definition disp_match :: "u8 \<Rightarrow> u16 \<Rightarrow> u8 \<Rightarrow> co_sub \<Rightarrow> bool" where
  "disp_match nid idx subidx sub =
     (let val = co_sub_get_val_u64 (Some sub); lo = ucast (drop_bit 8 val AND 0xff)
      in val \<noteq> 0 \<and> ucast (val AND 0xff) = nid \<and> ucast (drop_bit 16 val AND 0xffff) = idx
         \<and> lo \<le> subidx \<and> subidx \<le> block_max lo (ucast (drop_bit 54 val AND 0xff)))"

definition co_dev_map_sam_mpdo :: "co_dev \<Rightarrow> u8 \<Rightarrow> u16 \<Rightarrow> u8 \<Rightarrow> (u16 \<times> u8) option" where
  "co_dev_map_sam_mpdo D nid idx subidx =
     (case find (disp_match nid idx subidx) (list_subs D 0x1fd0 0x1fff) of
        None \<Rightarrow> None
      | Some sub \<Rightarrow>
          let val = co_sub_get_val_u64 (Some sub)
          in Some (ucast (drop_bit 40 val AND 0xffff), ucast (drop_bit 32 val AND 0xff) + (subidx - ucast (drop_bit 8 val AND 0xff))))"

text \<open>Downloading \<open>v\<close> to a sub-object of the device; \<open>None\<close> when the call does not return.\<close>

definition dev_dn :: "heap \<Rightarrow> co_device \<Rightarrow> u16 \<Rightarrow> u8 \<Rightarrow> co_sub \<Rightarrow> nat \<Rightarrow> bytes \<Rightarrow> co_sdo_req \<Rightarrow> (u32 \<times> co_device \<times> co_sdo_req) option" where
  "dev_dn H dev idx subidx sb sz v req =
     (case co_sub_dn_ind H sb ((co_sdo_req_clear req)\<lparr>sq_size := sz, sq_buf := v, sq_nbyte := sz\<rparr>) of
        (None, _, _) \<Rightarrow> None
      | (Some ac, req, None) \<Rightarrow> Some (ac, dev, req)
      | (Some ac, req, Some w) \<Rightarrow> Some (ac, dev\<lparr>dv_od := set_val (dv_od dev) idx subidx w\<rparr>, req))"

definition co_mpdo_dn :: "heap \<Rightarrow> co_pdo_map_par \<Rightarrow> co_device \<Rightarrow> co_sdo_req \<Rightarrow> bytes \<Rightarrow> nat \<Rightarrow> (u32 \<times> co_device \<times> co_sdo_req) option" where
  "co_mpdo_dn H par dev req buf n =
     (if (pm_n par \<noteq> CO_PDO_MAP_SAM_MPDO \<and> pm_n par \<noteq> CO_PDO_MAP_DAM_MPDO) \<or> n \<noteq> CAN_MAX_LEN then Some (CO_SDO_AC_PDO_LEN, dev, req)
      else
        let nid = buf ! 0; idx = ldle_u16 (drop 1 buf); subidx = buf ! 3;
            target = (if nid AND 0x80 \<noteq> 0 then
                (if pm_n par \<noteq> CO_PDO_MAP_DAM_MPDO then None
                 else if nid AND 0x7f \<noteq> 0 \<and> nid AND 0x7f \<noteq> dv_id dev then None
                 else Some (idx, subidx))
              else if pm_n par \<noteq> CO_PDO_MAP_SAM_MPDO then None
              else co_dev_map_sam_mpdo (dv_od dev) nid idx subidx)
        in case target of
          None \<Rightarrow> Some (0, dev, req)
        | Some (idx, subidx) \<Rightarrow>
            let ac = co_dev_chk_rpdo dev idx subidx
            in if ac \<noteq> 0 then Some (ac, dev, req)
               else case co_dev_find_sub (dv_od dev) idx subidx of
                 None \<Rightarrow> Some (0, dev, req)
               | Some sb \<Rightarrow>
                   dev_dn H dev idx subidx sb (if co_type_is_basic (sub_type sb) then min (co_type_sizeof (sub_type sb)) 4 else 4) (drop 4 buf) req)"

text \<open>A frame of \<open>n\<close> bytes written to the mapped sub-objects.\<close>

fun pdo_dn_loop :: "heap \<Rightarrow> u32 list \<Rightarrow> nat \<Rightarrow> co_device \<Rightarrow> co_sdo_req \<Rightarrow> bytes \<Rightarrow> nat \<Rightarrow> bool \<Rightarrow> (u32 \<times> co_device \<times> co_sdo_req) option" where
  "pdo_dn_loop H [] offset dev req buf n chk = Some (0, dev, req)"
| "pdo_dn_loop H (m # r) offset dev req buf n chk =
     (if m = 0 then pdo_dn_loop H r offset dev req buf n chk
      else
        let idx = map_idx m; subidx = map_subidx m; len = map_len m;
            ac = (if chk then co_dev_chk_rpdo dev idx subidx else 0)
        in if offset + len > n * 8 then Some (CO_SDO_AC_PDO_LEN, dev, req)
           else if ac \<noteq> 0 then Some (ac, dev, req)
           else case co_dev_find_sub (dv_od dev) idx subidx of
             None \<Rightarrow> pdo_dn_loop H r (offset + len) dev req buf n chk
           | Some sb \<Rightarrow> do {
               tmp \<leftarrow> bcpyle (replicate CAN_MAX_LEN 0) 0 buf offset len;
               (ac, dev, req) \<leftarrow> dev_dn H dev idx subidx sb ((len + 7) div 8) tmp req;
               if ac \<noteq> 0 then Some (ac, dev, req) else pdo_dn_loop H r (offset + len) dev req buf n chk })"

definition co_pdo_dn :: "heap \<Rightarrow> co_pdo_map_par \<Rightarrow> co_device \<Rightarrow> co_sdo_req \<Rightarrow> bytes \<Rightarrow> nat \<Rightarrow> bool \<Rightarrow> (u32 \<times> co_device \<times> co_sdo_req) option" where
  "co_pdo_dn H par dev req buf n chk =
     (if pm_n par > CO_PDO_NUM_MAPS then co_mpdo_dn H par dev req buf n
      else if n > CAN_MAX_LEN then Some (CO_SDO_AC_PDO_LEN, dev, req)
      else pdo_dn_loop H (map_entries par) 0 dev req buf n chk)"

text \<open>The mapped sub-objects read into a frame.\<close>

fun pdo_up_loop :: "heap \<Rightarrow> u32 list \<Rightarrow> nat \<Rightarrow> co_device \<Rightarrow> co_sdo_req \<Rightarrow> bytes option \<Rightarrow> nat option \<Rightarrow> bool
    \<Rightarrow> (u32 \<times> nat \<times> co_sdo_req \<times> bytes option) option" where
  "pdo_up_loop H [] offset dev req buf pn chk = Some (0, offset, req, buf)"
| "pdo_up_loop H (m # r) offset dev req buf pn chk =
     (if m = 0 then pdo_up_loop H r offset dev req buf pn chk
      else
        let idx = map_idx m; subidx = map_subidx m; len = map_len m;
            ac = (if chk then co_dev_chk_tpdo dev idx subidx else 0)
        in if offset + len > CAN_MAX_LEN * 8 then Some (CO_SDO_AC_PDO_LEN, offset, req, buf)
           else if ac \<noteq> 0 then Some (ac, offset, req, buf)
           else case co_dev_find_sub (dv_od dev) idx subidx of
             None \<Rightarrow> Some (CO_SDO_AC_NO_SUB, offset, co_sdo_req_clear req, buf)
           | Some sb \<Rightarrow> (case co_sub_up_ind H sb (co_sdo_req_clear req) of
               (None, _) \<Rightarrow> None
             | (Some ac, req) \<Rightarrow>
                 if ac \<noteq> 0 then Some (ac, offset, req, buf)
                 else if \<not> co_sdo_req_first req \<or> \<not> co_sdo_req_last req then Some (CO_SDO_AC_PDO_LEN, offset, req, buf)
                 else do {
                   buf \<leftarrow> (case (buf, pn) of
                       (Some b, Some n) \<Rightarrow> if offset + len \<le> n * 8 then map_option Some (bcpyle b offset (sq_buf req) 0 len) else Some buf
                     | _ \<Rightarrow> Some buf);
                   pdo_up_loop H r (offset + len) dev req buf pn chk }))"

definition co_pdo_up :: "heap \<Rightarrow> co_pdo_map_par \<Rightarrow> co_device \<Rightarrow> co_sdo_req \<Rightarrow> bytes option \<Rightarrow> nat option \<Rightarrow> bool
    \<Rightarrow> (u32 \<times> co_sdo_req \<times> bytes option \<times> nat option) option" where
  "co_pdo_up H par dev req buf pn chk =
     (if pm_n par > CO_PDO_NUM_MAPS then Some (CO_SDO_AC_PDO_LEN, req, buf, pn)
      else do {
        (ac, offset, req, buf) \<leftarrow> pdo_up_loop H (map_entries par) 0 dev req buf pn chk;
        Some (ac, req, buf, if ac \<noteq> 0 then pn else map_option (\<lambda>_. (offset + 7) div 8) pn) })"

text \<open>A sub-object of the scanner list read into the four data bytes of a multiplex PDO.\<close>

definition co_sam_mpdo_up :: "heap \<Rightarrow> co_device \<Rightarrow> u16 \<Rightarrow> u8 \<Rightarrow> co_sdo_req \<Rightarrow> (u32 \<times> co_sdo_req \<times> bytes) option" where
  "co_sam_mpdo_up H dev idx subidx req =
     (if \<not> co_dev_chk_sam_mpdo (dv_od dev) idx subidx then Some (CO_SDO_AC_NO_PDO, req, replicate 4 0)
      else
        let ac = co_dev_chk_tpdo dev idx subidx
        in if ac \<noteq> 0 then Some (ac, req, replicate 4 0)
           else case co_dev_find_sub (dv_od dev) idx subidx of
             None \<Rightarrow> Some (CO_SDO_AC_NO_SUB, co_sdo_req_clear req, replicate 4 0)
           | Some sb \<Rightarrow> (case co_sub_up_ind H sb (co_sdo_req_clear req) of
               (None, _) \<Rightarrow> None
             | (Some ac, req) \<Rightarrow>
                 if ac \<noteq> 0 then Some (ac, req, replicate 4 0)
                 else if sq_size req > 4 \<or> \<not> co_sdo_req_first req \<or> \<not> co_sdo_req_last req then Some (CO_SDO_AC_PDO_LEN, req, replicate 4 0)
                 else Some (0, req, take (sq_size req) (sq_buf req) @ replicate (4 - sq_size req) 0)))"

end
