(* ===== verification/Co_Pdo_Bits.thy ===== *)
theory Co_Pdo_Bits
  imports Co_Pdo Co_Sdo_Up
begin

text \<open>
  What the packing routines of \<open>Co_Pdo\<close> do, on the bits of a frame: the values of a mapping lie one after the other, packing followed
  by unpacking gives the values back, and a frame that one device reads from its dictionary writes the same values to the
  dictionary of another one.
\<close>

unbundle bit_operations_syntax

section \<open>Frames as bit strings\<close>

text \<open>The frame \<open>b\<close> carries, from bit \<open>off\<close> on, the values whose bits are given; and a value cut to \<open>len\<close> bits.\<close>

fun carries :: "(u32 \<times> (nat \<Rightarrow> bool)) list \<Rightarrow> nat \<Rightarrow> bytes \<Rightarrow> bool" where
  "carries [] off b \<longleftrightarrow> True"
| "carries ((m, f) # r) off b \<longleftrightarrow> (\<forall>k<map_len m. bit_at b (off + k) = f k) \<and> carries r (off + map_len m) b"

definition pdo_bits :: "u32 list \<Rightarrow> nat" where
  "pdo_bits ms = sum_list (map map_len ms)"

definition field :: "nat \<Rightarrow> (nat \<Rightarrow> bool) \<Rightarrow> bytes" where
  "field len f = map (\<lambda>j. byte_of (\<lambda>p. 8 * j + p < len \<and> f (8 * j + p))) [0..<(len + 7) div 8]"

lemma map_len_0 [simp]: "map_len 0 = 0"
  by (simp add: map_len_def)

lemma pdo_bits_simps [simp]: "pdo_bits [] = 0" "pdo_bits (m # ms) = map_len m + pdo_bits ms"
  by (simp_all add: pdo_bits_def)

lemma carries_cong:
  assumes "\<And>i. off \<le> i \<Longrightarrow> i < off + pdo_bits (map fst mf) \<Longrightarrow> bit_at b i = bit_at c i"
  shows "carries mf off b = carries mf off c"
  using assms
proof (induction mf arbitrary: off)
  case (Cons x mf)
  obtain m f where x: "x = (m, f)" by (cases x)
  have "carries mf (off + map_len m) b = carries mf (off + map_len m) c"
    by (rule Cons.IH) (use Cons.prems in \<open>auto simp: x\<close>)
  then show ?case using Cons.prems by (auto simp: x)
qed simp

lemma carries_change: "carries (zip ms fs) off b \<Longrightarrow> length fs = length ms \<Longrightarrow> map map_len ms = map map_len ms' \<Longrightarrow> carries (zip ms' fs) off b"
proof (induction ms arbitrary: ms' fs off)
  case (Cons m ms)
  then obtain m' ms'' f fs' where "ms' = m' # ms''" "fs = f # fs'" by (auto simp: Cons_eq_map_conv length_Suc_conv)
  then show ?case using Cons by auto
qed simp

lemma bit_at_copy:
  assumes "i < 8 * length dst"
  shows "bit_at (copy_bits dst dp src sp n) i = (if dp \<le> i \<and> i < dp + n then bit_at src (i - dp + sp) else bit_at dst i)"
  using assms bit_copy_bits [of "i div 8" dst "i mod 8" dp src sp n] by (simp add: bit_at_def less_mult_imp_div_less mult.commute)

lemma bit_u64_beyond: "64 \<le> k \<Longrightarrow> \<not> bit (x :: u64) k"
  using bit_imp_le_length [of x k] by auto

lemma bit_stle_u64: "k < 64 \<Longrightarrow> bit_at (stle_u64 v) k = bit v k"
  by (simp add: bit_at_def stle_u64_def bit_simps less_mult_imp_div_less)

lemma bit_ldle_u64:
  assumes "length bs = 8" "k < 64"
  shows "bit (ldle_u64 bs) k = bit_at bs k"
proof -
  have "bit (foldr (\<lambda>i x. push_bit (8 * i) (ucast (bs ! i) :: u64) OR x) xs 0) k = (\<exists>i\<in>set xs. 8 * i \<le> k \<and> k < 8 * i + 8 \<and> bit (bs ! i) (k - 8 * i))" for xs
    by (induction xs) (use assms in \<open>auto simp: bit_simps dest: bit_imp_le_length\<close>)
  then have "bit (ldle_u64 bs) k = (\<exists>i\<in>{0..<8}. 8 * i \<le> k \<and> k < 8 * i + 8 \<and> bit (bs ! i) (k - 8 * i))"
    by (simp only: ldle_u64_def set_upt)
  also have "\<dots> = bit (bs ! (k div 8)) (k mod 8)"
  proof -
    have "(8 * i \<le> k \<and> k < 8 * i + 8) = (i = k div 8)" for i by auto
    then have "(8 * i \<le> k \<and> k < 8 * i + 8 \<and> P) = (i = k div 8 \<and> P)" for i P by blast
    moreover have "k div 8 < 8" "k - 8 * (k div 8) = k mod 8" using assms by (auto simp: minus_mult_div_eq_mod less_mult_imp_div_less)
    ultimately show ?thesis by simp
  qed
  finally show ?thesis by (simp add: bit_at_def)
qed

section \<open>Packing and unpacking\<close>

text \<open>Where the bytes that unpacking reads exist: in a frame with room to spare, or at a byte boundary.\<close>

definition fits :: "nat \<Rightarrow> bytes \<Rightarrow> u32 list \<Rightarrow> bool" where
  "fits n b ms \<longleftrightarrow> n \<le> CAN_MAX_LEN \<and> n \<le> length b \<and> (CAN_MAX_LEN < length b \<or> (\<forall>m\<in>set ms. 8 dvd map_len m))"

lemma reach_bound:
  assumes "off + len \<le> 8 * n" "n \<le> 8" "n \<le> length b" "8 < length b \<or> 8 dvd off" "0 < len"
  shows "bcpyle_reach 0 off len < length b"
proof -
  define a u c e where "a = off div 8" and "u = off mod 8" and "c = (len - 1) div 8" and "e = (len - 1) mod 8"
  have d: "off = 8 * a + u" "len = 8 * c + e + 1" "u < 8" "e < 8" using assms by (simp_all add: a_def u_def c_def e_def)
  have r: "bcpyle_reach 0 off len = a + c + (if 0 < u \<and> 8 < u + len then 1 else 0)"
    by (simp add: bcpyle_reach_def a_def u_def c_def)
  show ?thesis
  proof (cases "u = 0")
    case True
    then have "a + c < n" using assms(1) d by linarith
    then show ?thesis using r True assms by simp
  next
    case False
    then have "8 < length b" using assms(4) by (simp add: u_def dvd_eq_mod_eq_0)
    moreover have "a + c < 8" using assms(1,2) d(1,2) False by linarith
    ultimately show ?thesis using r by simp
  qed
qed

lemma pack_step:
  assumes "off + len \<le> 8 * length b" "off + len \<le> 64" "8 \<le> length src \<or> len = 0"
  shows "\<exists>b'. bcpyle b off src 0 len = Some b' \<and> length b' = length b
    \<and> (\<forall>i<8 * length b. bit_at b' i = (if off \<le> i \<and> i < off + len then bit_at src (i - off) else bit_at b i))"
proof (cases "len = 0")
  case False
  have "off mod 8 \<le> off" by simp
  then have "off mod 8 + len - 1 < 8 * 8" "off + len - 1 < length b * 8" using assms False by linarith+
  then have "bcpyle_reach off 0 len < length src" "(off + len - 1) div 8 < length b"
    using assms(3) False less_mult_imp_div_less [of "off mod 8 + len - 1" 8 8] by (auto simp: bcpyle_reach_def less_mult_imp_div_less)
  then show ?thesis using False by (simp add: bcpyle_correct bit_at_copy)
qed (auto simp: bcpyle_correct)

lemma length_stle_u64 [simp]: "length (stle_u64 v) = 8"
  by (simp add: stle_u64_def)

lemma map_loop:
  assumes "length vs = length ms" "off + pdo_bits ms \<le> 8 * n" "n \<le> length b" "n \<le> 8"
  shows "\<exists>b'. pdo_map_loop (zip ms vs) off (Some b) (Some n) = Some (0, off + pdo_bits ms, Some b') \<and> length b' = length b
    \<and> (\<forall>i<8 * length b. i < off \<or> off + pdo_bits ms \<le> i \<longrightarrow> bit_at b' i = bit_at b i)
    \<and> carries (zip ms (map bit vs)) off b'"
  using assms
proof (induction ms arbitrary: vs off b)
  case Nil
  then show ?case by auto
next
  case (Cons m ms)
  obtain v vs' where vs: "vs = v # vs'" "length vs' = length ms" using Cons.prems(1) by (auto simp: length_Suc_conv)
  show ?case
  proof (cases "m = 0")
    case True
    then show ?thesis using Cons.IH [OF vs(2), of off b] Cons.prems by (auto simp: vs)
  next
    case False
    have len: "off + map_len m \<le> 8 * length b" "off + map_len m \<le> 64" "off + map_len m \<le> n * 8" using Cons.prems by auto
    obtain b1 where b1: "bcpyle b off (stle_u64 v) 0 (map_len m) = Some b1" "length b1 = length b"
      "\<And>i. i < 8 * length b \<Longrightarrow> bit_at b1 i = (if off \<le> i \<and> i < off + map_len m then bit_at (stle_u64 v) (i - off) else bit_at b i)"
      using pack_step [OF len(1,2), of "stle_u64 v"] by auto
    obtain b' where b': "pdo_map_loop (zip ms vs') (off + map_len m) (Some b1) (Some n) = Some (0, off + map_len m + pdo_bits ms, Some b')"
      "length b' = length b1"
      "\<And>i. i < 8 * length b \<Longrightarrow> i < off + map_len m \<or> off + map_len m + pdo_bits ms \<le> i \<Longrightarrow> bit_at b' i = bit_at b1 i"
      "carries (zip ms (map bit vs')) (off + map_len m) b'"
      using Cons.IH [OF vs(2), of "off + map_len m" b1] Cons.prems b1(2) by auto
    have "bit_at b' (off + k) = bit v k" if "k < map_len m" for k
      using that len b'(3) [of "off + k"] b1(3) [of "off + k"] by (simp add: bit_stle_u64)
    moreover have "bit_at b' i = bit_at b i" if "i < 8 * length b" "i < off \<or> off + map_len m + pdo_bits ms \<le> i" for i
      using that b'(3) [of i] b1(3) [of i] by auto
    moreover have "pdo_map_loop (zip (m # ms) vs) off (Some b) (Some n) = Some (0, off + pdo_bits (m # ms), Some b')"
      using False len b1 b' by (simp add: vs Let_def CAN_MAX_LEN_def)
    ultimately show ?thesis using b' b1(2) by (auto simp: vs)
  qed
qed

text \<open>One value taken out of a frame.\<close>

lemma unpack_step:
  assumes "off + len \<le> 8 * n" "n \<le> 8" "n \<le> length b" "8 < length b \<or> 8 dvd off"
  shows "\<exists>tmp. bcpyle (replicate 8 0) 0 b off len = Some tmp \<and> length tmp = 8 \<and> (\<forall>k<64. bit_at tmp k = (k < len \<and> bit_at b (off + k)))"
proof (cases "len = 0")
  case True
  then show ?thesis by (simp add: bcpyle_correct bit_at_def less_mult_imp_div_less)
next
  case False
  then have "bcpyle_reach 0 off len < length b" "(len - 1) div 8 < 8"
    using reach_bound [OF assms] assms by (auto simp: less_mult_imp_div_less)
  then have "bcpyle (replicate 8 0) 0 b off len = Some (copy_bits (replicate 8 0) 0 b off len)"
    using False by (simp add: bcpyle_correct)
  moreover have "bit_at (copy_bits (replicate 8 0) 0 b off len) k = (k < len \<and> bit_at b (off + k))" if "k < 64" for k
    using that by (auto simp: bit_at_copy add.commute) (simp add: bit_at_def less_mult_imp_div_less)
  ultimately show ?thesis by simp
qed

lemma unmap_loop:
  assumes "carries (zip ms (map bit vs)) off b" "length vs = length ms"
    and "off + pdo_bits ms \<le> 8 * n" "n \<le> 8" "n \<le> length b" "8 < length b \<or> 8 dvd off \<and> (\<forall>m\<in>set ms. 8 dvd map_len m)"
    and "i + length ms \<le> length ws"
  shows "pdo_unmap_loop ms i off b n (Some ws) (Some (length ws)) =
    Some (0, Some (take i ws @ map2 (\<lambda>m (v, w). if m = 0 then w else take_bit (map_len m) v) ms (zip vs (drop i ws)) @ drop (i + length ms) ws))"
  using assms
proof (induction ms arbitrary: vs off i ws)
  case (Cons m ms)
  obtain v vs' where vs: "vs = v # vs'" "length vs' = length ms" using Cons.prems(2) by (auto simp: length_Suc_conv)
  have d: "drop i ws = ws ! i # drop (Suc i) ws" using Cons.prems(7) by (simp add: Cons_nth_drop_Suc)
  show ?case
  proof (cases "m = 0")
    case True
    have "pdo_unmap_loop ms (Suc i) off b n (Some ws) (Some (length ws)) =
      Some (0, Some (take (Suc i) ws @ map2 (\<lambda>m (v, w). if m = 0 then w else take_bit (map_len m) v) ms (zip vs' (drop (Suc i) ws)) @ drop (Suc i + length ms) ws))"
      by (rule Cons.IH) (use Cons.prems True in \<open>auto simp: vs\<close>)
    then show ?thesis using True Cons.prems(7) by (simp add: vs d take_Suc_conv_app_nth)
  next
    case False
    have al: "8 < length b \<or> 8 dvd off" using Cons.prems(6) by auto
    have len: "off + map_len m \<le> 8 * n" using Cons.prems by auto
    obtain tmp where tmp: "bcpyle (replicate 8 0) 0 b off (map_len m) = Some tmp" "length tmp = 8"
      "\<And>k. k < 64 \<Longrightarrow> bit_at tmp k = (k < map_len m \<and> bit_at b (off + k))"
      using unpack_step [OF len Cons.prems(4,5) al] by blast
    have v: "ldle_u64 tmp = take_bit (map_len m) v"
      by (rule bit_word_eqI) (use tmp Cons.prems(1) in \<open>auto simp: vs bit_ldle_u64 bit_take_bit_iff\<close>)
    let ?ws = "ws[i := ldle_u64 tmp]"
    have "pdo_unmap_loop ms (Suc i) (off + map_len m) b n (Some ?ws) (Some (length ?ws)) =
      Some (0, Some (take (Suc i) ?ws @ map2 (\<lambda>m (v, w). if m = 0 then w else take_bit (map_len m) v) ms (zip vs' (drop (Suc i) ?ws)) @ drop (Suc i + length ms) ?ws))"
      by (rule Cons.IH) (use Cons.prems in \<open>auto simp: vs\<close>)
    then show ?thesis using False Cons.prems(7) len tmp
      by (simp add: vs d v take_Suc_conv_app_nth ac_simps)
  qed
qed simp

lemma frame_bytes: "x \<le> 8 * n \<Longrightarrow> x \<le> 8 * ((x + 7) div 8) \<and> (x + 7) div 8 \<le> n" for x n :: nat
  by presburger

lemma entries_length: "length (pm_map par) = 64 \<Longrightarrow> pm_n par \<le> CO_PDO_NUM_MAPS \<Longrightarrow> length (map_entries par) = unat (pm_n par)"
  by (simp add: map_entries_def CO_PDO_NUM_MAPS_def word_le_nat_alt)

text \<open>C9. Packing and unpacking with the same mapping: whenever the mapping fits into the frame, \<open>co_pdo_map\<close> succeeds, reports the
  number of bytes used, and \<open>co_pdo_unmap\<close> of that many bytes returns every value, cut to the length of its entry; the
  values of unused entries are left as they were.
\<close>

theorem pdo_map_unmap:
  assumes "length (pm_map par) = 64" "pm_n par \<le> CO_PDO_NUM_MAPS" "length vs = unat (pm_n par)" "length ws = unat (pm_n par)"
    and "pdo_bits (map_entries par) \<le> 8 * n" "n \<le> 8" "n \<le> length b" "8 < length b \<or> (\<forall>m\<in>set (map_entries par). 8 dvd map_len m)"
  shows "\<exists>b'. co_pdo_map par vs (pm_n par) (Some b) (Some n) = Some (0, Some b', Some ((pdo_bits (map_entries par) + 7) div 8))
    \<and> co_pdo_unmap par b' ((pdo_bits (map_entries par) + 7) div 8) (Some ws) (Some (length ws)) =
        Some (0, Some (map2 (\<lambda>m (v, w). if m = 0 then w else take_bit (map_len m) v) (map_entries par) (zip vs ws)), Some (unat (pm_n par)))"
proof -
  let ?ms = "map_entries par" and ?k = "(pdo_bits (map_entries par) + 7) div 8"
  have l: "length vs = length ?ms" "length ws = length ?ms" using assms entries_length by auto
  obtain b' where b': "pdo_map_loop (zip ?ms vs) 0 (Some b) (Some n) = Some (0, pdo_bits ?ms, Some b')" "length b' = length b"
    "carries (zip ?ms (map bit vs)) 0 b'"
    using map_loop [OF l(1), of 0 n b] assms by auto
  have k: "pdo_bits ?ms \<le> 8 * ?k" "?k \<le> 8" "?k \<le> length b'" using frame_bytes [OF assms(5)] assms b'(2) by auto
  from unmap_loop [OF b'(3) l(1) _ k(2,3), of 0 ws] k(1) assms b'(2) l
  have "pdo_unmap_loop ?ms 0 0 b' ?k (Some ws) (Some (length ws)) =
      Some (0, Some (map2 (\<lambda>m (v, w). if m = 0 then w else take_bit (map_len m) v) ?ms (zip vs ws)))" by simp
  then show ?thesis using b' assms by (auto simp: co_pdo_map_def co_pdo_unmap_def)
qed

section \<open>Frames between dictionaries\<close>

text \<open>
  The specification of a received PDO: the values are checked and written one after the other, until one of them fails
  the checks. An entry without a sub-object is a dummy, and a sub-object that refuses to be written keeps its value. The others
  take the value that the bytes are for their type.
\<close>

fun pdo_store :: "(u32 \<times> (nat \<Rightarrow> bool)) list \<Rightarrow> co_device \<Rightarrow> u32 \<times> co_device" where
  "pdo_store [] dev = (0, dev)"
| "pdo_store ((m, f) # r) dev =
     (if m = 0 then pdo_store r dev
      else if co_dev_chk_rpdo dev (map_idx m) (map_subidx m) \<noteq> 0 then (co_dev_chk_rpdo dev (map_idx m) (map_subidx m), dev)
      else case co_dev_find_sub (dv_od dev) (map_idx m) (map_subidx m) of
        None \<Rightarrow> pdo_store r dev
      | Some sb \<Rightarrow>
          if \<not> sub_write sb then (CO_SDO_AC_NO_WRITE, dev)
          else if co_sub_on_dn_chk sb (field (map_len m) f) \<noteq> 0 then (co_sub_on_dn_chk sb (field (map_len m) f), dev)
          else if sub_refuse sb then pdo_store r dev
          else pdo_store r (dev\<lparr>dv_od := put_val (dv_od dev) (map_idx m) (map_subidx m) (co_val_norm (sub_type sb) (field (map_len m) f))\<rparr>))"

lemma length_field [simp]: "length (field len f) = (len + 7) div 8"
  by (simp add: field_def)

lemma field_eqI:
  assumes "length tmp = 8" "len \<le> 64" "\<And>k. k < 64 \<Longrightarrow> bit_at tmp k = (k < len \<and> f k)"
  shows "take ((len + 7) div 8) tmp = field len f"
proof (rule nth_equalityI)
  have l: "(len + 7) div 8 \<le> 8" using assms(2) by linarith
  then show "length (take ((len + 7) div 8) tmp) = length (field len f)" using assms(1) by simp
  fix j assume "j < length (take ((len + 7) div 8) tmp)"
  then have j: "j < (len + 7) div 8" "j < 8" using l assms(1) by auto
  have "bit (tmp ! j) p = (8 * j + p < len \<and> f (8 * j + p))" if "p < 8" for p
    using assms(3) [of "8 * j + p"] that j by simp
  then show "take ((len + 7) div 8) tmp ! j = field len f ! j"
    using j by (auto intro!: bit_word_eqI simp: field_def)
qed

lemma field_cong: "(\<And>k. k < len \<Longrightarrow> f k = g k) \<Longrightarrow> field len f = field len g"
  by (auto simp: field_def intro!: arg_cong [where f = byte_of])

lemma field_whole: "field (8 * length v) (bit_at v) = v"
  by (auto simp: field_def intro!: nth_equalityI bit_word_eqI)

lemma no_write_nonzero: "CO_SDO_AC_NO_WRITE \<noteq> 0"
  by (simp add: CO_SDO_AC_NO_WRITE_def)

lemma dev_dn_whole:
  assumes "n \<le> length v" "n \<le> 8"
  shows "\<exists>r. dev_dn H dev idx subidx sb n v req =
    Some (if \<not> sub_write sb then (CO_SDO_AC_NO_WRITE, dev, r)
      else if co_sub_on_dn_chk sb (take n v) \<noteq> 0 then (co_sub_on_dn_chk sb (take n v), dev, r)
      else (0, dev\<lparr>dv_od := set_val (dv_od dev) idx subidx (take n v)\<rparr>, r))"
proof -
  let ?r = "(co_sdo_req_clear req)\<lparr>sq_size := n, sq_buf := v, sq_nbyte := n\<rparr>"
  have "co_sdo_req_dn H ?r = (Dn_value (take n v), ?r)"
    using assms by (simp add: co_sdo_req_dn_def co_sdo_req_first_def co_sdo_req_last_def co_sdo_req_clear_def szt_small Let_def)
  then show ?thesis by (auto simp: dev_dn_def co_sub_dn_ind_def)
qed

lemma dn_loop_store:
  assumes "carries (zip ms fs) off b" "length fs = length ms"
    and "off + pdo_bits ms \<le> 8 * n" "n \<le> 8" "n \<le> length b" "8 < length b \<or> 8 dvd off \<and> (\<forall>m\<in>set ms. 8 dvd map_len m)"
  shows "\<exists>r. pdo_dn_loop H ms off dev req b n True = Some (fst (pdo_store (zip ms fs) dev), snd (pdo_store (zip ms fs) dev), r)"
  using assms
proof (induction ms arbitrary: fs off dev req)
  case (Cons m ms)
  obtain f fs' where fs: "fs = f # fs'" "length fs' = length ms" using Cons.prems(2) by (auto simp: length_Suc_conv)
  show ?case
  proof (cases "m = 0")
    case True
    then show ?thesis using Cons.IH [of fs' off dev req] Cons.prems by (simp add: fs)
  next
    case False
    have al: "8 < length b \<or> 8 dvd off" using Cons.prems(6) by auto
    have len: "off + map_len m \<le> 8 * n" using Cons.prems by auto
    obtain tmp where tmp: "bcpyle (replicate 8 0) 0 b off (map_len m) = Some tmp" "length tmp = 8"
      "\<And>k. k < 64 \<Longrightarrow> bit_at tmp k = (k < map_len m \<and> bit_at b (off + k))"
      using unpack_step [OF len Cons.prems(4,5) al] by blast
    have f: "take ((map_len m + 7) div 8) tmp = field (map_len m) f"
      using field_eqI [OF tmp(2) _ tmp(3)] field_cong [of "map_len m" "\<lambda>k. bit_at b (off + k)" f] Cons.prems len by (simp add: fs)
    have IH: "\<exists>r. pdo_dn_loop H ms (off + map_len m) dev' req' b n True =
        Some (fst (pdo_store (zip ms fs') dev'), snd (pdo_store (zip ms fs') dev'), r)" for dev' req'
      by (rule Cons.IH) (use Cons.prems in \<open>auto simp: fs\<close>)
    have sz: "(map_len m + 7) div 8 \<le> length tmp" "(map_len m + 7) div 8 \<le> 8"
      using frame_bytes [of "map_len m" 8] len Cons.prems(4) tmp(2) by auto
    show ?thesis
    proof (cases "co_dev_find_sub (dv_od dev) (map_idx m) (map_subidx m)")
      case None
      then show ?thesis using False len IH by (simp add: fs Let_def ac_simps)
    next
      case (Some sb)
      obtain r where "dev_dn H dev (map_idx m) (map_subidx m) sb ((map_len m + 7) div 8) tmp req =
        Some (if \<not> sub_write sb then (CO_SDO_AC_NO_WRITE, dev, r)
          else if co_sub_on_dn_chk sb (field (map_len m) f) \<noteq> 0 then (co_sub_on_dn_chk sb (field (map_len m) f), dev, r)
          else (0, dev\<lparr>dv_od := set_val (dv_od dev) (map_idx m) (map_subidx m) (field (map_len m) f)\<rparr>, r))"
        using dev_dn_whole [OF sz(1) sz(2)] f by metis
      then show ?thesis using False len IH Some tmp(1)
        by (simp add: fs Let_def ac_simps CAN_MAX_LEN_def no_write_nonzero set_val_found)
    qed
  qed
qed simp

text \<open>The buffer of an upload request is empty at first, and has at least the initial size of a memory buffer afterwards.\<close>

definition roomy :: "membuf \<Rightarrow> bool" where
  "roomy b \<longleftrightarrow> membuf_wf b \<and> (mb_mem b = [] \<or> LELY_MEMBUF_SIZE \<le> length (mb_mem b))"

lemma reserve_roomy:
  assumes "roomy b" "mb_cur b = 0" "0 < n" "n \<le> 2 ^ 31" "membuf_reserve H b n = Reserved b'"
  shows "LELY_MEMBUF_SIZE \<le> length (mb_mem b')"
proof (cases "n \<le> membuf_capacity b")
  case True
  then have "b' = b" "mb_mem b \<noteq> []" using assms by (auto simp: membuf_reserve_def membuf_capacity_def split: if_splits)
  then show ?thesis using assms(1) by (auto simp: roomy_def)
next
  case False
  then obtain sz where sz: "membuf_grow GROW_FUEL n LELY_MEMBUF_SIZE = Some sz" "b' = b\<lparr>mb_mem := take sz (mb_mem b) @ map (hp_fresh H) [length (mb_mem b)..<sz]\<rparr>"
    using assms by (auto simp: membuf_reserve_def membuf_size_def szt_small Let_def split: option.splits if_splits)
  moreover have "LELY_MEMBUF_SIZE \<le> sz"
  proof (cases "n \<le> LELY_MEMBUF_SIZE")
    case True
    have "GROW_FUEL = Suc 28" by (simp add: GROW_FUEL_def)
    moreover have "membuf_grow (Suc 28) n LELY_MEMBUF_SIZE = Some LELY_MEMBUF_SIZE"
      unfolding membuf_grow.simps using True by simp
    ultimately show ?thesis using sz(1) by (metis option.inject order_refl)
  next
    case False
    then show ?thesis using membuf_grow_total [OF assms(4)] sz(1) by auto
  qed
  ultimately show ?thesis by simp
qed

lemma up_val_roomy:
  assumes "roomy (sq_membuf r)" "0 < length v" "length v \<le> 2 ^ 31" "\<And>sz. hp_ok H sz"
  shows "\<exists>r'. co_sdo_req_up_val H v r = (Up_ok, r') \<and> up_req v r' \<and> LELY_MEMBUF_SIZE \<le> length (sq_buf r') \<and> roomy (sq_membuf r')"
proof -
  obtain r' where r': "co_sdo_req_up_val H v r = (Up_ok, r')" "up_req v r'"
    using req_up_val [of r v H] assms by (auto simp: roomy_def)
  obtain b where b: "membuf_reserve H (membuf_clear (sq_membuf r)) (length v) = Reserved b" "r' = co_sdo_req_up_buf (r\<lparr>sq_membuf := membuf_write v b\<rparr>)"
    using r'(1) assms(2) by (auto simp: co_sdo_req_up_val_def Let_def split: reserve.splits)
  have "LELY_MEMBUF_SIZE \<le> length (mb_mem b)"
    by (rule reserve_roomy [OF _ _ assms(2,3) b(1)]) (use assms(1) in \<open>auto simp: roomy_def\<close>)
  moreover have "length (mb_mem (membuf_write v b)) = length (mb_mem b)" if "membuf_wf b"
    using that by (auto simp: membuf_write_def membuf_capacity_def membuf_wf_def Let_def min_def)
  moreover have "membuf_wf b" using membuf_reserve_props(1) [OF b(1)] assms(3) by simp
  ultimately show ?thesis using r' b(2) by (auto simp: co_sdo_req_up_buf_def roomy_def up_req_def)
qed

text \<open>A sub-object that can be sent: readable, mappable into a TPDO, and with a value at least as long as its entry.\<close>

definition sendable :: "co_device \<Rightarrow> u32 \<Rightarrow> bool" where
  "sendable dev m \<longleftrightarrow> m = 0 \<or> (co_dev_chk_tpdo dev (map_idx m) (map_subidx m) = 0
     \<and> (case co_dev_find_sub (dv_od dev) (map_idx m) (map_subidx m) of None \<Rightarrow> False
        | Some sb \<Rightarrow> (case sub_val sb of None \<Rightarrow> False | Some v \<Rightarrow> 0 < length v \<and> map_len m \<le> 8 * length v \<and> length v \<le> 2 ^ 31)))"

definition pdo_value :: "co_device \<Rightarrow> u32 \<Rightarrow> nat \<Rightarrow> bool" where
  "pdo_value dev m = (case co_dev_find_sub (dv_od dev) (map_idx m) (map_subidx m) of None \<Rightarrow> (\<lambda>_. False)
     | Some sb \<Rightarrow> (case sub_val sb of None \<Rightarrow> (\<lambda>_. False) | Some v \<Rightarrow> bit_at v))"

lemma sendableE:
  assumes "sendable dev m" "m \<noteq> 0"
  obtains sb v where "co_dev_find_sub (dv_od dev) (map_idx m) (map_subidx m) = Some sb" "sub_val sb = Some v" "sub_read sb"
    "0 < length v" "map_len m \<le> 8 * length v" "length v \<le> 2 ^ 31" "co_dev_chk_tpdo dev (map_idx m) (map_subidx m) = 0"
    "pdo_value dev m = bit_at v"
proof -
  have "CO_SDO_AC_NO_READ \<noteq> 0" by (simp add: CO_SDO_AC_NO_READ_def)
  then show ?thesis using assms that
    by (auto simp: sendable_def pdo_value_def co_dev_chk_tpdo_def co_dev_find_sub_def split: option.splits if_splits)
qed

lemma up_loop_sends:
  assumes "\<forall>m\<in>set ms. sendable dev m" "off + pdo_bits ms \<le> 8 * n" "n \<le> length b" "n \<le> 8" "roomy (sq_membuf req)" "\<And>sz. hp_ok H sz"
  shows "\<exists>b' r. pdo_up_loop H ms off dev req (Some b) (Some n) True = Some (0, off + pdo_bits ms, r, Some b') \<and> length b' = length b
    \<and> (\<forall>i<8 * length b. i < off \<or> off + pdo_bits ms \<le> i \<longrightarrow> bit_at b' i = bit_at b i)
    \<and> carries (zip ms (map (pdo_value dev) ms)) off b' \<and> roomy (sq_membuf r)"
  using assms(1-5)
proof (induction ms arbitrary: off b req)
  case Nil
  then show ?case by auto
next
  case (Cons m ms)
  show ?case
  proof (cases "m = 0")
    case True
    then show ?thesis using Cons.IH [of off b req] Cons.prems by auto
  next
    case False
    have len: "off + map_len m \<le> 8 * length b" "off + map_len m \<le> 64" "off + map_len m \<le> n * 8" using Cons.prems by auto
    obtain sb v where v: "co_dev_find_sub (dv_od dev) (map_idx m) (map_subidx m) = Some sb" "sub_val sb = Some v" "sub_read sb"
      "0 < length v" "map_len m \<le> 8 * length v" "length v \<le> 2 ^ 31" "co_dev_chk_tpdo dev (map_idx m) (map_subidx m) = 0"
      "pdo_value dev m = bit_at v"
      using sendableE [of dev m] Cons.prems(1) False by auto
    obtain r where r: "co_sdo_req_up_val H v (co_sdo_req_clear req) = (Up_ok, r)" "up_req v r" "16 \<le> length (sq_buf r)" "roomy (sq_membuf r)"
      using up_val_roomy [of "co_sdo_req_clear req" v H] v(4,6) assms(6) Cons.prems(5)
      by (auto simp: roomy_def co_sdo_req_clear_def LELY_MEMBUF_SIZE_def)
    have src: "bit_at (sq_buf r) k = bit_at v k" if "k < 8 * length v" for k
    proof -
      have "v ! (k div 8) = sq_buf r ! (k div 8)" using r(2) that nth_take [of "k div 8" "length v" "sq_buf r"]
        by (simp add: up_req_def less_mult_imp_div_less mult.commute)
      then show ?thesis by (simp add: bit_at_def)
    qed
    obtain b1 where b1: "bcpyle b off (sq_buf r) 0 (map_len m) = Some b1" "length b1 = length b"
      "\<And>i. i < 8 * length b \<Longrightarrow> bit_at b1 i = (if off \<le> i \<and> i < off + map_len m then bit_at (sq_buf r) (i - off) else bit_at b i)"
      using pack_step [OF len(1,2), of "sq_buf r"] r(3) by auto
    obtain b' r' where b': "pdo_up_loop H ms (off + map_len m) dev r (Some b1) (Some n) True = Some (0, off + map_len m + pdo_bits ms, r', Some b')"
      "length b' = length b1"
      "\<And>i. i < 8 * length b \<Longrightarrow> i < off + map_len m \<or> off + map_len m + pdo_bits ms \<le> i \<Longrightarrow> bit_at b' i = bit_at b1 i"
      "carries (zip ms (map (pdo_value dev) ms)) (off + map_len m) b'" "roomy (sq_membuf r')"
      using Cons.IH [of "off + map_len m" b1 r] Cons.prems b1(2) r(4) by auto
    have "bit_at b' (off + k) = pdo_value dev m k" if "k < map_len m" for k
      using that len b'(3) [of "off + k"] b1(3) [of "off + k"] src [of k] v by simp
    moreover have "bit_at b' i = bit_at b i" if "i < 8 * length b" "i < off \<or> off + map_len m + pdo_bits ms \<le> i" for i
      using that b'(3) [of i] b1(3) [of i] by auto
    moreover have "pdo_up_loop H (m # ms) off dev req (Some b) (Some n) True = Some (0, off + pdo_bits (m # ms), r', Some b')"
      using False len b1 b' r v
      by (simp add: Let_def CAN_MAX_LEN_def co_sub_up_ind_def co_sdo_req_first_def co_sdo_req_last_def up_req_def ac_simps)
    ultimately show ?thesis using b' b1(2) by auto
  qed
qed

text \<open>A PDO carries values from one dictionary to another. When the objects the sender maps can be sent and the mappings of sender and
  receiver give the entries the same lengths, at most 64 bits in all, then \<open>co_pdo_up\<close> fills the frame and \<open>co_pdo_dn\<close> on that frame does
  exactly what the specification of a received PDO says: each value the sender has, cut to the length of its entry, is
  checked and written to the object the receiver maps there, up to the first one that is refused.
\<close>

theorem pdo_transfer:
  assumes "pm_n src \<le> CO_PDO_NUM_MAPS" "pm_n dst \<le> CO_PDO_NUM_MAPS"
    and "map map_len (map_entries src) = map map_len (map_entries dst)" "pdo_bits (map_entries src) \<le> 64"
    and "\<forall>m\<in>set (map_entries src). sendable A m" "roomy (sq_membuf ra)" "\<And>sz. hp_ok H sz" "CAN_MAX_LEN < length b"
  shows "\<exists>ra' rb' b' ac B'. co_pdo_up H src A ra (Some b) (Some CAN_MAX_LEN) True = Some (0, ra', Some b', Some ((pdo_bits (map_entries src) + 7) div 8))
    \<and> co_pdo_dn G dst B rb b' ((pdo_bits (map_entries src) + 7) div 8) True = Some (ac, B', rb')
    \<and> pdo_store (zip (map_entries dst) (map (pdo_value A) (map_entries src))) B = (ac, B')"
proof -
  let ?src = "map_entries src" and ?dst = "map_entries dst" and ?n = "(pdo_bits (map_entries src) + 7) div 8"
  have n: "pdo_bits ?src \<le> 8 * ?n" "?n \<le> 8" using frame_bytes [of "pdo_bits ?src" 8] assms(4) by auto
  obtain b' ra' where up: "pdo_up_loop H ?src 0 A ra (Some b) (Some CAN_MAX_LEN) True = Some (0, pdo_bits ?src, ra', Some b')"
    "length b' = length b" "carries (zip ?src (map (pdo_value A) ?src)) 0 b'"
    using up_loop_sends [of ?src A 0 CAN_MAX_LEN b ra H] assms by (auto simp: CAN_MAX_LEN_def)
  have c: "carries (zip ?dst (map (pdo_value A) ?src)) 0 b'" by (rule carries_change [OF up(3) _ assms(3)]) simp
  have l: "length ?src = length ?dst" "pdo_bits ?dst = pdo_bits ?src"
    using map_eq_imp_length_eq [OF assms(3)] assms(3) by (simp_all add: pdo_bits_def)
  obtain rb' where "pdo_dn_loop G ?dst 0 B rb b' ?n True =
      Some (fst (pdo_store (zip ?dst (map (pdo_value A) ?src)) B), snd (pdo_store (zip ?dst (map (pdo_value A) ?src)) B), rb')"
    using dn_loop_store [OF c _ _ n(2), of G B rb] n l up(2) assms(8) by (auto simp: CAN_MAX_LEN_def)
  then have "co_pdo_dn G dst B rb b' ?n True = Some (fst (pdo_store (zip ?dst (map (pdo_value A) ?src)) B),
      snd (pdo_store (zip ?dst (map (pdo_value A) ?src)) B), rb')"
    using n assms(2) by (auto simp: co_pdo_dn_def CAN_MAX_LEN_def)
  moreover have "co_pdo_up H src A ra (Some b) (Some CAN_MAX_LEN) True = Some (0, ra', Some b', Some ?n)"
    using up(1) assms(1) by (auto simp: co_pdo_up_def)
  ultimately show ?thesis by (metis prod.collapse)
qed

text \<open>Witnesses: a 16-bit value and a single byte, sent to a 16-bit object and a dummy entry, and twelve bits between four and eight.\<close>

definition demo_sub :: "u16 \<Rightarrow> bytes \<Rightarrow> co_sub" where
  "demo_sub type v = \<lparr>sub_read = True, sub_write = True, sub_rpdo = True, sub_tpdo = True, sub_mapping = True,
     sub_refuse = False, sub_type = type, sub_val = Some v, sub_chk = (\<lambda>_. 0)\<rparr>"

definition demo_obj :: "(u8 \<rightharpoonup> co_sub) \<Rightarrow> co_obj" where
  "demo_obj subs = \<lparr>obj_subs = subs, obj_array = None\<rparr>"

definition demo_sender :: co_device where
  "demo_sender = \<lparr>dv_od = [0x2000 \<mapsto> demo_obj [1 \<mapsto> demo_sub 6 [0x34, 0x12]], 0x2001 \<mapsto> demo_obj [0 \<mapsto> demo_sub 5 [0x7f]]], dv_id = 1, dv_dummy = 0\<rparr>"

definition demo_receiver :: co_device where
  "demo_receiver = \<lparr>dv_od = [0x6000 \<mapsto> demo_obj [2 \<mapsto> demo_sub 6 [0, 0]]], dv_id = 2, dv_dummy = 0x20\<rparr>"

definition demo_map :: "u32 list \<Rightarrow> co_pdo_map_par" where
  "demo_map ms = \<lparr>pm_n = of_nat (length ms), pm_map = ms @ replicate (64 - length ms) 0\<rparr>"

lemma demo_entries: "map_entries (demo_map [a, b]) = [a, b]" "pm_n (demo_map [a, b]) = 2"
  by (simp_all add: demo_map_def map_entries_def)

theorem pdo_transfer_witness:
  "list_all (sendable demo_sender) (map_entries (demo_map [0x20000110, 0x20010008]))
   \<and> (\<exists>ra' rb' b' B'.
     co_pdo_up example_heap (demo_map [0x20000110, 0x20010008]) demo_sender co_sdo_req_init (Some (replicate 64 0)) (Some CAN_MAX_LEN) True
       = Some (0, ra', Some b', Some 3)
     \<and> co_pdo_dn example_heap (demo_map [0x60000210, 0x00050008]) demo_receiver co_sdo_req_init b' 3 True = Some (0, B', rb')
     \<and> dv_od B' = put_val (dv_od demo_receiver) 0x6000 2 [0x34, 0x12])"
proof -
  have lens: "map_len 0x20000110 = 16" "map_len 0x20010008 = 8" "map_len 0x60000210 = 16" "map_len 0x00050008 = 8" by (simp_all add: map_len_def)
  have idx: "map_idx 0x20000110 = 0x2000" "map_idx 0x20010008 = 0x2001" "map_idx 0x60000210 = 0x6000" "map_idx 0x00050008 = 5" by (simp_all add: map_idx_def)
  have sub: "map_subidx 0x20000110 = 1" "map_subidx 0x20010008 = 0" "map_subidx 0x60000210 = 2" "map_subidx 0x00050008 = 0" by (simp_all add: map_subidx_def)
  have s: "\<forall>m\<in>set (map_entries (demo_map [0x20000110, 0x20010008])). sendable demo_sender m"
    by (simp add: demo_entries sendable_def co_dev_chk_tpdo_def co_dev_find_sub_def demo_sender_def demo_obj_def demo_sub_def lens idx sub)
  have v: "pdo_value demo_sender 0x20000110 = bit_at [0x34, 0x12]"
    by (simp add: pdo_value_def co_dev_find_sub_def demo_sender_def demo_obj_def demo_sub_def idx sub)
  have f: "field 16 (bit_at [0x34, 0x12]) = [0x34, 0x12]" using field_whole [of "[0x34, 0x12]"] by simp
  have st: "pdo_store (zip [0x60000210, 0x00050008] (map (pdo_value demo_sender) [0x20000110, 0x20010008])) demo_receiver
      = (0, demo_receiver\<lparr>dv_od := put_val (dv_od demo_receiver) 0x6000 2 [0x34, 0x12]\<rparr>)"
    by (simp add: v f lens idx sub co_dev_chk_rpdo_def co_dev_find_sub_def demo_receiver_def demo_obj_def demo_sub_def co_type_is_basic_def put_val_def upd_sub_def co_sub_on_dn_chk_def co_val_size_chk_def co_val_width_def co_val_norm_def co_type_is_array_def co_deftype)
  show ?thesis
    using pdo_transfer [where src = "demo_map [0x20000110, 0x20010008]" and dst = "demo_map [0x60000210, 0x00050008]"
        and A = demo_sender and ra = co_sdo_req_init and H = example_heap and b = "replicate 64 0" and G = example_heap and B = demo_receiver
        and rb = co_sdo_req_init, OF _ _ _ _ s] st
    by (auto simp: s list_all_iff demo_entries lens pdo_bits_def CO_PDO_NUM_MAPS_def CAN_MAX_LEN_def roomy_def co_sdo_req_init_def example_heap_def)
qed

lemma demo_lens: "map_len 0x20000110 = 16" "map_len 0x20010008 = 8" "map_len 0x20000034 = 52" "map_len 0x2001000c = 12" "map_len 0x200001ff = 255"
  by (simp_all add: map_len_def)

theorem pdo_map_unmap_witness:
  "\<exists>b'. co_pdo_map (demo_map [0x20000034, 0x2001000c]) [0x123456789abcdef0, 0xabcd] 2 (Some (replicate 64 0)) (Some 8) = Some (0, Some b', Some 8)
    \<and> co_pdo_unmap (demo_map [0x20000034, 0x2001000c]) b' 8 (Some [0, 0]) (Some 2) = Some (0, Some [0x456789abcdef0, 0xbcd], Some 2)"
  using pdo_map_unmap [of "demo_map [0x20000034, 0x2001000c]" "[0x123456789abcdef0, 0xabcd]" "[0, 0]" 8 "replicate 64 0"]
  by (simp add: demo_entries demo_lens CO_PDO_NUM_MAPS_def) (simp add: demo_map_def numeral_2_eq_2)

section \<open>Where the checks are missing\<close>

text \<open>\<open>co_pdo_unmap\<close> checks an entry only against the number of bytes the caller has, not against the eight bytes it copies
  into: an entry of more than 64 bits, with that many bits available, writes behind the temporary buffer.
\<close>

theorem pdo_unmap_overflows:
  assumes "pm_n par \<noteq> 0" "pm_n par \<le> CO_PDO_NUM_MAPS" "pm_map par = m # ms" "64 < map_len m" "map_len m \<le> 8 * n"
  shows "co_pdo_unmap par b n val pn = None"
proof -
  have "m \<noteq> 0" using assms(4) by auto
  have "0 < unat (pm_n par)" using assms(1) by (simp add: unat_gt_0)
  then obtain k where k: "unat (pm_n par) = Suc k" using gr0_conv_Suc by blast
  have "8 \<le> (map_len m - 1) div 8" using assms(4) by linarith
  then have "bcpyle (replicate 8 0) 0 b 0 (map_len m) = None" using assms(4) by (simp add: bcpyle_correct)
  then show ?thesis using assms \<open>m \<noteq> 0\<close> by (simp add: co_pdo_unmap_def map_entries_def k Let_def)
qed

theorem pdo_unmap_overflows_witness:
  "co_pdo_unmap (demo_map [0x200001ff, 0x20010008]) (replicate 64 0) 64 None None = None"
  using pdo_unmap_overflows [where par = "demo_map [0x200001ff, 0x20010008]" and m = "0x200001ff" and ms = "0x20010008 # replicate 62 0" and n = 64]
  by (simp add: demo_entries demo_lens CO_PDO_NUM_MAPS_def) (simp add: demo_map_def)

text \<open>A classic frame has eight data bytes. When the last entry ends with the frame but does not start at a byte boundary and its
  length is not a multiple of eight, \<open>bcpyle\<close> reads the byte behind the frame although it needs none of its bits.
\<close>

theorem pdo_unmap_reads_behind:
  assumes "pm_n par = 2" "pm_map par = l # m # ms" "l \<noteq> 0" "map_len l + map_len m = 64" "8 < map_len m" "\<not> 8 dvd map_len m"
  shows "co_pdo_unmap par [b0, b1, b2, b3, b4, b5, b6, b7] 8 val pn = None"
proof -
  let ?b = "[b0, b1, b2, b3, b4, b5, b6, b7]"
  define a u c e where "a = map_len l div 8" and "u = map_len l mod 8" and "c = (map_len m - 1) div 8" and "e = (map_len m - 1) mod 8"
  have d: "map_len l = 8 * a + u" "map_len m = 8 * c + e + 1" "u < 8" "e < 8"
    using assms(5) by (simp_all add: a_def u_def c_def e_def)
  have "e \<noteq> 7"
  proof
    assume "e = 7"
    then have "map_len m = 8 * (c + 1)" using d(2) by simp
    then show False using assms(6) by (simp only: dvd_triv_left not_True_eq_False)
  qed
  moreover have "8 * (a + c) + u + e = 63" using assms(4) d by simp
  ultimately have "u \<noteq> 0" and "a + c = 7" using d(3,4) by presburger+
  then have "bcpyle_reach 0 (map_len l) (map_len m) = 8" using assms(5) by (simp add: bcpyle_reach_def a_def u_def c_def)
  then have "bcpyle (replicate 8 0) 0 ?b (map_len l) (map_len m) = None" using assms(5) by (simp add: bcpyle_correct)
  moreover have "m \<noteq> 0" using assms(5) by auto
  moreover have "map_entries par = [l, m]" "\<not> CO_PDO_NUM_MAPS < pm_n par"
    using assms by (simp_all add: map_entries_def CO_PDO_NUM_MAPS_def)
  ultimately show ?thesis using assms(3,4) by (simp add: co_pdo_unmap_def Let_def split: option.split bind_split)
qed

theorem pdo_unmap_reads_behind_witness:
  "co_pdo_unmap (demo_map [0x20000034, 0x2001000c]) [0, 1, 2, 3, 4, 5, 6, 7] 8 None None = None"
  using pdo_unmap_reads_behind [where par = "demo_map [0x20000034, 0x2001000c]" and l = "0x20000034" and m = "0x2001000c" and ms = "replicate 62 0"]
  by (simp add: demo_entries demo_lens) (simp add: demo_map_def)

text \<open>The length of an entry is not compared with the length of the object. An object shorter than its entry is padded with whatever
  the buffer of the upload request holds behind the value, that is with bytes of values sent before.
\<close>

theorem pdo_up_sends_stale_bytes:
  assumes "pm_n par = 1" "pm_map par = m # ms" "map_len m = 16" "co_dev_chk_tpdo dev (map_idx m) (map_subidx m) = 0"
    and "co_dev_find_sub (dv_od dev) (map_idx m) (map_subidx m) = Some sb" "sub_val sb = Some [x]" "sub_read sb"
    and "mb_mem (sq_membuf req) = y # z # rest" "8 \<le> length (mb_mem (sq_membuf req))"
  shows "\<exists>req'. co_pdo_up H par dev req (Some (replicate 64 0)) (Some CAN_MAX_LEN) True = Some (0, req', Some (x # z # replicate 62 0), Some 2)"
proof -
  define r where "r = co_sdo_req_up_buf ((co_sdo_req_clear req)\<lparr>sq_membuf := membuf_write [x] (membuf_clear (sq_membuf req))\<rparr>)"
  have buf: "sq_buf r = x # z # rest" "sq_size r = 1" "sq_nbyte r = 1" "sq_offset r = 0"
    using assms(8) by (simp_all add: r_def co_sdo_req_up_buf_def membuf_write_def membuf_capacity_def membuf_size_def Let_def min_def)
  have "membuf_reserve H (membuf_clear (sq_membuf req)) 1 = Reserved (membuf_clear (sq_membuf req))"
    using assms(8) by (simp add: membuf_reserve_def membuf_capacity_def)
  then have up: "co_sub_up_ind H sb (co_sdo_req_clear req) = (Some 0, r)"
    using assms(6,7) by (simp add: co_sub_up_ind_def co_sdo_req_up_val_def r_def Let_def co_sdo_req_clear_def membuf_clear_def)
  have "bcpyle (replicate 64 0) 0 (sq_buf r) 0 16 = Some (copy_bits (replicate 64 0) 0 (sq_buf r) 0 16)"
    using assms(8,9) by (simp add: bcpyle_correct bcpyle_reach_def buf)
  moreover have "copy_bits (replicate 64 0) 0 (sq_buf r) 0 16 = x # z # replicate 62 0"
  proof (rule copy_bits_eqI [symmetric])
    fix j p assume jp: "j < length (replicate 64 (0 :: u8))" "p < (8 :: nat)"
    consider "j = 0" | "j = 1" | "2 \<le> j" by linarith
    then show "bit ((x # z # replicate 62 0) ! j) p =
        (if 0 \<le> 8 * j + p \<and> 8 * j + p < 0 + 16 then bit_at (sq_buf r) (8 * j + p - 0 + 0) else bit (replicate 64 0 ! j) p)"
      using jp bit_at_byte [of p "sq_buf r" j] by cases (auto simp: buf nth_Cons' bit_at_def)
  qed simp
  moreover have "m \<noteq> 0" using assms(3) by auto
  ultimately show ?thesis using assms(1-5) up buf
    by (simp add: co_pdo_up_def map_entries_def CO_PDO_NUM_MAPS_def CAN_MAX_LEN_def Let_def co_sdo_req_first_def co_sdo_req_last_def)
qed

theorem pdo_up_sends_stale_bytes_witness:
  "\<exists>req'. co_pdo_up example_heap \<lparr>pm_n = 1, pm_map = [0x20010010]\<rparr> demo_sender
      (co_sdo_req_init\<lparr>sq_membuf := membuf_init [0x11, 0x22, 0x33, 0, 0, 0, 0, 0]\<rparr>) (Some (replicate 64 0)) (Some CAN_MAX_LEN) True
    = Some (0, req', Some (0x7f # 0x22 # replicate 62 0), Some 2)"
proof (rule pdo_up_sends_stale_bytes)
  have m: "map_idx 0x20010010 = 0x2001" "map_subidx 0x20010010 = 0" by (simp_all add: map_idx_def map_subidx_def)
  show "co_dev_find_sub (dv_od demo_sender) (map_idx 0x20010010) (map_subidx 0x20010010) = Some (demo_sub 5 [0x7f])"
    "co_dev_chk_tpdo demo_sender (map_idx 0x20010010) (map_subidx 0x20010010) = 0"
    by (simp_all add: co_dev_find_sub_def co_dev_chk_tpdo_def demo_sender_def demo_obj_def demo_sub_def m)
qed (simp_all add: demo_sub_def map_len_def)

text \<open>The dispatching list: an entry holds the node-ID in its lowest byte, then the first remote sub-index, the remote index, the local
  sub-index, the local index, and the block size in its highest byte. The code takes the block size two bits too low, so
  that an entry for the single sub-index 1 of object 2000 on node 5 matches the sub-indices 1 to 5.
\<close>

lemma ldle_stle_u64 [simp]: "ldle_u64 (stle_u64 x) = x"
  by (rule bit_word_eqI) (simp add: bit_ldle_u64 bit_stle_u64)

theorem sam_mpdo_block_misread:
  assumes "list_subs D 0x1fd0 0x1fff = [sb]" "sub_type sb = CO_DEFTYPE_UNSIGNED64" "sub_val sb = Some (stle_u64 0x0160000120000105)"
  shows "co_dev_map_sam_mpdo D 5 0x2000 subidx = (if 1 \<le> subidx \<and> subidx \<le> 5 then Some (0x6000, subidx) else None)"
  using assms by (simp add: co_dev_map_sam_mpdo_def disp_match_def co_sub_get_val_u64_def sub_bytes_def block_max_def Let_def)

definition demo_dispatch :: co_dev where
  "demo_dispatch = [0x1fd0 \<mapsto> demo_obj [0 \<mapsto> demo_sub CO_DEFTYPE_UNSIGNED8 [1], 1 \<mapsto> demo_sub CO_DEFTYPE_UNSIGNED64 (stle_u64 0x0160000120000105)]]"

lemma demo_dispatch_subs: "list_subs demo_dispatch 0x1fd0 0x1fff = [demo_sub CO_DEFTYPE_UNSIGNED64 (stle_u64 0x0160000120000105)]"
proof -
  have "concat (map f [8144..<8192]) = f 8144 @ concat (map f [8145..<8192])" for f :: "nat \<Rightarrow> co_sub list"
    by (subst upt_rec) simp
  moreover have "concat (map (\<lambda>i. case demo_dispatch (of_nat i) of None \<Rightarrow> [] | Some ob \<Rightarrow> g ob) [8145..<8192]) = []" for g :: "co_obj \<Rightarrow> co_sub list"
    by (simp add: demo_dispatch_def)
  ultimately show ?thesis
    by (simp add: list_subs_def) (simp add: demo_dispatch_def demo_obj_def co_sub_get_val_u8_def sub_bytes_def demo_sub_def List.map_filter_def)
qed

theorem sam_mpdo_block_misread_witness:
  "co_dev_map_sam_mpdo demo_dispatch 5 0x2000 4 = Some (0x6000, 4)"
  using sam_mpdo_block_misread [OF demo_dispatch_subs, of 4] by (simp add: demo_sub_def)

end
