(* ===== verification/Runs.thy ===== *)
theory Runs
  imports Main
begin

text \<open>
  Runs of a service over a list of events. An event handler gives the next state, or \<open>None\<close> when the code would leave a
  buffer or not return. A service keeps its invariant and handles every admissible event; the locale draws the consequences for whole runs.
\<close>

fun run_events :: "('e \<Rightarrow> 's \<Rightarrow> 's option) \<Rightarrow> 'e list \<Rightarrow> 's \<Rightarrow> 's option" where
  "run_events exec [] s = Some s"
| "run_events exec (e # es) s = (case exec e s of None \<Rightarrow> None | Some s' \<Rightarrow> run_events exec es s')"

lemma run_events_append:
  "run_events exec (es @ fs) s = (case run_events exec es s of None \<Rightarrow> None | Some s' \<Rightarrow> run_events exec fs s')"
  by (induction es arbitrary: s) (auto split: option.splits)

locale service =
  fixes exec :: "'e \<Rightarrow> 's \<Rightarrow> 's option" and inv :: "'s \<Rightarrow> bool" and admissible :: "'e \<Rightarrow> bool"
  assumes exec_safe: "inv s \<Longrightarrow> admissible e \<Longrightarrow> \<exists>s'. exec e s = Some s' \<and> inv s'"
begin

lemma run_safe: "inv s \<Longrightarrow> list_all admissible es \<Longrightarrow> \<exists>s'. run_events exec es s = Some s' \<and> inv s'"
proof (induction es arbitrary: s)
  case (Cons e es)
  obtain s1 where "exec e s = Some s1" "inv s1" using exec_safe [of s e] Cons.prems by auto
  then show ?case using Cons by auto
qed simp

text \<open>What one event does not touch, a run does not touch.\<close>

lemma run_keeps:
  assumes "\<And>s e s'. inv s \<Longrightarrow> admissible e \<Longrightarrow> exec e s = Some s' \<Longrightarrow> f s' = f s"
  shows "inv s \<Longrightarrow> list_all admissible es \<Longrightarrow> run_events exec es s = Some s' \<Longrightarrow> f s' = f s"
proof (induction es arbitrary: s)
  case (Cons e es)
  obtain s1 where s1: "exec e s = Some s1" "inv s1" using exec_safe [of s e] Cons.prems by auto
  then have "f s' = f s1" using Cons by simp
  then show ?case using assms [of s e s1] s1 Cons.prems by simp
qed simp

end

end
