(* ===== verification/Co_Rpdo.thy ===== *)
theory Co_Rpdo
  imports Co_Pdo_Bits Runs
begin

text \<open>
  The Receive-PDO service (\<open>upstream/src/co/rpdo.c\<close>): its parameters and the writes to them, the frame that waits
  for the next SYNC, the deadline monitoring and the synchronous window. Timers are the absolute times, in
  nanoseconds, at which they expire. The indication and the error callback are flags, and what they are called with is
  appended to the output. The parameter records are written through their own indication functions, so the values come
  as words, already read from the request.
\<close>

unbundle bit_operations_syntax

section \<open>Model\<close>

datatype pdo_out =
    Out_ind u32 bytes nat \<comment> \<open>abort code, data, number of bytes\<close>
  | Out_err u16 u8 \<comment> \<open>emergency error code and error register\<close>
  | Out_frame can_msg \<comment> \<open>a frame given to the network\<close>
  | Out_sample \<comment> \<open>the sampling indication of the application\<close>

record rpdo =
  rp_dev :: co_device
  rp_num :: u16
  rp_stopped :: bool
  rp_comm :: co_pdo_comm_par
  rp_map :: co_pdo_map_par
  rp_recv :: "(u32 \<times> u8) option" \<comment> \<open>identifier and flags of the frame receiver\<close>
  rp_timer_event :: "nat option"
  rp_timer_swnd :: "nat option"
  rp_sync :: bool
  rp_swnd :: bool
  rp_msg :: can_msg
  rp_req :: co_sdo_req
  rp_ind :: bool
  rp_err :: bool
  rp_out :: "pdo_out list"

definition CAN_MSG_INIT :: can_msg where
  "CAN_MSG_INIT = \<lparr>cm_id = 0, cm_flags = 0, cm_len = 0, cm_data = replicate 64 0\<rparr>"

definition pdo_valid :: "u32 \<Rightarrow> bool" where
  "pdo_valid cobid \<longleftrightarrow> cobid AND CO_PDO_COBID_VALID = 0"

definition pdo_key :: "u32 \<Rightarrow> u32 \<times> u8" where
  "pdo_key cobid = (if cobid AND CO_PDO_COBID_FRAME \<noteq> 0 then (cobid AND CAN_MASK_EID, CAN_FLAG_IDE) else (cobid AND CAN_MASK_BID, 0))"

text \<open>The parameters as the dictionary has them; \<open>map_of_od\<close> is the loop over the sub-objects of a mapping record.\<close>

definition idx_1400 :: "rpdo \<Rightarrow> u16" where "idx_1400 p = 0x1400 + rp_num p - 1"
definition idx_1600 :: "rpdo \<Rightarrow> u16" where "idx_1600 p = 0x1600 + rp_num p - 1"

definition comm_of_od :: "co_dev \<Rightarrow> u16 \<Rightarrow> co_pdo_comm_par" where
  "comm_of_od D idx = \<lparr>pc_n = co_dev_get_val_u8 D idx 0, pc_cobid = co_dev_get_val_u32 D idx 1, pc_trans = co_dev_get_val_u8 D idx 2,
     pc_inhibit = co_dev_get_val_u16 D idx 3, pc_event = co_dev_get_val_u16 D idx 5, pc_sync = co_dev_get_val_u8 D idx 6\<rparr>"

definition map_of_od :: "co_dev \<Rightarrow> u16 \<Rightarrow> co_pdo_map_par" where
  "map_of_od D idx = \<lparr>pm_n = co_dev_get_val_u8 D idx 0, pm_map = map (\<lambda>i. co_dev_get_val_u32 D idx (of_nat i)) [1..<65]\<rparr>"

definition co_rpdo_init_recv :: "rpdo \<Rightarrow> rpdo" where
  "co_rpdo_init_recv p = p\<lparr>rp_recv := if pdo_valid (pc_cobid (rp_comm p)) then Some (pdo_key (pc_cobid (rp_comm p))) else None\<rparr>"

definition co_rpdo_init_timer_event :: "nat \<Rightarrow> rpdo \<Rightarrow> rpdo" where
  "co_rpdo_init_timer_event now p = p\<lparr>rp_timer_event :=
     if pdo_valid (pc_cobid (rp_comm p)) \<and> pc_event (rp_comm p) \<noteq> 0 then Some (now + unat (pc_event (rp_comm p)) * 1000000) else None\<rparr>"

definition co_rpdo_init_timer_swnd :: "nat \<Rightarrow> rpdo \<Rightarrow> rpdo" where
  "co_rpdo_init_timer_swnd now p =
     (let swnd = co_dev_get_val_u32 (dv_od (rp_dev p)) 0x1007 0
      in p\<lparr>rp_timer_swnd := if pdo_valid (pc_cobid (rp_comm p)) \<and> pc_trans (rp_comm p) \<le> 0xf0 \<and> swnd \<noteq> 0 then Some (now + unat swnd * 1000) else None\<rparr>)"

definition co_rpdo_start :: "rpdo \<Rightarrow> rpdo" where
  "co_rpdo_start p =
     (if \<not> rp_stopped p then p
      else (co_rpdo_init_recv (p\<lparr>rp_comm := comm_of_od (dv_od (rp_dev p)) (idx_1400 p), rp_map := map_of_od (dv_od (rp_dev p)) (idx_1600 p),
              rp_sync := False, rp_swnd := False\<rparr>))\<lparr>rp_stopped := False\<rparr>)"

definition co_rpdo_stop :: "rpdo \<Rightarrow> rpdo" where
  "co_rpdo_stop p = (if rp_stopped p then p else p\<lparr>rp_timer_swnd := None, rp_timer_event := None, rp_recv := None, rp_stopped := True\<rparr>)"

text \<open>\<open>__co_rpdo_init\<close>; \<open>None\<close> when the number is out of range or a parameter record is missing.\<close>

definition co_rpdo_init :: "co_device \<Rightarrow> u16 \<Rightarrow> rpdo option" where
  "co_rpdo_init dev num =
     (if num = 0 \<or> num > CO_NUM_PDOS \<or> dv_od dev (0x1400 + num - 1) = None \<or> dv_od dev (0x1600 + num - 1) = None then None
      else Some (co_rpdo_start \<lparr>rp_dev = dev, rp_num = num, rp_stopped = True,
          rp_comm = \<lparr>pc_n = 0, pc_cobid = 0, pc_trans = 0, pc_inhibit = 0, pc_event = 0, pc_sync = 0\<rparr>, rp_map = \<lparr>pm_n = 0, pm_map = replicate 64 0\<rparr>,
          rp_recv = None, rp_timer_event = None, rp_timer_swnd = None, rp_sync = False, rp_swnd = False, rp_msg = CAN_MSG_INIT,
          rp_req = co_sdo_req_init, rp_ind = False, rp_err = False, rp_out = []\<rparr>))"

text \<open>\<open>co_rpdo_rtr\<close>: the frame it sends, if any.\<close>

definition co_rpdo_rtr :: "rpdo \<Rightarrow> can_msg option" where
  "co_rpdo_rtr p =
     (if \<not> pdo_valid (pc_cobid (rp_comm p)) then None
      else let (cid, flags) = pdo_key (pc_cobid (rp_comm p))
           in Some (CAN_MSG_INIT\<lparr>cm_id := cid, cm_flags := flags OR CAN_FLAG_RTR\<rparr>))"

definition co_rpdo_read_frame :: "heap \<Rightarrow> rpdo \<Rightarrow> can_msg \<Rightarrow> (u32 \<times> rpdo) option" where
  "co_rpdo_read_frame H p msg = do {
     let n = min (unat (cm_len msg)) CAN_MAX_LEN;
     (ac, dev, req) \<leftarrow> co_pdo_dn H (rp_map p) (rp_dev p) (rp_req p) (cm_data msg) n True;
     let out = (if rp_ind p then [Out_ind ac (take n (cm_data msg)) n] else []);
     let err = (if \<not> rp_err p then []
       else if ac = CO_SDO_AC_PDO_LEN then [Out_err 0x8210 0x10]
       else if ac = 0 \<and> pm_n (rp_map p) \<le> CO_PDO_NUM_MAPS then (if (pdo_bits (map_entries (rp_map p)) + 7) div 8 < n then [Out_err 0x8220 0x10] else [])
       else if (ac = CO_SDO_AC_NO_OBJ \<or> ac = CO_SDO_AC_NO_SUB) \<and> pm_n (rp_map p) = 0xff then [Out_err 0x8230 0x10]
       else []);
     Some (ac, p\<lparr>rp_dev := dev, rp_req := req, rp_out := rp_out p @ out @ err\<rparr>) }"

text \<open>\<open>co_rpdo_sync\<close>, with its result.\<close>

definition co_rpdo_sync :: "heap \<Rightarrow> nat \<Rightarrow> u8 \<Rightarrow> rpdo \<Rightarrow> (int \<times> rpdo) option" where
  "co_rpdo_sync H now cnt p =
     (if cnt > 240 then Some (-1, p)
      else if pc_trans (rp_comm p) > 0xf0 then Some (0, p)
      else let p = co_rpdo_init_timer_swnd now (p\<lparr>rp_swnd := False\<rparr>)
           in if \<not> rp_sync p then Some (0, p)
              else do {
                (ac, p) \<leftarrow> co_rpdo_read_frame H (p\<lparr>rp_sync := False\<rparr>) (rp_msg p);
                Some (if ac \<noteq> 0 then -1 else 0, p) })"

text \<open>\<open>co_rpdo_recv\<close>; the result says whether other receivers may still process the frame.\<close>

definition co_rpdo_recv :: "heap \<Rightarrow> nat \<Rightarrow> can_msg \<Rightarrow> rpdo \<Rightarrow> (int \<times> rpdo) option" where
  "co_rpdo_recv H now msg p =
     (let p = co_rpdo_init_timer_event now p
      in if pc_trans (rp_comm p) \<le> 0xf0 then Some (0, if \<not> rp_swnd p then p\<lparr>rp_sync := True, rp_msg := msg\<rparr> else p)
         else if pc_trans (rp_comm p) \<ge> 0xfe then do { (_, p) \<leftarrow> co_rpdo_read_frame H p msg; Some (1, p) }
         else Some (0, p))"

definition co_rpdo_timer_event :: "rpdo \<Rightarrow> rpdo" where
  "co_rpdo_timer_event p = p\<lparr>rp_timer_event := None, rp_out := rp_out p @ (if rp_err p then [Out_err 0x8250 0x10] else [])\<rparr>"

definition co_rpdo_timer_swnd :: "rpdo \<Rightarrow> rpdo" where
  "co_rpdo_timer_swnd p = p\<lparr>rp_timer_swnd := None, rp_swnd := True\<rparr>"

text \<open>A change of a COB-ID that the parameter records accept.\<close>

definition cobid_change_ok :: "u32 \<Rightarrow> u32 \<Rightarrow> bool" where
  "cobid_change_ok cobid old \<longleftrightarrow> \<not> (pdo_valid cobid \<and> pdo_valid old \<and> cobid AND CAN_MASK_EID \<noteq> old AND CAN_MASK_EID)
     \<and> \<not> (cobid AND CO_PDO_COBID_FRAME = 0 \<and> cobid AND (CAN_MASK_EID XOR CAN_MASK_BID) \<noteq> 0)"

definition od_write :: "co_device \<Rightarrow> u16 \<Rightarrow> u8 \<Rightarrow> bytes \<Rightarrow> co_device" where
  "od_write dev idx subidx v = dev\<lparr>dv_od := set_val (dv_od dev) idx subidx v\<rparr>"

definition od_put :: "co_device \<Rightarrow> u16 \<Rightarrow> u8 \<Rightarrow> bytes \<Rightarrow> co_device" where
  "od_put dev idx subidx v = dev\<lparr>dv_od := put_val (dv_od dev) idx subidx v\<rparr>"

definition co_1400_dn_ind :: "u8 \<Rightarrow> u32 \<Rightarrow> rpdo \<Rightarrow> u32 \<times> rpdo" where
  "co_1400_dn_ind subidx v p =
     (let D = dv_od (rp_dev p); idx = idx_1400 p; comm = rp_comm p
      in if subidx = 0 then (CO_SDO_AC_NO_WRITE, p)
         else if subidx = 1 then
           let old = co_dev_get_val_u32 D idx 1
           in if v = old then (0, p)
              else if \<not> cobid_change_ok v old then (CO_SDO_AC_PARAM_VAL, p)
              else (0, (co_rpdo_init_recv (p\<lparr>rp_comm := comm\<lparr>pc_cobid := v\<rparr>, rp_sync := False, rp_swnd := False\<rparr>))
                         \<lparr>rp_timer_swnd := None, rp_dev := od_write (rp_dev p) idx 1 (stle_u32 v)\<rparr>)
         else if subidx = 2 then
           let trans = ucast v :: u8
           in if trans = co_dev_get_val_u8 D idx 2 then (0, p)
              else if trans > 0xf0 \<and> trans < 0xfe then (CO_SDO_AC_PARAM_VAL, p)
              else (0, p\<lparr>rp_comm := comm\<lparr>pc_trans := trans\<rparr>, rp_dev := od_write (rp_dev p) idx 2 [trans]\<rparr>)
         else if subidx = 3 then
           let inhibit = ucast v :: u16
           in if inhibit = co_dev_get_val_u16 D idx 3 then (0, p)
              else if pdo_valid (pc_cobid comm) then (CO_SDO_AC_PARAM_VAL, p)
              else (0, p\<lparr>rp_comm := comm\<lparr>pc_inhibit := inhibit\<rparr>, rp_dev := od_write (rp_dev p) idx 3 (stle_u16 inhibit)\<rparr>)
         else if subidx = 5 then
           let event = ucast v :: u16
           in if event = co_dev_get_val_u16 D idx 5 then (0, p)
              else (0, p\<lparr>rp_comm := comm\<lparr>pc_event := event\<rparr>, rp_dev := od_write (rp_dev p) idx 5 (stle_u16 event)\<rparr>)
         else (CO_SDO_AC_NO_SUB, p))"

text \<open>The check of the entries when a mapping is enabled: \<open>bits\<close> counts the bits used so far.\<close>

fun chk_map :: "(u16 \<Rightarrow> u8 \<Rightarrow> u32) \<Rightarrow> u32 list \<Rightarrow> nat \<Rightarrow> u32" where
  "chk_map chk [] bits = 0"
| "chk_map chk (m # r) bits =
     (if m = 0 then chk_map chk r bits
      else if bits + map_len m > CAN_MAX_LEN * 8 then CO_SDO_AC_PDO_LEN
      else if chk (map_idx m) (map_subidx m) \<noteq> 0 then chk (map_idx m) (map_subidx m)
      else chk_map chk r (bits + map_len m))"

text \<open>\<open>None\<close>: the sub-index lies outside of the array of entries.\<close>

definition co_1600_dn_ind :: "u8 \<Rightarrow> u32 \<Rightarrow> rpdo \<Rightarrow> (u32 \<times> rpdo) option" where
  "co_1600_dn_ind subidx v p =
     (let D = dv_od (rp_dev p); idx = idx_1600 p; valid = pdo_valid (pc_cobid (rp_comm p)); chk = co_dev_chk_rpdo (rp_dev p)
      in if subidx = 0 then
           let n = ucast v :: u8;
               ac = (if n \<le> CO_PDO_NUM_MAPS then chk_map chk (take (unat n) (pm_map (rp_map p))) 0
                     else if n \<noteq> CO_PDO_MAP_SAM_MPDO \<and> n \<noteq> CO_PDO_MAP_DAM_MPDO then CO_SDO_AC_PARAM_VAL else 0)
           in if n = co_dev_get_val_u8 D idx 0 then Some (0, p)
              else if valid then Some (CO_SDO_AC_PARAM_VAL, p)
              else if ac \<noteq> 0 then Some (ac, p)
              else Some (0, p\<lparr>rp_map := (rp_map p)\<lparr>pm_n := n\<rparr>, rp_dev := od_write (rp_dev p) idx 0 [n]\<rparr>)
         else
           let ac = (if v \<noteq> 0 then chk (map_idx v) (map_subidx v) else 0)
           in if v = co_dev_get_val_u32 D idx subidx then Some (0, p)
              else if valid \<or> pm_n (rp_map p) \<noteq> 0 then Some (CO_SDO_AC_PARAM_VAL, p)
              else if ac \<noteq> 0 then Some (ac, p)
              else if subidx > CO_PDO_NUM_MAPS then None
              else Some (0, p\<lparr>rp_map := (rp_map p)\<lparr>pm_map := (pm_map (rp_map p))[unat subidx - 1 := v]\<rparr>, rp_dev := od_write (rp_dev p) idx subidx (stle_u32 v)\<rparr>))"

section \<open>What a received frame leaves alone\<close>

text \<open>An object none of whose sub-objects may be mapped into a PDO.\<close>

definition protected :: "co_device \<Rightarrow> u16 \<Rightarrow> bool" where
  "protected dev idx \<longleftrightarrow> \<not> co_type_is_basic idx \<and> (\<forall>subidx sb. co_dev_find_sub (dv_od dev) idx subidx = Some sb \<longrightarrow> \<not> sub_mapping sb)"

definition same_at :: "co_device \<Rightarrow> co_device \<Rightarrow> u16 \<Rightarrow> bool" where
  "same_at dev dev' idx \<longleftrightarrow> (\<forall>subidx. co_dev_find_sub (dv_od dev') idx subidx = co_dev_find_sub (dv_od dev) idx subidx)"

lemma same_at_refl [simp]: "same_at dev dev idx"
  by (simp add: same_at_def)

lemma same_at_trans: "same_at a b idx \<Longrightarrow> same_at b c idx \<Longrightarrow> same_at a c idx"
  by (simp add: same_at_def)

lemma same_at_protected: "same_at a b idx \<Longrightarrow> protected b idx = protected a idx"
  by (simp add: same_at_def protected_def)

lemma chk_rpdo_protected:
  assumes "co_dev_chk_rpdo dev idx subidx = 0" "co_dev_find_sub (dv_od dev) idx subidx = Some sb" "protected dev i"
  shows "i \<noteq> idx"
proof
  assume "i = idx"
  have "CO_SDO_AC_NO_PDO \<noteq> 0" "CO_SDO_AC_NO_WRITE \<noteq> 0" by (simp_all add: CO_SDO_AC_NO_PDO_def CO_SDO_AC_NO_WRITE_def)
  then show False using assms \<open>i = idx\<close>
    by (auto simp: co_dev_chk_rpdo_def protected_def co_dev_find_sub_def split: if_splits option.splits)
qed

lemma dev_dn_protects:
  assumes "dev_dn H dev idx subidx sb n v req = Some (ac, dev', req')" "i \<noteq> idx"
  shows "same_at dev dev' i"
  using assms by (auto simp: dev_dn_def same_at_def find_sub_set_val split: prod.splits option.splits)

lemma dn_loop_protects:
  assumes "pdo_dn_loop H ms off dev req b n True = Some (ac, dev', req')" "protected dev i"
  shows "same_at dev dev' i"
  using assms
proof (induction ms arbitrary: off dev req)
  case (Cons m ms)
  show ?case
  proof (cases "m = 0 \<or> off + map_len m > n * 8 \<or> co_dev_chk_rpdo dev (map_idx m) (map_subidx m) \<noteq> 0")
    case True
    then show ?thesis using Cons by (auto simp: Let_def split: if_splits)
  next
    case False
    show ?thesis
    proof (cases "co_dev_find_sub (dv_od dev) (map_idx m) (map_subidx m)")
      case None
      then show ?thesis using Cons False by (auto simp: Let_def)
    next
      case (Some sb)
      obtain tmp ac1 dev1 req1 where dn: "dev_dn H dev (map_idx m) (map_subidx m) sb ((map_len m + 7) div 8) tmp req = Some (ac1, dev1, req1)"
        and rest: "(if ac1 \<noteq> 0 then Some (ac1, dev1, req1) else pdo_dn_loop H ms (off + map_len m) dev1 req1 b n True) = Some (ac, dev', req')"
        using Cons.prems(1) False Some by (auto simp: Let_def split: bind_splits prod.splits)
      have "i \<noteq> map_idx m" using chk_rpdo_protected [OF _ Some Cons.prems(2)] False by simp
      then have 1: "same_at dev dev1 i" by (rule dev_dn_protects [OF dn])
      then have "protected dev1 i" using Cons.prems(2) same_at_protected by blast
      then have "same_at dev1 dev' i" using rest Cons.IH by (auto split: if_splits)
      then show ?thesis using 1 same_at_trans by blast
    qed
  qed
qed simp

lemma mpdo_dn_protects:
  assumes "co_mpdo_dn H par dev req b n = Some (ac, dev', req')" "protected dev i"
  shows "same_at dev dev' i"
  using assms
  by (auto simp: co_mpdo_dn_def Let_def split: if_splits option.splits prod.splits dest!: dev_dn_protects [where i = i] dest: chk_rpdo_protected)

lemma pdo_dn_protects:
  assumes "co_pdo_dn H par dev req b n True = Some (ac, dev', req')" "protected dev i"
  shows "same_at dev dev' i"
  using assms by (auto simp: co_pdo_dn_def split: if_splits intro: dn_loop_protects mpdo_dn_protects)

text \<open>A frame with room behind its eight bytes is always processed to the end.\<close>

lemma dev_dn_total: "k \<le> length v \<Longrightarrow> k \<le> 8 \<Longrightarrow> \<exists>x. dev_dn H dev idx subidx sb k v req = Some x"
  using dev_dn_whole by blast

lemma dn_loop_total:
  assumes "n \<le> 8" "8 < length b"
  shows "\<exists>x. pdo_dn_loop H ms off dev req b n chk = Some x"
proof (induction ms arbitrary: off dev req)
  case (Cons m ms)
  show ?case
  proof (cases "off + map_len m \<le> 8 * n")
    case True
    obtain tmp where tmp: "bcpyle (replicate 8 0) 0 b off (map_len m) = Some tmp" "length tmp = 8"
      using unpack_step [OF True assms(1), of b] assms by auto
    have "(map_len m + 7) div 8 \<le> 8" using frame_bytes [of "map_len m" 8] True assms by auto
    then have "\<exists>x. dev_dn H dev (map_idx m) (map_subidx m) sb ((map_len m + 7) div 8) tmp req = Some x" for sb
      using dev_dn_total tmp(2) by simp
    then show ?thesis using tmp(1) Cons True
      by (auto simp: Let_def CAN_MAX_LEN_def split: option.split bind_split prod.split) (metis option.distinct(1) prod.exhaust)+
  next
    case False
    then show ?thesis using Cons [of off dev req] by (simp add: Let_def ac_simps)
  qed
qed simp

lemma mpdo_dn_total:
  assumes "8 \<le> length b"
  shows "\<exists>x. co_mpdo_dn H par dev req b n = Some x"
proof -
  have "\<exists>x. dev_dn H dev idx subidx sb k (drop 4 b) req = Some x" if "k \<le> 4" for idx subidx sb k
    using dev_dn_total assms that by simp
  then show ?thesis by (auto simp: co_mpdo_dn_def Let_def split: option.split prod.split)
qed

lemma pdo_dn_total: "n \<le> CAN_MAX_LEN \<Longrightarrow> CAN_MAX_LEN < length b \<Longrightarrow> \<exists>x. co_pdo_dn H par dev req b n chk = Some x"
  using dn_loop_total [of n b H "map_entries par" 0 dev req chk] mpdo_dn_total [of b H par dev req n]
  by (auto simp: co_pdo_dn_def CAN_MAX_LEN_def)

section \<open>The parameters and the dictionary\<close>

text \<open>
  A sub-object, when there is one, has the type the service reads it with and does not refuse to be written: a refused write would
  change the parameters of the service but not the dictionary.
\<close>

definition typed :: "co_dev \<Rightarrow> u16 \<Rightarrow> u8 \<Rightarrow> u16 \<Rightarrow> bool" where
  "typed D idx subidx type \<longleftrightarrow> (case co_dev_find_sub D idx subidx of None \<Rightarrow> True | Some sb \<Rightarrow> sub_type sb = type \<and> \<not> sub_refuse sb)"

definition map_sized :: "co_dev \<Rightarrow> u16 \<Rightarrow> bool" where
  "map_sized D idx \<longleftrightarrow> (\<forall>subidx. CO_PDO_NUM_MAPS < subidx \<longrightarrow> co_dev_find_sub D idx subidx = None)"

definition comm_typed :: "co_dev \<Rightarrow> u16 \<Rightarrow> bool" where
  "comm_typed D idx \<longleftrightarrow> typed D idx 1 CO_DEFTYPE_UNSIGNED32 \<and> typed D idx 2 CO_DEFTYPE_UNSIGNED8 \<and> typed D idx 3 CO_DEFTYPE_UNSIGNED16
     \<and> typed D idx 5 CO_DEFTYPE_UNSIGNED16 \<and> typed D idx 6 CO_DEFTYPE_UNSIGNED8"

definition map_typed :: "co_dev \<Rightarrow> u16 \<Rightarrow> bool" where
  "map_typed D idx \<longleftrightarrow> typed D idx 0 CO_DEFTYPE_UNSIGNED8 \<and> (\<forall>subidx. subidx \<noteq> 0 \<longrightarrow> typed D idx subidx CO_DEFTYPE_UNSIGNED32)"

lemma typed_set_val [simp]: "typed (set_val D i s v) idx subidx type = typed D idx subidx type"
  by (auto simp: typed_def find_sub_set_val split: option.splits)

lemma get_set_val:
  "co_dev_get_val_u8 (set_val D i s v) idx subidx =
     (if idx = i \<and> subidx = s \<and> co_dev_find_sub D i s \<noteq> None \<and> typed D i s CO_DEFTYPE_UNSIGNED8 then v ! 0 else co_dev_get_val_u8 D idx subidx)"
  "co_dev_get_val_u16 (set_val D i s v) idx subidx =
     (if idx = i \<and> subidx = s \<and> co_dev_find_sub D i s \<noteq> None \<and> typed D i s CO_DEFTYPE_UNSIGNED16 then ldle_u16 v else co_dev_get_val_u16 D idx subidx)"
  "co_dev_get_val_u32 (set_val D i s v) idx subidx =
     (if idx = i \<and> subidx = s \<and> co_dev_find_sub D i s \<noteq> None \<and> typed D i s CO_DEFTYPE_UNSIGNED32 then ldle_u32 v else co_dev_get_val_u32 D idx subidx)"
  by (auto simp: co_dev_get_val_u8_def co_sub_get_val_u8_def co_dev_get_val_u16_def co_sub_get_val_u16_def co_dev_get_val_u32_def
      co_sub_get_val_u32_def sub_bytes_def find_sub_set_val typed_def split: option.splits)

lemma same_at_get:
  assumes "same_at dev dev' idx"
  shows "comm_of_od (dv_od dev') idx = comm_of_od (dv_od dev) idx" "map_of_od (dv_od dev') idx = map_of_od (dv_od dev) idx"
    "comm_typed (dv_od dev') idx = comm_typed (dv_od dev) idx" "map_typed (dv_od dev') idx = map_typed (dv_od dev) idx"
  using assms by (simp_all add: same_at_def comm_of_od_def map_of_od_def comm_typed_def map_typed_def typed_def
      co_dev_get_val_u8_def co_dev_get_val_u16_def co_dev_get_val_u32_def)

text \<open>Writing one sub-object of a parameter record updates the field that mirrors it.\<close>

lemma comm_set_val:
  assumes "comm_typed D idx" "co_dev_find_sub D idx s \<noteq> None"
  shows "s = 1 \<Longrightarrow> comm_of_od (set_val D idx s (stle_u32 x)) idx = (comm_of_od D idx)\<lparr>pc_cobid := x\<rparr>"
    and "s = 2 \<Longrightarrow> comm_of_od (set_val D idx s [y]) idx = (comm_of_od D idx)\<lparr>pc_trans := y\<rparr>"
    and "s = 3 \<Longrightarrow> comm_of_od (set_val D idx s (stle_u16 z)) idx = (comm_of_od D idx)\<lparr>pc_inhibit := z\<rparr>"
    and "s = 5 \<Longrightarrow> comm_of_od (set_val D idx s (stle_u16 z)) idx = (comm_of_od D idx)\<lparr>pc_event := z\<rparr>"
    and "s = 6 \<Longrightarrow> comm_of_od (set_val D idx s [y]) idx = (comm_of_od D idx)\<lparr>pc_sync := y\<rparr>"
  using assms by (simp_all add: comm_of_od_def get_set_val comm_typed_def)

lemma map_set_val:
  assumes "map_typed D idx" "co_dev_find_sub D idx s \<noteq> None"
  shows "s = 0 \<Longrightarrow> map_of_od (set_val D idx s [y]) idx = (map_of_od D idx)\<lparr>pm_n := y\<rparr>"
    and "s \<noteq> 0 \<Longrightarrow> unat s \<le> 64 \<Longrightarrow> map_of_od (set_val D idx s (stle_u32 x)) idx = (map_of_od D idx)\<lparr>pm_map := (pm_map (map_of_od D idx))[unat s - 1 := x]\<rparr>"
proof -
  have eq: "(of_nat i = s) = (i = unat s)" if "i < 65" for i using that by (auto simp: unat_of_nat)
  show "map_of_od (set_val D idx s [y]) idx = (map_of_od D idx)\<lparr>pm_n := y\<rparr>" if "s = 0"
    using assms that eq by (auto simp: map_of_od_def get_set_val map_typed_def simp del: upt_rec_numeral)
  assume s: "s \<noteq> 0" "unat s \<le> 64"
  have 1: "0 < unat s" using s(1) by (simp add: unat_gt_0)
  have "map (\<lambda>i. co_dev_get_val_u32 (set_val D idx s (stle_u32 x)) idx (of_nat i)) [1..<65] =
      (map (\<lambda>i. co_dev_get_val_u32 D idx (of_nat i)) [1..<65])[unat s - 1 := x]"
  proof (rule nth_equalityI)
    fix i assume "i < length (map (\<lambda>i. co_dev_get_val_u32 (set_val D idx s (stle_u32 x)) idx (of_nat i)) [1..<65])"
    then have "i < 64" by simp
    then show "map (\<lambda>i. co_dev_get_val_u32 (set_val D idx s (stle_u32 x)) idx (of_nat i)) [1..<65] ! i =
        (map (\<lambda>i. co_dev_get_val_u32 D idx (of_nat i)) [1..<65])[unat s - 1 := x] ! i"
      using assms s 1 eq [of "Suc i"] by (auto simp: get_set_val map_typed_def nth_list_update simp del: upt_rec_numeral)
  qed simp
  then show "map_of_od (set_val D idx s (stle_u32 x)) idx = (map_of_od D idx)\<lparr>pm_map := (pm_map (map_of_od D idx))[unat s - 1 := x]\<rparr>"
    using s assms by (simp add: map_of_od_def get_set_val map_typed_def)
qed

section \<open>Runs of the service\<close>

text \<open>
  The events of a Receive-PDO: the calls of the application, a frame on the bus, a SYNC, the expiry of a timer, and writes to the
  parameter records while the indication functions are installed. A frame is delivered if the receiver is registered for it.
\<close>

datatype rpdo_event =
    R_start | R_stop | R_recv nat can_msg | R_sync nat u8 | R_timer_event | R_timer_swnd | R_1400 u8 u32 | R_1600 u8 u32

definition pdo_hears :: "(u32 \<times> u8) option \<Rightarrow> can_msg \<Rightarrow> bool" where
  "pdo_hears recv msg \<longleftrightarrow> recv = Some (cm_id msg, cm_flags msg)"

fun rpdo_exec :: "heap \<Rightarrow> rpdo_event \<Rightarrow> rpdo \<Rightarrow> rpdo option" where
  "rpdo_exec H R_start p = Some (co_rpdo_start p)"
| "rpdo_exec H R_stop p = Some (co_rpdo_stop p)"
| "rpdo_exec H (R_recv now msg) p = (if pdo_hears (rp_recv p) msg then map_option snd (co_rpdo_recv H now msg p) else Some p)"
| "rpdo_exec H (R_sync now cnt) p = map_option snd (co_rpdo_sync H now cnt p)"
| "rpdo_exec H R_timer_event p = Some (if rp_timer_event p = None then p else co_rpdo_timer_event p)"
| "rpdo_exec H R_timer_swnd p = Some (if rp_timer_swnd p = None then p else co_rpdo_timer_swnd p)"
| "rpdo_exec H (R_1400 s v) p =
     (if rp_stopped p \<or> co_dev_find_sub (dv_od (rp_dev p)) (idx_1400 p) s = None then Some p else Some (snd (co_1400_dn_ind s v p)))"
| "rpdo_exec H (R_1600 s v) p =
     (if rp_stopped p \<or> co_dev_find_sub (dv_od (rp_dev p)) (idx_1600 p) s = None then Some p else map_option snd (co_1600_dn_ind s v p))"

fun rpdo_admissible :: "rpdo_event \<Rightarrow> bool" where
  "rpdo_admissible (R_recv now msg) = (CAN_MAX_LEN < length (cm_data msg))"
| "rpdo_admissible (R_1600 s v) = (s \<le> CO_PDO_NUM_MAPS)"
| "rpdo_admissible _ = True"

text \<open>
  While the service runs, its parameters are those of the dictionary, and it listens exactly when its PDO is valid, to the identifier of its
  COB-ID; a stopped service listens to nothing.
\<close>

definition recv_of :: "u32 \<Rightarrow> (u32 \<times> u8) option" where
  "recv_of cobid = (if pdo_valid cobid then Some (pdo_key cobid) else None)"

definition rpdo_mirrors :: "rpdo \<Rightarrow> bool" where
  "rpdo_mirrors p \<longleftrightarrow>
     (if rp_stopped p then rp_recv p = None
      else rp_comm p = comm_of_od (dv_od (rp_dev p)) (idx_1400 p) \<and> rp_map p = map_of_od (dv_od (rp_dev p)) (idx_1600 p)
        \<and> rp_recv p = recv_of (pc_cobid (rp_comm p)))"

definition rpdo_inv :: "rpdo \<Rightarrow> bool" where
  "rpdo_inv p \<longleftrightarrow> rpdo_mirrors p \<and> CAN_MAX_LEN < length (cm_data (rp_msg p))
     \<and> protected (rp_dev p) (idx_1400 p) \<and> protected (rp_dev p) (idx_1600 p)
     \<and> comm_typed (dv_od (rp_dev p)) (idx_1400 p) \<and> map_typed (dv_od (rp_dev p)) (idx_1600 p)"

lemma idx_distinct [simp]: "idx_1400 p \<noteq> idx_1600 p" "idx_1600 p \<noteq> idx_1400 p"
  by (simp_all add: idx_1400_def idx_1600_def)

lemma idx_num: "rp_num p = rp_num q \<Longrightarrow> idx_1400 p = idx_1400 q \<and> idx_1600 p = idx_1600 q"
  by (simp add: idx_1400_def idx_1600_def)

lemma idx_update [simp]:
  "idx_1400 (p\<lparr>rp_dev := d\<rparr>) = idx_1400 p" "idx_1600 (p\<lparr>rp_dev := d\<rparr>) = idx_1600 p"
  "idx_1400 (p\<lparr>rp_comm := c\<rparr>) = idx_1400 p" "idx_1600 (p\<lparr>rp_comm := c\<rparr>) = idx_1600 p"
  "idx_1400 (p\<lparr>rp_map := m\<rparr>) = idx_1400 p" "idx_1600 (p\<lparr>rp_map := m\<rparr>) = idx_1600 p"
  "idx_1400 (p\<lparr>rp_recv := r\<rparr>) = idx_1400 p" "idx_1600 (p\<lparr>rp_recv := r\<rparr>) = idx_1600 p"
  "idx_1400 (p\<lparr>rp_stopped := b\<rparr>) = idx_1400 p" "idx_1600 (p\<lparr>rp_stopped := b\<rparr>) = idx_1600 p"
  "idx_1400 (p\<lparr>rp_timer_event := t\<rparr>) = idx_1400 p" "idx_1600 (p\<lparr>rp_timer_event := t\<rparr>) = idx_1600 p"
  "idx_1400 (p\<lparr>rp_timer_swnd := t\<rparr>) = idx_1400 p" "idx_1600 (p\<lparr>rp_timer_swnd := t\<rparr>) = idx_1600 p"
  "idx_1400 (p\<lparr>rp_sync := b\<rparr>) = idx_1400 p" "idx_1600 (p\<lparr>rp_sync := b\<rparr>) = idx_1600 p"
  "idx_1400 (p\<lparr>rp_swnd := b\<rparr>) = idx_1400 p" "idx_1600 (p\<lparr>rp_swnd := b\<rparr>) = idx_1600 p"
  "idx_1400 (p\<lparr>rp_msg := x\<rparr>) = idx_1400 p" "idx_1600 (p\<lparr>rp_msg := x\<rparr>) = idx_1600 p"
  "idx_1400 (p\<lparr>rp_req := q\<rparr>) = idx_1400 p" "idx_1600 (p\<lparr>rp_req := q\<rparr>) = idx_1600 p"
  "idx_1400 (p\<lparr>rp_out := os\<rparr>) = idx_1400 p" "idx_1600 (p\<lparr>rp_out := os\<rparr>) = idx_1600 p"
  by (simp_all add: idx_1400_def idx_1600_def)

lemma od_write_od [simp]: "dv_od (od_write dev i s v) = set_val (dv_od dev) i s v" "dv_od (od_put dev i s v) = put_val (dv_od dev) i s v"
  by (simp_all add: od_write_def od_put_def)

lemma protected_od_write: "protected (od_write dev i s v) idx = protected dev idx"
proof -
  have "protected e idx \<longleftrightarrow> \<not> co_type_is_basic idx \<and> (\<forall>k. map_option sub_mapping (co_dev_find_sub (dv_od e) idx k) \<noteq> Some True)" for e
    by (auto simp: protected_def)
  moreover have "map_option sub_mapping (co_dev_find_sub (set_val D i s v) idx k) = map_option sub_mapping (co_dev_find_sub D idx k)" for D k
    by (simp add: find_sub_set_val option.map_comp o_def)
  ultimately show ?thesis by (simp only: od_write_od)
qed

lemma get_put_val:
  "co_dev_get_val_u8 (put_val D i s v) idx subidx =
     (if idx = i \<and> subidx = s \<and> map_option sub_type (co_dev_find_sub D i s) = Some CO_DEFTYPE_UNSIGNED8 then v ! 0 else co_dev_get_val_u8 D idx subidx)"
  "co_dev_get_val_u16 (put_val D i s v) idx subidx =
     (if idx = i \<and> subidx = s \<and> map_option sub_type (co_dev_find_sub D i s) = Some CO_DEFTYPE_UNSIGNED16 then ldle_u16 v else co_dev_get_val_u16 D idx subidx)"
  "co_dev_get_val_u32 (put_val D i s v) idx subidx =
     (if idx = i \<and> subidx = s \<and> map_option sub_type (co_dev_find_sub D i s) = Some CO_DEFTYPE_UNSIGNED32 then ldle_u32 v else co_dev_get_val_u32 D idx subidx)"
  by (auto simp: co_dev_get_val_u8_def co_sub_get_val_u8_def co_dev_get_val_u16_def co_sub_get_val_u16_def co_dev_get_val_u32_def
      co_sub_get_val_u32_def sub_bytes_def find_sub_put_val split: option.splits)

lemma typed_put_val [simp]: "typed (put_val D i s v) idx subidx type = typed D idx subidx type"
  by (auto simp: typed_def find_sub_put_val split: option.splits)

lemma put_val_elsewhere: "idx \<noteq> i \<Longrightarrow> co_dev_find_sub (put_val D i s v) idx subidx = co_dev_find_sub D idx subidx"
  by (simp add: find_sub_put_val)

lemma other_put_val:
  "idx \<noteq> i \<Longrightarrow> comm_of_od (put_val D i s v) idx = comm_of_od D idx" "idx \<noteq> i \<Longrightarrow> map_of_od (put_val D i s v) idx = map_of_od D idx"
  "comm_typed (put_val D i s v) idx = comm_typed D idx" "map_typed (put_val D i s v) idx = map_typed D idx"
  by (simp_all add: comm_of_od_def map_of_od_def co_dev_get_val_u8_def co_dev_get_val_u16_def co_dev_get_val_u32_def put_val_elsewhere comm_typed_def map_typed_def)

lemma other_set_val:
  "idx \<noteq> i \<Longrightarrow> comm_of_od (set_val D i s v) idx = comm_of_od D idx" "idx \<noteq> i \<Longrightarrow> map_of_od (set_val D i s v) idx = map_of_od D idx"
  "comm_typed (set_val D i s v) idx = comm_typed D idx" "map_typed (set_val D i s v) idx = map_typed D idx"
  by (simp_all add: comm_of_od_def map_of_od_def get_set_val comm_typed_def map_typed_def)

lemma read_frame_inv:
  assumes "rpdo_inv p" "CAN_MAX_LEN < length (cm_data msg)"
  shows "\<exists>ac p'. co_rpdo_read_frame H p msg = Some (ac, p') \<and> rpdo_inv p'"
proof -
  let ?n = "min (unat (cm_len msg)) CAN_MAX_LEN"
  obtain ac dev req where dn: "co_pdo_dn H (rp_map p) (rp_dev p) (rp_req p) (cm_data msg) ?n True = Some (ac, dev, req)"
    using pdo_dn_total [of ?n "cm_data msg" H "rp_map p" "rp_dev p" "rp_req p" True] assms(2) by auto
  have same: "same_at (rp_dev p) dev (idx_1400 p)" "same_at (rp_dev p) dev (idx_1600 p)"
    using pdo_dn_protects [OF dn] assms(1) by (auto simp: rpdo_inv_def)
  then show ?thesis using assms(1) dn same_at_get [OF same(1)] same_at_get [OF same(2)] same_at_protected [OF same(1)] same_at_protected [OF same(2)]
    by (auto simp: co_rpdo_read_frame_def rpdo_inv_def rpdo_mirrors_def Let_def)
qed

text \<open>Changes that the invariant does not see.\<close>

lemma rpdo_inv_update [simp]:
  "rpdo_inv (p\<lparr>rp_timer_event := t\<rparr>) = rpdo_inv p" "rpdo_inv (p\<lparr>rp_timer_swnd := t\<rparr>) = rpdo_inv p"
  "rpdo_inv (p\<lparr>rp_sync := b\<rparr>) = rpdo_inv p" "rpdo_inv (p\<lparr>rp_swnd := b\<rparr>) = rpdo_inv p" "rpdo_inv (p\<lparr>rp_out := os\<rparr>) = rpdo_inv p"
  by (simp_all add: rpdo_inv_def rpdo_mirrors_def)

lemma rpdo_start_inv: "rpdo_inv p \<Longrightarrow> rpdo_inv (co_rpdo_start p)"
  by (simp add: co_rpdo_start_def co_rpdo_init_recv_def rpdo_inv_def rpdo_mirrors_def recv_of_def)

lemma stop_rpdo_inv: "rpdo_inv p \<Longrightarrow> rpdo_inv (co_rpdo_stop p)"
  by (simp add: co_rpdo_stop_def rpdo_inv_def rpdo_mirrors_def)

lemma recv_rpdo_inv: "rpdo_inv p \<Longrightarrow> CAN_MAX_LEN < length (cm_data msg) \<Longrightarrow> \<exists>x p'. co_rpdo_recv H now msg p = Some (x, p') \<and> rpdo_inv p'"
proof -
  assume inv: "rpdo_inv p" and len: "CAN_MAX_LEN < length (cm_data msg)"
  let ?p = "co_rpdo_init_timer_event now p"
  have p: "rpdo_inv ?p" using inv by (simp add: co_rpdo_init_timer_event_def)
  have "rpdo_inv (?p\<lparr>rp_sync := True, rp_msg := msg\<rparr>)" using p len by (simp add: rpdo_inv_def rpdo_mirrors_def)
  then show ?thesis using p read_frame_inv [OF p len, of H] by (auto simp: co_rpdo_recv_def Let_def)
qed

lemma sync_rpdo_inv: "rpdo_inv p \<Longrightarrow> \<exists>x p'. co_rpdo_sync H now cnt p = Some (x, p') \<and> rpdo_inv p'"
proof -
  assume inv: "rpdo_inv p"
  let ?p = "co_rpdo_init_timer_swnd now (p\<lparr>rp_swnd := False\<rparr>)"
  have p: "rpdo_inv ?p" "rpdo_inv (?p\<lparr>rp_sync := False\<rparr>)" "rp_msg ?p = rp_msg p"
    using inv by (simp_all add: co_rpdo_init_timer_swnd_def Let_def)
  have len: "CAN_MAX_LEN < length (cm_data (rp_msg p))" using inv by (simp add: rpdo_inv_def)
  obtain ac p' where "co_rpdo_read_frame H (?p\<lparr>rp_sync := False\<rparr>) (rp_msg ?p) = Some (ac, p')" "rpdo_inv p'"
    using read_frame_inv [OF p(2) len, of H] p(3) by auto
  then show ?thesis using p(1) inv by (auto simp: co_rpdo_sync_def Let_def)
qed

lemma dn_1400_inv:
  assumes "rpdo_inv p" "\<not> rp_stopped p" "co_dev_find_sub (dv_od (rp_dev p)) (idx_1400 p) s \<noteq> None"
  shows "rpdo_inv (snd (co_1400_dn_ind s v p))"
proof -
  have c: "comm_typed (dv_od (rp_dev p)) (idx_1400 p)" using assms(1) by (simp add: rpdo_inv_def)
  show ?thesis using assms comm_set_val [OF c assms(3)]
    by (auto simp: co_1400_dn_ind_def Let_def rpdo_inv_def rpdo_mirrors_def co_rpdo_init_recv_def recv_of_def other_set_val protected_od_write)
qed

lemma dn_1600_inv:
  assumes "rpdo_inv p" "\<not> rp_stopped p" "co_dev_find_sub (dv_od (rp_dev p)) (idx_1600 p) s \<noteq> None" "s \<le> CO_PDO_NUM_MAPS"
  shows "\<exists>x p'. co_1600_dn_ind s v p = Some (x, p') \<and> rpdo_inv p'"
proof -
  have c: "map_typed (dv_od (rp_dev p)) (idx_1600 p)" using assms(1) by (simp add: rpdo_inv_def)
  have n: "unat s \<le> 64" using assms(4) by (simp add: CO_PDO_NUM_MAPS_def word_le_nat_alt)
  note unf = co_1600_dn_ind_def Let_def rpdo_inv_def rpdo_mirrors_def other_set_val protected_od_write
  show ?thesis
  proof (cases "s = 0")
    case True
    then show ?thesis using assms map_set_val(1) [OF c assms(3)] by (simp add: unf)
  next
    case False
    then show ?thesis using assms map_set_val(2) [OF c assms(3) False n] leD [OF assms(4)] by (simp add: unf)
  qed
qed

interpretation rpdo: service "rpdo_exec H" rpdo_inv rpdo_admissible for H
proof
  fix p e assume p: "rpdo_inv p" and e: "rpdo_admissible e"
  show "\<exists>p'. rpdo_exec H e p = Some p' \<and> rpdo_inv p'"
  proof (cases e)
    case R_start
    then show ?thesis using rpdo_start_inv [OF p] by simp
  next
    case R_stop
    then show ?thesis using stop_rpdo_inv [OF p] by simp
  next
    case (R_recv now msg)
    then show ?thesis using recv_rpdo_inv [OF p, of msg H now] e p by auto
  next
    case (R_sync now cnt)
    then show ?thesis using sync_rpdo_inv [OF p, of H now cnt] by auto
  next
    case R_timer_event
    then show ?thesis using p by (simp add: co_rpdo_timer_event_def)
  next
    case R_timer_swnd
    then show ?thesis using p by (simp add: co_rpdo_timer_swnd_def)
  next
    case (R_1400 s v)
    then show ?thesis using p dn_1400_inv [OF p, of s v] by auto
  next
    case (R_1600 s v)
    then show ?thesis using p e dn_1600_inv [OF p, of s v] by auto
  qed
qed

lemma init_rpdo_inv:
  assumes "co_rpdo_init dev num = Some p" "protected dev (0x1400 + num - 1)" "protected dev (0x1600 + num - 1)"
    and "comm_typed (dv_od dev) (0x1400 + num - 1)" "map_typed (dv_od dev) (0x1600 + num - 1)"
  shows "rpdo_inv p"
proof -
  obtain q where q: "p = co_rpdo_start q" "rp_dev q = dev" "rp_num q = num" "rp_stopped q" "rp_recv q = None" "rp_msg q = CAN_MSG_INIT"
    using assms(1) by (auto simp: co_rpdo_init_def split: if_splits)
  have "rpdo_inv q" using q assms by (simp add: rpdo_inv_def rpdo_mirrors_def idx_1400_def idx_1600_def CAN_MSG_INIT_def CAN_MAX_LEN_def)
  then show ?thesis using q(1) rpdo_start_inv by simp
qed

text \<open>
  Every frame of a build with CAN FD has room behind its eight bytes. A write to a mapping entry that the service has no room for needs a
  sub-object with that sub-index.
\<close>

fun rpdo_event_ok :: "rpdo_event \<Rightarrow> bool" where
  "rpdo_event_ok (R_recv now msg) = (CAN_MAX_LEN < length (cm_data msg))"
| "rpdo_event_ok _ = True"

definition rpdo_sized :: "rpdo \<Rightarrow> bool" where
  "rpdo_sized p \<longleftrightarrow> rpdo_inv p \<and> map_sized (dv_od (rp_dev p)) (idx_1600 p)"

lemma map_sized_set_val [simp]: "map_sized (set_val D i s v) idx = map_sized D idx" "map_sized (put_val D i s v) idx = map_sized D idx"
proof -
  have "(co_dev_find_sub (set_val D i s v) idx k = None) = (co_dev_find_sub D idx k = None)"
    "(co_dev_find_sub (put_val D i s v) idx k = None) = (co_dev_find_sub D idx k = None)" for k
    by (simp_all add: find_sub_set_val find_sub_put_val)
  then show "map_sized (set_val D i s v) idx = map_sized D idx" "map_sized (put_val D i s v) idx = map_sized D idx" by (simp_all add: map_sized_def)
qed

lemma rpdo_exec_subs:
  assumes "rpdo_inv p" "rpdo_exec H e p = Some p'"
  shows "rp_num p' = rp_num p \<and> map_sized (dv_od (rp_dev p')) (idx_1600 p) = map_sized (dv_od (rp_dev p)) (idx_1600 p)"
proof -
  have read: "rp_num q' = rp_num q" "map_sized (dv_od (rp_dev q')) (idx_1600 p) = map_sized (dv_od (rp_dev p)) (idx_1600 p)"
    if "co_rpdo_read_frame H q m = Some (ac, q')" "rp_dev q = rp_dev p" for q q' m ac
  proof -
    note q = that
    obtain ac dev' req where dn: "co_pdo_dn H (rp_map q) (rp_dev p) (rp_req q) (cm_data m) (min (unat (cm_len m)) CAN_MAX_LEN) True = Some (ac, dev', req)"
      "rp_dev q' = dev'" "rp_num q' = rp_num q"
      using q by (auto simp: co_rpdo_read_frame_def Let_def split: option.splits prod.splits bind_splits)
    have "same_at (rp_dev p) dev' (idx_1600 p)" using pdo_dn_protects [OF dn(1)] assms(1) by (simp add: rpdo_inv_def)
    then show "rp_num q' = rp_num q" "map_sized (dv_od (rp_dev q')) (idx_1600 p) = map_sized (dv_od (rp_dev p)) (idx_1600 p)"
      using dn by (simp_all add: same_at_def map_sized_def)
  qed
  show ?thesis
  proof (cases e)
    case (R_recv now msg)
    then show ?thesis using assms(2)
      by (auto simp: co_rpdo_recv_def Let_def co_rpdo_init_timer_event_def split: if_splits bind_splits dest: read)
  next
    case (R_sync now cnt)
    then show ?thesis using assms(2)
      by (auto simp: co_rpdo_sync_def Let_def co_rpdo_init_timer_swnd_def split: if_splits bind_splits dest: read)
  next
    case (R_1400 s v)
    have "rp_num (snd (co_1400_dn_ind s v p)) = rp_num p"
      "map_sized (dv_od (rp_dev (snd (co_1400_dn_ind s v p)))) (idx_1600 p) = map_sized (dv_od (rp_dev p)) (idx_1600 p)"
      by (simp_all add: co_1400_dn_ind_def co_rpdo_init_recv_def Let_def)
    then show ?thesis using assms(2) R_1400 by (auto split: if_splits)
  next
    case (R_1600 s v)
    then show ?thesis using assms(2) by (auto simp: co_1600_dn_ind_def Let_def split: if_splits)
  qed (use assms(2) in \<open>auto simp: co_rpdo_start_def co_rpdo_stop_def co_rpdo_init_recv_def co_rpdo_timer_event_def co_rpdo_timer_swnd_def split: if_splits\<close>)
qed

interpretation rpdo_whole: service "rpdo_exec H" rpdo_sized rpdo_event_ok for H
proof
  fix p e assume p: "rpdo_sized p" and e: "rpdo_event_ok e"
  show "\<exists>p'. rpdo_exec H e p = Some p' \<and> rpdo_sized p'"
  proof (cases "rpdo_admissible e")
    case True
    then obtain p' where p': "rpdo_exec H e p = Some p'" "rpdo_inv p'" using rpdo.exec_safe [of p e H] p by (auto simp: rpdo_sized_def)
    have "rp_num p' = rp_num p" "map_sized (dv_od (rp_dev p')) (idx_1600 p)"
      using rpdo_exec_subs [OF _ p'(1)] p by (auto simp: rpdo_sized_def)
    then show ?thesis using p' idx_num [of p' p] by (simp add: rpdo_sized_def)
  next
    case False
    then obtain s v where "e = R_1600 s v" "CO_PDO_NUM_MAPS < s" using e by (cases e) auto
    then have "rpdo_exec H e p = Some p" using p by (simp add: rpdo_sized_def map_sized_def)
    then show ?thesis using p by simp
  qed
qed

text \<open>C11. A Receive-PDO service created over a dictionary whose parameter records are well-typed, do not refuse downloads, cannot be mapped
  themselves and have at most 64 mapping entries handles every sequence of starts, stops, frames of a CAN FD build, SYNC objects, timers and
  downloads to its parameter records without leaving a buffer, and afterwards its communication and mapping parameters
  are those of the dictionary and it listens exactly when the PDO is valid, to the identifier of its COB-ID.\<close>

theorem rpdo_mirrors_dictionary:
  assumes "co_rpdo_init dev num = Some p" "protected dev (0x1400 + num - 1)" "protected dev (0x1600 + num - 1)"
    and "comm_typed (dv_od dev) (0x1400 + num - 1)" "map_typed (dv_od dev) (0x1600 + num - 1)"
    and "map_sized (dv_od dev) (0x1600 + num - 1)" "list_all rpdo_event_ok es"
  shows "\<exists>p'. run_events (rpdo_exec H) es p = Some p' \<and> rpdo_mirrors p'"
proof -
  have "rp_dev p = dev" "rp_num p = num" using assms(1) by (auto simp: co_rpdo_init_def co_rpdo_start_def co_rpdo_init_recv_def split: if_splits)
  then have "rpdo_sized p" using init_rpdo_inv [OF assms(1-5)] assms(6) by (simp add: rpdo_sized_def idx_1600_def)
  from rpdo_whole.run_safe [OF this assms(7), of H] show ?thesis by (auto simp: rpdo_sized_def rpdo_inv_def)
qed

lemma recv_synchronous:
  assumes "pc_trans (rp_comm p) \<le> 0xf0" "\<not> rp_swnd p" "pdo_hears (rp_recv p) m"
  shows "\<exists>t. rpdo_exec H (R_recv now m) p = Some (p\<lparr>rp_timer_event := t, rp_sync := True, rp_msg := m\<rparr>)"
  using assms by (auto simp: co_rpdo_recv_def co_rpdo_init_timer_event_def Let_def)

lemma recv_many:
  assumes "pc_trans (rp_comm p) \<le> 0xf0" "\<not> rp_swnd p" "\<forall>(t, m)\<in>set fs. pdo_hears (rp_recv p) m" "fs \<noteq> []"
  shows "\<exists>t. run_events (rpdo_exec H) (map (\<lambda>(t, m). R_recv t m) fs) p = Some (p\<lparr>rp_timer_event := t, rp_sync := True, rp_msg := snd (last fs)\<rparr>)"
  using assms
proof (induction fs arbitrary: p)
  case (Cons f fs)
  obtain t1 m where f: "f = (t1, m)" by (cases f)
  obtain t where t: "rpdo_exec H (R_recv t1 m) p = Some (p\<lparr>rp_timer_event := t, rp_sync := True, rp_msg := m\<rparr>)"
    using recv_synchronous [of p m H t1] Cons.prems f by auto
  show ?case
  proof (cases "fs = []")
    case True
    then show ?thesis using t f by auto
  next
    case False
    then show ?thesis using Cons.IH [of "p\<lparr>rp_timer_event := t, rp_sync := True, rp_msg := m\<rparr>"] Cons.prems t f by auto
  qed
qed simp

text \<open>C12. A synchronous Receive-PDO acts on the last frame that arrived within the synchronous window, once and only when the SYNC
  arrives: until then the dictionary is not touched, then the frame is written to the mapped objects, and a second SYNC
  without a new frame changes nothing.\<close>

theorem rpdo_sync_processes_last:
  assumes "rpdo_inv p" "pc_trans (rp_comm p) \<le> 0xf0" "\<not> rp_swnd p" "fs \<noteq> []" "\<forall>(t, m)\<in>set fs. pdo_hears (rp_recv p) m \<and> CAN_MAX_LEN < length (cm_data m)" "cnt \<le> 240"
  shows "\<exists>p1 p2 p3 ac req. run_events (rpdo_exec H) (map (\<lambda>(t, m). R_recv t m) fs) p = Some p1 \<and> rp_dev p1 = rp_dev p
    \<and> run_events (rpdo_exec H) [R_sync now cnt] p1 = Some p2
    \<and> co_pdo_dn H (rp_map p) (rp_dev p) (rp_req p) (cm_data (snd (last fs))) (min (unat (cm_len (snd (last fs)))) CAN_MAX_LEN) True = Some (ac, rp_dev p2, req)
    \<and> run_events (rpdo_exec H) [R_sync later cnt] p2 = Some p3 \<and> rp_dev p3 = rp_dev p2"
proof -
  let ?m = "snd (last fs)"
  obtain t where p1: "run_events (rpdo_exec H) (map (\<lambda>(t, m). R_recv t m) fs) p = Some (p\<lparr>rp_timer_event := t, rp_sync := True, rp_msg := ?m\<rparr>)"
    using recv_many [of p fs H] assms by fastforce
  let ?p1 = "p\<lparr>rp_timer_event := t, rp_sync := True, rp_msg := ?m\<rparr>"
  let ?q = "(co_rpdo_init_timer_swnd now (?p1\<lparr>rp_swnd := False\<rparr>))\<lparr>rp_sync := False\<rparr>"
  have m: "CAN_MAX_LEN < length (cm_data ?m)" using assms(4,5) last_in_set [OF assms(4)] by (auto simp: split_def)
  obtain ac dev req where dn: "co_pdo_dn H (rp_map p) (rp_dev p) (rp_req p) (cm_data ?m) (min (unat (cm_len ?m)) CAN_MAX_LEN) True = Some (ac, dev, req)"
    using pdo_dn_total [of "min (unat (cm_len ?m)) CAN_MAX_LEN" "cm_data ?m"] m by (metis min.cobounded2 prod.exhaust)
  then obtain p2 where p2: "co_rpdo_read_frame H ?q ?m = Some (ac, p2)" "rp_dev p2 = dev" "\<not> rp_sync p2" "rp_comm p2 = rp_comm p"
    by (auto simp: co_rpdo_read_frame_def co_rpdo_init_timer_swnd_def Let_def)
  have nc: "\<not> 240 < cnt" "\<not> 0xf0 < pc_trans (rp_comm p)" using assms(2,6) by auto
  have "run_events (rpdo_exec H) [R_sync now cnt] ?p1 = Some p2"
    using p2(1) nc by (simp add: co_rpdo_sync_def Let_def) (simp add: co_rpdo_init_timer_swnd_def Let_def)
  moreover have "\<exists>p3. run_events (rpdo_exec H) [R_sync later cnt] p2 = Some p3 \<and> rp_dev p3 = rp_dev p2"
    using p2 nc by (simp add: co_rpdo_sync_def co_rpdo_init_timer_swnd_def Let_def)
  ultimately show ?thesis using p1 dn p2(2) by fastforce
qed

section \<open>Where the checks are missing\<close>

text \<open>Invalidating a Receive-PDO stops its receiver but not its deadline monitoring: the timer started by the last frame still
  expires and reports a time-out of a PDO that no longer exists.\<close>

theorem rpdo_timeout_after_disable:
  assumes "rpdo_inv p" "\<not> rp_stopped p" "rp_err p" "rp_timer_event p = Some t" "pdo_valid (pc_cobid (rp_comm p))"
    and "co_dev_find_sub (dv_od (rp_dev p)) (idx_1400 p) 1 \<noteq> None" "v AND CO_PDO_COBID_VALID \<noteq> 0" "v AND CO_PDO_COBID_FRAME \<noteq> 0"
  shows "\<exists>p'. run_events (rpdo_exec H) [R_1400 1 v, R_timer_event] p = Some p' \<and> rp_recv p' = None \<and> rp_out p' = rp_out p @ [Out_err 0x8250 0x10]"
proof -
  have "co_dev_get_val_u32 (dv_od (rp_dev p)) (idx_1400 p) 1 = pc_cobid (rp_comm p)" using assms(1,2)
    by (auto simp: rpdo_inv_def rpdo_mirrors_def comm_of_od_def)
  then show ?thesis using assms(2-8)
    by (auto simp: co_1400_dn_ind_def Let_def cobid_change_ok_def pdo_valid_def co_rpdo_init_recv_def co_rpdo_timer_event_def)
qed

section \<open>Witnesses\<close>

definition par_sub :: "u16 \<Rightarrow> bytes \<Rightarrow> co_sub" where
  "par_sub type v = (demo_sub type v)\<lparr>sub_mapping := False\<rparr>"

definition demo_rpdo_dev :: "u8 \<Rightarrow> co_device" where
  "demo_rpdo_dev tt = \<lparr>dv_od = [0x1400 \<mapsto> demo_obj [0 \<mapsto> par_sub 5 [5], 1 \<mapsto> par_sub 7 (stle_u32 0x20000205), 2 \<mapsto> par_sub 5 [tt], 5 \<mapsto> par_sub 6 (stle_u16 100)],
     0x1600 \<mapsto> demo_obj [0 \<mapsto> par_sub 5 [1], 1 \<mapsto> par_sub 7 (stle_u32 0x60000210)],
     0x6000 \<mapsto> demo_obj [2 \<mapsto> demo_sub 6 [0, 0]]], dv_id = 2, dv_dummy = 0\<rparr>"

definition demo_rpdo :: "u8 \<Rightarrow> rpdo" where
  "demo_rpdo tt = the (co_rpdo_init (demo_rpdo_dev tt) 1)"

definition demo_pdo_frame :: "u32 \<Rightarrow> bytes \<Rightarrow> can_msg" where
  "demo_pdo_frame cid d = \<lparr>cm_id = cid, cm_flags = CAN_FLAG_IDE, cm_len = of_nat (length d), cm_data = d @ replicate (64 - length d) 0\<rparr>"

lemma demo_rpdo_init:
  "co_rpdo_init (demo_rpdo_dev tt) 1 = Some (demo_rpdo tt)"
  "protected (demo_rpdo_dev tt) (0x1400 + 1 - 1)" "protected (demo_rpdo_dev tt) (0x1600 + 1 - 1)"
  "comm_typed (dv_od (demo_rpdo_dev tt)) (0x1400 + 1 - 1)" "map_typed (dv_od (demo_rpdo_dev tt)) (0x1600 + 1 - 1)"
  by (auto simp: demo_rpdo_def co_rpdo_init_def demo_rpdo_dev_def CO_NUM_PDOS_def protected_def co_type_is_basic_def co_dev_find_sub_def
      demo_obj_def par_sub_def demo_sub_def comm_typed_def map_typed_def typed_def CO_DEFTYPE_UNSIGNED8_def CO_DEFTYPE_UNSIGNED16_def
      CO_DEFTYPE_UNSIGNED32_def split: if_splits option.splits)

lemma demo_rpdo_sized: "map_sized (dv_od (demo_rpdo_dev tt)) (0x1600 + 1 - 1)"
  by (auto simp: map_sized_def CO_PDO_NUM_MAPS_def co_dev_find_sub_def demo_rpdo_dev_def demo_obj_def)

lemmas demo_rpdo_inv = init_rpdo_inv [OF demo_rpdo_init]

lemma demo_rpdo_fields:
  "pc_trans (rp_comm (demo_rpdo tt)) = tt" "pc_cobid (rp_comm (demo_rpdo tt)) = 0x20000205" "\<not> rp_swnd (demo_rpdo tt)"
  "\<not> rp_stopped (demo_rpdo tt)" "rp_recv (demo_rpdo tt) = Some (0x205, CAN_FLAG_IDE)" "rp_dev (demo_rpdo tt) = demo_rpdo_dev tt" "rp_num (demo_rpdo tt) = 1"
  by (simp_all add: demo_rpdo_def co_rpdo_init_def demo_rpdo_dev_def CO_NUM_PDOS_def co_rpdo_start_def co_rpdo_init_recv_def comm_of_od_def
      co_dev_get_val_u8_def co_dev_get_val_u32_def co_sub_get_val_u8_def co_sub_get_val_u32_def sub_bytes_def co_dev_find_sub_def idx_1400_def
      demo_obj_def par_sub_def demo_sub_def CO_DEFTYPE_UNSIGNED8_def CO_DEFTYPE_UNSIGNED32_def pdo_valid_def CO_PDO_COBID_VALID_def
      pdo_key_def CO_PDO_COBID_FRAME_def CAN_MASK_EID_def)

theorem rpdo_mirrors_dictionary_witness:
  "\<exists>p'. run_events (rpdo_exec example_heap) [R_recv 0 (demo_pdo_frame 0x205 [0x34, 0x12]), R_1400 1 0xa0000205, R_1600 0 0, R_1600 200 7, R_stop, R_start] (demo_rpdo 0xff) = Some p'
     \<and> rpdo_mirrors p'"
  by (rule rpdo_mirrors_dictionary [OF demo_rpdo_init demo_rpdo_sized]) (simp add: demo_pdo_frame_def CAN_MAX_LEN_def)

theorem rpdo_sync_processes_last_witness:
  "\<exists>p1 p2 p3 ac req. run_events (rpdo_exec example_heap) (map (\<lambda>(t, m). R_recv t m) [(0, demo_pdo_frame 0x205 [1, 2]), (5, demo_pdo_frame 0x205 [0x34, 0x12])]) (demo_rpdo 1) = Some p1
    \<and> rp_dev p1 = demo_rpdo_dev 1 \<and> run_events (rpdo_exec example_heap) [R_sync 10 0] p1 = Some p2
    \<and> co_pdo_dn example_heap (rp_map (demo_rpdo 1)) (demo_rpdo_dev 1) (rp_req (demo_rpdo 1)) (cm_data (demo_pdo_frame 0x205 [0x34, 0x12])) 2 True = Some (ac, rp_dev p2, req)
    \<and> run_events (rpdo_exec example_heap) [R_sync 20 0] p2 = Some p3 \<and> rp_dev p3 = rp_dev p2"
  using rpdo_sync_processes_last [OF demo_rpdo_inv [of 1], where fs = "[(0, demo_pdo_frame 0x205 [1, 2]), (5, demo_pdo_frame 0x205 [0x34, 0x12])]" and cnt = 0 and H = example_heap
      and now = 10 and later = 20]
  by (simp add: demo_rpdo_fields demo_pdo_frame_def CAN_MAX_LEN_def pdo_hears_def)

theorem rpdo_timeout_after_disable_witness:
  "\<exists>p'. run_events (rpdo_exec example_heap) [R_1400 1 0xa0000205, R_timer_event] ((demo_rpdo 0xff)\<lparr>rp_err := True, rp_timer_event := Some 7\<rparr>) = Some p'
     \<and> rp_recv p' = None \<and> rp_out p' = rp_out (demo_rpdo 0xff) @ [Out_err 0x8250 0x10]"
proof -
  let ?p = "(demo_rpdo 0xff)\<lparr>rp_err := True, rp_timer_event := Some 7\<rparr>"
  have "rpdo_inv ?p" using demo_rpdo_inv [where tt = "0xff"] by (simp add: rpdo_inv_def rpdo_mirrors_def idx_1400_def idx_1600_def)
  moreover have "co_dev_find_sub (dv_od (rp_dev ?p)) (idx_1400 ?p) 1 \<noteq> None"
    by (simp add: demo_rpdo_fields idx_1400_def demo_rpdo_dev_def co_dev_find_sub_def demo_obj_def)
  ultimately show ?thesis
    using rpdo_timeout_after_disable [where p = ?p and v = "0xa0000205" and H = example_heap]
    by (simp add: demo_rpdo_fields pdo_valid_def CO_PDO_COBID_VALID_def CO_PDO_COBID_FRAME_def)
qed

end
