(* ===== verification/Co_Tpdo.thy ===== *)
theory Co_Tpdo
  imports Co_Rpdo
begin

text \<open>
  The Transmit-PDO service (\<open>upstream/src/co/tpdo.c\<close>): events with their inhibit time, SYNC objects and sampling, remote requests,
  multiplex PDOs and the writes to the parameter records. The clock is the argument \<open>now\<close>, in nanoseconds; \<open>ok\<close> says whether the
  network takes the frame that the call sends, if it sends one, and \<open>sres\<close> is what the sampling indication of the application returns.
  \<open>None\<close> means that a buffer would be left or the call would not return.
\<close>

unbundle bit_operations_syntax

section \<open>Model\<close>

record tpdo =
  tp_dev :: co_device
  tp_num :: u16
  tp_stopped :: bool
  tp_comm :: co_pdo_comm_par
  tp_map :: co_pdo_map_par
  tp_recv :: "(u32 \<times> u8) option"
  tp_timer_event :: "nat option"
  tp_timer_swnd :: "nat option"
  tp_msg :: can_msg
  tp_inhibit :: nat
  tp_event :: bool
  tp_swnd :: bool
  tp_sync :: u8
  tp_cnt :: u8
  tp_req :: co_sdo_req
  tp_ind :: bool
  tp_sample_ind :: bool \<comment> \<open>the application samples itself\<close>
  tp_out :: "pdo_out list"

definition idx_1800 :: "tpdo \<Rightarrow> u16" where "idx_1800 p = 0x1800 + tp_num p - 1"
definition idx_1a00 :: "tpdo \<Rightarrow> u16" where "idx_1a00 p = 0x1a00 + tp_num p - 1"

abbreviation tp_valid :: "tpdo \<Rightarrow> bool" where
  "tp_valid p \<equiv> pdo_valid (pc_cobid (tp_comm p))"

definition tpdo_emit :: "pdo_out list \<Rightarrow> tpdo \<Rightarrow> tpdo" where
  "tpdo_emit os p = p\<lparr>tp_out := tp_out p @ os\<rparr>"

definition co_tpdo_init_recv :: "tpdo \<Rightarrow> tpdo" where
  "co_tpdo_init_recv p = p\<lparr>tp_recv :=
     (let (cid, flags) = pdo_key (pc_cobid (tp_comm p))
      in if tp_valid p \<and> pc_cobid (tp_comm p) AND CO_PDO_COBID_RTR = 0 then Some (cid, CAN_FLAG_RTR OR flags) else None)\<rparr>"

definition co_tpdo_init_timer_event :: "nat \<Rightarrow> tpdo \<Rightarrow> tpdo" where
  "co_tpdo_init_timer_event now p = p\<lparr>tp_timer_event :=
     if tp_valid p \<and> pc_trans (tp_comm p) \<ge> 0xfe \<and> pc_event (tp_comm p) \<noteq> 0 then Some (now + unat (pc_event (tp_comm p)) * 1000000) else None\<rparr>"

definition co_tpdo_init_timer_swnd :: "nat \<Rightarrow> tpdo \<Rightarrow> tpdo" where
  "co_tpdo_init_timer_swnd now p =
     (let swnd = co_dev_get_val_u32 (dv_od (tp_dev p)) 0x1007 0
      in p\<lparr>tp_timer_swnd := if swnd \<noteq> 0 then Some (now + unat swnd * 1000) else None\<rparr>)"

definition co_tpdo_start :: "nat \<Rightarrow> tpdo \<Rightarrow> tpdo" where
  "co_tpdo_start now p =
     (if \<not> tp_stopped p then p
      else let comm = comm_of_od (dv_od (tp_dev p)) (idx_1800 p)
           in (co_tpdo_init_timer_event now (co_tpdo_init_recv (p\<lparr>tp_comm := comm, tp_map := map_of_od (dv_od (tp_dev p)) (idx_1a00 p),
                tp_inhibit := now, tp_event := False, tp_swnd := True, tp_sync := pc_sync comm, tp_cnt := 0\<rparr>)))\<lparr>tp_stopped := False\<rparr>)"

definition co_tpdo_stop :: "tpdo \<Rightarrow> tpdo" where
  "co_tpdo_stop p = (if tp_stopped p then p else p\<lparr>tp_timer_swnd := None, tp_timer_event := None, tp_recv := None, tp_stopped := True\<rparr>)"

definition co_tpdo_init :: "nat \<Rightarrow> co_device \<Rightarrow> u16 \<Rightarrow> tpdo option" where
  "co_tpdo_init now dev num =
     (if num = 0 \<or> num > CO_NUM_PDOS \<or> dv_od dev (0x1800 + num - 1) = None \<or> dv_od dev (0x1a00 + num - 1) = None then None
      else Some (co_tpdo_start now \<lparr>tp_dev = dev, tp_num = num, tp_stopped = True,
          tp_comm = \<lparr>pc_n = 0, pc_cobid = 0, pc_trans = 0, pc_inhibit = 0, pc_event = 0, pc_sync = 0\<rparr>, tp_map = \<lparr>pm_n = 0, pm_map = replicate 64 0\<rparr>,
          tp_recv = None, tp_timer_event = None, tp_timer_swnd = None, tp_msg = CAN_MSG_INIT, tp_inhibit = 0, tp_event = False, tp_swnd = True,
          tp_sync = 0, tp_cnt = 0, tp_req = co_sdo_req_init, tp_ind = False, tp_sample_ind = False, tp_out = []\<rparr>))"

text \<open>A frame with the identifier of the COB-ID and no data.\<close>

definition tpdo_header :: "tpdo \<Rightarrow> can_msg" where
  "tpdo_header p = CAN_MSG_INIT\<lparr>cm_id := fst (pdo_key (pc_cobid (tp_comm p))), cm_flags := snd (pdo_key (pc_cobid (tp_comm p)))\<rparr>"

definition co_tpdo_init_frame :: "heap \<Rightarrow> tpdo \<Rightarrow> (int \<times> tpdo) option" where
  "co_tpdo_init_frame H p = do {
     let msg = tpdo_header p;
     (ac, req, buf, n) \<leftarrow> co_pdo_up H (tp_map p) (tp_dev p) (tp_req p) (Some (cm_data msg)) (Some CAN_MAX_LEN) True;
     let p = p\<lparr>tp_req := req, tp_msg := msg\<lparr>cm_data := case buf of None \<Rightarrow> [] | Some b \<Rightarrow> b\<rparr>\<rparr>;
     Some (if ac \<noteq> 0 then (-1, tpdo_emit (if tp_ind p then [Out_ind ac [] 0] else []) p)
           else (0, p\<lparr>tp_msg := (tp_msg p)\<lparr>cm_len := of_nat (case n of None \<Rightarrow> 0 | Some n \<Rightarrow> n)\<rparr>\<rparr>)) }"

definition co_tpdo_send_frame :: "bool \<Rightarrow> tpdo \<Rightarrow> int \<times> tpdo" where
  "co_tpdo_send_frame ok p =
     (let n = unat (cm_len (tp_msg p))
      in (if ok then 0 else -1, tpdo_emit ((if ok then [Out_frame (tp_msg p)] else [])
           @ (if tp_ind p then [if ok then Out_ind 0 (take n (cm_data (tp_msg p))) n else Out_ind CO_SDO_AC_ERROR [] 0] else [])) p))"

text \<open>The inhibit time: an event before it has passed is refused; a frame sent at \<open>now\<close> starts it again, in units of 100 microseconds.\<close>

definition inhibited :: "nat \<Rightarrow> tpdo \<Rightarrow> bool" where
  "inhibited now p \<longleftrightarrow> pc_inhibit (tp_comm p) \<noteq> 0 \<and> now < tp_inhibit p"

definition inhibit_from :: "nat \<Rightarrow> tpdo \<Rightarrow> tpdo" where
  "inhibit_from now p = (if pc_inhibit (tp_comm p) \<noteq> 0 then p\<lparr>tp_inhibit := now\<rparr> else p)"

definition inhibit_sent :: "tpdo \<Rightarrow> tpdo" where
  "inhibit_sent p = (if pc_inhibit (tp_comm p) \<noteq> 0 then p\<lparr>tp_inhibit := tp_inhibit p + unat (pc_inhibit (tp_comm p)) * 100000\<rparr> else p)"

definition co_tpdo_event :: "heap \<Rightarrow> nat \<Rightarrow> bool \<Rightarrow> tpdo \<Rightarrow> (int \<times> tpdo) option" where
  "co_tpdo_event H now ok p =
     (if \<not> tp_valid p \<or> pm_n (tp_map p) > 0x40 then Some (0, p)
      else if pc_trans (tp_comm p) = 0 then Some (0, co_tpdo_init_timer_event now (p\<lparr>tp_event := True\<rparr>))
      else if pc_trans (tp_comm p) = 0xfd then do {
        (r, p) \<leftarrow> co_tpdo_init_frame H p;
        Some (if r = -1 then (-1, p) else (0, co_tpdo_init_timer_event now p)) }
      else if pc_trans (tp_comm p) = 0xfe \<or> pc_trans (tp_comm p) = 0xff then
        (if inhibited now p then Some (-1, p)
         else do {
           (r, p) \<leftarrow> co_tpdo_init_frame H (inhibit_from now p);
           if r = -1 then Some (-1, p)
           else let (r, p) = co_tpdo_send_frame ok p
                in Some (if r = -1 then (-1, p) else (0, co_tpdo_init_timer_event now (inhibit_sent p))) })
      else Some (0, p))"

definition co_tpdo_sample_res :: "heap \<Rightarrow> u32 \<Rightarrow> bool \<Rightarrow> tpdo \<Rightarrow> (int \<times> tpdo) option" where
  "co_tpdo_sample_res H ac ok p =
     (let trans = pc_trans (tp_comm p);
          ac = (if ac = 0 \<and> trans \<noteq> 0xfd \<and> tp_swnd p then CO_SDO_AC_TIMEOUT else ac)
      in if \<not> tp_valid p \<or> (trans > 0xf0 \<and> trans \<noteq> 0xfc \<and> trans \<noteq> 0xfd) \<or> pm_n (tp_map p) > 0x40 then Some (0, p)
         else if ac \<noteq> 0 then Some (0, tpdo_emit (if tp_ind p then [Out_ind ac [] 0] else []) p)
         else do {
           (r, p) \<leftarrow> co_tpdo_init_frame H p;
           Some (if r = -1 then (-1, p) else if trans = 0xfc then (0, p) else co_tpdo_send_frame ok p) })"

text \<open>The sampling indication: the one of the application is called, or the default one samples at once.\<close>

definition sample_ind :: "heap \<Rightarrow> int \<Rightarrow> bool \<Rightarrow> tpdo \<Rightarrow> (int \<times> tpdo) option" where
  "sample_ind H sres ok p = (if tp_sample_ind p then Some (sres, tpdo_emit [Out_sample] p) else co_tpdo_sample_res H 0 ok p)"

text \<open>The SYNC counter has reached the start value, and the window for synchronous PDOs opens.\<close>

definition sync_enter :: "nat \<Rightarrow> u8 \<Rightarrow> tpdo \<Rightarrow> tpdo" where
  "sync_enter now cnt p =
     (let p = (if tp_sync p \<noteq> 0 \<and> cnt \<noteq> 0 then p\<lparr>tp_sync := 0, tp_cnt := 0\<rparr> else p)
      in co_tpdo_init_timer_swnd now (p\<lparr>tp_swnd := False\<rparr>))"

definition co_tpdo_sync :: "heap \<Rightarrow> nat \<Rightarrow> u8 \<Rightarrow> int \<Rightarrow> bool \<Rightarrow> tpdo \<Rightarrow> (int \<times> tpdo) option" where
  "co_tpdo_sync H now cnt sres ok p =
     (let trans = pc_trans (tp_comm p)
      in if cnt > 240 then Some (-1, p)
         else if \<not> tp_valid p \<or> (trans > 0xf0 \<and> trans \<noteq> 0xfc) \<or> (tp_sync p \<noteq> 0 \<and> cnt \<noteq> 0 \<and> tp_sync p \<noteq> cnt) then Some (0, p)
         else
           let p = sync_enter now cnt p
           in if trans = 0 then (if \<not> tp_event p then Some (0, p) else sample_ind H sres ok (p\<lparr>tp_event := False\<rparr>))
              else if trans \<le> 0xf0 then
                (if tp_cnt p + 1 < trans then Some (0, p\<lparr>tp_cnt := tp_cnt p + 1\<rparr>) else sample_ind H sres ok (p\<lparr>tp_cnt := 0\<rparr>))
              else sample_ind H sres ok p)"

text \<open>The frame of a multiplex PDO: node-ID, multiplexer and four bytes of data.\<close>

definition mpdo_frame :: "tpdo \<Rightarrow> u8 \<Rightarrow> u16 \<Rightarrow> u8 \<Rightarrow> bytes \<Rightarrow> can_msg" where
  "mpdo_frame p x idx subidx d =
     (tpdo_header p)\<lparr>cm_len := of_nat CAN_MAX_LEN, cm_data := [x] @ stle_u16 idx @ [subidx] @ take 4 d @ replicate 56 0\<rparr>"

definition co_dam_mpdo_event :: "nat \<Rightarrow> bool \<Rightarrow> u8 \<Rightarrow> u16 \<Rightarrow> u8 \<Rightarrow> bytes \<Rightarrow> tpdo \<Rightarrow> int \<times> tpdo" where
  "co_dam_mpdo_event now ok nid idx subidx d p =
     (if \<not> tp_valid p \<or> pc_trans (tp_comm p) < 0xfe \<or> pm_n (tp_map p) \<noteq> CO_PDO_MAP_DAM_MPDO \<or> nid > 127 then (0, p)
      else if inhibited now p then (-1, p)
      else let p = inhibit_from now p;
               (r, p) = co_tpdo_send_frame ok (p\<lparr>tp_msg := mpdo_frame p (nid OR 0x80) idx subidx d\<rparr>)
           in if r = -1 then (-1, p) else (0, inhibit_sent p))"

definition co_sam_mpdo_event :: "heap \<Rightarrow> nat \<Rightarrow> bool \<Rightarrow> u16 \<Rightarrow> u8 \<Rightarrow> tpdo \<Rightarrow> (int \<times> tpdo) option" where
  "co_sam_mpdo_event H now ok idx subidx p =
     (let nid = dv_id (tp_dev p)
      in if \<not> tp_valid p \<or> pc_trans (tp_comm p) < 0xfe \<or> pm_n (tp_map p) \<noteq> CO_PDO_MAP_SAM_MPDO \<or> nid = 0 \<or> nid > 127 then Some (0, p)
         else if inhibited now p then Some (-1, p)
         else do {
           let p = inhibit_from now p;
           (ac, req, d) \<leftarrow> co_sam_mpdo_up H (tp_dev p) idx subidx (tp_req p);
           let p = p\<lparr>tp_req := req, tp_msg := mpdo_frame p nid idx subidx d\<rparr>;
           if ac \<noteq> 0 then Some (-1, tpdo_emit (if tp_ind p then [Out_ind ac [] 0] else []) p)
           else let (r, p) = co_tpdo_send_frame ok p
                in Some (if r = -1 then (-1, p) else (0, inhibit_sent p)) })"

definition co_tpdo_recv :: "heap \<Rightarrow> int \<Rightarrow> bool \<Rightarrow> tpdo \<Rightarrow> (int \<times> tpdo) option" where
  "co_tpdo_recv H sres ok p =
     (if pc_trans (tp_comm p) = 0xfc then
        (if cm_id (tp_msg p) \<noteq> pc_cobid (tp_comm p) AND (if pc_cobid (tp_comm p) AND CO_PDO_COBID_FRAME \<noteq> 0 then CAN_MASK_EID else CAN_MASK_BID)
         then Some (0, p) else Some (1, snd (co_tpdo_send_frame ok p)))
      else if pc_trans (tp_comm p) = 0xfd then do { (_, p) \<leftarrow> sample_ind H sres ok p; Some (1, p) }
      else Some (0, p))"

definition co_tpdo_timer_event :: "heap \<Rightarrow> nat \<Rightarrow> bool \<Rightarrow> tpdo \<Rightarrow> tpdo option" where
  "co_tpdo_timer_event H now ok p = do {
     (r, p) \<leftarrow> co_tpdo_event H now ok (p\<lparr>tp_timer_event := None\<rparr>);
     Some (if r = -1 then co_tpdo_init_timer_event now p else p) }"

definition co_tpdo_timer_swnd :: "tpdo \<Rightarrow> tpdo" where
  "co_tpdo_timer_swnd p = p\<lparr>tp_timer_swnd := None, tp_swnd := True\<rparr>"

text \<open>A new COB-ID: a PDO that becomes valid starts afresh.\<close>

definition cobid_set :: "nat \<Rightarrow> u32 \<Rightarrow> u32 \<Rightarrow> tpdo \<Rightarrow> tpdo" where
  "cobid_set now v old p =
     (let p = p\<lparr>tp_comm := (tp_comm p)\<lparr>pc_cobid := v\<rparr>\<rparr>;
          p = (if pdo_valid v \<and> \<not> pdo_valid old then p\<lparr>tp_inhibit := now, tp_event := False, tp_sync := pc_sync (tp_comm p), tp_cnt := 0\<rparr> else p);
          p = p\<lparr>tp_msg := CAN_MSG_INIT, tp_event := False, tp_swnd := True\<rparr>
      in (co_tpdo_init_timer_event now (co_tpdo_init_recv p))\<lparr>tp_timer_swnd := None\<rparr>)"

definition co_1800_dn_ind :: "nat \<Rightarrow> u8 \<Rightarrow> u32 \<Rightarrow> tpdo \<Rightarrow> u32 \<times> tpdo" where
  "co_1800_dn_ind now subidx v p =
     (let D = dv_od (tp_dev p); idx = idx_1800 p; comm = tp_comm p
      in if subidx = 0 then (CO_SDO_AC_NO_WRITE, p)
         else if subidx = 1 then
           let old = co_dev_get_val_u32 D idx 1
           in if v = old then (0, p)
              else if \<not> cobid_change_ok v old then (CO_SDO_AC_PARAM_VAL, p)
              else (0, (cobid_set now v old p)\<lparr>tp_dev := od_write (tp_dev p) idx 1 (stle_u32 v)\<rparr>)
         else if subidx = 2 then
           let trans = ucast v :: u8
           in if trans = co_dev_get_val_u8 D idx 2 then (0, p)
              else if trans > 0xf0 \<and> trans < 0xfc then (CO_SDO_AC_PARAM_VAL, p)
              else if (trans = 0xfc \<or> trans = 0xfd) \<and> pc_cobid comm AND CO_PDO_COBID_RTR \<noteq> 0 then (CO_SDO_AC_PARAM_VAL, p)
              else (0, (co_tpdo_init_recv (p\<lparr>tp_comm := comm\<lparr>pc_trans := trans\<rparr>\<rparr>))\<lparr>tp_dev := od_write (tp_dev p) idx 2 [trans]\<rparr>)
         else if subidx = 3 then
           let inhibit = ucast v :: u16
           in if inhibit = co_dev_get_val_u16 D idx 3 then (0, p)
              else if pdo_valid (pc_cobid comm) then (CO_SDO_AC_PARAM_VAL, p)
              else (0, p\<lparr>tp_comm := comm\<lparr>pc_inhibit := inhibit\<rparr>, tp_dev := od_write (tp_dev p) idx 3 (stle_u16 inhibit)\<rparr>)
         else if subidx = 5 then
           let event = ucast v :: u16
           in if event = co_dev_get_val_u16 D idx 5 then (0, p)
              else (0, (co_tpdo_init_timer_event now (p\<lparr>tp_comm := comm\<lparr>pc_event := event\<rparr>\<rparr>))\<lparr>tp_dev := od_write (tp_dev p) idx 5 (stle_u16 event)\<rparr>)
         else if subidx = 6 then
           let sync = ucast v :: u8
           in if sync = co_dev_get_val_u8 D idx 6 then (0, p)
              else if pdo_valid (pc_cobid comm) then (CO_SDO_AC_PARAM_VAL, p)
              else (0, p\<lparr>tp_comm := comm\<lparr>pc_sync := sync\<rparr>, tp_dev := od_write (tp_dev p) idx 6 [sync]\<rparr>)
         else (CO_SDO_AC_NO_SUB, p))"

definition co_1a00_dn_ind :: "u8 \<Rightarrow> u32 \<Rightarrow> tpdo \<Rightarrow> (u32 \<times> tpdo) option" where
  "co_1a00_dn_ind subidx v p =
     (let D = dv_od (tp_dev p); idx = idx_1a00 p; valid = tp_valid p; chk = co_dev_chk_tpdo (tp_dev p)
      in if subidx = 0 then
           let n = ucast v :: u8;
               ac = (if n \<le> CO_PDO_NUM_MAPS then chk_map chk (take (unat n) (pm_map (tp_map p))) 0
                     else if n \<noteq> CO_PDO_MAP_SAM_MPDO \<and> n \<noteq> CO_PDO_MAP_DAM_MPDO then CO_SDO_AC_PARAM_VAL else 0)
           in if n = co_dev_get_val_u8 D idx 0 then Some (0, p)
              else if valid then Some (CO_SDO_AC_PARAM_VAL, p)
              else if ac \<noteq> 0 then Some (ac, p)
              else Some (0, p\<lparr>tp_map := (tp_map p)\<lparr>pm_n := n\<rparr>, tp_dev := od_write (tp_dev p) idx 0 [n]\<rparr>)
         else
           let ac = (if v \<noteq> 0 then chk (map_idx v) (map_subidx v) else 0)
           in if v = co_dev_get_val_u32 D idx subidx then Some (0, p)
              else if valid \<or> pm_n (tp_map p) \<noteq> 0 then Some (CO_SDO_AC_PARAM_VAL, p)
              else if ac \<noteq> 0 then Some (ac, p)
              else if subidx > CO_PDO_NUM_MAPS then None
              else Some (0, p\<lparr>tp_map := (tp_map p)\<lparr>pm_map := (pm_map (tp_map p))[unat subidx - 1 := v]\<rparr>, tp_dev := od_write (tp_dev p) idx subidx (stle_u32 v)\<rparr>))"

section \<open>Reading the mapped objects\<close>

text \<open>Every value of the dictionary is non-empty and fits into half of the address space, so that it can be put into the buffer of a request.\<close>

definition values_ok :: "co_dev \<Rightarrow> bool" where
  "values_ok D \<longleftrightarrow> (\<forall>idx subidx sb v. co_dev_find_sub D idx subidx = Some sb \<longrightarrow> sub_val sb = Some v \<longrightarrow> v \<noteq> [] \<and> length v \<le> 2 ^ 31)"

lemma values_ok_put_val: "values_ok D \<Longrightarrow> v \<noteq> [] \<Longrightarrow> length v \<le> 2 ^ 31 \<Longrightarrow> values_ok (put_val D idx subidx v)"
  by (auto simp: values_ok_def find_sub_put_val split: if_splits)

lemma values_ok_set_val:
  assumes "values_ok D" "typed D idx subidx type" "type \<noteq> CO_DEFTYPE_UNICODE_STRING" "v \<noteq> []" "length v \<le> 2 ^ 31"
  shows "values_ok (set_val D idx subidx v)"
proof (cases "co_dev_find_sub D idx subidx")
  case None
  then show ?thesis using assms(1) by (simp add: values_ok_def find_sub_set_val)
next
  case (Some sb)
  then have "length (co_val_norm (sub_type sb) v) = length v" using assms(2,3) by (simp add: typed_def length_co_val_norm)
  then have "co_val_norm (sub_type sb) v \<noteq> []" "length (co_val_norm (sub_type sb) v) \<le> 2 ^ 31" using assms(4,5) by auto
  then show ?thesis using set_val_found [OF Some, of v] values_ok_put_val [OF assms(1)] assms(1) by simp
qed

lemma up_val_safe:
  assumes "roomy (sq_membuf r)" "v \<noteq> []" "length v \<le> 2 ^ 31"
  shows "\<exists>res r'. co_sdo_req_up_val H v r = (res, r') \<and> res \<noteq> Up_hangs \<and> roomy (sq_membuf r')
    \<and> (res = Up_ok \<longrightarrow> LELY_MEMBUF_SIZE \<le> length (sq_buf r'))"
proof -
  let ?b = "membuf_clear (sq_membuf r)"
  have rb: "roomy ?b" using assms(1) by (simp add: roomy_def)
  show ?thesis
  proof (cases "membuf_reserve H ?b (length v)")
    case Reserve_hangs
    then show ?thesis using membuf_grow_total [OF assms(3)]
      by (auto simp: membuf_reserve_def szt_small Let_def split: if_splits option.splits)
  next
    case Reserve_fails
    then show ?thesis using assms(2) rb by (simp add: co_sdo_req_up_val_def Let_def)
  next
    case (Reserved b)
    have "LELY_MEMBUF_SIZE \<le> length (mb_mem b)" by (rule reserve_roomy [OF rb _ _ _ Reserved]) (use assms in auto)
    moreover have wf: "membuf_wf b" "length v \<le> membuf_capacity b" using membuf_reserve_props [OF Reserved] assms(3) by simp_all
    moreover have "length (mb_mem (membuf_write v b)) = length (mb_mem b)" "membuf_wf (membuf_write v b)"
      using wf by (auto simp: membuf_write_def membuf_capacity_def membuf_wf_def Let_def min_def)
    ultimately show ?thesis using Reserved assms(2) by (simp add: co_sdo_req_up_val_def co_sdo_req_up_buf_def roomy_def)
  qed
qed

lemma up_ind_safe:
  assumes "values_ok D" "co_dev_find_sub D idx subidx = Some sb" "roomy (sq_membuf r)"
  shows "\<exists>ac r'. co_sub_up_ind H sb (co_sdo_req_clear r) = (Some ac, r') \<and> roomy (sq_membuf r') \<and> (ac = 0 \<longrightarrow> LELY_MEMBUF_SIZE \<le> length (sq_buf r'))"
proof -
  have nz: "CO_SDO_AC_NO_READ \<noteq> 0" "CO_SDO_AC_NO_DATA \<noteq> 0" "CO_SDO_AC_NO_MEM \<noteq> 0"
    by (simp_all add: CO_SDO_AC_NO_READ_def CO_SDO_AC_NO_DATA_def CO_SDO_AC_NO_MEM_def)
  have rc: "roomy (sq_membuf (co_sdo_req_clear r))" using assms(3) by (simp add: co_sdo_req_clear_def roomy_def)
  show ?thesis
  proof (cases "sub_read sb \<and> sub_val sb \<noteq> None")
    case True
    then obtain v where v: "sub_val sb = Some v" "v \<noteq> []" "length v \<le> 2 ^ 31" using assms(1,2) by (auto simp: values_ok_def)
    obtain res r' where r': "co_sdo_req_up_val H v (co_sdo_req_clear r) = (res, r')" "res \<noteq> Up_hangs" "roomy (sq_membuf r')"
      "res = Up_ok \<longrightarrow> LELY_MEMBUF_SIZE \<le> length (sq_buf r')" using up_val_safe [OF rc v(2,3)] by blast
    moreover have "ac \<noteq> 0" if "res = Up_failed ac" for ac
      using r'(1) that nz by (auto simp: co_sdo_req_up_val_def Let_def split: if_splits reserve.splits)
    ultimately show ?thesis using True v by (cases res) (auto simp: co_sub_up_ind_def)
  next
    case False
    then show ?thesis using nz rc by (auto simp: co_sub_up_ind_def)
  qed
qed

lemma up_loop_safe:
  assumes "values_ok (dv_od dev)" "roomy (sq_membuf req)" "8 \<le> length b"
  shows "\<exists>ac x r b'. pdo_up_loop H ms off dev req (Some b) (Some CAN_MAX_LEN) True = Some (ac, x, r, Some b') \<and> length b' = length b
    \<and> roomy (sq_membuf r) \<and> (ac = 0 \<longrightarrow> x \<le> max off 64)"
  using assms(2,3)
proof (induction ms arbitrary: off b req)
  case (Cons m ms)
  let ?f = "co_dev_find_sub (dv_od dev) (map_idx m) (map_subidx m)"
  show ?case
  proof (cases "m \<noteq> 0 \<and> off + map_len m \<le> 64 \<and> co_dev_chk_tpdo dev (map_idx m) (map_subidx m) = 0 \<and> ?f \<noteq> None")
    case True
    then obtain sb where sb: "?f = Some sb" by auto
    obtain ac r' where r': "co_sub_up_ind H sb (co_sdo_req_clear req) = (Some ac, r')" "roomy (sq_membuf r')" "ac = 0 \<longrightarrow> 16 \<le> length (sq_buf r')"
      using up_ind_safe [OF assms(1) sb Cons.prems(1), of H] by (auto simp: LELY_MEMBUF_SIZE_def)
    show ?thesis
    proof (cases "ac = 0 \<and> co_sdo_req_first r' \<and> co_sdo_req_last r'")
      case ok: True
      obtain b' where b': "bcpyle b off (sq_buf r') 0 (map_len m) = Some b'" "length b' = length b"
        using pack_step [of off "map_len m" b "sq_buf r'"] True ok r'(3) Cons.prems(2) by auto
      have "max (off + map_len m) 64 = max off 64" using True by simp
      then show ?thesis using Cons.IH [of r' b' "off + map_len m"] b' True ok r' sb Cons.prems by (simp add: CAN_MAX_LEN_def)
    next
      case False
      then show ?thesis using True r' sb by (cases "ac = 0") (auto simp: Let_def CAN_MAX_LEN_def CO_SDO_AC_PDO_LEN_def)
    qed
  next
    case False
    have "roomy (sq_membuf (co_sdo_req_clear req))" using Cons.prems(1) by (simp add: co_sdo_req_clear_def roomy_def)
    then show ?thesis using False Cons by (auto simp: CAN_MAX_LEN_def CO_SDO_AC_PDO_LEN_def CO_SDO_AC_NO_SUB_def Let_def)
  qed
qed auto

lemma pdo_up_safe:
  assumes "values_ok (dv_od dev)" "roomy (sq_membuf req)" "8 \<le> length b"
  shows "\<exists>ac r b' n. co_pdo_up H par dev req (Some b) (Some CAN_MAX_LEN) True = Some (ac, r, Some b', Some n) \<and> length b' = length b
    \<and> roomy (sq_membuf r) \<and> (ac = 0 \<longrightarrow> n \<le> CAN_MAX_LEN)"
proof (cases "pm_n par > CO_PDO_NUM_MAPS")
  case True
  then show ?thesis using assms(2) by (auto simp: co_pdo_up_def CO_SDO_AC_PDO_LEN_def)
next
  case False
  obtain ac x r b' where l: "pdo_up_loop H (map_entries par) 0 dev req (Some b) (Some CAN_MAX_LEN) True = Some (ac, x, r, Some b')"
    "length b' = length b" "roomy (sq_membuf r)" "ac = 0 \<longrightarrow> x \<le> 64"
    using up_loop_safe [OF assms, of H "map_entries par" 0] by auto
  have "ac = 0 \<longrightarrow> (x + 7) div 8 \<le> CAN_MAX_LEN" using l(4) frame_bytes [of x 8] by (auto simp: CAN_MAX_LEN_def)
  then show ?thesis using l False by (auto simp: co_pdo_up_def CAN_MAX_LEN_def)
qed

lemma sam_up_safe:
  assumes "values_ok (dv_od dev)" "roomy (sq_membuf req)"
  shows "\<exists>ac r d. co_sam_mpdo_up H dev idx subidx req = Some (ac, r, d) \<and> length d = 4 \<and> roomy (sq_membuf r)"
proof -
  have rc: "roomy (sq_membuf (co_sdo_req_clear req))" using assms(2) by (simp add: co_sdo_req_clear_def roomy_def)
  show ?thesis
  proof (cases "co_dev_find_sub (dv_od dev) idx subidx")
    case None
    then show ?thesis using rc assms(2) by (simp add: co_sam_mpdo_up_def Let_def)
  next
    case (Some sb)
    obtain ac r' where r': "co_sub_up_ind H sb (co_sdo_req_clear req) = (Some ac, r')" "roomy (sq_membuf r')" "ac = 0 \<longrightarrow> 16 \<le> length (sq_buf r')"
      using up_ind_safe [OF assms(1) Some assms(2), of H] by (auto simp: LELY_MEMBUF_SIZE_def)
    then show ?thesis using Some assms(2) by (auto simp: co_sam_mpdo_up_def Let_def)
  qed
qed

section \<open>Runs of the service\<close>

datatype tpdo_run_event =
    T_start nat | T_stop | T_event nat bool | T_sync nat u8 int bool | T_sample_res u32 bool | T_dam nat bool u8 u16 u8 bytes | T_sam nat bool u16 u8
  | T_recv can_msg int bool | T_timer_event nat bool | T_timer_swnd | T_1800 nat u8 u32 | T_1a00 u8 u32
  | T_write u16 u8 bytes \<comment> \<open>the application changes a value\<close>

fun tpdo_exec :: "heap \<Rightarrow> tpdo_run_event \<Rightarrow> tpdo \<Rightarrow> tpdo option" where
  "tpdo_exec H (T_start now) p = Some (co_tpdo_start now p)"
| "tpdo_exec H T_stop p = Some (co_tpdo_stop p)"
| "tpdo_exec H (T_event now ok) p = map_option snd (co_tpdo_event H now ok p)"
| "tpdo_exec H (T_sync now cnt sres ok) p = map_option snd (co_tpdo_sync H now cnt sres ok p)"
| "tpdo_exec H (T_sample_res ac ok) p = map_option snd (co_tpdo_sample_res H ac ok p)"
| "tpdo_exec H (T_dam now ok nid idx subidx d) p = Some (snd (co_dam_mpdo_event now ok nid idx subidx d p))"
| "tpdo_exec H (T_sam now ok idx subidx) p = map_option snd (co_sam_mpdo_event H now ok idx subidx p)"
| "tpdo_exec H (T_recv msg sres ok) p = (if pdo_hears (tp_recv p) msg then map_option snd (co_tpdo_recv H sres ok p) else Some p)"
| "tpdo_exec H (T_timer_event now ok) p = (if tp_timer_event p = None then Some p else co_tpdo_timer_event H now ok p)"
| "tpdo_exec H T_timer_swnd p = Some (if tp_timer_swnd p = None then p else co_tpdo_timer_swnd p)"
| "tpdo_exec H (T_1800 now s v) p =
     (if tp_stopped p \<or> co_dev_find_sub (dv_od (tp_dev p)) (idx_1800 p) s = None then Some p else Some (snd (co_1800_dn_ind now s v p)))"
| "tpdo_exec H (T_1a00 s v) p =
     (if tp_stopped p \<or> co_dev_find_sub (dv_od (tp_dev p)) (idx_1a00 p) s = None then Some p else map_option snd (co_1a00_dn_ind s v p))"
| "tpdo_exec H (T_write idx s v) p = Some (p\<lparr>tp_dev := od_put (tp_dev p) idx s v\<rparr>)"

text \<open>The application writes values, not the parameter records of PDOs, which have indication functions of their own.\<close>

fun tpdo_admissible :: "tpdo_run_event \<Rightarrow> bool" where
  "tpdo_admissible (T_dam now ok nid idx subidx d) = (length d = 4)"
| "tpdo_admissible (T_1a00 s v) = (s \<le> CO_PDO_NUM_MAPS)"
| "tpdo_admissible (T_write idx s v) = ((idx < 0x1800 \<or> idx > 0x1bff) \<and> v \<noteq> [] \<and> length v \<le> 2 ^ 31)"
| "tpdo_admissible _ = True"

fun frames :: "pdo_out list \<Rightarrow> can_msg list" where
  "frames [] = []"
| "frames (Out_frame m # os) = m # frames os"
| "frames (_ # os) = frames os"

lemma frames_append [simp]: "frames (os @ os') = frames os @ frames os'"
  by (induction os rule: frames.induct) simp_all

text \<open>A classic data frame: at most eight bytes, an 11-bit identifier, or a 29-bit one with the flag for it.\<close>

definition frame_wf :: "can_msg \<Rightarrow> bool" where
  "frame_wf m \<longleftrightarrow> unat (cm_len m) \<le> CAN_MAX_LEN \<and> length (cm_data m) = 64
     \<and> (cm_flags m = 0 \<and> cm_id m AND CAN_MASK_BID = cm_id m \<or> cm_flags m = CAN_FLAG_IDE \<and> cm_id m AND CAN_MASK_EID = cm_id m)"

definition tpdo_recv_of :: "u32 \<Rightarrow> (u32 \<times> u8) option" where
  "tpdo_recv_of cobid = (if pdo_valid cobid \<and> cobid AND CO_PDO_COBID_RTR = 0 then Some (fst (pdo_key cobid), CAN_FLAG_RTR OR snd (pdo_key cobid)) else None)"

definition tpdo_mirrors :: "tpdo \<Rightarrow> bool" where
  "tpdo_mirrors p \<longleftrightarrow>
     (if tp_stopped p then tp_recv p = None
      else tp_comm p = comm_of_od (dv_od (tp_dev p)) (idx_1800 p) \<and> tp_map p = map_of_od (dv_od (tp_dev p)) (idx_1a00 p)
        \<and> tp_recv p = tpdo_recv_of (pc_cobid (tp_comm p)))"

definition tpdo_inv :: "tpdo \<Rightarrow> bool" where
  "tpdo_inv p \<longleftrightarrow> tpdo_mirrors p \<and> frame_wf (tp_msg p) \<and> list_all frame_wf (frames (tp_out p)) \<and> roomy (sq_membuf (tp_req p)) \<and> values_ok (dv_od (tp_dev p))
     \<and> comm_typed (dv_od (tp_dev p)) (idx_1800 p) \<and> map_typed (dv_od (tp_dev p)) (idx_1a00 p) \<and> tp_num p \<noteq> 0 \<and> tp_num p \<le> CO_NUM_PDOS"

text \<open>Most operations keep the parameters, the receiver and the dictionary.\<close>

definition tpdo_par :: "tpdo \<Rightarrow> co_device \<times> u16 \<times> bool \<times> co_pdo_comm_par \<times> co_pdo_map_par \<times> (u32 \<times> u8) option" where
  "tpdo_par p = (tp_dev p, tp_num p, tp_stopped p, tp_comm p, tp_map p, tp_recv p)"

lemma tpdo_inv_par:
  assumes "tpdo_inv p" "tpdo_par p' = tpdo_par p" "frame_wf (tp_msg p')" "list_all frame_wf (frames (tp_out p'))" "roomy (sq_membuf (tp_req p'))"
  shows "tpdo_inv p'"
  using assms by (simp add: tpdo_inv_def tpdo_par_def tpdo_mirrors_def idx_1800_def idx_1a00_def)

lemma init_frame_wf: "frame_wf CAN_MSG_INIT"
  by (simp add: frame_wf_def CAN_MSG_INIT_def)

lemma header_wf:
  assumes "unat n \<le> CAN_MAX_LEN" "length d = 64"
  shows "frame_wf ((tpdo_header p)\<lparr>cm_len := n, cm_data := d\<rparr>)"
  using assms by (auto simp: frame_wf_def tpdo_header_def pdo_key_def CAN_MSG_INIT_def)

text \<open>A step: the parameters stay, the frames are well-formed, and the frame of the service is the only one that it may have sent.\<close>

definition tpdo_step :: "tpdo \<Rightarrow> tpdo \<Rightarrow> bool" where
  "tpdo_step p p' \<longleftrightarrow> tpdo_par p' = tpdo_par p \<and> tp_ind p' = tp_ind p \<and> tp_sample_ind p' = tp_sample_ind p
     \<and> (tpdo_inv p \<longrightarrow> frame_wf (tp_msg p') \<and> roomy (sq_membuf (tp_req p')))
     \<and> (frames (tp_out p') = frames (tp_out p) \<or> frames (tp_out p') = frames (tp_out p) @ [tp_msg p'])"

lemma tpdo_step_inv: "tpdo_inv p \<Longrightarrow> tpdo_step p p' \<Longrightarrow> tpdo_inv p'"
  by (rule tpdo_inv_par) (auto simp: tpdo_step_def tpdo_inv_def)

lemma tpdo_step_refl [simp]: "tpdo_step p p"
  by (simp add: tpdo_step_def tpdo_inv_def)

text \<open>What a step may change without being seen.\<close>

lemma tpdo_step_update [simp]:
  "tpdo_step p (p'\<lparr>tp_timer_event := t\<rparr>) = tpdo_step p p'" "tpdo_step p (p'\<lparr>tp_timer_swnd := t\<rparr>) = tpdo_step p p'"
  "tpdo_step p (p'\<lparr>tp_inhibit := i\<rparr>) = tpdo_step p p'" "tpdo_step p (p'\<lparr>tp_event := b\<rparr>) = tpdo_step p p'"
  "tpdo_step p (p'\<lparr>tp_swnd := b\<rparr>) = tpdo_step p p'" "tpdo_step p (p'\<lparr>tp_sync := c\<rparr>) = tpdo_step p p'" "tpdo_step p (p'\<lparr>tp_cnt := c\<rparr>) = tpdo_step p p'"
  by (simp_all add: tpdo_step_def tpdo_par_def)

lemma tpdo_step_before [simp]:
  "tpdo_step (p\<lparr>tp_timer_event := t\<rparr>) p' = tpdo_step p p'" "tpdo_step (p\<lparr>tp_timer_swnd := t\<rparr>) p' = tpdo_step p p'"
  "tpdo_step (p\<lparr>tp_inhibit := i\<rparr>) p' = tpdo_step p p'" "tpdo_step (p\<lparr>tp_event := b\<rparr>) p' = tpdo_step p p'"
  "tpdo_step (p\<lparr>tp_swnd := b\<rparr>) p' = tpdo_step p p'" "tpdo_step (p\<lparr>tp_sync := c\<rparr>) p' = tpdo_step p p'" "tpdo_step (p\<lparr>tp_cnt := c\<rparr>) p' = tpdo_step p p'"
  by (simp_all add: tpdo_step_def tpdo_par_def tpdo_inv_def tpdo_mirrors_def idx_1800_def idx_1a00_def)

lemma tpdo_inv_update [simp]:
  "tpdo_inv (p\<lparr>tp_timer_event := t\<rparr>) = tpdo_inv p" "tpdo_inv (p\<lparr>tp_timer_swnd := t\<rparr>) = tpdo_inv p" "tpdo_inv (p\<lparr>tp_inhibit := i\<rparr>) = tpdo_inv p"
  "tpdo_inv (p\<lparr>tp_event := b\<rparr>) = tpdo_inv p" "tpdo_inv (p\<lparr>tp_swnd := b\<rparr>) = tpdo_inv p" "tpdo_inv (p\<lparr>tp_sync := c\<rparr>) = tpdo_inv p"
  "tpdo_inv (p\<lparr>tp_cnt := c\<rparr>) = tpdo_inv p"
  by (simp_all add: tpdo_inv_def tpdo_mirrors_def idx_1800_def idx_1a00_def)

lemma tpdo_helpers [simp]:
  "tpdo_step p (co_tpdo_init_timer_event now p') = tpdo_step p p'" "tpdo_step p (co_tpdo_init_timer_swnd now p') = tpdo_step p p'"
  "tpdo_step p (inhibit_from now p') = tpdo_step p p'" "tpdo_step p (inhibit_sent p') = tpdo_step p p'"
  "tpdo_step (inhibit_from now p) p' = tpdo_step p p'" "tpdo_step (co_tpdo_init_timer_swnd now p) p' = tpdo_step p p'"
  "tpdo_inv (co_tpdo_init_timer_swnd now p) = tpdo_inv p" "tpdo_inv (inhibit_from now p) = tpdo_inv p" "tpdo_inv (inhibit_sent p) = tpdo_inv p"
  by (simp_all add: co_tpdo_init_timer_event_def co_tpdo_init_timer_swnd_def inhibit_from_def inhibit_sent_def Let_def)

lemma tpdo_step_trans:
  "tpdo_inv p \<Longrightarrow> tpdo_step p q \<Longrightarrow> frames (tp_out q) = frames (tp_out p) \<Longrightarrow> tpdo_step q r \<Longrightarrow> tpdo_step p r"
  using tpdo_step_inv [of p q] by (auto simp: tpdo_step_def)

lemma step_ind [simp]: "tpdo_step p (tpdo_emit (if b then [Out_ind ac d n] else []) p') = tpdo_step p p'"
    "tpdo_step p (tpdo_emit [Out_sample] p') = tpdo_step p p'"
  by (simp_all add: tpdo_step_def tpdo_emit_def tpdo_par_def)

lemma init_frame_step:
  assumes "tpdo_inv p"
  shows "\<exists>r p'. co_tpdo_init_frame H p = Some (r, p') \<and> tpdo_step p p' \<and> frames (tp_out p') = frames (tp_out p) \<and> (r = 0 \<or> r = -1)"
proof -
  have "length (cm_data (tpdo_header p)) = 64" by (simp add: tpdo_header_def CAN_MSG_INIT_def)
  then obtain ac rq b n where up: "co_pdo_up H (tp_map p) (tp_dev p) (tp_req p) (Some (cm_data (tpdo_header p))) (Some CAN_MAX_LEN) True = Some (ac, rq, Some b, Some n)"
    "length b = 64" "roomy (sq_membuf rq)" "ac = 0 \<longrightarrow> n \<le> CAN_MAX_LEN"
    using pdo_up_safe [of "tp_dev p" "tp_req p" "cm_data (tpdo_header p)" H "tp_map p"] assms by (auto simp: tpdo_inv_def)
  have wf: "frame_wf ((tpdo_header p)\<lparr>cm_data := b\<rparr>)" using header_wf [of 0 b p] up(2) by (simp add: tpdo_header_def CAN_MSG_INIT_def)
  have wf': "frame_wf ((tpdo_header p)\<lparr>cm_data := b, cm_len := of_nat n\<rparr>)" if "ac = 0"
  proof -
    have "unat (of_nat n :: u8) \<le> CAN_MAX_LEN" using up(4) that by (simp add: CAN_MAX_LEN_def unat_of_nat)
    then show ?thesis using header_wf [of "of_nat n" b p] up(2) by (cases "tpdo_header p") simp
  qed
  show ?thesis using up wf wf' by (cases "ac = 0") (auto simp: co_tpdo_init_frame_def Let_def tpdo_step_def tpdo_par_def tpdo_emit_def)
qed

lemma send_frame_step:
  "tpdo_step p (snd (co_tpdo_send_frame ok p))" "frames (tp_out (snd (co_tpdo_send_frame ok p))) = frames (tp_out p) @ (if ok then [tp_msg p] else [])"
  "fst (co_tpdo_send_frame ok p) = (if ok then 0 else -1)"
  by (auto simp: co_tpdo_send_frame_def tpdo_step_def tpdo_par_def tpdo_emit_def tpdo_inv_def Let_def)

text \<open>Sampling or an event: the frame is made and then sent.\<close>

lemma init_send_step:
  assumes "tpdo_inv p" "co_tpdo_init_frame H p = Some (r, p')"
  shows "tpdo_step p p'" "tpdo_step p (snd (co_tpdo_send_frame ok p'))"
proof -
  show s: "tpdo_step p p'" using init_frame_step [OF assms(1), of H] assms(2) by auto
  show "tpdo_step p (snd (co_tpdo_send_frame ok p'))"
    using tpdo_step_trans [OF assms(1) s _ send_frame_step(1)] init_frame_step [OF assms(1), of H] assms(2) by auto
qed

lemma event_step:
  assumes "tpdo_inv p"
  shows "\<exists>r p'. co_tpdo_event H now ok p = Some (r, p') \<and> tpdo_step p p'"
proof -
  obtain r q where q: "co_tpdo_init_frame H p = Some (r, q)" using init_frame_step [OF assms] by blast
  obtain r' q' where q': "co_tpdo_init_frame H (inhibit_from now p) = Some (r', q')"
    using init_frame_step [of "inhibit_from now p" H] assms by auto
  show ?thesis using q q' init_send_step(1) [OF assms q] init_send_step(1) [OF _ q'] init_send_step(2) [OF _ q', of ok] assms
    by (auto simp: co_tpdo_event_def Let_def split: prod.splits)
qed

lemma sample_res_step:
  assumes "tpdo_inv p"
  shows "\<exists>r p'. co_tpdo_sample_res H ac ok p = Some (r, p') \<and> tpdo_step p p'"
proof -
  obtain r q where q: "co_tpdo_init_frame H p = Some (r, q)" using init_frame_step [OF assms] by blast
  then show ?thesis using init_send_step(1) [OF assms q] init_send_step(2) [OF assms q, of ok] by (cases "co_tpdo_send_frame ok q") (auto simp: co_tpdo_sample_res_def Let_def)
qed

lemma sample_step: "tpdo_inv p \<Longrightarrow> \<exists>r p'. sample_ind H sres ok p = Some (r, p') \<and> tpdo_step p p'"
  using sample_res_step [of p H 0 ok] by (auto simp: sample_ind_def)

lemma sync_step:
  assumes "tpdo_inv p"
  shows "\<exists>r p'. co_tpdo_sync H now cnt sres ok p = Some (r, p') \<and> tpdo_step p p'"
proof -
  define q where "q = sync_enter now cnt p"
  have q: "tpdo_inv q" "tpdo_step p q" "\<And>x. tpdo_step q x = tpdo_step p x" using assms by (simp_all add: q_def sync_enter_def Let_def)
  have s: "\<exists>r p'. sample_ind H sres ok q = Some (r, p') \<and> tpdo_step p p'" "\<exists>r p'. sample_ind H sres ok (q\<lparr>tp_event := False\<rparr>) = Some (r, p') \<and> tpdo_step p p'"
    "\<exists>r p'. sample_ind H sres ok (q\<lparr>tp_cnt := 0\<rparr>) = Some (r, p') \<and> tpdo_step p p'"
    using sample_step [of q H sres ok] sample_step [of "q\<lparr>tp_event := False\<rparr>" H sres ok] sample_step [of "q\<lparr>tp_cnt := 0\<rparr>" H sres ok] q by simp_all
  show ?thesis using s q(2) unfolding co_tpdo_sync_def by (simp add: q_def [symmetric] Let_def del: split_paired_Ex)
qed

lemma mpdo_send_step:
  assumes "tpdo_inv p" "length d = 4" "roomy (sq_membuf rq)"
  shows "tpdo_step p (p\<lparr>tp_req := rq, tp_msg := mpdo_frame p x idx subidx d\<rparr>)" (is "tpdo_step p ?q")
    and "tpdo_step p (snd (co_tpdo_send_frame ok (p\<lparr>tp_req := rq, tp_msg := mpdo_frame p x idx subidx d\<rparr>)))"
proof -
  have "frame_wf (mpdo_frame p x idx subidx d)" unfolding mpdo_frame_def using assms(2)
    by (intro header_wf) (simp_all add: CAN_MAX_LEN_def stle_length)
  then show s: "tpdo_step p ?q" using assms(3) by (simp add: tpdo_step_def tpdo_par_def)
  show "tpdo_step p (snd (co_tpdo_send_frame ok ?q))"
    by (rule tpdo_step_trans [OF assms(1) s _ send_frame_step(1)]) simp
qed

lemma dam_step:
  assumes "tpdo_inv p" "length d = 4"
  shows "tpdo_step p (snd (co_dam_mpdo_event now ok nid idx subidx d p))"
proof -
  let ?q = "inhibit_from now p"
  have r: "roomy (sq_membuf (tp_req ?q))" "tpdo_inv ?q" using assms(1) by (simp add: tpdo_inv_def inhibit_from_def, simp)
  have "?q\<lparr>tp_req := tp_req ?q\<rparr> = ?q" by simp
  then show ?thesis using mpdo_send_step(2) [OF r(2) assms(2) r(1), of ok "nid OR 0x80" idx subidx] assms(2)
    by (auto simp: co_dam_mpdo_event_def Let_def split: prod.split)
qed

lemma sam_step:
  assumes "tpdo_inv p"
  shows "\<exists>r p'. co_sam_mpdo_event H now ok idx subidx p = Some (r, p') \<and> tpdo_step p p'"
proof -
  let ?q = "inhibit_from now p"
  have i: "tpdo_inv ?q" "tp_dev ?q = tp_dev p" "tp_req ?q = tp_req p" using assms(1) by (auto simp: inhibit_from_def)
  obtain ac rq d where up: "co_sam_mpdo_up H (tp_dev p) idx subidx (tp_req p) = Some (ac, rq, d)" "length d = 4" "roomy (sq_membuf rq)"
    using sam_up_safe [of "tp_dev p" "tp_req p" H idx subidx] assms by (auto simp: tpdo_inv_def)
  note m = mpdo_send_step(1) [OF i(1) up(2,3), of "dv_id (tp_dev p)" idx subidx] mpdo_send_step(2) [OF i(1) up(2,3), of ok "dv_id (tp_dev p)" idx subidx]
  show ?thesis using up(1) i m by (auto simp: co_sam_mpdo_event_def Let_def split: prod.split)
qed

lemma recv_step:
  assumes "tpdo_inv p"
  shows "\<exists>r p'. co_tpdo_recv H sres ok p = Some (r, p') \<and> tpdo_step p p'"
  using sample_step [OF assms, of H sres ok] send_frame_step(1) [of p ok] by (auto simp: co_tpdo_recv_def)

lemma timer_event_step: "tpdo_inv p \<Longrightarrow> \<exists>p'. co_tpdo_timer_event H now ok p = Some p' \<and> tpdo_step p p'"
  using event_step [of "p\<lparr>tp_timer_event := None\<rparr>" H now ok] by (auto simp: co_tpdo_timer_event_def)

text \<open>The parameters and the dictionary change together.\<close>

lemma idx_1800_distinct:
  "idx_1800 p \<noteq> idx_1a00 p" "idx_1a00 p \<noteq> idx_1800 p"
  by (simp_all add: idx_1800_def idx_1a00_def)

lemma idx_1800_num [simp]:
  "idx_1800 (p\<lparr>tp_dev := d\<rparr>) = idx_1800 p" "idx_1a00 (p\<lparr>tp_dev := d\<rparr>) = idx_1a00 p"
  "idx_1800 (p\<lparr>tp_comm := c\<rparr>) = idx_1800 p" "idx_1a00 (p\<lparr>tp_comm := c\<rparr>) = idx_1a00 p"
  "idx_1800 (p\<lparr>tp_map := m\<rparr>) = idx_1800 p" "idx_1a00 (p\<lparr>tp_map := m\<rparr>) = idx_1a00 p"
  "idx_1800 (p\<lparr>tp_recv := r\<rparr>) = idx_1800 p" "idx_1a00 (p\<lparr>tp_recv := r\<rparr>) = idx_1a00 p"
  "idx_1800 (p\<lparr>tp_stopped := b\<rparr>) = idx_1800 p" "idx_1a00 (p\<lparr>tp_stopped := b\<rparr>) = idx_1a00 p"
  "idx_1800 (p\<lparr>tp_msg := x\<rparr>) = idx_1800 p" "idx_1a00 (p\<lparr>tp_msg := x\<rparr>) = idx_1a00 p"
  by (simp_all add: idx_1800_def idx_1a00_def)

lemma tpdo_start_inv: "tpdo_inv p \<Longrightarrow> tpdo_inv (co_tpdo_start now p)"
  by (auto simp: co_tpdo_start_def co_tpdo_init_recv_def co_tpdo_init_timer_event_def tpdo_inv_def tpdo_mirrors_def tpdo_recv_of_def Let_def
      idx_1800_def idx_1a00_def split: prod.split)

lemma tpdo_stop_inv: "tpdo_inv p \<Longrightarrow> tpdo_inv (co_tpdo_stop p)"
  by (simp add: co_tpdo_stop_def tpdo_inv_def tpdo_mirrors_def idx_1800_def idx_1a00_def)

lemma params_inv:
  assumes "tpdo_inv p" "\<not> tp_stopped p"
    and "comm_of_od (dv_od (tp_dev p')) (idx_1800 p) = tp_comm p'" "map_of_od (dv_od (tp_dev p')) (idx_1a00 p) = tp_map p'" "values_ok (dv_od (tp_dev p'))"
    and "comm_typed (dv_od (tp_dev p')) (idx_1800 p)" "map_typed (dv_od (tp_dev p')) (idx_1a00 p)"
    and "tp_recv p' = tpdo_recv_of (pc_cobid (tp_comm p'))" "tp_num p' = tp_num p" "tp_stopped p' = tp_stopped p"
    and "frame_wf (tp_msg p')" "tp_out p' = tp_out p" "tp_req p' = tp_req p"
  shows "tpdo_inv p'"
proof -
  have "idx_1800 p' = idx_1800 p" "idx_1a00 p' = idx_1a00 p" using assms(9) by (simp_all add: idx_1800_def idx_1a00_def)
  then show ?thesis using assms by (simp add: tpdo_inv_def tpdo_mirrors_def)
qed

lemma values_ok_params:
  assumes "values_ok D"
  shows "typed D i s CO_DEFTYPE_UNSIGNED32 \<Longrightarrow> values_ok (set_val D i s (stle_u32 x))" "typed D i s CO_DEFTYPE_UNSIGNED16 \<Longrightarrow> values_ok (set_val D i s (stle_u16 y))"
    "typed D i s CO_DEFTYPE_UNSIGNED8 \<Longrightarrow> values_ok (set_val D i s [z])"
  using values_ok_set_val [OF assms] by (simp_all add: stle_u32_def stle_u16_def co_deftype)

lemma cobid_set_frame [simp]:
  "tp_comm (cobid_set now v old p) = (tp_comm p)\<lparr>pc_cobid := v\<rparr>" "tp_map (cobid_set now v old p) = tp_map p" "tp_num (cobid_set now v old p) = tp_num p"
  "tp_recv (cobid_set now v old p) = tpdo_recv_of v" "tp_stopped (cobid_set now v old p) = tp_stopped p" "tp_msg (cobid_set now v old p) = CAN_MSG_INIT"
  "tp_out (cobid_set now v old p) = tp_out p" "tp_req (cobid_set now v old p) = tp_req p"
  by (simp_all add: cobid_set_def Let_def co_tpdo_init_recv_def co_tpdo_init_timer_event_def tpdo_recv_of_def case_prod_beta)

lemma dn_1800_inv:
  assumes "tpdo_inv p" "\<not> tp_stopped p" "co_dev_find_sub (dv_od (tp_dev p)) (idx_1800 p) s \<noteq> None"
  shows "tpdo_inv (snd (co_1800_dn_ind now s v p))"
proof -
  have c: "comm_typed (dv_od (tp_dev p)) (idx_1800 p)" "map_typed (dv_od (tp_dev p)) (idx_1a00 p)" "values_ok (dv_od (tp_dev p))" "frame_wf (tp_msg p)"
    using assms(1) by (simp_all add: tpdo_inv_def)
  have m: "comm_of_od (dv_od (tp_dev p)) (idx_1800 p) = tp_comm p" "map_of_od (dv_od (tp_dev p)) (idx_1a00 p) = tp_map p"
    "tp_recv p = tpdo_recv_of (pc_cobid (tp_comm p))" using assms(1,2) by (simp_all add: tpdo_inv_def tpdo_mirrors_def)
  note facts = m comm_set_val [OF c(1) assms(3)] c values_ok_params [OF c(3)] c(1) [unfolded comm_typed_def] idx_1800_distinct [of p] init_frame_wf
  note unf = co_tpdo_init_recv_def co_tpdo_init_timer_event_def tpdo_recv_of_def case_prod_beta other_set_val
  have 1: "tpdo_inv ((cobid_set now v old p)\<lparr>tp_dev := od_write (tp_dev p) (idx_1800 p) 1 (stle_u32 v)\<rparr>)" if "s = 1" for old
    by (rule params_inv [OF assms(1,2)]) (use facts that in \<open>simp_all add: unf\<close>)
  have 2: "tpdo_inv ((co_tpdo_init_recv (p\<lparr>tp_comm := (tp_comm p)\<lparr>pc_trans := x\<rparr>\<rparr>))\<lparr>tp_dev := od_write (tp_dev p) (idx_1800 p) 2 [x]\<rparr>)" if "s = 2" for x
    by (rule params_inv [OF assms(1,2)]) (use facts that in \<open>simp_all add: unf\<close>)
  have 3: "tpdo_inv (p\<lparr>tp_comm := (tp_comm p)\<lparr>pc_inhibit := x\<rparr>, tp_dev := od_write (tp_dev p) (idx_1800 p) 3 (stle_u16 x)\<rparr>)" if "s = 3" for x
    by (rule params_inv [OF assms(1,2)]) (use facts that in \<open>simp_all add: unf\<close>)
  have 5: "tpdo_inv ((co_tpdo_init_timer_event now (p\<lparr>tp_comm := (tp_comm p)\<lparr>pc_event := x\<rparr>\<rparr>))\<lparr>tp_dev := od_write (tp_dev p) (idx_1800 p) 5 (stle_u16 x)\<rparr>)" if "s = 5" for x
    by (rule params_inv [OF assms(1,2)]) (use facts that in \<open>simp_all add: unf\<close>)
  have 6: "tpdo_inv (p\<lparr>tp_comm := (tp_comm p)\<lparr>pc_sync := x\<rparr>, tp_dev := od_write (tp_dev p) (idx_1800 p) 6 [x]\<rparr>)" if "s = 6" for x
    by (rule params_inv [OF assms(1,2)]) (use facts that in \<open>simp_all add: unf\<close>)
  show ?thesis using assms(1) 1 2 3 5 6 unfolding co_1800_dn_ind_def Let_def by simp
qed

lemma dn_1a00_inv:
  assumes "tpdo_inv p" "\<not> tp_stopped p" "co_dev_find_sub (dv_od (tp_dev p)) (idx_1a00 p) s \<noteq> None" "s \<le> CO_PDO_NUM_MAPS"
  shows "\<exists>x p'. co_1a00_dn_ind s v p = Some (x, p') \<and> tpdo_inv p'"
proof -
  have c: "map_typed (dv_od (tp_dev p)) (idx_1a00 p)" using assms(1) by (simp add: tpdo_inv_def)
  have n: "unat s \<le> 64" using assms(4) by (simp add: CO_PDO_NUM_MAPS_def word_le_nat_alt)
  have vo: "values_ok (dv_od (tp_dev p))" using assms(1) by (simp add: tpdo_inv_def)
  note unf = co_1a00_dn_ind_def Let_def tpdo_inv_def tpdo_mirrors_def other_set_val idx_1800_distinct
  show ?thesis
  proof (cases "s = 0")
    case True
    then show ?thesis using assms map_set_val(1) [OF c assms(3)] values_ok_params [OF vo] c [unfolded map_typed_def] by (simp add: unf)
  next
    case False
    then show ?thesis using assms map_set_val(2) [OF c assms(3) False n] leD [OF assms(4)] values_ok_params [OF vo] c [unfolded map_typed_def] by (simp add: unf)
  qed
qed

lemma write_inv:
  assumes "tpdo_inv p" "idx < 0x1800 \<or> idx > 0x1bff" "v \<noteq> []" "length v \<le> 2 ^ 31"
  shows "tpdo_inv (p\<lparr>tp_dev := od_put (tp_dev p) idx s v\<rparr>)"
proof -
  have "tp_num p \<noteq> 0" "tp_num p \<le> 512" using assms(1) by (simp_all add: tpdo_inv_def CO_NUM_PDOS_def)
  then have "idx_1800 p \<noteq> idx" "idx_1a00 p \<noteq> idx"
    using assms(2) by (auto simp: idx_1800_def idx_1a00_def word_less_nat_alt word_le_nat_alt unat_eq_0 unat_word_ariths)
  then show ?thesis using assms values_ok_put_val by (auto simp: tpdo_inv_def tpdo_mirrors_def other_put_val)
qed

interpretation tpdo: service "tpdo_exec H" tpdo_inv tpdo_admissible for H
proof
  fix p e assume p: "tpdo_inv p" and e: "tpdo_admissible e"
  note steps = event_step sync_step sample_res_step sam_step recv_step timer_event_step
  show "\<exists>p'. tpdo_exec H e p = Some p' \<and> tpdo_inv p'"
  proof (cases e)
    case (T_dam now ok nid idx subidx d)
    then show ?thesis using e tpdo_step_inv [OF p dam_step [OF p]] by simp
  next
    case (T_timer_event now ok)
    then show ?thesis using p timer_event_step [OF p, of H now ok] tpdo_step_inv [OF p] by auto
  next
    case T_timer_swnd
    then show ?thesis using p by (simp add: co_tpdo_timer_swnd_def)
  next
    case (T_1800 now s v)
    then show ?thesis using p dn_1800_inv [OF p] by auto
  next
    case (T_1a00 s v)
    then show ?thesis using p e dn_1a00_inv [OF p, of s v] by auto
  next
    case (T_write idx s v)
    then show ?thesis using e write_inv [OF p] by simp
  next
    case (T_recv msg sres ok)
    then show ?thesis using p recv_step [OF p, of H sres ok] tpdo_step_inv [OF p] by auto
  next
    case (T_event now ok)
    then show ?thesis using event_step [OF p, of H now ok] tpdo_step_inv [OF p] by auto
  next
    case (T_sync now cnt sres ok)
    then show ?thesis using sync_step [OF p, of H now cnt sres ok] tpdo_step_inv [OF p] by auto
  next
    case (T_sample_res ac ok)
    then show ?thesis using sample_res_step [OF p, of H ac ok] tpdo_step_inv [OF p] by auto
  next
    case (T_sam now ok idx subidx)
    then show ?thesis using sam_step [OF p, of H now ok idx subidx] tpdo_step_inv [OF p] by auto
  qed (use tpdo_start_inv [OF p] tpdo_stop_inv [OF p] in auto)
qed

lemma init_tpdo_inv:
  assumes "co_tpdo_init now dev num = Some p" "values_ok (dv_od dev)"
    and "comm_typed (dv_od dev) (0x1800 + num - 1)" "map_typed (dv_od dev) (0x1a00 + num - 1)"
  shows "tpdo_inv p"
proof -
  have "num \<noteq> 0" "num \<le> CO_NUM_PDOS" using assms(1) by (auto simp: co_tpdo_init_def split: if_splits)
  then show ?thesis using assms(1) assms(3,4)
    by (clarsimp simp: co_tpdo_init_def split: if_splits)
      (rule tpdo_start_inv, simp add: tpdo_inv_def tpdo_mirrors_def idx_1800_def idx_1a00_def assms(2) init_frame_wf roomy_def co_sdo_req_init_def)
qed

text \<open>
  The application gives four bytes to a destination address multiplex PDO, and changes values of at least one byte outside of the
  parameter records of PDOs, which have indication functions of their own.
\<close>

fun tpdo_event_ok :: "tpdo_run_event \<Rightarrow> bool" where
  "tpdo_event_ok (T_dam now ok nid idx subidx d) = (length d = 4)"
| "tpdo_event_ok (T_write idx s v) = ((idx < 0x1800 \<or> idx > 0x1bff) \<and> v \<noteq> [] \<and> length v \<le> 2 ^ 31)"
| "tpdo_event_ok _ = True"

definition tpdo_sized :: "tpdo \<Rightarrow> bool" where
  "tpdo_sized p \<longleftrightarrow> tpdo_inv p \<and> map_sized (dv_od (tp_dev p)) (idx_1a00 p)"

lemma tpdo_exec_subs:
  assumes "tpdo_inv p" "tpdo_admissible e" "tpdo_exec H e p = Some p'"
  shows "tp_num p' = tp_num p \<and> map_sized (dv_od (tp_dev p')) idx = map_sized (dv_od (tp_dev p)) idx"
proof -
  have step: "tp_num q = tp_num p \<and> map_sized (dv_od (tp_dev q)) idx = map_sized (dv_od (tp_dev p)) idx" if "tpdo_step p q" for q
    using that by (simp add: tpdo_step_def tpdo_par_def)
  note steps = event_step [OF assms(1), of H] sync_step [OF assms(1), of H] sample_res_step [OF assms(1), of H] sam_step [OF assms(1), of H]
    recv_step [OF assms(1), of H] timer_event_step [OF assms(1), of H]
  have fin: ?thesis if "tpdo_exec H e p = Some q \<and> tpdo_step p q" for q
    using step [of q] that assms(3) by simp
  show ?thesis
  proof (cases e)
    case (T_dam now ok nid i subidx d)
    then have "tpdo_exec H e p = Some (snd (co_dam_mpdo_event now ok nid i subidx d p)) \<and> tpdo_step p (snd (co_dam_mpdo_event now ok nid i subidx d p))"
      using assms(2) dam_step [OF assms(1)] by simp
    then show ?thesis by (rule fin)
  next
    case (T_timer_event now ok)
    then have "\<exists>q. tpdo_exec H e p = Some q \<and> tpdo_step p q" using steps(6) [of now ok] by (cases "tp_timer_event p = None") auto
    then show ?thesis using fin by blast
  next
    case (T_recv msg sres ok)
    then have "\<exists>q. tpdo_exec H e p = Some q \<and> tpdo_step p q" using steps(5) [of sres ok] by (cases "pdo_hears (tp_recv p) msg") auto
    then show ?thesis using fin by blast
  next
    case (T_event now ok)
    then have "\<exists>q. tpdo_exec H e p = Some q \<and> tpdo_step p q" using steps(1) [of now ok] by auto
    then show ?thesis using fin by blast
  next
    case (T_sync now cnt sres ok)
    then have "\<exists>q. tpdo_exec H e p = Some q \<and> tpdo_step p q" using steps(2) [of now cnt sres ok] by auto
    then show ?thesis using fin by blast
  next
    case (T_sample_res ac ok)
    then have "\<exists>q. tpdo_exec H e p = Some q \<and> tpdo_step p q" using steps(3) [of ac ok] by auto
    then show ?thesis using fin by blast
  next
    case (T_sam now ok i subidx)
    then have "\<exists>q. tpdo_exec H e p = Some q \<and> tpdo_step p q" using steps(4) [of now ok i subidx] by auto
    then show ?thesis using fin by blast
  next
    case (T_1800 now s v)
    have "tp_num (snd (co_1800_dn_ind now s v p)) = tp_num p" "map_sized (dv_od (tp_dev (snd (co_1800_dn_ind now s v p)))) idx = map_sized (dv_od (tp_dev p)) idx"
      by (simp_all add: co_1800_dn_ind_def co_tpdo_init_recv_def co_tpdo_init_timer_event_def Let_def)
    then show ?thesis using assms(3) T_1800 by (auto split: if_splits)
  next
    case (T_1a00 s v)
    then show ?thesis using assms(3) by (auto simp: co_1a00_dn_ind_def Let_def split: if_splits)
  qed (use assms(3) in \<open>auto simp: co_tpdo_start_def co_tpdo_stop_def co_tpdo_init_recv_def co_tpdo_init_timer_event_def co_tpdo_timer_swnd_def Let_def split: if_splits\<close>)
qed

interpretation tpdo_whole: service "tpdo_exec H" tpdo_sized tpdo_event_ok for H
proof
  fix p e assume p: "tpdo_sized p" and e: "tpdo_event_ok e"
  show "\<exists>p'. tpdo_exec H e p = Some p' \<and> tpdo_sized p'"
  proof (cases "tpdo_admissible e")
    case True
    then obtain p' where p': "tpdo_exec H e p = Some p'" "tpdo_inv p'" using tpdo.exec_safe [of p e H] p by (auto simp: tpdo_sized_def)
    have "tp_num p' = tp_num p" "map_sized (dv_od (tp_dev p')) (idx_1a00 p)"
      using tpdo_exec_subs [OF _ True p'(1)] p by (auto simp: tpdo_sized_def)
    then show ?thesis using p' by (simp add: tpdo_sized_def idx_1a00_def)
  next
    case False
    then obtain s v where "e = T_1a00 s v" "CO_PDO_NUM_MAPS < s" using e by (cases e) auto
    then have "tpdo_exec H e p = Some p" using p by (simp add: tpdo_sized_def map_sized_def)
    then show ?thesis using p by simp
  qed
qed

text \<open>C8. A Transmit-PDO stays well-typed. Over a dictionary without empty values, whose parameter records for this PDO have the right types, do not
  refuse downloads and have at most 64 mapping entries: from its creation, through every sequence of application calls, SYNC objects, remote requests, timers,
  downloads to its parameter records and changes of values outside of the parameter records of PDOs, every operation returns without leaving a buffer, and every frame it has
  given to the network is a classic data frame: at most eight bytes, and an identifier that fits the
  identifier flag. While it runs, its parameters are those of the object dictionary and it listens for remote requests exactly
  when its COB-ID is valid and allows them.
\<close>

theorem tpdo_frames_well_typed:
  assumes "co_tpdo_init now dev num = Some p" "values_ok (dv_od dev)"
    and "comm_typed (dv_od dev) (0x1800 + num - 1)" "map_typed (dv_od dev) (0x1a00 + num - 1)"
    and "map_sized (dv_od dev) (0x1a00 + num - 1)" "list_all tpdo_event_ok es"
  shows "\<exists>p'. run_events (tpdo_exec H) es p = Some p' \<and> list_all frame_wf (frames (tp_out p')) \<and> tpdo_mirrors p'"
proof -
  have "tp_dev p = dev" "tp_num p = num"
    using assms(1) by (auto simp: co_tpdo_init_def co_tpdo_start_def co_tpdo_init_recv_def co_tpdo_init_timer_event_def Let_def split: if_splits)
  then have "tpdo_sized p" using init_tpdo_inv [OF assms(1-4)] assms(5) by (simp add: tpdo_sized_def idx_1a00_def)
  from tpdo_whole.run_safe [OF this assms(6), of H] show ?thesis by (auto simp: tpdo_sized_def tpdo_inv_def)
qed

section \<open>A Transmit-PDO for the witnesses\<close>

definition demo_tpdo_dev :: "u8 \<Rightarrow> co_device" where
  "demo_tpdo_dev tt = \<lparr>dv_od = [0x1800 \<mapsto> demo_obj [0 \<mapsto> par_sub 5 [5], 1 \<mapsto> par_sub 7 (stle_u32 0x20000205), 2 \<mapsto> par_sub 5 [tt], 3 \<mapsto> par_sub 6 (stle_u16 10)],
     0x1a00 \<mapsto> demo_obj [0 \<mapsto> par_sub 5 [1], 1 \<mapsto> par_sub 7 (stle_u32 0x20000110)],
     0x2000 \<mapsto> demo_obj [1 \<mapsto> demo_sub 6 [0x34, 0x12]]], dv_id = 1, dv_dummy = 0\<rparr>"

definition demo_tpdo :: "u8 \<Rightarrow> tpdo" where
  "demo_tpdo tt = the (co_tpdo_init 0 (demo_tpdo_dev tt) 1)"

lemma demo_tpdo_init:
  "co_tpdo_init 0 (demo_tpdo_dev tt) 1 = Some (demo_tpdo tt)" "values_ok (dv_od (demo_tpdo_dev tt))"
  "comm_typed (dv_od (demo_tpdo_dev tt)) (0x1800 + 1 - 1)" "map_typed (dv_od (demo_tpdo_dev tt)) (0x1a00 + 1 - 1)"
  by (auto simp: demo_tpdo_def co_tpdo_init_def demo_tpdo_dev_def CO_NUM_PDOS_def values_ok_def co_dev_find_sub_def stle_u32_def stle_u16_def
      demo_obj_def par_sub_def demo_sub_def comm_typed_def map_typed_def typed_def CO_DEFTYPE_UNSIGNED8_def CO_DEFTYPE_UNSIGNED16_def
      CO_DEFTYPE_UNSIGNED32_def split: if_splits option.splits)

lemma demo_tpdo_sized: "map_sized (dv_od (demo_tpdo_dev tt)) (0x1a00 + 1 - 1)"
  by (auto simp: map_sized_def CO_PDO_NUM_MAPS_def co_dev_find_sub_def demo_tpdo_dev_def demo_obj_def)

theorem tpdo_frames_well_typed_witness:
  "\<exists>p'. run_events (tpdo_exec example_heap) [T_event 0 True, T_write 0x2000 1 [1, 2], T_1800 5 1 0xa0000205, T_1a00 0 0, T_1a00 200 7, T_sync 7 0 0 True, T_stop, T_start 9]
      (demo_tpdo 0xff) = Some p' \<and> list_all frame_wf (frames (tp_out p')) \<and> tpdo_mirrors p'"
  by (rule tpdo_frames_well_typed [OF demo_tpdo_init demo_tpdo_sized]) simp

end
