(* ===== verification/Co_Pdo_Net.thy ===== *)
theory Co_Pdo_Net
  imports Co_Tpdo
begin

text \<open>
  Process data on the bus: what a Transmit-PDO sends on SYNC objects and events, the spacing of event-driven frames, and
  the way of a value from the dictionary of the sender to the dictionary of a receiver.
\<close>

unbundle bit_operations_syntax

text \<open>A valid Transmit-PDO whose mapping fits into a frame and whose mapped objects can be read.\<close>

definition pdo_ready :: "tpdo \<Rightarrow> bool" where
  "pdo_ready p \<longleftrightarrow> tpdo_inv p \<and> tp_valid p \<and> pm_n (tp_map p) \<le> CO_PDO_NUM_MAPS \<and> pdo_bits (map_entries (tp_map p)) \<le> 64
     \<and> (\<forall>m\<in>set (map_entries (tp_map p)). sendable (tp_dev p) m)"

text \<open>The frame for the values that the dictionary of the sender has.\<close>

definition frame_of :: "tpdo \<Rightarrow> can_msg \<Rightarrow> bool" where
  "frame_of p f \<longleftrightarrow> (cm_id f, cm_flags f) = pdo_key (pc_cobid (tp_comm p)) \<and> unat (cm_len f) = (pdo_bits (map_entries (tp_map p)) + 7) div 8
     \<and> length (cm_data f) = 64 \<and> carries (zip (map_entries (tp_map p)) (map (pdo_value (tp_dev p)) (map_entries (tp_map p)))) 0 (cm_data f)"

lemma pdo_ready_step: "pdo_ready p \<Longrightarrow> tpdo_step p p' \<Longrightarrow> pdo_ready p'"
  using tpdo_step_inv [of p p'] by (simp add: pdo_ready_def tpdo_step_def tpdo_par_def)

lemma frame_of_step: "tpdo_step p p' \<Longrightarrow> frame_of p' = frame_of p"
  by (simp add: frame_of_def tpdo_step_def tpdo_par_def fun_eq_iff)

lemma init_frame_ready:
  assumes "pdo_ready p" "\<And>sz. hp_ok H sz"
  shows "\<exists>rq f. co_tpdo_init_frame H p = Some (0, p\<lparr>tp_req := rq, tp_msg := f\<rparr>) \<and> frame_of p f"
proof -
  let ?ms = "map_entries (tp_map p)" and ?h = "tpdo_header p" and ?n = "(pdo_bits (map_entries (tp_map p)) + 7) div 8"
  have h: "length (cm_data ?h) = 64" by (simp add: tpdo_header_def CAN_MSG_INIT_def)
  obtain b rq where up: "pdo_up_loop H ?ms 0 (tp_dev p) (tp_req p) (Some (cm_data ?h)) (Some CAN_MAX_LEN) True = Some (0, pdo_bits ?ms, rq, Some b)"
    "length b = 64" "carries (zip ?ms (map (pdo_value (tp_dev p)) ?ms)) 0 b"
    using up_loop_sends [of ?ms "tp_dev p" 0 CAN_MAX_LEN "cm_data ?h" "tp_req p" H] assms h
    by (auto simp: pdo_ready_def tpdo_inv_def CAN_MAX_LEN_def)
  have "?n \<le> 8" using frame_bytes [of "pdo_bits ?ms" 8] assms(1) by (auto simp: pdo_ready_def)
  then have len: "unat (of_nat ?n :: u8) = ?n" by (simp add: unat_of_nat)
  have "co_pdo_up H (tp_map p) (tp_dev p) (tp_req p) (Some (cm_data ?h)) (Some CAN_MAX_LEN) True = Some (0, rq, Some b, Some ?n)"
    using up(1) assms(1) by (simp add: co_pdo_up_def pdo_ready_def leD)
  then have "co_tpdo_init_frame H p = Some (0, p\<lparr>tp_req := rq, tp_msg := ?h\<lparr>cm_data := b, cm_len := of_nat ?n\<rparr>\<rparr>)"
    by (simp add: co_tpdo_init_frame_def Let_def)
  moreover have "frame_of p (?h\<lparr>cm_data := b, cm_len := of_nat ?n\<rparr>)"
    using up(2,3) len by (simp add: frame_of_def tpdo_header_def)
  ultimately show ?thesis by blast
qed

text \<open>Making the frame and sending it.\<close>

lemma init_send_ready:
  assumes "pdo_ready p" "\<And>sz. hp_ok H sz"
  shows "\<exists>p' f. co_tpdo_init_frame H p = Some (0, p') \<and> fst (co_tpdo_send_frame True p') = 0 \<and> frame_of p f
    \<and> frames (tp_out (snd (co_tpdo_send_frame True p'))) = frames (tp_out p) @ [f] \<and> tpdo_step p (snd (co_tpdo_send_frame True p'))
    \<and> tp_sync (snd (co_tpdo_send_frame True p')) = tp_sync p \<and> tp_cnt (snd (co_tpdo_send_frame True p')) = tp_cnt p
    \<and> tp_inhibit (snd (co_tpdo_send_frame True p')) = tp_inhibit p"
proof -
  obtain rq f where f: "co_tpdo_init_frame H p = Some (0, p\<lparr>tp_req := rq, tp_msg := f\<rparr>)" "frame_of p f" using init_frame_ready [OF assms] by blast
  let ?p = "p\<lparr>tp_req := rq, tp_msg := f\<rparr>"
  have "tpdo_step p (snd (co_tpdo_send_frame True ?p))" using init_send_step(2) [OF _ f(1)] assms(1) by (simp add: pdo_ready_def)
  then show ?thesis using f send_frame_step(2,3) [of True ?p]
    by (intro exI [of _ ?p] exI [of _ f]) (auto simp: co_tpdo_send_frame_def tpdo_emit_def Let_def)
qed

lemma sync_cyclic:
  assumes "pdo_ready p" "\<And>sz. hp_ok H sz" "pc_trans (tp_comm p) \<noteq> 0" "pc_trans (tp_comm p) \<le> 0xf0" "tp_sync p = 0" "\<not> tp_sample_ind p" "cnt \<le> 240"
    and "tp_cnt p < pc_trans (tp_comm p)"
  defines "n \<equiv> unat (pc_trans (tp_comm p))"
  shows "\<exists>p'. tpdo_exec H (T_sync now cnt 0 True) p = Some p' \<and> tpdo_step p p' \<and> tp_sync p' = 0 \<and> unat (tp_cnt p') = (unat (tp_cnt p) + 1) mod n
    \<and> (\<exists>fs. frames (tp_out p') = frames (tp_out p) @ fs \<and> list_all (frame_of p) fs \<and> length fs = (unat (tp_cnt p) + 1) div n)"
proof -
  let ?q = "sync_enter now cnt p"
  have q: "tpdo_step p ?q" "\<And>x. tpdo_step ?q x = tpdo_step p x" "tp_cnt ?q = tp_cnt p" "tp_sync ?q = 0" "tp_sample_ind ?q = tp_sample_ind p" "\<not> tp_swnd ?q"
    "tp_comm ?q = tp_comm p" "tp_map ?q = tp_map p" "tp_out ?q = tp_out p"
    using assms(5) by (simp_all add: sync_enter_def co_tpdo_init_timer_swnd_def Let_def)
  have nc: "\<not> 240 < cnt" "\<not> 0xf0 < pc_trans (tp_comm p)" using assms(4,7) by auto
  have lt: "unat (tp_cnt p) < n" "n \<le> 240" using assms(8,4) by (simp_all add: n_def word_less_nat_alt word_le_nat_alt)
  then have suc: "unat (tp_cnt p + 1) = unat (tp_cnt p) + 1" by (simp add: unat_word_ariths)
  have v: "tp_valid p" "\<not> 0x40 < pm_n (tp_map p)" using assms(1) by (auto simp: pdo_ready_def CO_PDO_NUM_MAPS_def)
  show ?thesis
  proof (cases "tp_cnt p + 1 < pc_trans (tp_comm p)")
    case True
    then have "tpdo_exec H (T_sync now cnt 0 True) p = Some (?q\<lparr>tp_cnt := tp_cnt p + 1\<rparr>)"
      using nc assms(3-5) v q by (simp add: co_tpdo_sync_def Let_def)
    moreover have "unat (tp_cnt p) + 1 < n" using True suc by (simp add: n_def word_less_nat_alt)
    ultimately show ?thesis using q suc by auto
  next
    case False
    let ?r = "?q\<lparr>tp_cnt := 0\<rparr>"
    have eq: "unat (tp_cnt p) + 1 = n" using False suc lt by (simp add: n_def word_less_nat_alt)
    have r: "pdo_ready ?r" "frame_of ?r = frame_of p" using pdo_ready_step [OF assms(1), of ?r] frame_of_step [of p ?r] q(1) by auto
    obtain p' f where p': "co_tpdo_init_frame H ?r = Some (0, p')" "fst (co_tpdo_send_frame True p') = 0" "frame_of p f"
      "frames (tp_out (snd (co_tpdo_send_frame True p'))) = frames (tp_out p) @ [f]" "tpdo_step p (snd (co_tpdo_send_frame True p'))"
      "tp_sync (snd (co_tpdo_send_frame True p')) = 0" "tp_cnt (snd (co_tpdo_send_frame True p')) = 0"
      using init_send_ready [OF r(1) assms(2)] r(2) q by auto
    have "co_tpdo_sample_res H 0 True ?r = Some (co_tpdo_send_frame True p')"
      using p'(1) v q nc assms(4) by (auto simp: co_tpdo_sample_res_def Let_def)
    then have "tpdo_exec H (T_sync now cnt 0 True) p = Some (snd (co_tpdo_send_frame True p'))"
      using False nc assms(3-6) v q by (simp add: co_tpdo_sync_def sample_ind_def Let_def)
    then show ?thesis using p' eq lt by (intro exI [of _ "snd (co_tpdo_send_frame True p')"]) auto
  qed
qed

lemma div_carry:
  assumes "0 < (n :: nat)"
  shows "x div n + (k + x mod n) div n = (k + x) div n"
proof -
  have "k + x = (k + x mod n) + x div n * n" using div_mult_mod_eq [of x n] by linarith
  then have "(k + x) div n = (k + x mod n + x div n * n) div n" by (rule arg_cong)
  also have "\<dots> = x div n + (k + x mod n) div n" by (rule div_mult_self1) (use assms in simp)
  finally show ?thesis by (rule sym)
qed

text \<open>C6. A cyclic synchronous Transmit-PDO of transmission type n sends on every n-th SYNC object and on no other: after any number of
  SYNC objects, with or without a counter, it has sent their number divided by n frames, each with the identifier and the length that the
  parameters say, and each carries the values of the mapped objects at their bit positions.
\<close>

theorem tpdo_cyclic_sync:
  assumes "pdo_ready p" "\<And>sz. hp_ok H sz" "pc_trans (tp_comm p) \<noteq> 0" "pc_trans (tp_comm p) \<le> 0xf0" "tp_sync p = 0" "\<not> tp_sample_ind p"
    and "list_all (\<lambda>(t, c). c \<le> 240) ts" "tp_cnt p < pc_trans (tp_comm p)"
  shows "\<exists>p' fs. run_events (tpdo_exec H) (map (\<lambda>(t, c). T_sync t c 0 True) ts) p = Some p' \<and> frames (tp_out p') = frames (tp_out p) @ fs
    \<and> list_all (frame_of p) fs \<and> length fs = (unat (tp_cnt p) + length ts) div unat (pc_trans (tp_comm p))"
  using assms(1,3-)
proof (induction ts arbitrary: p)
  case Nil
  then show ?case by (auto simp: word_less_nat_alt)
next
  case (Cons s ts)
  obtain t c where s: "s = (t, c)" by (cases s)
  let ?n = "unat (pc_trans (tp_comm p))"
  obtain p1 fs where p1: "tpdo_exec H (T_sync t c 0 True) p = Some p1" "tpdo_step p p1" "tp_sync p1 = 0" "unat (tp_cnt p1) = (unat (tp_cnt p) + 1) mod ?n"
    "frames (tp_out p1) = frames (tp_out p) @ fs" "list_all (frame_of p) fs" "length fs = (unat (tp_cnt p) + 1) div ?n"
    using sync_cyclic [OF Cons.prems(1) assms(2) Cons.prems(2-5) _ Cons.prems(7), of c t] Cons.prems(6) s by auto
  have c: "tp_comm p1 = tp_comm p" "tp_sample_ind p1 = tp_sample_ind p" using p1(2) by (auto simp: tpdo_step_def tpdo_par_def)
  have n: "0 < ?n" using Cons.prems(2) by (simp add: unat_gt_0)
  then have "tp_cnt p1 < pc_trans (tp_comm p1)" using p1(4) c by (simp add: word_less_nat_alt)
  then obtain p2 gs where p2: "run_events (tpdo_exec H) (map (\<lambda>(t, c). T_sync t c 0 True) ts) p1 = Some p2" "frames (tp_out p2) = frames (tp_out p1) @ gs"
    "list_all (frame_of p) gs" "length gs = (unat (tp_cnt p1) + length ts) div ?n"
    using Cons.IH [of p1] pdo_ready_step [OF Cons.prems(1) p1(2)] frame_of_step [OF p1(2)] Cons.prems c p1(3) by auto
  have "run_events (tpdo_exec H) (map (\<lambda>(t, c). T_sync t c 0 True) (s # ts)) p = Some p2" using p1(1) p2(1) s by (simp del: tpdo_exec.simps)
  moreover have "length fs + length gs = (unat (tp_cnt p) + length (s # ts)) div ?n"
    using p1(4,7) p2(4) div_carry [OF n, of "unat (tp_cnt p) + 1" "length ts"] by (simp add: ac_simps)
  ultimately show ?case using p1(5,6) p2(2,3) by (intro exI [of _ p2] exI [of _ "fs @ gs"]) simp
qed

section \<open>The inhibit time\<close>

lemma event_driven: "x \<ge> 0xfe \<Longrightarrow> x = 0xfe \<or> x = 0xff" for x :: u8
proof -
  assume "x \<ge> 0xfe"
  then have "254 \<le> unat x" "unat x < 256" using unat_u8_lt [of x] by (simp_all add: word_le_nat_alt)
  then have "unat x = 254 \<or> unat x = 255" by linarith
  then show ?thesis by (auto simp: word_unat_eq_iff)
qed

lemma event_sends:
  assumes "pdo_ready p" "\<And>sz. hp_ok H sz" "pc_trans (tp_comm p) \<ge> 0xfe" "\<not> inhibited now p"
  shows "\<exists>p' f. co_tpdo_event H now True p = Some (0, p') \<and> frames (tp_out p') = frames (tp_out p) @ [f] \<and> frame_of p f \<and> tpdo_step p p'
    \<and> (pc_inhibit (tp_comm p) \<noteq> 0 \<longrightarrow> tp_inhibit p' = now + unat (pc_inhibit (tp_comm p)) * 100000)"
proof -
  let ?i = "inhibit_from now p"
  have i: "pdo_ready ?i" "frame_of ?i = frame_of p" "tp_out ?i = tp_out p" "pc_inhibit (tp_comm p) \<noteq> 0 \<Longrightarrow> tp_inhibit ?i = now"
    using pdo_ready_step [OF assms(1), of ?i] frame_of_step [of p ?i] by (simp_all add: inhibit_from_def)
  obtain p' f where p': "co_tpdo_init_frame H ?i = Some (0, p')" "fst (co_tpdo_send_frame True p') = 0" "frame_of p f"
    "frames (tp_out (snd (co_tpdo_send_frame True p'))) = frames (tp_out p) @ [f]" "tpdo_step p (snd (co_tpdo_send_frame True p'))"
    "tp_inhibit (snd (co_tpdo_send_frame True p')) = tp_inhibit ?i"
    using init_send_ready [OF i(1) assms(2)] i by auto
  let ?p = "co_tpdo_init_timer_event now (inhibit_sent (snd (co_tpdo_send_frame True p')))"
  have v: "tp_valid p" "\<not> 0x40 < pm_n (tp_map p)" using assms(1) by (auto simp: pdo_ready_def CO_PDO_NUM_MAPS_def)
  have "co_tpdo_event H now True p = Some (0, ?p)"
    using p'(1,2) event_driven [OF assms(3)] v assms(4) by (auto simp: co_tpdo_event_def split_def Let_def)
  moreover have "tp_out ?p = tp_out (snd (co_tpdo_send_frame True p'))" by (simp add: co_tpdo_init_timer_event_def inhibit_sent_def)
  moreover have "tp_comm (snd (co_tpdo_send_frame True p')) = tp_comm p" using p'(5) by (simp add: tpdo_step_def tpdo_par_def)
  then have "tp_inhibit ?p = now + unat (pc_inhibit (tp_comm p)) * 100000" if "pc_inhibit (tp_comm p) \<noteq> 0"
    using that p'(6) i(4) by (simp add: co_tpdo_init_timer_event_def inhibit_sent_def)
  ultimately show ?thesis using p' by (intro exI [of _ ?p] exI [of _ f]) simp
qed

text \<open>
  An event-driven PDO that has sent a frame, and what may happen until its inhibit time has passed at \<open>until\<close>: everything but
  stopping it and writing its COB-ID or its transmission type.
\<close>

definition inhibit_rests :: "nat \<Rightarrow> tpdo \<Rightarrow> bool" where
  "inhibit_rests until p \<longleftrightarrow> tpdo_inv p \<and> \<not> tp_stopped p \<and> tp_valid p \<and> pc_trans (tp_comm p) \<ge> 0xfe \<and> pc_inhibit (tp_comm p) \<noteq> 0 \<and> tp_inhibit p = until"

fun before :: "nat \<Rightarrow> tpdo_run_event \<Rightarrow> bool" where
  "before until (T_event now ok) = (now < until)"
| "before until (T_timer_event now ok) = (now < until)"
| "before until (T_dam now ok nid idx subidx d) = (now < until \<and> length d = 4)"
| "before until (T_sam now ok idx subidx) = (now < until)"
| "before until (T_1800 now s v) = (s \<noteq> 1 \<and> s \<noteq> 2)"
| "before until T_stop = False"
| "before until e = tpdo_admissible e"

lemma inhibit_quiet:
  assumes "inhibit_rests until p" "before until e" "tpdo_exec H e p = Some p'"
  shows "frames (tp_out p') = frames (tp_out p) \<and> inhibit_rests until p'"
proof -
  have p: "tpdo_inv p" "\<not> tp_stopped p" "tp_valid p" "pc_trans (tp_comm p) \<ge> 0xfe" "pc_inhibit (tp_comm p) \<noteq> 0" "tp_inhibit p = until"
    using assms(1) by (simp_all add: inhibit_rests_def)
  have t: "pc_trans (tp_comm p) \<noteq> 0" "pc_trans (tp_comm p) \<noteq> 0xfc" "pc_trans (tp_comm p) \<noteq> 0xfd" "0xf0 < pc_trans (tp_comm p)"
    using event_driven [OF p(4)] by auto
  have par: "comm_of_od (dv_od (tp_dev p)) (idx_1800 p) = tp_comm p" "map_of_od (dv_od (tp_dev p)) (idx_1a00 p) = tp_map p"
    using p(1,2) by (simp_all add: tpdo_inv_def tpdo_mirrors_def)
  have inv: "tpdo_inv p'" using tpdo.exec_safe [OF p(1), of e H] assms(2,3) by (cases e) auto
  have f: "frames (tp_out p') = frames (tp_out p) \<and> \<not> tp_stopped p' \<and> tp_valid p' \<and> pc_trans (tp_comm p') = pc_trans (tp_comm p)
      \<and> pc_inhibit (tp_comm p') = pc_inhibit (tp_comm p) \<and> tp_inhibit p' = until"
  proof (cases e)
    case (T_event now ok)
    then show ?thesis using assms(2,3) p t by (auto simp: co_tpdo_event_def inhibited_def split: if_splits)
  next
    case (T_timer_event now ok)
    then show ?thesis using assms(2,3) p t
      by (auto simp: co_tpdo_timer_event_def co_tpdo_event_def inhibited_def co_tpdo_init_timer_event_def split: if_splits)
  next
    case (T_1800 now s v)
    then show ?thesis using assms(2,3) p
      by (auto simp: co_1800_dn_ind_def Let_def co_tpdo_init_timer_event_def split: if_splits)
  next
    case (T_1a00 s v)
    then show ?thesis using assms(3) p by (auto simp: co_1a00_dn_ind_def Let_def split: if_splits)
  next
    case (T_sync now cnt sres ok)
    then show ?thesis using assms(3) p t by (auto simp: co_tpdo_sync_def Let_def split: if_splits)
  next
    case (T_recv msg sres ok)
    then show ?thesis using assms(3) p t by (auto simp: co_tpdo_recv_def split: if_splits)
  next
    case (T_sample_res ac ok)
    then show ?thesis using assms(3) p t by (auto simp: co_tpdo_sample_res_def Let_def split: if_splits)
  next
    case (T_dam now ok nid idx subidx d)
    then show ?thesis using assms(2,3) p by (auto simp: co_dam_mpdo_event_def inhibited_def split: if_splits)
  next
    case (T_sam now ok idx subidx)
    then show ?thesis using assms(2,3) p by (auto simp: co_sam_mpdo_event_def inhibited_def Let_def split: if_splits)
  qed (use assms(2,3) p in \<open>auto simp: co_tpdo_start_def co_tpdo_timer_swnd_def split: if_splits\<close>)
  then show ?thesis using inv p by (simp add: inhibit_rests_def)
qed

interpretation rest: service "tpdo_exec H" "inhibit_rests until" "before until" for H until
proof
  fix p e assume p: "inhibit_rests until p" and e: "before until e"
  have "tpdo_admissible e" using e by (cases e) auto
  then obtain p' where p': "tpdo_exec H e p = Some p'" using tpdo.exec_safe [of p e H] p by (auto simp: inhibit_rests_def)
  then show "\<exists>p'. tpdo_exec H e p = Some p' \<and> inhibit_rests until p'" using inhibit_quiet [OF p e p'] by blast
qed

text \<open>C7. The inhibit time holds. After an event-driven Transmit-PDO has sent a frame at \<open>now\<close>, no sequence of events, timers, SYNC objects, remote
  requests, multiplex events, changes of values and writes to the other parameters makes it send another frame before the inhibit
  time, in units of 100 microseconds, has passed; and then it may send again.
\<close>

theorem tpdo_inhibit_time:
  assumes "pdo_ready p" "\<And>sz. hp_ok H sz" "\<not> tp_stopped p" "pc_trans (tp_comm p) \<ge> 0xfe" "pc_inhibit (tp_comm p) \<noteq> 0" "tp_inhibit p \<le> now"
    and "list_all (before (now + unat (pc_inhibit (tp_comm p)) * 100000)) es"
  shows "\<exists>p1 p2 f. co_tpdo_event H now True p = Some (0, p1) \<and> frames (tp_out p1) = frames (tp_out p) @ [f] \<and> frame_of p f
    \<and> run_events (tpdo_exec H) es p1 = Some p2 \<and> frames (tp_out p2) = frames (tp_out p1)
    \<and> \<not> inhibited (now + unat (pc_inhibit (tp_comm p)) * 100000) p2"
proof -
  let ?u = "now + unat (pc_inhibit (tp_comm p)) * 100000"
  have "\<not> inhibited now p" using assms(6) by (simp add: inhibited_def)
  from event_sends [OF assms(1,2,4) this] obtain p1 f where p1: "co_tpdo_event H now True p = Some (0, p1)" "frames (tp_out p1) = frames (tp_out p) @ [f]"
    "frame_of p f" "tpdo_step p p1" "tp_inhibit p1 = ?u" using assms(5) by auto
  have v: "tp_valid p" "tpdo_inv p" using assms(1) by (auto simp: pdo_ready_def)
  have rest: "inhibit_rests ?u p1" using tpdo_step_inv [OF v(2) p1(4)] assms(3-5) v(1) p1(4,5) by (auto simp: inhibit_rests_def tpdo_step_def tpdo_par_def)
  from rest.run_safe [OF rest assms(7), of H] obtain p2 where p2: "run_events (tpdo_exec H) es p1 = Some p2" "inhibit_rests ?u p2" by blast
  have "frames (tp_out p2) = frames (tp_out p1)"
    using rest.run_keeps [where f = "\<lambda>p. frames (tp_out p)" and H = H and until = ?u, OF _ rest assms(7) p2(1)] inhibit_quiet by blast
  then show ?thesis using p1 p2 by (auto simp: inhibit_rests_def inhibited_def)
qed

section \<open>From one dictionary to another\<close>

lemma recv_stores:
  assumes "frame_of p f" "pdo_bits (map_entries (tp_map p)) \<le> 64" "pc_trans (rp_comm q) \<ge> 0xfe" "pm_n (rp_map q) \<le> CO_PDO_NUM_MAPS"
    and "map map_len (map_entries (tp_map p)) = map map_len (map_entries (rp_map q))"
  shows "\<exists>q' ac. co_rpdo_recv G now f q = Some (1, q')
    \<and> pdo_store (zip (map_entries (rp_map q)) (map (pdo_value (tp_dev p)) (map_entries (tp_map p)))) (rp_dev q) = (ac, rp_dev q')"
proof -
  let ?src = "map_entries (tp_map p)" and ?dst = "map_entries (rp_map q)"
  have f: "unat (cm_len f) = (pdo_bits ?src + 7) div 8" "length (cm_data f) = 64" "carries (zip ?src (map (pdo_value (tp_dev p)) ?src)) 0 (cm_data f)"
    using assms(1) by (simp_all add: frame_of_def)
  have c: "carries (zip ?dst (map (pdo_value (tp_dev p)) ?src)) 0 (cm_data f)" by (rule carries_change [OF f(3) _ assms(5)]) simp
  have l: "length ?src = length ?dst" "pdo_bits ?dst = pdo_bits ?src"
    using map_eq_imp_length_eq [OF assms(5)] assms(5) by (simp_all add: pdo_bits_def)
  have n: "pdo_bits ?src \<le> 8 * unat (cm_len f)" "unat (cm_len f) \<le> 8" using frame_bytes [of "pdo_bits ?src" 8] assms(2) f(1) by auto
  let ?st = "pdo_store (zip ?dst (map (pdo_value (tp_dev p)) ?src)) (rp_dev q)"
  obtain rq where dn: "pdo_dn_loop G ?dst 0 (rp_dev q) (rp_req q) (cm_data f) (unat (cm_len f)) True = Some (fst ?st, snd ?st, rq)"
    using dn_loop_store [OF c _ _ n(2), of G "rp_dev q" "rp_req q"] n l f(2) by auto
  have nm: "min (unat (cm_len f)) CAN_MAX_LEN = unat (cm_len f)" "\<not> CAN_MAX_LEN < unat (cm_len f)" using n(2) by (simp_all add: CAN_MAX_LEN_def)
  have "co_pdo_dn G (rp_map q) (rp_dev q) (rp_req q) (cm_data f) (unat (cm_len f)) True = Some (fst ?st, snd ?st, rq)"
    using dn assms(4) nm by (simp add: co_pdo_dn_def leD)
  then obtain q' where "co_rpdo_recv G now f q = Some (1, q')" "rp_dev q' = snd ?st"
    using event_driven [OF assms(3)] nm(1) by (auto simp: co_rpdo_recv_def co_rpdo_read_frame_def co_rpdo_init_timer_event_def Let_def)
  then show ?thesis by (intro exI [of _ q'] exI [of _ "fst ?st"]) simp
qed


section \<open>A remote request after a failed sampling\<close>

text \<open>C40. A remote request should be ignored while no frame is buffered. When the sampling of a synchronous, RTR-only PDO fails, the buffered
  frame already has its identifier, which is how the service recognises it: the next remote request is answered
  with a frame of no bytes.
\<close>

theorem tpdo_rtr_empty_frame:
  assumes "tp_valid p" "pc_trans (tp_comm p) = 0xfc" "\<not> tp_swnd p" "pm_n (tp_map p) \<le> 0x40" "pdo_hears (tp_recv p) rtr" "ac \<noteq> 0"
    and "co_pdo_up H (tp_map p) (tp_dev p) (tp_req p) (Some (cm_data (tpdo_header p))) (Some CAN_MAX_LEN) True = Some (ac, rq, b, n)"
  shows "\<exists>p1 p2 f. co_tpdo_sample_res H 0 True p = Some (-1, p1) \<and> run_events (tpdo_exec H) [T_recv rtr 0 True] p1 = Some p2
    \<and> frames (tp_out p2) = frames (tp_out p) @ [f] \<and> cm_len f = 0 \<and> (cm_id f, cm_flags f) = pdo_key (pc_cobid (tp_comm p))"
proof -
  define p1 where "p1 = tpdo_emit (if tp_ind p then [Out_ind ac [] 0] else []) (p\<lparr>tp_req := rq, tp_msg := (tpdo_header p)\<lparr>cm_data := case b of None \<Rightarrow> [] | Some b \<Rightarrow> b\<rparr>\<rparr>)"
  have "co_tpdo_sample_res H 0 True p = Some (-1, p1)"
    using assms by (simp add: co_tpdo_sample_res_def co_tpdo_init_frame_def Let_def leD p1_def)
  moreover have m: "(cm_id (tp_msg p1), cm_flags (tp_msg p1)) = pdo_key (pc_cobid (tp_comm p))" "cm_len (tp_msg p1) = 0"
    "tp_comm p1 = tp_comm p" "tp_recv p1 = tp_recv p" "frames (tp_out p1) = frames (tp_out p)"
    by (simp_all add: p1_def tpdo_emit_def tpdo_header_def CAN_MSG_INIT_def)
  moreover have "run_events (tpdo_exec H) [T_recv rtr 0 True] p1 = Some (snd (co_tpdo_send_frame True p1))"
    using assms(2,5) m by (auto simp: co_tpdo_recv_def pdo_key_def split: if_splits)
  ultimately show ?thesis using send_frame_step(2) [of True p1] by auto
qed

section \<open>Witnesses\<close>

lemma demo_tpdo_fields:
  "tp_comm (demo_tpdo tt) = \<lparr>pc_n = 5, pc_cobid = 0x20000205, pc_trans = tt, pc_inhibit = 10, pc_event = 0, pc_sync = 0\<rparr>"
  "map_entries (tp_map (demo_tpdo tt)) = [0x20000110]" "pm_n (tp_map (demo_tpdo tt)) = 1" "\<not> tp_stopped (demo_tpdo tt)" "tp_dev (demo_tpdo tt) = demo_tpdo_dev tt"
  "tp_inhibit (demo_tpdo tt) = 0" "tp_sync (demo_tpdo tt) = 0" "tp_cnt (demo_tpdo tt) = 0" "\<not> tp_sample_ind (demo_tpdo tt)" "tp_out (demo_tpdo tt) = []"
  "tp_recv (demo_tpdo tt) = Some (0x205, 3)" "tp_req (demo_tpdo tt) = co_sdo_req_init"
  by (simp_all add: demo_tpdo_def co_tpdo_init_def demo_tpdo_dev_def CO_NUM_PDOS_def co_tpdo_start_def co_tpdo_init_recv_def co_tpdo_init_timer_event_def comm_of_od_def
      map_of_od_def map_entries_def co_dev_get_val_u8_def co_dev_get_val_u16_def co_dev_get_val_u32_def co_sub_get_val_u8_def co_sub_get_val_u16_def co_sub_get_val_u32_def sub_bytes_def
      co_dev_find_sub_def idx_1800_def idx_1a00_def demo_obj_def par_sub_def demo_sub_def CO_DEFTYPE_UNSIGNED8_def CO_DEFTYPE_UNSIGNED16_def CO_DEFTYPE_UNSIGNED32_def
      pdo_valid_def CO_PDO_COBID_VALID_def CO_PDO_COBID_RTR_def pdo_key_def CO_PDO_COBID_FRAME_def CAN_MASK_EID_def CAN_FLAG_RTR_def CAN_FLAG_IDE_def Let_def upt_conv_Cons)

lemma demo_entry: "map_idx 0x20000110 = 0x2000" "map_subidx 0x20000110 = 1" "map_idx 0x60000210 = 0x6000" "map_subidx 0x60000210 = 2" "map_len 0x60000210 = 16"
  by (simp_all add: map_idx_def map_subidx_def map_len_def)

lemma demo_tpdo_ready: "pdo_ready (demo_tpdo tt)"
  using init_tpdo_inv [OF demo_tpdo_init]
  by (simp add: pdo_ready_def demo_tpdo_fields pdo_valid_def CO_PDO_COBID_VALID_def CO_PDO_NUM_MAPS_def pdo_bits_def demo_lens sendable_def demo_entry
      co_dev_chk_tpdo_def co_dev_find_sub_def demo_tpdo_dev_def demo_obj_def demo_sub_def)

lemma example_heap_ok: "hp_ok example_heap sz"
  by (simp add: example_heap_def)

theorem tpdo_cyclic_sync_witness:
  "\<exists>p' fs. run_events (tpdo_exec example_heap) [T_sync 1 0 0 True, T_sync 2 1 0 True, T_sync 3 2 0 True, T_sync 4 3 0 True, T_sync 5 240 0 True] (demo_tpdo 2) = Some p'
     \<and> frames (tp_out p') = fs \<and> list_all (frame_of (demo_tpdo 2)) fs \<and> length fs = 2"
  using tpdo_cyclic_sync [OF demo_tpdo_ready [of 2] example_heap_ok, where ts = "[(1, 0), (2, 1), (3, 2), (4, 3), (5, 240)]"]
  by (simp add: demo_tpdo_fields) (simp add: numeral_2_eq_2)

theorem tpdo_inhibit_time_witness:
  "\<exists>p1 p2 f. co_tpdo_event example_heap 1000 True (demo_tpdo 0xff) = Some (0, p1) \<and> frames (tp_out p1) = [f] \<and> frame_of (demo_tpdo 0xff) f
     \<and> run_events (tpdo_exec example_heap) [T_event 2000 True, T_write 0x2000 1 [1, 2], T_1800 3000 3 7, T_event 1000999 True] p1 = Some p2
     \<and> frames (tp_out p2) = frames (tp_out p1) \<and> \<not> inhibited 1001000 p2"
  using tpdo_inhibit_time [OF demo_tpdo_ready [where tt = "0xff"] example_heap_ok, where now = 1000 and
      es = "[T_event 2000 True, T_write 0x2000 1 [1, 2], T_1800 3000 3 7, T_event 1000999 True]"]
  by (simp add: demo_tpdo_fields)


definition demo_unreadable :: tpdo where
  "demo_unreadable = (demo_tpdo 0xfc)\<lparr>tp_swnd := False, tp_dev := (demo_tpdo_dev 0xfc)\<lparr>dv_od := (dv_od (demo_tpdo_dev 0xfc))(0x2000 := None)\<rparr>\<rparr>"

definition demo_rtr :: can_msg where
  "demo_rtr = CAN_MSG_INIT\<lparr>cm_id := 0x205, cm_flags := 3\<rparr>"

theorem tpdo_rtr_empty_frame_witness:
  "\<exists>p1 p2 f. co_tpdo_sample_res example_heap 0 True demo_unreadable = Some (-1, p1) \<and> run_events (tpdo_exec example_heap) [T_recv demo_rtr 0 True] p1 = Some p2
     \<and> frames (tp_out p2) = [f] \<and> cm_len f = 0 \<and> cm_id f = 0x205"
proof -
  have u: "map_entries (tp_map demo_unreadable) = [0x20000110]" "pm_n (tp_map demo_unreadable) = 1" "tp_comm demo_unreadable = tp_comm (demo_tpdo 0xfc)"
    "tp_recv demo_unreadable = Some (0x205, 3)" "\<not> tp_swnd demo_unreadable" "tp_out demo_unreadable = []" "dv_od (tp_dev demo_unreadable) 0x2000 = None"
    by (simp_all add: demo_unreadable_def demo_tpdo_fields)
  have k: "pdo_key 0x20000205 = (0x205, CAN_FLAG_IDE)" by (simp add: pdo_key_def CO_PDO_COBID_FRAME_def CAN_MASK_EID_def)
  have "co_pdo_up example_heap (tp_map demo_unreadable) (tp_dev demo_unreadable) (tp_req demo_unreadable) (Some (cm_data (tpdo_header demo_unreadable))) (Some CAN_MAX_LEN) True
      = Some (CO_SDO_AC_NO_OBJ, tp_req demo_unreadable, Some (cm_data (tpdo_header demo_unreadable)), Some CAN_MAX_LEN)"
    by (simp add: co_pdo_up_def u CO_PDO_NUM_MAPS_def demo_lens demo_entry CAN_MAX_LEN_def co_dev_chk_tpdo_def CO_SDO_AC_NO_OBJ_def Let_def)
  then show ?thesis using tpdo_rtr_empty_frame [where p = demo_unreadable and rtr = demo_rtr and H = example_heap and ac = CO_SDO_AC_NO_OBJ]
    by (fastforce simp: u demo_tpdo_fields pdo_valid_def CO_PDO_COBID_VALID_def pdo_hears_def demo_rtr_def CO_SDO_AC_NO_OBJ_def k)
qed

end
