(* ===== verification/Co_Sync.thy ===== *)
theory Co_Sync
  imports Co_Pdo_Net
begin

text \<open>
  The SYNC service (\<open>upstream/src/co/sync.c\<close>), producer and consumer, with the writes to its objects 1005, 1006 and 1019,
  and \<open>co_nmt_on_sync\<close> (\<open>upstream/src/co/nmt.c\<close>), which passes a SYNC on to the PDO services of the node. The timer is the time
  of its next expiry and its period, in nanoseconds.
\<close>

unbundle bit_operations_syntax

section \<open>Model\<close>

datatype sync_out = Sync_frame can_msg | Sync_ind u8 | Sync_err u16 u8

record sync =
  sy_dev :: co_device
  sy_stopped :: bool
  sy_cobid :: u32
  sy_us :: u32
  sy_max_cnt :: u8
  sy_recv :: "(u32 \<times> u8) option"
  sy_timer :: "(nat \<times> nat) option"
  sy_cnt :: u8
  sy_ind :: bool
  sy_err :: bool
  sy_out :: "sync_out list"

definition CO_SYNC_COBID_PRODUCER :: u32 where "CO_SYNC_COBID_PRODUCER = 0x40000000"
definition CO_SYNC_COBID_FRAME :: u32 where "CO_SYNC_COBID_FRAME = 0x20000000"
definition CO_SDO_AC_DATA_DEV :: u32 where "CO_SDO_AC_DATA_DEV = 0x08000022"

definition sync_producer :: "u32 \<Rightarrow> bool" where
  "sync_producer cobid \<longleftrightarrow> cobid AND CO_SYNC_COBID_PRODUCER \<noteq> 0"

definition sync_key :: "u32 \<Rightarrow> u32 \<times> u8" where
  "sync_key cobid = (if cobid AND CO_SYNC_COBID_FRAME \<noteq> 0 then (cobid AND CAN_MASK_EID, CAN_FLAG_IDE) else (cobid AND CAN_MASK_BID, 0))"

text \<open>\<open>co_sync_update\<close>: transmission starts at the next multiple of the period.\<close>

definition co_sync_update :: "nat \<Rightarrow> sync \<Rightarrow> sync" where
  "co_sync_update now s =
     (let period = unat (sy_us s) * 1000
      in s\<lparr>sy_recv := if sync_producer (sy_cobid s) then None else Some (sync_key (sy_cobid s)),
           sy_timer := if sync_producer (sy_cobid s) \<and> sy_us s \<noteq> 0 then Some (now - now mod period + period, period) else None,
           sy_cnt := 1\<rparr>)"

definition co_sync_start :: "nat \<Rightarrow> sync \<Rightarrow> sync" where
  "co_sync_start now s =
     (if \<not> sy_stopped s then s
      else (co_sync_update now (s\<lparr>sy_cobid := co_dev_get_val_u32 (dv_od (sy_dev s)) 0x1005 0, sy_us := co_dev_get_val_u32 (dv_od (sy_dev s)) 0x1006 0,
              sy_max_cnt := co_dev_get_val_u8 (dv_od (sy_dev s)) 0x1019 0\<rparr>))\<lparr>sy_stopped := False\<rparr>)"

definition co_sync_stop :: "sync \<Rightarrow> sync" where
  "co_sync_stop s = (if sy_stopped s then s else s\<lparr>sy_timer := None, sy_recv := None, sy_stopped := True\<rparr>)"

definition co_sync_init :: "nat \<Rightarrow> co_device \<Rightarrow> sync option" where
  "co_sync_init now dev =
     (if dv_od dev 0x1005 = None then None
      else Some (co_sync_start now \<lparr>sy_dev = dev, sy_stopped = True, sy_cobid = 0, sy_us = 0, sy_max_cnt = 0, sy_recv = None, sy_timer = None, sy_cnt = 1,
             sy_ind = False, sy_err = False, sy_out = []\<rparr>))"

text \<open>The indication functions of objects 1005, 1006 and 1019, for the value \<open>v\<close> that was written to sub-index \<open>subidx\<close>.\<close>

definition co_1005_dn_ind :: "nat \<Rightarrow> u8 \<Rightarrow> u32 \<Rightarrow> sync \<Rightarrow> u32 \<times> sync" where
  "co_1005_dn_ind now subidx v s =
     (let old = co_dev_get_val_u32 (dv_od (sy_dev s)) 0x1005 subidx
      in if subidx \<noteq> 0 then (CO_SDO_AC_NO_SUB, s)
         else if v = old then (0, s)
         else if sync_producer v \<and> sync_producer old \<and> v AND CAN_MASK_EID \<noteq> old AND CAN_MASK_EID then (CO_SDO_AC_PARAM_VAL, s)
         else if v AND CO_SYNC_COBID_FRAME = 0 \<and> v AND (CAN_MASK_EID XOR CAN_MASK_BID) \<noteq> 0 then (CO_SDO_AC_PARAM_VAL, s)
         else (0, co_sync_update now (s\<lparr>sy_cobid := v, sy_dev := od_write (sy_dev s) 0x1005 subidx (stle_u32 v)\<rparr>)))"

definition co_1006_dn_ind :: "nat \<Rightarrow> u8 \<Rightarrow> u32 \<Rightarrow> sync \<Rightarrow> u32 \<times> sync" where
  "co_1006_dn_ind now subidx v s =
     (if subidx \<noteq> 0 then (CO_SDO_AC_NO_SUB, s)
      else if v = co_dev_get_val_u32 (dv_od (sy_dev s)) 0x1006 subidx then (0, s)
      else (0, co_sync_update now (s\<lparr>sy_us := v, sy_dev := od_write (sy_dev s) 0x1006 subidx (stle_u32 v)\<rparr>)))"

definition co_1019_dn_ind :: "nat \<Rightarrow> u8 \<Rightarrow> u8 \<Rightarrow> sync \<Rightarrow> u32 \<times> sync" where
  "co_1019_dn_ind now subidx v s =
     (if subidx \<noteq> 0 then (CO_SDO_AC_NO_SUB, s)
      else if v = co_dev_get_val_u8 (dv_od (sy_dev s)) 0x1019 subidx then (0, s)
      else if sy_us s \<noteq> 0 then (CO_SDO_AC_DATA_DEV, s)
      else if v = 1 \<or> v > 240 then (CO_SDO_AC_PARAM_VAL, s)
      else (0, co_sync_update now (s\<lparr>sy_max_cnt := v, sy_dev := od_write (sy_dev s) 0x1019 subidx [v]\<rparr>)))"

definition co_sync_recv :: "can_msg \<Rightarrow> sync \<Rightarrow> sync" where
  "co_sync_recv msg s =
     (let len = (if sy_max_cnt s \<noteq> 0 then 1 else 0);
          cnt = (if len \<noteq> 0 \<and> cm_len msg = len then cm_data msg ! 0 else 0)
      in s\<lparr>sy_out := sy_out s @ (if cm_len msg \<noteq> len \<and> sy_err s then [Sync_err 0x8240 0x10] else []) @ (if sy_ind s then [Sync_ind cnt] else [])\<rparr>)"

text \<open>The timer of the producer, with \<open>ok\<close> telling whether the network takes the frame; the expiry moves on by one period.\<close>

definition sync_msg :: "sync \<Rightarrow> can_msg" where
  "sync_msg s = (let m = CAN_MSG_INIT\<lparr>cm_id := fst (sync_key (sy_cobid s)), cm_flags := snd (sync_key (sy_cobid s))\<rparr>
     in if sy_max_cnt s \<noteq> 0 then m\<lparr>cm_len := 1, cm_data := (cm_data m)[0 := sy_cnt s]\<rparr> else m)"

definition co_sync_timer :: "bool \<Rightarrow> sync \<Rightarrow> sync" where
  "co_sync_timer ok s =
     (let msg = sync_msg s; cnt = (if cm_len msg \<noteq> 0 then cm_data msg ! 0 else 0)
      in s\<lparr>sy_cnt := if sy_max_cnt s = 0 then sy_cnt s else if sy_cnt s < sy_max_cnt s then sy_cnt s + 1 else 1,
           sy_timer := map_option (\<lambda>(t, period). (t + period, period)) (sy_timer s),
           sy_out := sy_out s @ (if ok then [Sync_frame msg] else []) @ (if sy_ind s then [Sync_ind cnt] else [])\<rparr>)"

text \<open>
  \<open>co_nmt_on_sync\<close>. The PDO services of a node share its dictionary: each starts from the one that the service before it left.
  What the sampling indication and the network interface answer is given by \<open>res\<close> for each PDO number. The last component lists the calls
  of the indication function of the application, when it has registered one.
\<close>

fun tpdos_sync :: "heap \<Rightarrow> nat \<Rightarrow> u8 \<Rightarrow> (u16 \<Rightarrow> int \<times> bool) \<Rightarrow> co_device \<Rightarrow> tpdo option list \<Rightarrow> (co_device \<times> tpdo option list) option" where
  "tpdos_sync H now cnt res dev [] = Some (dev, [])"
| "tpdos_sync H now cnt res dev (None # ps) = map_option (\<lambda>(d, qs). (d, None # qs)) (tpdos_sync H now cnt res dev ps)"
| "tpdos_sync H now cnt res dev (Some p # ps) = do {
     (_, p) \<leftarrow> co_tpdo_sync H now cnt (fst (res (tp_num p))) (snd (res (tp_num p))) (p\<lparr>tp_dev := dev\<rparr>);
     (d, qs) \<leftarrow> tpdos_sync H now cnt res (tp_dev p) ps;
     Some (d, Some p # qs) }"

fun rpdos_sync :: "heap \<Rightarrow> nat \<Rightarrow> u8 \<Rightarrow> co_device \<Rightarrow> rpdo option list \<Rightarrow> (co_device \<times> rpdo option list) option" where
  "rpdos_sync H now cnt dev [] = Some (dev, [])"
| "rpdos_sync H now cnt dev (None # ps) = map_option (\<lambda>(d, qs). (d, None # qs)) (rpdos_sync H now cnt dev ps)"
| "rpdos_sync H now cnt dev (Some p # ps) = do {
     (_, p) \<leftarrow> co_rpdo_sync H now cnt (p\<lparr>rp_dev := dev\<rparr>);
     (d, qs) \<leftarrow> rpdos_sync H now cnt (rp_dev p) ps;
     Some (d, Some p # qs) }"

definition co_nmt_on_sync :: "heap \<Rightarrow> nat \<Rightarrow> u8 \<Rightarrow> (u16 \<Rightarrow> int \<times> bool) \<Rightarrow> bool \<Rightarrow> co_device \<Rightarrow> tpdo option list \<Rightarrow> rpdo option list
    \<Rightarrow> (co_device \<times> tpdo option list \<times> rpdo option list \<times> u8 list) option" where
  "co_nmt_on_sync H now cnt res ind dev ts rs = do {
     (dev, ts) \<leftarrow> tpdos_sync H now cnt res dev ts;
     (dev, rs) \<leftarrow> rpdos_sync H now cnt dev rs;
     Some (dev, ts, rs, if ind then [cnt] else []) }"

section \<open>Runs of the service\<close>

datatype sync_event =
    S_start nat | S_stop | S_recv can_msg | S_timer bool | S_1005 nat u8 u32 | S_1006 nat u8 u32 | S_1019 nat u8 u8

text \<open>A write reaches an indication function when the service runs and the sub-object exists.\<close>

definition sync_write :: "u16 \<Rightarrow> u8 \<Rightarrow> sync \<Rightarrow> (sync \<Rightarrow> u32 \<times> sync) \<Rightarrow> sync" where
  "sync_write idx subidx s f = (if sy_stopped s \<or> co_dev_find_sub (dv_od (sy_dev s)) idx subidx = None then s else snd (f s))"

fun sync_exec :: "sync_event \<Rightarrow> sync \<Rightarrow> sync option" where
  "sync_exec (S_start now) s = Some (co_sync_start now s)"
| "sync_exec S_stop s = Some (co_sync_stop s)"
| "sync_exec (S_recv msg) s = Some (if pdo_hears (sy_recv s) msg then co_sync_recv msg s else s)"
| "sync_exec (S_timer ok) s = Some (if sy_timer s = None then s else co_sync_timer ok s)"
| "sync_exec (S_1005 now subidx v) s = Some (sync_write 0x1005 subidx s (co_1005_dn_ind now subidx v))"
| "sync_exec (S_1006 now subidx v) s = Some (sync_write 0x1006 subidx s (co_1006_dn_ind now subidx v))"
| "sync_exec (S_1019 now subidx v) s = Some (sync_write 0x1019 subidx s (co_1019_dn_ind now subidx v))"

text \<open>
  A running service has the parameters of the dictionary; it is either a consumer, which listens to its COB-ID, or a producer, which does not and whose
  timer runs at multiples of a non-zero period. Its counter is between 1 and the overflow value.
\<close>

definition sync_typed :: "co_dev \<Rightarrow> bool" where
  "sync_typed D \<longleftrightarrow> typed D 0x1005 0 CO_DEFTYPE_UNSIGNED32 \<and> typed D 0x1006 0 CO_DEFTYPE_UNSIGNED32 \<and> typed D 0x1019 0 CO_DEFTYPE_UNSIGNED8"

definition sync_ok :: "sync \<Rightarrow> bool" where
  "sync_ok s \<longleftrightarrow>
     (if sy_stopped s then sy_recv s = None \<and> sy_timer s = None
      else sy_cobid s = co_dev_get_val_u32 (dv_od (sy_dev s)) 0x1005 0 \<and> sy_us s = co_dev_get_val_u32 (dv_od (sy_dev s)) 0x1006 0
        \<and> sy_max_cnt s = co_dev_get_val_u8 (dv_od (sy_dev s)) 0x1019 0
        \<and> sy_recv s = (if sync_producer (sy_cobid s) then None else Some (sync_key (sy_cobid s)))
        \<and> (case sy_timer s of None \<Rightarrow> \<not> (sync_producer (sy_cobid s) \<and> sy_us s \<noteq> 0)
           | Some (t, period) \<Rightarrow> sync_producer (sy_cobid s) \<and> sy_us s \<noteq> 0 \<and> period = unat (sy_us s) * 1000 \<and> t mod period = 0))
     \<and> 1 \<le> sy_cnt s \<and> (sy_cnt s \<le> sy_max_cnt s \<or> sy_cnt s = 1)"

definition sync_inv :: "sync \<Rightarrow> bool" where
  "sync_inv s \<longleftrightarrow> sync_ok s \<and> sync_typed (dv_od (sy_dev s))"

lemma next_multiple: "(now - now mod p + p) mod p = 0" "0 < p \<Longrightarrow> now < now - now mod p + p" "now - now mod p + p \<le> now + p" for now p :: nat
proof -
  have "now - now mod p = now div p * p" by (simp add: minus_mod_eq_div_mult)
  then show "(now - now mod p + p) mod p = 0" by simp
  show "now < now - now mod p + p" if "0 < p" using mod_less_divisor [OF that, of now] mod_less_eq_dividend [of now p] by linarith
  show "now - now mod p + p \<le> now + p" by simp
qed

lemma update_ok:
  assumes "sync_typed (dv_od (sy_dev s))" "sy_cobid s = co_dev_get_val_u32 (dv_od (sy_dev s)) 0x1005 0" "sy_us s = co_dev_get_val_u32 (dv_od (sy_dev s)) 0x1006 0"
    and "sy_max_cnt s = co_dev_get_val_u8 (dv_od (sy_dev s)) 0x1019 0" "\<not> b"
  shows "sync_inv ((co_sync_update now s)\<lparr>sy_stopped := b\<rparr>)"
  using assms next_multiple(1) [of now "unat (sy_us s) * 1000"] by (simp add: sync_inv_def sync_ok_def co_sync_update_def Let_def)

lemma update_running: "\<not> sy_stopped s \<Longrightarrow> (co_sync_update now s)\<lparr>sy_stopped := False\<rparr> = co_sync_update now s"
  by (simp add: co_sync_update_def Let_def)

lemma sync_typed_set_val [simp]: "sync_typed (set_val D i s v) = sync_typed D"
  by (simp add: sync_typed_def)

lemma sync_inv_out [simp]: "sync_inv (s\<lparr>sy_out := os\<rparr>) = sync_inv s"
  by (cases "sy_timer s") (simp_all add: sync_inv_def sync_ok_def split_def)

lemma count_step: "c < m \<Longrightarrow> 1 \<le> c + 1 \<and> c + 1 \<le> m" for c m :: u8
proof -
  assume "c < m"
  then have c: "unat c < unat m" by (simp add: word_less_nat_alt)
  moreover have "unat c + 1 < 256" using c unat_u8_lt [of m] by linarith
  ultimately show ?thesis by (simp add: word_le_nat_alt unat_word_ariths)
qed

text \<open>A write that is accepted ends in an update with the new value in the dictionary.\<close>

lemma sync_write_inv:
  assumes "sync_inv s" "co_dev_find_sub (dv_od (sy_dev s)) i 0 \<noteq> None" "\<not> sy_stopped s"
  shows "i = 0x1005 \<Longrightarrow> sync_inv (co_sync_update now (s\<lparr>sy_cobid := v, sy_dev := od_write (sy_dev s) i 0 (stle_u32 v)\<rparr>))"
    and "i = 0x1006 \<Longrightarrow> sync_inv (co_sync_update now (s\<lparr>sy_us := v, sy_dev := od_write (sy_dev s) i 0 (stle_u32 v)\<rparr>))"
    and "i = 0x1019 \<Longrightarrow> sync_inv (co_sync_update now (s\<lparr>sy_max_cnt := w, sy_dev := od_write (sy_dev s) i 0 [w]\<rparr>))"
  using assms update_ok [of "s\<lparr>sy_cobid := v, sy_dev := od_write (sy_dev s) i 0 (stle_u32 v)\<rparr>" False now]
    update_ok [of "s\<lparr>sy_us := v, sy_dev := od_write (sy_dev s) i 0 (stle_u32 v)\<rparr>" False now]
    update_ok [of "s\<lparr>sy_max_cnt := w, sy_dev := od_write (sy_dev s) i 0 [w]\<rparr>" False now]
  by (auto simp: sync_inv_def sync_ok_def sync_typed_def get_set_val update_running)

interpretation sync: service sync_exec sync_inv "\<lambda>_. True"
proof
  fix s e assume s: "sync_inv s"
  show "\<exists>s'. sync_exec e s = Some s' \<and> sync_inv s'"
  proof (cases e)
    case (S_start now)
    then show ?thesis using s update_ok [of "s\<lparr>sy_cobid := co_dev_get_val_u32 (dv_od (sy_dev s)) 0x1005 0, sy_us := co_dev_get_val_u32 (dv_od (sy_dev s)) 0x1006 0,
              sy_max_cnt := co_dev_get_val_u8 (dv_od (sy_dev s)) 0x1019 0\<rparr>" False now] by (auto simp: co_sync_start_def sync_inv_def)
  next
    case S_stop
    then show ?thesis using s by (auto simp: co_sync_stop_def sync_inv_def sync_ok_def)
  next
    case (S_recv msg)
    then show ?thesis using s by (auto simp: co_sync_recv_def Let_def)
  next
    case (S_timer ok)
    show ?thesis
    proof (cases "sy_timer s")
      case (Some tp)
      have "\<not> sy_stopped s" using s Some by (auto simp: sync_inv_def sync_ok_def)
      moreover have "sync_ok (co_sync_timer ok s)" if "\<not> sy_stopped s"
        using s that Some count_step [of "sy_cnt s" "sy_max_cnt s"] by (cases tp) (auto simp: co_sync_timer_def sync_inv_def sync_ok_def Let_def)
      ultimately show ?thesis using s S_timer Some by (simp add: sync_inv_def) (simp add: co_sync_timer_def Let_def)
    qed (use s S_timer in simp)
  next
    case (S_1005 now subidx v)
    then show ?thesis using s sync_write_inv(1) [of s "0x1005" now v] by (auto simp: sync_write_def co_1005_dn_ind_def Let_def)
  next
    case (S_1006 now subidx v)
    then show ?thesis using s sync_write_inv(2) [of s "0x1006" now v] by (auto simp: sync_write_def co_1006_dn_ind_def Let_def)
  next
    case (S_1019 now subidx v)
    then show ?thesis using s sync_write_inv(3) [of s "0x1019" now v] by (auto simp: sync_write_def co_1019_dn_ind_def Let_def)
  qed
qed

text \<open>C16. A SYNC service created over a dictionary whose objects 1005, 1006 and 1019 have the right types and do not refuse downloads keeps, through every sequence of starts, stops, frames, timer expiries and writes to its
  objects, the state that its parameters call for: the parameters are those of the dictionary, a consumer listens to the COB-ID, a producer
  does not, the timer runs exactly for a producer with a non-zero period, always at multiples of that period, and the counter never
  exceeds the overflow value.
\<close>

theorem sync_service_ok:
  assumes "co_sync_init now dev = Some s" "sync_typed (dv_od dev)"
  shows "\<exists>s'. run_events sync_exec es s = Some s' \<and> sync_ok s'"
proof -
  let ?z = "\<lparr>sy_dev = dev, sy_stopped = True, sy_cobid = 0, sy_us = 0, sy_max_cnt = 0, sy_recv = None, sy_timer = None, sy_cnt = 1,
             sy_ind = False, sy_err = False, sy_out = []\<rparr>"
  have z: "sync_inv ?z" "s = co_sync_start now ?z" using assms by (auto simp: sync_inv_def sync_ok_def co_sync_init_def split: if_splits)
  have "sync_inv s" using sync.exec_safe [OF z(1), of "S_start now"] z(2) by simp
  then show ?thesis using sync.run_safe [of s es] by (auto simp: sync_inv_def list_all_iff)
qed

section \<open>The counter\<close>

fun sync_frames :: "sync_out list \<Rightarrow> can_msg list" where
  "sync_frames [] = []"
| "sync_frames (Sync_frame m # os) = m # sync_frames os"
| "sync_frames (_ # os) = sync_frames os"

lemma sync_frames_append [simp]: "sync_frames (os @ os') = sync_frames os @ sync_frames os'"
  by (induction os rule: sync_frames.induct) simp_all

text \<open>The value of the counter in the SYNC object number \<open>i\<close>, from 0 on: none without an overflow value, otherwise it runs from 1 to it.\<close>

definition counter :: "u8 \<Rightarrow> nat \<Rightarrow> u8" where
  "counter m i = (if m = 0 then 0 else of_nat (i mod unat m) + 1)"

lemma counter_Suc:
  assumes "m \<noteq> 0"
  shows "counter m (Suc i) = (if counter m i < m then counter m i + 1 else 1)"
proof -
  have m: "0 < unat m" "unat m < 256" using assms unat_u8_lt [of m] by (simp_all add: unat_gt_0)
  have lt: "i mod unat m < unat m" using m by simp
  then have lt2: "i mod unat m + 1 < 256" using m(2) by linarith
  have u: "unat (of_nat (i mod unat m) + 1 :: u8) = i mod unat m + 1" using lt2 by (simp add: unat_word_ariths unat_of_nat)
  show ?thesis
  proof (cases "Suc (i mod unat m) = unat m")
    case True
    then have "Suc i mod unat m = 0" by (simp add: mod_Suc)
    then show ?thesis using assms u True by (simp add: counter_def word_less_nat_alt)
  next
    case False
    then have "Suc i mod unat m = Suc (i mod unat m)" by (simp add: mod_Suc)
    then show ?thesis using assms u False lt by (simp add: counter_def word_less_nat_alt)
  qed
qed

lemma sync_timer_tick:
  assumes "sy_timer s = Some t" "sy_max_cnt s \<noteq> 0 \<Longrightarrow> sy_cnt s = counter (sy_max_cnt s) i"
  shows "\<exists>s' t' f. sync_exec (S_timer True) s = Some s' \<and> sy_timer s' = Some t' \<and> sy_max_cnt s' = sy_max_cnt s \<and> sy_cobid s' = sy_cobid s
    \<and> (sy_max_cnt s \<noteq> 0 \<longrightarrow> sy_cnt s' = counter (sy_max_cnt s) (Suc i)) \<and> sync_frames (sy_out s') = sync_frames (sy_out s) @ [f]
    \<and> (cm_id f, cm_flags f) = sync_key (sy_cobid s) \<and> cm_len f = (if sy_max_cnt s \<noteq> 0 then 1 else 0)
    \<and> (sy_max_cnt s \<noteq> 0 \<longrightarrow> cm_data f ! 0 = counter (sy_max_cnt s) i)"
  using assms counter_Suc [of "sy_max_cnt s" i]
  by (cases t) (auto simp: co_sync_timer_def sync_msg_def CAN_MSG_INIT_def Let_def)

lemma sync_recv_tick:
  assumes "sy_recv c = Some (cm_id f, cm_flags f)" "cm_len f = (if sy_max_cnt c \<noteq> 0 then 1 else 0)" "sy_max_cnt c \<noteq> 0 \<Longrightarrow> cm_data f ! 0 = counter (sy_max_cnt c) i" "sy_ind c"
  shows "sync_exec (S_recv f) c = Some (c\<lparr>sy_out := sy_out c @ [Sync_ind (counter (sy_max_cnt c) i)]\<rparr>)"
  using assms by (auto simp: pdo_hears_def co_sync_recv_def Let_def counter_def)

lemma sync_ticks:
  assumes "sy_timer p = Some t" "sy_max_cnt p \<noteq> 0 \<Longrightarrow> sy_cnt p = counter (sy_max_cnt p) i"
    and "sy_recv c = Some (sync_key (sy_cobid p))" "sy_max_cnt c = sy_max_cnt p" "sy_ind c"
  shows "\<exists>p' fs. run_events sync_exec (replicate k (S_timer True)) p = Some p' \<and> sync_frames (sy_out p') = sync_frames (sy_out p) @ fs
    \<and> run_events sync_exec (map S_recv fs) c = Some (c\<lparr>sy_out := sy_out c @ map (\<lambda>j. Sync_ind (counter (sy_max_cnt p) j)) [i..<i + k]\<rparr>)"
  using assms
proof (induction k arbitrary: p t c i)
  case (Suc k)
  obtain p1 t1 f where p1: "sync_exec (S_timer True) p = Some p1" "sy_timer p1 = Some t1" "sy_max_cnt p1 = sy_max_cnt p" "sy_cobid p1 = sy_cobid p"
    "sy_max_cnt p \<noteq> 0 \<longrightarrow> sy_cnt p1 = counter (sy_max_cnt p) (Suc i)" "sync_frames (sy_out p1) = sync_frames (sy_out p) @ [f]"
    "(cm_id f, cm_flags f) = sync_key (sy_cobid p)" "cm_len f = (if sy_max_cnt p \<noteq> 0 then 1 else 0)" "sy_max_cnt p \<noteq> 0 \<longrightarrow> cm_data f ! 0 = counter (sy_max_cnt p) i"
    using sync_timer_tick [OF Suc.prems(1,2)] by blast
  let ?c = "c\<lparr>sy_out := sy_out c @ [Sync_ind (counter (sy_max_cnt p) i)]\<rparr>"
  have c: "sync_exec (S_recv f) c = Some ?c" using sync_recv_tick [of c f i] p1(7-9) Suc.prems(3-5) by simp
  obtain p2 fs where "run_events sync_exec (replicate k (S_timer True)) p1 = Some p2" "sync_frames (sy_out p2) = sync_frames (sy_out p1) @ fs"
    "run_events sync_exec (map S_recv fs) ?c = Some (?c\<lparr>sy_out := sy_out ?c @ map (\<lambda>j. Sync_ind (counter (sy_max_cnt p) j)) [Suc i..<Suc i + k]\<rparr>)"
    using Suc.IH [of p1 t1 "Suc i" ?c] p1(2-5) Suc.prems(3-5) by auto
  moreover have "[i..<i + Suc k] = i # [Suc i..<Suc i + k]" by (simp add: upt_conv_Cons del: upt_Suc)
  ultimately show ?case using p1(1,6) c by (intro exI [of _ p2] exI [of _ "f # fs"]) (simp del: sync_exec.simps upt_Suc)
qed simp

text \<open>C14. Producer and consumer count together. A producer whose counter is reset, and a consumer that listens to its COB-ID and has the same
  overflow value: after any number of periods, the frames of the producer make the consumer indicate, in order and without an error, the values 1, 2 and so on up to
  the overflow value and from 1 again, or no counter at all if there is no overflow value.
\<close>

theorem sync_counter_agrees:
  assumes "sy_timer p \<noteq> None" "sy_cnt p = 1" "sy_recv c = Some (sync_key (sy_cobid p))" "sy_max_cnt c = sy_max_cnt p" "sy_ind c"
  shows "\<exists>p' fs c'. run_events sync_exec (replicate k (S_timer True)) p = Some p' \<and> sync_frames (sy_out p') = sync_frames (sy_out p) @ fs
    \<and> run_events sync_exec (map S_recv fs) c = Some c' \<and> sy_out c' = sy_out c @ map (\<lambda>i. Sync_ind (counter (sy_max_cnt p) i)) [0..<k]"
proof -
  obtain t where t: "sy_timer p = Some t" using assms(1) by blast
  show ?thesis using sync_ticks [OF t, of 0 c k] assms(2-) by (auto simp: counter_def)
qed

section \<open>A SYNC in a node\<close>

text \<open>What the Transmit-PDO at a place of the list does at a SYNC, with the dictionary \<open>dev\<close>.\<close>

definition sync_sent :: "heap \<Rightarrow> nat \<Rightarrow> u8 \<Rightarrow> (u16 \<Rightarrow> int \<times> bool) \<Rightarrow> co_device \<Rightarrow> tpdo option \<Rightarrow> tpdo option \<Rightarrow> bool" where
  "sync_sent H now cnt res dev t t' = (case t of None \<Rightarrow> t' = None
     | Some p \<Rightarrow> \<exists>r p'. co_tpdo_sync H now cnt (fst (res (tp_num p))) (snd (res (tp_num p))) (p\<lparr>tp_dev := dev\<rparr>) = Some (r, p') \<and> t' = Some p')"

lemma tpdos_sync_sent:
  assumes "\<And>p. Some p \<in> set ts \<Longrightarrow> tpdo_inv (p\<lparr>tp_dev := dev\<rparr>)"
  shows "\<exists>ts'. tpdos_sync H now cnt res dev ts = Some (dev, ts') \<and> list_all2 (sync_sent H now cnt res dev) ts ts'"
  using assms
proof (induction ts)
  case (Cons t ts)
  obtain ts' where ts': "tpdos_sync H now cnt res dev ts = Some (dev, ts')" "list_all2 (sync_sent H now cnt res dev) ts ts'" using Cons by auto
  show ?case
  proof (cases t)
    case None
    moreover have "sync_sent H now cnt res dev None None" by (simp add: sync_sent_def)
    ultimately show ?thesis using ts' by auto
  next
    case (Some p)
    obtain r p' where p': "co_tpdo_sync H now cnt (fst (res (tp_num p))) (snd (res (tp_num p))) (p\<lparr>tp_dev := dev\<rparr>) = Some (r, p')" "tpdo_step (p\<lparr>tp_dev := dev\<rparr>) p'"
      using sync_step [OF Cons.prems, of p H now cnt "fst (res (tp_num p))" "snd (res (tp_num p))"] Some by auto
    then have "tp_dev p' = dev" by (simp add: tpdo_step_def tpdo_par_def)
    moreover have "sync_sent H now cnt res dev (Some p) (Some p')" using p'(1) by (simp add: sync_sent_def)
    ultimately show ?thesis using ts' p'(1) Some by auto
  qed
qed simp

lemma read_frame_protects: "co_rpdo_read_frame H p m = Some (ac, q) \<Longrightarrow> protected (rp_dev p) i \<Longrightarrow> same_at (rp_dev p) (rp_dev q) i"
  unfolding co_rpdo_read_frame_def by (auto simp: Let_def bind_eq_Some_conv intro: pdo_dn_protects)

lemma rpdo_sync_protects:
  assumes "co_rpdo_sync H now cnt p = Some (r, p')" "protected (rp_dev p) i"
  shows "same_at (rp_dev p) (rp_dev p') i"
proof -
  let ?p = "(co_rpdo_init_timer_swnd now (p\<lparr>rp_swnd := False\<rparr>))\<lparr>rp_sync := False\<rparr>"
  have "same_at (rp_dev p) (rp_dev q) i" if "co_rpdo_read_frame H ?p m = Some (ac, q)" for m ac q
    using read_frame_protects [OF that] assms(2) by (simp add: co_rpdo_init_timer_swnd_def Let_def)
  moreover have "rp_dev (co_rpdo_init_timer_swnd now (p\<lparr>rp_swnd := False\<rparr>)) = rp_dev p" by (simp add: co_rpdo_init_timer_swnd_def Let_def)
  ultimately show ?thesis using assms(1) by (auto simp: co_rpdo_sync_def Let_def bind_eq_Some_conv split: if_splits)
qed

lemma rpdo_inv_same:
  assumes "rpdo_inv (q\<lparr>rp_dev := dev\<rparr>)" "same_at dev dev' (idx_1400 q)" "same_at dev dev' (idx_1600 q)"
  shows "rpdo_inv (q\<lparr>rp_dev := dev'\<rparr>)"
  using assms same_at_get [OF assms(2)] same_at_get [OF assms(3)] same_at_protected [OF assms(2)] same_at_protected [OF assms(3)]
  by (auto simp: rpdo_inv_def rpdo_mirrors_def split: if_splits)

lemma rpdos_sync_total:
  assumes "\<And>q. Some q \<in> set rs \<Longrightarrow> rpdo_inv (q\<lparr>rp_dev := dev\<rparr>)"
  shows "\<exists>dev' rs'. rpdos_sync H now cnt dev rs = Some (dev', rs') \<and> (\<forall>i. protected dev i \<longrightarrow> same_at dev dev' i)"
  using assms
proof (induction rs arbitrary: dev)
  case (Cons t rs)
  show ?case
  proof (cases t)
    case None
    then show ?thesis using Cons.IH [of dev] Cons.prems by auto
  next
    case (Some q)
    have inv: "rpdo_inv (q\<lparr>rp_dev := dev\<rparr>)" using Cons.prems Some by simp
    then obtain r q' where q': "co_rpdo_sync H now cnt (q\<lparr>rp_dev := dev\<rparr>) = Some (r, q')" using sync_rpdo_inv by blast
    have same: "same_at dev (rp_dev q') i" if "protected dev i" for i using rpdo_sync_protects [OF q', of i] that by simp
    have "rpdo_inv (p\<lparr>rp_dev := rp_dev q'\<rparr>)" if "Some p \<in> set rs" for p
    proof -
      have p: "rpdo_inv (p\<lparr>rp_dev := dev\<rparr>)" using Cons.prems that by simp
      then have "protected dev (idx_1400 p)" "protected dev (idx_1600 p)" by (simp_all add: rpdo_inv_def)
      then show ?thesis using rpdo_inv_same [OF p] same by blast
    qed
    from Cons.IH [OF this] obtain dev' rs' where "rpdos_sync H now cnt (rp_dev q') rs = Some (dev', rs')"
      "\<forall>i. protected (rp_dev q') i \<longrightarrow> same_at (rp_dev q') dev' i" by blast
    moreover have "same_at dev dev' i" if "protected dev i" for i
      using calculation(2) same [OF that] same_at_protected [OF same [OF that]] that same_at_trans by blast
    ultimately show ?thesis using Some q' by auto
  qed
qed simp

text \<open>C13. At a SYNC a node transmits before it updates. All Transmit-PDOs act on the dictionary as it was when the SYNC arrived, whatever the Receive-PDOs
  of the same node have waiting for that SYNC; only then are the waiting frames written to the dictionary, and that
  leaves alone every object that cannot be mapped, so the parameters of all PDOs in particular; last, the application is told. Every call returns.
\<close>

theorem sync_sends_before_update:
  assumes "\<And>p. Some p \<in> set ts \<Longrightarrow> tpdo_inv (p\<lparr>tp_dev := dev\<rparr>)" "\<And>q. Some q \<in> set rs \<Longrightarrow> rpdo_inv (q\<lparr>rp_dev := dev\<rparr>)"
  shows "\<exists>dev' ts' rs'. co_nmt_on_sync H now cnt res ind dev ts rs = Some (dev', ts', rs', if ind then [cnt] else []) \<and> list_all2 (sync_sent H now cnt res dev) ts ts'
    \<and> rpdos_sync H now cnt dev rs = Some (dev', rs') \<and> (\<forall>i. protected dev i \<longrightarrow> same_at dev dev' i)"
proof -
  obtain ts' where "tpdos_sync H now cnt res dev ts = Some (dev, ts')" "list_all2 (sync_sent H now cnt res dev) ts ts'"
    using tpdos_sync_sent [OF assms(1)] by blast
  moreover obtain dev' rs' where "rpdos_sync H now cnt dev rs = Some (dev', rs')" "\<forall>i. protected dev i \<longrightarrow> same_at dev dev' i"
    using rpdos_sync_total [OF assms(2)] by blast
  ultimately show ?thesis by (simp add: co_nmt_on_sync_def)
qed

section \<open>Witnesses\<close>

definition demo_sync_dev :: "u32 \<Rightarrow> co_device" where
  "demo_sync_dev cobid = \<lparr>dv_od = [0x1005 \<mapsto> demo_obj [0 \<mapsto> par_sub 7 (stle_u32 cobid)], 0x1006 \<mapsto> demo_obj [0 \<mapsto> par_sub 7 (stle_u32 1000)],
     0x1019 \<mapsto> demo_obj [0 \<mapsto> par_sub 5 [3]]], dv_id = 1, dv_dummy = 0\<rparr>"

definition demo_sync :: "u32 \<Rightarrow> sync" where
  "demo_sync cobid = the (co_sync_init 1234567 (demo_sync_dev cobid))"

lemma demo_sync_init: "co_sync_init 1234567 (demo_sync_dev cobid) = Some (demo_sync cobid)" "sync_typed (dv_od (demo_sync_dev cobid))"
  by (auto simp: demo_sync_def co_sync_init_def demo_sync_dev_def sync_typed_def typed_def co_dev_find_sub_def demo_obj_def par_sub_def demo_sub_def
      CO_DEFTYPE_UNSIGNED8_def CO_DEFTYPE_UNSIGNED32_def)

lemma demo_sync_fields:
  "sy_cobid (demo_sync cobid) = cobid" "sy_max_cnt (demo_sync cobid) = 3" "sy_cnt (demo_sync cobid) = 1"
  "sy_recv (demo_sync cobid) = (if sync_producer cobid then None else Some (sync_key cobid))"
  "sy_timer (demo_sync cobid) = (if sync_producer cobid then Some (2000000, 1000000) else None)"
  by (simp_all add: demo_sync_def co_sync_init_def demo_sync_dev_def co_sync_start_def co_sync_update_def Let_def co_dev_get_val_u8_def co_dev_get_val_u32_def
      co_sub_get_val_u8_def co_sub_get_val_u32_def sub_bytes_def co_dev_find_sub_def demo_obj_def par_sub_def demo_sub_def CO_DEFTYPE_UNSIGNED8_def CO_DEFTYPE_UNSIGNED32_def)

theorem sync_service_ok_witness:
  "\<exists>s'. run_events sync_exec [S_timer True, S_1019 7 0 5, S_1005 8 0 0x80, S_recv (demo_pdo_frame 0x80 [1]), S_1006 9 0 0, S_stop, S_start 5] (demo_sync 0x40000080) = Some s' \<and> sync_ok s'"
  by (rule sync_service_ok [OF demo_sync_init])

theorem sync_counter_agrees_witness:
  "\<exists>p' fs c'. run_events sync_exec (replicate 5 (S_timer True)) (demo_sync 0x40000080) = Some p' \<and> sync_frames (sy_out p') = sync_frames (sy_out (demo_sync 0x40000080)) @ fs
     \<and> run_events sync_exec (map S_recv fs) ((demo_sync 0x80)\<lparr>sy_ind := True\<rparr>) = Some c'
     \<and> sy_out c' = sy_out (demo_sync 0x80) @ [Sync_ind 1, Sync_ind 2, Sync_ind 3, Sync_ind 1, Sync_ind 2]"
  using sync_counter_agrees [where p = "demo_sync 0x40000080" and c = "(demo_sync 0x80)\<lparr>sy_ind := True\<rparr>" and k = 5]
  by (simp add: demo_sync_fields sync_producer_def CO_SYNC_COBID_PRODUCER_def sync_key_def CO_SYNC_COBID_FRAME_def CAN_MASK_BID_def CAN_MASK_EID_def
      counter_def upt_rec)

definition demo_node_dev :: co_device where
  "demo_node_dev = \<lparr>dv_od = dv_od (demo_tpdo_dev 1) ++ dv_od (demo_rpdo_dev 1), dv_id = 1, dv_dummy = 0\<rparr>"

theorem sync_sends_before_update_witness:
  "\<exists>dev' ts' rs'. co_nmt_on_sync example_heap 3 0 (\<lambda>_. (0, True)) True demo_node_dev [Some (the (co_tpdo_init 0 demo_node_dev 1)), None] [None, Some (the (co_rpdo_init demo_node_dev 1))] = Some (dev', ts', rs', [0])
     \<and> list_all2 (sync_sent example_heap 3 0 (\<lambda>_. (0, True)) demo_node_dev) [Some (the (co_tpdo_init 0 demo_node_dev 1)), None] ts'
     \<and> rpdos_sync example_heap 3 0 demo_node_dev [None, Some (the (co_rpdo_init demo_node_dev 1))] = Some (dev', rs')"
proof -
  note unf = demo_node_dev_def demo_tpdo_dev_def demo_rpdo_dev_def CO_NUM_PDOS_def co_dev_find_sub_def stle_u32_def stle_u16_def co_type_is_basic_def
      demo_obj_def par_sub_def demo_sub_def typed_def CO_DEFTYPE_UNSIGNED8_def CO_DEFTYPE_UNSIGNED16_def CO_DEFTYPE_UNSIGNED32_def
  have t: "co_tpdo_init 0 demo_node_dev 1 = Some (the (co_tpdo_init 0 demo_node_dev 1))" "values_ok (dv_od demo_node_dev)"
    "comm_typed (dv_od demo_node_dev) (0x1800 + 1 - 1)" "map_typed (dv_od demo_node_dev) (0x1a00 + 1 - 1)"
    by (auto simp: co_tpdo_init_def values_ok_def comm_typed_def map_typed_def unf split: if_splits option.splits)
  have r: "co_rpdo_init demo_node_dev 1 = Some (the (co_rpdo_init demo_node_dev 1))" "protected demo_node_dev (0x1400 + 1 - 1)" "protected demo_node_dev (0x1600 + 1 - 1)"
    "comm_typed (dv_od demo_node_dev) (0x1400 + 1 - 1)" "map_typed (dv_od demo_node_dev) (0x1600 + 1 - 1)"
    by (auto simp: co_rpdo_init_def protected_def comm_typed_def map_typed_def unf split: if_splits option.splits)
  obtain p where p: "co_tpdo_init 0 demo_node_dev 1 = Some p" using t(1) by blast
  obtain q where q: "co_rpdo_init demo_node_dev 1 = Some q" using r(1) by blast
  have "tp_dev p = demo_node_dev" using p
    by (auto simp: co_tpdo_init_def co_tpdo_start_def co_tpdo_init_recv_def co_tpdo_init_timer_event_def Let_def simp del: fun_upd_apply split: if_splits)
  moreover have "rp_dev q = demo_node_dev" using q
    by (auto simp: co_rpdo_init_def co_rpdo_start_def co_rpdo_init_recv_def Let_def simp del: fun_upd_apply split: if_splits)
  ultimately have "p\<lparr>tp_dev := demo_node_dev\<rparr> = p" "q\<lparr>rp_dev := demo_node_dev\<rparr> = q" by (metis tpdo.surjective tpdo.update_convs(1), metis rpdo.surjective rpdo.update_convs(1))
  then have "tpdo_inv (p\<lparr>tp_dev := demo_node_dev\<rparr>)" "rpdo_inv (q\<lparr>rp_dev := demo_node_dev\<rparr>)"
    using init_tpdo_inv [OF p t(2-4)] init_rpdo_inv [OF q r(2-5)] by simp_all
  then show ?thesis
    using sync_sends_before_update [where ts = "[Some p, None]" and rs = "[None, Some q]"
        and dev = demo_node_dev and H = example_heap and now = 3 and cnt = 0 and res = "\<lambda>_. (0, True)" and ind = True] p q by fastforce
qed

end
