(* ===== verification/Co_Nmt_Hb.thy ===== *)
theory Co_Nmt_Hb
  imports Rtt_Types Runs
begin

text \<open>
  The heartbeat consumer (\<open>upstream/src/co/nmt_hb.c\<close>), with \<open>co_nmt_hb_ind\<close> (\<open>upstream/src/co/nmt.c\<close>), which hands its reports to the application; a report of
  a state also stands for the call of \<open>co_nmt_st_ind\<close> with that state.
  The timer is the time at which it expires, in nanoseconds. \<open>master\<close> says whether the node is an NMT master.
\<close>

unbundle bit_operations_syntax

section \<open>Model\<close>

text \<open>What the application is told: a time-out that occurred or was resolved, or a change of state.\<close>

datatype hb_report = Hb_timeout u8 bool | Hb_state u8 u8

record hb =
  hb_recv :: "u32 option"
  hb_timer :: "nat option"
  hb_id :: u8
  hb_st :: u8
  hb_ms :: u16
  hb_occurred :: bool
  hb_out :: "hb_report list"


definition CO_NMT_EC_CANID :: "u8 \<Rightarrow> u32" where
  "CO_NMT_EC_CANID nid = 0x700 + ucast (nid AND 0x7f)"

definition co_nmt_hb_init :: hb where
  "co_nmt_hb_init = \<lparr>hb_recv = None, hb_timer = None, hb_id = 0, hb_st = 0, hb_ms = 0, hb_occurred = False, hb_out = []\<rparr>"

definition hb_active :: "hb \<Rightarrow> bool" where
  "hb_active h \<longleftrightarrow> hb_id h \<noteq> 0 \<and> hb_id h \<le> 127 \<and> hb_ms h \<noteq> 0"

definition co_nmt_hb_ind :: "hb_report \<Rightarrow> hb \<Rightarrow> hb" where
  "co_nmt_hb_ind r h = (if hb_id h = 0 \<or> hb_id h > 127 then h else h\<lparr>hb_out := hb_out h @ [r]\<rparr>)"

definition co_nmt_hb_set_1016 :: "u8 \<Rightarrow> u16 \<Rightarrow> hb \<Rightarrow> hb" where
  "co_nmt_hb_set_1016 nid ms h =
     (let h = h\<lparr>hb_timer := None, hb_id := nid, hb_st := 0, hb_ms := ms, hb_occurred := False\<rparr>
      in h\<lparr>hb_recv := if hb_active h then Some (CO_NMT_EC_CANID nid) else None\<rparr>)"

definition co_nmt_hb_set_st :: "nat \<Rightarrow> u8 \<Rightarrow> hb \<Rightarrow> hb" where
  "co_nmt_hb_set_st now st h =
     (if hb_active h then h\<lparr>hb_st := st, hb_occurred := False, hb_timer := Some (now + unat (hb_ms h) * 1000000)\<rparr> else h)"

definition co_nmt_hb_recv :: "bool \<Rightarrow> nat \<Rightarrow> can_msg \<Rightarrow> hb \<Rightarrow> int \<times> hb" where
  "co_nmt_hb_recv master now msg h =
     (let st = cm_data msg ! 0
      in if cm_len msg < 1 \<or> st AND CO_NMT_ST_TOGGLE \<noteq> 0 \<or> (st = CO_NMT_ST_BOOTUP \<and> master) \<or> hb_ms h = 0 then (0, h)
         else
           let h' = co_nmt_hb_set_st now st h;
               h' = (if hb_occurred h then co_nmt_hb_ind (Hb_timeout (hb_id h') (hb_occurred h')) h' else h');
               h' = (if st \<noteq> hb_st h then co_nmt_hb_ind (Hb_state (hb_id h') st) h' else h')
           in (1, h'))"

definition co_nmt_hb_timer :: "hb \<Rightarrow> hb" where
  "co_nmt_hb_timer h = co_nmt_hb_ind (Hb_timeout (hb_id h) True) (h\<lparr>hb_timer := None, hb_occurred := True\<rparr>)"

section \<open>Time and frames\<close>

text \<open>
  The network first lets the timers expire that are due and then delivers a frame, to the receiver registered for its
  identifier.
\<close>

definition hb_advance :: "nat \<Rightarrow> hb \<Rightarrow> hb" where
  "hb_advance now h = (case hb_timer h of None \<Rightarrow> h | Some t \<Rightarrow> if t \<le> now then co_nmt_hb_timer h else h)"

definition hb_deliver :: "bool \<Rightarrow> nat \<Rightarrow> can_msg \<Rightarrow> hb \<Rightarrow> hb" where
  "hb_deliver master now msg h =
     (let h = hb_advance now h in if hb_recv h = Some (cm_id msg) \<and> cm_flags msg = 0 then snd (co_nmt_hb_recv master now msg h) else h)"

fun hb_feed :: "bool \<Rightarrow> (nat \<times> can_msg) list \<Rightarrow> hb \<Rightarrow> hb" where
  "hb_feed master [] h = h"
| "hb_feed master ((t, m) # fs) h = hb_feed master fs (hb_deliver master t m h)"

section \<open>The specification\<close>

text \<open>A frame that counts as a heartbeat of node \<open>nid\<close>, and the heartbeats of a list of frames with their times and states.\<close>

definition heartbeat :: "bool \<Rightarrow> u8 \<Rightarrow> can_msg \<Rightarrow> bool" where
  "heartbeat master nid m \<longleftrightarrow> cm_id m = CO_NMT_EC_CANID nid \<and> cm_flags m = 0 \<and> cm_len m \<noteq> 0 \<and> cm_data m ! 0 AND CO_NMT_ST_TOGGLE = 0
     \<and> \<not> (cm_data m ! 0 = CO_NMT_ST_BOOTUP \<and> master)"

definition heartbeats :: "bool \<Rightarrow> u8 \<Rightarrow> (nat \<times> can_msg) list \<Rightarrow> (nat \<times> u8) list" where
  "heartbeats master nid fs = map (\<lambda>(t, m). (t, cm_data m ! 0)) (filter (\<lambda>(t, m). heartbeat master nid m) fs)"

text \<open>
  A monitor of the heartbeats of a node, up to the time \<open>until\<close>: \<open>prev\<close> is the time of the last heartbeat and \<open>st\<close> its state. Whenever \<open>period\<close>
  passes without a heartbeat a time-out occurs, and the next heartbeat resolves it; every change of state is reported.
\<close>

fun hb_monitor :: "u8 \<Rightarrow> nat \<Rightarrow> nat \<Rightarrow> nat \<Rightarrow> u8 \<Rightarrow> (nat \<times> u8) list \<Rightarrow> hb_report list" where
  "hb_monitor nid period until prev st [] = (if prev + period \<le> until then [Hb_timeout nid True] else [])"
| "hb_monitor nid period until prev st ((t, s) # r) =
     (if prev + period \<le> t then [Hb_timeout nid True, Hb_timeout nid False] else []) @ (if s \<noteq> st then [Hb_state nid s] else [])
     @ hb_monitor nid period until t s r"

section \<open>The consumer is that monitor\<close>

lemma hb_ind_fields [simp]:
  "hb_recv (co_nmt_hb_ind r h) = hb_recv h" "hb_timer (co_nmt_hb_ind r h) = hb_timer h" "hb_id (co_nmt_hb_ind r h) = hb_id h"
  "hb_st (co_nmt_hb_ind r h) = hb_st h" "hb_ms (co_nmt_hb_ind r h) = hb_ms h" "hb_occurred (co_nmt_hb_ind r h) = hb_occurred h"
  by (simp_all add: co_nmt_hb_ind_def)

lemma hb_ind_out: "hb_id h \<noteq> 0 \<Longrightarrow> hb_id h \<le> 127 \<Longrightarrow> hb_out (co_nmt_hb_ind r h) = hb_out h @ [r]"
  by (auto simp: co_nmt_hb_ind_def)

text \<open>An active consumer whose last heartbeat was at \<open>prev\<close> with state \<open>st\<close>; it has reported a time-out or its timer is running.\<close>

definition hb_watching :: "u8 \<Rightarrow> nat \<Rightarrow> nat \<Rightarrow> u8 \<Rightarrow> hb \<Rightarrow> bool" where
  "hb_watching nid period prev st h \<longleftrightarrow> hb_id h = nid \<and> nid \<noteq> 0 \<and> nid \<le> 127 \<and> hb_ms h \<noteq> 0 \<and> period = unat (hb_ms h) * 1000000 \<and> hb_st h = st
     \<and> hb_recv h = Some (CO_NMT_EC_CANID nid) \<and> hb_timer h = (if hb_occurred h then None else Some (prev + period))"

lemma advance_watching:
  assumes "hb_watching nid period prev st h"
  shows "hb_watching nid period prev st (hb_advance now h)" "hb_occurred (hb_advance now h) = (hb_occurred h \<or> prev + period \<le> now)"
    "hb_out (hb_advance now h) = hb_out h @ (if \<not> hb_occurred h \<and> prev + period \<le> now then [Hb_timeout nid True] else [])"
  using assms by (auto simp: hb_watching_def hb_advance_def co_nmt_hb_timer_def hb_ind_out)

lemma deliver_heartbeat:
  assumes "hb_watching nid period prev st h" "heartbeat master nid m"
  shows "hb_watching nid period t (cm_data m ! 0) (hb_deliver master t m h)" "\<not> hb_occurred (hb_deliver master t m h)"
    "hb_out (hb_deliver master t m h) = hb_out h @ (if hb_occurred h then [Hb_timeout nid False]
       else if prev + period \<le> t then [Hb_timeout nid True, Hb_timeout nid False] else []) @ (if cm_data m ! 0 \<noteq> st then [Hb_state nid (cm_data m ! 0)] else [])"
proof -
  let ?h = "hb_advance t h"
  have w: "hb_watching nid period prev st ?h" by (rule advance_watching(1) [OF assms(1)])
  have e: "hb_deliver master t m h = snd (co_nmt_hb_recv master t m ?h)" using w assms(2) by (simp add: hb_deliver_def hb_watching_def heartbeat_def Let_def)
  have a: "hb_active ?h" "\<not> cm_len m < 1" using w assms(2) by (simp_all add: hb_active_def hb_watching_def heartbeat_def)
  note unf = e co_nmt_hb_recv_def co_nmt_hb_set_st_def Let_def
  show "hb_watching nid period t (cm_data m ! 0) (hb_deliver master t m h)" "\<not> hb_occurred (hb_deliver master t m h)"
    using a w assms(2) by (auto simp: unf heartbeat_def hb_watching_def)
  have "hb_out (hb_deliver master t m h) = hb_out ?h @ (if hb_occurred ?h then [Hb_timeout nid False] else []) @ (if cm_data m ! 0 \<noteq> st then [Hb_state nid (cm_data m ! 0)] else [])"
    using a w assms(2) by (auto simp: unf heartbeat_def hb_watching_def hb_ind_out)
  then show "hb_out (hb_deliver master t m h) = hb_out h @ (if hb_occurred h then [Hb_timeout nid False]
       else if prev + period \<le> t then [Hb_timeout nid True, Hb_timeout nid False] else []) @ (if cm_data m ! 0 \<noteq> st then [Hb_state nid (cm_data m ! 0)] else [])"
    using advance_watching(2,3) [OF assms(1), of t] by auto
qed

lemma deliver_other:
  assumes "hb_watching nid period prev st h" "\<not> heartbeat master nid m"
  shows "hb_deliver master t m h = hb_advance t h"
proof -
  have w: "hb_watching nid period prev st (hb_advance t h)" by (rule advance_watching(1) [OF assms(1)])
  show ?thesis using w assms(2) by (auto simp: hb_deliver_def co_nmt_hb_recv_def heartbeat_def hb_watching_def Let_def)
qed

text \<open>Once the time-out has been reported, the rest of the monitor follows.\<close>

lemma monitor_late:
  assumes "prev + period \<le> until" "\<forall>(t, s)\<in>set hs. prev + period \<le> t"
  shows "hb_monitor nid period until prev st hs = Hb_timeout nid True # tl (hb_monitor nid period until prev st hs)"
  using assms by (cases hs) auto

lemma heartbeats_times: "(t, s) \<in> set (heartbeats master nid fs) \<Longrightarrow> t \<in> fst ` set fs"
  by (force simp: heartbeats_def)

lemma feed_monitor:
  assumes "hb_watching nid period prev st h" "sorted (map fst fs @ [until])"
    and "hb_occurred h \<Longrightarrow> prev + period \<le> until \<and> (\<forall>(t, m)\<in>set fs. prev + period \<le> t)"
  shows "hb_out (hb_advance until (hb_feed master fs h))
    = hb_out h @ (if hb_occurred h then tl else id) (hb_monitor nid period until prev st (heartbeats master nid fs))"
  using assms
proof (induction fs arbitrary: prev st h)
  case Nil
  then show ?case using advance_watching(3) [OF Nil.prems(1), of until] by (auto simp: heartbeats_def)
next
  case (Cons f fs)
  obtain t m where f: "f = (t, m)" by (cases f)
  have srt: "sorted (map fst fs @ [until])" "\<forall>(t', m')\<in>set fs. t \<le> t'" "t \<le> until" using Cons.prems(2) f by (auto simp: sorted_append)
  show ?case
  proof (cases "heartbeat master nid m")
    case True
    note d = deliver_heartbeat [OF Cons.prems(1) True, of t]
    have "hb_out (hb_advance until (hb_feed master fs (hb_deliver master t m h)))
      = hb_out (hb_deliver master t m h) @ hb_monitor nid period until t (cm_data m ! 0) (heartbeats master nid fs)"
      using Cons.IH [OF d(1) srt(1)] d(2) by simp
    then show ?thesis using d(3) True f Cons.prems(3) by (auto simp: heartbeats_def)
  next
    case False
    have hs: "heartbeats master nid (f # fs) = heartbeats master nid fs" using False f by (simp add: heartbeats_def)
    note d = deliver_other [OF Cons.prems(1) False, of t] and a = advance_watching [OF Cons.prems(1), of t]
    have late: "prev + period \<le> until \<and> (\<forall>(t', m')\<in>set fs. prev + period \<le> t')" if "hb_occurred h \<or> prev + period \<le> t"
      using that srt(2,3) Cons.prems(3) by fastforce
    have IH: "hb_out (hb_advance until (hb_feed master fs (hb_advance t h)))
      = hb_out (hb_advance t h) @ (if hb_occurred h \<or> prev + period \<le> t then tl else id) (hb_monitor nid period until prev st (heartbeats master nid fs))"
      using Cons.IH [OF a(1) srt(1)] late a(2) by simp
    have m: "hb_monitor nid period until prev st (heartbeats master nid fs) = Hb_timeout nid True # tl (hb_monitor nid period until prev st (heartbeats master nid fs))"
      if "prev + period \<le> t"
      by (rule monitor_late) (use late that heartbeats_times [of _ _ master nid fs] in fastforce)+
    show ?thesis using IH a(3) m d f hs by (cases "hb_occurred h"; cases "prev + period \<le> t") simp_all
  qed
qed

text \<open>C15. The heartbeat consumer reports exactly what a monitor of the heartbeats would. From the moment it is set up for a node and that node has
  sent its first heartbeat, for any frames in the order of their times, up to any later time: each gap of at least
  the consumer time is one time-out, reported when the time has passed, and resolved by the next heartbeat; every change of state is
  reported once; frames that are no heartbeats of the node make no difference.
\<close>

theorem hb_consumer_refines_monitor:
  assumes "nid \<noteq> 0" "nid \<le> 127" "ms \<noteq> 0" "heartbeat master nid m" "sorted (t # map fst fs @ [until])"
  shows "hb_out (hb_advance until (hb_feed master ((t, m) # fs) (co_nmt_hb_set_1016 nid ms h)))
    = hb_out h @ (if cm_data m ! 0 \<noteq> 0 then [Hb_state nid (cm_data m ! 0)] else [])
      @ hb_monitor nid (unat ms * 1000000) until t (cm_data m ! 0) (heartbeats master nid fs)"
proof -
  let ?h = "co_nmt_hb_set_1016 nid ms h" and ?p = "unat ms * 1000000"
  have act: "hb_active (h\<lparr>hb_timer := None, hb_id := nid, hb_st := 0, hb_ms := ms, hb_occurred := False\<rparr>)" using assms(1-3) by (simp add: hb_active_def)
  have h: "hb_id ?h = nid" "hb_st ?h = 0" "hb_ms ?h = ms" "\<not> hb_occurred ?h" "hb_timer ?h = None" "hb_recv ?h = Some (CO_NMT_EC_CANID nid)" "hb_out ?h = hb_out h" "hb_active ?h"
    using act by (simp_all add: co_nmt_hb_set_1016_def hb_active_def Let_def)
  have l: "\<not> cm_len m < 1" using assms(4) by (simp add: heartbeat_def)
  have d: "hb_deliver master t m ?h = snd (co_nmt_hb_recv master t m ?h)" using h assms(4) by (simp add: hb_deliver_def hb_advance_def heartbeat_def)
  have "hb_watching nid ?p t (cm_data m ! 0) (hb_deliver master t m ?h)" "\<not> hb_occurred (hb_deliver master t m ?h)"
    "hb_out (hb_deliver master t m ?h) = hb_out h @ (if cm_data m ! 0 \<noteq> 0 then [Hb_state nid (cm_data m ! 0)] else [])"
    using h l assms(1-4) by (auto simp: d co_nmt_hb_recv_def co_nmt_hb_set_st_def Let_def heartbeat_def hb_watching_def hb_ind_out)
  moreover have "sorted (map fst fs @ [until])" using assms(5) by simp
  ultimately show ?thesis using feed_monitor [of nid ?p t "cm_data m ! 0" "hb_deliver master t m ?h" fs until master] by simp
qed

definition demo_hb :: "u8 \<Rightarrow> can_msg" where
  "demo_hb st = \<lparr>cm_id = 0x705, cm_flags = 0, cm_len = 1, cm_data = [st]\<rparr>"

theorem hb_consumer_refines_monitor_witness:
  "hb_out (hb_advance 1000 (hb_feed True ((0, demo_hb 5) # [(50, demo_hb 0), (900, demo_hb 5), (950, demo_hb 4)]) (co_nmt_hb_set_1016 5 1 co_nmt_hb_init)))
     = [Hb_state 5 5, Hb_state 5 4]
   \<and> hb_out (hb_advance 3000000 (hb_feed True ((0, demo_hb 5) # [(50, demo_hb 0), (1000000, demo_hb 5)]) (co_nmt_hb_set_1016 5 1 co_nmt_hb_init)))
     = [Hb_state 5 5, Hb_timeout 5 True, Hb_timeout 5 False, Hb_timeout 5 True]"
  using hb_consumer_refines_monitor [where nid = 5 and ms = 1 and master = True and m = "demo_hb 5" and t = 0 and fs = "[(50, demo_hb 0), (900, demo_hb 5), (950, demo_hb 4)]"
      and until = 1000 and h = co_nmt_hb_init]
    hb_consumer_refines_monitor [where nid = 5 and ms = 1 and master = True and m = "demo_hb 5" and t = 0 and fs = "[(50, demo_hb 0), (1000000, demo_hb 5)]"
      and until = 3000000 and h = co_nmt_hb_init]
  by (simp add: heartbeat_def heartbeats_def demo_hb_def CO_NMT_EC_CANID_def CO_NMT_ST_TOGGLE_def CO_NMT_ST_BOOTUP_def co_nmt_hb_init_def)

end
