(* ===== verification/Co_Emcy.thy ===== *)
theory Co_Emcy
  imports Co_Rpdo Can_Buf
begin

text \<open>
  The EMCY service of the stack (\<open>upstream/src/co/emcy.c\<close>): the stack of active errors with the error register (1001) and
  the pre-defined error field (1003), the frames that wait in a CAN frame buffer for the inhibit time, and
  the reception from remote nodes. The allocator is a parameter: whether it gives memory for the stack and for the buffer, and what fresh memory holds.
  What is handed to the network is recorded with its time.
\<close>

unbundle bit_operations_syntax

section \<open>Model\<close>

record alloc =
  al_stack :: bool
  al_buf :: bool
  al_fresh :: "nat \<Rightarrow> can_msg"

datatype emcy_out = Emcy_sent nat can_msg | Emcy_ind u8 u16 u8 bytes

record emcy =
  em_dev :: co_device
  em_stopped :: bool
  em_msgs :: "(u16 \<times> u8) list" \<comment> \<open>error code and register, the most recent first\<close>
  em_buf :: "can_msg can_buf"
  em_timer :: "nat option"
  em_inhibit :: nat
  em_nodes :: "u8 \<Rightarrow> (u32 \<times> u8) option" \<comment> \<open>the receivers of the remote nodes\<close>
  em_ind :: bool
  em_out :: "emcy_out list"

definition CO_EMCY_COBID_VALID :: u32 where "CO_EMCY_COBID_VALID = 0x80000000"
definition CO_EMCY_COBID_FRAME :: u32 where "CO_EMCY_COBID_FRAME = 0x20000000"

definition emcy_key :: "u32 \<Rightarrow> u32 \<times> u8" where
  "emcy_key cobid = (if cobid AND CO_EMCY_COBID_FRAME \<noteq> 0 then (cobid AND CAN_MASK_EID, CAN_FLAG_IDE) else (cobid AND CAN_MASK_BID, 0))"

text \<open>The sub-indices of an object in order, and \<open>co_obj_get_subidx\<close>, which counts them in eight bits.\<close>

definition obj_subidx :: "co_obj \<Rightarrow> u8 list" where
  "obj_subidx ob = filter (\<lambda>k. obj_subs ob k \<noteq> None) (map of_nat [0..<256])"

definition co_obj_get_subidx :: "co_obj \<Rightarrow> u8" where
  "co_obj_get_subidx ob = of_nat (length (obj_subidx ob))"

text \<open>
  \<open>co_emcy_set_1003\<close> writes the values of the sub-objects one after the other: the number of errors, their codes, and zero for the rest.
\<close>

definition history :: "(u16 \<times> u8) list \<Rightarrow> u8 \<Rightarrow> bytes list" where
  "history msgs nsubidx =
     (let n = min (unat (of_nat (length msgs) :: u8)) (unat nsubidx - 1)
      in [of_nat n] # map (\<lambda>i. stle_u32 (if i < n then ucast (fst (msgs ! i)) else 0)) [0..<unat nsubidx - 1])"

definition od_writes :: "u16 \<Rightarrow> (u8 \<times> bytes) list \<Rightarrow> co_device \<Rightarrow> co_device" where
  "od_writes idx kvs dev = fold (\<lambda>(k, v) d. od_put d idx k v) kvs dev"

definition co_emcy_set_1003 :: "emcy \<Rightarrow> emcy" where
  "co_emcy_set_1003 e =
     (case dv_od (em_dev e) 0x1003 of
        None \<Rightarrow> e
      | Some ob \<Rightarrow>
          if co_obj_get_subidx ob = 0 then e
          else e\<lparr>em_dev := od_writes 0x1003 (zip (obj_subidx ob) (history (em_msgs e) (co_obj_get_subidx ob))) (em_dev e)\<rparr>)"

text \<open>\<open>co_emcy_peek\<close>: the code of the most recent error and the combined error register.\<close>

definition co_emcy_peek :: "emcy \<Rightarrow> u16 \<times> u8" where
  "co_emcy_peek e = (case em_msgs e of [] \<Rightarrow> 0 | m # _ \<Rightarrow> fst m, fold (\<lambda>m er. er OR snd m) (em_msgs e) 0)"

definition co_emcy_find :: "u16 \<Rightarrow> emcy \<Rightarrow> int" where
  "co_emcy_find eec e = (case find (\<lambda>i. fst (em_msgs e ! i) = eec) [0..<length (em_msgs e)] of None \<Rightarrow> -1 | Some i \<Rightarrow> int i)"

text \<open>The loop of \<open>co_emcy_flush\<close>, with as much fuel as there are frames and one more round.\<close>

fun flush_loop :: "nat \<Rightarrow> nat \<Rightarrow> nat \<Rightarrow> emcy \<Rightarrow> emcy option" where
  "flush_loop 0 now gap e = None"
| "flush_loop (Suc k) now gap e =
     (if can_buf_size (em_buf e) = 0 then Some e
      else if now < em_inhibit e then Some (e\<lparr>em_timer := Some (em_inhibit e)\<rparr>)
      else case can_buf_read (em_buf e) 1 of
        None \<Rightarrow> None
      | Some (ms, buf) \<Rightarrow> flush_loop k now gap (e\<lparr>em_inhibit := now + gap, em_buf := buf, em_out := em_out e @ map (Emcy_sent now) ms\<rparr>))"

definition emcy_gap :: "emcy \<Rightarrow> nat" where
  "emcy_gap e = unat (co_dev_get_val_u16 (dv_od (em_dev e)) 0x1015 0) * 100000"

definition co_emcy_flush :: "nat \<Rightarrow> emcy \<Rightarrow> emcy option" where
  "co_emcy_flush now e = flush_loop (Suc (unat (can_buf_size (em_buf e)))) now (emcy_gap e) e"

definition emcy_frame :: "u32 \<Rightarrow> u16 \<Rightarrow> u8 \<Rightarrow> bytes option \<Rightarrow> can_msg" where
  "emcy_frame cobid eec er msef = CAN_MSG_INIT\<lparr>cm_id := fst (emcy_key cobid), cm_flags := snd (emcy_key cobid), cm_len := of_nat CAN_MAX_LEN,
     cm_data := stle_u16 eec @ [er] @ (case msef of None \<Rightarrow> replicate 5 0 | Some m \<Rightarrow> take 5 m) @ replicate 56 0\<rparr>"

definition set_register :: "u8 \<Rightarrow> co_device \<Rightarrow> co_device" where
  "set_register er dev = (case co_dev_find_sub (dv_od dev) 0x1001 0 of None \<Rightarrow> dev
     | Some sb \<Rightarrow> if sub_type sb \<noteq> CO_DEFTYPE_UNSIGNED8 then dev else od_put dev 0x1001 0 [er])"

definition emcy_queue :: "alloc \<Rightarrow> can_msg \<Rightarrow> can_msg can_buf \<Rightarrow> (bool \<times> can_msg can_buf) option" where
  "emcy_queue A msg buf =
     (case can_buf_write buf [msg] of
        None \<Rightarrow> None
      | Some (n, buf1) \<Rightarrow>
          if n \<noteq> 0 then Some (True, buf1)
          else case can_buf_reserve (al_buf A) (al_fresh A) buf1 1 of
            None \<Rightarrow> None
          | Some (c, buf2) \<Rightarrow>
              if c = 0 then Some (False, buf2)
              else map_option (\<lambda>(_, buf3). (True, buf3)) (can_buf_write buf2 [msg]))"

definition co_emcy_send :: "alloc \<Rightarrow> nat \<Rightarrow> u16 \<Rightarrow> u8 \<Rightarrow> bytes option \<Rightarrow> emcy \<Rightarrow> (int \<times> emcy) option" where
  "co_emcy_send A now eec er msef e =
     (let e = e\<lparr>em_dev := set_register er (em_dev e)\<rparr>; cobid = co_dev_get_val_u32 (dv_od (em_dev e)) 0x1014 0
      in if dv_od (em_dev e) 0x1014 = None \<or> cobid AND CO_EMCY_COBID_VALID \<noteq> 0 then Some (0, e)
         else case emcy_queue A (emcy_frame cobid eec er msef) (em_buf e) of
           None \<Rightarrow> None
         | Some (ok, buf) \<Rightarrow>
             if \<not> ok then Some (-1, e\<lparr>em_buf := buf\<rparr>) else map_option (Pair 0) (co_emcy_flush now (e\<lparr>em_buf := buf\<rparr>)))"

definition co_emcy_push :: "alloc \<Rightarrow> nat \<Rightarrow> u16 \<Rightarrow> u8 \<Rightarrow> bytes option \<Rightarrow> emcy \<Rightarrow> (int \<times> emcy) option" where
  "co_emcy_push A now eec er msef e =
     (if eec = 0 \<or> \<not> al_stack A then Some (-1, e)
      else let e = co_emcy_set_1003 (e\<lparr>em_msgs := (eec, er OR 1) # em_msgs e\<rparr>)
           in co_emcy_send A now eec (snd (co_emcy_peek e)) msef e)"

definition co_emcy_remove :: "alloc \<Rightarrow> nat \<Rightarrow> nat \<Rightarrow> emcy \<Rightarrow> (int \<times> emcy) option" where
  "co_emcy_remove A now n e =
     (if n \<ge> length (em_msgs e) then Some (0, e)
      else let e = co_emcy_set_1003 (e\<lparr>em_msgs := take n (em_msgs e) @ drop (Suc n) (em_msgs e)\<rparr>)
           in if em_msgs e \<noteq> [] then co_emcy_send A now 0 (snd (co_emcy_peek e)) (Some (stle_u16 (fst (co_emcy_peek e)) @ [0, 0, 0])) e
              else co_emcy_send A now 0 0 None e)"

definition co_emcy_pop :: "alloc \<Rightarrow> nat \<Rightarrow> emcy \<Rightarrow> ((u16 \<times> u8) \<times> int \<times> emcy) option" where
  "co_emcy_pop A now e = map_option (Pair (co_emcy_peek e)) (co_emcy_remove A now 0 e)"

definition co_emcy_clear :: "alloc \<Rightarrow> nat \<Rightarrow> emcy \<Rightarrow> (int \<times> emcy) option" where
  "co_emcy_clear A now e =
     (if em_msgs e = [] then Some (0, e) else co_emcy_send A now 0 0 None (co_emcy_set_1003 (e\<lparr>em_msgs := []\<rparr>)))"

definition co_emcy_timer :: "nat \<Rightarrow> emcy \<Rightarrow> emcy option" where
  "co_emcy_timer now e = co_emcy_flush now (e\<lparr>em_timer := None\<rparr>)"

text \<open>Reception from node \<open>nid\<close>; \<open>None\<close> when more than the five bytes of the local array are copied.\<close>

definition co_emcy_node_recv :: "u8 \<Rightarrow> can_msg \<Rightarrow> emcy \<Rightarrow> (int \<times> emcy) option" where
  "co_emcy_node_recv nid msg e =
     (let len = cm_len msg;
          eec = (if len \<ge> 2 then ldle_u16 (cm_data msg) else 0);
          er = (if len \<ge> 3 then cm_data msg ! 2 else 0);
          k = max (unat (len - 3)) 5;
          msef = (if len \<ge> 4 then take k (drop 3 (cm_data msg)) else replicate 5 0)
      in if cm_flags msg AND CAN_FLAG_RTR \<noteq> 0 \<or> cm_flags msg AND CAN_FLAG_FDF \<noteq> 0 then Some (0, e)
         else if len \<ge> 4 \<and> k > 5 then None
         else Some (1, e\<lparr>em_out := em_out e @ (if em_ind e then [Emcy_ind nid eec er msef] else [])\<rparr>))"

definition co_emcy_set_1028 :: "u8 \<Rightarrow> u32 \<Rightarrow> emcy \<Rightarrow> emcy" where
  "co_emcy_set_1028 nid cobid e = e\<lparr>em_nodes := (em_nodes e)(nid := if cobid AND CO_EMCY_COBID_VALID = 0 then Some (emcy_key cobid) else None)\<rparr>"

definition emcy_maxid :: "co_dev \<Rightarrow> nat" where
  "emcy_maxid D = min (unat (co_dev_get_val_u8 D 0x1028 0)) 127"

definition co_emcy_start :: "nat \<Rightarrow> emcy \<Rightarrow> emcy" where
  "co_emcy_start now e =
     (if \<not> em_stopped e then e
      else (fold (\<lambda>i e. if co_dev_find_sub (dv_od (em_dev e)) 0x1028 (of_nat i) = None then e
                        else co_emcy_set_1028 (of_nat i) (co_dev_get_val_u32 (dv_od (em_dev e)) 0x1028 (of_nat i)) e)
              [1..<Suc (emcy_maxid (dv_od (em_dev e)))] (e\<lparr>em_inhibit := now\<rparr>))\<lparr>em_stopped := False\<rparr>)"

definition co_emcy_stop :: "emcy \<Rightarrow> emcy" where
  "co_emcy_stop e = (if em_stopped e then e else e\<lparr>em_timer := None,
     em_nodes := (\<lambda>nid. if co_dev_find_sub (dv_od (em_dev e)) 0x1028 nid \<noteq> None \<and> 1 \<le> nid \<and> nid \<le> 127 then None else em_nodes e nid), em_stopped := True\<rparr>)"

definition co_emcy_init :: "nat \<Rightarrow> co_device \<Rightarrow> emcy option" where
  "co_emcy_init now dev =
     (if co_dev_find_sub (dv_od dev) 0x1001 0 = None then None
      else Some (co_emcy_start now \<lparr>em_dev = dev, em_stopped = True, em_msgs = [], em_buf = can_buf_init [] 0, em_timer = None, em_inhibit = 0,
             em_nodes = (\<lambda>_. None), em_ind = False, em_out = []\<rparr>))"

text \<open>The indication functions of objects 1003, 1014 and 1028.\<close>

definition co_1003_dn_ind :: "u8 \<Rightarrow> u8 \<Rightarrow> emcy \<Rightarrow> u32 \<times> emcy" where
  "co_1003_dn_ind subidx v e =
     (if subidx \<noteq> 0 then (CO_SDO_AC_NO_WRITE, e)
      else if v \<noteq> 0 then (CO_SDO_AC_PARAM_VAL, e)
      else (0, co_emcy_set_1003 (e\<lparr>em_msgs := [], em_dev := od_write (em_dev e) 0x1003 0 [v]\<rparr>)))"

definition emcy_cobid_ok :: "u32 \<Rightarrow> u32 \<Rightarrow> bool" where
  "emcy_cobid_ok cobid old \<longleftrightarrow>
     \<not> (cobid AND CO_EMCY_COBID_VALID = 0 \<and> old AND CO_EMCY_COBID_VALID = 0 \<and> cobid AND CAN_MASK_EID \<noteq> old AND CAN_MASK_EID)
     \<and> \<not> (cobid AND CO_EMCY_COBID_FRAME = 0 \<and> cobid AND (CAN_MASK_EID XOR CAN_MASK_BID) \<noteq> 0)"

definition co_1014_dn_ind :: "u8 \<Rightarrow> u32 \<Rightarrow> emcy \<Rightarrow> u32 \<times> emcy" where
  "co_1014_dn_ind subidx v e =
     (let old = co_dev_get_val_u32 (dv_od (em_dev e)) 0x1014 subidx
      in if subidx \<noteq> 0 then (CO_SDO_AC_NO_SUB, e)
         else if v = old then (0, e)
         else if \<not> emcy_cobid_ok v old then (CO_SDO_AC_PARAM_VAL, e)
         else (0, e\<lparr>em_dev := od_write (em_dev e) 0x1014 subidx (stle_u32 v)\<rparr>))"

definition co_1028_dn_ind :: "u8 \<Rightarrow> u32 \<Rightarrow> emcy \<Rightarrow> u32 \<times> emcy" where
  "co_1028_dn_ind nid v e =
     (let old = co_dev_get_val_u32 (dv_od (em_dev e)) 0x1028 nid
      in if nid = 0 then (CO_SDO_AC_NO_WRITE, e)
         else if unat nid > emcy_maxid (dv_od (em_dev e)) then (CO_SDO_AC_NO_SUB, e)
         else if v = old then (0, e)
         else if \<not> emcy_cobid_ok v old then (CO_SDO_AC_PARAM_VAL, e)
         else (0, (co_emcy_set_1028 nid v e)\<lparr>em_dev := od_write (em_dev e) 0x1028 nid (stle_u32 v)\<rparr>))"


section \<open>Runs and the specification\<close>

datatype emcy_act =
    Ev_push nat u16 u8 "bytes option" | Ev_pop nat | Ev_remove nat nat | Ev_clear nat \<comment> \<open>calls, with their time\<close>
  | Ev_timer nat \<comment> \<open>the timer expires\<close>
  | Ev_1003 u8 | Ev_1014 u32 \<comment> \<open>writes to sub-object 0\<close>

fun emcy_exec :: "alloc \<Rightarrow> emcy_act \<Rightarrow> emcy \<Rightarrow> emcy option" where
  "emcy_exec A (Ev_push now eec er msef) e = map_option snd (co_emcy_push A now eec er msef e)"
| "emcy_exec A (Ev_pop now) e = map_option (snd \<circ> snd) (co_emcy_pop A now e)"
| "emcy_exec A (Ev_remove now n) e = map_option snd (co_emcy_remove A now n e)"
| "emcy_exec A (Ev_clear now) e = map_option snd (co_emcy_clear A now e)"
| "emcy_exec A (Ev_timer now) e = co_emcy_timer now e"
| "emcy_exec A (Ev_1003 v) e = Some (snd (co_1003_dn_ind 0 v e))"
| "emcy_exec A (Ev_1014 v) e = Some (snd (co_1014_dn_ind 0 v e))"

text \<open>
  What the service promises: a stack of errors, the register, the identifier and the frames it reports, without dictionary,
  buffer, inhibit time and timer.
\<close>

record emcy_spec =
  sp_stack :: "(u16 \<times> u8) list"
  sp_reg :: u8
  sp_cobid :: u32
  sp_frames :: "can_msg list"

definition registers :: "(u16 \<times> u8) list \<Rightarrow> u8" where
  "registers ms = foldr (\<lambda>m er. snd m OR er) ms 0"

definition spec_report :: "(u16 \<times> u8) list \<Rightarrow> u16 \<Rightarrow> bytes option \<Rightarrow> emcy_spec \<Rightarrow> emcy_spec" where
  "spec_report st eec msef s = s\<lparr>sp_stack := st, sp_reg := registers st,
     sp_frames := sp_frames s @ (if sp_cobid s AND CO_EMCY_COBID_VALID = 0 then [emcy_frame (sp_cobid s) eec (registers st) msef] else [])\<rparr>"

definition spec_remove :: "nat \<Rightarrow> emcy_spec \<Rightarrow> emcy_spec" where
  "spec_remove n s =
     (if n < length (sp_stack s)
      then let st = take n (sp_stack s) @ drop (Suc n) (sp_stack s)
           in spec_report st 0 (case st of [] \<Rightarrow> None | m # _ \<Rightarrow> Some (stle_u16 (fst m) @ [0, 0, 0])) s
      else s)"

fun spec_step :: "emcy_act \<Rightarrow> emcy_spec \<Rightarrow> emcy_spec" where
  "spec_step (Ev_push _ eec er msef) s = (if eec = 0 then s else spec_report ((eec, er OR 1) # sp_stack s) eec msef s)"
| "spec_step (Ev_pop _) s = spec_remove 0 s"
| "spec_step (Ev_remove _ n) s = spec_remove n s"
| "spec_step (Ev_clear _) s = (if sp_stack s = [] then s else spec_report [] 0 None s)"
| "spec_step (Ev_timer _) s = s"
| "spec_step (Ev_1003 v) s = (if v = 0 then s\<lparr>sp_stack := []\<rparr> else s)"
| "spec_step (Ev_1014 v) s = (if emcy_cobid_ok v (sp_cobid s) then s\<lparr>sp_cobid := v\<rparr> else s)"

text \<open>The pre-defined error field as the dictionary has it, and the shape of a dictionary the service can work with.\<close>

definition field_vals :: "co_dev \<Rightarrow> bytes option list" where
  "field_vals D = (case D 0x1003 of None \<Rightarrow> [] | Some ob \<Rightarrow> map (\<lambda>k. Option.bind (obj_subs ob k) sub_val) (obj_subidx ob))"

definition field_size :: "co_dev \<Rightarrow> u8" where
  "field_size D = (case D 0x1003 of None \<Rightarrow> 0 | Some ob \<Rightarrow> co_obj_get_subidx ob)"

definition field_is :: "(u16 \<times> u8) list \<Rightarrow> co_dev \<Rightarrow> bool" where
  "field_is ms D \<longleftrightarrow> field_vals D = map Some (if field_size D = 0 then [] else history ms (field_size D))"

definition emcy_shape :: "co_dev \<Rightarrow> bool" where
  "emcy_shape D \<longleftrightarrow> (\<exists>sb. co_dev_find_sub D 0x1001 0 = Some sb \<and> sub_type sb = CO_DEFTYPE_UNSIGNED8)
     \<and> co_dev_find_sub D 0x1014 0 \<noteq> None \<and> typed D 0x1014 0 CO_DEFTYPE_UNSIGNED32
     \<and> (case D 0x1003 of None \<Rightarrow> True | Some ob \<Rightarrow> length (obj_subidx ob) < 256)"

definition spec_of_dev :: "co_dev \<Rightarrow> emcy_spec" where
  "spec_of_dev D = \<lparr>sp_stack = [], sp_reg = co_dev_get_val_u8 D 0x1001 0, sp_cobid = co_dev_get_val_u32 D 0x1014 0, sp_frames = []\<rparr>"

definition sent :: "emcy_out list \<Rightarrow> (nat \<times> can_msg) list" where
  "sent os = List.map_filter (\<lambda>x. case x of Emcy_sent t m \<Rightarrow> Some (t, m) | _ \<Rightarrow> None) os"

text \<open>Before each event fewer than fifteen frames wait for the inhibit time.\<close>

fun calm :: "alloc \<Rightarrow> emcy_act list \<Rightarrow> emcy \<Rightarrow> bool" where
  "calm A [] e \<longleftrightarrow> True"
| "calm A (ev # es) e \<longleftrightarrow> can_buf_size (em_buf e) < 15 \<and> (case emcy_exec A ev e of None \<Rightarrow> True | Some e' \<Rightarrow> calm A es e')"

section \<open>Buffer and inhibit time\<close>

definition emcy_buf_ok :: "can_msg can_buf \<Rightarrow> bool" where
  "emcy_buf_ok buf \<longleftrightarrow> can_buf_invar buf \<and> (cb_size buf = 15 \<or> cb_size buf = 0 \<and> cb_ptr buf = [] \<and> cb_begin buf = 0 \<and> cb_end buf = 0)"

definition paced :: "nat \<Rightarrow> emcy \<Rightarrow> bool" where
  "paced gap e \<longleftrightarrow> sorted_wrt (\<lambda>a b. a + gap \<le> b) (map fst (sent (em_out e))) \<and> list_all (\<lambda>t. t + gap \<le> em_inhibit e) (map fst (sent (em_out e)))"

lemma sent_simps [simp]:
  "sent [] = []" "sent (xs @ ys) = sent xs @ sent ys" "sent (map (Emcy_sent now) ms) = map (Pair now) ms"
  "sent [Emcy_ind a b c d] = []"
proof -
  show "sent (map (Emcy_sent now) ms) = map (Pair now) ms" by (induction ms) (simp_all add: sent_def map_filter_simps)
qed (simp_all add: sent_def map_filter_def)

lemma length_can_buf_list: "length (can_buf_list buf) = unat (can_buf_size buf)"
  by (simp add: can_buf_list_def)

lemma mask_4: "(15 :: size_t) = mask 4"
  by (simp add: mask_eq_exp_minus_1)

lemma emcy_buf_init: "emcy_buf_ok (can_buf_init [] 0)" "can_buf_list (can_buf_init [] 0) = []"
  by (auto simp: emcy_buf_ok_def can_buf_invar_def can_buf_init_def can_buf_list_def can_buf_size_def intro!: exI [of _ 0])

lemma buf_capacity_15:
  assumes "can_buf_invar buf" "cb_size buf = 15"
  shows "unat (can_buf_capacity buf) = 15 - unat (can_buf_size buf)"
proof -
  have "unat (can_buf_capacity buf) = 2 ^ 4 - 1 - unat (can_buf_size buf)"
    unfolding can_buf_capacity_def can_buf_size_def assms(2) mask_4 by (rule free_plus_used) simp
  then show ?thesis by simp
qed

lemma first_reserve:
  assumes "cb_size buf = 0" "cb_ptr buf = []" "cb_begin buf = 0" "cb_end buf = 0"
  obtains buf' where "can_buf_reserve True fresh buf 1 = Some (15, buf')" "can_buf_invar buf'" "cb_size buf' = 15" "can_buf_list buf' = []"
proof
  let ?q = "\<lparr>cb_ptr = map fresh [0..<16], cb_size = 15, cb_begin = 0, cb_end = 0\<rparr>"
  show "can_buf_reserve True fresh buf 1 = Some (15, ?q)"
    using assms by (cases buf) (simp add: can_buf_reserve_def can_buf_capacity_def can_buf_size_def can_buf_grow_numeral)
  show "can_buf_invar ?q" unfolding can_buf_invar_def using mask_4 by (intro conjI exI [of _ 4]) simp_all
qed (simp_all add: can_buf_list_def can_buf_size_def)

lemma write_one:
  assumes "can_buf_invar buf" "cb_size buf = 15" "can_buf_size buf < 15"
  obtains buf' where "can_buf_write buf [msg] = Some (1, buf')" "emcy_buf_ok buf'" "can_buf_list buf' = can_buf_list buf @ [msg]"
proof -
  have "length [msg] \<le> unat (can_buf_capacity buf)"
    using buf_capacity_15 [OF assms(1,2)] assms(3) by (simp add: word_less_nat_alt)
  from can_buf_write_all [OF assms(1) this] obtain buf' where "can_buf_write buf [msg] = Some (length [msg], buf')" "can_buf_invar buf'"
    "can_buf_list buf' = can_buf_list buf @ [msg]" "cb_size buf' = cb_size buf" by blast
  then show thesis using assms(2) that by (simp add: emcy_buf_ok_def)
qed

lemma queue_ok:
  assumes ok: "emcy_buf_ok buf" and room: "can_buf_size buf < 15" and A: "al_buf A"
  shows "\<exists>buf'. emcy_queue A msg buf = Some (True, buf') \<and> emcy_buf_ok buf' \<and> can_buf_list buf' = can_buf_list buf @ [msg]"
proof (cases "cb_size buf = 15")
  case True
  then have inv: "can_buf_invar buf" using ok by (simp add: emcy_buf_ok_def)
  from write_one [OF inv True room, of msg] obtain buf' where
    "can_buf_write buf [msg] = Some (1, buf')" "emcy_buf_ok buf'" "can_buf_list buf' = can_buf_list buf @ [msg]" by blast
  then show ?thesis by (simp add: emcy_queue_def del: can_buf_write.simps)
next
  case False
  then have z: "cb_size buf = 0" "cb_ptr buf = []" "cb_begin buf = 0" "cb_end buf = 0" using ok by (auto simp: emcy_buf_ok_def)
  obtain q where q: "can_buf_reserve True (al_fresh A) buf 1 = Some (15, q)" "can_buf_invar q" "cb_size q = 15" "can_buf_list q = []"
    using first_reserve [OF z] by blast
  then have "can_buf_size q < 15" using can_buf_empty_iff [of q] by simp
  from write_one [OF q(2,3) this, of msg] obtain q' where
    q': "can_buf_write q [msg] = Some (1, q')" "emcy_buf_ok q'" "can_buf_list q' = can_buf_list q @ [msg]" by blast
  have "can_buf_list buf = []" using z by (simp add: can_buf_list_def can_buf_size_def)
  moreover have "can_buf_write buf [msg] = Some (0, buf)" using z by simp
  ultimately show ?thesis using q q' A by (simp add: emcy_queue_def del: can_buf_write.simps)
qed

lemma flush_loop_ok:
  assumes "emcy_buf_ok (em_buf e)" "unat (can_buf_size (em_buf e)) < k" "paced gap e"
  shows "\<exists>ms buf t inh. flush_loop k now gap e = Some (e\<lparr>em_buf := buf, em_timer := t, em_inhibit := inh, em_out := em_out e @ map (Emcy_sent now) ms\<rparr>)
     \<and> emcy_buf_ok buf \<and> can_buf_list (em_buf e) = ms @ can_buf_list buf
     \<and> paced gap (e\<lparr>em_buf := buf, em_timer := t, em_inhibit := inh, em_out := em_out e @ map (Emcy_sent now) ms\<rparr>)
     \<and> (can_buf_list buf \<noteq> [] \<longrightarrow> t = Some inh)"
  using assms
proof (induction k arbitrary: e)
  case (Suc k)
  consider (empty) "can_buf_size (em_buf e) = 0" | (wait) "can_buf_size (em_buf e) \<noteq> 0" "now < em_inhibit e"
    | (go) "can_buf_size (em_buf e) \<noteq> 0" "em_inhibit e \<le> now" by fastforce
  then show ?case
  proof cases
    case empty
    then show ?thesis using Suc.prems can_buf_empty_iff [of "em_buf e"]
      by (intro exI [of _ "[]"] exI [of _ "em_buf e"] exI [of _ "em_timer e"] exI [of _ "em_inhibit e"]) simp
  next
    case wait
    then show ?thesis using Suc.prems
      by (intro exI [of _ "[]"] exI [of _ "em_buf e"] exI [of _ "Some (em_inhibit e)"] exI [of _ "em_inhibit e"]) (simp add: paced_def)
  next
    case go
    have inv: "can_buf_invar (em_buf e)" using Suc.prems(1) by (simp add: emcy_buf_ok_def)
    obtain m rest where ms: "can_buf_list (em_buf e) = m # rest" using go can_buf_empty_iff [of "em_buf e"] by (cases "can_buf_list (em_buf e)") auto
    obtain buf where buf: "can_buf_read (em_buf e) 1 = Some ([m], buf)" "can_buf_invar buf" "can_buf_list buf = rest"
      using can_buf_read_law [OF inv, of 1] ms by auto
    let ?e = "e\<lparr>em_inhibit := now + gap, em_buf := buf, em_out := em_out e @ [Emcy_sent now m]\<rparr>"
    have sz: "cb_size buf = cb_size (em_buf e)" using can_buf_read_frame [OF buf(1)] by simp
    have "cb_size (em_buf e) \<noteq> 0" using go(1) by (auto simp: can_buf_size_def)
    then have ok: "emcy_buf_ok (em_buf ?e)" using Suc.prems(1) buf sz by (simp add: emcy_buf_ok_def)
    have less: "unat (can_buf_size (em_buf ?e)) < k"
      using Suc.prems(2) buf(3) ms length_can_buf_list [of buf] length_can_buf_list [of "em_buf e"] by simp
    have one: "sent [Emcy_sent now m] = [(now, m)]" using sent_simps(3) [of now "[m]"] by simp
    have pace: "paced gap ?e" using Suc.prems(3) go(2) one
      by (auto simp: paced_def sorted_wrt_append list_all_iff)
    from Suc.IH [OF ok less pace] obtain ms' buf' t inh where
      IH: "flush_loop k now gap ?e = Some (?e\<lparr>em_buf := buf', em_timer := t, em_inhibit := inh, em_out := em_out ?e @ map (Emcy_sent now) ms'\<rparr>)"
      "emcy_buf_ok buf'" "can_buf_list (em_buf ?e) = ms' @ can_buf_list buf'"
      "paced gap (?e\<lparr>em_buf := buf', em_timer := t, em_inhibit := inh, em_out := em_out ?e @ map (Emcy_sent now) ms'\<rparr>)"
      "can_buf_list buf' \<noteq> [] \<longrightarrow> t = Some inh" by blast
    have "flush_loop (Suc k) now gap e = flush_loop k now gap ?e" using go buf by simp
    then show ?thesis using IH buf(3) ms
      by (intro exI [of _ "m # ms'"] exI [of _ buf'] exI [of _ t] exI [of _ inh]) simp
  qed
qed simp


section \<open>The dictionary\<close>

lemma od_writes_simps [simp]:
  "od_writes idx [] dev = dev" "od_writes idx ((k, v) # kvs) dev = od_writes idx kvs (od_put dev idx k v)"
  by (simp_all add: od_writes_def)

lemma od_writes_other: "i \<noteq> idx \<Longrightarrow> dv_od (od_writes idx kvs dev) i = dv_od dev i"
  by (induction kvs arbitrary: dev) auto

lemma od_writes_obj:
  "dv_od dev idx = Some ob \<Longrightarrow> distinct (map fst kvs) \<Longrightarrow> \<exists>ob'. dv_od (od_writes idx kvs dev) idx = Some ob'
     \<and> (\<forall>k. obj_subs ob' k = (case map_of kvs k of None \<Rightarrow> obj_subs ob k | Some v \<Rightarrow> map_option (\<lambda>sb. sb\<lparr>sub_val := Some v\<rparr>) (obj_subs ob k)))"
proof (induction kvs arbitrary: dev ob)
  case (Cons kv kvs)
  obtain k v where kv: "kv = (k, v)" by fastforce
  define ob1 where "ob1 = ob\<lparr>obj_subs := (obj_subs ob)(k := map_option (\<lambda>sb. sb\<lparr>sub_val := Some v\<rparr>) (obj_subs ob k))\<rparr>"
  have "dv_od (od_put dev idx k v) idx = Some ob1"
    using Cons.prems(1) by (cases ob) (auto simp: put_val_def upd_sub_def ob1_def split: option.splits)
  from Cons.IH [OF this] Cons.prems(2) obtain ob' where ob': "dv_od (od_writes idx kvs (od_put dev idx k v)) idx = Some ob'"
    "\<forall>j. obj_subs ob' j = (case map_of kvs j of None \<Rightarrow> obj_subs ob1 j | Some v \<Rightarrow> map_option (\<lambda>sb. sb\<lparr>sub_val := Some v\<rparr>) (obj_subs ob1 j))" by auto
  have "map_of kvs k = None" using Cons.prems(2) kv by (simp add: map_of_eq_None_iff)
  then show ?case using ob' kv by (intro exI [of _ ob']) (simp add: ob1_def split: option.split)
qed (auto split: option.splits)

lemma distinct_obj_subidx: "distinct (obj_subidx ob)"
proof -
  have "inj_on (of_nat :: nat \<Rightarrow> u8) {0..<256}" by (rule inj_onI) (drule arg_cong [of _ _ unat], simp add: unat_of_nat)
  then show ?thesis by (simp add: obj_subidx_def distinct_map)
qed


lemma length_history: "n \<noteq> 0 \<Longrightarrow> length (history ms n) = unat n"
  by (simp add: history_def Let_def unat_gt_0 Suc_le_eq)

lemma set_1003_frame:
  "co_emcy_set_1003 e = e\<lparr>em_dev := em_dev (co_emcy_set_1003 e)\<rparr>"
  "i \<noteq> 0x1003 \<Longrightarrow> dv_od (em_dev (co_emcy_set_1003 e)) i = dv_od (em_dev e) i"
  by (auto simp: co_emcy_set_1003_def od_writes_other split: option.splits)

lemma set_1003_ok:
  assumes "emcy_shape (dv_od (em_dev e))"
  shows "emcy_shape (dv_od (em_dev (co_emcy_set_1003 e)))" "field_is (em_msgs e) (dv_od (em_dev (co_emcy_set_1003 e)))"
proof -
  let ?D = "dv_od (em_dev e)" and ?D' = "dv_od (em_dev (co_emcy_set_1003 e))"
  have other: "?D' 0x1001 = ?D 0x1001" "?D' 0x1014 = ?D 0x1014" by (simp_all add: set_1003_frame(2))
  have "emcy_shape ?D' \<and> field_is (em_msgs e) ?D'"
  proof (cases "?D 0x1003")
    case None
    then show ?thesis using assms by (simp add: co_emcy_set_1003_def field_is_def field_vals_def field_size_def)
  next
    case (Some ob)
    then have len: "length (obj_subidx ob) = unat (co_obj_get_subidx ob)" using assms
      by (simp add: emcy_shape_def co_obj_get_subidx_def unat_of_nat)
    show ?thesis
    proof (cases "co_obj_get_subidx ob = 0")
      case True
      then show ?thesis using Some len assms
        by (simp add: co_emcy_set_1003_def field_is_def field_vals_def field_size_def)
    next
      case False
      let ?h = "history (em_msgs e) (co_obj_get_subidx ob)"
      let ?kvs = "zip (obj_subidx ob) ?h"
      have lens: "length ?h = length (obj_subidx ob)" using len length_history [OF False] by simp
      then have keys: "map fst ?kvs = obj_subidx ob" by simp
      have D': "?D' = dv_od (od_writes 0x1003 ?kvs (em_dev e))" using Some False by (simp add: co_emcy_set_1003_def)
      obtain ob' where ob': "?D' 0x1003 = Some ob'" "\<And>k. obj_subs ob' k = (case map_of ?kvs k of None \<Rightarrow> obj_subs ob k
          | Some v \<Rightarrow> map_option (\<lambda>sb. sb\<lparr>sub_val := Some v\<rparr>) (obj_subs ob k))"
        using od_writes_obj [OF Some, of ?kvs] distinct_obj_subidx [of ob] unfolding keys D' by blast
      have "obj_subs ob' k = None \<longleftrightarrow> obj_subs ob k = None" for k unfolding ob'(2) by (cases "map_of ?kvs k") auto
      then have sub: "obj_subidx ob' = obj_subidx ob" by (simp add: obj_subidx_def)
      have val: "Option.bind (obj_subs ob' (obj_subidx ob ! i)) sub_val = Some (?h ! i)" if i: "i < length (obj_subidx ob)" for i
      proof -
        have "map_of ?kvs (obj_subidx ob ! i) = Some (?h ! i)"
          using i lens distinct_obj_subidx [of ob] by (simp add: map_of_zip_nth)
        moreover have "obj_subs ob (obj_subidx ob ! i) \<noteq> None"
          using nth_mem [OF i] by (auto simp: obj_subidx_def)
        ultimately show ?thesis unfolding ob'(2) by auto
      qed
      have "field_vals ?D' = map Some ?h"
        by (rule nth_equalityI) (use ob'(1) sub val lens in \<open>simp_all add: field_vals_def\<close>)
      then have "field_is (em_msgs e) ?D'" using ob'(1) sub False by (simp add: field_is_def field_size_def co_obj_get_subidx_def)
      then show ?thesis using assms ob'(1) sub Some other by (simp add: emcy_shape_def co_dev_find_sub_def typed_def)
    qed
  qed
  then show "emcy_shape ?D'" "field_is (em_msgs e) ?D'" by auto
qed

lemma field_other: "D' 0x1003 = D 0x1003 \<Longrightarrow> field_is ms D' = field_is ms D"
  by (simp add: field_is_def field_vals_def field_size_def)

lemma set_register_ok:
  assumes "emcy_shape (dv_od dev)"
  shows "emcy_shape (dv_od (set_register er dev))" "field_is ms (dv_od (set_register er dev)) = field_is ms (dv_od dev)"
    "co_dev_get_val_u8 (dv_od (set_register er dev)) 0x1001 0 = er"
    "co_dev_get_val_u32 (dv_od (set_register er dev)) 0x1014 0 = co_dev_get_val_u32 (dv_od dev) 0x1014 0"
    "dv_od (set_register er dev) 0x1014 \<noteq> None"
    "co_dev_get_val_u16 (dv_od (set_register er dev)) 0x1015 0 = co_dev_get_val_u16 (dv_od dev) 0x1015 0"
proof -
  have d: "set_register er dev = od_put dev 0x1001 0 [er]"
    using assms by (auto simp: set_register_def emcy_shape_def typed_def split: option.splits)
  have o: "dv_od (set_register er dev) i = dv_od dev i" if "i \<noteq> 0x1001" for i
    using that by (simp add: d)
  show "emcy_shape (dv_od (set_register er dev))" using assms o [of "0x1003"] by (auto simp: d emcy_shape_def find_sub_put_val)
  show "field_is ms (dv_od (set_register er dev)) = field_is ms (dv_od dev)" by (rule field_other) (simp add: o)
  show "co_dev_get_val_u8 (dv_od (set_register er dev)) 0x1001 0 = er" using assms by (auto simp: d get_put_val emcy_shape_def)
  show "co_dev_get_val_u32 (dv_od (set_register er dev)) 0x1014 0 = co_dev_get_val_u32 (dv_od dev) 0x1014 0" by (simp add: d get_put_val)
  show "dv_od (set_register er dev) 0x1014 \<noteq> None" using assms by (auto simp: o emcy_shape_def co_dev_find_sub_def split: option.splits)
  show "co_dev_get_val_u16 (dv_od (set_register er dev)) 0x1015 0 = co_dev_get_val_u16 (dv_od dev) 0x1015 0" by (simp add: d get_put_val)
qed

section \<open>Refinement\<close>

definition emcy_rel :: "nat \<Rightarrow> emcy \<Rightarrow> emcy_spec \<Rightarrow> bool" where
  "emcy_rel gap e s \<longleftrightarrow> em_msgs e = sp_stack s \<and> emcy_shape (dv_od (em_dev e)) \<and> field_is (sp_stack s) (dv_od (em_dev e))
     \<and> co_dev_get_val_u8 (dv_od (em_dev e)) 0x1001 0 = sp_reg s \<and> co_dev_get_val_u32 (dv_od (em_dev e)) 0x1014 0 = sp_cobid s
     \<and> map snd (sent (em_out e)) @ can_buf_list (em_buf e) = sp_frames s
     \<and> emcy_gap e = gap \<and> paced gap e \<and> emcy_buf_ok (em_buf e) \<and> (can_buf_list (em_buf e) \<noteq> [] \<longrightarrow> em_timer e = Some (em_inhibit e))"

text \<open>\<open>co_emcy_peek\<close> computes the register of the specification.\<close>

lemma fold_registers: "fold (\<lambda>m er. er OR snd m) ms r = r OR registers ms"
  by (induction ms arbitrary: r) (simp_all add: registers_def or.assoc)

lemma peek_registers: "snd (co_emcy_peek e) = registers (em_msgs e)"
  by (simp add: co_emcy_peek_def fold_registers)


lemma set_1003_rel:
  assumes "emcy_rel gap e s" and dev: "emcy_shape (dv_od dev)" "\<And>i. i \<noteq> 0x1003 \<Longrightarrow> dv_od dev i = dv_od (em_dev e) i"
  shows "emcy_rel gap (co_emcy_set_1003 (e\<lparr>em_msgs := st, em_dev := dev\<rparr>)) (s\<lparr>sp_stack := st\<rparr>)"
    "em_msgs (co_emcy_set_1003 (e\<lparr>em_msgs := st, em_dev := dev\<rparr>)) = st" "em_buf (co_emcy_set_1003 (e\<lparr>em_msgs := st, em_dev := dev\<rparr>)) = em_buf e"
proof -
  let ?e = "e\<lparr>em_msgs := st, em_dev := dev\<rparr>"
  define dev' where "dev' = em_dev (co_emcy_set_1003 ?e)"
  have D: "emcy_shape (dv_od (em_dev ?e))" using dev by simp
  have "co_emcy_set_1003 ?e = ?e\<lparr>em_dev := dev'\<rparr>" unfolding dev'_def by (rule set_1003_frame(1))
  moreover have "\<And>i. i \<noteq> 0x1003 \<Longrightarrow> dv_od dev' i = dv_od (em_dev e) i"
    using set_1003_frame(2) [where e = ?e] dev(2) unfolding dev'_def by simp
  moreover have "emcy_shape (dv_od dev')" "field_is st (dv_od dev')" using set_1003_ok [OF D] unfolding dev'_def by simp_all
  ultimately show "emcy_rel gap (co_emcy_set_1003 ?e) (s\<lparr>sp_stack := st\<rparr>)" "em_msgs (co_emcy_set_1003 ?e) = st" "em_buf (co_emcy_set_1003 ?e) = em_buf e"
    using assms(1) by (simp_all add: emcy_rel_def emcy_gap_def paced_def co_dev_get_val_u8_def co_dev_get_val_u16_def co_dev_get_val_u32_def
        co_dev_find_sub_def)
qed

lemma set_msgs_rel:
  assumes "emcy_rel gap e s"
  shows "emcy_rel gap (co_emcy_set_1003 (e\<lparr>em_msgs := st\<rparr>)) (s\<lparr>sp_stack := st\<rparr>)" "em_msgs (co_emcy_set_1003 (e\<lparr>em_msgs := st\<rparr>)) = st"
    "em_buf (co_emcy_set_1003 (e\<lparr>em_msgs := st\<rparr>)) = em_buf e"
proof -
  have "emcy_shape (dv_od (em_dev e))" using assms by (simp add: emcy_rel_def)
  from set_1003_rel [OF assms this, of st] show "emcy_rel gap (co_emcy_set_1003 (e\<lparr>em_msgs := st\<rparr>)) (s\<lparr>sp_stack := st\<rparr>)"
    "em_msgs (co_emcy_set_1003 (e\<lparr>em_msgs := st\<rparr>)) = st" "em_buf (co_emcy_set_1003 (e\<lparr>em_msgs := st\<rparr>)) = em_buf e" by simp_all
qed

lemma flush_rel:
  assumes "emcy_rel gap (e\<lparr>em_timer := Some (em_inhibit e)\<rparr>) s"
  shows "\<exists>e'. co_emcy_flush now e = Some e' \<and> emcy_rel gap e' s"
proof -
  have pre: "emcy_buf_ok (em_buf e)" "unat (can_buf_size (em_buf e)) < Suc (unat (can_buf_size (em_buf e)))" "paced (emcy_gap e) e" "emcy_gap e = gap"
    using assms by (simp_all add: emcy_rel_def paced_def emcy_gap_def)
  from flush_loop_ok [OF pre(1-3), of now] obtain ms buf t inh where
    "co_emcy_flush now e = Some (e\<lparr>em_buf := buf, em_timer := t, em_inhibit := inh, em_out := em_out e @ map (Emcy_sent now) ms\<rparr>)"
    "emcy_buf_ok buf" "can_buf_list (em_buf e) = ms @ can_buf_list buf"
    "paced gap (e\<lparr>em_buf := buf, em_timer := t, em_inhibit := inh, em_out := em_out e @ map (Emcy_sent now) ms\<rparr>)"
    "can_buf_list buf \<noteq> [] \<longrightarrow> t = Some inh" unfolding co_emcy_flush_def pre(4) by blast
  then show ?thesis using assms by (simp add: emcy_rel_def emcy_gap_def o_def)
qed

lemma send_rel:
  assumes rel: "emcy_rel gap e (s\<lparr>sp_stack := st\<rparr>)" and room: "can_buf_size (em_buf e) < 15" and A: "al_buf A"
  shows "\<exists>e'. co_emcy_send A now eec (registers st) msef e = Some (0, e') \<and> emcy_rel gap e' (spec_report st eec msef s)"
proof -
  have D: "emcy_shape (dv_od (em_dev e))" using rel by (simp add: emcy_rel_def)
  note reg = set_register_ok [OF D, where er = "registers st"]
  let ?e = "e\<lparr>em_dev := set_register (registers st) (em_dev e)\<rparr>"
  have rel1: "emcy_rel gap ?e (s\<lparr>sp_stack := st, sp_reg := registers st\<rparr>)"
    using rel reg by (simp add: emcy_rel_def emcy_gap_def paced_def)
  have cobid: "co_dev_get_val_u32 (dv_od (em_dev ?e)) 0x1014 0 = sp_cobid s" using rel reg(4) by (simp add: emcy_rel_def)
  show ?thesis
  proof (cases "sp_cobid s AND CO_EMCY_COBID_VALID = 0")
    case False
    then show ?thesis using rel1 cobid reg(5) by (simp add: co_emcy_send_def spec_report_def Let_def)
  next
    case True
    let ?m = "emcy_frame (sp_cobid s) eec (registers st) msef"
    from queue_ok [OF _ room A, of ?m] rel obtain buf where buf: "emcy_queue A ?m (em_buf e) = Some (True, buf)" "emcy_buf_ok buf"
      "can_buf_list buf = can_buf_list (em_buf e) @ [?m]" by (auto simp: emcy_rel_def)
    have "emcy_rel gap (?e\<lparr>em_buf := buf, em_timer := Some (em_inhibit (?e\<lparr>em_buf := buf\<rparr>))\<rparr>) (spec_report st eec msef s)"
      using rel1 buf True by (simp add: emcy_rel_def emcy_gap_def paced_def spec_report_def)
    from flush_rel [OF this, of now] True buf cobid reg(5) show ?thesis by (auto simp: co_emcy_send_def Let_def)
  qed
qed


lemma change_rel:
  assumes rel: "emcy_rel gap e s" and room: "can_buf_size (em_buf e) < 15" and A: "al_buf A"
  shows "\<exists>e'. co_emcy_send A now eec (registers st) msef (co_emcy_set_1003 (e\<lparr>em_msgs := st\<rparr>)) = Some (0, e')
     \<and> emcy_rel gap e' (spec_report st eec msef s)"
  using send_rel [OF set_msgs_rel(1) [OF rel]] room A set_msgs_rel(3) [OF rel] by simp

lemma remove_rel:
  assumes rel: "emcy_rel gap e s" and room: "can_buf_size (em_buf e) < 15" and A: "al_buf A"
  shows "\<exists>e'. co_emcy_remove A now n e = Some (0, e') \<and> emcy_rel gap e' (spec_remove n s)"
proof (cases "n < length (em_msgs e)")
  case False
  then show ?thesis using rel by (simp add: co_emcy_remove_def spec_remove_def emcy_rel_def)
next
  case True
  let ?st = "take n (em_msgs e) @ drop (Suc n) (em_msgs e)"
  let ?msef = "case ?st of [] \<Rightarrow> None | m # _ \<Rightarrow> Some (stle_u16 (fst m) @ [0, 0, 0])"
  let ?e = "co_emcy_set_1003 (e\<lparr>em_msgs := ?st\<rparr>)"
  have msgs: "em_msgs ?e = ?st" by (rule set_msgs_rel(2) [OF rel])
  have stack: "em_msgs e = sp_stack s" using rel by (simp add: emcy_rel_def)
  have "co_emcy_remove A now n e = co_emcy_send A now 0 (registers ?st) ?msef ?e"
  proof (cases ?st)
    case Nil
    then show ?thesis using True msgs unfolding co_emcy_remove_def Nil by (simp add: Let_def registers_def)
  next
    case (Cons m ms)
    have "snd (co_emcy_peek ?e) = registers ?st" "fst (co_emcy_peek ?e) = fst m"
      using msgs Cons peek_registers [of ?e] by (simp_all add: co_emcy_peek_def)
    then show ?thesis using True msgs Cons unfolding co_emcy_remove_def Let_def by simp
  qed
  moreover have "spec_remove n s = spec_report ?st 0 ?msef s" using True stack by (simp add: spec_remove_def Let_def)
  ultimately show ?thesis using change_rel [OF assms] by simp
qed

lemma timer_rel: "emcy_rel gap e s \<Longrightarrow> \<exists>e'. co_emcy_timer now e = Some e' \<and> emcy_rel gap e' s"
  unfolding co_emcy_timer_def by (rule flush_rel) (auto simp: emcy_rel_def emcy_gap_def paced_def)

lemma shape_write_1003: "emcy_shape D \<Longrightarrow> emcy_shape (set_val D 0x1003 k v)"
proof -
  assume D: "emcy_shape D"
  have "length (obj_subidx ob) < 256" if ob: "set_val D 0x1003 k v 0x1003 = Some ob" for ob
  proof -
    obtain ob0 where ob0: "D 0x1003 = Some ob0" using ob by (cases "D 0x1003") (auto simp: set_val_def upd_sub_def)
    then have "obj_subs ob j \<noteq> None \<longleftrightarrow> obj_subs ob0 j \<noteq> None" for j
      using ob by (auto simp: set_val_def upd_sub_def split: option.splits if_splits)
    then have "obj_subidx ob = obj_subidx ob0" by (simp add: obj_subidx_def)
    then show ?thesis using D ob0 by (simp add: emcy_shape_def)
  qed
  then show ?thesis using D by (auto simp: emcy_shape_def find_sub_set_val split: option.split)
qed

lemma write_1003_rel:
  assumes "emcy_rel gap e s"
  shows "emcy_rel gap (snd (co_1003_dn_ind 0 v e)) (if v = 0 then s\<lparr>sp_stack := []\<rparr> else s)"
proof (cases "v = 0")
  case True
  let ?dev = "od_write (em_dev e) 0x1003 0 [v]"
  have shape: "emcy_shape (dv_od ?dev)" using assms by (simp add: emcy_rel_def shape_write_1003)
  have "dv_od ?dev i = dv_od (em_dev e) i" if "i \<noteq> 0x1003" for i using that by simp
  from set_1003_rel(1) [OF assms shape this, of "[]"] show ?thesis using True by (simp add: co_1003_dn_ind_def)
next
  case False
  then show ?thesis using assms by (simp add: co_1003_dn_ind_def)
qed

lemma write_1014_rel:
  assumes "emcy_rel gap e s"
  shows "emcy_rel gap (snd (co_1014_dn_ind 0 v e)) (if emcy_cobid_ok v (sp_cobid s) then s\<lparr>sp_cobid := v\<rparr> else s)"
proof -
  let ?D = "dv_od (em_dev e)" and ?dev = "od_write (em_dev e) 0x1014 0 (stle_u32 v)"
  have old: "co_dev_get_val_u32 ?D 0x1014 0 = sp_cobid s" and shape: "emcy_shape ?D" using assms by (simp_all add: emcy_rel_def)
  consider (same) "v = sp_cobid s" | (bad) "v \<noteq> sp_cobid s" "\<not> emcy_cobid_ok v (sp_cobid s)" | (good) "v \<noteq> sp_cobid s" "emcy_cobid_ok v (sp_cobid s)" by blast
  then show ?thesis
  proof cases
    case good
    have o: "dv_od ?dev i = ?D i" if "i \<noteq> 0x1014" for i using that by simp
    have "emcy_shape (dv_od ?dev)" using shape o [of "0x1003"] by (auto simp: emcy_shape_def find_sub_set_val)
    moreover have "field_is ms (dv_od ?dev) = field_is ms ?D" for ms by (rule field_other) (rule o, simp)
    moreover have "co_dev_get_val_u32 (dv_od ?dev) 0x1014 0 = v" using shape by (simp add: get_set_val emcy_shape_def)
    moreover have "co_dev_get_val_u8 (dv_od ?dev) 0x1001 0 = co_dev_get_val_u8 ?D 0x1001 0"
      "co_dev_get_val_u16 (dv_od ?dev) 0x1015 0 = co_dev_get_val_u16 ?D 0x1015 0" by (simp_all add: get_set_val)
    moreover have "co_1014_dn_ind 0 v e = (0, e\<lparr>em_dev := ?dev\<rparr>)" using good old by (simp add: co_1014_dn_ind_def Let_def)
    ultimately show ?thesis using assms good by (simp add: emcy_rel_def emcy_gap_def paced_def)
  qed (use assms old in \<open>auto simp: co_1014_dn_ind_def Let_def\<close>)
qed


lemma exec_rel:
  assumes rel: "emcy_rel gap e s" and room: "can_buf_size (em_buf e) < 15" and A: "al_stack A" "al_buf A"
  shows "\<exists>e'. emcy_exec A ev e = Some e' \<and> emcy_rel gap e' (spec_step ev s)"
proof -
  have stack: "em_msgs e = sp_stack s" using rel by (simp add: emcy_rel_def)
  note change = change_rel [OF rel room A(2)]
  show ?thesis
  proof (cases ev)
    case (Ev_push now eec er msef)
    let ?st = "(eec, er OR 1) # em_msgs e"
    have "snd (co_emcy_peek (co_emcy_set_1003 (e\<lparr>em_msgs := ?st\<rparr>))) = registers ?st"
      using peek_registers set_msgs_rel(2) [OF rel] by simp
    then show ?thesis using Ev_push rel stack A(1) change [of now eec ?st msef] by (cases "eec = 0") (auto simp: co_emcy_push_def Let_def)
  next
    case (Ev_clear now)
    then show ?thesis using rel stack change [of now 0 "[]" None] by (cases "em_msgs e = []") (auto simp: co_emcy_clear_def registers_def)
  next
    case (Ev_pop now)
    then show ?thesis using remove_rel [OF rel room A(2), of now 0] by (auto simp: co_emcy_pop_def)
  next
    case (Ev_remove now n)
    then show ?thesis using remove_rel [OF rel room A(2), of now n] by auto
  qed (use timer_rel [OF rel] write_1003_rel [OF rel] write_1014_rel [OF rel] in auto)
qed

lemma emcy_run_rel:
  assumes "emcy_rel gap e s" "al_stack A" "al_buf A" "calm A es e"
  shows "\<exists>e'. run_events (emcy_exec A) es e = Some e' \<and> emcy_rel gap e' (fold spec_step es s)"
  using assms
proof (induction es arbitrary: e s)
  case (Cons ev es)
  then obtain e1 where e1: "emcy_exec A ev e = Some e1" "emcy_rel gap e1 (spec_step ev s)" using exec_rel [of gap e s A ev] by auto
  then show ?case using Cons by auto
qed auto


lemma start_frame:
  "em_dev (co_emcy_start now e) = em_dev e" "em_msgs (co_emcy_start now e) = em_msgs e" "em_buf (co_emcy_start now e) = em_buf e"
  "em_timer (co_emcy_start now e) = em_timer e" "em_out (co_emcy_start now e) = em_out e"
proof -
  define step where "step = (\<lambda>i e. if co_dev_find_sub (dv_od (em_dev e)) 0x1028 (of_nat i) = None then e
     else co_emcy_set_1028 (of_nat i) (co_dev_get_val_u32 (dv_od (em_dev e)) 0x1028 (of_nat i)) e)"
  have nodes: "\<exists>f. fold step is e = e\<lparr>em_nodes := f\<rparr>" for "is" and e :: emcy
  proof (induction "is" arbitrary: e)
    case Nil
    show ?case by (intro exI [of _ "em_nodes e"]) simp
  next
    case (Cons i ks)
    obtain f where "step i e = e\<lparr>em_nodes := f\<rparr>"
      by (cases "co_dev_find_sub (dv_od (em_dev e)) 0x1028 (of_nat i) = None") (auto simp: step_def co_emcy_set_1028_def intro: that [of "em_nodes e"])
    then show ?case using Cons.IH [of "step i e"] by auto
  qed
  obtain f where f: "fold step [1..<Suc (emcy_maxid (dv_od (em_dev e)))] (e\<lparr>em_inhibit := now\<rparr>) = e\<lparr>em_inhibit := now, em_nodes := f\<rparr>"
    using nodes by blast
  have "co_emcy_start now e = (if \<not> em_stopped e then e else e\<lparr>em_inhibit := now, em_nodes := f, em_stopped := False\<rparr>)"
    unfolding co_emcy_start_def step_def [symmetric] f by simp
  then show "em_dev (co_emcy_start now e) = em_dev e" "em_msgs (co_emcy_start now e) = em_msgs e" "em_buf (co_emcy_start now e) = em_buf e"
    "em_timer (co_emcy_start now e) = em_timer e" "em_out (co_emcy_start now e) = em_out e" by auto
qed

lemma emcy_init_rel:
  assumes "co_emcy_init now dev = Some e" "emcy_shape (dv_od dev)" "field_is [] (dv_od dev)"
  shows "emcy_rel (emcy_gap e) e (spec_of_dev (dv_od dev))"
  using assms emcy_buf_init by (auto simp: co_emcy_init_def emcy_rel_def spec_of_dev_def start_frame paced_def split: if_splits)

section \<open>Properties\<close>

text \<open>C17. As long as allocation succeeds and fewer than fifteen messages wait before each event, the EMCY service implements its
  specification: every call, timer expiry and write to objects 1003 and 1014 returns; the stack, the error register (1001) and the pre-defined
  error field (1003) are those of the specification; the messages sent followed by those still waiting are exactly the reports of the specification
  in order; no two messages are closer than the inhibit time; and whenever a message waits, the timer is armed for the end of the inhibit time.\<close>

theorem emcy_reports:
  assumes "co_emcy_init now dev = Some e0" "emcy_shape (dv_od dev)" "field_is [] (dv_od dev)"
    and "al_stack A" "al_buf A" "calm A es e0"
  shows "\<exists>e. run_events (emcy_exec A) es e0 = Some e
     \<and> (let s = fold spec_step es (spec_of_dev (dv_od dev)); D = dv_od (em_dev e)
        in em_msgs e = sp_stack s \<and> co_dev_get_val_u8 D 0x1001 0 = sp_reg s \<and> field_is (sp_stack s) D
         \<and> map snd (sent (em_out e)) @ can_buf_list (em_buf e) = sp_frames s
         \<and> sorted_wrt (\<lambda>a b. a + emcy_gap e0 \<le> b) (map fst (sent (em_out e)))
         \<and> (can_buf_list (em_buf e) \<noteq> [] \<longrightarrow> em_timer e = Some (em_inhibit e)))"
proof -
  have "emcy_rel (emcy_gap e0) e0 (spec_of_dev (dv_od dev))" using assms(1-3) by (rule emcy_init_rel)
  from emcy_run_rel [OF this assms(4-6)] show ?thesis by (auto simp: emcy_rel_def paced_def Let_def)
qed

definition demo_emcy_dev :: co_device where
  "demo_emcy_dev = \<lparr>dv_od = [0x1001 \<mapsto> demo_obj [0 \<mapsto> par_sub 5 [0]], 0x1003 \<mapsto> demo_obj [0 \<mapsto> par_sub 5 [0], 1 \<mapsto> par_sub 7 [0, 0, 0, 0]],
     0x1014 \<mapsto> demo_obj [0 \<mapsto> par_sub 7 (stle_u32 0x81)], 0x1015 \<mapsto> demo_obj [0 \<mapsto> par_sub 6 (stle_u16 10)]], dv_id = 1, dv_dummy = 0\<rparr>"

definition demo_emcy :: emcy where "demo_emcy = the (co_emcy_init 0 demo_emcy_dev)"

definition demo_alloc :: alloc where "demo_alloc = \<lparr>al_stack = True, al_buf = True, al_fresh = (\<lambda>_. CAN_MSG_INIT)\<rparr>"

definition demo_emcy_events :: "emcy_act list" where
  "demo_emcy_events = [Ev_push 0 0x1000 0 None, Ev_push 5 0x2000 2 None, Ev_timer 1000000, Ev_pop 1000001, Ev_1003 0, Ev_1014 0x80000081]"

lemma demo_emcy_init: "co_emcy_init 0 demo_emcy_dev = Some demo_emcy"
  by (simp add: demo_emcy_def co_emcy_init_def demo_emcy_dev_def co_dev_find_sub_def demo_obj_def)

lemma two_subidx: "obj_subidx (demo_obj [0 \<mapsto> a, 1 \<mapsto> b]) = [0, 1]"
proof -
  have "filter (\<lambda>i. [0 \<mapsto> a, 1 \<mapsto> b] (of_nat i :: u8) \<noteq> None) [2..<256] = []"
    by (rule filter_False) (auto simp: word_unat_eq_iff unat_of_nat split: if_splits)
  moreover have "[0..<256] = [0, 1] @ [2..<256]" using upt_conv_Cons [of 0 256] upt_conv_Cons [of "Suc 0" 256]
    by (simp add: numeral_2_eq_2 del: upt_rec_numeral)
  ultimately show ?thesis by (simp add: obj_subidx_def demo_obj_def filter_map o_def del: upt_rec_numeral)
qed

lemma demo_emcy_od: "emcy_shape (dv_od demo_emcy_dev)" "field_is [] (dv_od demo_emcy_dev)"
  by (simp_all add: demo_emcy_dev_def emcy_shape_def typed_def co_dev_find_sub_def two_subidx field_is_def field_vals_def field_size_def
      history_def co_obj_get_subidx_def) (simp_all add: demo_obj_def par_sub_def demo_sub_def CO_DEFTYPE_UNSIGNED8_def CO_DEFTYPE_UNSIGNED32_def stle_u32_def)

text \<open>A run of at most fifteen events is calm.\<close>

lemma spec_step_frames: "length (sp_frames (spec_step ev s)) \<le> Suc (length (sp_frames s))"
  by (cases ev) (simp_all add: spec_report_def spec_remove_def Let_def)

lemma short_run_calm:
  assumes "emcy_rel gap e s" "al_stack A" "al_buf A" "length (sp_frames s) + length es \<le> 15"
  shows "calm A es e"
  using assms
proof (induction es arbitrary: e s)
  case (Cons ev es)
  have "length (can_buf_list (em_buf e)) < 15" using Cons.prems(1,4) by (auto simp: emcy_rel_def dest!: arg_cong [of _ _ length])
  then have room: "can_buf_size (em_buf e) < 15" by (simp add: length_can_buf_list word_less_nat_alt)
  from exec_rel [OF Cons.prems(1) this Cons.prems(2,3)] obtain e' where
    e': "emcy_exec A ev e = Some e'" "emcy_rel gap e' (spec_step ev s)" by blast
  have "calm A es e'" using Cons.IH [OF e'(2) Cons.prems(2,3)] Cons.prems(4) spec_step_frames [of ev s] by simp
  then show ?case using room e' by simp
qed simp

lemma demo_emcy_calm: "calm demo_alloc demo_emcy_events demo_emcy"
  by (rule short_run_calm [OF emcy_init_rel [OF demo_emcy_init demo_emcy_od]])
    (simp_all add: demo_alloc_def demo_emcy_events_def spec_of_dev_def)

theorem emcy_reports_witness:
  "\<exists>e. run_events (emcy_exec demo_alloc) demo_emcy_events demo_emcy = Some e \<and> em_msgs e = [] \<and> co_dev_get_val_u8 (dv_od (em_dev e)) 0x1001 0 = 1
     \<and> map snd (sent (em_out e)) @ can_buf_list (em_buf e)
         = [emcy_frame 0x81 0x1000 1 None, emcy_frame 0x81 0x2000 3 None, emcy_frame 0x81 0 1 (Some (stle_u16 0x1000 @ [0, 0, 0]))]"
proof -
  have s: "fold spec_step demo_emcy_events (spec_of_dev (dv_od demo_emcy_dev)) = \<lparr>sp_stack = [], sp_reg = 1, sp_cobid = 0x80000081,
      sp_frames = [emcy_frame 0x81 0x1000 1 None, emcy_frame 0x81 0x2000 3 None, emcy_frame 0x81 0 1 (Some (stle_u16 0x1000 @ [0, 0, 0]))]\<rparr>"
    by (simp add: demo_emcy_events_def spec_of_dev_def demo_emcy_dev_def co_dev_get_val_u8_def co_dev_get_val_u32_def co_dev_find_sub_def demo_obj_def par_sub_def
        demo_sub_def co_sub_get_val_u8_def co_sub_get_val_u32_def sub_bytes_def CO_DEFTYPE_UNSIGNED8_def CO_DEFTYPE_UNSIGNED32_def spec_report_def spec_remove_def
        registers_def CO_EMCY_COBID_VALID_def emcy_cobid_ok_def CO_EMCY_COBID_FRAME_def CAN_MASK_EID_def CAN_MASK_BID_def)
  have "al_stack demo_alloc" "al_buf demo_alloc" by (simp_all add: demo_alloc_def)
  from emcy_reports [OF demo_emcy_init demo_emcy_od this demo_emcy_calm] show ?thesis unfolding Let_def s by auto
qed

end
