(* ===== verification/Pheap.thy ===== *)
theory Pheap
  imports Main "HOL-Library.Multiset"
begin

text \<open>
  The pairing heap (\<open>upstream/src/util/pheap.c\<close>, \<open>upstream/include/lely/util/pheap.h\<close>) that holds the timers of a CAN network. A node
  is the element it is part of, and its list of children in the order of the sibling pointers; the comparison of keys is that of the function
  \<open>key\<close>. The locale \<open>prio\<close> is the contract of a priority queue whose keys may change outside of the queue.
\<close>

section \<open>Model\<close>

datatype 'a pnode = Pnode (pn_elem: 'a) (pn_child: "'a pnode list")

record 'a pheap =
  ph_root :: "'a pnode option"
  ph_num_nodes :: nat

definition pheap_init :: "'a pheap" where
  "pheap_init = \<lparr>ph_root = None, ph_num_nodes = 0\<rparr>"

definition pheap_size :: "'a pheap \<Rightarrow> nat" where "pheap_size heap = ph_num_nodes heap"

definition pheap_empty :: "'a pheap \<Rightarrow> bool" where "pheap_empty heap \<longleftrightarrow> pheap_size heap = 0"

definition pheap_first :: "'a pheap \<Rightarrow> 'a option" where "pheap_first heap = map_option pn_elem (ph_root heap)"

definition pnode_merge :: "('a \<Rightarrow> 'k::linorder) \<Rightarrow> 'a pnode option \<Rightarrow> 'a pnode \<Rightarrow> 'a pnode" where
  "pnode_merge key n1 n2 =
     (case n1 of
        None \<Rightarrow> n2
      | Some n1 \<Rightarrow>
          if key (pn_elem n1) \<ge> key (pn_elem n2) then Pnode (pn_elem n2) (n1 # pn_child n2)
          else Pnode (pn_elem n1) (n2 # pn_child n1))"

text \<open>The loop merges the first node with its next sibling until there is none.\<close>

fun pnode_merge_pairs :: "('a \<Rightarrow> 'k::linorder) \<Rightarrow> 'a pnode \<Rightarrow> 'a pnode list \<Rightarrow> 'a pnode" where
  "pnode_merge_pairs key node [] = node"
| "pnode_merge_pairs key node (n # ns) = pnode_merge_pairs key (pnode_merge key (Some node) n) ns"

definition pheap_insert :: "('a \<Rightarrow> 'k::linorder) \<Rightarrow> 'a \<Rightarrow> 'a pheap \<Rightarrow> 'a pheap" where
  "pheap_insert key x heap =
     \<lparr>ph_root = Some (case ph_root heap of
          None \<Rightarrow> Pnode x []
        | Some r \<Rightarrow> if key x < key (pn_elem r) then Pnode x [r] else Pnode (pn_elem r) (Pnode x [] # pn_child r)),
      ph_num_nodes = ph_num_nodes heap + 1\<rparr>"

text \<open>Taking a node out of the list of siblings it is in: the forest that is left and the children of the node.\<close>

fun pnode_cut :: "'a \<Rightarrow> 'a pnode list \<Rightarrow> ('a pnode list \<times> 'a pnode list) option" where
  "pnode_cut x [] = None"
| "pnode_cut x (Pnode y cs # ns) =
     (if y = x then Some (ns, cs)
      else case pnode_cut x cs of
        Some (cs', sub) \<Rightarrow> Some (Pnode y cs' # ns, sub)
      | None \<Rightarrow> map_option (\<lambda>(ns', sub). (Pnode y cs # ns', sub)) (pnode_cut x ns))"

definition pheap_remove :: "('a \<Rightarrow> 'k::linorder) \<Rightarrow> 'a \<Rightarrow> 'a pheap \<Rightarrow> 'a pheap" where
  "pheap_remove key x heap =
     (case pnode_cut x (case ph_root heap of None \<Rightarrow> [] | Some r \<Rightarrow> [r]) of
        None \<Rightarrow> heap
      | Some (rs, sub) \<Rightarrow>
          let root = (case rs of [] \<Rightarrow> None | r # _ \<Rightarrow> Some r)
          in \<lparr>ph_root = (case sub of [] \<Rightarrow> root | c # cs \<Rightarrow> Some (pnode_merge key root (pnode_merge_pairs key c cs))),
              ph_num_nodes = ph_num_nodes heap - 1\<rparr>)"

text \<open>\<open>pheap_find\<close> goes through the children of a node only if the key sought is greater than that of the node.\<close>

fun pnode_find :: "('a \<Rightarrow> 'k::linorder) \<Rightarrow> 'k \<Rightarrow> 'a pnode list \<Rightarrow> 'a option" where
  "pnode_find key k [] = None"
| "pnode_find key k (Pnode x cs # ns) =
     (if k = key x then Some x
      else if k > key x \<and> cs \<noteq> [] then (case pnode_find key k cs of Some y \<Rightarrow> Some y | None \<Rightarrow> pnode_find key k ns)
      else pnode_find key k ns)"

definition pheap_find :: "('a \<Rightarrow> 'k::linorder) \<Rightarrow> 'k \<Rightarrow> 'a pheap \<Rightarrow> 'a option" where
  "pheap_find key k heap = pnode_find key k (case ph_root heap of None \<Rightarrow> [] | Some r \<Rightarrow> [r])"

section \<open>Order and contents\<close>

fun forest_elems :: "'a pnode list \<Rightarrow> 'a multiset" where
  "forest_elems [] = {#}"
| "forest_elems (Pnode x cs # ns) = add_mset x (forest_elems cs + forest_elems ns)"

text \<open>A forest is in order when no node has a smaller key than the root above it.\<close>

fun forest_ok :: "('a \<Rightarrow> 'k::linorder) \<Rightarrow> 'a pnode list \<Rightarrow> bool" where
  "forest_ok key [] \<longleftrightarrow> True"
| "forest_ok key (Pnode x cs # ns) \<longleftrightarrow> list_all (\<lambda>c. key x \<le> key (pn_elem c)) cs \<and> forest_ok key cs \<and> forest_ok key ns"

definition pheap_elems :: "'a pheap \<Rightarrow> 'a multiset" where
  "pheap_elems heap = forest_elems (case ph_root heap of None \<Rightarrow> [] | Some r \<Rightarrow> [r])"

definition pheap_ok :: "('a \<Rightarrow> 'k::linorder) \<Rightarrow> 'a pheap \<Rightarrow> bool" where
  "pheap_ok key heap \<longleftrightarrow> forest_ok key (case ph_root heap of None \<Rightarrow> [] | Some r \<Rightarrow> [r])
     \<and> ph_num_nodes heap = size (pheap_elems heap) \<and> (\<forall>x. count (pheap_elems heap) x \<le> 1)"

lemma forest_elems_Cons: "forest_elems (n # ns) = forest_elems [n] + forest_elems ns"
  by (cases n) simp

lemma forest_ok_Cons: "forest_ok key (n # ns) \<longleftrightarrow> forest_ok key [n] \<and> forest_ok key ns"
  by (cases n) simp

lemma forest_one:
  "forest_elems [n] = add_mset (pn_elem n) (forest_elems (pn_child n))"
  "forest_ok key [n] \<longleftrightarrow> list_all (\<lambda>c. key (pn_elem n) \<le> key (pn_elem c)) (pn_child n) \<and> forest_ok key (pn_child n)"
  by (cases n; simp)+

lemma root_elem: "c \<in> set ns \<Longrightarrow> pn_elem c \<in># forest_elems ns"
  by (induction ns rule: forest_elems.induct) auto

lemma forest_min:
  "forest_ok key ns \<Longrightarrow> list_all (\<lambda>n. k \<le> key (pn_elem n)) ns \<Longrightarrow> y \<in># forest_elems ns \<Longrightarrow> k \<le> key y"
  by (induction key ns rule: forest_ok.induct) (auto simp: list_all_iff intro: order_trans)

lemma merge_elems: "forest_elems [pnode_merge key (Some a) b] = forest_elems [a] + forest_elems [b]"
  by (simp add: pnode_merge_def forest_one(1) forest_elems_Cons [of a] forest_elems_Cons [of b])

lemma merge_ok: "forest_ok key [a] \<Longrightarrow> forest_ok key [b] \<Longrightarrow> forest_ok key [pnode_merge key (Some a) b]"
  by (cases a; cases b) (auto simp: pnode_merge_def)

lemma merge_pairs_elems: "forest_elems [pnode_merge_pairs key n ns] = forest_elems (n # ns)"
proof (induction ns arbitrary: n)
  case (Cons m ms)
  have "forest_elems [pnode_merge_pairs key n (m # ms)] = forest_elems [pnode_merge key (Some n) m] + forest_elems ms"
    using Cons.IH [of "pnode_merge key (Some n) m"] forest_elems_Cons [of _ ms] by simp
  then show ?case using merge_elems [of key n m] forest_elems_Cons [of n "m # ms"] forest_elems_Cons [of m ms] by (simp add: ac_simps)
qed simp

lemma merge_pairs_ok: "forest_ok key (n # ns) \<Longrightarrow> forest_ok key [pnode_merge_pairs key n ns]"
proof (induction ns arbitrary: n)
  case (Cons m ms)
  then have "forest_ok key (pnode_merge key (Some n) m # ms)"
    using merge_ok [of key n m] forest_ok_Cons [of key n "m # ms"] forest_ok_Cons [of key m ms] forest_ok_Cons [of key _ ms] by blast
  then show ?case using Cons.IH by simp
qed simp

lemma cut_elems: "pnode_cut x ns = Some (rs, sub) \<Longrightarrow> forest_elems ns = add_mset x (forest_elems rs + forest_elems sub)"
  by (induction x ns arbitrary: rs sub rule: pnode_cut.induct) (auto split: if_splits option.splits)

lemma cut_none: "pnode_cut x ns = None \<longleftrightarrow> x \<notin># forest_elems ns"
  by (induction x ns rule: pnode_cut.induct) (auto split: if_splits option.splits)

lemma cut_ok:
  "pnode_cut x ns = Some (rs, sub) \<Longrightarrow> forest_ok key ns \<Longrightarrow> forest_ok key rs \<and> forest_ok key sub
     \<and> (\<forall>k. list_all (\<lambda>n. k \<le> key (pn_elem n)) ns \<longrightarrow> list_all (\<lambda>n. k \<le> key (pn_elem n)) rs)"
  by (induction x ns arbitrary: rs sub rule: pnode_cut.induct) (fastforce split: if_splits option.splits)+

lemma cut_one: "pnode_cut x [n] = Some (rs, sub) \<Longrightarrow> rs = [] \<or> (\<exists>r. rs = [r])"
  by (cases n) (auto split: if_splits option.splits)


text \<open>What \<open>pheap_find\<close> skips cannot have the key sought.\<close>

lemma find_sound: "pnode_find key k ns = Some y \<Longrightarrow> y \<in># forest_elems ns \<and> key y = k"
  by (induction key k ns rule: pnode_find.induct) (auto split: if_splits option.splits)

lemma find_complete: "forest_ok key ns \<Longrightarrow> pnode_find key k ns = None \<Longrightarrow> y \<in># forest_elems ns \<Longrightarrow> key y \<noteq> k"
proof (induction key k ns rule: pnode_find.induct)
  case (2 key k x cs ns)
  have "key x \<le> key z" if "z \<in># forest_elems cs" for z
    using forest_min [of key cs "key x" z] that 2(4) by simp
  then show ?case using 2 by (fastforce split: if_splits option.splits)
qed simp

section \<open>The contract of a priority queue\<close>

locale prio =
  fixes insert :: "('a \<Rightarrow> 'k::linorder) \<Rightarrow> 'a \<Rightarrow> 'q \<Rightarrow> 'q" and remove :: "('a \<Rightarrow> 'k) \<Rightarrow> 'a \<Rightarrow> 'q \<Rightarrow> 'q" and first :: "'q \<Rightarrow> 'a option"
    and invar :: "('a \<Rightarrow> 'k) \<Rightarrow> 'q \<Rightarrow> bool" and elems :: "'q \<Rightarrow> 'a set"
  assumes elems_finite: "finite (elems q)"
    and first_none: "invar key q \<Longrightarrow> first q = None \<longleftrightarrow> elems q = {}"
    and first_least: "invar key q \<Longrightarrow> first q = Some x \<Longrightarrow> x \<in> elems q \<and> (\<forall>y\<in>elems q. key x \<le> key y)"
    and insert_law: "invar key q \<Longrightarrow> x \<notin> elems q \<Longrightarrow> invar key (insert key x q) \<and> elems (insert key x q) = elems q \<union> {x}"
    and remove_law: "invar key q \<Longrightarrow> x \<in> elems q \<Longrightarrow> invar key (remove key x q) \<and> elems (remove key x q) = elems q - {x}"
    and key_cong: "invar key q \<Longrightarrow> (\<And>x. x \<in> elems q \<Longrightarrow> key' x = key x) \<Longrightarrow> invar key' q"
begin

text \<open>An element whose key changes is taken out and put in again.\<close>

lemma requeue:
  assumes "invar key q" "x \<in> elems q"
  shows "invar (key(x := k)) (insert (key(x := k)) x (remove key x q))" "elems (insert (key(x := k)) x (remove key x q)) = elems q"
proof -
  have r: "invar key (remove key x q)" "elems (remove key x q) = elems q - {x}" using remove_law [OF assms] by auto
  have "invar (key(x := k)) (remove key x q)" by (rule key_cong [OF r(1)]) (use r(2) in auto)
  from insert_law [OF this, of x] r(2) assms(2) show "invar (key(x := k)) (insert (key(x := k)) x (remove key x q))"
    "elems (insert (key(x := k)) x (remove key x q)) = elems q" by auto
qed

lemma enqueue:
  assumes "invar key q" "x \<notin> elems q"
  shows "invar (key(x := k)) (insert (key(x := k)) x q)" "elems (insert (key(x := k)) x q) = elems q \<union> {x}"
proof -
  have "invar (key(x := k)) q" by (rule key_cong [OF assms(1)]) (use assms(2) in auto)
  from insert_law [OF this assms(2)] show "invar (key(x := k)) (insert (key(x := k)) x q)" "elems (insert (key(x := k)) x q) = elems q \<union> {x}" by auto
qed

end

definition pheap_set :: "'a pheap \<Rightarrow> 'a set" where "pheap_set heap = set_mset (pheap_elems heap)"

lemma pheap_insert_ok:
  assumes "pheap_ok key heap" "x \<notin># pheap_elems heap"
  shows "pheap_ok key (pheap_insert key x heap)" "pheap_elems (pheap_insert key x heap) = add_mset x (pheap_elems heap)"
proof -
  show e: "pheap_elems (pheap_insert key x heap) = add_mset x (pheap_elems heap)"
    by (cases "ph_root heap") (auto simp: pheap_elems_def pheap_insert_def forest_one)
  have "forest_ok key (case ph_root (pheap_insert key x heap) of None \<Rightarrow> [] | Some r \<Rightarrow> [r])"
    using assms(1) by (cases "ph_root heap") (auto simp: pheap_ok_def pheap_insert_def forest_one(2))
  then show "pheap_ok key (pheap_insert key x heap)" using assms e by (auto simp: pheap_ok_def pheap_insert_def not_in_iff)
qed

lemma pheap_remove_ok:
  assumes "pheap_ok key heap" "x \<in># pheap_elems heap"
  shows "pheap_ok key (pheap_remove key x heap)" "pheap_elems heap = add_mset x (pheap_elems (pheap_remove key x heap))"
proof -
  obtain r where r: "ph_root heap = Some r" using assms(2) by (cases "ph_root heap") (auto simp: pheap_elems_def)
  then obtain rs sub where cut: "pnode_cut x [r] = Some (rs, sub)"
    using assms(2) cut_none [of x "[r]"] by (cases "pnode_cut x [r]") (auto simp: pheap_elems_def)
  note ok = cut_ok [OF cut, of key]
  have fr: "forest_ok key [r]" using assms(1) r by (simp add: pheap_ok_def)
  have root: "forest_elems (case ph_root (pheap_remove key x heap) of None \<Rightarrow> [] | Some r \<Rightarrow> [r]) = forest_elems rs + forest_elems sub
     \<and> forest_ok key (case ph_root (pheap_remove key x heap) of None \<Rightarrow> [] | Some r \<Rightarrow> [r])"
  proof (cases sub)
    case Nil
    then show ?thesis using cut_one [OF cut] ok fr r cut by (auto simp: pheap_remove_def Let_def)
  next
    case (Cons c cs)
    let ?m = "pnode_merge_pairs key c cs"
    have m: "forest_ok key [?m]" "forest_elems [?m] = forest_elems sub" using ok fr Cons merge_pairs_ok merge_pairs_elems by (metis, metis)
    from cut_one [OF cut] show ?thesis
    proof
      assume "rs = []"
      then show ?thesis using m r cut Cons by (simp add: pheap_remove_def Let_def pnode_merge_def)
    next
      assume "\<exists>a. rs = [a]"
      then obtain a where a: "rs = [a]" by blast
      then have "ph_root (pheap_remove key x heap) = Some (pnode_merge key (Some a) ?m)" using r cut Cons by (simp add: pheap_remove_def Let_def)
      then show ?thesis using m merge_elems [of key a ?m] merge_ok [of key a ?m] ok fr a by simp
    qed
  qed
  then show e: "pheap_elems heap = add_mset x (pheap_elems (pheap_remove key x heap))"
    using cut_elems [OF cut] r by (simp add: pheap_elems_def)
  have "ph_num_nodes (pheap_remove key x heap) = ph_num_nodes heap - 1" using r cut by (simp add: pheap_remove_def Let_def)
  moreover have "count (pheap_elems (pheap_remove key x heap)) y \<le> 1" for y
    using assms(1) unfolding pheap_ok_def e by (metis count_add_mset le_SucI Suc_le_mono order_trans nat_le_linear)
  ultimately show "pheap_ok key (pheap_remove key x heap)" using root assms(1) e by (simp add: pheap_ok_def)
qed

interpretation ph: prio pheap_insert pheap_remove pheap_first pheap_ok pheap_set
proof
  fix key key' :: "'a \<Rightarrow> 'k::linorder" and q :: "'a pheap" and x :: 'a
  show "finite (pheap_set q)" by (simp add: pheap_set_def)
  show "pheap_ok key q \<Longrightarrow> (pheap_first q = None) = (pheap_set q = {})"
    by (cases "ph_root q") (auto simp: pheap_first_def pheap_set_def pheap_elems_def forest_one)
  show "pheap_ok key q \<Longrightarrow> pheap_first q = Some x \<Longrightarrow> x \<in> pheap_set q \<and> (\<forall>y\<in>pheap_set q. key x \<le> key y)"
    using forest_min by (auto simp: pheap_first_def pheap_ok_def pheap_set_def pheap_elems_def forest_one)
  show "pheap_ok key q \<Longrightarrow> x \<notin> pheap_set q \<Longrightarrow> pheap_ok key (pheap_insert key x q) \<and> pheap_set (pheap_insert key x q) = pheap_set q \<union> {x}"
    using pheap_insert_ok [of key q x] by (auto simp: pheap_set_def)
  show "pheap_ok key (pheap_remove key x q) \<and> pheap_set (pheap_remove key x q) = pheap_set q - {x}" if "pheap_ok key q" "x \<in> pheap_set q"
  proof -
    have x: "x \<in># pheap_elems q" using that by (simp add: pheap_set_def)
    note r = pheap_remove_ok [OF that(1) x]
    have "count (pheap_elems q) x \<le> 1" using that(1) by (simp add: pheap_ok_def)
    then have "x \<notin># pheap_elems (pheap_remove key x q)" using r(2) by (simp add: not_in_iff)
    then show ?thesis using r by (auto simp: pheap_set_def)
  qed
  have "forest_ok key ns \<Longrightarrow> (\<And>x. x \<in># forest_elems ns \<Longrightarrow> key' x = key x) \<Longrightarrow> forest_ok key' ns" for ns
  proof (induction key ns rule: forest_ok.induct)
    case (2 key y cs ns)
    then show ?case using root_elem [of _ cs] by (auto simp: list_all_iff)
  qed simp
  then show "pheap_ok key q \<Longrightarrow> (\<And>x. x \<in> pheap_set q \<Longrightarrow> key' x = key x) \<Longrightarrow> pheap_ok key' q"
    by (auto simp: pheap_ok_def pheap_set_def pheap_elems_def)
qed

end
