(* ===== verification/Can_Net.thy ===== *)
theory Can_Net
  imports Pheap Rtt_Types
begin

text \<open>
  The CAN network interface (\<open>upstream/src/can/net.c\<close>) through which every service of the stack gets its frames and timers. Timers and
  receivers are named by numbers and kept in tables; the timers that run are in the pairing heap of \<open>Pheap\<close>. The search tree of receivers is
  the map it implements, from keys to the list of receivers that share the key: the first one is the node in the tree. Times are in
  nanoseconds. What a callback function does is a parameter: it returns a result and the calls it makes to the interface.
\<close>

unbundle bit_operations_syntax

section \<open>Model\<close>

record can_timer =
  tm_net :: bool \<comment> \<open>whether the timer is registered\<close>
  tm_start :: nat
  tm_interval :: nat
  tm_func :: bool

record can_recv =
  rc_net :: bool
  rc_key :: u64
  rc_func :: bool

datatype net_out = Fired nat nat \<comment> \<open>timer and the time it was set to\<close> | Next nat | Received nat can_msg | Send can_msg

record can_net =
  cn_timer_heap :: "nat pheap"
  cn_time :: nat
  cn_next :: nat
  cn_next_func :: bool
  cn_recv_tree :: "u64 \<Rightarrow> nat list"
  cn_send_func :: bool
  cn_timers :: "nat \<Rightarrow> can_timer"
  cn_recvs :: "nat \<Rightarrow> can_recv"
  cn_out :: "net_out list"

definition can_net_init :: can_net where
  "can_net_init = \<lparr>cn_timer_heap = pheap_init, cn_time = 0, cn_next = 0, cn_next_func = False, cn_recv_tree = (\<lambda>_. []), cn_send_func = False,
     cn_timers = (\<lambda>_. \<lparr>tm_net = False, tm_start = 0, tm_interval = 0, tm_func = False\<rparr>),
     cn_recvs = (\<lambda>_. \<lparr>rc_net = False, rc_key = 0, rc_func = False\<rparr>), cn_out = []\<rparr>"

definition start_of :: "can_net \<Rightarrow> nat \<Rightarrow> nat" where "start_of net i = tm_start (cn_timers net i)"

definition can_net_set_next :: "can_net \<Rightarrow> can_net" where
  "can_net_set_next net =
     (case pheap_first (cn_timer_heap net) of
        None \<Rightarrow> net
      | Some i \<Rightarrow> net\<lparr>cn_next := start_of net i, cn_out := cn_out net @ (if cn_next_func net then [Next (start_of net i)] else [])\<rparr>)"

definition can_timer_stop :: "nat \<Rightarrow> can_net \<Rightarrow> can_net" where
  "can_timer_stop i net =
     (if \<not> tm_net (cn_timers net i) then net
      else can_net_set_next (net\<lparr>cn_timer_heap := pheap_remove (start_of net) i (cn_timer_heap net),
             cn_timers := (cn_timers net)(i := (cn_timers net i)\<lparr>tm_net := False\<rparr>)\<rparr>))"

definition timer_set :: "nat \<Rightarrow> nat option \<Rightarrow> nat option \<Rightarrow> can_timer \<Rightarrow> can_timer" where
  "timer_set now start interval tm =
     (let iv = (case interval of None \<Rightarrow> 0 | Some d \<Rightarrow> d)
      in tm\<lparr>tm_interval := iv, tm_start := (case start of None \<Rightarrow> now + iv | Some t \<Rightarrow> t), tm_net := True\<rparr>)"

definition can_timer_start :: "nat \<Rightarrow> nat option \<Rightarrow> nat option \<Rightarrow> can_net \<Rightarrow> can_net" where
  "can_timer_start i start interval net =
     (let net = can_timer_stop i net
      in if start = None \<and> interval = None then net
         else let net = net\<lparr>cn_timers := (cn_timers net)(i := timer_set (cn_time net) start interval (cn_timers net i))\<rparr>
              in can_net_set_next (net\<lparr>cn_timer_heap := pheap_insert (start_of net) i (cn_timer_heap net)\<rparr>))"

definition can_timer_timeout :: "nat \<Rightarrow> int \<Rightarrow> can_net \<Rightarrow> can_net" where
  "can_timer_timeout i timeout net =
     (if timeout < 0 then can_timer_stop i net else can_timer_start i (Some (cn_time net + nat timeout * 1000000)) None net)"

definition can_recv_key :: "u32 \<Rightarrow> u8 \<Rightarrow> u64" where
  "can_recv_key n flags = ucast n OR push_bit 32 (ucast flags)"

definition can_recv_stop :: "nat \<Rightarrow> can_net \<Rightarrow> can_net" where
  "can_recv_stop r net =
     (let rc = cn_recvs net r
      in if \<not> rc_net rc then net
         else net\<lparr>cn_recv_tree := (cn_recv_tree net)(rc_key rc := remove1 r (cn_recv_tree net (rc_key rc))),
                  cn_recvs := (cn_recvs net)(r := rc\<lparr>rc_net := False\<rparr>)\<rparr>)"

text \<open>A receiver is put behind the first one with its key.\<close>

definition can_recv_start :: "nat \<Rightarrow> u32 \<Rightarrow> u8 \<Rightarrow> can_net \<Rightarrow> can_net" where
  "can_recv_start r n flags net =
     (let net = can_recv_stop r net; key = can_recv_key n flags
      in net\<lparr>cn_recvs := (cn_recvs net)(r := (cn_recvs net r)\<lparr>rc_net := True, rc_key := key\<rparr>),
             cn_recv_tree := (cn_recv_tree net)(key := case cn_recv_tree net key of [] \<Rightarrow> [r] | prev # rs \<Rightarrow> prev # r # rs)\<rparr>)"

definition can_net_send :: "can_msg \<Rightarrow> can_net \<Rightarrow> int \<times> can_net" where
  "can_net_send msg net = (if \<not> cn_send_func net then (-1, net) else (0, net\<lparr>cn_out := cn_out net @ [Send msg]\<rparr>))"

text \<open>The calls a callback function may make.\<close>

datatype net_op =
    Timer_start nat "nat option" "nat option" | Timer_stop nat | Timer_timeout nat int
  | Recv_start nat u32 u8 | Recv_stop nat | Net_send can_msg

fun net_exec :: "net_op \<Rightarrow> can_net \<Rightarrow> can_net" where
  "net_exec (Timer_start i start interval) net = can_timer_start i start interval net"
| "net_exec (Timer_stop i) net = can_timer_stop i net"
| "net_exec (Timer_timeout i timeout) net = can_timer_timeout i timeout net"
| "net_exec (Recv_start r n flags) net = can_recv_start r n flags net"
| "net_exec (Recv_stop r) net = can_recv_stop r net"
| "net_exec (Net_send msg) net = snd (can_net_send msg net)"

type_synonym timer_func = "nat \<Rightarrow> can_net \<Rightarrow> int \<times> net_op list"
type_synonym recv_func = "nat \<Rightarrow> can_msg \<Rightarrow> can_net \<Rightarrow> int \<times> net_op list"

text \<open>One round of \<open>can_net_set_time\<close>: the timer is taken out, put in again if it is periodic, and its function is called.\<close>

definition requeue_timer :: "nat \<Rightarrow> can_net \<Rightarrow> can_net" where
  "requeue_timer i net =
     (let net1 = net\<lparr>cn_timer_heap := pheap_remove (start_of net) i (cn_timer_heap net),
                     cn_timers := (cn_timers net)(i := (cn_timers net i)\<lparr>tm_net := False\<rparr>)\<rparr>;
          tm = cn_timers net1 i
      in if tm_interval tm = 0 then net1
         else let net2 = net1\<lparr>cn_timers := (cn_timers net1)(i := tm\<lparr>tm_start := tm_start tm + tm_interval tm, tm_net := True\<rparr>)\<rparr>
              in net2\<lparr>cn_timer_heap := pheap_insert (start_of net2) i (cn_timer_heap net2)\<rparr>)"

definition call_timer :: "timer_func \<Rightarrow> nat \<Rightarrow> nat \<Rightarrow> can_net \<Rightarrow> int \<times> can_net" where
  "call_timer cb i t net =
     (if \<not> tm_func (cn_timers net i) then (0, net)
      else let net = net\<lparr>cn_out := cn_out net @ [Fired i t]\<rparr>; (r, ops) = cb i net in (r, fold net_exec ops net))"

fun set_time_loop :: "nat \<Rightarrow> timer_func \<Rightarrow> int \<Rightarrow> can_net \<Rightarrow> (int \<times> can_net) option" where
  "set_time_loop 0 cb result net = None"
| "set_time_loop (Suc fuel) cb result net =
     (case pheap_first (cn_timer_heap net) of
        None \<Rightarrow> Some (result, net)
      | Some i \<Rightarrow>
          if start_of net i > cn_time net then Some (result, net)
          else let (r, net') = call_timer cb i (start_of net i) (requeue_timer i net)
               in set_time_loop fuel cb (if r \<noteq> 0 \<and> result = 0 then -1 else result) net')"

definition can_net_set_time :: "nat \<Rightarrow> timer_func \<Rightarrow> nat \<Rightarrow> can_net \<Rightarrow> (int \<times> can_net) option" where
  "can_net_set_time fuel cb tp net = map_option (map_prod (\<lambda>r. r) can_net_set_next) (set_time_loop fuel cb 0 (net\<lparr>cn_time := tp\<rparr>))"

text \<open>
  The loop of \<open>can_net_recv\<close> over the receivers with the key of the frame. The successor of a receiver is read before its function is called;
  a receiver that is not registered has none.
\<close>

definition recv_succ :: "can_net \<Rightarrow> nat \<Rightarrow> nat option" where
  "recv_succ net r = (if rc_net (cn_recvs net r) then (case dropWhile (\<lambda>s. s \<noteq> r) (cn_recv_tree net (rc_key (cn_recvs net r))) of _ # s # _ \<Rightarrow> Some s | _ \<Rightarrow> None) else None)"

fun recv_loop :: "nat \<Rightarrow> recv_func \<Rightarrow> can_msg \<Rightarrow> int \<Rightarrow> nat option \<Rightarrow> can_net \<Rightarrow> (int \<times> can_net) option" where
  "recv_loop fuel cb msg result None net = Some (result, net)"
| "recv_loop 0 cb msg result (Some r) net = None"
| "recv_loop (Suc fuel) cb msg result (Some r) net =
     (let succ = recv_succ net r
      in if \<not> rc_func (cn_recvs net r) then recv_loop fuel cb msg result succ net
         else let net = net\<lparr>cn_out := cn_out net @ [Received r msg]\<rparr>; (c, ops) = cb r msg net; net' = fold net_exec ops net
              in if c > 0 then Some (result, net')
                 else recv_loop fuel cb msg (if c < 0 \<and> result = 0 then -1 else result) succ net')"

definition can_net_recv :: "nat \<Rightarrow> recv_func \<Rightarrow> can_msg \<Rightarrow> can_net \<Rightarrow> (int \<times> can_net) option" where
  "can_net_recv fuel cb msg net =
     recv_loop fuel cb msg 0 (case cn_recv_tree net (can_recv_key (cm_id msg) (cm_flags msg)) of [] \<Rightarrow> None | r # _ \<Rightarrow> Some r) net"


section \<open>Invariant\<close>

definition timers_ok :: "can_net \<Rightarrow> bool" where
  "timers_ok net \<longleftrightarrow> pheap_ok (start_of net) (cn_timer_heap net) \<and> pheap_set (cn_timer_heap net) = {i. tm_net (cn_timers net i)}"

definition recvs_ok :: "can_net \<Rightarrow> bool" where
  "recvs_ok net \<longleftrightarrow> (\<forall>k. distinct (cn_recv_tree net k)) \<and> (\<forall>k r. r \<in> set (cn_recv_tree net k) \<longleftrightarrow> rc_net (cn_recvs net r) \<and> rc_key (cn_recvs net r) = k)"

definition net_inv :: "can_net \<Rightarrow> bool" where
  "net_inv net \<longleftrightarrow> timers_ok net \<and> recvs_ok net"

definition fired :: "net_out list \<Rightarrow> (nat \<times> nat) list" where
  "fired os = List.map_filter (\<lambda>x. case x of Fired i t \<Rightarrow> Some (i, t) | _ \<Rightarrow> None) os"

lemma fired_simps [simp]:
  "fired [] = []" "fired (xs @ ys) = fired xs @ fired ys" "fired [Fired i t] = [(i, t)]" "fired [Next t] = []" "fired [Received r m] = []" "fired [Send m] = []"
  by (simp_all add: fired_def map_filter_def)

text \<open>\<open>can_net_set_next\<close> changes neither timers nor receivers, and fires nothing.\<close>

lemma set_next_frame:
  "cn_timer_heap (can_net_set_next net) = cn_timer_heap net" "cn_time (can_net_set_next net) = cn_time net"
  "cn_timers (can_net_set_next net) = cn_timers net" "cn_recv_tree (can_net_set_next net) = cn_recv_tree net"
  "cn_recvs (can_net_set_next net) = cn_recvs net" "fired (cn_out (can_net_set_next net)) = fired (cn_out net)"
  "start_of (can_net_set_next net) = start_of net"
  by (auto simp: can_net_set_next_def start_of_def fun_eq_iff split: option.split)

lemma set_next_inv [simp]: "timers_ok (can_net_set_next net) = timers_ok net" "recvs_ok (can_net_set_next net) = recvs_ok net"
  by (simp_all add: timers_ok_def recvs_ok_def set_next_frame)

lemma set_next_least:
  assumes "timers_ok net" "tm_net (cn_timers net i)"
  shows "cn_next (can_net_set_next net) \<le> start_of net i"
proof -
  have ok: "pheap_ok (start_of net) (cn_timer_heap net)" "i \<in> pheap_set (cn_timer_heap net)" using assms by (auto simp: timers_ok_def)
  then obtain j where j: "pheap_first (cn_timer_heap net) = Some j" using ph.first_none [OF ok(1)] by auto
  then show ?thesis using ph.first_least [OF ok(1) j] ok(2) by (simp add: can_net_set_next_def)
qed

lemma stop_timers_ok:
  assumes "timers_ok net"
  shows "timers_ok (can_timer_stop i net)" "\<not> tm_net (cn_timers (can_timer_stop i net) i)"
    "cn_timers (can_timer_stop i net) = (cn_timers net)(i := (cn_timers net i)\<lparr>tm_net := False\<rparr>)"
    "cn_time (can_timer_stop i net) = cn_time net" "fired (cn_out (can_timer_stop i net)) = fired (cn_out net)"
    "cn_recv_tree (can_timer_stop i net) = cn_recv_tree net" "cn_recvs (can_timer_stop i net) = cn_recvs net"
proof -
  let ?t = "(cn_timers net)(i := (cn_timers net i)\<lparr>tm_net := False\<rparr>)"
  let ?net = "net\<lparr>cn_timer_heap := pheap_remove (start_of net) i (cn_timer_heap net), cn_timers := ?t\<rparr>"
  have key: "start_of ?net = start_of net" by (auto simp: start_of_def)
  have "timers_ok ?net" if "tm_net (cn_timers net i)"
    using assms ph.remove_law [of "start_of net" "cn_timer_heap net" i] that by (auto simp: timers_ok_def key)
  then show "timers_ok (can_timer_stop i net)" using assms by (simp add: can_timer_stop_def)
  show t: "cn_timers (can_timer_stop i net) = ?t" by (auto simp: can_timer_stop_def set_next_frame fun_eq_iff)
  show "\<not> tm_net (cn_timers (can_timer_stop i net) i)" by (simp add: t)
qed (auto simp: can_timer_stop_def set_next_frame)

lemma add_timer_ok:
  assumes "timers_ok net" "\<not> tm_net (cn_timers net i)" "tm_net tm"
  defines "net1 \<equiv> net\<lparr>cn_timers := (cn_timers net)(i := tm)\<rparr>"
  shows "timers_ok (net1\<lparr>cn_timer_heap := pheap_insert (start_of net1) i (cn_timer_heap net1)\<rparr>)"
proof -
  have key: "start_of net1 = (start_of net)(i := tm_start tm)" "start_of (net1\<lparr>cn_timer_heap := h\<rparr>) = start_of net1" for h
    by (auto simp: net1_def start_of_def)
  have "i \<notin> pheap_set (cn_timer_heap net)" using assms by (simp add: timers_ok_def)
  then show ?thesis using ph.enqueue [of "start_of net" "cn_timer_heap net" i "tm_start tm"] assms(1-3)
    by (auto simp: timers_ok_def key) (auto simp: net1_def)
qed


lemma start_effect:
  assumes "timers_ok net"
  shows "timers_ok (can_timer_start i start interval net)
     \<and> cn_timers (can_timer_start i start interval net) = (cn_timers net)(i := if start = None \<and> interval = None then (cn_timers net i)\<lparr>tm_net := False\<rparr>
         else timer_set (cn_time net) start interval (cn_timers net i))
     \<and> cn_time (can_timer_start i start interval net) = cn_time net \<and> fired (cn_out (can_timer_start i start interval net)) = fired (cn_out net)
     \<and> cn_recv_tree (can_timer_start i start interval net) = cn_recv_tree net \<and> cn_recvs (can_timer_start i start interval net) = cn_recvs net"
proof (cases "start = None \<and> interval = None")
  case True
  then show ?thesis using stop_timers_ok [OF assms, of i] by (simp add: can_timer_start_def)
next
  case False
  note stop = stop_timers_ok [OF assms, of i]
  let ?n = "can_timer_stop i net"
  let ?tm = "timer_set (cn_time ?n) start interval (cn_timers ?n i)"
  let ?n1 = "?n\<lparr>cn_timers := (cn_timers ?n)(i := ?tm)\<rparr>"
  have eq: "can_timer_start i start interval net = can_net_set_next (?n1\<lparr>cn_timer_heap := pheap_insert (start_of ?n1) i (cn_timer_heap ?n1)\<rparr>)"
    unfolding can_timer_start_def Let_def using False by (rule if_not_P)
  have tm: "?tm = timer_set (cn_time net) start interval (cn_timers net i)" using stop(3,4) by (simp add: timer_set_def Let_def)
  have "tm_net ?tm" by (simp add: timer_set_def Let_def)
  from add_timer_ok [OF stop(1,2) this] have "timers_ok (?n1\<lparr>cn_timer_heap := pheap_insert (start_of ?n1) i (cn_timer_heap ?n1)\<rparr>)" .
  moreover have "cn_timers ?n1 = (cn_timers net)(i := timer_set (cn_time net) start interval (cn_timers net i))" using tm stop(3) by simp
  ultimately show ?thesis unfolding eq if_not_P [OF False] using stop(4-7) by (simp add: set_next_frame)
qed

lemmas start_timers_ok = start_effect [THEN conjunct1] start_effect [THEN conjunct2, THEN conjunct1]
  start_effect [THEN conjunct2, THEN conjunct2, THEN conjunct1] start_effect [THEN conjunct2, THEN conjunct2, THEN conjunct2, THEN conjunct1]
  start_effect [THEN conjunct2, THEN conjunct2, THEN conjunct2, THEN conjunct2, THEN conjunct1]
  start_effect [THEN conjunct2, THEN conjunct2, THEN conjunct2, THEN conjunct2, THEN conjunct2]

text \<open>Receivers.\<close>

lemma recv_frame:
  "cn_timers (can_recv_stop r net) = cn_timers net" "cn_timer_heap (can_recv_stop r net) = cn_timer_heap net" "cn_time (can_recv_stop r net) = cn_time net"
  "cn_out (can_recv_stop r net) = cn_out net"
  "cn_timers (can_recv_start r n flags net) = cn_timers net" "cn_timer_heap (can_recv_start r n flags net) = cn_timer_heap net"
  "cn_time (can_recv_start r n flags net) = cn_time net" "cn_out (can_recv_start r n flags net) = cn_out net"
  by (simp_all add: can_recv_stop_def can_recv_start_def Let_def)

lemma recv_stop_ok: "recvs_ok net \<Longrightarrow> recvs_ok (can_recv_stop r net) \<and> \<not> rc_net (cn_recvs (can_recv_stop r net) r)"
  by (auto simp: recvs_ok_def can_recv_stop_def Let_def split: if_splits)

lemma recv_start_ok:
  assumes "recvs_ok net"
  shows "recvs_ok (can_recv_start r n flags net)"
proof -
  let ?n = "can_recv_stop r net" and ?k = "can_recv_key n flags"
  have s: "recvs_ok ?n" "\<not> rc_net (cn_recvs ?n r)" using recv_stop_ok [OF assms] by auto
  then have new: "r \<notin> set (cn_recv_tree ?n k)" for k by (simp add: recvs_ok_def)
  have d: "distinct (cn_recv_tree ?n ?k)" using s(1) by (simp add: recvs_ok_def)
  define l where "l = (case cn_recv_tree ?n ?k of [] \<Rightarrow> [r] | prev # rs \<Rightarrow> prev # r # rs)"
  have l: "set l = insert r (set (cn_recv_tree ?n ?k))" "distinct l"
    using new [of ?k] d by (cases "cn_recv_tree ?n ?k"; auto simp: l_def)+
  have eq: "can_recv_start r n flags net = ?n\<lparr>cn_recvs := (cn_recvs ?n)(r := (cn_recvs ?n r)\<lparr>rc_net := True, rc_key := ?k\<rparr>), cn_recv_tree := (cn_recv_tree ?n)(?k := l)\<rparr>"
    by (simp add: can_recv_start_def Let_def l_def)
  show ?thesis using s(1) new l unfolding eq recvs_ok_def by auto
qed

lemma can_recv_key_inj: "can_recv_key n f = can_recv_key m g \<longleftrightarrow> n = m \<and> f = g"
proof
  assume eq: "can_recv_key n f = can_recv_key m g"
  have "bit n i = bit m i" if "i < 32" for i
    using arg_cong [OF eq, of "\<lambda>w. bit w i"] that by (simp add: can_recv_key_def bit_or_iff bit_push_bit_iff bit_ucast_iff)
  moreover have "bit f i = bit g i" if "i < 8" for i
    using arg_cong [OF eq, of "\<lambda>w. bit w (i + 32)"] that
      bit_imp_le_length [of n "i + 32"] bit_imp_le_length [of m "i + 32"]
    by (auto simp: can_recv_key_def bit_or_iff bit_push_bit_iff bit_ucast_iff)
  ultimately show "n = m \<and> f = g" by (auto intro!: bit_word_eqI)
qed simp

lemma recvs_cong: "cn_recv_tree net' = cn_recv_tree net \<Longrightarrow> cn_recvs net' = cn_recvs net \<Longrightarrow> recvs_ok net' = recvs_ok net"
  by (simp add: recvs_ok_def)

lemma timers_cong: "cn_timers net' = cn_timers net \<Longrightarrow> cn_timer_heap net' = cn_timer_heap net \<Longrightarrow> timers_ok net' = timers_ok net"
  by (simp add: timers_ok_def start_of_def [abs_def])

lemma net_exec_inv:
  assumes "net_inv net"
  shows "net_inv (net_exec op net)"
proof -
  have t: "timers_ok net" and r: "recvs_ok net" using assms by (auto simp: net_inv_def)
  have start: "net_inv (can_timer_start i start interval net)" for i start interval
    using start_effect [OF t] r recvs_cong [of "can_timer_start i start interval net" net] by (simp add: net_inv_def)
  have stop: "net_inv (can_timer_stop i net)" for i
    using stop_timers_ok [OF t] r recvs_cong [of "can_timer_stop i net" net] by (simp add: net_inv_def)
  have recv: "net_inv (can_recv_stop i net)" "net_inv (can_recv_start i n flags net)" for i n flags
    using t recv_stop_ok [OF r] recv_start_ok [OF r] timers_cong [of "can_recv_stop i net" net] timers_cong [of "can_recv_start i n flags net" net]
    by (simp_all add: net_inv_def recv_frame)
  have send: "net_inv (snd (can_net_send m net))" for m
    using t r timers_cong [of "snd (can_net_send m net)" net] recvs_cong [of "snd (can_net_send m net)" net] by (simp add: net_inv_def can_net_send_def)
  show ?thesis using start stop recv send by (cases op) (simp_all add: can_timer_timeout_def)
qed


section \<open>Due timers\<close>

text \<open>How often, and for which times, a timer expires until \<open>now\<close> if nobody touches it.\<close>

definition due_count :: "nat \<Rightarrow> can_timer \<Rightarrow> nat" where
  "due_count now tm =
     (if tm_net tm \<and> tm_start tm \<le> now then (if tm_interval tm = 0 then 1 else Suc ((now - tm_start tm) div tm_interval tm)) else 0)"

definition due_times :: "nat \<Rightarrow> can_timer \<Rightarrow> nat list" where
  "due_times now tm = map (\<lambda>k. tm_start tm + k * tm_interval tm) [0..<due_count now tm]"

definition due_total :: "nat \<Rightarrow> can_net \<Rightarrow> nat" where
  "due_total now net = (\<Sum>i\<in>pheap_set (cn_timer_heap net). due_count now (cn_timers net i))"

definition next_timer :: "can_timer \<Rightarrow> can_timer" where
  "next_timer tm = (if tm_interval tm = 0 then tm\<lparr>tm_net := False\<rparr> else tm\<lparr>tm_start := tm_start tm + tm_interval tm, tm_net := True\<rparr>)"

fun touches :: "nat \<Rightarrow> net_op \<Rightarrow> bool" where
  "touches i (Timer_start j _ _) \<longleftrightarrow> i = j"
| "touches i (Timer_stop j) \<longleftrightarrow> i = j"
| "touches i (Timer_timeout j _) \<longleftrightarrow> i = j"
| "touches i _ \<longleftrightarrow> False"

text \<open>A call that starts a timer starts it for a time to come.\<close>

fun later :: "nat \<Rightarrow> net_op \<Rightarrow> bool" where
  "later now (Timer_start _ start interval) \<longleftrightarrow> (case start of Some t \<Rightarrow> now < t | None \<Rightarrow> interval \<noteq> Some 0)"
| "later now (Timer_timeout _ timeout) \<longleftrightarrow> timeout \<noteq> 0"
| "later now _ \<longleftrightarrow> True"

lemma due_count_next:
  assumes "tm_net tm" "tm_start tm \<le> now"
  shows "due_count now tm = Suc (due_count now (next_timer tm))"
proof (cases "tm_interval tm = 0")
  case False
  show ?thesis
  proof (cases "tm_start tm + tm_interval tm \<le> now")
    case True
    then have "(now - tm_start tm) div tm_interval tm = Suc ((now - (tm_start tm + tm_interval tm)) div tm_interval tm)"
      using False le_div_geq [of "tm_interval tm" "now - tm_start tm"] by simp
    then show ?thesis using assms False True by (simp add: due_count_def next_timer_def)
  next
    case 2: False
    then have "(now - tm_start tm) div tm_interval tm = 0" using assms(2) by simp
    then show ?thesis using assms False 2 by (simp add: due_count_def next_timer_def)
  qed
qed (use assms in \<open>simp add: due_count_def next_timer_def\<close>)

lemma due_times_next:
  assumes "tm_net tm" "tm_start tm \<le> now"
  shows "due_times now tm = tm_start tm # due_times now (next_timer tm)"
proof (cases "tm_interval tm = 0")
  case True
  then show ?thesis using assms by (simp add: due_times_def due_count_def next_timer_def)
next
  case False
  then have "tm_start (next_timer tm) = tm_start tm + tm_interval tm" "tm_interval (next_timer tm) = tm_interval tm" by (simp_all add: next_timer_def)
  then show ?thesis unfolding due_times_def due_count_next [OF assms] upt_conv_Cons [OF zero_less_Suc] map_Suc_upt [symmetric]
    by (simp add: o_def)
qed

lemma due_zero: "due_count now tm = 0 \<longleftrightarrow> (tm_net tm \<longrightarrow> now < tm_start tm)"
  by (auto simp: due_count_def)

text \<open>The timer tables before and after calls that start timers only for times to come.\<close>

definition onwards :: "nat \<Rightarrow> can_net \<Rightarrow> can_net \<Rightarrow> bool" where
  "onwards now net net' \<longleftrightarrow> net_inv net' \<and> cn_time net' = now \<and> fired (cn_out net') = fired (cn_out net)
     \<and> (\<forall>j. tm_func (cn_timers net' j) = tm_func (cn_timers net j) \<and> (cn_timers net' j = cn_timers net j \<or> due_count now (cn_timers net' j) = 0))"

lemma exec_onwards:
  assumes "net_inv net" "cn_time net = now" "later now op"
  shows "onwards now net (net_exec op net)" "\<not> touches i op \<Longrightarrow> cn_timers (net_exec op net) i = cn_timers net i"
proof -
  have t: "timers_ok net" using assms(1) by (simp add: net_inv_def)
  note inv = net_exec_inv [OF assms(1), of op]
  have set: "due_count now (timer_set now start interval tm) = 0" if "later now (Timer_start k start interval)" "\<not> (start = None \<and> interval = None)"
    for start interval tm k using that by (auto simp: due_zero timer_set_def Let_def split: option.splits)
  have start: "onwards now net (can_timer_start k start interval net) \<and> (i \<noteq> k \<longrightarrow> cn_timers (can_timer_start k start interval net) i = cn_timers net i)"
    if "later now (Timer_start k start interval)" "net_inv (can_timer_start k start interval net)" for k start interval
    using start_effect [OF t, of k start interval] assms(2) that set [OF that(1)] unfolding onwards_def
    by (cases "start = None \<and> interval = None") (simp_all add: due_zero timer_set_def Let_def)
  have stop: "onwards now net (can_timer_stop k net) \<and> (i \<noteq> k \<longrightarrow> cn_timers (can_timer_stop k net) i = cn_timers net i)" if "net_inv (can_timer_stop k net)" for k
    using stop_timers_ok [OF t, of k] assms(2) that by (simp add: onwards_def due_zero)
  have "onwards now net (net_exec op net) \<and> (\<not> touches i op \<longrightarrow> cn_timers (net_exec op net) i = cn_timers net i)"
  proof (cases op)
    case (Timer_start k st iv)
    then show ?thesis using start [of k st iv] assms(3) inv by simp
  next
    case (Timer_stop k)
    then show ?thesis using stop [of k] inv by simp
  next
    case (Timer_timeout k timeout)
    then show ?thesis using stop [of k] start [of k "Some (now + nat timeout * 1000000)" None] assms(2,3) inv by (auto simp: can_timer_timeout_def)
  next
    case (Net_send m)
    then show ?thesis using inv assms(2) by (auto simp: onwards_def can_net_send_def)
  qed (use inv assms(2) in \<open>auto simp: onwards_def recv_frame\<close>)
  then show "onwards now net (net_exec op net)" "\<not> touches i op \<Longrightarrow> cn_timers (net_exec op net) i = cn_timers net i" by auto
qed

lemma ops_onwards:
  assumes "net_inv net" "cn_time net = now" "list_all (later now) ops"
  shows "onwards now net (fold net_exec ops net) \<and> (list_all (\<lambda>op. \<not> touches i op) ops \<longrightarrow> cn_timers (fold net_exec ops net) i = cn_timers net i)"
  using assms
proof (induction ops arbitrary: net)
  case Nil
  then show ?case by (simp add: onwards_def)
next
  case (Cons op ops)
  have 1: "onwards now net (net_exec op net)" "\<not> touches i op \<Longrightarrow> cn_timers (net_exec op net) i = cn_timers net i"
    using exec_onwards(1) [of net now op] exec_onwards(2) [of net now op i] Cons.prems by auto
  have 2: "onwards now (net_exec op net) (fold net_exec ops (net_exec op net))"
    "list_all (\<lambda>op. \<not> touches i op) ops \<Longrightarrow> cn_timers (fold net_exec ops (net_exec op net)) i = cn_timers (net_exec op net) i"
    using Cons.IH [of "net_exec op net"] 1(1) Cons.prems(3) by (auto simp: onwards_def)
  have "onwards now net (fold net_exec ops (net_exec op net))" using 1(1) 2(1) unfolding onwards_def by metis
  then show ?case using 1(2) 2(2) by simp
qed


lemma requeue_effect:
  assumes "net_inv net" "tm_net (cn_timers net i)"
  shows "net_inv (requeue_timer i net) \<and> cn_timers (requeue_timer i net) = (cn_timers net)(i := next_timer (cn_timers net i))
     \<and> cn_time (requeue_timer i net) = cn_time net \<and> cn_out (requeue_timer i net) = cn_out net"
proof -
  have t: "timers_ok net" and r: "recvs_ok net" using assms(1) by (auto simp: net_inv_def)
  let ?tm = "(cn_timers net i)\<lparr>tm_net := False\<rparr>"
  let ?n1 = "net\<lparr>cn_timer_heap := pheap_remove (start_of net) i (cn_timer_heap net), cn_timers := (cn_timers net)(i := ?tm)\<rparr>"
  have key: "start_of ?n1 = start_of net" by (auto simp: start_of_def)
  have n1: "timers_ok ?n1" using t ph.remove_law [of "start_of net" "cn_timer_heap net" i] assms(2) by (auto simp: timers_ok_def key)
  show ?thesis
  proof (cases "tm_interval (cn_timers net i) = 0")
    case True
    then have "requeue_timer i net = ?n1" by (simp add: requeue_timer_def Let_def)
    then show ?thesis using n1 r True recvs_cong [of ?n1 net] by (simp add: net_inv_def next_timer_def)
  next
    case False
    let ?tm2 = "next_timer (cn_timers net i)"
    let ?n2 = "?n1\<lparr>cn_timers := (cn_timers ?n1)(i := ?tm2)\<rparr>"
    let ?n3 = "?n2\<lparr>cn_timer_heap := pheap_insert (start_of ?n2) i (cn_timer_heap ?n2)\<rparr>"
    have eq: "requeue_timer i net = ?n3" using False by (simp add: requeue_timer_def Let_def next_timer_def)
    have "\<not> tm_net (cn_timers ?n1 i)" "tm_net ?tm2" using False by (simp_all add: next_timer_def)
    from add_timer_ok [OF n1 this] have "timers_ok ?n3" .
    then show ?thesis unfolding eq using r recvs_cong [of ?n3 net] by (simp add: net_inv_def)
  qed
qed

text \<open>One round.\<close>

lemma call_effect:
  assumes "net_inv net" "cn_time net = now" "tm_net (cn_timers net i)" "tm_start (cn_timers net i) \<le> now"
    and later: "\<And>j n. list_all (later now) (snd (cb j n))"
    and net': "net' = snd (call_timer cb i (start_of net i) (requeue_timer i net))"
  shows "net_inv net'" "cn_time net' = now"
    and "fired (cn_out net') = fired (cn_out net) @ (if tm_func (cn_timers net i) then [(i, start_of net i)] else [])"
    and "tm_func (cn_timers net' j) = tm_func (cn_timers net j)"
    and "cn_timers net' j = ((cn_timers net)(i := next_timer (cn_timers net i))) j \<or> due_count now (cn_timers net' j) = 0"
    and "(\<And>k n. list_all (\<lambda>op. \<not> touches j op) (snd (cb k n))) \<Longrightarrow> cn_timers net' j = ((cn_timers net)(i := next_timer (cn_timers net i))) j"
proof -
  let ?n = "requeue_timer i net"
  note req = requeue_effect [OF assms(1,3)]
  have func: "tm_func (cn_timers ?n j) = tm_func (cn_timers net j)" for j using req by (simp add: next_timer_def)
  have "onwards now (?n\<lparr>cn_out := cn_out ?n @ (if tm_func (cn_timers net i) then [Fired i (start_of net i)] else [])\<rparr>) net'
     \<and> ((\<forall>k n. list_all (\<lambda>op. \<not> touches j op) (snd (cb k n))) \<longrightarrow> cn_timers net' j = cn_timers ?n j)"
  proof (cases "tm_func (cn_timers net i)")
    case False
    then have "net' = ?n" using net' func by (simp add: call_timer_def)
    then show ?thesis using req False assms(2) by (simp add: onwards_def)
  next
    case True
    let ?n1 = "?n\<lparr>cn_out := cn_out ?n @ [Fired i (start_of net i)]\<rparr>"
    have n1: "net_inv ?n1" "cn_time ?n1 = now"
      using req assms(2) timers_cong [of ?n1 ?n] recvs_cong [of ?n1 ?n] by (simp_all add: net_inv_def)
    have "net' = fold net_exec (snd (cb i ?n1)) ?n1" using net' True func by (simp add: call_timer_def Let_def split_beta)
    then show ?thesis using ops_onwards [OF n1 later, of i ?n1 j] True by simp
  qed
  then show "net_inv net'" "cn_time net' = now"
    "fired (cn_out net') = fired (cn_out net) @ (if tm_func (cn_timers net i) then [(i, start_of net i)] else [])"
    "tm_func (cn_timers net' j) = tm_func (cn_timers net j)"
    "cn_timers net' j = ((cn_timers net)(i := next_timer (cn_timers net i))) j \<or> due_count now (cn_timers net' j) = 0"
    "(\<And>k n. list_all (\<lambda>op. \<not> touches j op) (snd (cb k n))) \<Longrightarrow> cn_timers net' j = ((cn_timers net)(i := next_timer (cn_timers net i))) j"
    using req func by (auto simp: onwards_def)
qed

lemma due_total_over:
  assumes "timers_ok net" "finite S" "pheap_set (cn_timer_heap net) \<subseteq> S"
  shows "due_total now net = (\<Sum>i\<in>S. due_count now (cn_timers net i))"
  unfolding due_total_def using assms by (intro sum.mono_neutral_left) (auto simp: timers_ok_def due_count_def)

lemma call_due_total:
  assumes "net_inv net" "cn_time net = now" "tm_net (cn_timers net i)" "tm_start (cn_timers net i) \<le> now"
    and later: "\<And>j n. list_all (later now) (snd (cb j n))"
    and net': "net' = snd (call_timer cb i (start_of net i) (requeue_timer i net))"
  shows "due_total now net' < due_total now net"
proof -
  note call = call_effect [OF assms]
  let ?S = "pheap_set (cn_timer_heap net) \<union> pheap_set (cn_timer_heap net')"
  have S: "finite ?S" using ph.elems_finite by blast
  have le: "due_count now (cn_timers net' j) \<le> due_count now (cn_timers net j)" for j
    using call(5) [of j] due_count_next [OF assms(3,4)] by (cases "j = i") auto
  have lt: "due_count now (cn_timers net' i) < due_count now (cn_timers net i)"
    using call(5) [of i] due_count_next [OF assms(3,4)] by auto
  have "i \<in> ?S" using assms(1,3) by (simp add: net_inv_def timers_ok_def)
  then have "(\<Sum>j\<in>?S. due_count now (cn_timers net' j)) < (\<Sum>j\<in>?S. due_count now (cn_timers net j))"
    using S le lt by (intro sum_strict_mono_ex1) auto
  then show ?thesis using assms(1) call(1) due_total_over [of net' ?S now] due_total_over [of net ?S now] S by (simp add: net_inv_def)
qed


definition timely :: "nat \<Rightarrow> timer_func \<Rightarrow> bool" where
  "timely now cb \<longleftrightarrow> (\<forall>j n. list_all (later now) (snd (cb j n)))"

definition untouched :: "timer_func \<Rightarrow> nat \<Rightarrow> bool" where
  "untouched cb i \<longleftrightarrow> (\<forall>j n. list_all (\<lambda>op. \<not> touches i op) (snd (cb j n)))"

lemma set_time_loop_fires:
  assumes "net_inv net" "cn_time net = now" "\<And>j n. list_all (later now) (snd (cb j n))" "due_total now net < fuel"
    and "\<And>i. tm_net (cn_timers net i) \<Longrightarrow> base \<le> start_of net i"
  shows "\<exists>r net' fs. set_time_loop fuel cb result net = Some (r, net') \<and> net_inv net' \<and> (\<forall>i. tm_net (cn_timers net' i) \<longrightarrow> now < start_of net' i)
     \<and> fired (cn_out net') = fired (cn_out net) @ fs \<and> sorted (map snd fs) \<and> (\<forall>x\<in>set fs. base \<le> snd x)
     \<and> (\<forall>i. tm_func (cn_timers net i) \<longrightarrow> untouched cb i \<longrightarrow> map snd (filter (\<lambda>x. fst x = i) fs) = due_times now (cn_timers net i))"
  using assms
proof (induction fuel arbitrary: net result base)
  case (Suc fuel)
  have t: "pheap_ok (start_of net) (cn_timer_heap net)" "pheap_set (cn_timer_heap net) = {i. tm_net (cn_timers net i)}"
    using Suc.prems(1) by (auto simp: net_inv_def timers_ok_def)
  have finished: ?case if "set_time_loop (Suc fuel) cb result net = Some (result, net)" "\<And>i. tm_net (cn_timers net i) \<Longrightarrow> now < start_of net i"
  proof -
    have "due_times now (cn_timers net i) = []" for i using that(2) [of i] by (auto simp: due_times_def due_count_def start_of_def)
    then show ?thesis using that Suc.prems(1) by (intro exI [of _ result] exI [of _ net] exI [of _ "[]"]) simp
  qed
  show ?case
  proof (cases "pheap_first (cn_timer_heap net)")
    case None
    then show ?thesis using ph.first_none [OF t(1)] t(2) by (intro finished) auto
  next
    case (Some i)
    have least: "start_of net i \<le> start_of net j" if "tm_net (cn_timers net j)" for j
      using ph.first_least [OF t(1) Some] t(2) that by auto
    have i: "tm_net (cn_timers net i)" using ph.first_least [OF t(1) Some] t(2) by auto
    show ?thesis
    proof (cases "start_of net i > now")
      case True
      then show ?thesis using Some Suc.prems(2) least order.strict_trans2 by (intro finished) auto
    next
      case False
      then have due: "tm_start (cn_timers net i) \<le> now" by (simp add: start_of_def)
      define c where "c = call_timer cb i (start_of net i) (requeue_timer i net)"
      define net1 where "net1 = snd c"
      note call = call_effect [OF Suc.prems(1,2) i due Suc.prems(3) net1_def [unfolded c_def]]
      have less: "due_total now net1 < fuel" using call_due_total [OF Suc.prems(1,2) i due Suc.prems(3) net1_def [unfolded c_def]] Suc.prems(4) by simp
      have base: "start_of net i \<le> start_of net1 j" if "tm_net (cn_timers net1 j)" for j
        using call(5) [of j] that False least [of j] by (auto simp: start_of_def due_zero next_timer_def split: if_splits)
      obtain r net' fs where IH: "set_time_loop fuel cb (if fst c \<noteq> 0 \<and> result = 0 then -1 else result) net1 = Some (r, net')" "net_inv net'"
        "\<forall>j. tm_net (cn_timers net' j) \<longrightarrow> now < start_of net' j" "fired (cn_out net') = fired (cn_out net1) @ fs" "sorted (map snd fs)"
        "\<forall>x\<in>set fs. start_of net i \<le> snd x"
        "\<forall>j. tm_func (cn_timers net1 j) \<longrightarrow> untouched cb j \<longrightarrow> map snd (filter (\<lambda>x. fst x = j) fs) = due_times now (cn_timers net1 j)"
        using Suc.IH [OF call(1,2) Suc.prems(3) less base] by blast
      let ?fs = "(if tm_func (cn_timers net i) then [(i, start_of net i)] else []) @ fs"
      have "map snd (filter (\<lambda>x. fst x = j) ?fs) = due_times now (cn_timers net j)" if "tm_func (cn_timers net j)" "untouched cb j" for j
        using IH(7) call(4) [of j] call(6) [of j] that due_times_next [OF i due] by (auto simp: untouched_def start_of_def)
      moreover have "set_time_loop (Suc fuel) cb result net = Some (r, net')"
        using Some False Suc.prems(2) IH(1) by (simp add: net1_def split_beta c_def)
      moreover have "base \<le> start_of net i" using Suc.prems(5) i by simp
      ultimately show ?thesis using IH(2-6) call(3)
        by (intro exI [of _ r] exI [of _ net'] exI [of _ ?fs]) (auto intro: order_trans)
    qed
  qed
qed simp

section \<open>Dispatch of frames\<close>

text \<open>The receivers of a list, one after the other, until one takes the frame for itself.\<close>

fun deliver :: "recv_func \<Rightarrow> can_msg \<Rightarrow> int \<Rightarrow> nat list \<Rightarrow> can_net \<Rightarrow> int \<times> can_net" where
  "deliver cb msg result [] net = (result, net)"
| "deliver cb msg result (r # rs) net =
     (if \<not> rc_func (cn_recvs net r) then deliver cb msg result rs net
      else let net1 = net\<lparr>cn_out := cn_out net @ [Received r msg]\<rparr>; (c, ops) = cb r msg net1; net' = fold net_exec ops net1
           in if c > 0 then (result, net') else deliver cb msg (if c < 0 \<and> result = 0 then -1 else result) rs net')"

fun is_recv_op :: "net_op \<Rightarrow> bool" where
  "is_recv_op (Recv_start _ _ _) \<longleftrightarrow> True"
| "is_recv_op (Recv_stop _) \<longleftrightarrow> True"
| "is_recv_op _ \<longleftrightarrow> False"

text \<open>
  The contract of a callback function in \<open>upstream/include/lely/can/net.h\<close>: it must return a positive value, and so take the frame, if it
  may have changed the list of receivers.
\<close>

definition polite :: "recv_func \<Rightarrow> can_msg \<Rightarrow> bool" where
  "polite cb msg \<longleftrightarrow> (\<forall>r n. fst (cb r msg n) \<le> 0 \<longrightarrow> list_all (\<lambda>op. \<not> is_recv_op op) (snd (cb r msg n)))"

lemma exec_recvs:
  assumes "net_inv net" "\<not> is_recv_op op"
  shows "cn_recv_tree (net_exec op net) = cn_recv_tree net \<and> cn_recvs (net_exec op net) = cn_recvs net"
proof -
  have t: "timers_ok net" using assms(1) by (simp add: net_inv_def)
  show ?thesis using assms(2) start_effect [OF t] stop_timers_ok(6,7) [OF t] by (cases op) (simp_all add: can_timer_timeout_def can_net_send_def)
qed

lemma ops_recvs:
  "net_inv net \<Longrightarrow> list_all (\<lambda>op. \<not> is_recv_op op) ops \<Longrightarrow> net_inv (fold net_exec ops net)
     \<and> cn_recv_tree (fold net_exec ops net) = cn_recv_tree net \<and> cn_recvs (fold net_exec ops net) = cn_recvs net"
  by (induction ops arbitrary: net) (simp_all add: net_exec_inv exec_recvs)

lemma succ_split:
  assumes "recvs_ok net" "cn_recv_tree net k = xs @ r # rs"
  shows "recv_succ net r = (case rs of [] \<Rightarrow> None | s # _ \<Rightarrow> Some s)"
proof -
  have r: "rc_net (cn_recvs net r)" "rc_key (cn_recvs net r) = k" "r \<notin> set xs"
    using assms by (auto simp: recvs_ok_def) (metis distinct.simps(2) distinct_append in_set_conv_decomp not_distinct_conv_prefix)+
  then have "dropWhile (\<lambda>s. s \<noteq> r) (cn_recv_tree net k) = r # rs" unfolding assms(2) by (subst dropWhile_append2) auto
  then show ?thesis using r by (simp add: recv_succ_def split: list.split)
qed


lemma ops_inv: "net_inv net \<Longrightarrow> net_inv (fold net_exec ops net)"
  by (induction ops arbitrary: net) (simp_all add: net_exec_inv)

lemma out_inv: "net_inv (net\<lparr>cn_out := os\<rparr>) = net_inv net"
  using timers_cong [of "net\<lparr>cn_out := os\<rparr>" net] recvs_cong [of "net\<lparr>cn_out := os\<rparr>" net] by (simp add: net_inv_def)

lemma recv_loop_deliver:
  assumes "net_inv net" "cn_recv_tree net k = xs @ rs" "length rs \<le> fuel"
    and keep: "polite cb msg"
  shows "recv_loop fuel cb msg result (case rs of [] \<Rightarrow> None | r # _ \<Rightarrow> Some r) net = Some (deliver cb msg result rs net)
     \<and> net_inv (snd (deliver cb msg result rs net))"
  using assms(1-3)
proof (induction rs arbitrary: fuel net result xs)
  case (Cons r rs)
  obtain fuel' where fuel: "fuel = Suc fuel'" using Cons.prems(3) by (cases fuel) auto
  have succ: "recv_succ net r = (case rs of [] \<Rightarrow> None | s # _ \<Rightarrow> Some s)" using Cons.prems(1,2) succ_split by (simp add: net_inv_def)
  have step: "cn_recv_tree n k = (xs @ [r]) @ rs" if "cn_recv_tree n = cn_recv_tree net" for n using that Cons.prems(2) by simp
  show ?case
  proof (cases "rc_func (cn_recvs net r)")
    case False
    then show ?thesis using Cons.IH [OF Cons.prems(1) step [OF refl], of fuel' result] Cons.prems(3) fuel succ by simp
  next
    case True
    define net1 where "net1 = net\<lparr>cn_out := cn_out net @ [Received r msg]\<rparr>"
    obtain c ops where c: "cb r msg net1 = (c, ops)" by fastforce
    define net2 where "net2 = fold net_exec ops net1"
    have n1: "net_inv net1" "cn_recv_tree net1 = cn_recv_tree net" using Cons.prems(1) by (simp_all add: net1_def out_inv)
    show ?thesis
    proof (cases "c > 0")
      case pos: True
      then show ?thesis using True fuel c ops_inv [OF n1(1), of ops] by (simp add: net1_def [symmetric])
    next
      case neg: False
      have "net_inv net2" "cn_recv_tree net2 = cn_recv_tree net"
        using ops_recvs [OF n1(1), of ops] keep [unfolded polite_def, rule_format, of r net1] c neg n1(2) by (simp_all add: net2_def)
      from Cons.IH [OF this(1) step [OF this(2)], of fuel' "if c < 0 \<and> result = 0 then -1 else result"] show ?thesis
        using True neg fuel c succ Cons.prems(3) by (simp add: net1_def [symmetric] net2_def)
    qed
  qed
qed simp

section \<open>Properties\<close>

text \<open>C18. When the time of a CAN network is set and the callback functions start timers only for times to come, \<open>can_net_set_time\<close> ends:
  no timer that is still running is due, timers are called in the order of their expiry, every timer that no callback function touches
  is called for each of its expiry times up to now and no other, and the next wake-up is not later than any running timer. The pairing heap that
  holds the timers is the one of \<open>pheap.c\<close>.\<close>

theorem can_net_set_time_fires:
  assumes "net_inv net" "timely tp cb" "due_total tp net < fuel"
  shows "\<exists>r net' fs. can_net_set_time fuel cb tp net = Some (r, net') \<and> net_inv net'
     \<and> (\<forall>i. tm_net (cn_timers net' i) \<longrightarrow> tp < start_of net' i \<and> cn_next net' \<le> start_of net' i)
     \<and> fired (cn_out net') = fired (cn_out net) @ fs \<and> sorted (map snd fs)
     \<and> (\<forall>i. tm_func (cn_timers net i) \<longrightarrow> untouched cb i \<longrightarrow> map snd (filter (\<lambda>x. fst x = i) fs) = due_times tp (cn_timers net i))"
proof -
  let ?net = "net\<lparr>cn_time := tp\<rparr>"
  have inv: "net_inv ?net" using assms(1) timers_cong [of ?net net] recvs_cong [of ?net net] by (simp add: net_inv_def)
  have "due_total tp ?net < fuel" using assms(3) by (simp add: due_total_def)
  moreover have "list_all (later tp) (snd (cb j n))" for j n using assms(2) by (simp add: timely_def)
  ultimately obtain r net1 fs where
    "set_time_loop fuel cb 0 ?net = Some (r, net1)" "net_inv net1" "\<forall>i. tm_net (cn_timers net1 i) \<longrightarrow> tp < start_of net1 i"
    "fired (cn_out net1) = fired (cn_out net) @ fs" "sorted (map snd fs)"
    "\<forall>i. tm_func (cn_timers net i) \<longrightarrow> untouched cb i \<longrightarrow> map snd (filter (\<lambda>x. fst x = i) fs) = due_times tp (cn_timers net i)"
    using set_time_loop_fires [where cb = cb and base = 0 and result = 0, OF inv] by fastforce
  then show ?thesis using set_next_least [of net1]
    by (intro exI [of _ r] exI [of _ "can_net_set_next net1"] exI [of _ fs]) (simp add: can_net_set_time_def set_next_frame net_inv_def)
qed

text \<open>C19. A frame is given to the receivers registered for its identifier and flags, each once and to no other, in the order of their list
  (a new receiver is put behind the head of the list) up to the first one that takes it for itself, and the answer is -1 when one of them failed before that. This
  supposes the contract of the callback functions: one that starts or stops a receiver takes the frame.\<close>

theorem can_net_recv_dispatches:
  assumes "net_inv net" "polite cb msg"
    and "length (cn_recv_tree net (can_recv_key (cm_id msg) (cm_flags msg))) \<le> fuel"
  shows "let rs = cn_recv_tree net (can_recv_key (cm_id msg) (cm_flags msg))
     in can_net_recv fuel cb msg net = Some (deliver cb msg 0 rs net) \<and> distinct rs
       \<and> set rs = {r. rc_net (cn_recvs net r) \<and> rc_key (cn_recvs net r) = can_recv_key (cm_id msg) (cm_flags msg)}
       \<and> net_inv (snd (deliver cb msg 0 rs net))"
proof -
  let ?rs = "cn_recv_tree net (can_recv_key (cm_id msg) (cm_flags msg))"
  have "distinct ?rs" "set ?rs = {r. rc_net (cn_recvs net r) \<and> rc_key (cn_recvs net r) = can_recv_key (cm_id msg) (cm_flags msg)}"
    using assms(1) by (auto simp: net_inv_def recvs_ok_def)
  then show ?thesis using recv_loop_deliver [where xs = "[]" and result = 0 and rs = ?rs, OF assms(1) _ assms(3,2)]
    by (simp add: can_net_recv_def)
qed


definition demo_net :: can_net where
  "demo_net = fold net_exec [Timer_start 1 (Some 5) None, Timer_start 2 None (Some 3), Recv_start 4 0x80 0, Recv_start 5 0x80 0, Recv_start 6 0x81 0, Recv_start 7 0x80 0]
     (can_net_init\<lparr>cn_timers := (\<lambda>_. \<lparr>tm_net = False, tm_start = 0, tm_interval = 0, tm_func = True\<rparr>),
        cn_recvs := (\<lambda>_. \<lparr>rc_net = False, rc_key = 0, rc_func = True\<rparr>)\<rparr>)"

definition demo_timer_func :: timer_func where
  "demo_timer_func i net = (if i = 1 then (-1, [Timer_start 3 (Some 100) None, Recv_stop 5]) else (0, [Net_send \<lparr>cm_id = 1, cm_flags = 0, cm_len = 0, cm_data = []\<rparr>]))"

definition demo_recv_func :: recv_func where
  "demo_recv_func r msg net = (if r = 7 then (1, [Recv_stop 4, Timer_stop 1]) else (0, [Timer_timeout 1 20]))"

lemma net_init_inv: "net_inv (can_net_init\<lparr>cn_timers := (\<lambda>_. \<lparr>tm_net = False, tm_start = 0, tm_interval = 0, tm_func = f\<rparr>), cn_recvs := (\<lambda>_. \<lparr>rc_net = False, rc_key = 0, rc_func = g\<rparr>)\<rparr>)"
  by (simp add: net_inv_def timers_ok_def recvs_ok_def can_net_init_def pheap_init_def pheap_ok_def pheap_set_def pheap_elems_def)

lemma demo_net_inv: "net_inv demo_net"
  unfolding demo_net_def by (intro ops_inv net_init_inv)

lemma demo_net_timers: "cn_timers demo_net 2 = \<lparr>tm_net = True, tm_start = 3, tm_interval = 3, tm_func = True\<rparr>" "due_total 10 demo_net < 5"
  by (simp_all add: demo_net_def can_net_init_def pheap_init_def can_timer_start_def can_timer_stop_def timer_set_def can_recv_start_def can_recv_stop_def Let_def
      can_net_set_next_def pheap_insert_def pheap_first_def start_of_def due_total_def due_count_def pheap_set_def pheap_elems_def)

theorem can_net_set_time_fires_witness:
  "\<exists>r net' fs. can_net_set_time 5 demo_timer_func 10 demo_net = Some (r, net') \<and> fired (cn_out net') = fired (cn_out demo_net) @ fs
     \<and> sorted (map snd fs) \<and> map snd (filter (\<lambda>x. fst x = 2) fs) = [3, 6, 9]"
proof -
  have "timely 10 demo_timer_func" "untouched demo_timer_func 2" by (simp_all add: timely_def untouched_def demo_timer_func_def)
  moreover have "due_times 10 (cn_timers demo_net 2) = [3, 6, 9]" by (simp add: demo_net_timers due_times_def due_count_def upt_rec)
  ultimately show ?thesis using can_net_set_time_fires [OF demo_net_inv _ demo_net_timers(2), of demo_timer_func] demo_net_timers(1) by auto
qed

theorem can_net_recv_dispatches_witness:
  "can_net_recv 3 demo_recv_func \<lparr>cm_id = 0x80, cm_flags = 0, cm_len = 0, cm_data = []\<rparr> demo_net
     = Some (deliver demo_recv_func \<lparr>cm_id = 0x80, cm_flags = 0, cm_len = 0, cm_data = []\<rparr> 0 [4, 7, 5] demo_net)"
proof -
  let ?m = "\<lparr>cm_id = 0x80, cm_flags = 0, cm_len = 0, cm_data = []\<rparr>"
  have p: "polite demo_recv_func ?m" by (simp add: polite_def demo_recv_func_def)
  have l: "cn_recv_tree demo_net (can_recv_key (cm_id ?m) (cm_flags ?m)) = [4, 7, 5]"
    by (simp add: demo_net_def can_net_init_def can_timer_start_def can_timer_stop_def can_recv_start_def can_recv_stop_def Let_def set_next_frame can_recv_key_inj)
  show ?thesis using can_net_recv_dispatches [OF demo_net_inv p, of 3] unfolding l by (simp add: Let_def)
qed

end
