(* ===== verification/Spec2Isabelle.thy ===== *)
theory Spec2Isabelle
  imports Crc Can_Buf Rtt_Time Rtt_Can Rtt_Pin Rtt_Sdo_Request Rtt_Sdo_Channel Rtt_Sdo Rtt_Emcy
    Co_Csdo_Dcf Co_Nmt_Cfg Rtt_Call Rtt_Cfg Rtt_Snapshot Rtt_Lifecycle Co_Sdo_Faults
    Co_Sync Co_Nmt_Hb Co_Emcy Can_Net
begin

text \<open>
  \<^bold>\<open>A verification library for the Lely CANopen stack on RT-Thread.\<close>

  The repository is the Lely CANopen stack (\<open>upstream/\<close>) with a port to the RT-Thread kernel
  (\<open>port/rtthread/\<close>). The port runs the stack in one owner thread: applications, interrupt handlers and
  timers talk to the owner through atomic flags, reference counts, a command queue and published
  snapshots; the owner drives the stack, whose services (SDO, NMT, EMCY, PDO and others) are state machines over
  CAN frames and timers.

  \<^bold>\<open>The theories and the code they model.\<close> Definitions have the names of the functions they translate,
  without the prefix of the port where that would only repeat the theory.

  \<^item> \<open>Prelude\<close>, \<open>Bytes\<close>, \<open>Fifo\<close>, \<open>Rtt_Types\<close>: word types, lists and maps, little-endian stores and loads, queues,
    CAN frames, the runtime record.
  \<^item> \<open>Crc\<close> (\<open>co/crc.c\<close>), \<open>Can_Buf\<close> (\<open>can/buf.c\<close>), \<open>Membuf\<close> (\<open>util/membuf.c\<close>): the containers and the checksum that the
    services use, with unsigned wrap-around and the bounds of every access.
  \<^item> \<open>Co_Sdo\<close> (\<open>co/sdo.c\<close>, \<open>co/sdo.h\<close>), \<open>Co_Csdo\<close> (\<open>co/csdo.c\<close>), \<open>Co_Ssdo\<close> (\<open>co/ssdo.c\<close>): the SDO protocol. Client and server
    are records; each \<open>on_recv\<close>, \<open>on_enter\<close>, \<open>on_time\<close> and \<open>on_abort\<close> function of the code is a function from the
    record to the next state and the changed record; frames are appended to a list of sent frames,
    confirmations to a list of confirmations. Assertions of the code set a flag \<open>broken\<close> when they
    fail, and a call that does not return sets \<open>hung\<close>.
    The dictionary is a map of sub-objects with their type, access rights, flags and serialised value; a download through \<open>co_sub_dn\<close>
    (\<open>set_val\<close>) is distinguished from a value that the stack sets itself (\<open>put_val\<close>).
  \<^item> \<open>Co_Csdo_Inv\<close>: the client against any server, as a step relation over all events. \<open>Co_Sdo_Bus\<close>, \<open>Co_Sdo_Dn\<close>,
    \<open>Co_Sdo_Up\<close>, \<open>Co_Sdo_Blk\<close>: client and server over a bus that loses nothing, against the specification \<open>dn_verdict\<close>,
    \<open>dn_dev\<close>, \<open>up_answer\<close> of what a transfer should do to the object dictionary. \<open>Co_Sdo_Faults\<close>: what
    single bad or lost frames do.
  \<^item> \<open>Endian\<close> (\<open>util/endian.c\<close>), \<open>Co_Dev\<close> (\<open>co/dev.c\<close>, \<open>co/obj.c\<close>, \<open>co/type.c\<close>), \<open>Co_Pdo\<close> (\<open>co/pdo.c\<close>): bit copies, typed reads of the
    dictionary, and the packing and unpacking of process data, with \<open>None\<close> for an access outside of a buffer.
    \<open>Co_Pdo_Bits\<close>: what a frame carries, bit by bit, and the specification \<open>pdo_store\<close> of a received PDO.
  \<^item> \<open>Runs\<close>, \<open>Co_Rpdo\<close> (\<open>co/rpdo.c\<close>), \<open>Co_Tpdo\<close> (\<open>co/tpdo.c\<close>), \<open>Co_Sync\<close> (\<open>co/sync.c\<close>), \<open>Co_Nmt_Hb\<close> (\<open>co/nmt_hb.c\<close>), \<open>Co_Emcy\<close> (\<open>co/emcy.c\<close>): services driven by frames,
    timers and writes to their parameter objects. Each is a record with one function per callback; a run is a list of events, and
    the locale \<open>service\<close> of \<open>Runs\<close> says what it means that every admissible event is handled and keeps the invariant. It is
    interpreted for each service. \<open>Co_Pdo_Net\<close>: Transmit- and Receive-PDOs of two nodes over a bus.
  \<^item> \<open>Pheap\<close> (\<open>util/pheap.c\<close>), \<open>Can_Net\<close> (\<open>can/net.c\<close>): the pairing heap, which is an instance of the locale \<open>prio\<close> of priority queues, and the network
    interface that calls timers and receivers. Callback functions are parameters: a result and a list of calls to the interface.
  \<^item> \<open>Rtt_Dcf\<close>, \<open>Co_Csdo_Dcf\<close> (\<open>master_cfg.c\<close>, \<open>co/csdo.c\<close>): concise DCF files, the validation of the port and the reader of
    the stack. \<open>Co_Nmt_Cfg\<close> (\<open>co/nmt_cfg.c\<close>), \<open>Rtt_Cfg\<close> (\<open>master_cfg.c\<close> and the functions of \<open>co/nmt.c\<close> that it
    calls): the configuration of remote nodes.
  \<^item> \<open>Rtt_Sdo_Channel\<close>, \<open>Rtt_Sdo_Request\<close>, \<open>Rtt_Sdo\<close> (\<open>master_sdo_client.c\<close>, \<open>master_sdo_request.c\<close>, \<open>master_sdo.c\<close>): the SDO requests
    of the application, from the lock-free states of one request to the queues of the nodes.
  \<^item> \<open>Rtt_Pin\<close>, \<open>Rtt_Call\<close>, \<open>Rtt_Lifecycle\<close> (\<open>runtime.c\<close>, \<open>master_command.c\<close>): what threads and interrupts may do to the runtime
    while it starts and stops, as interleavings of atomic operations.
  \<^item> \<open>Rtt_Emcy\<close>, \<open>Rtt_Snapshot\<close> (\<open>master_emcy.c\<close>, \<open>runtime.c\<close>): what the owner publishes and others read without a lock.
  \<^item> \<open>Rtt_Can\<close>, \<open>Rtt_Time\<close> (\<open>can.c\<close>, \<open>time.c\<close>, \<open>timer.c\<close>): the CAN driver bridge and the clock.

  \<^bold>\<open>What the theorems show.\<close> SDO transfers deliver: every download, upload and block download between idle ends
  ends by itself, with the value sent in the object unless that is flagged to refuse writes, or the bytes of the object at the client, or
  the reason why not; against any server that does not hang it the client keeps its buffers and confirms each request
  once, the one under way at an abort or time-out at the latest. PDOs carry the values of the mapped objects from one dictionary to another, at the SYNC objects
  and with the spacing that their parameters say; their parameters stay those of a well-typed dictionary through every write; producers
  and consumers of SYNC count together, a heartbeat consumer reports what a monitor would, and emergency messages come out in order, paced by the inhibit time. The network interface calls every due timer in order and gives a frame to the receivers registered for it, when callbacks keep their documented contract. The containers refine a queue, the checksum equals a bitwise reference. Requests of the
  application (SDO, configuration, synchronous calls) are completed exactly once, and not touched after
  they are freed when their owner serialises its calls as it has to, in every interleaving; the configuration service of the stack that is
  destroyed twice is the exception, which is shown; callbacks and posters are gone when the owner says so; waiting
  callers return; histories and snapshots return what a monitor of the events would. Several theorems show
  where the code does not do what it means to, each on a reachable state.

  \<^bold>\<open>Fuel and bounds.\<close> Loops that end are functions with termination proofs. The doubling loops of \<open>can_buf_reserve\<close>
  and \<open>membuf_reserve\<close> have fuel 29, enough for every size up to \<open>2 ^ 31\<close>, and for larger ones no fuel is
  enough, which is proved. The pass of the owner over a node has one round per queued request and one
  more. The configuration machine goes through at most five states per event. \<open>co_ssdo_up_buf\<close> has
  fuel 4: the default indication function gives the whole value at once. The reader of a DCF has one
  round per entry. The emergency history has depth 8 and the queue of a node depth 4, as the port
  defines them; a reader of a guarded slot is untorn as long as it is not overtaken by \<open>2 ^ 31 - 1\<close>
  publications or a reset, and a reset is shown to tear it.

  \<^bold>\<open>Not modelled.\<close> The shell, the automatic start and the log are user interface. The event and I/O libraries, the
  C library layer and the back ends for other platforms are called or replaced by the port. DCF files,
  gateways and wireless media are not linked by it. Of the stack, TIME, LSS, the NMT state machines with the boot
  procedure, the native representation of object values behind their serialised form (\<open>co_val_norm\<close>), files as values, and the balancing of the search tree of receivers, which appears as
  the map it implements, are left out. The services are driven by the frames of their receivers and by their timers, as the network interface
  calls them. The kernel of RT-Thread and the allocator are parameters.
\<close>

end
